(* ===== verification/Prelude.thy ===== *)
theory Prelude
  imports Main "HOL-Library.Word" "HOL-Library.Product_Lexorder"
begin

text \<open>
  What every component of the development shares: the result-and-state actions the
  asynchronous service methods are translated to (with their simplification rules, the
  preservation calculus and the frame calculus over them), Rust's saturating arithmetic on
  machine words, decimal rendering for \<open>format!\<close>, and the table operations
  (select, update-many, delete-many) that the database adapters issue.
\<close>

section \<open>Types\<close>

type_synonym u8 = "8 word"
type_synonym u16 = "16 word"
type_synonym u32 = "32 word"
type_synonym u64 = "64 word"

text \<open>Instants and durations (chrono, \<open>std::time\<close>) count nanoseconds.\<close>

type_synonym time = int

definition seconds :: "int \<Rightarrow> time" where
  "seconds n = n * 1000000000"

lemma seconds_less_iff [simp]: "seconds a < seconds b \<longleftrightarrow> a < b"
  by (simp add: seconds_def)

lemma seconds_le_iff [simp]: "seconds a \<le> seconds b \<longleftrightarrow> a \<le> b"
  by (simp add: seconds_def)

section \<open>Actions: state passing with an error result\<close>

text \<open>
  A fallible \<open>async fn\<close> with access to shared state is a function from the state to a
  result (\<open>Inl\<close> the error, \<open>Inr\<close> the value) and the state it leaves. The state
  survives an error: what was written before the \<open>?\<close> stays written.
\<close>

type_synonym ('s, 'e, 'a) action = "'s \<Rightarrow> ('e + 'a) \<times> 's"

definition ret :: "'a \<Rightarrow> ('s, 'e, 'a) action" where
  "ret x s = (Inr x, s)"

definition throw :: "'e \<Rightarrow> ('s, 'e, 'a) action" where
  "throw e s = (Inl e, s)"

definition bindE :: "('s, 'e, 'a) action \<Rightarrow> ('a \<Rightarrow> ('s, 'e, 'b) action) \<Rightarrow> ('s, 'e, 'b) action" where
  "bindE m f s = (case m s of (Inl e, s') \<Rightarrow> (Inl e, s') | (Inr x, s') \<Rightarrow> f x s')"

text \<open>\<open>match m.await { Ok(x) => .., Err(e) => .. }\<close>\<close>

definition handleE ::
  "('s, 'e, 'a) action \<Rightarrow> ('a \<Rightarrow> ('s, 'f, 'b) action) \<Rightarrow> ('e \<Rightarrow> ('s, 'f, 'b) action) \<Rightarrow> ('s, 'f, 'b) action"
where
  "handleE m f h s = (case m s of (Inl e, s') \<Rightarrow> h e s' | (Inr x, s') \<Rightarrow> f x s')"

definition getsE :: "('s \<Rightarrow> 'a) \<Rightarrow> ('s, 'e, 'a) action" where
  "getsE f s = (Inr (f s), s)"

definition modifyE :: "('s \<Rightarrow> 's) \<Rightarrow> ('s, 'e, unit) action" where
  "modifyE f s = (Inr (), f s)"

text \<open>An early return: \<open>if !ok { return Err(e) }\<close>.\<close>

definition requireE :: "bool \<Rightarrow> 'e \<Rightarrow> ('s, 'e, unit) action" where
  "requireE ok e = (if ok then ret () else throw e)"

text \<open>A \<open>for\<close> loop that pushes each iteration's value and stops at the first error.\<close>

fun mapE :: "('a \<Rightarrow> ('s, 'e, 'b) action) \<Rightarrow> 'a list \<Rightarrow> ('s, 'e, 'b list) action" where
  "mapE f [] = ret []"
| "mapE f (x # xs) = bindE (f x) (\<lambda>y. bindE (mapE f xs) (\<lambda>ys. ret (y # ys)))"

text \<open>A \<open>for\<close> loop without values.\<close>

fun for_each :: "('a \<Rightarrow> ('s, 'e, unit) action) \<Rightarrow> 'a list \<Rightarrow> ('s, 'e, unit) action" where
  "for_each f [] = ret ()"
| "for_each f (x # xs) = bindE (f x) (\<lambda>_. for_each f xs)"

definition outcome :: "('e + 'a) \<times> 's \<Rightarrow> 'e + 'a" where
  "outcome r = fst r"

definition final :: "('e + 'a) \<times> 's \<Rightarrow> 's" where
  "final r = snd r"

named_theorems act_eval \<open>running actions on a state\<close>
named_theorems act_defs \<open>unfolding the action combinators\<close>
named_theorems preserves_intros \<open>compositional rules of the preservation calculus\<close>
named_theorems frame_intros \<open>compositional rules of the frame calculus\<close>

lemmas action_defs [act_defs] =
  ret_def throw_def bindE_def handleE_def getsE_def modifyE_def requireE_def outcome_def final_def

lemma ret_bindE [simp]: "bindE (ret x) f = f x"
  by (simp add: act_defs fun_eq_iff)

lemma throw_bindE [simp]: "bindE (throw e) f = throw e"
  by (simp add: act_defs fun_eq_iff)

lemma bindE_assoc: "bindE (bindE m f) g = bindE m (\<lambda>x. bindE (f x) g)"
  by (auto simp: act_defs fun_eq_iff split: prod.splits sum.splits)

lemma ret_apply [act_eval]: "ret x s = (Inr x, s)"
  by (simp add: ret_def)

lemma throw_apply [act_eval]: "throw e s = (Inl e, s)"
  by (simp add: throw_def)

lemma getsE_apply [simp]: "getsE f s = (Inr (f s), s)"
  by (simp add: getsE_def)

lemma modifyE_apply [simp]: "modifyE f s = (Inr (), f s)"
  by (simp add: modifyE_def)

lemma modifyE_bindE [simp]: "bindE (modifyE f) g s = g () (f s)"
  by (simp add: bindE_def)

lemma getsE_bindE [simp]: "bindE (getsE f) g s = g (f s) s"
  by (simp add: bindE_def)

lemma outcome_simps [simp]: "outcome (r, s) = r" "final (r, s) = s"
  by (simp_all add: act_defs)

lemma bindE_okI: "m s = (Inr x, s1) \<Longrightarrow> bindE m f s = f x s1"
  by (simp add: bindE_def)

lemma bindE_errI: "m s = (Inl e, s1) \<Longrightarrow> bindE m f s = (Inl e, s1)"
  by (simp add: bindE_def)

lemma bindE_Inr_iff:
  "bindE m f s = (Inr y, t) \<longleftrightarrow> (\<exists>x s1. m s = (Inr x, s1) \<and> f x s1 = (Inr y, t))"
  by (auto simp: bindE_def split: prod.splits sum.splits)

lemma bindE_Inl_iff:
  "bindE m f s = (Inl e, t) \<longleftrightarrow>
     m s = (Inl e, t) \<or> (\<exists>x s1. m s = (Inr x, s1) \<and> f x s1 = (Inl e, t))"
  by (auto simp: bindE_def split: prod.splits sum.splits)

lemma requireE_simps [simp]:
  "requireE True e = ret ()" "requireE False e = throw e"
  by (simp_all add: requireE_def)

lemma requireE_apply: "requireE b e s = (if b then (Inr (), s) else (Inl e, s))"
  by (simp add: requireE_def act_eval)

lemma handleE_okI: "m s = (Inr x, s1) \<Longrightarrow> handleE m f h s = f x s1"
  by (simp add: handleE_def)

lemma handleE_errI: "m s = (Inl e, s1) \<Longrightarrow> handleE m f h s = h e s1"
  by (simp add: handleE_def)

subsection \<open>Invariants that an action preserves\<close>

definition preserves :: "('s \<Rightarrow> bool) \<Rightarrow> ('s, 'e, 'a) action \<Rightarrow> bool" where
  "preserves I m \<longleftrightarrow> (\<forall>s. I s \<longrightarrow> I (snd (m s)))"

lemma preservesI: "(\<And>s. I s \<Longrightarrow> I (snd (m s))) \<Longrightarrow> preserves I m"
  by (simp add: preserves_def)

lemma preservesD: "preserves I m \<Longrightarrow> I s \<Longrightarrow> m s = (r, t) \<Longrightarrow> I t"
  by (metis preserves_def snd_conv)

lemma preserves_ret [preserves_intros]: "preserves I (ret x)"
  by (simp add: preserves_def act_eval)

lemma preserves_throw [preserves_intros]: "preserves I (throw e)"
  by (simp add: preserves_def act_eval)

lemma preserves_getsE [preserves_intros]: "preserves I (getsE f)"
  by (simp add: preserves_def)

lemma preserves_requireE [preserves_intros]: "preserves I (requireE b e)"
  by (simp add: preserves_def requireE_def act_eval)

lemma preserves_modifyE: "(\<And>s. I s \<Longrightarrow> I (f s)) \<Longrightarrow> preserves I (modifyE f)"
  by (simp add: preserves_def)

lemma preserves_bindE [preserves_intros]:
  "preserves I m \<Longrightarrow> (\<And>x. preserves I (f x)) \<Longrightarrow> preserves I (bindE m f)"
  by (auto simp: preserves_def bindE_def split: prod.splits sum.splits)

lemma preserves_handleE [preserves_intros]:
  "preserves I m \<Longrightarrow> (\<And>x. preserves I (f x)) \<Longrightarrow> (\<And>e. preserves I (h e)) \<Longrightarrow> preserves I (handleE m f h)"
  by (auto simp: preserves_def handleE_def split: prod.splits sum.splits)

lemma preserves_if [preserves_intros]:
  "(b \<Longrightarrow> preserves I m) \<Longrightarrow> (\<not> b \<Longrightarrow> preserves I n) \<Longrightarrow> preserves I (if b then m else n)"
  by simp

lemma preserves_option [preserves_intros]:
  "preserves I m \<Longrightarrow> (\<And>x. preserves I (f x)) \<Longrightarrow> preserves I (case v of None \<Rightarrow> m | Some x \<Rightarrow> f x)"
  by (cases v) simp_all

lemma preserves_mapE [preserves_intros]:
  "(\<And>x. preserves I (f x)) \<Longrightarrow> preserves I (mapE f xs)"
  by (induction xs) (auto intro!: preserves_intros)

text \<open>A projection of the state that an action never changes.\<close>

definition frame :: "('s \<Rightarrow> 'v) \<Rightarrow> ('s, 'e, 'a) action \<Rightarrow> bool" where
  "frame g m \<longleftrightarrow> (\<forall>s. g (snd (m s)) = g s)"

lemma frame_iff_preserves: "frame g m \<longleftrightarrow> (\<forall>v. preserves (\<lambda>s. g s = v) m)"
  by (auto simp: frame_def preserves_def)

lemma frameD: "frame g m \<Longrightarrow> m s = (r, t) \<Longrightarrow> g t = g s"
  by (metis frame_def snd_conv)

lemma frame_ret [frame_intros]: "frame g (ret x)"
  by (simp add: frame_def act_eval)

lemma frame_throw [frame_intros]: "frame g (throw e)"
  by (simp add: frame_def act_eval)

lemma frame_getsE [frame_intros]: "frame g (getsE f)"
  by (simp add: frame_def)

lemma frame_requireE [frame_intros]: "frame g (requireE b e)"
  by (simp add: frame_def requireE_def act_eval)

lemma frame_modifyE: "(\<And>s. g (f s) = g s) \<Longrightarrow> frame g (modifyE f)"
  by (simp add: frame_def)

lemma frame_bindE [frame_intros]:
  "frame g m \<Longrightarrow> (\<And>x. frame g (f x)) \<Longrightarrow> frame g (bindE m f)"
  by (auto simp: frame_iff_preserves intro: preserves_bindE)

lemma frame_handleE [frame_intros]:
  "frame g m \<Longrightarrow> (\<And>x. frame g (f x)) \<Longrightarrow> (\<And>e. frame g (h e)) \<Longrightarrow> frame g (handleE m f h)"
  by (auto simp: frame_iff_preserves intro: preserves_handleE)

lemma frame_if [frame_intros]:
  "(b \<Longrightarrow> frame g m) \<Longrightarrow> (\<not> b \<Longrightarrow> frame g n) \<Longrightarrow> frame g (if b then m else n)"
  by simp

lemma frame_option [frame_intros]:
  "frame g m \<Longrightarrow> (\<And>x. frame g (f x)) \<Longrightarrow> frame g (case v of None \<Rightarrow> m | Some x \<Rightarrow> f x)"
  by (cases v) simp_all

lemma frame_mapE [frame_intros]:
  "(\<And>x. frame g (f x)) \<Longrightarrow> frame g (mapE f xs)"
  by (induction xs) (auto intro!: frame_intros)

section \<open>Saturating machine arithmetic\<close>

text \<open>Rust's \<open>saturating_add\<close> and \<open>saturating_sub\<close> on unsigned words.\<close>

definition sat_add :: "'a::len word \<Rightarrow> 'a word \<Rightarrow> 'a word" where
  "sat_add a b = (if unat a + unat b < 2 ^ LENGTH('a) then a + b else - 1)"

definition sat_sub :: "'a::len word \<Rightarrow> 'a word \<Rightarrow> 'a word" where
  "sat_sub a b = (if b \<le> a then a - b else 0)"

lemma unat_sat_add:
  "unat (sat_add a b) = min (unat a + unat b) (2 ^ LENGTH('a) - 1)" for a b :: "'a::len word"
proof (cases "unat a + unat b < 2 ^ LENGTH('a)")
  case True
  then show ?thesis by (simp add: sat_add_def unat_word_ariths)
next
  case False
  moreover have "unat (- 1 :: 'a word) = 2 ^ LENGTH('a) - 1"
    by (simp add: unat_minus_one unsigned_minus_1_eq_mask mask_eq_exp_minus_1)
  ultimately show ?thesis by (simp add: sat_add_def)
qed

lemma unat_sat_sub: "unat (sat_sub a b) = unat a - unat b" for a b :: "'a::len word"
  by (auto simp: sat_sub_def unat_sub word_le_nat_alt)

lemma unat_min: "unat (min a b) = min (unat a) (unat b)" for a b :: "'a::len word"
  by (simp add: min_def word_le_nat_alt)

lemma unat_max: "unat (max a b) = max (unat a) (unat b)" for a b :: "'a::len word"
  by (simp add: max_def word_le_nat_alt)

section \<open>Decimal rendering\<close>

fun show_nat :: "nat \<Rightarrow> string" where
  "show_nat n = (if n < 10 then [char_of (48 + n)] else show_nat (n div 10) @ [char_of (48 + n mod 10)])"

declare show_nat.simps [simp del]

definition show_int :: "int \<Rightarrow> string" where
  "show_int i = (if i < 0 then ''-'' @ show_nat (nat (- i)) else show_nat (nat i))"

lemma show_nat_nonempty: "show_nat n \<noteq> []"
  by (subst show_nat.simps) simp

section \<open>Tables\<close>

text \<open>
  A table is the list of its rows. \<open>update_where\<close> and \<open>delete_where\<close> are the
  \<open>UPDATE .. WHERE\<close> and \<open>DELETE .. WHERE\<close> statements, \<open>count_where\<close> the
  rows they affect.
\<close>

definition count_where :: "('r \<Rightarrow> bool) \<Rightarrow> 'r list \<Rightarrow> nat" where
  "count_where p rows = length (filter p rows)"

definition update_where :: "('r \<Rightarrow> bool) \<Rightarrow> ('r \<Rightarrow> 'r) \<Rightarrow> 'r list \<Rightarrow> 'r list" where
  "update_where p f rows = map (\<lambda>r. if p r then f r else r) rows"

definition delete_where :: "('r \<Rightarrow> bool) \<Rightarrow> 'r list \<Rightarrow> 'r list" where
  "delete_where p rows = filter (\<lambda>r. \<not> p r) rows"

text \<open>\<open>.one()\<close>: the first row of the result, in the table's order.\<close>

definition find_row :: "('r \<Rightarrow> bool) \<Rightarrow> 'r list \<Rightarrow> 'r option" where
  "find_row p rows = List.find p rows"

lemma find_row_Some: "find_row p rows = Some r \<Longrightarrow> r \<in> set rows \<and> p r"
  by (auto simp: find_row_def find_Some_iff)

lemma find_row_None: "find_row p rows = None \<longleftrightarrow> (\<forall>r \<in> set rows. \<not> p r)"
  by (auto simp: find_row_def find_None_iff)

lemma find_row_unique:
  assumes "distinct (map k rows)" and "r \<in> set rows"
  shows "find_row (\<lambda>x. k x = k r) rows = Some r"
  using assms
proof (induction rows)
  case Nil
  then show ?case by simp
next
  case (Cons x xs)
  then show ?case by (auto simp: find_row_def)
qed

lemma find_row_key_eq:
  assumes "distinct (map k rows)" and "r \<in> set rows" and "k r = i"
  shows "find_row (\<lambda>x. k x = i) rows = Some r"
  using find_row_unique [OF assms(1,2)] assms(3) by simp

lemma update_where_empty [simp]: "update_where p f [] = []"
  by (simp add: update_where_def)

lemma update_where_id: "(\<forall>r \<in> set rows. \<not> p r) \<Longrightarrow> update_where p f rows = rows"
  by (induction rows) (auto simp: update_where_def)

lemma length_update_where [simp]: "length (update_where p f rows) = length rows"
  by (simp add: update_where_def)

lemma set_update_where:
  "set (update_where p f rows) = {r \<in> set rows. \<not> p r} \<union> f ` {r \<in> set rows. p r}"
  by (auto simp: update_where_def)

lemma map_update_where:
  "(\<And>r. k (f r) = k r) \<Longrightarrow> map k (update_where p f rows) = map k rows"
  by (simp add: update_where_def)

lemma in_update_whereE:
  assumes "r \<in> set (update_where p f rows)"
  obtains (same) "r \<in> set rows" "\<not> p r" | (changed) x where "x \<in> set rows" "p x" "r = f x"
  using assms by (auto simp: update_where_def split: if_splits)

lemma set_delete_where [simp]: "set (delete_where p rows) = {r \<in> set rows. \<not> p r}"
  by (auto simp: delete_where_def)

lemma distinct_map_delete_where: "distinct (map k rows) \<Longrightarrow> distinct (map k (delete_where p rows))"
  by (simp add: delete_where_def distinct_map_filter)

lemma count_where_zero: "count_where p rows = 0 \<longleftrightarrow> (\<forall>r \<in> set rows. \<not> p r)"
  by (simp add: count_where_def filter_empty_conv)

lemma count_where_key:
  assumes "distinct (map k rows)"
  shows "count_where (\<lambda>r. k r = i \<and> q r) rows = (if \<exists>r \<in> set rows. k r = i \<and> q r then 1 else 0)"
  using assms
proof (induction rows)
  case Nil
  then show ?case by (simp add: count_where_def)
next
  case (Cons x xs)
  then show ?case
  proof (cases "k x = i \<and> q x")
    case True
    with Cons.prems have "\<forall>r \<in> set xs. \<not> (k r = i \<and> q r)" by (auto simp: image_iff)
    then have "count_where (\<lambda>r. k r = i \<and> q r) xs = 0" by (simp add: count_where_zero)
    with True show ?thesis by (simp add: count_where_def)
  next
    case False
    with Cons show ?thesis by (auto simp: count_where_def)
  qed
qed

lemma find_row_update_where:
  assumes "\<And>r. k (f r) = k r"
  shows "find_row (\<lambda>r. k r = i) (update_where p f rows)
    = map_option (\<lambda>r. if p r then f r else r) (find_row (\<lambda>r. k r = i) rows)"
  using assms by (induction rows) (auto simp: find_row_def update_where_def)

end
