(* ===== verification/Errors.thy ===== *)
theory Errors
  imports Prelude
begin

text \<open>
  The error vocabulary of the program: \<open>crates/core/src/error.rs\<close> (the error kinds, the
  service error, the repository error, their classification and their messages) and
  \<open>crates/database/src/error.rs\<close>, which maps the database library's error onto the
  repository error. The library's error is data here: its variant, the verdict of its
  \<open>sql_err()\<close> accessor, and its display text.
\<close>

section \<open>Service and repository errors\<close>

datatype ErrorKind =
    KindNotFound | KindConflict | KindInvalidInput | KindBadRequest | KindInternal
  | KindServiceUnavailable

datatype RepositoryError =
    Constraint string
  | Conflict
  | NotFound
  | ReadOnly
  | Database string
  | QueryCanceled
  | Connection string
  | Busy string

datatype Error =
    InvalidId u64
  | InvalidPageSize u64
  | Validation string
  | InvalidTransactionType
  | InvalidToken string
  | Infrastructure string
  | Unimplemented string
  | StorageUnavailable string
  | BlobNotFound u64 string
  | FolderNotFound string
  | FrontendError string
  | CryptoError string
  | DecryptionFailed
  | CredentialsDeserialize string
  | RepoError RepositoryError

fun repository_error_kind :: "RepositoryError \<Rightarrow> ErrorKind" where
  "repository_error_kind NotFound = KindNotFound"
| "repository_error_kind Conflict = KindConflict"
| "repository_error_kind (Constraint _) = KindInvalidInput"
| "repository_error_kind ReadOnly = KindInternal"
| "repository_error_kind (Database _) = KindInternal"
| "repository_error_kind QueryCanceled = KindInternal"
| "repository_error_kind (Connection _) = KindServiceUnavailable"
| "repository_error_kind (Busy _) = KindServiceUnavailable"

fun error_kind :: "Error \<Rightarrow> ErrorKind" where
  "error_kind (InvalidId _) = KindBadRequest"
| "error_kind (InvalidPageSize _) = KindBadRequest"
| "error_kind (InvalidToken _) = KindBadRequest"
| "error_kind (Validation _) = KindInvalidInput"
| "error_kind InvalidTransactionType = KindInternal"
| "error_kind (Infrastructure _) = KindInternal"
| "error_kind (CryptoError _) = KindInternal"
| "error_kind DecryptionFailed = KindInternal"
| "error_kind (CredentialsDeserialize _) = KindInternal"
| "error_kind (Unimplemented _) = KindInternal"
| "error_kind (StorageUnavailable _) = KindServiceUnavailable"
| "error_kind (BlobNotFound _ _) = KindNotFound"
| "error_kind (FolderNotFound _) = KindNotFound"
| "error_kind (RepoError e) = repository_error_kind e"
| "error_kind (FrontendError _) = KindInternal"

text \<open>The errors a subsystem retries instead of stopping on.\<close>

fun is_transient :: "Error \<Rightarrow> bool" where
  "is_transient (RepoError (Connection _)) = True"
| "is_transient (RepoError (Busy _)) = True"
| "is_transient (StorageUnavailable _) = True"
| "is_transient _ = False"

text \<open>\<open>Display\<close>: the \<open>#[error(..)]\<close> attributes.\<close>

fun repository_error_text :: "RepositoryError \<Rightarrow> string" where
  "repository_error_text (Constraint m) = ''Constraint Error - '' @ m"
| "repository_error_text Conflict = ''Conflict Error''"
| "repository_error_text NotFound = ''Not found''"
| "repository_error_text ReadOnly = ''Read-only Transaction''"
| "repository_error_text (Database m) = ''Database error: '' @ m"
| "repository_error_text QueryCanceled = ''Query canceled''"
| "repository_error_text (Connection m) = ''Connection Error: '' @ m"
| "repository_error_text (Busy m) = ''Database busy: '' @ m"

fun error_text :: "Error \<Rightarrow> string" where
  "error_text (InvalidId n) = ''Invalid ID: '' @ show_nat (unat n)"
| "error_text (InvalidPageSize n) = ''Invalid page size: '' @ show_nat (unat n)"
| "error_text (Validation m) = ''Validation error: '' @ m"
| "error_text InvalidTransactionType = ''Invalid transaction type''"
| "error_text (InvalidToken m) = ''Invalid token: '' @ m"
| "error_text (Infrastructure m) = ''Infrastructure error: '' @ m"
| "error_text (Unimplemented m) = ''Not implemented: '' @ m"
| "error_text (StorageUnavailable m) = ''Storage unavailable: '' @ m"
| "error_text (BlobNotFound a h) = ''Blob not found for account '' @ show_nat (unat a)"
| "error_text (FolderNotFound m) = ''mailbox not found on server: '' @ m"
| "error_text (FrontendError m) = ''Frontend error: '' @ m"
| "error_text (CryptoError m) = ''Crypto error: '' @ m"
| "error_text DecryptionFailed = ''Decryption failed''"
| "error_text (CredentialsDeserialize m) = ''failed to deserialize credentials after decrypt: '' @ m"
| "error_text (RepoError e) = repository_error_text e"

section \<open>The database library's errors\<close>

text \<open>
  \<open>SqlErr\<close> is what the library's \<open>sql_err()\<close> recognises; the connection
  errors, the raw database error (its code and message) and the rest are what
  \<open>handle_dberr\<close> distinguishes by matching.
\<close>

datatype SqlErr =
    UniqueConstraintViolation string
  | ForeignKeyConstraintViolation string
  | OtherSqlErr

datatype SqlxError =
    SqlxIo | SqlxPoolTimedOut | SqlxPoolClosed
  | SqlxDatabase "string option" string
  | SqlxOther

datatype RuntimeErr = RuntimeSqlx SqlxError | RuntimeInternal

datatype DbErrVariant =
    DbConn RuntimeErr
  | DbConnectionAcquire
  | DbQuery RuntimeErr
  | DbExec RuntimeErr
  | DbOther

record DbErr =
  dberr_variant :: DbErrVariant
  dberr_sql_err :: "SqlErr option"
  dberr_text :: string

text \<open>The two guards on connectivity, which come before everything else.\<close>

fun connectivity_lost :: "DbErrVariant \<Rightarrow> bool" where
  "connectivity_lost (DbConn (RuntimeSqlx SqlxIo)) = True"
| "connectivity_lost (DbConn (RuntimeSqlx SqlxPoolTimedOut)) = True"
| "connectivity_lost (DbConn (RuntimeSqlx SqlxPoolClosed)) = True"
| "connectivity_lost DbConnectionAcquire = True"
| "connectivity_lost _ = False"

text \<open>The code and message of a database error under a query or an execution.\<close>

fun database_code :: "DbErrVariant \<Rightarrow> (string \<times> string) option" where
  "database_code (DbQuery (RuntimeSqlx (SqlxDatabase (Some c) m))) = Some (c, m)"
| "database_code (DbExec (RuntimeSqlx (SqlxDatabase (Some c) m))) = Some (c, m)"
| "database_code _ = None"

definition handle_dberr :: "DbErr \<Rightarrow> RepositoryError" where
  "handle_dberr e =
    (if connectivity_lost (dberr_variant e) then Connection (dberr_text e)
     else case dberr_sql_err e of
       Some (UniqueConstraintViolation m) \<Rightarrow> Constraint m
     | Some (ForeignKeyConstraintViolation m) \<Rightarrow> Constraint (''Foreign key violation: '' @ m)
     | Some OtherSqlErr \<Rightarrow> Database (dberr_text e)
     | None \<Rightarrow>
        (case database_code (dberr_variant e) of
           Some (code, msg) \<Rightarrow>
             (if code = ''25006'' then ReadOnly
              else if code = ''23505'' then Constraint msg
              else if code = ''23503'' then Constraint (''Foreign key violation: '' @ msg)
              else if code = ''40001'' then Conflict
              else if code = ''57014'' then QueryCanceled
              else if code = ''5'' \<or> code = ''6'' then Busy (dberr_text e)
              else Database (dberr_text e))
         | None \<Rightarrow> Database (dberr_text e)))"

section \<open>Classification\<close>

lemma transient_is_service_unavailable: "is_transient e \<longleftrightarrow> error_kind e = KindServiceUnavailable"
proof (cases e)
  case (RepoError r)
  then show ?thesis by (cases r) simp_all
qed simp_all

text \<open>
  A database error is retried (its service error is transient) exactly when the
  connection or the pool is gone, or, with no constraint verdict from the library, the code
  is SQLite's BUSY or LOCKED; in particular no constraint violation, serialization failure
  or cancelled query is retried.
\<close>

theorem handle_dberr_transient_iff:
  "is_transient (RepoError (handle_dberr e)) \<longleftrightarrow>
     connectivity_lost (dberr_variant e) \<or>
     dberr_sql_err e = None \<and>
       (\<exists>msg. database_code (dberr_variant e) = Some (''5'', msg) \<or>
              database_code (dberr_variant e) = Some (''6'', msg))"
proof (cases "connectivity_lost (dberr_variant e)")
  case True
  then show ?thesis by (simp add: handle_dberr_def)
next
  case False
  then show ?thesis
    by (auto simp: handle_dberr_def split: option.splits SqlErr.splits prod.splits)
qed

end
