(* ===== verification/Schema.thy ===== *)
theory Schema
  imports Errors
begin

text \<open>
  The data model: the rows of the database tables (\<open>crates/database/src/entities\<close>) in
  the domain types of \<open>crates/core/src\<close> that the adapters convert them to and from,
  and the database as the record of its tables.

  A token column holds the text of the row's id and is left out (the two are unique
  together). Status and special-use columns hold the string form of an enumeration; the
  rows keep the enumeration, and the string forms are shown to be inverse to their parsers.
  Ids are the 64-bit words the domain uses; the signed column holds the same bits.
\<close>

section \<open>Identifiers\<close>

type_synonym UserId = u64
type_synonym AccountId = u64
type_synonym FolderId = u64
type_synonym MessageId = u64
type_synonym MessageLocationId = u64
type_synonym JobId = int
type_synonym ContentHash = "u8 list"

section \<open>Enumerations and their column strings\<close>

datatype JobStatus = Pending | Running | Completed | Failed

fun job_status_to_str :: "JobStatus \<Rightarrow> string" where
  "job_status_to_str Pending = ''Pending''"
| "job_status_to_str Running = ''Running''"
| "job_status_to_str Completed = ''Completed''"
| "job_status_to_str Failed = ''Failed''"

text \<open>\<open>None\<close> is the panic on a string the schema does not allow.\<close>

definition str_to_job_status :: "string \<Rightarrow> JobStatus option" where
  "str_to_job_status s =
    (if s = ''Pending'' then Some Pending
     else if s = ''Running'' then Some Running
     else if s = ''Completed'' then Some Completed
     else if s = ''Failed'' then Some Failed
     else None)"

datatype SpecialUse = Inbox | Sent | Drafts | Trash | Archive | Junk | AllMail

fun special_use_as_str :: "SpecialUse \<Rightarrow> string" where
  "special_use_as_str Inbox = ''inbox''"
| "special_use_as_str Sent = ''sent''"
| "special_use_as_str Drafts = ''drafts''"
| "special_use_as_str Trash = ''trash''"
| "special_use_as_str Archive = ''archive''"
| "special_use_as_str Junk = ''junk''"
| "special_use_as_str AllMail = ''all''"

definition special_use_from_str :: "string \<Rightarrow> SpecialUse option" where
  "special_use_from_str s =
    (if s = ''inbox'' then Some Inbox
     else if s = ''sent'' then Some Sent
     else if s = ''drafts'' then Some Drafts
     else if s = ''trash'' then Some Trash
     else if s = ''archive'' then Some Archive
     else if s = ''junk'' then Some Junk
     else if s = ''all'' then Some AllMail
     else None)"

datatype AccountStatus = PendingFirstSync | Syncing | IdleStatus | ErrorStatus | Disabled

fun account_status_as_str :: "AccountStatus \<Rightarrow> string" where
  "account_status_as_str PendingFirstSync = ''PendingFirstSync''"
| "account_status_as_str Syncing = ''Syncing''"
| "account_status_as_str IdleStatus = ''Idle''"
| "account_status_as_str ErrorStatus = ''Error''"
| "account_status_as_str Disabled = ''Disabled''"

definition account_status_from_db_str :: "string \<Rightarrow> AccountStatus option" where
  "account_status_from_db_str s =
    (if s = ''PendingFirstSync'' then Some PendingFirstSync
     else if s = ''Syncing'' then Some Syncing
     else if s = ''Idle'' then Some IdleStatus
     else if s = ''Error'' then Some ErrorStatus
     else if s = ''Disabled'' then Some Disabled
     else None)"

text \<open>An interface: an enumeration stored as text and read back.\<close>

locale text_column =
  fixes to_str :: "'e \<Rightarrow> string" and from_str :: "string \<Rightarrow> 'e option"
  assumes from_to: "from_str (to_str e) = Some e"
    and to_from: "from_str s = Some e \<Longrightarrow> to_str e = s"
begin

lemma to_str_inj: "to_str a = to_str b \<longleftrightarrow> a = b"
  by (metis from_to option.inject)

lemma from_str_iff: "from_str s = Some e \<longleftrightarrow> s = to_str e"
  using from_to to_from by blast

end

interpretation job_status_column: text_column job_status_to_str str_to_job_status
proof
  show "str_to_job_status (job_status_to_str e) = Some e" for e
    by (cases e) (simp_all add: str_to_job_status_def)
  show "str_to_job_status s = Some e \<Longrightarrow> job_status_to_str e = s" for s e
    by (auto simp: str_to_job_status_def split: if_splits)
qed

interpretation special_use_column: text_column special_use_as_str special_use_from_str
proof
  show "special_use_from_str (special_use_as_str e) = Some e" for e
    by (cases e) (simp_all add: special_use_from_str_def)
  show "special_use_from_str s = Some e \<Longrightarrow> special_use_as_str e = s" for s e
    by (auto simp: special_use_from_str_def split: if_splits)
qed

interpretation account_status_column: text_column account_status_as_str account_status_from_db_str
proof
  show "account_status_from_db_str (account_status_as_str e) = Some e" for e
    by (cases e) (simp_all add: account_status_from_db_str_def)
  show "account_status_from_db_str s = Some e \<Longrightarrow> account_status_as_str e = s" for s e
    by (auto simp: account_status_from_db_str_def split: if_splits)
qed

datatype Capability = Admin | SuperAdmin

fun capability_as_str :: "Capability \<Rightarrow> string" where
  "capability_as_str Admin = ''Admin''"
| "capability_as_str SuperAdmin = ''SuperAdmin''"

section \<open>Messages in flight\<close>

record NamedAddress =
  na_address :: string
  na_name :: "string option"

record MessageFlags =
  seen :: bool
  answered :: bool
  flagged :: bool
  draft :: bool
  deleted :: bool
  recent :: bool
  custom :: "string list"

text \<open>The payload of a parse job.\<close>

record ParseMessageJob =
  pj_account_id :: AccountId
  pj_folder_id :: FolderId
  pj_uid :: u32
  pj_uidvalidity :: u32
  pj_content_hash :: ContentHash
  pj_internal_date :: time
  pj_flags :: MessageFlags

text \<open>
  A job payload is a JSON value. The program writes one kind, a serialised parse job, which
  serde reads back as the same record; any other value is kept as its text.
\<close>

datatype payload = ParsePayload ParseMessageJob | OtherJson string

section \<open>Rows\<close>

record Job =
  job_id :: JobId
  job_type :: string
  job_payload :: payload
  job_status :: JobStatus
  job_priority :: int
  job_attempt :: int
  job_max_attempts :: int
  job_version :: int
  job_scheduled_at :: time
  job_started_at :: "time option"
  job_completed_at :: "time option"
  job_error_message :: "string option"
  job_created_at :: time
  job_updated_at :: time

datatype TlsMode = Tls | StartTls

record ImapServerConfig =
  srv_host :: string
  srv_port :: u16
  srv_tls :: TlsMode

record Account =
  acc_id :: AccountId
  acc_version :: int
  acc_user_id :: UserId
  acc_display_name :: string
  acc_email_address :: string
  acc_server :: ImapServerConfig
  acc_username :: string
  acc_credentials :: "u8 list"
  acc_enabled :: bool
  acc_status :: AccountStatus
  acc_last_error :: "string option"
  acc_last_synced_at :: "time option"
  acc_created_at :: time
  acc_updated_at :: time

record Folder =
  fld_id :: FolderId
  fld_version :: int
  fld_account_id :: AccountId
  fld_path :: string
  fld_display_name :: "string option"
  fld_special_use :: "SpecialUse option"
  fld_enabled :: bool
  fld_idle_enabled :: bool
  fld_uidvalidity :: "u32 option"
  fld_last_uid :: u32
  fld_last_synced_at :: "time option"
  fld_last_error :: "string option"
  fld_created_at :: time
  fld_updated_at :: time

record Message =
  msg_id :: MessageId
  msg_version :: int
  msg_account_id :: AccountId
  msg_rfc822_message_id :: string
  msg_content_hash :: ContentHash
  msg_subject :: "string option"
  msg_from_address :: string
  msg_from_name :: "string option"
  msg_to_addresses :: "NamedAddress list"
  msg_cc_addresses :: "NamedAddress list"
  msg_bcc_addresses :: "NamedAddress list"
  msg_reply_to_addresses :: "NamedAddress list"
  msg_sent_date :: "time option"
  msg_in_reply_to :: "string option"
  msg_references :: "string list"
  msg_snippet :: string
  msg_size_bytes :: int
  msg_has_attachments :: bool
  msg_attachment_count :: int
  msg_indexed :: bool
  msg_created_at :: time
  msg_updated_at :: time

record MessageLocation =
  loc_id :: MessageLocationId
  loc_version :: int
  loc_message_id :: MessageId
  loc_folder_id :: FolderId
  loc_uid :: u32
  loc_uidvalidity :: u32
  loc_flags :: MessageFlags
  loc_internal_date :: time
  loc_first_seen_at :: time
  loc_updated_at :: time

record MessageAttachment =
  att_id :: u64
  att_version :: int
  att_message_id :: MessageId
  att_account_id :: AccountId
  att_content_hash :: ContentHash
  att_filename :: "string option"
  att_content_type :: string
  att_size_bytes :: int
  att_is_inline :: bool
  att_content_id :: "string option"
  att_created_at :: time
  att_updated_at :: time

text \<open>
  A user's capabilities are a hash set, a JSON array in its column; the order of the array is
  left out. A session's data is the text the session layer of the web server keeps.
\<close>

record User =
  usr_id :: UserId
  usr_version :: int
  usr_username :: string
  usr_full_name :: string
  usr_password_hash :: string
  usr_email_address :: string
  usr_capabilities :: "Capability set"
  usr_change_password_on_login :: bool
  usr_created_at :: time
  usr_updated_at :: time

record UserSettingRow =
  set_user_id :: UserId
  set_key :: string
  set_value :: string
  set_created_at :: time
  set_updated_at :: time

record Session =
  ses_id :: string
  ses_session :: string
  ses_expires_at :: time
  ses_created_at :: time

section \<open>The database\<close>

text \<open>\<open>job_seq\<close> is the auto-increment counter of the jobs table.\<close>

record db =
  tbl_users :: "User list"
  tbl_settings :: "UserSettingRow list"
  tbl_sessions :: "Session list"
  tbl_accounts :: "Account list"
  tbl_folders :: "Folder list"
  tbl_messages :: "Message list"
  tbl_locations :: "MessageLocation list"
  tbl_attachments :: "MessageAttachment list"
  tbl_jobs :: "Job list"
  job_seq :: int

definition empty_db :: db where
  "empty_db = \<lparr>tbl_users = [], tbl_settings = [], tbl_sessions = [], tbl_accounts = [], tbl_folders = [], tbl_messages = [],
     tbl_locations = [], tbl_attachments = [], tbl_jobs = [], job_seq = 0\<rparr>"

end
