(* ===== verification/Store.thy ===== *)
theory Store
  imports Schema
begin

text \<open>
  Transactions (\<open>crates/core/src/repository.rs\<close>, \<open>crates/database/src/transaction.rs\<close>,
  \<open>crates/database/src/repository.rs\<close>): the state a service method runs on, single
  statements, and the read-write and read-only transaction wrappers every service uses.

  The outcome of each call to the database library (begin, statement, commit, rollback) is
  taken from a schedule: \<open>None\<close> lets it succeed, \<open>Some e\<close> makes it fail with
  that library error. The theorems hold for every schedule.
\<close>

section \<open>State\<close>

text \<open>
  \<open>tx_rng\<close> is the random source of \<open>Token::generate()\<close> (an external crate) with
  the position of the next draw; \<open>tx_now\<close> is what \<open>Utc::now()\<close> reads.
\<close>

record tx =
  tx_db :: db
  tx_faults :: "DbErr option list"
  tx_now :: time
  tx_rng :: "nat \<Rightarrow> u64"
  tx_rng_pos :: nat

type_synonym ('z, 'a) dbm = "('z tx_scheme, Error, 'a) action"

definition db_call :: "('z, unit) dbm" where
  "db_call s =
    (case tx_faults s of
       [] \<Rightarrow> (Inr (), s)
     | None # fs \<Rightarrow> (Inr (), s\<lparr>tx_faults := fs\<rparr>)
     | Some e # fs \<Rightarrow> (Inl (RepoError (handle_dberr e)), s\<lparr>tx_faults := fs\<rparr>))"

definition query :: "(db \<Rightarrow> 'a) \<Rightarrow> ('z, 'a) dbm" where
  "query f = bindE db_call (\<lambda>_. getsE (\<lambda>s. f (tx_db s)))"

text \<open>A statement that writes; the database may refuse it (a constraint).\<close>

definition execute :: "(db \<Rightarrow> DbErr + 'a \<times> db) \<Rightarrow> ('z, 'a) dbm" where
  "execute f = bindE db_call (\<lambda>_ s.
     case f (tx_db s) of
       Inl e \<Rightarrow> (Inl (RepoError (handle_dberr e)), s)
     | Inr (x, d) \<Rightarrow> (Inr x, s\<lparr>tx_db := d\<rparr>))"

definition generate_token :: "('z, u64) dbm" where
  "generate_token s = (Inr (tx_rng s (tx_rng_pos s)), s\<lparr>tx_rng_pos := Suc (tx_rng_pos s)\<rparr>)"

definition utc_now :: "('z, time) dbm" where
  "utc_now = getsE tx_now"

text \<open>The refusals of the unique indexes and the foreign keys.\<close>

definition unique_violation :: "string \<Rightarrow> DbErr" where
  "unique_violation index =
    \<lparr>dberr_variant = DbExec (RuntimeSqlx (SqlxDatabase (Some ''2067'') index)),
     dberr_sql_err = Some (UniqueConstraintViolation index), dberr_text = index\<rparr>"

definition foreign_key_violation :: "string \<Rightarrow> DbErr" where
  "foreign_key_violation key =
    \<lparr>dberr_variant = DbExec (RuntimeSqlx (SqlxDatabase (Some ''787'') key)),
     dberr_sql_err = Some (ForeignKeyConstraintViolation key), dberr_text = key\<rparr>"

text \<open>An update of one row by its key that finds no row.\<close>

definition record_not_updated :: DbErr where
  "record_not_updated =
    \<lparr>dberr_variant = DbOther, dberr_sql_err = None, dberr_text = ''None of the records are updated''\<rparr>"

lemma handle_record_not_updated [simp]:
  "handle_dberr record_not_updated = Database ''None of the records are updated''"
  by (simp add: handle_dberr_def record_not_updated_def)

lemma handle_unique_violation [simp]: "handle_dberr (unique_violation i) = Constraint i"
  by (simp add: handle_dberr_def unique_violation_def)

lemma handle_foreign_key_violation [simp]:
  "handle_dberr (foreign_key_violation i) = Constraint (''Foreign key violation: '' @ i)"
  by (simp add: handle_dberr_def foreign_key_violation_def)

section \<open>Transactions\<close>

text \<open>
  \<open>transaction\<close> begins, runs the callback and commits; when the callback fails it rolls
  back, ignoring the rollback's own failure, and returns the callback's error. A commit that
  fails, or a transaction that is dropped, leaves the tables as they were at \<open>begin\<close>.
\<close>

definition transaction :: "('z, 'a) dbm \<Rightarrow> ('z, 'a) dbm" where
  "transaction body = bindE db_call (\<lambda>_ s0.
     case body s0 of
       (Inr x, s1) \<Rightarrow>
         (case db_call s1 of
            (Inr _, s2) \<Rightarrow> (Inr x, s2)
          | (Inl e, s2) \<Rightarrow> (Inl e, s2\<lparr>tx_db := tx_db s0\<rparr>))
     | (Inl e, s1) \<Rightarrow> (Inl e, (snd (db_call s1))\<lparr>tx_db := tx_db s0\<rparr>))"

text \<open>The read-only wrapper never commits: the transaction is dropped after the callback.\<close>

definition read_only_transaction :: "('z, 'a) dbm \<Rightarrow> ('z, 'a) dbm" where
  "read_only_transaction body = bindE db_call (\<lambda>_ s0.
     case body s0 of (r, s1) \<Rightarrow> (r, s1\<lparr>tx_db := tx_db s0\<rparr>))"

section \<open>Reasoning about statements and transactions\<close>

named_theorems stmt_simps \<open>statements with no pending fault\<close>

lemma db_call_db [simp]: "tx_db (snd (db_call s)) = tx_db s"
  by (simp add: db_call_def split: list.splits option.splits)

lemma db_call_fields [simp]:
  "tx_now (snd (db_call s)) = tx_now s"
  "tx_rng (snd (db_call s)) = tx_rng s"
  "tx_rng_pos (snd (db_call s)) = tx_rng_pos s"
  by (simp_all add: db_call_def split: list.splits option.splits)

lemma db_call_eqD:
  "db_call s = (r, t) \<Longrightarrow> tx_db t = tx_db s \<and> tx_now t = tx_now s \<and> tx_rng t = tx_rng s \<and> tx_rng_pos t = tx_rng_pos s"
  using db_call_db [of s] db_call_fields [of s] by simp

lemma db_call_more: "db_call s = (r, t) \<Longrightarrow> tx.more t = tx.more s"
  by (auto simp: db_call_def split: list.splits option.splits)

lemma db_call_clear [stmt_simps]: "tx_faults s = [] \<Longrightarrow> db_call s = (Inr (), s)"
  by (simp add: db_call_def)

lemma query_clear [stmt_simps]: "tx_faults s = [] \<Longrightarrow> query f s = (Inr (f (tx_db s)), s)"
  by (simp add: query_def bindE_def stmt_simps)

lemma execute_clear [stmt_simps]:
  "tx_faults s = [] \<Longrightarrow> execute f s =
     (case f (tx_db s) of
        Inl e \<Rightarrow> (Inl (RepoError (handle_dberr e)), s)
      | Inr (x, d) \<Rightarrow> (Inr x, s\<lparr>tx_db := d\<rparr>))"
  by (simp add: execute_def bindE_def stmt_simps)

lemma transaction_clear [stmt_simps]:
  assumes "tx_faults s = []" and "body s = (r, t)" and "tx_faults t = []"
  shows "transaction body s =
    (r, if (\<exists>x. r = Inr x) then t else t\<lparr>tx_db := tx_db s\<rparr>)"
  using assms by (cases r) (simp_all add: transaction_def bindE_def stmt_simps)

lemma read_only_clear [stmt_simps]:
  assumes "tx_faults s = []" and "body s = (r, t)"
  shows "read_only_transaction body s = (r, t\<lparr>tx_db := tx_db s\<rparr>)"
  using assms by (simp add: read_only_transaction_def bindE_def stmt_simps)

lemma query_Inr: "query f s = (Inr x, t) \<Longrightarrow> x = f (tx_db s) \<and> tx_db t = tx_db s \<and> tx_now t = tx_now s"
  by (auto simp: query_def bindE_def dest!: db_call_eqD split: prod.splits sum.splits)

lemma query_Inl: "query f s = (Inl e, t) \<Longrightarrow> tx_db t = tx_db s"
  by (auto simp: query_def bindE_def dest!: db_call_eqD split: prod.splits sum.splits)

lemma execute_Inr:
  "execute f s = (Inr x, t) \<Longrightarrow> f (tx_db s) = Inr (x, tx_db t) \<and> tx_now t = tx_now s"
  by (auto simp: execute_def bindE_def dest!: db_call_eqD split: prod.splits sum.splits)

lemma execute_Inl: "execute f s = (Inl e, t) \<Longrightarrow> tx_db t = tx_db s"
  by (auto simp: execute_def bindE_def dest!: db_call_eqD split: prod.splits sum.splits)

lemma transaction_Inr:
  assumes "transaction body s = (Inr x, t)"
  obtains s0 s1 where "tx_db s0 = tx_db s" "tx_now s0 = tx_now s" "body s0 = (Inr x, s1)" "tx_db t = tx_db s1"
proof -
  from assms obtain s0 where c: "db_call s = (Inr (), s0)"
    by (auto simp: transaction_def bindE_def split: prod.splits sum.splits)
  with assms obtain s1 where "body s0 = (Inr x, s1)" and "db_call s1 = (Inr (), t)"
    by (auto simp: transaction_def bindE_def split: prod.splits sum.splits)
  with c that show thesis by (metis db_call_eqD)
qed

lemma transaction_Inl_db: "transaction body s = (Inl e, t) \<Longrightarrow> tx_db t = tx_db s"
  by (auto simp: transaction_def bindE_def dest: db_call_eqD split: prod.splits sum.splits)

lemma read_only_db [simp]: "tx_db (snd (read_only_transaction body s)) = tx_db s"
  by (auto simp: read_only_transaction_def bindE_def dest: db_call_eqD split: prod.splits sum.splits)

lemma read_only_Inr:
  assumes "read_only_transaction body s = (Inr x, t)"
  obtains s0 s1 where "tx_db s0 = tx_db s" "tx_now s0 = tx_now s" "body s0 = (Inr x, s1)"
  using assms
  by (auto simp: read_only_transaction_def bindE_def dest: db_call_eqD split: prod.splits sum.splits)

section \<open>Invariants of the tables\<close>

text \<open>\<open>keeps P\<close>: every run, failing or not, keeps a property of the tables.\<close>

definition keeps :: "(db \<Rightarrow> bool) \<Rightarrow> ('z, 'a) dbm \<Rightarrow> bool" where
  "keeps P m \<longleftrightarrow> preserves (\<lambda>s. P (tx_db s)) m"

named_theorems keeps_intros \<open>compositional rules for keeps\<close>

lemma keepsI: "(\<And>s. P (tx_db s) \<Longrightarrow> P (tx_db (snd (m s)))) \<Longrightarrow> keeps P m"
  by (simp add: keeps_def preserves_def)

lemma keepsD: "keeps P m \<Longrightarrow> P (tx_db s) \<Longrightarrow> P (tx_db (snd (m s)))"
  by (simp add: keeps_def preserves_def)

lemma keeps_eqD: "keeps P m \<Longrightarrow> P (tx_db s) \<Longrightarrow> m s = (r, t) \<Longrightarrow> P (tx_db t)"
  using keepsD by fastforce

lemma keeps_ret [keeps_intros]: "keeps P (ret x)"
  and keeps_throw [keeps_intros]: "keeps P (throw e)"
  and keeps_getsE [keeps_intros]: "keeps P (getsE f)"
  and keeps_requireE [keeps_intros]: "keeps P (requireE b e)"
  by (simp_all add: keeps_def preserves_intros)

lemma keeps_bindE [keeps_intros]: "keeps P m \<Longrightarrow> (\<And>x. keeps P (f x)) \<Longrightarrow> keeps P (bindE m f)"
  by (simp add: keeps_def preserves_intros)

lemma keeps_handleE [keeps_intros]:
  "keeps P m \<Longrightarrow> (\<And>x. keeps P (f x)) \<Longrightarrow> (\<And>e. keeps P (h e)) \<Longrightarrow> keeps P (handleE m f h)"
  by (simp add: keeps_def preserves_intros)

lemma keeps_if [keeps_intros]:
  "(b \<Longrightarrow> keeps P m) \<Longrightarrow> (\<not> b \<Longrightarrow> keeps P n) \<Longrightarrow> keeps P (if b then m else n)"
  by simp

lemma keeps_option [keeps_intros]:
  "keeps P m \<Longrightarrow> (\<And>x. keeps P (f x)) \<Longrightarrow> keeps P (case v of None \<Rightarrow> m | Some x \<Rightarrow> f x)"
  by (cases v) simp_all

lemma keeps_mapE [keeps_intros]: "(\<And>x. keeps P (f x)) \<Longrightarrow> keeps P (mapE f xs)"
  by (simp add: keeps_def preserves_mapE)

lemma keeps_db_call [keeps_intros]: "keeps P db_call"
  by (rule keepsI) simp

lemma keeps_utc_now [keeps_intros]: "keeps P utc_now"
  by (simp add: utc_now_def keeps_intros)

lemma keeps_generate_token [keeps_intros]: "keeps P generate_token"
  by (rule keepsI) (simp add: generate_token_def)

lemma keeps_query [keeps_intros]: "keeps P (query f)"
  by (simp add: query_def keeps_intros)

lemma keeps_execute:
  assumes "\<And>d x d'. P d \<Longrightarrow> f d = Inr (x, d') \<Longrightarrow> P d'"
  shows "keeps P (execute f :: ('z, 'a) dbm)"
proof (rule keepsI)
  fix s :: "'z tx_scheme"
  assume P: "P (tx_db s)"
  obtain r t where rt: "execute f s = (r, t)" by (cases "execute f s")
  show "P (tx_db (snd (execute f s)))"
  proof (cases r)
    case (Inl e)
    with rt P show ?thesis by (auto dest: execute_Inl)
  next
    case (Inr x)
    with rt have "f (tx_db s) = Inr (x, tx_db t)" by (auto dest: execute_Inr)
    from assms [OF P this] rt show ?thesis by simp
  qed
qed

lemma keeps_transaction [keeps_intros]:
  assumes "keeps P (body :: ('z, 'a) dbm)"
  shows "keeps P (transaction body)"
proof (rule keepsI)
  fix s :: "'z tx_scheme"
  assume P: "P (tx_db s)"
  obtain r t where rt: "transaction body s = (r, t)" by (cases "transaction body s")
  show "P (tx_db (snd (transaction body s)))"
  proof (cases r)
    case (Inl e)
    with rt P show ?thesis by (auto dest: transaction_Inl_db)
  next
    case (Inr x)
    with rt have "transaction body s = (Inr x, t)" by simp
    then obtain s0 s1 where *: "tx_db s0 = tx_db s" "tx_now s0 = tx_now s"
        "body s0 = (Inr x, s1)" "tx_db t = tx_db s1"
      by (rule transaction_Inr)
    from assms have "P (tx_db s1)"
      by (rule keeps_eqD) (use * P in simp_all)
    with * rt show ?thesis by simp
  qed
qed

lemma keeps_read_only [keeps_intros]: "keeps P (read_only_transaction body)"
  by (rule keepsI) simp

text \<open>A relation between the tables before and after, for statements that only move along it.\<close>

definition moves :: "(db \<Rightarrow> db \<Rightarrow> bool) \<Rightarrow> ('z, 'a) dbm \<Rightarrow> bool" where
  "moves R m \<longleftrightarrow> (\<forall>s. R (tx_db s) (tx_db (snd (m s))))"

lemma moves_iff_keeps:
  assumes "reflp R" and "transp R"
  shows "moves R m \<longleftrightarrow> (\<forall>d. keeps (R d) m)"
proof
  assume "moves R m"
  with assms(2) show "\<forall>d. keeps (R d) m"
    by (auto simp: moves_def intro!: keepsI dest: transpD)
next
  assume "\<forall>d. keeps (R d) m"
  with assms(1) show "moves R m"
    by (auto simp: moves_def dest: keepsD reflpD)
qed

section \<open>Atomicity\<close>

text \<open>
  The read-only wrapper never changes the tables, even for a body that writes: nothing
  commits it.
\<close>

theorem read_only_transaction_pure: "tx_db (snd (read_only_transaction body s)) = tx_db s"
  by (rule read_only_db)

end
