(* ===== verification/JobQueue.thy ===== *)
theory JobQueue
  imports Store
begin

text \<open>
  The job repository: \<open>crates/database/src/adapters/jobs.rs\<close> over the rows of
  \<open>crates/database/src/entities/jobs.rs\<close>, with the priorities of
  \<open>crates/core/src/jobs/mod.rs\<close>. A claim reads a candidate and then updates it under
  an optimistic lock (its version); between the two, other connections may commit, which
  \<open>claim_loop\<close> takes as a parameter.
\<close>

section \<open>Operations\<close>

definition PRIORITY_HEALTH :: int where "PRIORITY_HEALTH = 5"
definition PRIORITY_INGEST :: int where "PRIORITY_INGEST = 10"
definition PRIORITY_NORMAL :: int where "PRIORITY_NORMAL = 10"
definition PRIORITY_USER :: int where "PRIORITY_USER = 20"

text \<open>The entity's \<open>new()\<close>: what every inserted row starts from.\<close>

definition new_job_row :: "time \<Rightarrow> string \<Rightarrow> payload \<Rightarrow> int \<Rightarrow> time \<Rightarrow> JobId \<Rightarrow> Job" where
  "new_job_row now jt payload priority scheduled i =
    \<lparr>job_id = i, job_type = jt, job_payload = payload, job_status = Pending,
     job_priority = priority, job_attempt = 0, job_max_attempts = 3, job_version = 0,
     job_scheduled_at = scheduled, job_started_at = None, job_completed_at = None,
     job_error_message = None, job_created_at = now, job_updated_at = now\<rparr>"

definition insert_job :: "(JobId \<Rightarrow> Job) \<Rightarrow> db \<Rightarrow> DbErr + Job \<times> db" where
  "insert_job row d =
    (let i = job_seq d + 1; j = row i
     in Inr (j, d\<lparr>tbl_jobs := tbl_jobs d @ [j], job_seq := i\<rparr>))"

definition enqueue_raw :: "string \<Rightarrow> payload \<Rightarrow> int \<Rightarrow> ('z, Job) dbm" where
  "enqueue_raw jt payload priority =
    bindE utc_now (\<lambda>now. execute (insert_job (new_job_row now jt payload priority now)))"

definition enqueue_delayed :: "string \<Rightarrow> payload \<Rightarrow> int \<Rightarrow> time \<Rightarrow> ('z, Job) dbm" where
  "enqueue_delayed jt payload priority delay =
    bindE utc_now (\<lambda>now. execute (insert_job (new_job_row now jt payload priority (now + delay))))"

text \<open>\<open>UPDATE jobs SET .. WHERE ..\<close>, returning the rows affected.\<close>

definition update_jobs :: "(Job \<Rightarrow> bool) \<Rightarrow> (Job \<Rightarrow> Job) \<Rightarrow> db \<Rightarrow> DbErr + nat \<times> db" where
  "update_jobs p f d = Inr (count_where p (tbl_jobs d), d\<lparr>tbl_jobs := update_where p f (tbl_jobs d)\<rparr>)"

definition find_job :: "JobId \<Rightarrow> db \<Rightarrow> Job option" where
  "find_job i d = find_row (\<lambda>j. job_id j = i) (tbl_jobs d)"

subsection \<open>Claiming\<close>

definition claimable :: "time \<Rightarrow> Job \<Rightarrow> bool" where
  "claimable now j \<longleftrightarrow> job_status j = Pending \<and> job_scheduled_at j \<le> now"

text \<open>\<open>ORDER BY priority DESC, scheduled_at ASC, id ASC\<close>.\<close>

definition claim_key :: "Job \<Rightarrow> int \<times> time \<times> JobId" where
  "claim_key j = (- job_priority j, job_scheduled_at j, job_id j)"

definition claim_candidate :: "time \<Rightarrow> db \<Rightarrow> Job option" where
  "claim_candidate now d =
    (case sort_key claim_key (filter (claimable now) (tbl_jobs d)) of
       [] \<Rightarrow> None
     | j # _ \<Rightarrow> Some j)"

definition claimed_row :: "time \<Rightarrow> Job \<Rightarrow> Job" where
  "claimed_row now j = j\<lparr>job_status := Running, job_attempt := job_attempt j + 1,
     job_started_at := Some now, job_version := job_version j + 1, job_updated_at := now\<rparr>"

definition claim_guard :: "Job \<Rightarrow> Job \<Rightarrow> bool" where
  "claim_guard c j \<longleftrightarrow> job_id j = job_id c \<and> job_version j = job_version c \<and> job_status j = Pending"

text \<open>
  \<open>env k\<close> is what other connections commit between the read and the update when
  \<open>k\<close> attempts remain after this one.
\<close>

fun claim_loop :: "(nat \<Rightarrow> db \<Rightarrow> db) \<Rightarrow> time \<Rightarrow> nat \<Rightarrow> ('z, Job option) dbm" where
  "claim_loop env now 0 = ret None"
| "claim_loop env now (Suc k) =
    bindE (query (claim_candidate now)) (\<lambda>candidate.
      case candidate of
        None \<Rightarrow> ret None
      | Some c \<Rightarrow>
          bindE (modifyE (\<lambda>s. s\<lparr>tx_db := env k (tx_db s)\<rparr>)) (\<lambda>_.
          bindE (execute (update_jobs (claim_guard c) (claimed_row now))) (\<lambda>rows_affected.
            if rows_affected = 1 then
              bindE (query (find_job (job_id c))) (\<lambda>claimed.
                case claimed of
                  None \<Rightarrow> throw (RepoError NotFound)
                | Some j \<Rightarrow> ret (Some j))
            else claim_loop env now k)))"

definition MAX_CLAIM_ATTEMPTS :: nat where
  "MAX_CLAIM_ATTEMPTS = 5"

definition claim_next_among :: "(nat \<Rightarrow> db \<Rightarrow> db) \<Rightarrow> ('z, Job option) dbm" where
  "claim_next_among env = bindE utc_now (\<lambda>now. claim_loop env now MAX_CLAIM_ATTEMPTS)"

text \<open>With one connection (the SQLite configuration) nothing comes between.\<close>

definition claim_next :: "('z, Job option) dbm" where
  "claim_next = claim_next_among (\<lambda>_ d. d)"

subsection \<open>Finishing\<close>

definition em_dash :: string where
  "em_dash = [char_of (226::nat), char_of (128::nat), char_of (148::nat)]"

definition affected_text :: "string \<Rightarrow> Job \<Rightarrow> nat \<Rightarrow> string" where
  "affected_text name job n =
    name @ ''('' @ show_int (job_id job) @ '') affected '' @ show_nat n @ '' rows '' @ em_dash @
    '' version conflict or row missing''"

definition same_version :: "Job \<Rightarrow> Job \<Rightarrow> bool" where
  "same_version job j \<longleftrightarrow> job_id j = job_id job \<and> job_version j = job_version job"

text \<open>
  The shared tail of \<open>complete\<close>, \<open>fail\<close> and \<open>fail_terminal\<close>: the update
  filtered on id and version, the check that it hit one row, the re-read.
\<close>

definition finish_job :: "string \<Rightarrow> Job \<Rightarrow> (Job \<Rightarrow> Job) \<Rightarrow> ('z, Job) dbm" where
  "finish_job name job f =
    bindE (execute (update_jobs (same_version job) f)) (\<lambda>rows_affected.
    bindE (requireE (rows_affected = 1) (Infrastructure (affected_text name job rows_affected))) (\<lambda>_.
    bindE (query (find_job (job_id job))) (\<lambda>updated.
      case updated of None \<Rightarrow> throw (RepoError NotFound) | Some j \<Rightarrow> ret j)))"

definition completed_row :: "time \<Rightarrow> Job \<Rightarrow> Job" where
  "completed_row now j = j\<lparr>job_status := Completed, job_completed_at := Some now,
     job_version := job_version j + 1, job_updated_at := now\<rparr>"

definition rescheduled_row :: "time \<Rightarrow> time \<Rightarrow> string \<Rightarrow> Job \<Rightarrow> Job" where
  "rescheduled_row now at error j = j\<lparr>job_status := Pending, job_scheduled_at := at,
     job_error_message := Some error, job_version := job_version j + 1, job_updated_at := now\<rparr>"

definition failed_row :: "time \<Rightarrow> string \<Rightarrow> Job \<Rightarrow> Job" where
  "failed_row now error j = j\<lparr>job_status := Failed, job_completed_at := Some now,
     job_error_message := Some error, job_version := job_version j + 1, job_updated_at := now\<rparr>"

definition complete_job :: "Job \<Rightarrow> ('z, Job) dbm" where
  "complete_job job = bindE utc_now (\<lambda>now. finish_job ''complete'' job (completed_row now))"

text \<open>\<open>30_i64 * (1_i64 << min(attempt, 20))\<close>\<close>

definition backoff_secs :: "int \<Rightarrow> int" where
  "backoff_secs attempt = 30 * 2 ^ nat (min attempt 20)"

definition fail_job :: "Job \<Rightarrow> string \<Rightarrow> ('z, Job) dbm" where
  "fail_job job error = bindE utc_now (\<lambda>now.
    if job_attempt job < job_max_attempts job then
      finish_job ''fail'' job (rescheduled_row now (now + seconds (backoff_secs (job_attempt job))) error)
    else finish_job ''fail'' job (failed_row now error))"

definition fail_terminal :: "Job \<Rightarrow> string \<Rightarrow> ('z, Job) dbm" where
  "fail_terminal job error =
    bindE utc_now (\<lambda>now. finish_job ''fail_terminal'' job (failed_row now error))"

definition pending_again_row :: "time \<Rightarrow> Job \<Rightarrow> Job" where
  "pending_again_row now j =
    j\<lparr>job_status := Pending, job_version := job_version j + 1, job_updated_at := now\<rparr>"

definition reset_running_to_pending :: "('z, nat) dbm" where
  "reset_running_to_pending = bindE utc_now (\<lambda>now.
    execute (update_jobs (\<lambda>j. job_status j = Running) (pending_again_row now)))"

definition unfinished :: "Job \<Rightarrow> bool" where
  "unfinished j \<longleftrightarrow> job_status j \<in> {Pending, Running}"

definition count_pending_by_type :: "string \<Rightarrow> ('z, nat) dbm" where
  "count_pending_by_type jt =
    query (\<lambda>d. count_where (\<lambda>j. job_type j = jt \<and> unfinished j) (tbl_jobs d))"

definition count_all_pending :: "('z, nat) dbm" where
  "count_all_pending = query (\<lambda>d. count_where unfinished (tbl_jobs d))"

text \<open>A comparison with a null \<open>completed_at\<close> selects nothing.\<close>

definition old_job :: "time \<Rightarrow> Job \<Rightarrow> bool" where
  "old_job cutoff j \<longleftrightarrow> job_status j \<in> {Completed, Failed} \<and>
     (case job_completed_at j of None \<Rightarrow> False | Some t \<Rightarrow> t < cutoff)"

definition delete_old_jobs :: "time \<Rightarrow> ('z, nat) dbm" where
  "delete_old_jobs cutoff = execute (\<lambda>d.
     Inr (count_where (old_job cutoff) (tbl_jobs d), d\<lparr>tbl_jobs := delete_where (old_job cutoff) (tbl_jobs d)\<rparr>))"

section \<open>The invariant of the jobs table\<close>

definition job_row_ok :: "int \<Rightarrow> Job \<Rightarrow> bool" where
  "job_row_ok seq j \<longleftrightarrow>
     0 < job_id j \<and> job_id j \<le> seq \<and> 0 \<le> job_version j \<and> 0 \<le> job_attempt j \<and>
     (job_status j = Running \<longrightarrow> job_started_at j \<noteq> None \<and> 1 \<le> job_attempt j) \<and>
     (job_status j \<in> {Completed, Failed} \<longrightarrow> job_completed_at j \<noteq> None)"

definition jobs_ok :: "db \<Rightarrow> bool" where
  "jobs_ok d \<longleftrightarrow> 0 \<le> job_seq d \<and> distinct (map job_id (tbl_jobs d)) \<and>
     (\<forall>j \<in> set (tbl_jobs d). job_row_ok (job_seq d) j)"

lemmas row_update_defs =
  claimed_row_def completed_row_def rescheduled_row_def failed_row_def pending_again_row_def

lemma row_updates_id [simp]:
  "job_id (claimed_row now j) = job_id j"
  "job_id (completed_row now j) = job_id j"
  "job_id (rescheduled_row now at e j) = job_id j"
  "job_id (failed_row now e j) = job_id j"
  "job_id (pending_again_row now j) = job_id j"
  by (simp_all add: row_update_defs)

lemma row_updates_version [simp]:
  "job_version (claimed_row now j) = job_version j + 1"
  "job_version (completed_row now j) = job_version j + 1"
  "job_version (rescheduled_row now at e j) = job_version j + 1"
  "job_version (failed_row now e j) = job_version j + 1"
  "job_version (pending_again_row now j) = job_version j + 1"
  by (simp_all add: row_update_defs)

lemma row_updates_status [simp]:
  "job_status (claimed_row now j) = Running"
  "job_status (completed_row now j) = Completed"
  "job_status (rescheduled_row now at e j) = Pending"
  "job_status (failed_row now e j) = Failed"
  "job_status (pending_again_row now j) = Pending"
  by (simp_all add: row_update_defs)

text \<open>A row update that a table update may use: it keeps the id and raises the version by one.\<close>

definition bumps :: "(Job \<Rightarrow> Job) \<Rightarrow> bool" where
  "bumps f \<longleftrightarrow> (\<forall>j. job_id (f j) = job_id j \<and> job_version (f j) = job_version j + 1)"

lemma bumps_rows [simp]:
  "bumps (claimed_row now)" "bumps (completed_row now)" "bumps (rescheduled_row now at e)"
  "bumps (failed_row now e)" "bumps (pending_again_row now)"
  by (simp_all add: bumps_def)

lemma row_updates_ok:
  assumes "job_row_ok seq j"
  shows "job_row_ok seq (claimed_row now j)" "job_row_ok seq (completed_row now j)"
    "job_row_ok seq (rescheduled_row now at e j)" "job_row_ok seq (failed_row now e j)"
    "job_row_ok seq (pending_again_row now j)"
  using assms by (auto simp: job_row_ok_def row_update_defs)

lemma jobs_ok_distinct: "jobs_ok d \<Longrightarrow> distinct (map job_id (tbl_jobs d))"
  by (simp add: jobs_ok_def)

lemma find_job_in: "find_job i d = Some j \<Longrightarrow> j \<in> set (tbl_jobs d) \<and> job_id j = i"
  by (auto simp: find_job_def dest: find_row_Some)

lemma find_job_eq: "jobs_ok d \<Longrightarrow> j \<in> set (tbl_jobs d) \<Longrightarrow> job_id j = i \<Longrightarrow> find_job i d = Some j"
  by (simp add: find_job_def jobs_ok_def find_row_key_eq)

lemma jobs_ok_update:
  assumes "jobs_ok d" and "bumps f" and "\<And>j. job_row_ok (job_seq d) j \<Longrightarrow> job_row_ok (job_seq d) (f j)"
  shows "jobs_ok (d\<lparr>tbl_jobs := update_where p f (tbl_jobs d)\<rparr>)"
  using assms
  by (auto simp: jobs_ok_def bumps_def map_update_where elim!: in_update_whereE)

lemma jobs_ok_insert:
  assumes "jobs_ok d" and "insert_job (new_job_row now jt p prio at) d = Inr (j, d')"
  shows "jobs_ok d'"
  using assms
  by (fastforce simp: jobs_ok_def insert_job_def Let_def job_row_ok_def new_job_row_def)

lemma keeps_jobs_ok_update [keeps_intros]:
  assumes "bumps f" and "\<And>seq j. job_row_ok seq j \<Longrightarrow> job_row_ok seq (f j)"
  shows "keeps jobs_ok (execute (update_jobs p f))"
  by (rule keeps_execute) (use assms in \<open>auto simp: update_jobs_def intro: jobs_ok_update\<close>)

lemma keeps_finish_job [keeps_intros]:
  assumes "bumps f" and "\<And>seq j. job_row_ok seq j \<Longrightarrow> job_row_ok seq (f j)"
  shows "keeps jobs_ok (finish_job name job f)"
  unfolding finish_job_def using assms by (auto intro!: keeps_intros)

lemma keeps_claim_loop:
  assumes "\<And>k d. jobs_ok d \<Longrightarrow> jobs_ok (env k d)"
  shows "keeps jobs_ok (claim_loop env now n)"
proof (induction n)
  case 0
  then show ?case by (simp add: keeps_intros)
next
  case (Suc n)
  have "keeps jobs_ok (modifyE (\<lambda>s. s\<lparr>tx_db := env n (tx_db s)\<rparr>))"
    by (rule keepsI) (simp add: assms)
  with Suc show ?case by (auto intro!: keeps_intros row_updates_ok)
qed


lemma keeps_jobs_ok_ops [keeps_intros]:
  "keeps jobs_ok (enqueue_raw jt p prio)" "keeps jobs_ok (enqueue_delayed jt p prio delay)"
  "keeps jobs_ok claim_next" "keeps jobs_ok (complete_job job)" "keeps jobs_ok (fail_job job e)"
  "keeps jobs_ok (fail_terminal job e)" "keeps jobs_ok reset_running_to_pending"
proof -
  have ins: "keeps jobs_ok (execute (insert_job (new_job_row now jt p prio at)))" for now at
    by (rule keeps_execute) (rule jobs_ok_insert)
  show "keeps jobs_ok (enqueue_raw jt p prio)" "keeps jobs_ok (enqueue_delayed jt p prio delay)"
    by (simp_all add: enqueue_raw_def enqueue_delayed_def keeps_intros ins)
  show "keeps jobs_ok claim_next"
    by (simp add: claim_next_def claim_next_among_def keeps_intros keeps_claim_loop)
  show "keeps jobs_ok (complete_job job)" "keeps jobs_ok (fail_job job e)"
    "keeps jobs_ok (fail_terminal job e)" "keeps jobs_ok reset_running_to_pending"
    unfolding complete_job_def fail_job_def fail_terminal_def reset_running_to_pending_def
    by (auto intro!: keeps_intros row_updates_ok)
qed

lemma keeps_jobs_ok_delete [keeps_intros]: "keeps jobs_ok (delete_old_jobs cutoff)"
  unfolding delete_old_jobs_def
  by (rule keeps_execute) (auto simp: jobs_ok_def intro: distinct_map_delete_where)

section \<open>Optimistic locking: how the table may change\<close>

text \<open>
  Along every operation a row's version never falls, a row whose version is unchanged is
  unchanged, and the id of a row that is gone is never used again.
\<close>

definition evolves :: "db \<Rightarrow> db \<Rightarrow> bool" where
  "evolves d d' \<longleftrightarrow> (jobs_ok d \<longrightarrow> jobs_ok d' \<and> job_seq d \<le> job_seq d' \<and>
     (\<forall>j \<in> set (tbl_jobs d). \<forall>j' \<in> set (tbl_jobs d'). job_id j = job_id j' \<longrightarrow>
        job_version j \<le> job_version j' \<and> (job_version j = job_version j' \<longrightarrow> j' = j)) \<and>
     (\<forall>j' \<in> set (tbl_jobs d'). job_id j' \<le> job_seq d \<longrightarrow> (\<exists>j \<in> set (tbl_jobs d). job_id j = job_id j')))"

lemma same_id_same_row:
  "jobs_ok d \<Longrightarrow> x \<in> set (tbl_jobs d) \<Longrightarrow> y \<in> set (tbl_jobs d) \<Longrightarrow> job_id x = job_id y \<Longrightarrow> x = y"
  by (auto simp: jobs_ok_def distinct_map dest: inj_onD)

lemma evolvesI:
  assumes "jobs_ok d \<Longrightarrow> jobs_ok d'" and "jobs_ok d \<Longrightarrow> job_seq d \<le> job_seq d'"
    and "\<And>y. jobs_ok d \<Longrightarrow> y \<in> set (tbl_jobs d') \<Longrightarrow>
      (\<exists>x \<in> set (tbl_jobs d). job_id x = job_id y \<and> (y = x \<or> job_version x < job_version y)) \<or>
      job_seq d < job_id y"
  shows "evolves d d'"
  unfolding evolves_def
proof (intro impI conjI ballI)
  assume ok: "jobs_ok d"
  show "jobs_ok d'" "job_seq d \<le> job_seq d'" using assms(1,2) ok by blast+
  fix y assume y: "y \<in> set (tbl_jobs d')"
  {
    assume "job_id y \<le> job_seq d"
    with assms(3) [OF ok y] show "\<exists>x \<in> set (tbl_jobs d). job_id x = job_id y" by auto
  }
  fix x assume x: "x \<in> set (tbl_jobs d)" and i: "job_id x = job_id y"
  from ok x have "job_id x \<le> job_seq d" by (auto simp: jobs_ok_def job_row_ok_def)
  with i assms(3) [OF ok y] obtain z where z: "z \<in> set (tbl_jobs d)" "job_id z = job_id y"
      "y = z \<or> job_version z < job_version y"
    by auto
  from i z(2) have "x = z" by (intro same_id_same_row [OF ok x z(1)]) simp
  with z(3) show "job_version x \<le> job_version y" "job_version x = job_version y \<Longrightarrow> y = x" by auto
qed

lemma evolves_refl: "evolves d d"
  by (rule evolvesI) auto

lemma evolves_ok: "evolves d d' \<Longrightarrow> jobs_ok d \<Longrightarrow> jobs_ok d' \<and> job_seq d \<le> job_seq d'"
  by (simp add: evolves_def)

lemma evolves_row:
  assumes "evolves d d'" and "jobs_ok d" and "y \<in> set (tbl_jobs d')"
  shows "(\<exists>x \<in> set (tbl_jobs d). job_id x = job_id y \<and> (y = x \<or> job_version x < job_version y)) \<or>
    job_seq d < job_id y"
proof (cases "job_id y \<le> job_seq d")
  case True
  with assms obtain x where x: "x \<in> set (tbl_jobs d)" "job_id x = job_id y"
    unfolding evolves_def by blast
  with assms have "job_version x \<le> job_version y \<and> (job_version x = job_version y \<longrightarrow> y = x)"
    unfolding evolves_def by blast
  with x show ?thesis by (metis order_le_imp_less_or_eq)
qed simp

lemma evolves_trans:
  assumes ab: "evolves a b" and bc: "evolves b c"
  shows "evolves a c"
proof (rule evolvesI)
  assume ok: "jobs_ok a"
  note b = evolves_ok [OF ab ok]
  note c = evolves_ok [OF bc b [THEN conjunct1]]
  show "jobs_ok c" "job_seq a \<le> job_seq c" using b c by auto
  fix z assume "z \<in> set (tbl_jobs c)"
  from evolves_row [OF bc b [THEN conjunct1] this]
  consider y where "y \<in> set (tbl_jobs b)" "job_id y = job_id z" "z = y \<or> job_version y < job_version z"
    | "job_seq a < job_id z"
    using b by fastforce
  then show "(\<exists>x \<in> set (tbl_jobs a). job_id x = job_id z \<and> (z = x \<or> job_version x < job_version z)) \<or>
    job_seq a < job_id z"
  proof cases
    case 1
    with evolves_row [OF ab ok 1(1)] show ?thesis by fastforce
  qed simp
qed

lemma evolves_laws: "reflp evolves" "transp evolves"
  by (auto intro: reflpI transpI evolves_refl evolves_trans)

lemma evolves_update:
  assumes f: "bumps f" and ok: "\<And>seq j. job_row_ok seq j \<Longrightarrow> job_row_ok seq (f j)"
  shows "evolves d (d\<lparr>tbl_jobs := update_where p f (tbl_jobs d)\<rparr>)"
proof (rule evolvesI)
  show "jobs_ok d \<Longrightarrow> jobs_ok (d\<lparr>tbl_jobs := update_where p f (tbl_jobs d)\<rparr>)"
    by (rule jobs_ok_update [OF _ f ok])
  fix y assume "y \<in> set (tbl_jobs (d\<lparr>tbl_jobs := update_where p f (tbl_jobs d)\<rparr>))"
  then have "y \<in> set (update_where p f (tbl_jobs d))" by simp
  then have "\<exists>x \<in> set (tbl_jobs d). job_id x = job_id y \<and> (y = x \<or> job_version x < job_version y)"
    by (rule in_update_whereE) (use f in \<open>auto simp: bumps_def\<close>)
  then show "(\<exists>x \<in> set (tbl_jobs d). job_id x = job_id y \<and> (y = x \<or> job_version x < job_version y)) \<or>
      job_seq d < job_id y" ..
qed simp

lemma evolves_insert:
  assumes i: "insert_job (new_job_row now jt p prio at) d = Inr (j, d')"
  shows "evolves d d'"
proof (rule evolvesI)
  show "jobs_ok d \<Longrightarrow> jobs_ok d'" by (rule jobs_ok_insert [OF _ i])
  show "job_seq d \<le> job_seq d'" using i by (auto simp: insert_job_def Let_def)
  fix y assume "y \<in> set (tbl_jobs d')"
  with i show "(\<exists>x \<in> set (tbl_jobs d). job_id x = job_id y \<and> (y = x \<or> job_version x < job_version y)) \<or>
      job_seq d < job_id y"
    by (auto simp: insert_job_def Let_def new_job_row_def)
qed

lemma evolves_delete: "evolves d (d\<lparr>tbl_jobs := delete_where p (tbl_jobs d)\<rparr>)"
  by (rule evolvesI) (auto simp: jobs_ok_def intro: distinct_map_delete_where)

lemma keeps_evolves_execute:
  assumes "\<And>d x d'. f d = Inr (x, d') \<Longrightarrow> evolves d d'"
  shows "keeps (evolves d0) (execute f)"
  by (rule keeps_execute) (use assms evolves_trans in blast)

lemma keeps_evolves_update [keeps_intros]:
  assumes "bumps f" and "\<And>seq j. job_row_ok seq j \<Longrightarrow> job_row_ok seq (f j)"
  shows "keeps (evolves d0) (execute (update_jobs p f))"
  by (rule keeps_evolves_execute) (use assms in \<open>auto simp: update_jobs_def intro: evolves_update\<close>)

lemma keeps_evolves_finish [keeps_intros]:
  assumes "bumps f" and "\<And>seq j. job_row_ok seq j \<Longrightarrow> job_row_ok seq (f j)"
  shows "keeps (evolves d0) (finish_job name job f)"
  unfolding finish_job_def using assms by (auto intro!: keeps_intros)

lemma keeps_evolves_claim_loop:
  assumes "\<And>k d. evolves d (env k d)"
  shows "keeps (evolves d0) (claim_loop env now n)"
proof (induction n)
  case 0
  then show ?case by (auto intro: keeps_intros)
next
  case (Suc n)
  have "keeps (evolves d0) (modifyE (\<lambda>s. s\<lparr>tx_db := env n (tx_db s)\<rparr>))"
    by (rule keepsI) (use assms evolves_trans in auto)
  with Suc show ?case by (auto intro!: keeps_intros row_updates_ok)
qed

lemma keeps_evolves_ops [keeps_intros]:
  "keeps (evolves d0) (enqueue_raw jt p prio)" "keeps (evolves d0) (enqueue_delayed jt p prio delay)"
  "keeps (evolves d0) claim_next" "keeps (evolves d0) (complete_job job)"
  "keeps (evolves d0) (fail_job job e)" "keeps (evolves d0) (fail_terminal job e)"
  "keeps (evolves d0) reset_running_to_pending" "keeps (evolves d0) (delete_old_jobs cutoff)"
proof -
  have ins: "keeps (evolves d0) (execute (insert_job (new_job_row now jt p prio at)))" for now at
    by (rule keeps_evolves_execute) (rule evolves_insert)
  show "keeps (evolves d0) (enqueue_raw jt p prio)" "keeps (evolves d0) (enqueue_delayed jt p prio delay)"
    by (simp_all add: enqueue_raw_def enqueue_delayed_def keeps_intros ins)
  show "keeps (evolves d0) claim_next"
    by (simp add: claim_next_def claim_next_among_def keeps_intros keeps_evolves_claim_loop evolves_refl)
  show "keeps (evolves d0) (complete_job job)" "keeps (evolves d0) (fail_job job e)"
    "keeps (evolves d0) (fail_terminal job e)" "keeps (evolves d0) reset_running_to_pending"
    unfolding complete_job_def fail_job_def fail_terminal_def reset_running_to_pending_def
    by (auto intro!: keeps_intros row_updates_ok)
  show "keeps (evolves d0) (delete_old_jobs cutoff)"
    unfolding delete_old_jobs_def by (rule keeps_evolves_execute) (auto intro: evolves_delete)
qed

text \<open>
  Every operation of the job repository, whatever database failures interrupt it, moves
  the table along \<open>evolves\<close>: the table's invariant is kept, versions only grow, a row
  whose version did not change did not change at all, and ids are never reused. This is what
  makes the version check of the optimistic lock sound.
\<close>

theorem job_operations_evolve:
  "evolves (tx_db s) (tx_db (snd (enqueue_raw jt p prio s))) \<and>
   evolves (tx_db s) (tx_db (snd (enqueue_delayed jt p prio delay s))) \<and>
   evolves (tx_db s) (tx_db (snd (claim_next s))) \<and>
   evolves (tx_db s) (tx_db (snd (complete_job job s))) \<and>
   evolves (tx_db s) (tx_db (snd (fail_job job e s))) \<and>
   evolves (tx_db s) (tx_db (snd (fail_terminal job e s))) \<and>
   evolves (tx_db s) (tx_db (snd (reset_running_to_pending s))) \<and>
   evolves (tx_db s) (tx_db (snd (delete_old_jobs cutoff s)))"
  by (intro conjI) (rule keepsD [OF _ evolves_refl], rule keeps_intros)+

end
