(* ===== verification/JobQueueProps.thy ===== *)
theory JobQueueProps
  imports JobQueue
begin

text \<open>
  What the job repository does on every branch: the choice a claim makes, its safety under
  interference, completion, failure with backoff, recovery and garbage collection; then the
  contract the worker relies on (\<open>job_store\<close>) and its interpretation on the adapter.
\<close>

section \<open>A concrete table\<close>

text \<open>
  The input of the witnesses: two pending jobs (the first of higher priority) and one left
  Running by a crash, at an instant when all are due.
\<close>

definition sample_row :: "JobId \<Rightarrow> int \<Rightarrow> JobStatus \<Rightarrow> Job" where
  "sample_row i priority st =
    \<lparr>job_id = i, job_type = ''parse_message'', job_payload = OtherJson ''{}'', job_status = st,
     job_priority = priority, job_attempt = (if st = Running then 1 else 0), job_max_attempts = 3,
     job_version = (if st = Running then 1 else 0), job_scheduled_at = 0,
     job_started_at = (if st = Running then Some 0 else None), job_completed_at = None,
     job_error_message = None, job_created_at = 0, job_updated_at = 0\<rparr>"

definition sample_jobs_db :: db where
  "sample_jobs_db = empty_db\<lparr>tbl_jobs := [sample_row 1 20 Pending, sample_row 2 10 Pending, sample_row 3 10 Running],
     job_seq := 3\<rparr>"

definition sample_tx :: tx where
  "sample_tx = \<lparr>tx_db = sample_jobs_db, tx_faults = [], tx_now = seconds 100, tx_rng = of_nat, tx_rng_pos = 0\<rparr>"

lemmas sample_defs = sample_row_def sample_jobs_db_def sample_tx_def empty_db_def

lemma sample_ok: "jobs_ok (tx_db sample_tx)"
  by (auto simp: sample_defs jobs_ok_def job_row_ok_def)

lemma sample_fields [simp]:
  "tx_faults sample_tx = []" "tx_now sample_tx = seconds 100"
  by (simp_all add: sample_tx_def)

text \<open>Another worker claims job 1 between the read and the update of the first attempt.\<close>

definition sample_env :: "nat \<Rightarrow> db \<Rightarrow> db" where
  "sample_env k d = (if k = 4
     then d\<lparr>tbl_jobs := update_where (\<lambda>j. job_id j = 1) (claimed_row (seconds 100)) (tbl_jobs d)\<rparr> else d)"

lemma sample_env_evolves: "evolves d (sample_env k d)"
  by (auto simp: sample_env_def evolves_refl intro: evolves_update row_updates_ok)

lemmas sample_eval = sample_defs seconds_def utc_now_def bindE_def stmt_simps act_eval
  claim_candidate_def claimable_def claim_key_def claim_guard_def claimed_row_def
  update_jobs_def update_where_def count_where_def find_job_def find_row_def

section \<open>The table after a versioned update\<close>

lemma same_version_key: "same_version job j \<longleftrightarrow> job_id j = job_id job \<and> job_version j = job_version job"
  by (simp add: same_version_def)

lemma update_one_row:
  assumes ok: "jobs_ok d" and c: "c \<in> set (tbl_jobs d)" and p: "\<And>j. p j \<Longrightarrow> job_id j = job_id c" "p c"
    and f: "\<And>j. job_id (f j) = job_id j"
  shows "update_jobs p f d = Inr (1, d\<lparr>tbl_jobs := update_where p f (tbl_jobs d)\<rparr>)"
    and "find_job (job_id c) (d\<lparr>tbl_jobs := update_where p f (tbl_jobs d)\<rparr>) = Some (f c)"
    and "find_job i (d\<lparr>tbl_jobs := update_where p f (tbl_jobs d)\<rparr>)
      = (if i = job_id c then Some (f c) else find_job i d)"
proof -
  have eq: "p = (\<lambda>j. job_id j = job_id c \<and> p j)" using p(1) by auto
  from ok have "count_where (\<lambda>j. job_id j = job_id c \<and> p j) (tbl_jobs d) = 1"
    using c p(2) by (auto simp: count_where_key jobs_ok_def)
  with eq show "update_jobs p f d = Inr (1, d\<lparr>tbl_jobs := update_where p f (tbl_jobs d)\<rparr>)"
    by (simp add: update_jobs_def)
  have fc: "find_job (job_id c) d = Some c" by (rule find_job_eq [OF ok c]) simp
  show *: "find_job i (d\<lparr>tbl_jobs := update_where p f (tbl_jobs d)\<rparr>)
      = (if i = job_id c then Some (f c) else find_job i d)" for i
  proof (cases "i = job_id c")
    case True
    with fc p(2) show ?thesis by (simp add: find_job_def find_row_update_where f)
  next
    case False
    have "map_option (\<lambda>r. if p r then f r else r) (find_job i d) = find_job i d"
      using False p(1) by (cases "find_job i d") (auto dest: find_job_in)
    with False show ?thesis by (simp add: find_job_def find_row_update_where f)
  qed
  show "find_job (job_id c) (d\<lparr>tbl_jobs := update_where p f (tbl_jobs d)\<rparr>) = Some (f c)"
    by (simp add: *)
qed

lemma update_no_row:
  assumes "\<forall>j \<in> set (tbl_jobs d). \<not> p j"
  shows "update_jobs p f d = Inr (0, d)"
  using assms by (simp add: update_jobs_def count_where_zero update_where_id)

section \<open>Claiming\<close>

lemma claim_candidate_Some:
  assumes "claim_candidate now d = Some c"
  shows "c \<in> set (tbl_jobs d)" and "claimable now c"
    and "\<forall>k \<in> set (tbl_jobs d). claimable now k \<longrightarrow> claim_key c \<le> claim_key k"
proof -
  let ?xs = "sort_key claim_key (filter (claimable now) (tbl_jobs d))"
  from assms obtain ys where ys: "?xs = c # ys"
    by (auto simp: claim_candidate_def split: list.splits)
  then have "c \<in> set ?xs" by simp
  then show "c \<in> set (tbl_jobs d)" "claimable now c" by auto
  have "sorted (map claim_key ?xs)" by simp
  then have "\<forall>k \<in> set ?xs. claim_key c \<le> claim_key k" unfolding ys by auto
  then show "\<forall>k \<in> set (tbl_jobs d). claimable now k \<longrightarrow> claim_key c \<le> claim_key k" by simp
qed

lemma claim_candidate_None:
  "claim_candidate now d = None \<longleftrightarrow> (\<forall>k \<in> set (tbl_jobs d). \<not> claimable now k)"
proof -
  have "claim_candidate now d = None \<longleftrightarrow> sort_key claim_key (filter (claimable now) (tbl_jobs d)) = []"
    by (simp add: claim_candidate_def split: list.splits)
  also have "\<dots> \<longleftrightarrow> set (sort_key claim_key (filter (claimable now) (tbl_jobs d))) = {}"
    by (simp only: set_empty)
  finally show ?thesis by auto
qed

lemma claim_guard_row: "claim_guard c j \<Longrightarrow> job_id j = job_id c"
  by (simp add: claim_guard_def)

lemma claim_update:
  assumes "jobs_ok d" and "c \<in> set (tbl_jobs d)" and "job_status c = Pending"
  shows "update_jobs (claim_guard c) (claimed_row now) d
      = Inr (1, d\<lparr>tbl_jobs := update_where (claim_guard c) (claimed_row now) (tbl_jobs d)\<rparr>)"
    and "find_job i (d\<lparr>tbl_jobs := update_where (claim_guard c) (claimed_row now) (tbl_jobs d)\<rparr>)
      = (if i = job_id c then Some (claimed_row now c) else find_job i d)"
  using update_one_row [OF assms(1,2), of "claim_guard c" "claimed_row now"] assms(3)
  by (simp_all add: claim_guard_def)

text \<open>The update hits a row exactly when the row read is still there, unchanged and pending.\<close>

lemma claim_update_hits:
  assumes ok: "jobs_ok d" and ev: "evolves d d'" and c: "c \<in> set (tbl_jobs d)"
    and hit: "update_jobs (claim_guard c) f d' = Inr (1, d'')"
  shows "c \<in> set (tbl_jobs d')" and "job_status c = Pending"
proof -
  from hit have "\<not> (\<forall>j \<in> set (tbl_jobs d'). \<not> claim_guard c j)"
    using update_no_row [of d' "claim_guard c" f] by auto
  then obtain j where j: "j \<in> set (tbl_jobs d')" "claim_guard c j" by blast
  with ok ev c have "j = c" by (auto simp: evolves_def claim_guard_def)
  with j show "c \<in> set (tbl_jobs d')" "job_status c = Pending" by (auto simp: claim_guard_def)
qed

lemma claim_update_misses:
  assumes ok: "jobs_ok d" and up: "update_jobs (claim_guard c) (claimed_row now) d = Inr (k, d')"
    and k: "k \<noteq> 1"
  shows "d' = d"
proof (cases "\<exists>j \<in> set (tbl_jobs d). claim_guard c j")
  case True
  then obtain j where j: "j \<in> set (tbl_jobs d)" "claim_guard c j" by blast
  have "update_jobs (claim_guard c) (claimed_row now) d
      = Inr (1, d\<lparr>tbl_jobs := update_where (claim_guard c) (claimed_row now) (tbl_jobs d)\<rparr>)"
    by (rule update_one_row(1) [of d j "claim_guard c" "claimed_row now"])
      (use ok j in \<open>auto simp: claim_guard_def\<close>)
  with up k show ?thesis by simp
next
  case False
  with up show ?thesis by (simp add: update_no_row)
qed

text \<open>
  What a successful claim has done to the table \<open>d\<close> its update found: it turned one pending, due
  row of it into the returned job and left every other row alone.
\<close>

definition claims :: "time \<Rightarrow> Job \<Rightarrow> db \<Rightarrow> db \<Rightarrow> bool" where
  "claims now j d d' \<longleftrightarrow> jobs_ok d \<and>
     (\<exists>c \<in> set (tbl_jobs d). claimable now c \<and> j = claimed_row now c \<and>
       d' = d\<lparr>tbl_jobs := map (\<lambda>x. if x = c then j else x) (tbl_jobs d)\<rparr>) \<and>
     find_job (job_id j) d' = Some j \<and> (\<forall>i. i \<noteq> job_id j \<longrightarrow> find_job i d' = find_job i d)"

text \<open>The table after what the others commit in the attempts \<open>n - 1\<close> down to \<open>k\<close>.\<close>

definition commits :: "(nat \<Rightarrow> db \<Rightarrow> db) \<Rightarrow> nat \<Rightarrow> nat \<Rightarrow> db \<Rightarrow> db" where
  "commits env k n d = foldl (\<lambda>d i. env i d) d (rev [k..<n])"

lemma commits_simps [simp]:
  "commits env n (Suc n) d = env n d"
  "k < n \<Longrightarrow> commits env k n (env n d) = commits env k (Suc n) d"
  "commits (\<lambda>_ d. d) k n d = d"
proof -
  show "commits env n (Suc n) d = env n d" "k < n \<Longrightarrow> commits env k n (env n d) = commits env k (Suc n) d"
    by (simp_all add: commits_def)
  show "commits (\<lambda>_ d. d) k n d = d" by (induction n) (simp_all add: commits_def)
qed

lemma claim_update_map:
  assumes "jobs_ok d" and "c \<in> set (tbl_jobs d)" and "job_status c = Pending"
  shows "update_where (claim_guard c) f (tbl_jobs d) = map (\<lambda>x. if x = c then f c else x) (tbl_jobs d)"
  using assms same_id_same_row [OF assms(1)] by (auto simp: update_where_def claim_guard_def)

lemma claim_loop_claims:
  assumes ev: "\<And>k d. evolves d (env k d)"
    and "jobs_ok (tx_db s)" and "claim_loop env now n s = (Inr (Some j), t)"
  shows "\<exists>k < n. claims now j (commits env k n (tx_db s)) (tx_db t)"
  using assms(2-)
proof (induction n arbitrary: s)
  case 0
  then show ?case by (simp add: act_eval)
next
  case (Suc n)
  from Suc.prems(2) obtain c0 s0 where q: "query (claim_candidate now) s = (Inr c0, s0)"
    and rest: "(case c0 of None \<Rightarrow> ret None
      | Some c \<Rightarrow>
          bindE (modifyE (\<lambda>s. s\<lparr>tx_db := env n (tx_db s)\<rparr>)) (\<lambda>_.
          bindE (execute (update_jobs (claim_guard c) (claimed_row now))) (\<lambda>rows_affected.
            if rows_affected = 1 then
              bindE (query (find_job (job_id c))) (\<lambda>claimed.
                case claimed of None \<Rightarrow> throw (RepoError NotFound) | Some j \<Rightarrow> ret (Some j))
            else claim_loop env now n))) s0 = (Inr (Some j), t)"
    unfolding claim_loop.simps bindE_Inr_iff [of "query (claim_candidate now)"] by blast
  from rest obtain c where c0: "c0 = Some c" by (cases c0) (auto simp: act_eval)
  from query_Inr [OF q] c0 have cand: "claim_candidate now (tx_db s) = Some c" and s0: "tx_db s0 = tx_db s"
    by auto
  let ?s1 = "s0\<lparr>tx_db := env n (tx_db s0)\<rparr>"
  from rest obtain k s2 where ex: "execute (update_jobs (claim_guard c) (claimed_row now)) ?s1 = (Inr k, s2)"
    and rest2: "(if k = 1 then
              bindE (query (find_job (job_id c))) (\<lambda>claimed.
                case claimed of None \<Rightarrow> throw (RepoError NotFound) | Some j \<Rightarrow> ret (Some j))
            else claim_loop env now n) s2 = (Inr (Some j), t)"
    unfolding c0 option.case modifyE_bindE bindE_Inr_iff [of "execute _"] by blast
  let ?d = "env n (tx_db s)"
  from ev Suc.prems(1) have okd: "jobs_ok ?d" by (blast dest: evolves_ok)
  from execute_Inr [OF ex] s0 have up: "update_jobs (claim_guard c) (claimed_row now) ?d = Inr (k, tx_db s2)"
    by simp
  show ?case
  proof (cases "k = 1")
    case True
    note c_in = claim_candidate_Some(1) [OF cand]
    note hit = claim_update_hits [OF Suc.prems(1) ev c_in up [unfolded True]]
    note upd = claim_update [OF okd hit]
    from up upd(1) have s2: "tx_db s2 = ?d\<lparr>tbl_jobs := update_where (claim_guard c) (claimed_row now) (tbl_jobs ?d)\<rparr>"
      by simp
    from rest2 True obtain r s3 where q2: "query (find_job (job_id c)) s2 = (Inr r, s3)"
      and r: "(case r of None \<Rightarrow> throw (RepoError NotFound) | Some j \<Rightarrow> ret (Some j)) s3 = (Inr (Some j), t)"
      by (auto simp: bindE_Inr_iff)
    from query_Inr [OF q2] upd(2) s2 have "r = Some (claimed_row now c)" and s3: "tx_db s3 = tx_db s2"
      by auto
    with r have j: "j = claimed_row now c" and t: "tx_db t = tx_db s2" by (auto simp: act_eval)
    from okd hit claim_candidate_Some(2) [OF cand] upd(2) s2 t j claim_update_map [OF okd hit]
    have "claims now j ?d (tx_db t)" by (auto simp: claims_def)
    then show ?thesis by (intro exI [of _ n]) simp
  next
    case False
    with claim_update_misses [OF okd up] have "tx_db s2 = ?d" by simp
    with Suc.IH [of s2] rest2 False okd obtain k where "k < n" "claims now j (commits env k n ?d) (tx_db t)" by auto
    then show ?thesis by (intro exI [of _ k]) simp
  qed
qed

lemma claim_loop_none:
  assumes "claim_loop (\<lambda>_ d. d) now n s = (Inr None, t)" and "jobs_ok (tx_db s)"
  shows "tx_db t = tx_db s"
  using assms
proof (induction n arbitrary: s)
  case 0
  then show ?case by (simp add: act_eval)
next
  case (Suc n)
  from Suc.prems(1) obtain c0 s0 where q: "query (claim_candidate now) s = (Inr c0, s0)"
    and rest: "(case c0 of None \<Rightarrow> ret None
      | Some c \<Rightarrow>
          bindE (modifyE (\<lambda>s. s\<lparr>tx_db := tx_db s\<rparr>)) (\<lambda>_.
          bindE (execute (update_jobs (claim_guard c) (claimed_row now))) (\<lambda>rows_affected.
            if rows_affected = 1 then
              bindE (query (find_job (job_id c))) (\<lambda>claimed.
                case claimed of None \<Rightarrow> throw (RepoError NotFound) | Some j \<Rightarrow> ret (Some j))
            else claim_loop (\<lambda>_ d. d) now n))) s0 = (Inr None, t)"
    unfolding claim_loop.simps bindE_Inr_iff [of "query (claim_candidate now)"] by blast
  from query_Inr [OF q] have s0: "tx_db s0 = tx_db s" by simp
  show ?case
  proof (cases c0)
    case None
    with rest s0 show ?thesis by (simp add: act_eval)
  next
    case (Some c)
    from rest obtain k s2 where ex: "execute (update_jobs (claim_guard c) (claimed_row now)) s0 = (Inr k, s2)"
      and rest2: "(if k = 1 then
              bindE (query (find_job (job_id c))) (\<lambda>claimed.
                case claimed of None \<Rightarrow> throw (RepoError NotFound) | Some j \<Rightarrow> ret (Some j))
            else claim_loop (\<lambda>_ d. d) now n) s2 = (Inr None, t)"
      unfolding Some option.case modifyE_bindE bindE_Inr_iff [of "execute _"] by auto
    have k: "k \<noteq> 1"
    proof
      assume "k = 1"
      with rest2 show False by (auto simp: bindE_Inr_iff act_eval split: option.splits)
    qed
    from execute_Inr [OF ex] s0
    have "update_jobs (claim_guard c) (claimed_row now) (tx_db s) = Inr (k, tx_db s2)" by simp
    from claim_update_misses [OF Suc.prems(2) this k] have "tx_db s2 = tx_db s" .
    with Suc.IH [of s2] rest2 k Suc.prems(2) show ?thesis by simp
  qed
qed

text \<open>
  C34. A claim never takes a job another connection holds: whatever the other connections commit
  in each attempt between its read and its update (along the evolution of the table) and whatever
  fails, a claim that returns a job has, in one of its five attempts, found in the table the others
  left a row that was pending and due; it made that row Running, at the next version, with one more
  attempt, started now, returned it as it is stored, and left every other row of that table alone.
\<close>

theorem claim_safe_under_interference:
  assumes "\<And>k d. evolves d (env k d)" and "jobs_ok (tx_db s)"
    and "claim_next_among env s = (Inr (Some j), t)"
  shows "\<exists>k < MAX_CLAIM_ATTEMPTS. \<exists>c \<in> set (tbl_jobs (commits env k MAX_CLAIM_ATTEMPTS (tx_db s))).
    job_status c = Pending \<and> job_scheduled_at c \<le> tx_now s \<and>
    j = c\<lparr>job_status := Running, job_attempt := job_attempt c + 1, job_started_at := Some (tx_now s),
      job_version := job_version c + 1, job_updated_at := tx_now s\<rparr> \<and>
    tx_db t = (commits env k MAX_CLAIM_ATTEMPTS (tx_db s))
      \<lparr>tbl_jobs := map (\<lambda>x. if x = c then j else x) (tbl_jobs (commits env k MAX_CLAIM_ATTEMPTS (tx_db s)))\<rparr>"
proof -
  from assms(3) have "claim_loop env (tx_now s) MAX_CLAIM_ATTEMPTS s = (Inr (Some j), t)"
    by (simp add: claim_next_among_def utc_now_def bindE_def)
  from claim_loop_claims [OF assms(1,2) this]
  obtain k where "k < MAX_CLAIM_ATTEMPTS" and "claims (tx_now s) j (commits env k MAX_CLAIM_ATTEMPTS (tx_db s)) (tx_db t)"
    by blast
  then show ?thesis by (intro exI [of _ k]) (auto simp: claims_def claimable_def claimed_row_def)
qed

text \<open>
  The row of highest priority is claimed by another connection between the read and the update of
  the first attempt, so the second attempt takes the next one.
\<close>

theorem claim_safe_under_interference_witness:
  "\<exists>j t. claim_next_among sample_env sample_tx = (Inr (Some j), t) \<and> job_id j = 2 \<and>
     job_status j = Running \<and> j \<in> set (tbl_jobs (tx_db t))"
proof -
  have "\<exists>j t. claim_next_among sample_env sample_tx = (Inr (Some j), t) \<and> job_id j = 2"
    by (simp add: claim_next_among_def MAX_CLAIM_ATTEMPTS_def numeral_eq_Suc sample_env_def sample_eval)
  then obtain j t where run: "claim_next_among sample_env sample_tx = (Inr (Some j), t)" and i: "job_id j = 2"
    by blast
  show ?thesis
    using claim_safe_under_interference [OF sample_env_evolves sample_ok run] run i by auto
qed

lemma claim_next_clear:
  assumes "tx_faults s = []" and ok: "jobs_ok (tx_db s)"
  shows "claim_next s = (case claim_candidate (tx_now s) (tx_db s) of
      None \<Rightarrow> (Inr None, s)
    | Some c \<Rightarrow> (Inr (Some (claimed_row (tx_now s) c)),
        s\<lparr>tx_db := tx_db s\<lparr>tbl_jobs := update_where (claim_guard c) (claimed_row (tx_now s)) (tbl_jobs (tx_db s))\<rparr>\<rparr>))"
proof (cases "claim_candidate (tx_now s) (tx_db s)")
  case None
  with assms(1) show ?thesis
    by (simp add: claim_next_def claim_next_among_def MAX_CLAIM_ATTEMPTS_def numeral_eq_Suc utc_now_def
        bindE_def stmt_simps act_eval)
next
  case (Some c)
  note upd = claim_update [OF ok claim_candidate_Some(1) [OF Some]]
  from claim_candidate_Some(2) [OF Some] have "job_status c = Pending" by (simp add: claimable_def)
  note upd = upd [OF this]
  from Some assms(1) show ?thesis
    by (simp add: claim_next_def claim_next_among_def MAX_CLAIM_ATTEMPTS_def numeral_eq_Suc utc_now_def
        bindE_def stmt_simps act_eval upd [simplified])
qed

text \<open>
  With no failure, a claim returns the due pending job of highest priority, then earliest
  schedule, then lowest id, marked Running with one more attempt, and returns nothing exactly
  when no pending job is due.
\<close>

theorem claim_next_picks_best:
  assumes "tx_faults s = []" and "jobs_ok (tx_db s)"
  shows "case fst (claim_next s) of
      Inl _ \<Rightarrow> False
    | Inr None \<Rightarrow> \<forall>k \<in> set (tbl_jobs (tx_db s)). \<not> claimable (tx_now s) k
    | Inr (Some j) \<Rightarrow> \<exists>c \<in> set (tbl_jobs (tx_db s)).
        claimable (tx_now s) c \<and> j = claimed_row (tx_now s) c \<and>
        (\<forall>k \<in> set (tbl_jobs (tx_db s)). claimable (tx_now s) k \<longrightarrow> claim_key c \<le> claim_key k)"
proof (cases "claim_candidate (tx_now s) (tx_db s)")
  case None
  then show ?thesis
    using claim_next_clear [OF assms] claim_candidate_None [of "tx_now s" "tx_db s"] by simp
next
  case (Some c)
  then show ?thesis using claim_next_clear [OF assms] claim_candidate_Some [OF Some] by auto
qed


theorem claim_next_picks_best_witness:
  "\<exists>j c. fst (claim_next sample_tx) = Inr (Some j) \<and> c \<in> set (tbl_jobs (tx_db sample_tx)) \<and>
     j = claimed_row (seconds 100) c \<and> claim_key c \<le> claim_key (sample_row 2 10 Pending)"
proof -
  have "\<exists>j. fst (claim_next sample_tx) = Inr (Some j)"
    unfolding claim_next_clear [OF sample_fields(1) sample_ok] by (simp add: sample_eval)
  then obtain j where j: "fst (claim_next sample_tx) = Inr (Some j)" by blast
  moreover have "claimable (seconds 100) (sample_row 2 10 Pending) \<and>
      sample_row 2 10 Pending \<in> set (tbl_jobs (tx_db sample_tx))"
    by (simp add: sample_eval)
  ultimately show ?thesis using claim_next_picks_best [OF sample_fields(1) sample_ok] by auto
qed

section \<open>Finishing\<close>

definition version_matches :: "Job \<Rightarrow> db \<Rightarrow> bool" where
  "version_matches job d \<longleftrightarrow>
     (\<exists>c. find_job (job_id job) d = Some c \<and> job_version c = job_version job)"

lemma finish_update:
  assumes ok: "jobs_ok d" and f: "bumps f" and c: "find_job (job_id job) d = Some c"
    and v: "job_version c = job_version job"
  shows "update_jobs (same_version job) f d
      = Inr (1, d\<lparr>tbl_jobs := update_where (same_version job) f (tbl_jobs d)\<rparr>)"
    and "find_job i (d\<lparr>tbl_jobs := update_where (same_version job) f (tbl_jobs d)\<rparr>)
      = (if i = job_id job then Some (f c) else find_job i d)"
proof -
  from find_job_in [OF c] have c_in: "c \<in> set (tbl_jobs d)" and id: "job_id c = job_id job" by auto
  note * = update_one_row [OF ok c_in, of "same_version job" f]
  show "update_jobs (same_version job) f d
      = Inr (1, d\<lparr>tbl_jobs := update_where (same_version job) f (tbl_jobs d)\<rparr>)"
    by (rule *(1)) (use id v f in \<open>auto simp: same_version_def bumps_def\<close>)
  have "find_job i (d\<lparr>tbl_jobs := update_where (same_version job) f (tbl_jobs d)\<rparr>)
      = (if i = job_id c then Some (f c) else find_job i d)"
    by (rule *(3)) (use id v f in \<open>auto simp: same_version_def bumps_def\<close>)
  with id show "find_job i (d\<lparr>tbl_jobs := update_where (same_version job) f (tbl_jobs d)\<rparr>)
      = (if i = job_id job then Some (f c) else find_job i d)"
    by simp
qed

lemma finish_no_update:
  assumes "jobs_ok d" and "\<not> version_matches job d"
  shows "update_jobs (same_version job) f d = Inr (0, d)"
  by (rule update_no_row)
    (use assms in \<open>auto simp: version_matches_def same_version_def dest: find_job_eq\<close>)

lemma finish_job_Inr:
  assumes ok: "jobs_ok (tx_db s)" and f: "bumps f" and run: "finish_job name job f s = (Inr r, t)"
  shows "\<exists>c. find_job (job_id job) (tx_db s) = Some c \<and> job_version c = job_version job \<and> r = f c \<and>
    (\<forall>i. find_job i (tx_db t) = (if i = job_id job then Some (f c) else find_job i (tx_db s))) \<and>
    tx_db t = (tx_db s)\<lparr>tbl_jobs := update_where (same_version job) f (tbl_jobs (tx_db s))\<rparr>"
proof -
  from run obtain k s1 s2 where ex: "execute (update_jobs (same_version job) f) s = (Inr k, s1)"
    and k: "requireE (k = 1) (Infrastructure (affected_text name job k)) s1 = (Inr (), s2)"
    and q: "bindE (query (find_job (job_id job))) (\<lambda>updated.
      case updated of None \<Rightarrow> throw (RepoError NotFound) | Some j \<Rightarrow> ret j) s2 = (Inr r, t)"
    unfolding finish_job_def bindE_Inr_iff [of "execute _"] bindE_Inr_iff [of "requireE _ _"] by auto
  from k have k1: "k = 1" and s2: "s2 = s1" by (auto simp: requireE_apply split: if_splits)
  from execute_Inr [OF ex] k1 have up: "update_jobs (same_version job) f (tx_db s) = Inr (1, tx_db s1)"
    by simp
  with finish_no_update [OF ok] have "version_matches job (tx_db s)" by fastforce
  then obtain c where c: "find_job (job_id job) (tx_db s) = Some c" "job_version c = job_version job"
    by (auto simp: version_matches_def)
  from up finish_update(1) [OF ok f c]
  have s1: "tx_db s1 = tx_db s\<lparr>tbl_jobs := update_where (same_version job) f (tbl_jobs (tx_db s))\<rparr>"
    by simp
  from q obtain o1 s3 where q1: "query (find_job (job_id job)) s2 = (Inr o1, s3)"
    and o1: "(case o1 of None \<Rightarrow> throw (RepoError NotFound) | Some j \<Rightarrow> ret j) s3 = (Inr r, t)"
    unfolding bindE_Inr_iff by blast
  from query_Inr [OF q1] s1 s2 finish_update(2) [OF ok f c]
  have "o1 = Some (f c)" and "tx_db s3 = tx_db s1" by auto
  with o1 have "r = f c" "tx_db t = tx_db s1" by (auto simp: act_eval)
  with c s1 finish_update(2) [OF ok f c] show ?thesis by auto
qed

lemma finish_job_clear:
  assumes "tx_faults s = []" and ok: "jobs_ok (tx_db s)" and f: "bumps f"
  shows "finish_job name job f s =
    (if version_matches job (tx_db s) then
       (Inr (f (the (find_job (job_id job) (tx_db s)))),
        s\<lparr>tx_db := tx_db s\<lparr>tbl_jobs := update_where (same_version job) f (tbl_jobs (tx_db s))\<rparr>\<rparr>)
     else (Inl (Infrastructure (affected_text name job 0)), s))"
proof (cases "version_matches job (tx_db s)")
  case True
  then obtain c where c: "find_job (job_id job) (tx_db s) = Some c" "job_version c = job_version job"
    by (auto simp: version_matches_def)
  note upd = finish_update [OF ok f c]
  from assms(1) True c show ?thesis
    by (simp add: finish_job_def bindE_def stmt_simps act_eval requireE_apply upd [simplified])
next
  case False
  with assms(1) finish_no_update [OF ok False] show ?thesis
    by (simp add: finish_job_def bindE_def stmt_simps act_eval requireE_apply)
qed

text \<open>
  Finishing a job is an optimistic-lock update on every branch: with no failure,
  \<open>complete\<close> and \<open>fail_terminal\<close> succeed exactly when the row still has the version
  the caller holds, set Completed (respectively Failed with the message), stamp the time and raise
  the version; otherwise they report the conflict and leave the tables alone.
\<close>

theorem finish_outcomes:
  assumes "tx_faults s = []" and "jobs_ok (tx_db s)"
  shows "if version_matches job (tx_db s)
    then \<exists>c. find_job (job_id job) (tx_db s) = Some c \<and>
      fst (complete_job job s) = Inr (completed_row (tx_now s) c) \<and>
      find_job (job_id job) (tx_db (snd (complete_job job s))) = Some (completed_row (tx_now s) c) \<and>
      fst (fail_terminal job e s) = Inr (failed_row (tx_now s) e c) \<and>
      find_job (job_id job) (tx_db (snd (fail_terminal job e s))) = Some (failed_row (tx_now s) e c)
    else complete_job job s = (Inl (Infrastructure (affected_text ''complete'' job 0)), s) \<and>
      fail_terminal job e s = (Inl (Infrastructure (affected_text ''fail_terminal'' job 0)), s)"
proof (cases "version_matches job (tx_db s)")
  case True
  then obtain c where c: "find_job (job_id job) (tx_db s) = Some c" "job_version c = job_version job"
    by (auto simp: version_matches_def)
  note upd = finish_update(2) [OF assms(2) _ c]
  from True c upd show ?thesis
    by (simp add: complete_job_def fail_terminal_def utc_now_def finish_job_clear [OF assms])
next
  case False
  then show ?thesis
    by (simp add: complete_job_def fail_terminal_def utc_now_def finish_job_clear [OF assms])
qed

theorem finish_outcomes_witness:
  "find_job 3 (tx_db (snd (complete_job (sample_row 3 10 Running) sample_tx)))
     = Some (completed_row (seconds 100) (sample_row 3 10 Running))"
proof -
  have "find_job 3 (tx_db sample_tx) = Some (sample_row 3 10 Running)" by (simp add: sample_eval)
  then show ?thesis
    using finish_outcomes [OF sample_fields(1) sample_ok, of "sample_row 3 10 Running" "[]"]
    by (auto simp: version_matches_def sample_row_def)
qed

text \<open>
  A failed job is retried within its budget: while the claimed attempt is below the
  maximum the row goes back to Pending, scheduled a backoff after now, with the error kept; at
  the maximum it becomes Failed.
\<close>

theorem fail_retries_within_budget:
  assumes "tx_faults s = []" and "jobs_ok (tx_db s)"
    and "find_job (job_id job) (tx_db s) = Some c" and "job_version c = job_version job"
  shows "find_job (job_id job) (tx_db (snd (fail_job job e s))) = Some
    (if job_attempt job < job_max_attempts job
     then c\<lparr>job_status := Pending, job_scheduled_at := tx_now s + seconds (backoff_secs (job_attempt job)),
        job_error_message := Some e, job_version := job_version c + 1, job_updated_at := tx_now s\<rparr>
     else c\<lparr>job_status := Failed, job_completed_at := Some (tx_now s),
        job_error_message := Some e, job_version := job_version c + 1, job_updated_at := tx_now s\<rparr>)"
proof -
  have "version_matches job (tx_db s)" using assms(3,4) by (auto simp: version_matches_def)
  with finish_update(2) [OF assms(2) _ assms(3,4)] assms(3) show ?thesis
    by (simp add: fail_job_def utc_now_def finish_job_clear [OF assms(1,2)] rescheduled_row_def failed_row_def)
qed

theorem fail_retries_within_budget_witness:
  "find_job 3 (tx_db (snd (fail_job (sample_row 3 10 Running) ''boom'' sample_tx)))
     = Some (rescheduled_row (seconds 100) (seconds 160) ''boom'' (sample_row 3 10 Running))"
proof -
  have "find_job (job_id (sample_row 3 10 Running)) (tx_db sample_tx) = Some (sample_row 3 10 Running)"
    by (simp add: sample_eval)
  from fail_retries_within_budget [OF sample_fields(1) sample_ok this refl]
  show ?thesis by (simp add: sample_row_def rescheduled_row_def backoff_secs_def seconds_def)
qed

text \<open>
  The backoff of a claimed job (one attempt at least) is between one minute and about a
  year, never shrinks as attempts grow, and fits the 64-bit arithmetic it is computed in.
\<close>

theorem backoff_bounds:
  assumes "1 \<le> a"
  shows "60 \<le> backoff_secs a \<and> backoff_secs a \<le> 31457280 \<and> backoff_secs a < 2 ^ 63 \<and>
    (a \<le> b \<longrightarrow> backoff_secs a \<le> backoff_secs b)"
proof -
  have lo: "(2::int) ^ 1 \<le> 2 ^ nat (min a 20)" by (rule power_increasing) (use assms in auto)
  have hi: "(2::int) ^ nat (min a 20) \<le> 2 ^ 20" by (rule power_increasing) auto
  have mono: "a \<le> b \<longrightarrow> (2::int) ^ nat (min a 20) \<le> 2 ^ nat (min b 20)"
    by (intro impI power_increasing) auto
  from lo hi have "60 \<le> backoff_secs a" "backoff_secs a \<le> 31457280"
    by (simp_all add: backoff_secs_def)
  with mono show ?thesis by (auto simp: backoff_secs_def)
qed

theorem backoff_bounds_witness: "60 \<le> backoff_secs 1 \<and> backoff_secs 1 \<le> backoff_secs 3"
  using backoff_bounds [of 1 3] by simp

section \<open>Recovery and garbage collection\<close>

lemma reset_clear:
  assumes "tx_faults s = []"
  shows "reset_running_to_pending s =
    (Inr (count_where (\<lambda>j. job_status j = Running) (tbl_jobs (tx_db s))),
     s\<lparr>tx_db := tx_db s\<lparr>tbl_jobs := map (\<lambda>j. if job_status j = Running then pending_again_row (tx_now s) j else j)
       (tbl_jobs (tx_db s))\<rparr>\<rparr>)"
  using assms
  by (simp add: reset_running_to_pending_def utc_now_def stmt_simps update_jobs_def update_where_def)

text \<open>
  Start-up recovery: with no failure, every job a crash left Running is Pending again
  (claimable at once if it was due), every other row is untouched, no job is lost, and the
  count returned is the number of jobs reset.
\<close>

theorem reset_recovers_running:
  assumes "tx_faults s = []" and "reset_running_to_pending s = (r, t)"
  shows "r = Inr (length (filter (\<lambda>j. job_status j = Running) (tbl_jobs (tx_db s)))) \<and>
    map job_id (tbl_jobs (tx_db t)) = map job_id (tbl_jobs (tx_db s)) \<and>
    (\<forall>j \<in> set (tbl_jobs (tx_db t)). job_status j \<noteq> Running) \<and>
    (\<forall>j \<in> set (tbl_jobs (tx_db s)). if job_status j = Running
       then \<exists>k \<in> set (tbl_jobs (tx_db t)). job_id k = job_id j \<and> job_status k = Pending \<and>
         job_scheduled_at k = job_scheduled_at j \<and> job_attempt k = job_attempt j
       else j \<in> set (tbl_jobs (tx_db t)))"
  using assms(2) unfolding reset_clear [OF assms(1)]
  by (auto simp: count_where_def pending_again_row_def o_def intro!: bexI [OF _ UnI1 [OF imageI]])

theorem reset_recovers_running_witness:
  "filter (\<lambda>j. job_status j = Running) (tbl_jobs (tx_db (snd (reset_running_to_pending sample_tx)))) = []"
  using reset_recovers_running [OF sample_fields(1), of "fst (reset_running_to_pending sample_tx)"
      "snd (reset_running_to_pending sample_tx)"] by (simp add: filter_empty_conv)

lemma delete_old_jobs_clear:
  assumes "tx_faults s = []"
  shows "delete_old_jobs cutoff s =
    (Inr (count_where (old_job cutoff) (tbl_jobs (tx_db s))),
     s\<lparr>tx_db := tx_db s\<lparr>tbl_jobs := delete_where (old_job cutoff) (tbl_jobs (tx_db s))\<rparr>\<rparr>)"
  using assms by (simp add: delete_old_jobs_def stmt_simps)

lemma old_job_finished: "old_job cutoff j \<Longrightarrow> \<not> unfinished j"
  by (auto simp: old_job_def unfinished_def)


section \<open>What the transactions of a worker do, exactly\<close>

text \<open>A claim takes the best due row, and says that there is none only when there is none.\<close>

lemma tx_claim_exact:
  fixes s :: "'z tx_scheme"
  assumes ok: "jobs_ok (tx_db s)" and run: "transaction claim_next s = (Inr oj, t)"
  shows "case claim_candidate (tx_now s) (tx_db s) of
      None \<Rightarrow> oj = None \<and> tx_db t = tx_db s
    | Some c \<Rightarrow> oj = Some (claimed_row (tx_now s) c) \<and>
        tx_db t = (tx_db s)\<lparr>tbl_jobs := map (\<lambda>x. if x = c then claimed_row (tx_now s) c else x) (tbl_jobs (tx_db s))\<rparr>"
proof -
  from run obtain s0 s1 :: "'z tx_scheme" where s0: "tx_db s0 = tx_db s" "tx_now s0 = tx_now s"
      "claim_next s0 = (Inr oj, s1)" "tx_db t = tx_db s1"
    by (rule transaction_Inr)
  then have "claim_loop (\<lambda>_ d. d) (tx_now s) (Suc 4) s0 = (Inr oj, s1)"
    by (simp add: claim_next_def claim_next_among_def utc_now_def MAX_CLAIM_ATTEMPTS_def bindE_def)
  then obtain c0 s2 where q: "query (claim_candidate (tx_now s)) s0 = (Inr c0, s2)"
    and rest: "(case c0 of None \<Rightarrow> ret None
      | Some c \<Rightarrow>
          bindE (modifyE (\<lambda>s. s\<lparr>tx_db := tx_db s\<rparr>)) (\<lambda>_.
          bindE (execute (update_jobs (claim_guard c) (claimed_row (tx_now s)))) (\<lambda>rows_affected.
            if rows_affected = 1 then
              bindE (query (find_job (job_id c))) (\<lambda>claimed.
                case claimed of None \<Rightarrow> throw (RepoError NotFound) | Some j \<Rightarrow> ret (Some j))
            else claim_loop (\<lambda>_ d. d) (tx_now s) 4))) s2 = (Inr oj, s1)"
    unfolding claim_loop.simps bindE_Inr_iff [of "query (claim_candidate _)"] by blast
  from query_Inr [OF q] s0(1) have c0: "c0 = claim_candidate (tx_now s) (tx_db s)" and s2: "tx_db s2 = tx_db s" by auto
  show ?thesis
  proof (cases c0)
    case None
    with rest s2 s0(4) c0 show ?thesis by (simp add: act_eval)
  next
    case (Some c)
    with c0 have cand: "claim_candidate (tx_now s) (tx_db s) = Some c" by simp
    from claim_candidate_Some(2) [OF cand] have "job_status c = Pending" by (simp add: claimable_def)
    note upd = claim_update [OF ok claim_candidate_Some(1) [OF cand] this, where now = "tx_now s"]
      and rows = claim_update_map [OF ok claim_candidate_Some(1) [OF cand] this, where f = "claimed_row (tx_now s)"]
    from rest obtain k s3 where ex: "execute (update_jobs (claim_guard c) (claimed_row (tx_now s))) s2 = (Inr k, s3)"
      and rest2: "(if k = 1 then
              bindE (query (find_job (job_id c))) (\<lambda>claimed.
                case claimed of None \<Rightarrow> throw (RepoError NotFound) | Some j \<Rightarrow> ret (Some j))
            else claim_loop (\<lambda>_ d. d) (tx_now s) 4) s3 = (Inr oj, s1)"
      unfolding Some option.case modifyE_bindE bindE_Inr_iff [of "execute _"] by auto
    from execute_Inr [OF ex] s2 upd(1) have k: "k = 1" and
      s3: "tx_db s3 = (tx_db s)\<lparr>tbl_jobs := update_where (claim_guard c) (claimed_row (tx_now s)) (tbl_jobs (tx_db s))\<rparr>"
      by auto
    from rest2 k obtain r s4 where q2: "query (find_job (job_id c)) s3 = (Inr r, s4)"
      and r: "(case r of None \<Rightarrow> throw (RepoError NotFound) | Some j \<Rightarrow> ret (Some j)) s4 = (Inr oj, s1)"
      by (auto simp: bindE_Inr_iff)
    from query_Inr [OF q2] upd(2) s3 have "r = Some (claimed_row (tx_now s) c)" "tx_db s4 = tx_db s3" by auto
    with r s3 rows cand s0(4) show ?thesis by (simp add: act_eval)
  qed
qed

section \<open>The contract of the job repository\<close>

text \<open>
  What a worker relies on, over an abstract lookup of jobs by id: a claim takes a pending job
  and marks it Running, the finishing operations succeed only against the version the worker
  holds and set the status they promise, and a failing call changes no job.
\<close>

locale job_store =
  fixes inv :: "'s \<Rightarrow> bool"
    and lookup :: "'s \<Rightarrow> JobId \<Rightarrow> Job option"
    and claim :: "('s, Error, Job option) action"
    and complete :: "Job \<Rightarrow> ('s, Error, Job) action"
    and fail :: "Job \<Rightarrow> string \<Rightarrow> ('s, Error, Job) action"
    and fail_term :: "Job \<Rightarrow> string \<Rightarrow> ('s, Error, Job) action"
  assumes inv_claim: "preserves inv claim"
    and inv_complete: "preserves inv (complete j)"
    and inv_fail: "preserves inv (fail j m)"
    and inv_fail_term: "preserves inv (fail_term j m)"
    and claim_some: "inv s \<Longrightarrow> claim s = (Inr (Some j), t) \<Longrightarrow>
      job_status j = Running \<and> lookup t = (lookup s)(job_id j \<mapsto> j) \<and>
      (\<exists>c. lookup s (job_id j) = Some c \<and> job_status c = Pending \<and> job_attempt j = job_attempt c + 1)"
    and claim_none: "inv s \<Longrightarrow> claim s = (Inr None, t) \<Longrightarrow> lookup t = lookup s"
    and claim_err: "claim s = (Inl e, t) \<Longrightarrow> lookup t = lookup s"
    and complete_ok: "inv s \<Longrightarrow> complete j s = (Inr r, t) \<Longrightarrow>
      job_status r = Completed \<and> lookup t = (lookup s)(job_id j \<mapsto> r) \<and>
      (\<exists>c. lookup s (job_id j) = Some c \<and> job_version c = job_version j)"
    and complete_err: "complete j s = (Inl e, t) \<Longrightarrow> lookup t = lookup s"
    and fail_ok: "inv s \<Longrightarrow> fail j m s = (Inr r, t) \<Longrightarrow>
      job_status r = (if job_attempt j < job_max_attempts j then Pending else Failed) \<and>
      job_error_message r = Some m \<and> lookup t = (lookup s)(job_id j \<mapsto> r) \<and>
      (\<exists>c. lookup s (job_id j) = Some c \<and> job_version c = job_version j)"
    and fail_err: "fail j m s = (Inl e, t) \<Longrightarrow> lookup t = lookup s"
    and fail_term_ok: "inv s \<Longrightarrow> fail_term j m s = (Inr r, t) \<Longrightarrow>
      job_status r = Failed \<and> job_error_message r = Some m \<and> lookup t = (lookup s)(job_id j \<mapsto> r) \<and>
      (\<exists>c. lookup s (job_id j) = Some c \<and> job_version c = job_version j)"
    and fail_term_err: "fail_term j m s = (Inl e, t) \<Longrightarrow> lookup t = lookup s"

lemma tx_claim_some:
  fixes s :: "'z tx_scheme"
  assumes "jobs_ok (tx_db s)" and "transaction claim_next s = (Inr (Some j), t)"
  shows "job_status j = Running \<and> (\<lambda>i. find_job i (tx_db t)) = (\<lambda>i. find_job i (tx_db s))(job_id j \<mapsto> j) \<and>
    (\<exists>c. find_job (job_id j) (tx_db s) = Some c \<and> job_status c = Pending \<and> job_attempt j = job_attempt c + 1)"
proof -
  from assms(2) obtain s0 s1 :: "'z tx_scheme" where s0: "tx_db s0 = tx_db s" "tx_now s0 = tx_now s"
      "claim_next s0 = (Inr (Some j), s1)" "tx_db t = tx_db s1"
    by (rule transaction_Inr)
  then have "claim_loop (\<lambda>_ d. d) (tx_now s0) MAX_CLAIM_ATTEMPTS s0 = (Inr (Some j), s1)"
    by (simp add: claim_next_def claim_next_among_def utc_now_def)
  from claim_loop_claims [OF evolves_refl _ this] assms(1) s0(1)
  have "claims (tx_now s0) j (tx_db s) (tx_db s1)" by auto
  with s0(4) show ?thesis
    by (fastforce simp: claims_def claimable_def claimed_row_def fun_eq_iff intro: find_job_eq)
qed

lemma tx_claim_none:
  fixes s :: "'z tx_scheme"
  assumes "transaction claim_next s = (Inr None, t)" and "jobs_ok (tx_db s)"
  shows "tx_db t = tx_db s"
proof -
  from assms(1) obtain s0 s1 :: "'z tx_scheme" where s0: "tx_db s0 = tx_db s" "tx_now s0 = tx_now s"
      "claim_next s0 = (Inr None, s1)" "tx_db t = tx_db s1"
    by (rule transaction_Inr)
  then have "claim_loop (\<lambda>_ d. d) (tx_now s0) MAX_CLAIM_ATTEMPTS s0 = (Inr None, s1)"
    by (simp add: claim_next_def claim_next_among_def utc_now_def)
  from claim_loop_none [OF this] assms(2) s0 show ?thesis by simp
qed

lemma tx_finish_Inr:
  fixes s :: "'z tx_scheme"
  assumes ok: "jobs_ok (tx_db s)" and f: "\<And>now. bumps (f now)"
    and run: "transaction (bindE utc_now (\<lambda>now. finish_job name job (f now))) s = (Inr r, t)"
  shows "\<exists>c. find_job (job_id job) (tx_db s) = Some c \<and> job_version c = job_version job \<and> r = f (tx_now s) c \<and>
    (\<lambda>i. find_job i (tx_db t)) = (\<lambda>i. find_job i (tx_db s))(job_id job \<mapsto> r) \<and>
    tx_db t = (tx_db s)\<lparr>tbl_jobs := update_where (same_version job) (f (tx_now s)) (tbl_jobs (tx_db s))\<rparr>"
proof -
  from run obtain s0 s1 :: "'z tx_scheme" where s0: "tx_db s0 = tx_db s" "tx_now s0 = tx_now s"
      "bindE utc_now (\<lambda>now. finish_job name job (f now)) s0 = (Inr r, s1)" "tx_db t = tx_db s1"
    by (rule transaction_Inr)
  then have "finish_job name job (f (tx_now s0)) s0 = (Inr r, s1)" by (simp add: utc_now_def)
  from finish_job_Inr [OF _ f this] ok s0 show ?thesis by (auto simp: fun_eq_iff)
qed

text \<open>
  The adapter, each call in its own transaction as the worker makes it, provides the contract.
\<close>

interpretation jq: job_store "\<lambda>s. jobs_ok (tx_db s)" "\<lambda>s i. find_job i (tx_db s)"
  "transaction claim_next" "\<lambda>j. transaction (complete_job j)" "\<lambda>j m. transaction (fail_job j m)"
  "\<lambda>j m. transaction (fail_terminal j m)"
proof (unfold_locales, goal_cases)
  case (1)
  then show ?case using keeps_transaction [OF keeps_jobs_ok_ops(3)] by (simp add: keeps_def)
next
  case (2 j)
  then show ?case using keeps_transaction [OF keeps_jobs_ok_ops(4)] by (simp add: keeps_def)
next
  case (3 j m)
  then show ?case using keeps_transaction [OF keeps_jobs_ok_ops(5)] by (simp add: keeps_def)
next
  case (4 j m)
  then show ?case using keeps_transaction [OF keeps_jobs_ok_ops(6)] by (simp add: keeps_def)
next
  case (5 s j t)
  then show ?case by (rule tx_claim_some)
next
  case (6 s t)
  then show ?case by (simp add: tx_claim_none)
next
  case (7 s e t)
  then show ?case by (simp add: transaction_Inl_db)
next
  case (8 s j r t)
  then show ?case using tx_finish_Inr [of s completed_row "''complete''" j r t]
    by (auto simp: complete_job_def)
next
  case (9 j s e t)
  then show ?case by (simp add: transaction_Inl_db)
next
  case (10 s j m r t)
  then show ?case
    using tx_finish_Inr [of s "\<lambda>now. rescheduled_row now (now + seconds (backoff_secs (job_attempt j))) m" "''fail''" j r t]
      tx_finish_Inr [of s "\<lambda>now. failed_row now m" "''fail''" j r t]
    by (auto simp: fail_job_def rescheduled_row_def failed_row_def split: if_splits)
next
  case (11 j m s e t)
  then show ?case by (simp add: transaction_Inl_db)
next
  case (12 s j m r t)
  then show ?case using tx_finish_Inr [of s "\<lambda>now. failed_row now m" "''fail_terminal''" j r t]
    by (auto simp: fail_terminal_def failed_row_def)
next
  case (13 j m s e t)
  then show ?case by (simp add: transaction_Inl_db)
qed

end
