(* ===== verification/World.thy ===== *)
theory World
  imports JobQueueProps
begin

text \<open>
  The state the services above the database share: the tables and their connection
  (\<open>Store\<close>), the wake-up notifications of the job service, and the file system under the
  data directory with the nonces the cipher draws. Each component sees the part it uses;
  this theory has the lemmas that the rest is left alone.

  A file-system call takes its outcome from the schedule \<open>w_io\<close>: \<open>None\<close> succeeds,
  \<open>Some f\<close> fails with the text of \<open>f\<close>, a write after some bytes, a recursive
  removal after some files.
\<close>

type_synonym path = "string list"
type_synonym bytes = "u8 list"

record io_fault =
  iof_text :: string
  iof_written :: nat
  iof_removed :: "path \<Rightarrow> bool"

record world = tx +
  w_wakes :: nat
  w_files :: "path \<Rightarrow> bytes option"
  w_io :: "io_fault option list"
  w_nonces :: "nat \<Rightarrow> bytes"
  w_nonce_pos :: nat

type_synonym ('z, 'a) wm = "('z world_scheme, Error, 'a) action"

section \<open>Database operations leave the rest of the world alone\<close>

definition db_only :: "('z, 'a) dbm \<Rightarrow> bool" where
  "db_only m \<longleftrightarrow> frame tx.more m"

named_theorems db_only_intros \<open>operations that touch only the database part\<close>

lemma db_onlyD: "db_only m \<Longrightarrow> m s = (r, t) \<Longrightarrow> tx.more t = tx.more s"
  by (auto simp: db_only_def dest: frameD)

lemma more_eq_world:
  fixes s t :: "'z world_scheme"
  assumes "tx.more t = tx.more s"
  shows "w_wakes t = w_wakes s" "w_files t = w_files s" "w_io t = w_io s"
    "w_nonces t = w_nonces s" "w_nonce_pos t = w_nonce_pos s" "world.more t = world.more s"
  using assms by (cases s, cases t, simp)+

lemma db_only_world:
  fixes s t :: "'z world_scheme"
  assumes "db_only m" and "m s = (r, t)"
  shows "w_wakes t = w_wakes s" "w_files t = w_files s" "w_io t = w_io s"
    "w_nonces t = w_nonces s" "w_nonce_pos t = w_nonce_pos s" "world.more t = world.more s"
  using more_eq_world [OF db_onlyD [OF assms]] by blast+

lemma db_only_basic [db_only_intros]:
  "db_only (ret x)" "db_only (throw e)" "db_only (getsE f)" "db_only (requireE b e)"
  by (simp_all add: db_only_def frame_intros)

lemma db_only_bindE [db_only_intros]:
  "db_only m \<Longrightarrow> (\<And>x. db_only (f x)) \<Longrightarrow> db_only (bindE m f)"
  by (simp add: db_only_def frame_intros)

lemma db_only_handleE [db_only_intros]:
  "db_only m \<Longrightarrow> (\<And>x. db_only (f x)) \<Longrightarrow> (\<And>e. db_only (h e)) \<Longrightarrow> db_only (handleE m f h)"
  by (simp add: db_only_def frame_intros)

lemma db_only_if [db_only_intros]:
  "(b \<Longrightarrow> db_only m) \<Longrightarrow> (\<not> b \<Longrightarrow> db_only n) \<Longrightarrow> db_only (if b then m else n)"
  by simp

lemma db_only_option [db_only_intros]:
  "db_only m \<Longrightarrow> (\<And>x. db_only (f x)) \<Longrightarrow> db_only (case v of None \<Rightarrow> m | Some x \<Rightarrow> f x)"
  by (cases v) simp_all

lemma db_only_mapE [db_only_intros]: "(\<And>x. db_only (f x)) \<Longrightarrow> db_only (mapE f xs)"
  by (simp add: db_only_def frame_mapE)

lemma db_only_modifyE: "(\<And>s. tx.more (f s) = tx.more s) \<Longrightarrow> db_only (modifyE f)"
  by (simp add: db_only_def frame_modifyE)

lemma db_only_db_call [db_only_intros]: "db_only db_call"
  unfolding db_only_def frame_def by (metis db_call_more prod.collapse)

lemma db_only_statements [db_only_intros]:
  "db_only (query f)" "db_only utc_now" "db_only generate_token"
  by (simp_all add: query_def utc_now_def db_only_intros)
    (simp add: db_only_def frame_def generate_token_def)

lemma db_only_execute [db_only_intros]: "db_only (execute f)"
proof -
  have "db_only (\<lambda>s. case f (tx_db s) of
      Inl e \<Rightarrow> (Inl (RepoError (handle_dberr e)), s)
    | Inr (x, d) \<Rightarrow> (Inr x, s\<lparr>tx_db := d\<rparr>))"
    by (auto simp: db_only_def frame_def split: sum.splits prod.splits)
  then show ?thesis unfolding execute_def by (intro db_only_intros)
qed

lemma db_only_transaction [db_only_intros]:
  fixes body :: "('z, 'a) dbm"
  assumes "db_only body"
  shows "db_only (transaction body)" "db_only (read_only_transaction body)"
proof -
  have c: "tx.more (snd (db_call s)) = tx.more s" for s :: "'z tx_scheme"
    by (metis db_call_more prod.collapse)
  have b: "tx.more (snd (body s)) = tx.more s" for s
    using assms by (simp add: db_only_def frame_def)
  have cb: "db_call s = (r, t) \<Longrightarrow> tx.more t = tx.more s" for s t :: "'z tx_scheme" and r
    using c [of s] by simp
  have bb: "body s = (r, t) \<Longrightarrow> tx.more t = tx.more s" for s r t
    using b [of s] by simp
  show "db_only (transaction body)"
    unfolding db_only_def frame_def transaction_def bindE_def
    by (auto dest!: cb bb simp: c split: prod.splits sum.splits)
  show "db_only (read_only_transaction body)"
    unfolding db_only_def frame_def read_only_transaction_def bindE_def
    by (auto dest!: cb bb split: prod.splits sum.splits)
qed

lemma db_only_jobs [db_only_intros]:
  "db_only (enqueue_raw jt p prio)" "db_only (enqueue_delayed jt p prio delay)"
  "db_only (complete_job job)" "db_only (fail_job job e)" "db_only (fail_terminal job e)"
  "db_only reset_running_to_pending" "db_only (delete_old_jobs cutoff)"
  "db_only (count_pending_by_type jt)" "db_only count_all_pending"
  unfolding enqueue_raw_def enqueue_delayed_def complete_job_def fail_job_def fail_terminal_def
    reset_running_to_pending_def delete_old_jobs_def finish_job_def count_pending_by_type_def
    count_all_pending_def
  by (intro db_only_intros)+

lemma db_only_claim_next [db_only_intros]: "db_only claim_next"
proof -
  have "db_only (claim_loop (\<lambda>_ d. d) now n)" for now n
  proof (induction n)
    case 0
    then show ?case by (simp add: db_only_intros)
  next
    case (Suc n)
    then show ?case by (auto intro!: db_only_intros db_only_modifyE)
  qed
  then show ?thesis unfolding claim_next_def claim_next_among_def by (intro db_only_intros)
qed

section \<open>Operations that leave the tables alone\<close>

text \<open>\<open>off_db m\<close>: the tables, and the database part of the state, stay as they are.\<close>

definition off_db :: "('z tx_scheme, 'e, 'a) action \<Rightarrow> bool" where
  "off_db m \<longleftrightarrow> frame tx.truncate m"

lemma truncate_eq_fields:
  "tx.truncate t = tx.truncate s \<Longrightarrow>
     tx_db t = tx_db s \<and> tx_faults t = tx_faults s \<and> tx_now t = tx_now s \<and>
     tx_rng t = tx_rng s \<and> tx_rng_pos t = tx_rng_pos s"
  by (simp add: tx.truncate_def)

lemma off_dbD:
  "off_db m \<Longrightarrow> m s = (r, t) \<Longrightarrow>
     tx_db t = tx_db s \<and> tx_faults t = tx_faults s \<and> tx_now t = tx_now s \<and>
     tx_rng t = tx_rng s \<and> tx_rng_pos t = tx_rng_pos s"
  unfolding off_db_def by (rule truncate_eq_fields) (rule frameD)

named_theorems off_db_intros \<open>operations that leave the database part alone\<close>

lemma off_db_basic [off_db_intros]:
  "off_db (ret x)" "off_db (throw e)" "off_db (getsE f)" "off_db (requireE b e)"
  by (simp_all add: off_db_def frame_intros)

lemma off_db_bindE [off_db_intros]:
  "off_db m \<Longrightarrow> (\<And>x. off_db (f x)) \<Longrightarrow> off_db (bindE m f)"
  by (simp add: off_db_def frame_intros)

lemma off_db_handleE [off_db_intros]:
  "off_db m \<Longrightarrow> (\<And>x. off_db (f x)) \<Longrightarrow> (\<And>e. off_db (h e)) \<Longrightarrow> off_db (handleE m f h)"
  by (simp add: off_db_def frame_intros)

lemma off_db_if [off_db_intros]:
  "(b \<Longrightarrow> off_db m) \<Longrightarrow> (\<not> b \<Longrightarrow> off_db n) \<Longrightarrow> off_db (if b then m else n)"
  by simp

lemma off_db_option [off_db_intros]:
  "off_db m \<Longrightarrow> (\<And>x. off_db (f x)) \<Longrightarrow> off_db (case v of None \<Rightarrow> m | Some x \<Rightarrow> f x)"
  by (cases v) simp_all

lemma off_db_mapE [off_db_intros]: "(\<And>x. off_db (f x)) \<Longrightarrow> off_db (mapE f xs)"
  by (simp add: off_db_def frame_mapE)

lemma off_db_modifyE: "(\<And>s. tx.truncate (f s) = tx.truncate s) \<Longrightarrow> off_db (modifyE f)"
  by (simp add: off_db_def frame_modifyE)

lemma keeps_off_db: "off_db m \<Longrightarrow> keeps P m"
  unfolding keeps_def preserves_def by (metis off_dbD prod.collapse)

end
