(* ===== verification/JobService.thy ===== *)
theory JobService
  imports World
begin

text \<open>
  The job service (\<open>crates/core/src/jobs/service.rs\<close>): enqueuing in a transaction and
  waking the workers once it has committed, counting, and the registry of handlers
  (\<open>crates/core/src/jobs/handler.rs\<close>) with dispatch by job type. The registry is a map
  beside the world, since a handler is itself an action on the world.
\<close>

section \<open>Enqueuing\<close>

definition notify_waiters :: "('z, unit) wm" where
  "notify_waiters = modifyE (\<lambda>s. s\<lparr>w_wakes := Suc (w_wakes s)\<rparr>)"

definition svc_enqueue_raw :: "string \<Rightarrow> payload \<Rightarrow> int \<Rightarrow> ('z, JobId) wm" where
  "svc_enqueue_raw jt payload priority =
    bindE (transaction (enqueue_raw jt payload priority)) (\<lambda>job.
    bindE notify_waiters (\<lambda>_. ret (job_id job)))"

definition svc_enqueue_raw_delayed :: "string \<Rightarrow> payload \<Rightarrow> int \<Rightarrow> time \<Rightarrow> ('z, JobId) wm" where
  "svc_enqueue_raw_delayed jt payload priority delay =
    bindE (transaction (enqueue_delayed jt payload priority delay)) (\<lambda>job.
    bindE notify_waiters (\<lambda>_. ret (job_id job)))"

definition svc_count_pending_by_type :: "string \<Rightarrow> ('z, nat) wm" where
  "svc_count_pending_by_type jt = read_only_transaction (count_pending_by_type jt)"

definition svc_count_all_pending :: "('z, nat) wm" where
  "svc_count_all_pending = read_only_transaction count_all_pending"

text \<open>
  The one typed payload of the program, the parse job: its type and priority, and the typed
  \<open>enqueue\<close> (serialising it to JSON cannot fail).
\<close>

definition PARSE_JOB_TYPE :: string where
  "PARSE_JOB_TYPE = ''parse_message''"

definition enqueue_parse :: "ParseMessageJob \<Rightarrow> ('z, JobId) wm" where
  "enqueue_parse p = svc_enqueue_raw PARSE_JOB_TYPE (ParsePayload p) PRIORITY_INGEST"

section \<open>The handler registry\<close>

record ('s) job_handler =
  h_quiet :: bool
  h_handle :: "payload \<Rightarrow> ('s, Error, unit) action"

type_synonym 's registry = "string \<Rightarrow> 's job_handler option"

definition register_handler :: "string \<Rightarrow> 's job_handler \<Rightarrow> 's registry \<Rightarrow> 's registry" where
  "register_handler jt h reg = reg(jt \<mapsto> h)"

definition dispatch :: "'s registry \<Rightarrow> string \<Rightarrow> payload \<Rightarrow> ('s, Error, unit) action" where
  "dispatch reg jt payload =
    (case reg jt of
       None \<Rightarrow> throw (Infrastructure (''no handler registered for job type '' @ [CHR 0x27] @ jt @ [CHR 0x27]))
     | Some h \<Rightarrow> h_handle h payload)"

definition handler_quiet :: "'s registry \<Rightarrow> string \<Rightarrow> bool" where
  "handler_quiet reg jt = (case reg jt of None \<Rightarrow> False | Some h \<Rightarrow> h_quiet h)"

text \<open>
  The erased handler decodes the payload and hands it to the typed one; a payload that does
  not decode is an infrastructure error. \<open>serde_error\<close> is the decoder's message.
\<close>

definition erased_handle ::
  "(string \<Rightarrow> string) \<Rightarrow> (ParseMessageJob \<Rightarrow> ('s, Error, unit) action) \<Rightarrow> payload \<Rightarrow> ('s, Error, unit) action"
where
  "erased_handle serde_error handle payload =
    (case payload of
       ParsePayload p \<Rightarrow> handle p
     | OtherJson t \<Rightarrow> throw (Infrastructure (''job payload deserialize failed: '' @ serde_error t)))"

section \<open>What enqueuing does\<close>

lemma insert_job_finds:
  assumes "jobs_ok d" and "insert_job (new_job_row now jt p prio at) d = Inr (j, d')"
  shows "find_job (job_id j) d' = Some j" and "job_id j = job_seq d + 1"
    and "j = new_job_row now jt p prio at (job_seq d + 1)" and "set (tbl_jobs d) \<subseteq> set (tbl_jobs d')"
    and "d' = d\<lparr>tbl_jobs := tbl_jobs d @ [j], job_seq := job_seq d + 1\<rparr>"
proof -
  from assms(2) show "j = new_job_row now jt p prio at (job_seq d + 1)" "job_id j = job_seq d + 1"
    "set (tbl_jobs d) \<subseteq> set (tbl_jobs d')" "d' = d\<lparr>tbl_jobs := tbl_jobs d @ [j], job_seq := job_seq d + 1\<rparr>"
    by (auto simp: insert_job_def Let_def new_job_row_def)
  show "find_job (job_id j) d' = Some j"
    using jobs_ok_insert [OF assms] assms(2)
    by (intro find_job_eq) (auto simp: insert_job_def Let_def)
qed

lemma fresh_job_id:
  assumes "jobs_ok d"
  shows "find_job (job_seq d + 1) d = None"
proof (cases "find_job (job_seq d + 1) d")
  case (Some j)
  with assms have "job_id j \<le> job_seq d" "job_id j = job_seq d + 1"
    by (auto simp: jobs_ok_def job_row_ok_def dest!: find_job_in)
  then show ?thesis by simp
qed

lemma svc_enqueue_raw_Inr:
  fixes s :: "'z world_scheme"
  assumes "svc_enqueue_raw jt p prio s = (Inr i, t)" and ok: "jobs_ok (tx_db s)"
  shows "i = job_seq (tx_db s) + 1 \<and> w_wakes t = Suc (w_wakes s) \<and> w_files t = w_files s \<and>
    tx_db t = tx_db s\<lparr>tbl_jobs := tbl_jobs (tx_db s) @ [new_job_row (tx_now s) jt p prio (tx_now s) i],
      job_seq := i\<rparr> \<and> find_job i (tx_db t) = Some (new_job_row (tx_now s) jt p prio (tx_now s) i)"
proof -
  from assms(1) obtain j s1 where tr: "transaction (enqueue_raw jt p prio) s = (Inr j, s1)"
      and t: "t = s1\<lparr>w_wakes := Suc (w_wakes s1)\<rparr>" "i = job_id j"
    by (auto simp: svc_enqueue_raw_def notify_waiters_def bindE_Inr_iff [of "transaction _"] act_eval)
  from tr obtain s0 s2 :: "'z world_scheme" where b: "tx_db s0 = tx_db s" "tx_now s0 = tx_now s"
      "enqueue_raw jt p prio s0 = (Inr j, s2)" "tx_db s1 = tx_db s2"
    by (rule transaction_Inr)
  from b(3) have "insert_job (new_job_row (tx_now s) jt p prio (tx_now s)) (tx_db s) = Inr (j, tx_db s2)"
    using b(1,2) by (auto simp: enqueue_raw_def utc_now_def dest: execute_Inr)
  note ins = insert_job_finds [OF ok this]
  have "db_only (transaction (enqueue_raw jt p prio :: ('z, Job) wm))" by (intro db_only_intros)
  from db_only_world [OF this tr] t ins b(4) show ?thesis by (simp add: new_job_row_def)
qed

lemma svc_enqueue_raw_Inl:
  fixes s :: "'z world_scheme"
  assumes "svc_enqueue_raw jt p prio s = (Inl e, t)"
  shows "w_wakes t = w_wakes s \<and> w_files t = w_files s \<and> tx_db t = tx_db s"
proof -
  from assms have tr: "transaction (enqueue_raw jt p prio) s = (Inl e, t)"
    by (auto simp: svc_enqueue_raw_def notify_waiters_def bindE_def act_eval split: prod.splits sum.splits)
  have "db_only (transaction (enqueue_raw jt p prio :: ('z, Job) wm))" by (intro db_only_intros)
  from db_only_world [OF this tr] tr show ?thesis by (auto dest: transaction_Inl_db)
qed

text \<open>
  Enqueuing wakes the workers exactly when the job is committed, under every schedule of
  database failures: on success the returned id is fresh and names a pending job with the
  payload, due now, with its first attempt ahead of it, and one wake-up has been sent; on an
  error no job was added and nobody was woken.
\<close>

theorem enqueue_wakes_iff_committed:
  assumes "jobs_ok (tx_db s)"
  shows "case svc_enqueue_raw jt p prio s of
      (Inr i, t) \<Rightarrow> find_job i (tx_db s) = None \<and> w_wakes t = Suc (w_wakes s) \<and>
        (\<exists>j. find_job i (tx_db t) = Some j \<and> job_status j = Pending \<and> job_type j = jt \<and>
           job_payload j = p \<and> job_priority j = prio \<and> job_scheduled_at j = tx_now s \<and> job_attempt j = 0)
    | (Inl _, t) \<Rightarrow> w_wakes t = w_wakes s \<and> tx_db t = tx_db s"
proof (cases "svc_enqueue_raw jt p prio s")
  case (Pair r t)
  then show ?thesis
  proof (cases r)
    case (Inl e)
    with Pair svc_enqueue_raw_Inl [of jt p prio s e t] show ?thesis by simp
  next
    case (Inr i)
    with Pair have run: "svc_enqueue_raw jt p prio s = (Inr i, t)" by simp
    note new = svc_enqueue_raw_Inr [OF run assms]
    then have "find_job i (tx_db t) = Some (new_job_row (tx_now s) jt p prio (tx_now s) i)" by blast
    moreover have "find_job i (tx_db s) = None" using new fresh_job_id [OF assms] by simp
    ultimately show ?thesis using Pair Inr new by (auto simp: new_job_row_def)
  qed
qed

definition sample_world :: world where
  "sample_world = tx.extend sample_tx
     \<lparr>w_wakes = 0, w_files = (\<lambda>_. None), w_io = [], w_nonces = (\<lambda>n. replicate 12 (of_nat n)), w_nonce_pos = 0\<rparr>"

lemma sample_world_db [simp]:
  "tx_db sample_world = sample_jobs_db" "tx_faults sample_world = []" "tx_now sample_world = seconds 100"
  by (simp_all add: sample_world_def tx.extend_def sample_tx_def)

theorem enqueue_wakes_iff_committed_witness:
  "\<exists>i t j. svc_enqueue_raw ''x'' (OtherJson ''{}'') 10 sample_world = (Inr i, t) \<and>
     w_wakes t = Suc (w_wakes sample_world) \<and> find_job i (tx_db t) = Some j \<and> job_status j = Pending"
proof -
  have "\<exists>i t. svc_enqueue_raw ''x'' (OtherJson ''{}'') 10 sample_world = (Inr i, t)"
    by (simp add: svc_enqueue_raw_def enqueue_raw_def utc_now_def notify_waiters_def bindE_def
        transaction_def stmt_simps insert_job_def act_eval Let_def)
  with enqueue_wakes_iff_committed [of sample_world "''x''" "OtherJson ''{}''" 10] sample_ok
  show ?thesis by (auto simp: sample_tx_def)
qed

end
