(* ===== verification/Worker.thy ===== *)
theory Worker
  imports JobService
begin

text \<open>
  The job worker (\<open>crates/core/src/jobs/worker.rs\<close>). \<open>worker_turn\<close> is one pass of
  a worker's loop: claim, dispatch, record the outcome, with the pauses and the stops of every
  error branch. \<open>cluster_step\<close> interleaves the passes of several workers, each at its
  own point of the loop, with whatever the rest of the program commits meanwhile.
\<close>

section \<open>One pass of the loop\<close>

text \<open>
  How a pass ends: no job (the worker waits for a wake-up, the heartbeat or shutdown), a
  transient database error (it pauses ten seconds), or a job recorded. An \<open>Inl\<close> ends the
  worker.
\<close>

datatype turn = Waiting | Paused | Worked

definition pause_or_stop :: "Error \<Rightarrow> ('s, Error, turn) action" where
  "pause_or_stop e = (if is_transient e then ret Paused else throw e)"

definition worker_turn_on ::
  "('s, Error, Job option) action \<Rightarrow> (Job \<Rightarrow> ('s, Error, Job) action) \<Rightarrow>
   (Job \<Rightarrow> string \<Rightarrow> ('s, Error, Job) action) \<Rightarrow> (Job \<Rightarrow> string \<Rightarrow> ('s, Error, Job) action) \<Rightarrow>
   (string \<Rightarrow> payload \<Rightarrow> ('s, Error, unit) action) \<Rightarrow> ('s, Error, turn) action"
where
  "worker_turn_on claim complete fail fail_term disp =
    handleE claim
      (\<lambda>claimed. case claimed of
         None \<Rightarrow> ret Waiting
       | Some job \<Rightarrow>
           handleE (disp (job_type job) (job_payload job))
             (\<lambda>_. handleE (complete job) (\<lambda>_. ret Worked) pause_or_stop)
             (\<lambda>e. handleE (if is_transient e then fail job (error_text e) else fail_term job (error_text e))
                    (\<lambda>_. ret Worked) pause_or_stop))
      pause_or_stop"

definition worker_turn :: "'z world_scheme registry \<Rightarrow> ('z, turn) wm" where
  "worker_turn reg = worker_turn_on (transaction claim_next) (\<lambda>j. transaction (complete_job j))
     (\<lambda>j m. transaction (fail_job j m)) (\<lambda>j m. transaction (fail_terminal j m)) (dispatch reg)"

text \<open>
  The subsystem's start: crash recovery first (its failure is the subsystem's), then at least
  one worker.
\<close>

definition start_subsystem :: "nat \<Rightarrow> ('z, nat) wm" where
  "start_subsystem concurrency =
    bindE (transaction reset_running_to_pending) (\<lambda>_. ret (max concurrency 1))"

section \<open>A pass over the contract of the job repository\<close>

text \<open>The status a job ends with, from what its handler returned.\<close>

definition recorded_as :: "Job \<Rightarrow> Error + unit \<Rightarrow> Job \<Rightarrow> bool" where
  "recorded_as job r row \<longleftrightarrow>
    (case r of
       Inr _ \<Rightarrow> job_status row = Completed
     | Inl e \<Rightarrow> job_error_message row = Some (error_text e) \<and>
         job_status row = (if is_transient e \<and> job_attempt job < job_max_attempts job then Pending else Failed))"

context job_store
begin

definition keeps_running :: "(string \<Rightarrow> payload \<Rightarrow> ('s, Error, unit) action) \<Rightarrow> bool" where
  "keeps_running disp \<longleftrightarrow> (\<forall>jt p s r t. inv s \<longrightarrow> disp jt p s = (r, t) \<longrightarrow> inv t \<and>
     (\<forall>i j. lookup s i = Some j \<longrightarrow> job_status j = Running \<longrightarrow> lookup t i = Some j))"

abbreviation the_turn :: "(string \<Rightarrow> payload \<Rightarrow> ('s, Error, unit) action) \<Rightarrow> ('s, Error, turn) action" where
  "the_turn disp \<equiv> worker_turn_on claim complete fail fail_term disp"

lemma claimed_lookup:
  assumes "inv s" and "claim s = (Inr (Some j), t)"
  shows "inv t" and "lookup t (job_id j) = Some j" and "job_status j = Running"
  using claim_some [OF assms] preservesD [OF inv_claim assms(1,2)] by auto

lemma turn_cases:
  assumes s: "inv s" and d: "keeps_running disp" and run: "the_turn disp s = (o1, t)"
  obtains
    (claim_failed) e where "claim s = (Inl e, t)" "o1 = (if is_transient e then Inr Paused else Inl e)"
  | (nothing) "claim s = (Inr None, t)" "o1 = Inr Waiting"
  | (recorded) j t0 r t1 row where "claim s = (Inr (Some j), t0)"
      "disp (job_type j) (job_payload j) t0 = (r, t1)" "lookup t1 (job_id j) = Some j" "inv t1"
      "lookup t = (lookup t1)(job_id j \<mapsto> row)" "recorded_as j r row" "o1 = Inr Worked"
  | (unrecorded) j t0 r t1 e where "claim s = (Inr (Some j), t0)"
      "disp (job_type j) (job_payload j) t0 = (r, t1)" "lookup t1 (job_id j) = Some j" "inv t1"
      "lookup t = lookup t1" "o1 = (if is_transient e then Inr Paused else Inl e)"
proof -
  obtain c t0 where c: "claim s = (c, t0)" by (cases "claim s")
  show thesis
  proof (cases c)
    case (Inl e)
    with c run show thesis
      by (intro claim_failed [of e]) (auto simp: worker_turn_on_def handleE_def pause_or_stop_def act_eval split: if_splits)
  next
    case (Inr oj)
    show thesis
    proof (cases oj)
      case None
      with c Inr run have "claim s = (Inr None, t)" "o1 = Inr Waiting"
        by (auto simp: worker_turn_on_def handleE_def act_eval)
      then show thesis by (rule nothing)
    next
      case (Some j)
      with c Inr have cl: "claim s = (Inr (Some j), t0)" by simp
      obtain r t1 where dr: "disp (job_type j) (job_payload j) t0 = (r, t1)"
        by (cases "disp (job_type j) (job_payload j) t0")
      from claimed_lookup [OF s cl] d dr have t1: "lookup t1 (job_id j) = Some j" "inv t1"
        unfolding keeps_running_def by blast+
      let ?fin = "case r of Inr _ \<Rightarrow> complete j
        | Inl e \<Rightarrow> (if is_transient e then fail j (error_text e) else fail_term j (error_text e))"
      from run cl dr have fin: "handleE ?fin (\<lambda>_. ret Worked) pause_or_stop t1 = (o1, t)"
        by (cases r) (simp_all add: worker_turn_on_def handleE_def)
      obtain f t2 where f: "?fin t1 = (f, t2)" by (cases "?fin t1")
      show thesis
      proof (cases f)
        case (Inl e)
        with fin f have "t2 = t" "o1 = (if is_transient e then Inr Paused else Inl e)"
          by (auto simp: handleE_def pause_or_stop_def act_eval split: if_splits)
        moreover have "lookup t2 = lookup t1"
          using f Inl by (cases r) (auto split: if_splits dest: complete_err fail_err fail_term_err)
        ultimately show thesis using unrecorded [OF cl dr t1] by blast
      next
        case (Inr row)
        with fin f have t2: "t2 = t" "o1 = Inr Worked" by (auto simp: handleE_def act_eval)
        have "lookup t2 = (lookup t1)(job_id j \<mapsto> row) \<and> recorded_as j r row"
          using f Inr by (cases r)
            (auto simp: recorded_as_def split: if_splits dest: complete_ok [OF t1(2)] fail_ok [OF t1(2)] fail_term_ok [OF t1(2)])
        with t2 show thesis using recorded [OF cl dr t1] by blast
      qed
    qed
  qed
qed

lemma turn_worked:
  assumes "inv s" and "keeps_running disp" and "the_turn disp s = (Inr Worked, t)"
  shows "\<exists>j t0 r t1 row. claim s = (Inr (Some j), t0) \<and> disp (job_type j) (job_payload j) t0 = (r, t1) \<and>
    lookup t (job_id j) = Some row \<and> recorded_as j r row"
  using assms by (rule turn_cases) (auto split: if_splits intro: exI)

lemma turn_waiting:
  assumes "inv s" and "keeps_running disp" and "the_turn disp s = (Inr Waiting, t)"
  shows "claim s = (Inr None, t)" and "lookup t = lookup s"
proof -
  from assms show "claim s = (Inr None, t)" by (rule turn_cases) (auto split: if_splits)
  then show "lookup t = lookup s" by (rule claim_none [OF assms(1)])
qed

text \<open>A pass that pauses either changed no job, or leaves its job Running.\<close>

lemma turn_paused:
  assumes "inv s" and "keeps_running disp" and "the_turn disp s = (Inr Paused, t)"
  shows "lookup t = lookup s \<or>
    (\<exists>j t0. claim s = (Inr (Some j), t0) \<and> lookup t (job_id j) = Some j \<and> job_status j = Running)"
  using assms
proof (rule turn_cases)
  fix e
  assume "claim s = (Inl e, t)"
  then show ?thesis by (simp add: claim_err)
next
  fix j t0 r t1 e
  assume *: "claim s = (Inr (Some j), t0)" "lookup t1 (job_id j) = Some j" "lookup t = lookup t1"
  with claimed_lookup(3) [OF assms(1) *(1)] show ?thesis by auto
qed simp_all

end

end
