(* ===== verification/WorkerPool.thy ===== *)
theory WorkerPool
  imports Worker
begin

text \<open>
  The worker loop on the adapter, and several workers interleaved: what a pass records, what
  a transient failure leaves behind, mutual exclusion of job executions, and the passes of
  \<open>worker_turn\<close> as runs of the interleaved system.
\<close>

section \<open>Handlers a worker may run\<close>

text \<open>
  A handler (and anything else that commits while a job runs) keeps the table's invariant and
  does not touch a Running row.
\<close>

definition calm :: "db \<Rightarrow> db \<Rightarrow> bool" where
  "calm d d' \<longleftrightarrow> (jobs_ok d \<longrightarrow> jobs_ok d' \<and>
     (\<forall>i j. find_job i d = Some j \<longrightarrow> job_status j = Running \<longrightarrow> find_job i d' = Some j))"

definition registry_ok :: "'z world_scheme registry \<Rightarrow> bool" where
  "registry_ok reg \<longleftrightarrow> (\<forall>jt h p s. reg jt = Some h \<longrightarrow> calm (tx_db s) (tx_db (snd (h_handle h p s))))"

lemma calm_refl: "calm d d"
  by (simp add: calm_def)

lemma calm_trans: "calm a b \<Longrightarrow> calm b c \<Longrightarrow> calm a c"
  by (auto simp: calm_def)

lemma calm_jobs_eq: "tbl_jobs d' = tbl_jobs d \<Longrightarrow> job_seq d' = job_seq d \<Longrightarrow> calm d d'"
  by (simp add: calm_def jobs_ok_def find_job_def)

lemma calmD:
  "calm d d' \<Longrightarrow> jobs_ok d \<Longrightarrow> find_job i d = Some j \<Longrightarrow> job_status j = Running \<Longrightarrow> find_job i d' = Some j"
  by (simp add: calm_def)

lemma calm_insert:
  assumes i: "insert_job (new_job_row now jt p prio at) d = Inr (j, d')"
  shows "calm d d'"
  unfolding calm_def
proof (intro impI conjI allI)
  assume ok: "jobs_ok d"
  show ok': "jobs_ok d'" by (rule jobs_ok_insert [OF ok i])
  fix k x assume "find_job k d = Some x" "job_status x = Running"
  with insert_job_finds(4) [OF ok i] show "find_job k d' = Some x"
    by (intro find_job_eq [OF ok']) (auto dest: find_job_in)
qed

lemma calm_delete: "calm d (d\<lparr>tbl_jobs := delete_where (old_job cutoff) (tbl_jobs d)\<rparr>)"
  unfolding calm_def
proof (intro impI conjI allI)
  assume ok: "jobs_ok d"
  show ok': "jobs_ok (d\<lparr>tbl_jobs := delete_where (old_job cutoff) (tbl_jobs d)\<rparr>)"
    using ok by (auto simp: jobs_ok_def intro: distinct_map_delete_where)
  fix k x assume "find_job k d = Some x" "job_status x = Running"
  then show "find_job k (d\<lparr>tbl_jobs := delete_where (old_job cutoff) (tbl_jobs d)\<rparr>) = Some x"
    by (intro find_job_eq [OF ok']) (auto simp: old_job_def dest: find_job_in)
qed

lemma keeps_calm_execute:
  "(\<And>d x d'. f d = Inr (x, d') \<Longrightarrow> calm d d') \<Longrightarrow> keeps (calm d0) (execute f)"
  by (rule keeps_execute) (blast intro: calm_trans)

lemma keeps_calm_ops [keeps_intros]:
  "keeps (calm d0) (enqueue_raw jt p prio)" "keeps (calm d0) (enqueue_delayed jt p prio delay)"
  "keeps (calm d0) (delete_old_jobs cutoff)"
proof -
  have ins: "keeps (calm d0) (execute (insert_job (new_job_row now jt p prio at)))" for now at
    by (rule keeps_calm_execute) (rule calm_insert)
  show "keeps (calm d0) (enqueue_raw jt p prio)" "keeps (calm d0) (enqueue_delayed jt p prio delay)"
    by (simp_all add: enqueue_raw_def enqueue_delayed_def keeps_intros ins)
  show "keeps (calm d0) (delete_old_jobs cutoff)"
    unfolding delete_old_jobs_def by (rule keeps_calm_execute) (auto intro: calm_delete)
qed

lemma dispatch_calm:
  assumes "registry_ok reg" and "dispatch reg jt p s = (r, t)"
  shows "calm (tx_db s) (tx_db t)"
proof (cases "reg jt")
  case None
  with assms(2) show ?thesis by (simp add: dispatch_def act_eval calm_refl)
next
  case (Some h)
  with assms(2) have "snd (h_handle h p s) = t" by (simp add: dispatch_def)
  with assms(1) Some show ?thesis unfolding registry_ok_def by blast
qed

lemma dispatch_keeps_running:
  assumes "registry_ok reg" shows "jq.keeps_running (dispatch reg)"
  unfolding jq.keeps_running_def using dispatch_calm [OF assms] by (auto simp: calm_def)

section \<open>Interleaved workers\<close>

text \<open>Where a worker is in its loop, with the local variables it carries across commits.\<close>

datatype phase = Idle | Holding Job | Handled Job "Error + unit" | Stopped

record 'w cluster =
  cl_world :: 'w
  cl_phase :: "nat \<Rightarrow> phase"

definition record_outcome :: "Job \<Rightarrow> Error + unit \<Rightarrow> ('z, Job) wm" where
  "record_outcome j r = transaction (case r of
      Inr _ \<Rightarrow> complete_job j
    | Inl e \<Rightarrow> if is_transient e then fail_job j (error_text e) else fail_terminal j (error_text e))"

definition after_error :: "Error \<Rightarrow> phase" where
  "after_error e = (if is_transient e then Idle else Stopped)"

definition set_phase :: "nat \<Rightarrow> phase \<Rightarrow> 'w \<Rightarrow> 'w cluster \<Rightarrow> 'w cluster" where
  "set_phase w ph t c = c\<lparr>cl_world := t, cl_phase := (cl_phase c)(w := ph)\<rparr>"

text \<open>
  \<open>other\<close> is everything else: services enqueue, garbage collection deletes, files and
  clocks change.
\<close>

inductive cluster_step :: "'z world_scheme registry \<Rightarrow> 'z world_scheme cluster \<Rightarrow> 'z world_scheme cluster \<Rightarrow> bool"
  for reg where
  claim: "cl_phase c w = Idle \<Longrightarrow> transaction claim_next (cl_world c) = (Inr (Some j), t) \<Longrightarrow>
    cluster_step reg c (set_phase w (Holding j) t c)"
| no_job: "cl_phase c w = Idle \<Longrightarrow> transaction claim_next (cl_world c) = (Inr None, t) \<Longrightarrow>
    cluster_step reg c (set_phase w Idle t c)"
| claim_failed: "cl_phase c w = Idle \<Longrightarrow> transaction claim_next (cl_world c) = (Inl e, t) \<Longrightarrow>
    cluster_step reg c (set_phase w (after_error e) t c)"
| handle: "cl_phase c w = Holding j \<Longrightarrow> dispatch reg (job_type j) (job_payload j) (cl_world c) = (r, t) \<Longrightarrow>
    cluster_step reg c (set_phase w (Handled j r) t c)"
| recorded: "cl_phase c w = Handled j r \<Longrightarrow> record_outcome j r (cl_world c) = (Inr row, t) \<Longrightarrow>
    cluster_step reg c (set_phase w Idle t c)"
| not_recorded: "cl_phase c w = Handled j r \<Longrightarrow> record_outcome j r (cl_world c) = (Inl e, t) \<Longrightarrow>
    cluster_step reg c (set_phase w (after_error e) t c)"
| other: "calm (tx_db (cl_world c)) (tx_db t) \<Longrightarrow> cluster_step reg c (c\<lparr>cl_world := t\<rparr>)"

abbreviation cluster_steps ::
  "'z world_scheme registry \<Rightarrow> 'z world_scheme cluster \<Rightarrow> 'z world_scheme cluster \<Rightarrow> bool" where
  "cluster_steps reg \<equiv> (cluster_step reg)\<^sup>*\<^sup>*"

text \<open>The pool as the subsystem starts it: every worker at the top of its loop.\<close>

definition started :: "'z world_scheme \<Rightarrow> 'z world_scheme cluster" where
  "started s = \<lparr>cl_world = s, cl_phase = (\<lambda>_. Idle)\<rparr>"

fun held :: "phase \<Rightarrow> Job option" where
  "held (Holding j) = Some j"
| "held (Handled j r) = Some j"
| "held Idle = None"
| "held Stopped = None"

lemma held_after_error [simp]: "held (after_error e) = None"
  by (simp add: after_error_def)

text \<open>
  The invariant: a held job's row is exactly the job held, Running, and no two workers hold
  the same job.
\<close>

definition pool_ok :: "'z world_scheme cluster \<Rightarrow> bool" where
  "pool_ok c \<longleftrightarrow> jobs_ok (tx_db (cl_world c)) \<and>
     (\<forall>w j. held (cl_phase c w) = Some j \<longrightarrow>
        find_job (job_id j) (tx_db (cl_world c)) = Some j \<and> job_status j = Running) \<and>
     (\<forall>w v j k. held (cl_phase c w) = Some j \<longrightarrow> held (cl_phase c v) = Some k \<longrightarrow>
        job_id j = job_id k \<longrightarrow> w = v)"

lemma pool_okI:
  assumes "pool_ok c" and "jobs_ok (tx_db t)"
    and "\<And>v k. v \<noteq> w \<Longrightarrow> held (cl_phase c v) = Some k \<Longrightarrow> find_job (job_id k) (tx_db t) = Some k"
    and "\<And>j. held ph = Some j \<Longrightarrow> find_job (job_id j) (tx_db t) = Some j \<and> job_status j = Running"
    and "\<And>j v k. held ph = Some j \<Longrightarrow> v \<noteq> w \<Longrightarrow> held (cl_phase c v) = Some k \<Longrightarrow> job_id k \<noteq> job_id j"
  shows "pool_ok (set_phase w ph t c)"
  using assms unfolding pool_ok_def set_phase_def by (simp add: fun_upd_apply split: if_splits) metis

lemma record_outcome_row:
  assumes "jobs_ok (tx_db s)" and "record_outcome j r s = (Inr row, t)"
  shows "(\<lambda>i. find_job i (tx_db t)) = (\<lambda>i. find_job i (tx_db s))(job_id j \<mapsto> row)" and "recorded_as j r row"
  using assms
  by (cases r; auto simp: record_outcome_def recorded_as_def split: if_splits
      dest: jq.complete_ok jq.fail_ok jq.fail_term_ok)+

lemma record_outcome_err: "record_outcome j r s = (Inl e, t) \<Longrightarrow> tx_db t = tx_db s"
  by (simp add: record_outcome_def transaction_Inl_db)

lemma keeps_record_outcome [keeps_intros]: "keeps jobs_ok (record_outcome j r)"
  unfolding record_outcome_def by (cases r) (auto intro!: keeps_intros)

section \<open>A concrete pool\<close>

text \<open>The input of the witnesses: one handler, which decodes a parse job and succeeds.\<close>

definition sample_registry :: "'z world_scheme registry" where
  "sample_registry = register_handler PARSE_JOB_TYPE
     \<lparr>h_quiet = True, h_handle = erased_handle (\<lambda>t. t) (\<lambda>_. ret ())\<rparr> (\<lambda>_. None)"

lemma sample_dispatch_same: "snd (dispatch sample_registry jt p s) = s"
  by (auto simp: sample_registry_def register_handler_def dispatch_def erased_handle_def act_eval
      split: payload.splits)

lemma sample_registry_ok: "registry_ok (sample_registry :: 'z world_scheme registry)"
  unfolding registry_ok_def
proof (intro allI impI)
  fix jt h p and s :: "'z world_scheme"
  assume "(sample_registry :: 'z world_scheme registry) jt = Some h"
  with sample_dispatch_same [of jt p s] show "calm (tx_db s) (tx_db (snd (h_handle h p s)))"
    by (simp add: dispatch_def calm_refl)
qed

definition sample_claimed :: Job where
  "sample_claimed = claimed_row (seconds 100) (sample_row 1 20 Pending)"

lemma sample_world_ok: "jobs_ok (tx_db sample_world)"
  using sample_ok by (simp add: sample_tx_def)

lemma sample_candidate: "claim_candidate (seconds 100) sample_jobs_db = Some (sample_row 1 20 Pending)"
  by (simp add: sample_eval)

text \<open>Worker 0 claims job 1.\<close>

definition sample_pool_world :: world where
  "sample_pool_world = sample_world\<lparr>tx_db := sample_jobs_db\<lparr>tbl_jobs :=
     update_where (claim_guard (sample_row 1 20 Pending)) (claimed_row (seconds 100)) (tbl_jobs sample_jobs_db)\<rparr>\<rparr>"

lemma sample_claim: "transaction claim_next sample_world = (Inr (Some sample_claimed), sample_pool_world)"
  using claim_next_clear [of sample_world] sample_candidate sample_world_ok
  by (simp add: transaction_clear sample_pool_world_def sample_claimed_def)

lemma sample_steps:
  "cluster_steps sample_registry (started sample_world) (set_phase 0 (Holding sample_claimed) sample_pool_world (started sample_world))"
  by (intro r_into_rtranclp cluster_step.claim) (simp_all add: started_def sample_claim)

section \<open>Mutual exclusion\<close>

lemma pool_okD:
  assumes "pool_ok c" and "held (cl_phase c w) = Some j"
  shows "find_job (job_id j) (tx_db (cl_world c)) = Some j" and "job_status j = Running"
  using assms by (auto simp: pool_ok_def)

lemma pool_ok_distinct:
  "pool_ok c \<Longrightarrow> held (cl_phase c w) = Some j \<Longrightarrow> held (cl_phase c v) = Some k \<Longrightarrow> job_id j = job_id k \<Longrightarrow> w = v"
  unfolding pool_ok_def by blast

text \<open>A change of the table that agrees with the old one on the held rows.\<close>

lemma pool_ok_release:
  assumes ok: "pool_ok c" and t: "jobs_ok (tx_db t)"
    and rows: "\<And>v k. v \<noteq> w \<Longrightarrow> held (cl_phase c v) = Some k \<Longrightarrow>
      find_job (job_id k) (tx_db t) = find_job (job_id k) (tx_db (cl_world c))"
    and ph: "held ph = None"
  shows "pool_ok (set_phase w ph t c)"
  by (rule pool_okI [OF ok t]) (use rows ph pool_okD(1) [OF ok] in auto)

lemma cluster_step_pool_ok:
  assumes reg: "registry_ok reg" and step: "cluster_step reg c c'" and ok: "pool_ok c"
  shows "pool_ok c'"
  using step
proof cases
  case (claim w j t)
  let ?s = "cl_world c"
  from ok have jok: "jobs_ok (tx_db ?s)" by (simp add: pool_ok_def)
  note tk = jq.claim_some [OF jok claim(3)]
  from tk have t: "find_job i (tx_db t) = (if i = job_id j then Some j else find_job i (tx_db ?s))" for i
    by (auto dest: fun_cong [of _ _ i])
  have apart: "job_id k \<noteq> job_id j" if "held (cl_phase c v) = Some k" for v k
    using pool_okD [OF ok that] tk by auto
  have "jobs_ok (tx_db t)" using preservesD [OF jq.inv_claim jok claim(3)] .
  then show ?thesis unfolding claim(1)
    by (rule pool_okI [OF ok]) (use t tk apart pool_okD(1) [OF ok] in auto)
next
  case (no_job w t)
  from ok have jok: "jobs_ok (tx_db (cl_world c))" by (simp add: pool_ok_def)
  from tx_claim_none [OF no_job(3) jok] ok jok show ?thesis unfolding no_job(1)
    by (intro pool_ok_release) auto
next
  case (claim_failed w e t)
  from ok have jok: "jobs_ok (tx_db (cl_world c))" by (simp add: pool_ok_def)
  from transaction_Inl_db [OF claim_failed(3)] ok jok show ?thesis unfolding claim_failed(1)
    by (intro pool_ok_release) auto
next
  case (handle w j r t)
  from ok have jok: "jobs_ok (tx_db (cl_world c))" by (simp add: pool_ok_def)
  note cm = dispatch_calm [OF reg handle(3)]
  have "held (cl_phase c w) = Some j" using handle(2) by simp
  note hj = this pool_okD [OF ok this]
  show ?thesis unfolding handle(1)
    by (rule pool_okI [OF ok])
      (use cm jok hj pool_okD [OF ok] pool_ok_distinct [OF ok] in \<open>auto simp: calm_def\<close>)
next
  case (recorded w j r row t)
  from ok have jok: "jobs_ok (tx_db (cl_world c))" by (simp add: pool_ok_def)
  have hj: "held (cl_phase c w) = Some j" using recorded(2) by simp
  from record_outcome_row(1) [OF jok recorded(3)]
  have t: "find_job i (tx_db t) = (if i = job_id j then Some row else find_job i (tx_db (cl_world c)))" for i
    by (auto dest: fun_cong [of _ _ i])
  have "jobs_ok (tx_db t)" using keeps_eqD [OF keeps_record_outcome jok recorded(3)] .
  then show ?thesis unfolding recorded(1)
    by (rule pool_ok_release [OF ok]) (use t hj pool_ok_distinct [OF ok] in auto)
next
  case (not_recorded w j r e t)
  from ok have jok: "jobs_ok (tx_db (cl_world c))" by (simp add: pool_ok_def)
  from record_outcome_err [OF not_recorded(3)] ok jok show ?thesis unfolding not_recorded(1)
    by (intro pool_ok_release) auto
next
  case (other t)
  with ok show ?thesis by (auto simp: pool_ok_def calm_def)
qed

lemma pool_ok_started: "jobs_ok (tx_db s) \<Longrightarrow> pool_ok (started s)"
  by (simp add: started_def pool_ok_def)

lemma reachable_pool_ok:
  assumes "registry_ok reg" and "jobs_ok (tx_db s)" and "cluster_steps reg (started s) c"
  shows "pool_ok c"
  using assms(3)
proof (induction rule: rtranclp_induct)
  case base
  then show ?case using pool_ok_started [OF assms(2)] .
next
  case (step y z)
  then show ?case using cluster_step_pool_ok [OF assms(1)] by blast
qed

text \<open>
  C1. Mutual exclusion: in every state the pool can reach, under any interleaving of the
  workers, of database failures and of other commits, two workers never execute the same
  job, and the job a worker holds is exactly the row of the table, Running, until that
  worker records its outcome.
\<close>

theorem workers_exclude_each_other:
  assumes "registry_ok reg" and "jobs_ok (tx_db s)" and "cluster_steps reg (started s) c"
    and "held (cl_phase c w) = Some j"
  shows "find_job (job_id j) (tx_db (cl_world c)) = Some j \<and> job_status j = Running \<and>
    (\<forall>v k. v \<noteq> w \<longrightarrow> held (cl_phase c v) = Some k \<longrightarrow> job_id k \<noteq> job_id j)"
proof -
  note ok = reachable_pool_ok [OF assms(1-3)]
  show ?thesis using pool_okD [OF ok assms(4)] pool_ok_distinct [OF ok assms(4)] by metis
qed

theorem workers_exclude_each_other_witness:
  "find_job 1 (tx_db sample_pool_world) = Some sample_claimed \<and> job_status sample_claimed = Running"
proof -
  have "job_id sample_claimed = 1" by (simp add: sample_claimed_def sample_row_def)
  with workers_exclude_each_other [OF sample_registry_ok sample_world_ok sample_steps, of 0 sample_claimed]
  show ?thesis by (simp add: set_phase_def)
qed

section \<open>Recording an outcome\<close>

lemma transaction_finish_clear:
  assumes s: "tx_faults s = []" and ok: "jobs_ok (tx_db s)" and f: "\<And>now. bumps (f now)"
    and j: "find_job (job_id j) (tx_db s) = Some j"
  shows "transaction (bindE utc_now (\<lambda>now. finish_job name j (f now))) s
    = (Inr (f (tx_now s) j),
       s\<lparr>tx_db := tx_db s\<lparr>tbl_jobs := update_where (same_version j) (f (tx_now s)) (tbl_jobs (tx_db s))\<rparr>\<rparr>)"
proof -
  have "version_matches j (tx_db s)" using j by (auto simp: version_matches_def)
  with j have "bindE utc_now (\<lambda>now. finish_job name j (f now)) s = (Inr (f (tx_now s) j),
      s\<lparr>tx_db := tx_db s\<lparr>tbl_jobs := update_where (same_version j) (f (tx_now s)) (tbl_jobs (tx_db s))\<rparr>\<rparr>)"
    by (simp add: utc_now_def finish_job_clear [OF s ok f])
  with s show ?thesis by (simp add: transaction_clear [where body = "bindE utc_now (\<lambda>now. finish_job name j (f now))"])
qed

definition outcome_row :: "time \<Rightarrow> Job \<Rightarrow> Error + unit \<Rightarrow> Job" where
  "outcome_row now j r = (case r of
      Inr _ \<Rightarrow> completed_row now j
    | Inl e \<Rightarrow> if is_transient e \<and> job_attempt j < job_max_attempts j
        then rescheduled_row now (now + seconds (backoff_secs (job_attempt j))) (error_text e) j
        else failed_row now (error_text e) j)"

lemma record_outcome_clear:
  assumes "tx_faults s = []" and "jobs_ok (tx_db s)" and "find_job (job_id j) (tx_db s) = Some j"
  shows "\<exists>d. record_outcome j r s = (Inr (outcome_row (tx_now s) j r), s\<lparr>tx_db := d\<rparr>)"
proof (cases r)
  case (Inr u)
  then show ?thesis
    using transaction_finish_clear [OF assms(1,2) _ assms(3), of completed_row]
    by (auto simp: record_outcome_def outcome_row_def complete_job_def)
next
  case (Inl e)
  show ?thesis
  proof (cases "is_transient e \<and> job_attempt j < job_max_attempts j")
    case True
    with Inl show ?thesis
      using transaction_finish_clear [OF assms(1,2) _ assms(3),
          of "\<lambda>now. rescheduled_row now (now + seconds (backoff_secs (job_attempt j))) (error_text e)"]
      by (auto simp: record_outcome_def outcome_row_def fail_job_def)
  next
    case False
    with Inl show ?thesis
      using transaction_finish_clear [OF assms(1,2) _ assms(3), of "\<lambda>now. failed_row now (error_text e)"]
      by (auto simp: record_outcome_def outcome_row_def fail_job_def fail_terminal_def)
  qed
qed

text \<open>
  Recording never conflicts: whenever a worker of the pool has handled its job, recording
  the outcome with no database failure succeeds, so the version check can only fail for a
  worker that lost its job to a restart.
\<close>

theorem recording_never_conflicts:
  assumes "registry_ok reg" and "jobs_ok (tx_db s)" and "cluster_steps reg (started s) c"
    and "cl_phase c w = Handled j r" and "tx_faults (cl_world c) = []"
  shows "\<exists>t. record_outcome j r (cl_world c) = (Inr (outcome_row (tx_now (cl_world c)) j r), t) \<and>
    cluster_step reg c (set_phase w Idle t c) \<and>
    find_job (job_id j) (tx_db t) = Some (outcome_row (tx_now (cl_world c)) j r)"
proof -
  from assms(4) have h: "held (cl_phase c w) = Some j" by simp
  note ok = reachable_pool_ok [OF assms(1-3)]
  from ok have jok: "jobs_ok (tx_db (cl_world c))" by (simp add: pool_ok_def)
  from record_outcome_clear [OF assms(5) jok pool_okD(1) [OF ok h]]
  obtain d where run: "record_outcome j r (cl_world c)
      = (Inr (outcome_row (tx_now (cl_world c)) j r), (cl_world c)\<lparr>tx_db := d\<rparr>)" ..
  moreover have "find_job (job_id j) d = Some (outcome_row (tx_now (cl_world c)) j r)"
    using fun_cong [OF record_outcome_row(1) [OF jok run], of "job_id j"] by simp
  ultimately show ?thesis using cluster_step.recorded [of c w j r, OF assms(4) run] by auto
qed

text \<open>Worker 0 has handled job 1.\<close>

lemma sample_handled_steps:
  "\<exists>r. cluster_steps sample_registry (started sample_world)
    (set_phase 0 (Handled sample_claimed r) sample_pool_world (started sample_world))"
proof -
  let ?c1 = "set_phase 0 (Holding sample_claimed) sample_pool_world (started sample_world)"
  obtain r where "dispatch sample_registry (job_type sample_claimed) (job_payload sample_claimed) sample_pool_world
      = (r, sample_pool_world)"
    by (metis prod.collapse sample_dispatch_same)
  then have "cluster_step sample_registry ?c1 (set_phase 0 (Handled sample_claimed r) sample_pool_world ?c1)"
    by (intro cluster_step.handle) (simp_all add: set_phase_def)
  with sample_steps show ?thesis
    by (auto simp: set_phase_def intro!: exI [of _ r] intro: rtranclp.rtrancl_into_rtrancl)
qed

theorem recording_never_conflicts_witness:
  "\<exists>r t. record_outcome sample_claimed r sample_pool_world
     = (Inr (outcome_row (seconds 100) sample_claimed r), t)"
proof -
  obtain r where "cluster_steps sample_registry (started sample_world)
      (set_phase 0 (Handled sample_claimed r) sample_pool_world (started sample_world))"
    using sample_handled_steps by blast
  from recording_never_conflicts [OF sample_registry_ok sample_world_ok this, of 0 sample_claimed r]
  show ?thesis by (auto simp: set_phase_def sample_pool_world_def)
qed

section \<open>A job whose outcome could not be recorded\<close>

definition orphan :: "Job \<Rightarrow> 'z world_scheme cluster \<Rightarrow> bool" where
  "orphan j c \<longleftrightarrow> find_job (job_id j) (tx_db (cl_world c)) = Some j \<and> job_status j = Running \<and>
     (\<forall>w k. held (cl_phase c w) = Some k \<longrightarrow> job_id k \<noteq> job_id j)"

lemma orphan_step:
  assumes reg: "registry_ok reg" and step: "cluster_step reg c c'" and ok: "pool_ok c" and o: "orphan j c"
  shows "orphan j c'"
proof -
  from ok have jok: "jobs_ok (tx_db (cl_world c))" by (simp add: pool_ok_def)
  note j = o [unfolded orphan_def]
  from step show ?thesis
  proof cases
    case (claim w k t)
    note tk = jq.claim_some [OF jok claim(3)]
    from tk have t: "find_job i (tx_db t) = (if i = job_id k then Some k else find_job i (tx_db (cl_world c)))" for i
      by (auto dest: fun_cong [of _ _ i])
    from j tk have "job_id k \<noteq> job_id j" by auto
    with j t show ?thesis unfolding claim(1) orphan_def by (auto simp: set_phase_def)
  next
    case (no_job w t)
    from tx_claim_none [OF no_job(3) jok] j show ?thesis
      unfolding no_job(1) orphan_def by (auto simp: set_phase_def)
  next
    case (claim_failed w e t)
    from transaction_Inl_db [OF claim_failed(3)] j show ?thesis
      unfolding claim_failed(1) orphan_def by (auto simp: set_phase_def)
  next
    case (handle w k r t)
    from handle(2) j have "job_id k \<noteq> job_id j" by (metis held.simps(1))
    with calmD [OF dispatch_calm [OF reg handle(3)] jok] j handle(2) show ?thesis
      unfolding handle(1) orphan_def by (auto simp: set_phase_def)
  next
    case (recorded w k r row t)
    from recorded(2) j have "job_id k \<noteq> job_id j" by (metis held.simps(2))
    with fun_cong [OF record_outcome_row(1) [OF jok recorded(3)], of "job_id j"] j show ?thesis
      unfolding recorded(1) orphan_def by (auto simp: set_phase_def)
  next
    case (not_recorded w k r e t)
    from record_outcome_err [OF not_recorded(3)] j show ?thesis
      unfolding not_recorded(1) orphan_def by (auto simp: set_phase_def)
  next
    case (other t)
    with calmD [OF other(2) jok] j show ?thesis by (auto simp: orphan_def)
  qed
qed

lemma orphan_steps:
  assumes reg: "registry_ok reg" and ok: "pool_ok c" and o: "orphan j c" and run: "cluster_steps reg c c'"
  shows "orphan j c'"
  using run
proof (induction rule: rtranclp_induct)
  case base
  then show ?case by (rule o)
next
  case (step y z)
  have "pool_ok y"
    using step(1) by (induction rule: rtranclp_induct) (use ok cluster_step_pool_ok [OF reg] in blast)+
  with orphan_step [OF reg step(2)] step show ?case by blast
qed

text \<open>
  What a transient failure leaves behind: when a worker has handled its job but the
  database fails while the outcome is recorded, the worker pauses and goes on, and the job's
  row stays Running, held by nobody, in every later state of the pool: no worker retries it
  or records it until a restart resets it.
\<close>

theorem unrecorded_job_stays_running:
  assumes "registry_ok reg" and "jobs_ok (tx_db s)" and "cluster_steps reg (started s) c"
    and "cl_phase c w = Handled j r" and "record_outcome j r (cl_world c) = (Inl e, t)"
    and "cluster_steps reg (set_phase w (after_error e) t c) c'"
  shows "find_job (job_id j) (tx_db (cl_world c')) = Some j \<and> job_status j = Running \<and>
    (\<forall>v k. held (cl_phase c' v) = Some k \<longrightarrow> job_id k \<noteq> job_id j)"
proof -
  note ok = reachable_pool_ok [OF assms(1-3)]
  from assms(4) have h: "held (cl_phase c w) = Some j" by simp
  have step: "cluster_step reg c (set_phase w (after_error e) t c)"
    using assms(4,5) by (rule cluster_step.not_recorded)
  have "orphan j (set_phase w (after_error e) t c)"
    using pool_okD [OF ok h] record_outcome_err [OF assms(5)] pool_ok_distinct [OF ok h]
    by (auto simp: orphan_def set_phase_def)
  from orphan_steps [OF assms(1) cluster_step_pool_ok [OF assms(1) step ok] this assms(6)]
  show ?thesis by (simp add: orphan_def)
qed

text \<open>The same pool, with the database locked when worker 0 records the outcome.\<close>

definition locked_error :: DbErr where
  "locked_error = \<lparr>dberr_variant = DbExec (RuntimeSqlx (SqlxDatabase (Some ''5'') ''locked'')),
     dberr_sql_err = None, dberr_text = ''locked''\<rparr>"

definition locked_world :: world where
  "locked_world = sample_pool_world\<lparr>tx_faults := [Some locked_error]\<rparr>"

theorem unrecorded_job_stays_running_witness:
  "\<exists>c r e. cluster_steps sample_registry (started sample_world) c \<and> cl_phase c 0 = Handled sample_claimed r \<and>
     fst (record_outcome sample_claimed r (cl_world c)) = Inl e \<and> is_transient e \<and>
     find_job 1 (tx_db (snd (record_outcome sample_claimed r (cl_world c)))) = Some sample_claimed \<and>
     job_status sample_claimed = Running"
proof -
  obtain r where st: "cluster_steps sample_registry (started sample_world)
      (set_phase 0 (Handled sample_claimed r) sample_pool_world (started sample_world))"
    using sample_handled_steps by blast
  let ?c = "set_phase 0 (Handled sample_claimed r) locked_world (started sample_world)"
  have "cluster_step sample_registry (set_phase 0 (Handled sample_claimed r) sample_pool_world (started sample_world))
      ((set_phase 0 (Handled sample_claimed r) sample_pool_world (started sample_world))\<lparr>cl_world := locked_world\<rparr>)"
    by (rule cluster_step.other) (simp add: set_phase_def locked_world_def calm_refl)
  then have "cluster_step sample_registry (set_phase 0 (Handled sample_claimed r) sample_pool_world (started sample_world)) ?c"
    by (simp add: set_phase_def started_def)
  with st have c: "cluster_steps sample_registry (started sample_world) ?c"
    by (rule rtranclp.rtrancl_into_rtrancl)
  have p: "cl_phase ?c 0 = Handled sample_claimed r" by (simp add: set_phase_def)
  let ?e = "RepoError (Busy ''locked'')"
  have w: "cl_world ?c = locked_world" by (simp add: set_phase_def)
  obtain t where ro: "record_outcome sample_claimed r locked_world = (Inl ?e, t)"
    by (auto simp: record_outcome_def transaction_def bindE_def db_call_def locked_world_def locked_error_def
        handle_dberr_def)
  have ro': "record_outcome sample_claimed r (cl_world ?c) = (Inl ?e, t)" unfolding w by (rule ro)
  have refl: "cluster_steps sample_registry (set_phase 0 (after_error ?e) t ?c) (set_phase 0 (after_error ?e) t ?c)"
    by simp
  from unrecorded_job_stays_running [where reg = sample_registry and s = sample_world and c = ?c and w = 0
      and j = sample_claimed and r = r and e = ?e and t = t and c' = "set_phase 0 (after_error ?e) t ?c",
      OF sample_registry_ok sample_world_ok c p ro' refl]
  have "find_job 1 (tx_db t) = Some sample_claimed" "job_status sample_claimed = Running"
    by (simp_all add: set_phase_def sample_claimed_def sample_row_def)
  with c p ro w show ?thesis by (intro exI [of _ ?c] exI [of _ r] exI [of _ ?e]) simp
qed

end
