(* ===== verification/WorkerDrain.thy ===== *)
theory WorkerDrain
  imports WorkerPool
begin

text \<open>
  The worker's loop from outside: what one pass does to the job it takes, on every branch; that a
  pass is a run of the interleaved system; and that with a working database a worker empties the
  queue of due jobs and then waits.
\<close>

section \<open>A pass is a run of the pool\<close>

lemma handleE_cases:
  assumes "handleE m f h s = (r, t)"
  obtains x s1 where "m s = (Inr x, s1)" "f x s1 = (r, t)" | e s1 where "m s = (Inl e, s1)" "h e s1 = (r, t)"
  using assms by (auto simp: handleE_def split: prod.splits sum.splits)

definition phase_after :: "Error + turn \<Rightarrow> phase" where
  "phase_after r = (case r of Inl _ \<Rightarrow> Stopped | Inr _ \<Rightarrow> Idle)"

lemma pause_or_stop_phase: "pause_or_stop e s = (r, t) \<Longrightarrow> t = s \<and> phase_after r = after_error e"
  by (auto simp: pause_or_stop_def phase_after_def after_error_def act_eval split: if_splits)

lemma set_phase_twice: "set_phase w p2 t2 (set_phase w p1 t1 c) = set_phase w p2 t2 c"
  by (simp add: set_phase_def)

lemma set_phase_simps [simp]:
  "cl_world (set_phase w p t c) = t" "cl_phase (set_phase w p t c) w = p"
  by (simp_all add: set_phase_def)

text \<open>
  A pass of the sequential code is a run of the interleaved system: \<open>cluster_step\<close> covers each
  of its branches, with this worker's phase as the pass leaves it.
\<close>

lemma worker_turn_in_pool:
  assumes "cl_phase c w = Idle" and "worker_turn reg (cl_world c) = (r, t)"
  shows "cluster_steps reg c (set_phase w (phase_after r) t c)"
proof -
  from assms(2) show ?thesis
    unfolding worker_turn_def worker_turn_on_def
  proof (rule handleE_cases)
    fix e s1
    assume cl: "transaction claim_next (cl_world c) = (Inl e, s1)" and "pause_or_stop e s1 = (r, t)"
    then have "s1 = t" "phase_after r = after_error e" by (auto dest: pause_or_stop_phase)
    with cluster_step.claim_failed [where reg = reg, OF assms(1) cl] show ?thesis by auto
  next
    fix oj s1
    assume cl: "transaction claim_next (cl_world c) = (Inr oj, s1)"
      and rest: "(case oj of None \<Rightarrow> ret Waiting
       | Some job \<Rightarrow>
           handleE (dispatch reg (job_type job) (job_payload job))
             (\<lambda>_. handleE (transaction (complete_job job)) (\<lambda>_. ret Worked) pause_or_stop)
             (\<lambda>e. handleE (if is_transient e then transaction (fail_job job (error_text e))
                           else transaction (fail_terminal job (error_text e)))
                    (\<lambda>_. ret Worked) pause_or_stop)) s1 = (r, t)"
    show ?thesis
    proof (cases oj)
      case None
      with rest have "t = s1" "phase_after r = Idle" by (auto simp: act_eval phase_after_def)
      with cluster_step.no_job [where reg = reg, OF assms(1) cl [unfolded None]] show ?thesis by auto
    next
      case (Some j)
      obtain hr s2 where d: "dispatch reg (job_type j) (job_payload j) s1 = (hr, s2)"
        by (cases "dispatch reg (job_type j) (job_payload j) s1")
      let ?c1 = "set_phase w (Holding j) s1 c" and ?c2 = "set_phase w (Handled j hr) s2 c"
      have c1: "cluster_step reg c ?c1"
        by (rule cluster_step.claim [OF assms(1) cl [unfolded Some]])
      have c2: "cluster_step reg ?c1 ?c2"
        using cluster_step.handle [where reg = reg and c = ?c1 and w = w and j = j] d
        by (simp add: set_phase_twice)
      have fin: "handleE (record_outcome j hr) (\<lambda>_. ret Worked) pause_or_stop s2 = (r, t)"
        using rest d unfolding Some record_outcome_def
        by (cases hr) (auto simp: handleE_def if_distrib [of transaction] split: if_splits)
      have c3: "cluster_step reg ?c2 (set_phase w (phase_after r) t c)"
        using fin
      proof (rule handleE_cases)
        fix row s3
        assume ro: "record_outcome j hr s2 = (Inr row, s3)" and "ret Worked s3 = (r, t)"
        then have "s3 = t" "phase_after r = Idle" by (auto simp: act_eval phase_after_def)
        with ro cluster_step.recorded [where reg = reg and c = ?c2 and w = w and j = j and r = hr]
        show ?thesis by (simp add: set_phase_twice)
      next
        fix e s3
        assume ro: "record_outcome j hr s2 = (Inl e, s3)" and "pause_or_stop e s3 = (r, t)"
        then have "s3 = t" "phase_after r = after_error e" by (auto dest: pause_or_stop_phase)
        with ro cluster_step.not_recorded [where reg = reg and c = ?c2 and w = w and j = j and r = hr]
        show ?thesis by (simp add: set_phase_twice)
      qed
      from c1 c2 c3 show ?thesis by (meson converse_rtranclp_into_rtranclp rtranclp.rtrancl_refl)
    qed
  qed
qed

section \<open>What a pass does\<close>

text \<open>
  \<open>taken s c j t0\<close>: from \<open>s\<close> to \<open>t0\<close> the due pending row \<open>c\<close> that comes first (highest priority,
  then earliest schedule, then lowest id) was made the Running job \<open>j\<close>, and nothing else changed.
\<close>

definition taken :: "'z world_scheme \<Rightarrow> Job \<Rightarrow> Job \<Rightarrow> 'z world_scheme \<Rightarrow> bool" where
  "taken s c j t0 \<longleftrightarrow> c \<in> set (tbl_jobs (tx_db s)) \<and> job_status c = Pending \<and> job_scheduled_at c \<le> tx_now s \<and>
     (\<forall>k \<in> set (tbl_jobs (tx_db s)). job_status k = Pending \<and> job_scheduled_at k \<le> tx_now s \<longrightarrow>
        (- job_priority c, job_scheduled_at c, job_id c) \<le> (- job_priority k, job_scheduled_at k, job_id k)) \<and>
     j = c\<lparr>job_status := Running, job_attempt := job_attempt c + 1, job_started_at := Some (tx_now s),
       job_version := job_version c + 1, job_updated_at := tx_now s\<rparr> \<and>
     tx_db t0 = (tx_db s)\<lparr>tbl_jobs := map (\<lambda>x. if x = c then j else x) (tbl_jobs (tx_db s))\<rparr>"

text \<open>The row a job must have after its handler returned \<open>r\<close>.\<close>

definition due_outcome :: "time \<Rightarrow> Job \<Rightarrow> Error + unit \<Rightarrow> Job" where
  "due_outcome now j r =
    (let done = j\<lparr>job_version := job_version j + 1, job_updated_at := now\<rparr> in
     case r of
       Inr _ \<Rightarrow> done\<lparr>job_status := Completed, job_completed_at := Some now\<rparr>
     | Inl e \<Rightarrow>
         if is_transient e \<and> job_attempt j < job_max_attempts j
         then done\<lparr>job_status := Pending, job_error_message := Some (error_text e),
           job_scheduled_at := now + seconds (30 * 2 ^ nat (min (job_attempt j) 20))\<rparr>
         else done\<lparr>job_status := Failed, job_error_message := Some (error_text e), job_completed_at := Some now\<rparr>)"

lemma claim_taken:
  fixes s :: "'z world_scheme"
  assumes "jobs_ok (tx_db s)" and "transaction claim_next s = (Inr (Some j), t0)"
  shows "\<exists>c. taken s c j t0"
proof -
  from tx_claim_exact [OF assms] obtain c where c: "claim_candidate (tx_now s) (tx_db s) = Some c"
    "j = claimed_row (tx_now s) c"
    "tx_db t0 = (tx_db s)\<lparr>tbl_jobs := map (\<lambda>x. if x = c then j else x) (tbl_jobs (tx_db s))\<rparr>"
    by (auto split: option.splits)
  with claim_candidate_Some [OF c(1)] show ?thesis
    by (intro exI [of _ c]) (auto simp: taken_def claimable_def claim_key_def claimed_row_def)
qed

lemma record_outcome_exact:
  fixes s :: "'z world_scheme"
  assumes ok: "jobs_ok (tx_db s)" and j: "find_job (job_id j) (tx_db s) = Some j"
    and run: "record_outcome j r s = (Inr row, t)"
  shows "tx_db t = (tx_db s)\<lparr>tbl_jobs := map (\<lambda>x. if x = j then due_outcome (tx_now s) j r else x) (tbl_jobs (tx_db s))\<rparr>"
proof -
  have rows: "update_where (same_version j) f (tbl_jobs (tx_db s)) = map (\<lambda>x. if x = j then f j else x) (tbl_jobs (tx_db s))" for f
    using same_id_same_row [OF ok] find_job_in [OF j] by (auto simp: update_where_def same_version_def)
  have finish: "tx_db t = (tx_db s)\<lparr>tbl_jobs := map (\<lambda>x. if x = j then f (tx_now s) j else x) (tbl_jobs (tx_db s))\<rparr>"
    if "transaction (bindE utc_now (\<lambda>now. finish_job name j (f now))) s = (Inr row, t)" "\<And>now. bumps (f now)" for name f
    using tx_finish_Inr [OF ok that(2) that(1)] by (auto simp: rows)
  show ?thesis
  proof (cases r)
    case (Inr u)
    with run finish [of "''complete''" completed_row] show ?thesis
      by (simp add: record_outcome_def complete_job_def due_outcome_def completed_row_def)
  next
    case (Inl e)
    let ?again = "\<lambda>now. rescheduled_row now (now + seconds (backoff_secs (job_attempt j))) (error_text e)"
    show ?thesis
    proof (cases "is_transient e")
      case False
      with Inl run finish [of "''fail_terminal''" "\<lambda>now. failed_row now (error_text e)"] show ?thesis
        by (simp add: record_outcome_def fail_terminal_def due_outcome_def failed_row_def)
    next
      case True
      note transient = True
      show ?thesis
      proof (cases "job_attempt j < job_max_attempts j")
        case True
        with transient Inl run finish [of "''fail''" ?again] show ?thesis
          by (simp add: record_outcome_def fail_job_def due_outcome_def rescheduled_row_def backoff_secs_def)
      next
        case False
        with transient Inl run finish [of "''fail''" "\<lambda>now. failed_row now (error_text e)"] show ?thesis
          by (simp add: record_outcome_def fail_job_def due_outcome_def failed_row_def)
      qed
    qed
  qed
qed

text \<open>
  A pass that recorded nothing: it took no job, or the job it took is still Running as claimed,
  beside what its handler did.
\<close>

definition undone :: "'z world_scheme registry \<Rightarrow> 'z world_scheme \<Rightarrow> 'z world_scheme \<Rightarrow> bool" where
  "undone reg s t \<longleftrightarrow> tx_db t = tx_db s \<or>
     (\<exists>c j t0 r t1. taken s c j t0 \<and> dispatch reg (job_type c) (job_payload c) t0 = (r, t1) \<and>
        j \<in> set (tbl_jobs (tx_db t1)) \<and> tx_db t = tx_db t1)"

text \<open>
  C10. One pass of a worker, from a consistent queue, on every branch and under every database
  failure. A pass that waits found no due pending job and changed no table. A pass that worked took
  the due job that comes first, ran its handler on that job's type and payload, and then changed
  exactly that job's row, to the outcome of the handler: Completed; Pending again with the error and
  the doubling pause when the error is transient and attempts are left; Failed with the error
  otherwise. A pass that pauses (for a transient database error) or stops the worker (for any other)
  either took no job and changed no table, or leaves the job it took Running exactly as claimed,
  beside whatever its handler did.
\<close>

theorem worker_turn_outcomes:
  assumes "jobs_ok (tx_db s)" and "registry_ok reg" and "worker_turn reg s = (o1, t)"
  shows "case o1 of
      Inr Waiting \<Rightarrow> tx_db t = tx_db s \<and>
        (\<forall>k \<in> set (tbl_jobs (tx_db s)). \<not> (job_status k = Pending \<and> job_scheduled_at k \<le> tx_now s))
    | Inr Worked \<Rightarrow> \<exists>c j t0 r t1. taken s c j t0 \<and> dispatch reg (job_type c) (job_payload c) t0 = (r, t1) \<and>
        j \<in> set (tbl_jobs (tx_db t1)) \<and> tx_db t = (tx_db t1)
          \<lparr>tbl_jobs := map (\<lambda>x. if x = j then due_outcome (tx_now t1) j r else x) (tbl_jobs (tx_db t1))\<rparr>
    | Inr Paused \<Rightarrow> undone reg s t
    | Inl e \<Rightarrow> \<not> is_transient e \<and> undone reg s t"
proof -
  obtain oj t0 where cl: "transaction claim_next s = (oj, t0)" by (cases "transaction claim_next s")
  show ?thesis
  proof (cases oj)
    case (Inl e)
    with cl assms(3) transaction_Inl_db [of claim_next s e t0] show ?thesis
      by (auto simp: undone_def worker_turn_def worker_turn_on_def handleE_def pause_or_stop_def act_eval split: if_splits)
  next
    case (Inr found)
    show ?thesis
    proof (cases found)
      case None
      with cl Inr assms(3) have "o1 = Inr Waiting" "t = t0"
        by (auto simp: worker_turn_def worker_turn_on_def handleE_def act_eval)
      with tx_claim_exact [OF assms(1) cl [unfolded Inr None]] claim_candidate_None [of "tx_now s" "tx_db s"]
      show ?thesis by (auto simp: claimable_def split: option.splits)
    next
      case (Some j)
      with cl Inr have claim: "transaction claim_next s = (Inr (Some j), t0)" by simp
      from claim_taken [OF assms(1) claim] obtain c where c: "taken s c j t0" by blast
      then have job: "job_type j = job_type c" "job_payload j = job_payload c" by (auto simp: taken_def)
      obtain r t1 where d: "dispatch reg (job_type c) (job_payload c) t0 = (r, t1)"
        by (cases "dispatch reg (job_type c) (job_payload c) t0")
      note held = jq.claimed_lookup [OF assms(1) claim]
      from dispatch_calm [OF assms(2) d] held have ok1: "jobs_ok (tx_db t1)"
        and j1: "find_job (job_id j) (tx_db t1) = Some j" by (auto simp: calm_def)
      obtain q t2 where rec: "record_outcome j r t1 = (q, t2)" by (cases "record_outcome j r t1")
      have fin: "handleE (record_outcome j r) (\<lambda>_. ret Worked) pause_or_stop t1 = (o1, t)"
        using assms(3) claim d job unfolding worker_turn_def worker_turn_on_def record_outcome_def
        by (cases r) (auto simp: handleE_def if_distrib [of transaction] split: if_splits)
      show ?thesis
      proof (cases q)
        case (Inl e)
        with rec record_outcome_err have "tx_db t2 = tx_db t1" by blast
        moreover from fin rec Inl have "t = t2" "o1 = (if is_transient e then Inr Paused else Inl e)"
          by (auto simp: handleE_def pause_or_stop_def act_eval split: if_splits)
        moreover have "undone reg s t2" unfolding undone_def using c d find_job_in [OF j1] calculation(1) by blast
        ultimately show ?thesis by (auto split: if_splits)
      next
        case (Inr row)
        from fin rec Inr have "o1 = Inr Worked" "t = t2" by (auto simp: handleE_def act_eval)
        moreover note record_outcome_exact [OF ok1 j1 rec [unfolded Inr]]
        ultimately have "o1 = Inr Worked" "\<exists>c j t0 r t1. taken s c j t0 \<and>
            dispatch reg (job_type c) (job_payload c) t0 = (r, t1) \<and> j \<in> set (tbl_jobs (tx_db t1)) \<and> tx_db t = (tx_db t1)
              \<lparr>tbl_jobs := map (\<lambda>x. if x = j then due_outcome (tx_now t1) j r else x) (tbl_jobs (tx_db t1))\<rparr>"
          using c d find_job_in [OF j1] by blast+
        then show ?thesis by simp
      qed
    qed
  qed
qed

section \<open>Draining the queue\<close>

text \<open>The loop, cut after \<open>n\<close> passes.\<close>

primrec run_turns :: "'z world_scheme registry \<Rightarrow> nat \<Rightarrow> ('z, turn list) wm" where
  "run_turns reg 0 = ret []"
| "run_turns reg (Suc n) =
    bindE (worker_turn reg) (\<lambda>x. bindE (run_turns reg n) (\<lambda>xs. ret (x # xs)))"

definition due_jobs :: "'z tx_scheme \<Rightarrow> nat" where
  "due_jobs s = count_where (claimable (tx_now s)) (tbl_jobs (tx_db s))"

text \<open>Handlers that enqueue nothing, meet no database failure and take no time.\<close>

definition handlers_local :: "'z world_scheme registry \<Rightarrow> bool" where
  "handlers_local reg \<longleftrightarrow> (\<forall>jt p s r t. tx_faults s = [] \<longrightarrow> dispatch reg jt p s = (r, t) \<longrightarrow>
     tbl_jobs (tx_db t) = tbl_jobs (tx_db s) \<and> job_seq (tx_db t) = job_seq (tx_db s) \<and>
     tx_faults t = [] \<and> tx_now t = tx_now s)"

lemma count_update_one:
  assumes "distinct (map k rows)" and "c \<in> set rows" and "\<forall>r \<in> set rows. q r \<longleftrightarrow> k r = k c"
    and "p c" and "\<not> p (f c)"
  shows "Suc (count_where p (update_where q f rows)) = count_where p rows"
  using assms(1-3)
proof (induction rows)
  case (Cons x xs)
  show ?case
  proof (cases "x = c")
    case True
    with Cons.prems have "\<forall>r \<in> set xs. \<not> q r" by (auto simp: image_iff)
    with True Cons.prems assms(4,5) show ?thesis
      by (simp add: count_where_def update_where_def update_where_id [unfolded update_where_def] cong: map_cong)
  next
    case False
    with Cons.prems have "k x \<noteq> k c" "c \<in> set xs" by (auto simp: image_iff)
    with Cons show ?thesis by (auto simp: count_where_def update_where_def)
  qed
qed simp

lemma count_update_same:
  assumes "\<forall>r \<in> set rows. q r \<longrightarrow> p (f r) = p r"
  shows "count_where p (update_where q f rows) = count_where p rows"
  using assms by (induction rows) (auto simp: count_where_def update_where_def)

lemma outcome_not_due: "\<not> claimable now (outcome_row now j r)"
proof -
  have "0 < backoff_secs a" for a by (simp add: backoff_secs_def)
  then have "now < now + seconds (backoff_secs a)" for a by (simp add: seconds_def)
  then show ?thesis
    by (auto simp: outcome_row_def claimable_def rescheduled_row_def not_le split: sum.splits if_splits)
qed

lemma transaction_claim_clear:
  assumes "tx_faults s = []" and "jobs_ok (tx_db s)"
  shows "transaction claim_next s = (case claim_candidate (tx_now s) (tx_db s) of
      None \<Rightarrow> (Inr None, s)
    | Some c \<Rightarrow> (Inr (Some (claimed_row (tx_now s) c)),
        s\<lparr>tx_db := tx_db s\<lparr>tbl_jobs := update_where (claim_guard c) (claimed_row (tx_now s)) (tbl_jobs (tx_db s))\<rparr>\<rparr>))"
  using claim_next_clear [OF assms] assms(1)
  by (cases "claim_candidate (tx_now s) (tx_db s)") (simp_all add: transaction_def bindE_def stmt_simps)

lemma record_outcome_table:
  assumes "tx_faults s = []" and "jobs_ok (tx_db s)" and "find_job (job_id j) (tx_db s) = Some j"
  shows "record_outcome j r s = (Inr (outcome_row (tx_now s) j r), s\<lparr>tx_db := tx_db s\<lparr>tbl_jobs :=
    update_where (same_version j) (\<lambda>x. if same_version j x then outcome_row (tx_now s) j r else x) (tbl_jobs (tx_db s))\<rparr>\<rparr>)"
proof -
  have j: "same_version j x \<Longrightarrow> x \<in> set (tbl_jobs (tx_db s)) \<Longrightarrow> x = j" for x
    using same_id_same_row [OF assms(2)] find_job_in [OF assms(3)] by (auto simp: same_version_def)
  then have tab: "update_where (same_version j) f (tbl_jobs (tx_db s))
      = update_where (same_version j) (\<lambda>x. if same_version j x then f j else x) (tbl_jobs (tx_db s))" for f
    by (auto simp: update_where_def)
  show ?thesis
  proof (cases r)
    case (Inr u)
    then show ?thesis
      using transaction_finish_clear [OF assms(1,2) _ assms(3), of completed_row]
      by (simp add: record_outcome_def outcome_row_def complete_job_def tab [of "completed_row (tx_now s)"] cong: if_cong)
  next
    case (Inl e)
    then show ?thesis
      using transaction_finish_clear [OF assms(1,2) _ assms(3), of "\<lambda>now. failed_row now (error_text e)"]
        transaction_finish_clear [OF assms(1,2) _ assms(3),
          of "\<lambda>now. rescheduled_row now (now + seconds (backoff_secs (job_attempt j))) (error_text e)"]
      by (auto simp: record_outcome_def outcome_row_def fail_job_def fail_terminal_def
          tab [of "failed_row (tx_now s) (error_text e)"]
          tab [of "rescheduled_row (tx_now s) (tx_now s + seconds (backoff_secs (job_attempt j))) (error_text e)"]
          cong: if_cong)
  qed
qed

lemma turn_works:
  fixes s :: "'z world_scheme"
  assumes s: "tx_faults s = []" and ok: "jobs_ok (tx_db s)" and h: "handlers_local reg"
    and c: "claim_candidate (tx_now s) (tx_db s) = Some c"
  shows "\<exists>t. worker_turn reg s = (Inr Worked, t) \<and> tx_faults t = [] \<and> jobs_ok (tx_db t) \<and>
    tx_now t = tx_now s \<and> Suc (due_jobs t) = due_jobs s"
proof -
  let ?now = "tx_now s" and ?j = "claimed_row (tx_now s) c"
  let ?d1 = "tx_db s\<lparr>tbl_jobs := update_where (claim_guard c) (claimed_row ?now) (tbl_jobs (tx_db s))\<rparr>"
  let ?s1 = "s\<lparr>tx_db := ?d1\<rparr>"
  have cl: "transaction claim_next s = (Inr (Some ?j), ?s1)"
    using transaction_claim_clear [OF s ok] c by simp
  from c have c_in: "c \<in> set (tbl_jobs (tx_db s))" and due: "claimable ?now c"
    using claim_candidate_Some by blast+
  have ok1: "jobs_ok ?d1" by (rule jobs_ok_update [OF ok]) (simp_all add: row_updates_ok)
  have j1: "find_job (job_id c) ?d1 = Some ?j"
    using claim_update(2) [OF ok c_in] due by (simp add: claimable_def)
  have "Suc (count_where (claimable ?now) (tbl_jobs ?d1)) = count_where (claimable ?now) (tbl_jobs (tx_db s))"
    using count_update_one [where k = job_id and q = "claim_guard c" and c = c and f = "claimed_row ?now"
        and p = "claimable ?now", OF jobs_ok_distinct [OF ok] c_in _ due]
      same_id_same_row [OF ok _ c_in] due
    by (fastforce simp: claim_guard_def claimable_def)
  then have n1: "Suc (due_jobs ?s1) = due_jobs s" by (simp add: due_jobs_def)
  obtain r s2 where d: "dispatch reg (job_type ?j) (job_payload ?j) ?s1 = (r, s2)"
    by (cases "dispatch reg (job_type ?j) (job_payload ?j) ?s1")
  have "tx_faults ?s1 = []" using s by simp
  from h [unfolded handlers_local_def, rule_format, OF this d]
  have s2: "tbl_jobs (tx_db s2) = tbl_jobs ?d1" "job_seq (tx_db s2) = job_seq ?d1"
      "tx_faults s2 = []" "tx_now s2 = ?now"
    by simp_all
  then have ok2: "jobs_ok (tx_db s2)" and j2: "find_job (job_id ?j) (tx_db s2) = Some ?j"
    using ok1 j1 by (simp_all add: jobs_ok_def find_job_def)
  note rec = record_outcome_table [OF s2(3) ok2 j2, of r]
  obtain t where t: "record_outcome ?j r s2 = (Inr (outcome_row ?now ?j r), t)" and
      tt: "t = s2\<lparr>tx_db := tx_db s2\<lparr>tbl_jobs := update_where (same_version ?j)
        (\<lambda>x. if same_version ?j x then outcome_row ?now ?j r else x) (tbl_jobs (tx_db s2))\<rparr>\<rparr>"
    using rec [unfolded s2(4)] by blast
  have "worker_turn reg s = (Inr Worked, t)"
    using cl d t unfolding worker_turn_def worker_turn_on_def record_outcome_def
    by (cases r) (auto simp: handleE_def act_eval split: if_splits)
  moreover have "jobs_ok (tx_db t)" using keeps_eqD [OF keeps_record_outcome ok2 t] .
  moreover have "count_where (claimable ?now) (tbl_jobs (tx_db t)) = count_where (claimable ?now) (tbl_jobs (tx_db s2))"
  proof -
    have "\<forall>x \<in> set (tbl_jobs (tx_db s2)). same_version ?j x \<longrightarrow> \<not> claimable ?now x"
      using same_id_same_row [OF ok2] find_job_in [OF j2] by (fastforce simp: same_version_def claimable_def)
    then show ?thesis
      unfolding tt by (simp add: count_update_same outcome_not_due)
  qed
  then have "due_jobs t = due_jobs ?s1" using s2 tt by (simp add: due_jobs_def)
  ultimately show ?thesis using s2 tt n1 by auto
qed

lemma turn_waits:
  assumes "tx_faults s = []" and "jobs_ok (tx_db s)" and "claim_candidate (tx_now s) (tx_db s) = None"
  shows "worker_turn reg s = (Inr Waiting, s)"
  using transaction_claim_clear [OF assms(1,2)] assms(3)
  by (simp add: worker_turn_def worker_turn_on_def handleE_def act_eval)

lemma due_jobs_zero: "due_jobs s = 0 \<longleftrightarrow> claim_candidate (tx_now s) (tx_db s) = None"
  by (simp add: due_jobs_def count_where_zero claim_candidate_None)

text \<open>
  C11. With a working database a worker empties the queue: after exactly as many passes as
  there are due jobs, each recording one of them whatever its handler returned (a retry is
  scheduled later), no job is due and the next pass waits.
\<close>

theorem worker_drains_queue:
  assumes "tx_faults s = []" and "jobs_ok (tx_db s)" and "handlers_local reg"
  shows "\<exists>t. run_turns reg (Suc (due_jobs s)) s = (Inr (replicate (due_jobs s) Worked @ [Waiting]), t) \<and>
    due_jobs t = 0"
  using assms(1,2)
proof (induction "due_jobs s" arbitrary: s)
  case 0
  then have "claim_candidate (tx_now s) (tx_db s) = None" using due_jobs_zero by metis
  from turn_waits [OF 0(2,3) this] 0(1) show ?case by (simp add: bindE_def act_eval)
next
  case (Suc n)
  then obtain c where "claim_candidate (tx_now s) (tx_db s) = Some c"
    using due_jobs_zero [of s] by (cases "claim_candidate (tx_now s) (tx_db s)") auto
  from turn_works [OF Suc(3,4) assms(3) this] obtain t1 where t1: "worker_turn reg s = (Inr Worked, t1)"
      "tx_faults t1 = []" "jobs_ok (tx_db t1)" "Suc (due_jobs t1) = due_jobs s" by blast
  with Suc(2) have n: "n = due_jobs t1" by simp
  from Suc(1) [OF n t1(2,3)] n obtain t where
    "run_turns reg (Suc n) t1 = (Inr (replicate n Worked @ [Waiting]), t)" "due_jobs t = 0" by auto
  with t1(1) Suc(2) [symmetric] show ?case by (simp add: bindE_def act_eval del: run_turns.simps(2))
      (simp add: bindE_def act_eval)
qed

lemma sample_handlers_local: "handlers_local sample_registry"
  unfolding handlers_local_def using sample_dispatch_same by (metis snd_conv)

theorem worker_drains_queue_witness:
  "\<exists>t. run_turns sample_registry 3 sample_world = (Inr [Worked, Worked, Waiting], t)"
proof -
  have "due_jobs sample_world = 2"
    by (simp add: due_jobs_def sample_eval)
  moreover have "tx_faults sample_world = []" by simp
  ultimately show ?thesis
    using worker_drains_queue [OF _ sample_world_ok sample_handlers_local] by (auto simp: numeral_eq_Suc)
qed

theorem worker_turn_outcomes_witness:
  "\<exists>t c j t0 r t1. worker_turn sample_registry sample_world = (Inr Worked, t) \<and>
     taken sample_world c j t0 \<and> dispatch sample_registry (job_type c) (job_payload c) t0 = (r, t1) \<and>
     due_outcome (tx_now t1) j r \<in> set (tbl_jobs (tx_db t))"
proof -
  have "tx_faults sample_world = []"
    and "claim_candidate (tx_now sample_world) (tx_db sample_world) = Some (sample_row 1 20 Pending)"
    using sample_candidate by simp_all
  from turn_works [OF this(1) sample_world_ok sample_handlers_local this(2)]
  obtain t where t: "worker_turn sample_registry sample_world = (Inr Worked, t)" by blast
  from worker_turn_outcomes [OF sample_world_ok sample_registry_ok t] obtain c j t0 r t1 where
    "taken sample_world c j t0" "dispatch sample_registry (job_type c) (job_payload c) t0 = (r, t1)"
    "j \<in> set (tbl_jobs (tx_db t1))" "tx_db t = (tx_db t1)
      \<lparr>tbl_jobs := map (\<lambda>x. if x = j then due_outcome (tx_now t1) j r else x) (tbl_jobs (tx_db t1))\<rparr>"
    by auto
  with t show ?thesis by (intro exI [of _ t] exI [of _ c] exI [of _ j] exI [of _ t0] exI [of _ r] exI [of _ t1]) auto
qed

end
