(* ===== verification/ContentHash.thy ===== *)
theory ContentHash
  imports Schema
begin

text \<open>
  Content hashes (\<open>crates/core/src/types/content_hash.rs\<close>): the hexadecimal form of a
  digest, its parser with every error, and the shard directories. \<open>u8::from_str_radix\<close> and
  \<open>str::from_utf8\<close> on a byte pair are written out as the standard library defines them.
\<close>

section \<open>Rendering\<close>

definition hex_digit :: "nat \<Rightarrow> char" where
  "hex_digit n = (if n < 10 then char_of (48 + n) else char_of (87 + n))"

text \<open>\<open>{b:02x}\<close>\<close>

definition byte_hex :: "u8 \<Rightarrow> string" where
  "byte_hex b = [hex_digit (unat b div 16), hex_digit (unat b mod 16)]"

definition as_hex :: "ContentHash \<Rightarrow> string" where
  "as_hex h = concat (map byte_hex h)"

definition shard_dirs :: "ContentHash \<Rightarrow> string \<times> string" where
  "shard_dirs h = (byte_hex (h ! 0), byte_hex (h ! 1))"

section \<open>Parsing\<close>

definition hex_value :: "char \<Rightarrow> nat option" where
  "hex_value c =
    (let n = of_char c :: nat in
     if 48 \<le> n \<and> n \<le> 57 then Some (n - 48)
     else if 97 \<le> n \<and> n \<le> 102 then Some (n - 87)
     else if 65 \<le> n \<and> n \<le> 70 then Some (n - 55)
     else None)"

text \<open>
  \<open>u8::from_str_radix(_, 16)\<close> on two bytes: a leading plus is a sign, so one digit follows;
  anything else needs two digits. No two digits overflow a byte.
\<close>

definition parse_int_error :: string where
  "parse_int_error = ''invalid digit found in string''"

definition from_str_radix_16 :: "char \<Rightarrow> char \<Rightarrow> string + u8" where
  "from_str_radix_16 a b =
    (if a = CHR ''+'' then
       (case hex_value b of None \<Rightarrow> Inl parse_int_error | Some v \<Rightarrow> Inr (of_nat v))
     else
       (case (hex_value a, hex_value b) of
          (Some x, Some y) \<Rightarrow> Inr (of_nat (16 * x + y))
        | _ \<Rightarrow> Inl parse_int_error))"

text \<open>\<open>str::from_utf8\<close> on two bytes: the error message, or \<open>None\<close> when they are valid.\<close>

definition utf8_second_ok :: "nat \<Rightarrow> nat \<Rightarrow> bool" where
  "utf8_second_ok a b \<longleftrightarrow>
    (if a = 224 then 160 \<le> b \<and> b \<le> 191
     else if a = 237 then 128 \<le> b \<and> b \<le> 159
     else if a = 240 then 144 \<le> b \<and> b \<le> 191
     else if a = 244 then 128 \<le> b \<and> b \<le> 143
     else 128 \<le> b \<and> b \<le> 191)"

definition utf8_pair_error :: "char \<Rightarrow> char \<Rightarrow> string option" where
  "utf8_pair_error c d =
    (let a = of_char c :: nat; b = of_char d :: nat;
         invalid = (\<lambda>i. Some (''invalid utf-8 sequence of 1 bytes from index '' @ i));
         incomplete = (\<lambda>i. Some (''incomplete utf-8 byte sequence from index '' @ i))
     in if a < 128 then
          (if b < 128 then None
           else if 194 \<le> b \<and> b \<le> 244 then incomplete ''1'' else invalid ''1'')
        else if 194 \<le> a \<and> a \<le> 223 then (if utf8_second_ok a b then None else invalid ''0'')
        else if 224 \<le> a \<and> a \<le> 244 then (if utf8_second_ok a b then incomplete ''0'' else invalid ''0'')
        else invalid ''0'')"

fun from_hex_pairs :: "string \<Rightarrow> Error + ContentHash" where
  "from_hex_pairs (a # b # s) =
    (case utf8_pair_error a b of
       Some m \<Rightarrow> Inl (Validation m)
     | None \<Rightarrow>
        (case from_str_radix_16 a b of
           Inl m \<Rightarrow> Inl (Validation m)
         | Inr x \<Rightarrow> (case from_hex_pairs s of Inl e \<Rightarrow> Inl e | Inr h \<Rightarrow> Inr (x # h))))"
| "from_hex_pairs _ = Inr []"

definition from_hex :: "string \<Rightarrow> Error + ContentHash" where
  "from_hex s =
    (if length s \<noteq> 64 then Inl (Validation (''ContentHash hex must be 64 chars, got '' @ show_nat (length s)))
     else from_hex_pairs s)"

section \<open>Round trip\<close>

lemma hex_value_digit: "n < 16 \<Longrightarrow> hex_value (hex_digit n) = Some n"
  by (auto simp: hex_value_def hex_digit_def Let_def)

lemma hex_digit_ascii: "n < 16 \<Longrightarrow> of_char (hex_digit n) < (128 :: nat)"
  by (auto simp: hex_digit_def)

lemma hex_digit_not_plus: "n < 16 \<Longrightarrow> hex_digit n \<noteq> CHR ''+''"
proof
  assume "n < 16" and "hex_digit n = CHR ''+''"
  then have "hex_value (CHR ''+'') = Some n" using hex_value_digit [of n] by simp
  then show False by (simp add: hex_value_def Let_def split: if_splits)
qed

lemma byte_parts: "unat b div 16 < 16" "unat b mod 16 < 16" for b :: u8
proof -
  have "unat b < 256" using unsigned_less [of b, where ?'a = nat] by simp
  then show "unat b div 16 < 16" by simp
qed simp

lemma byte_hex_parses: "from_str_radix_16 (hex_digit (unat b div 16)) (hex_digit (unat b mod 16)) = Inr b" for b :: u8
  by (simp add: from_str_radix_16_def hex_value_digit hex_digit_not_plus byte_parts)

lemma byte_hex_utf8: "utf8_pair_error (hex_digit (unat b div 16)) (hex_digit (unat b mod 16)) = None" for b :: u8
  by (simp add: utf8_pair_error_def Let_def hex_digit_ascii byte_parts)

lemma from_hex_pairs_as_hex: "from_hex_pairs (as_hex h) = Inr h"
  by (induction h) (simp_all add: as_hex_def byte_hex_def byte_hex_parses byte_hex_utf8)

lemma length_as_hex [simp]: "length (as_hex h) = 2 * length h"
  by (induction h) (simp_all add: as_hex_def byte_hex_def)

lemma as_hex_inj: "as_hex g = as_hex h \<longleftrightarrow> g = h"
  by (metis from_hex_pairs_as_hex sum.inject(2))

text \<open>
  The textual form of a content hash (the form stored in the database and in job
  payloads, and the name of a blob's file) reads back as the same hash, has 64 characters,
  and is different for different hashes.
\<close>

theorem content_hash_roundtrip:
  assumes "length h = 32"
  shows "from_hex (as_hex h) = Inr h \<and> length (as_hex h) = 64 \<and> (\<forall>g. as_hex g = as_hex h \<longleftrightarrow> g = h)"
  using assms by (simp add: from_hex_def from_hex_pairs_as_hex as_hex_inj)

theorem content_hash_roundtrip_witness: "from_hex (as_hex (replicate 32 0)) = Inr (replicate 32 0)"
  using content_hash_roundtrip [of "replicate 32 0"] by simp

text \<open>The parser accepts more than the renderer writes: a sign and upper-case digits.\<close>

lemma from_hex_pairs_replicate:
  assumes "utf8_pair_error a b = None" and "from_str_radix_16 a b = Inr x"
  shows "from_hex_pairs (concat (replicate n [a, b])) = Inr (replicate n x)"
  using assms by (induction n) simp_all

lemma from_hex_accepts_sign:
  "from_hex (concat (replicate 32 ''+f'')) = Inr (replicate 32 15)"
  "from_hex (concat (replicate 32 ''AF'')) = Inr (replicate 32 175)"
  by (simp_all add: from_hex_def from_hex_pairs_replicate length_concat sum_list_replicate
      utf8_pair_error_def from_str_radix_16_def hex_value_def)

end
