(* ===== verification/Crypto.thy ===== *)
theory Crypto
  imports JobService ContentHash
begin

text \<open>
  The cipher service (\<open>crates/core/src/crypto\<close>): the layout of a ciphertext, encryption
  with a fresh nonce under the account as associated data, decryption with its one error.
  SHA-256, HKDF and ChaCha20-Poly1305 are external crates and are parameters, the record
  \<open>crypto\<close>; what the code relies on is \<open>crypto_ok\<close>.
\<close>

section \<open>The primitives\<close>

record crypto =
  sha256 :: "bytes \<Rightarrow> bytes"
  hkdf_expand :: "string \<Rightarrow> string \<Rightarrow> bytes"
  aead_seal :: "bytes \<Rightarrow> bytes \<Rightarrow> bytes \<Rightarrow> bytes \<Rightarrow> bytes"
  aead_open :: "bytes \<Rightarrow> bytes \<Rightarrow> bytes \<Rightarrow> bytes \<Rightarrow> bytes option"

text \<open>Documented behaviour: a digest has 32 bytes, and opening undoes sealing.\<close>

definition crypto_ok :: "crypto \<Rightarrow> bool" where
  "crypto_ok cr \<longleftrightarrow> (\<forall>x. length (sha256 cr x) = 32) \<and>
     (\<forall>k n a p. aead_open cr k n a (aead_seal cr k n a p) = Some p)"

text \<open>Authenticity: what was sealed under one associated data does not open under another.\<close>

definition aead_binds :: "crypto \<Rightarrow> bool" where
  "aead_binds cr \<longleftrightarrow> (\<forall>k n a b p. a \<noteq> b \<longrightarrow> aead_open cr k n b (aead_seal cr k n a p) = None)"

definition compute_hash :: "crypto \<Rightarrow> bytes \<Rightarrow> ContentHash" where
  "compute_hash cr p = sha256 cr p"

section \<open>Ciphertexts\<close>

definition from_parts :: "bytes \<Rightarrow> bytes \<Rightarrow> bytes" where
  "from_parts nonce ct_and_tag = nonce @ ct_and_tag"

definition ciphertext_nonce :: "bytes \<Rightarrow> bytes option" where
  "ciphertext_nonce c = (if length c < 12 then None else Some (take 12 c))"

definition ciphertext_and_tag :: "bytes \<Rightarrow> bytes" where
  "ciphertext_and_tag c = (if length c < 12 then [] else drop 12 c)"

section \<open>The service\<close>

definition HKDF_INFO :: string where
  "HKDF_INFO = ''mailkeep:master:v1''"

definition derive_key :: "crypto \<Rightarrow> string \<Rightarrow> bytes" where
  "derive_key cr secret = hkdf_expand cr secret HKDF_INFO"

text \<open>\<open>to_be_bytes\<close>\<close>

definition be_bytes :: "u64 \<Rightarrow> bytes" where
  "be_bytes a = map (\<lambda>i. ucast (drop_bit (8 * i) a)) [7, 6, 5, 4, 3, 2, 1, 0]"

definition generate_nonce :: "('z, bytes) wm" where
  "generate_nonce s = (Inr (w_nonces s (w_nonce_pos s)), s\<lparr>w_nonce_pos := Suc (w_nonce_pos s)\<rparr>)"

definition encrypt :: "crypto \<Rightarrow> bytes \<Rightarrow> AccountId \<Rightarrow> bytes \<Rightarrow> ('z, bytes) wm" where
  "encrypt cr key account plaintext =
    bindE generate_nonce (\<lambda>nonce.
      ret (from_parts nonce (aead_seal cr key nonce (be_bytes account) plaintext)))"

definition decrypt :: "crypto \<Rightarrow> bytes \<Rightarrow> AccountId \<Rightarrow> bytes \<Rightarrow> Error + bytes" where
  "decrypt cr key account ct =
    (case ciphertext_nonce ct of
       None \<Rightarrow> Inl DecryptionFailed
     | Some nonce \<Rightarrow>
        (case aead_open cr key nonce (be_bytes account) (ciphertext_and_tag ct) of
           None \<Rightarrow> Inl DecryptionFailed
         | Some p \<Rightarrow> Inr p))"

section \<open>Round trip and binding\<close>

definition nonces_ok :: "'z world_scheme \<Rightarrow> bool" where
  "nonces_ok s \<longleftrightarrow> (\<forall>n. length (w_nonces s n) = 12)"

lemma encrypt_Inr:
  assumes "encrypt cr key a p s = (Inr c, t)"
  shows "c = from_parts (w_nonces s (w_nonce_pos s)) (aead_seal cr key (w_nonces s (w_nonce_pos s)) (be_bytes a) p)"
    and "t = s\<lparr>w_nonce_pos := Suc (w_nonce_pos s)\<rparr>"
  using assms by (auto simp: encrypt_def generate_nonce_def bindE_def act_eval)

lemma encrypt_not_Inl: "encrypt cr key a p s \<noteq> (Inl e, t)"
  by (simp add: encrypt_def generate_nonce_def bindE_def act_eval)

lemma decrypt_from_parts:
  assumes "crypto_ok cr" and "length n = 12"
  shows "decrypt cr key a (from_parts n (aead_seal cr key n (be_bytes a) p)) = Inr p"
  using assms by (simp add: decrypt_def ciphertext_nonce_def ciphertext_and_tag_def from_parts_def crypto_ok_def)

lemma decrypt_encrypt:
  assumes "crypto_ok cr" and "nonces_ok s" and "encrypt cr key a p s = (Inr c, t)"
  shows "decrypt cr key a c = Inr p"
  using decrypt_from_parts [OF assms(1)] assms(2) encrypt_Inr [OF assms(3)] by (simp add: nonces_ok_def)

lemma be_bytes_inj: "be_bytes a = be_bytes b \<longleftrightarrow> a = b"
proof
  assume "be_bytes a = be_bytes b"
  then have eq: "\<forall>i \<in> {0..7}. (ucast (drop_bit (8 * i) a) :: u8) = ucast (drop_bit (8 * i) b)"
    by (simp add: be_bytes_def atLeastAtMost_insertL [symmetric] numeral_eq_Suc)
  show "a = b"
  proof (rule bit_word_eqI)
    fix n assume "n < LENGTH(64)"
    then have i: "n div 8 \<in> {0..7}" and n: "n = 8 * (n div 8) + n mod 8" by auto
    have "bit (ucast (drop_bit (8 * (n div 8)) a) :: u8) (n mod 8)
        = bit (ucast (drop_bit (8 * (n div 8)) b) :: u8) (n mod 8)"
      using eq i by simp
    then show "bit a n = bit b n"
      using n by (simp add: bit_ucast_iff bit_drop_bit_eq)
  qed
qed simp

text \<open>
  C25. Encryption at rest: what the service encrypts for an account it decrypts for that
  account, and, when the cipher authenticates its associated data, for no other account: the
  only answer then is \<open>DecryptionFailed\<close>. A stored byte string too short to hold a nonce
  is refused the same way.
\<close>

theorem decrypt_encrypt_bound_to_account:
  assumes "crypto_ok cr" and "nonces_ok s" and "aead_binds cr"
  shows "\<exists>c t. encrypt cr key a p s = (Inr c, t) \<and> decrypt cr key a c = Inr p \<and>
    (\<forall>b. b \<noteq> a \<longrightarrow> decrypt cr key b c = Inl DecryptionFailed) \<and>
    (\<forall>c'. length c' < 12 \<longrightarrow> decrypt cr key a c' = Inl DecryptionFailed)"
proof -
  obtain c t where run: "encrypt cr key a p s = (Inr c, t)"
    by (simp add: encrypt_def generate_nonce_def bindE_def act_eval)
  have "decrypt cr key b c = Inl DecryptionFailed" if "b \<noteq> a" for b
  proof -
    have "be_bytes a \<noteq> be_bytes b" using that by (simp add: be_bytes_inj)
    with assms encrypt_Inr(1) [OF run] show ?thesis
      by (simp add: decrypt_def ciphertext_nonce_def ciphertext_and_tag_def from_parts_def
          nonces_ok_def aead_binds_def)
  qed
  moreover have "decrypt cr key a c' = Inl DecryptionFailed" if "length c' < 12" for c'
    using that by (simp add: decrypt_def ciphertext_nonce_def)
  ultimately show ?thesis using run decrypt_encrypt [OF assms(1,2) run] by blast
qed

text \<open>
  Toy primitives for the witnesses: sealing prefixes the associated data with its length in
  unary.
\<close>

definition toy_seal :: "bytes \<Rightarrow> bytes \<Rightarrow> bytes" where
  "toy_seal a p = replicate (length a) 1 @ 0 # a @ p"

definition toy_open :: "bytes \<Rightarrow> bytes \<Rightarrow> bytes option" where
  "toy_open a c = (let n = length (takeWhile ((=) 1) c) in
     if n = length a \<and> take n (drop (Suc n) c) = a then Some (drop (Suc n + n) c) else None)"

definition toy_crypto :: crypto where
  "toy_crypto = \<lparr>sha256 = (\<lambda>x. take 32 (x @ replicate 32 0)), hkdf_expand = (\<lambda>_ _. replicate 32 7),
     aead_seal = (\<lambda>k n a p. toy_seal a p), aead_open = (\<lambda>k n a c. toy_open a c)\<rparr>"

lemma toy_header: "length (takeWhile ((=) 1) (toy_seal a p)) = length a"
proof -
  have "takeWhile ((=) 1) (replicate n 1 @ 0 # a @ p) = replicate n (1 :: u8)" for n
    by (induction n) simp_all
  then show ?thesis by (simp add: toy_seal_def)
qed

lemma toy_open_seal: "toy_open b (toy_seal a p) = (if a = b then Some p else None)"
  unfolding toy_open_def toy_header Let_def by (auto simp: toy_seal_def)

lemma toy_crypto_ok: "crypto_ok toy_crypto" and toy_crypto_binds: "aead_binds toy_crypto"
  by (auto simp: crypto_ok_def aead_binds_def toy_crypto_def toy_open_seal)

lemma sample_nonces_ok: "nonces_ok sample_world"
  by (simp add: nonces_ok_def sample_world_def tx.extend_def)

theorem decrypt_encrypt_bound_to_account_witness:
  "\<exists>c t. encrypt toy_crypto [] 1 [5, 6] sample_world = (Inr c, t) \<and>
     decrypt toy_crypto [] 1 c = Inr [5, 6] \<and> decrypt toy_crypto [] 2 c = Inl DecryptionFailed"
  using decrypt_encrypt_bound_to_account [OF toy_crypto_ok sample_nonces_ok toy_crypto_binds, of "[]" 1 "[5, 6]"]
  by fastforce

end
