(* ===== verification/BlobStore.thy ===== *)
theory BlobStore
  imports Crypto
begin

text \<open>
  The encrypted blob stores (\<open>crates/storage/src\<close>: \<open>path.rs\<close>, \<open>atomic.rs\<close>,
  \<open>raw.rs\<close>, \<open>attachment.rs\<close>): the path of a blob, the durable write protocol step by
  step, and the four operations. The raw and the attachment store have the same code over
  different roots. Directories are not modelled; a path is the list of its components.
\<close>

section \<open>Paths\<close>

definition account_root :: "path \<Rightarrow> AccountId \<Rightarrow> path" where
  "account_root root a = root @ [show_nat (unat a)]"

definition blob_path :: "path \<Rightarrow> AccountId \<Rightarrow> ContentHash \<Rightarrow> path" where
  "blob_path root a h =
    (case shard_dirs h of (ab, cd) \<Rightarrow> root @ [show_nat (unat a), ab, cd, as_hex h @ ''.bin''])"

section \<open>File-system calls\<close>

definition io_step :: "(io_fault \<Rightarrow> 'z world_scheme \<Rightarrow> 'z world_scheme) \<Rightarrow>
  ('z world_scheme \<Rightarrow> 'z world_scheme) \<Rightarrow> ('z, unit) wm"
where
  "io_step failing ok s =
    (case w_io s of
       [] \<Rightarrow> (Inr (), ok s)
     | None # fs \<Rightarrow> (Inr (), ok (s\<lparr>w_io := fs\<rparr>))
     | Some f # fs \<Rightarrow> (Inl (Infrastructure (iof_text f)), failing f (s\<lparr>w_io := fs\<rparr>)))"

text \<open>A call that changes no file: \<open>create_dir_all\<close>, \<open>sync_all\<close>, \<open>open\<close>, \<open>try_exists\<close>.\<close>

definition io_call :: "('z, unit) wm" where
  "io_call = io_step (\<lambda>_ s. s) (\<lambda>s. s)"

definition set_file :: "path \<Rightarrow> bytes option \<Rightarrow> 'z world_scheme \<Rightarrow> 'z world_scheme" where
  "set_file p c s = s\<lparr>w_files := (w_files s)(p := c)\<rparr>"

definition file_create :: "path \<Rightarrow> ('z, unit) wm" where
  "file_create p = io_step (\<lambda>_ s. s) (set_file p (Some []))"

definition write_all :: "path \<Rightarrow> bytes \<Rightarrow> ('z, unit) wm" where
  "write_all p c = io_step (\<lambda>f. set_file p (Some (take (iof_written f) c))) (set_file p (Some c))"

definition rename_file :: "path \<Rightarrow> path \<Rightarrow> ('z, unit) wm" where
  "rename_file old new = io_step (\<lambda>_ s. s) (\<lambda>s. set_file old None (set_file new (w_files s old) s))"

section \<open>The durable write\<close>

definition tmp_path :: "path \<Rightarrow> path" where
  "tmp_path p = butlast p @ [''.'' @ last p @ ''.tmp'']"

definition atomic_write_all :: "path \<Rightarrow> bytes \<Rightarrow> ('z, unit) wm" where
  "atomic_write_all p c =
    (if p = [] then throw (Infrastructure ''path has no parent: '') else
     bindE io_call (\<lambda>_.
     bindE (file_create (tmp_path p)) (\<lambda>_.
     bindE (write_all (tmp_path p) c) (\<lambda>_.
     bindE io_call (\<lambda>_.
     bindE (rename_file (tmp_path p) p) (\<lambda>_.
     bindE io_call (\<lambda>_.
     io_call)))))))"

section \<open>The stores\<close>

record storage =
  st_crypto :: crypto
  st_key :: bytes
  st_root :: path

definition try_exists :: "path \<Rightarrow> ('z, bool) wm" where
  "try_exists p = bindE io_call (\<lambda>_. getsE (\<lambda>s. w_files s p \<noteq> None))"

definition put_if_absent :: "storage \<Rightarrow> AccountId \<Rightarrow> bytes \<Rightarrow> ('z, ContentHash) wm" where
  "put_if_absent st a plaintext =
    (let hash = compute_hash (st_crypto st) plaintext; p = blob_path (st_root st) a hash in
     bindE (try_exists p) (\<lambda>there.
       if there then ret hash
       else
         bindE (encrypt (st_crypto st) (st_key st) a plaintext) (\<lambda>ct.
         bindE (atomic_write_all p ct) (\<lambda>_.
         ret hash))))"

definition blob_get :: "storage \<Rightarrow> AccountId \<Rightarrow> ContentHash \<Rightarrow> ('z, bytes) wm" where
  "blob_get st a key =
    bindE io_call (\<lambda>_.
    bindE (getsE (\<lambda>s. w_files s (blob_path (st_root st) a key))) (\<lambda>file.
      case file of
        None \<Rightarrow> throw (BlobNotFound a (as_hex key))
      | Some c \<Rightarrow>
          (case decrypt (st_crypto st) (st_key st) a c of
             Inl e \<Rightarrow> throw e
           | Inr p \<Rightarrow> ret p)))"

definition blob_exists :: "storage \<Rightarrow> AccountId \<Rightarrow> ContentHash \<Rightarrow> ('z, bool) wm" where
  "blob_exists st a key = try_exists (blob_path (st_root st) a key)"

definition under :: "path \<Rightarrow> path \<Rightarrow> bool" where
  "under dir p \<longleftrightarrow> take (length dir) p = dir"

text \<open>Removing a tree; a failure part-way has removed some of it. A missing tree is fine.\<close>

definition delete_account_blobs :: "storage \<Rightarrow> AccountId \<Rightarrow> ('z, unit) wm" where
  "delete_account_blobs st a =
    (let dir = account_root (st_root st) a in
     io_step (\<lambda>f s. s\<lparr>w_files := (\<lambda>p. if under dir p \<and> iof_removed f p then None else w_files s p)\<rparr>)
       (\<lambda>s. s\<lparr>w_files := (\<lambda>p. if under dir p then None else w_files s p)\<rparr>))"

section \<open>Paths are unambiguous\<close>

definition digits_value :: "string \<Rightarrow> nat" where
  "digits_value s = foldl (\<lambda>v c. 10 * v + (of_char c - 48)) 0 s"

lemma digits_value_show_nat: "digits_value (show_nat n) = n"
proof (induction n rule: show_nat.induct)
  case (1 n)
  show ?case
  proof (cases "n < 10")
    case True
    then show ?thesis by (subst show_nat.simps) (simp add: digits_value_def)
  next
    case False
    with 1 have "digits_value (show_nat (n div 10)) = n div 10" by simp
    with False show ?thesis by (subst show_nat.simps) (simp add: digits_value_def)
  qed
qed

lemma show_nat_inj: "show_nat m = show_nat n \<longleftrightarrow> m = n"
  by (metis digits_value_show_nat)

lemma blob_path_inj: "blob_path root a h = blob_path root b k \<longleftrightarrow> a = b \<and> h = k"
  by (auto simp: blob_path_def shard_dirs_def show_nat_inj as_hex_inj unsigned_word_eqI split: prod.splits
      dest: unsigned_word_eqI)

lemma blob_path_last: "last (blob_path root a h) = as_hex h @ ''.bin''" "blob_path root a h \<noteq> []"
  by (simp_all add: blob_path_def split: prod.splits)

lemma tmp_not_blob: "tmp_path q \<noteq> blob_path root b k"
proof
  assume eq: "tmp_path q = blob_path root b k"
  have "last (last (tmp_path q)) = CHR ''p''" by (simp add: tmp_path_def)
  moreover have "last (last (blob_path root b k)) = CHR ''n''" by (simp add: blob_path_last)
  ultimately show False using eq by simp
qed

lemma blob_not_tmp: "blob_path root b k \<noteq> tmp_path q"
  using tmp_not_blob by metis

lemma under_blob: "under root (blob_path root a h)" "under root (tmp_path (blob_path root a h))"
  by (simp_all add: under_def tmp_path_def blob_path_def butlast_append split: prod.splits)

lemma under_account: "under (account_root root a) (blob_path root b h) \<longleftrightarrow> a = b"
  by (auto simp: under_def account_root_def blob_path_def show_nat_inj split: prod.splits dest: unsigned_word_eqI)

section \<open>Running file-system calls\<close>

definition next_fault :: "'z world_scheme \<Rightarrow> io_fault option" where
  "next_fault s = (case w_io s of [] \<Rightarrow> None | f # _ \<Rightarrow> f)"

definition pop_io :: "'z world_scheme \<Rightarrow> 'z world_scheme" where
  "pop_io s = s\<lparr>w_io := tl (w_io s)\<rparr>"

lemma io_step_eq: "io_step failing ok s = (case next_fault s of
    None \<Rightarrow> (Inr (), ok (pop_io s))
  | Some f \<Rightarrow> (Inl (Infrastructure (iof_text f)), failing f (pop_io s)))"
proof -
  have "w_io s = [] \<Longrightarrow> pop_io s = s"
    unfolding pop_io_def by (rule world.equality) simp_all
  moreover have "w_io s = x # fs \<Longrightarrow> pop_io s = s\<lparr>w_io := fs\<rparr>" for x fs
    by (simp add: pop_io_def)
  ultimately show ?thesis
    by (cases "w_io s") (simp_all add: io_step_def next_fault_def split: option.splits)
qed

lemma pop_io_fields [simp]:
  "w_files (pop_io s) = w_files s" "tx_db (pop_io s) = tx_db s" "w_nonces (pop_io s) = w_nonces s"
  "w_nonce_pos (pop_io s) = w_nonce_pos s" "w_wakes (pop_io s) = w_wakes s"
  "tx.truncate (pop_io s) = tx.truncate s"
  by (simp_all add: pop_io_def tx.truncate_def)

lemma set_file_fields [simp]:
  "w_files (set_file p c s) = (w_files s)(p := c)" "tx_db (set_file p c s) = tx_db s"
  "w_nonces (set_file p c s) = w_nonces s" "w_nonce_pos (set_file p c s) = w_nonce_pos s"
  "w_wakes (set_file p c s) = w_wakes s" "tx.truncate (set_file p c s) = tx.truncate s"
  by (simp_all add: set_file_def tx.truncate_def)

lemma off_db_io_step [off_db_intros]:
  assumes "\<And>f s. tx.truncate (failing f s) = tx.truncate s" and "\<And>s. tx.truncate (ok s) = tx.truncate s"
  shows "off_db (io_step failing ok)"
  unfolding off_db_def frame_def using assms by (simp add: io_step_eq split: option.splits)

lemma off_db_io [off_db_intros]:
  "off_db io_call" "off_db (file_create p)" "off_db (write_all p c)" "off_db (rename_file p q)"
  unfolding io_call_def file_create_def write_all_def rename_file_def
  by (rule off_db_io_step; simp)+

lemma off_db_blob_ops [off_db_intros]:
  "off_db (atomic_write_all p c)" "off_db (try_exists p)" "off_db (put_if_absent st a pt)"
  "off_db (blob_get st a h)" "off_db (blob_exists st a h)" "off_db (delete_account_blobs st a)"
proof -
  have e: "off_db (encrypt cr key a pt)" for cr key a pt
    unfolding encrypt_def
    by (intro off_db_intros) (simp add: off_db_def frame_def generate_nonce_def tx.truncate_def)
  show "off_db (atomic_write_all p c)" unfolding atomic_write_all_def by (intro off_db_intros)
  then have w: "off_db (atomic_write_all p c)" for p c
    unfolding atomic_write_all_def by (intro off_db_intros)
  show t: "off_db (try_exists p)" unfolding try_exists_def by (intro off_db_intros)
  show "off_db (put_if_absent st a pt)" unfolding put_if_absent_def Let_def try_exists_def
    by (intro off_db_intros e w)
  show "off_db (blob_get st a h)" unfolding blob_get_def
    by (intro off_db_intros) (auto intro: off_db_intros split: sum.splits)
  show "off_db (blob_exists st a h)" unfolding blob_exists_def try_exists_def by (intro off_db_intros)
  show "off_db (delete_account_blobs st a)" unfolding delete_account_blobs_def Let_def
    by (rule off_db_io_step) (simp_all add: tx.truncate_def)
qed

lemmas io_defs = io_call_def file_create_def write_all_def rename_file_def io_step_eq

text \<open>Operations on the file system alone keep the nonces.\<close>

lemma tmp_path_neq: "p \<noteq> [] \<Longrightarrow> tmp_path p \<noteq> p"
proof
  assume "p \<noteq> []" and "tmp_path p = p"
  then have "last (tmp_path p) = last p" by simp
  then have "length (''.'' @ last p @ ''.tmp'') = length (last p)" by (simp add: tmp_path_def)
  then show False by simp
qed

lemma atomic_write_result:
  assumes "atomic_write_all p c s = (r, t)" and "p \<noteq> []"
  shows "w_nonces t = w_nonces s \<and> w_nonce_pos t = w_nonce_pos s \<and> w_wakes t = w_wakes s \<and>
    (\<forall>q. q \<noteq> p \<longrightarrow> q \<noteq> tmp_path p \<longrightarrow> w_files t q = w_files s q) \<and>
    (case r of
       Inr _ \<Rightarrow> w_files t p = Some c \<and> w_files t (tmp_path p) = None
     | Inl _ \<Rightarrow> w_files t p = w_files s p \<or> w_files t p = Some c)"
  using assms(1) tmp_path_neq [OF assms(2)] assms(2)
  unfolding atomic_write_all_def
  by (auto simp: bindE_def io_defs split: option.splits)

text \<open>
  C37. The durable write is all or nothing for its readers, at every point where any of its
  seven file-system calls can fail (a write after any number of bytes): the target holds
  what it held before or the complete new contents, never a part; no file but the target
  and its temporary is touched; and success means the target holds the new contents and the
  temporary is gone.
\<close>

theorem atomic_write_all_or_nothing:
  assumes "p \<noteq> []"
  shows "case atomic_write_all p c s of (r, t) \<Rightarrow>
    w_files t p \<in> {w_files s p, Some c} \<and>
    (\<forall>q. q \<notin> {p, tmp_path p} \<longrightarrow> w_files t q = w_files s q) \<and>
    (r = Inr () \<longrightarrow> w_files t p = Some c \<and> w_files t (tmp_path p) = None)"
proof (cases "atomic_write_all p c s")
  case (Pair r t)
  with atomic_write_result [OF Pair assms] show ?thesis by (cases r) auto
qed

theorem atomic_write_all_or_nothing_witness:
  "w_files (snd (atomic_write_all [''a''] [1, 2, 3]
     (sample_world\<lparr>w_io := [None, None, Some \<lparr>iof_text = ''disk full'', iof_written = 1, iof_removed = (\<lambda>_. False)\<rparr>]\<rparr>)))
     [''a''] \<in> {None, Some [1, 2, 3]}"
proof -
  let ?s = "sample_world\<lparr>w_io := [None, None, Some \<lparr>iof_text = ''disk full'', iof_written = 1, iof_removed = (\<lambda>_. False)\<rparr>]\<rparr>"
  have "w_files ?s [''a''] = None" by (simp add: sample_world_def tx.extend_def)
  then show ?thesis
    using atomic_write_all_or_nothing [where p = "[''a'']" and c = "[1, 2, 3]" and s = ?s] by (auto split: prod.splits)
qed

section \<open>What the stores hold\<close>

definition stored :: "storage \<Rightarrow> 'z world_scheme \<Rightarrow> AccountId \<Rightarrow> ContentHash \<Rightarrow> bytes option" where
  "stored st s a h = (case w_files s (blob_path (st_root st) a h) of
      None \<Rightarrow> None
    | Some c \<Rightarrow> (case decrypt (st_crypto st) (st_key st) a c of Inl _ \<Rightarrow> None | Inr p \<Rightarrow> Some p))"

text \<open>Every blob file decrypts, for its account, to content whose hash is its name.\<close>

definition blobs_ok :: "storage \<Rightarrow> 'z world_scheme \<Rightarrow> bool" where
  "blobs_ok st s \<longleftrightarrow> crypto_ok (st_crypto st) \<and> nonces_ok s \<and>
     (\<forall>a h c. w_files s (blob_path (st_root st) a h) = Some c \<longrightarrow>
        (\<exists>p. decrypt (st_crypto st) (st_key st) a c = Inr p \<and> compute_hash (st_crypto st) p = h))"

lemma try_exists_result:
  assumes "try_exists p s = (r, t)"
  shows "w_files t = w_files s \<and> w_nonces t = w_nonces s \<and> w_wakes t = w_wakes s \<and>
    (case r of Inl _ \<Rightarrow> True | Inr b \<Rightarrow> b = (w_files s p \<noteq> None))"
  using assms by (auto simp: try_exists_def bindE_def io_defs split: option.splits)

text \<open>One characterisation of a put for every schedule.\<close>

lemma put_result:
  assumes run: "put_if_absent st a p s = (r, t)"
  defines "h \<equiv> compute_hash (st_crypto st) p" and "bp \<equiv> blob_path (st_root st) a (compute_hash (st_crypto st) p)"
  shows "w_nonces t = w_nonces s \<and> w_wakes t = w_wakes s \<and>
    (\<forall>q. q \<noteq> bp \<longrightarrow> q \<noteq> tmp_path bp \<longrightarrow> w_files t q = w_files s q) \<and>
    (w_files s bp \<noteq> None \<longrightarrow> w_files t bp = w_files s bp) \<and>
    (w_files s bp = None \<longrightarrow> w_files t bp = None \<or>
       (\<exists>n. w_files t bp = Some (from_parts (w_nonces s n) (aead_seal (st_crypto st) (st_key st) (w_nonces s n) (be_bytes a) p)))) \<and>
    (\<forall>x. r = Inr x \<longrightarrow> x = h \<and> w_files t bp \<noteq> None)"
proof -
  from run have "bindE (try_exists bp) (\<lambda>there. if there then ret h
      else bindE (encrypt (st_crypto st) (st_key st) a p) (\<lambda>ct. bindE (atomic_write_all bp ct) (\<lambda>_. ret h))) s = (r, t)"
    unfolding put_if_absent_def Let_def h_def bp_def .
  then consider (err) e where "try_exists bp s = (Inl e, t)" "r = Inl e"
    | (there) s1 where "try_exists bp s = (Inr True, s1)" "r = Inr h" "t = s1"
    | (new) s1 c s2 w where "try_exists bp s = (Inr False, s1)"
        "encrypt (st_crypto st) (st_key st) a p s1 = (Inr c, s2)" "atomic_write_all bp c s2 = (w, t)"
        "r = (case w of Inl e \<Rightarrow> Inl e | Inr _ \<Rightarrow> Inr h)"
    using encrypt_not_Inl
    by (fastforce simp: bindE_def act_eval split: prod.splits sum.splits if_splits)
  then show ?thesis
  proof cases
    case err
    from try_exists_result [OF err(1)] err show ?thesis by auto
  next
    case there
    from try_exists_result [OF there(1)] there show ?thesis by auto
  next
    case new
    have bp: "bp \<noteq> []" by (simp add: bp_def blob_path_last)
    note w = atomic_write_result [OF new(3) bp]
    note t1 = try_exists_result [OF new(1)]
    from encrypt_Inr [OF new(2)] t1 obtain n where
      c: "c = from_parts (w_nonces s n) (aead_seal (st_crypto st) (st_key st) (w_nonces s n) (be_bytes a) p)"
      by auto
    from encrypt_Inr(2) [OF new(2)] t1 have s2: "w_files s2 = w_files s" "w_nonces s2 = w_nonces s" "w_wakes s2 = w_wakes s"
      by simp_all
    from t1 have "w_files s bp = None" by simp
    with w s2 c new(4) show ?thesis by (cases w) auto
  qed
qed

lemma put_keeps_ok:
  assumes ok: "blobs_ok st s" and run: "put_if_absent st a p s = (r, t)"
  shows "blobs_ok st t"
  unfolding blobs_ok_def
proof (intro conjI allI impI)
  from ok show cr: "crypto_ok (st_crypto st)" by (simp add: blobs_ok_def)
  note res = put_result [OF run]
  from ok res show "nonces_ok t" by (simp add: blobs_ok_def nonces_ok_def)
  fix b k c
  assume c: "w_files t (blob_path (st_root st) b k) = Some c"
  show "\<exists>q. decrypt (st_crypto st) (st_key st) b c = Inr q \<and> compute_hash (st_crypto st) q = k"
  proof (cases "w_files s (blob_path (st_root st) b k)")
    case (Some d)
    with res c blob_not_tmp have "d = c"
      by (cases "blob_path (st_root st) b k = blob_path (st_root st) a (compute_hash (st_crypto st) p)") auto
    with ok Some show ?thesis by (simp add: blobs_ok_def)
  next
    case None
    with res c blob_not_tmp have "blob_path (st_root st) b k = blob_path (st_root st) a (compute_hash (st_crypto st) p)"
      by fastforce
    with blob_path_inj have bk: "b = a" "k = compute_hash (st_crypto st) p" by blast+
    with res c None obtain n where
      "c = from_parts (w_nonces s n) (aead_seal (st_crypto st) (st_key st) (w_nonces s n) (be_bytes a) p)" by auto
    with bk decrypt_from_parts [OF cr] ok show ?thesis by (simp add: blobs_ok_def nonces_ok_def)
  qed
qed

lemma put_stored:
  assumes ok: "blobs_ok st s" and run: "put_if_absent st a p s = (r, t)"
  shows "stored st s b k = Some q \<Longrightarrow> stored st t b k = Some q"
    and "r = Inr h \<Longrightarrow> h = compute_hash (st_crypto st) p \<and> (\<exists>q. stored st t a h = Some q)"
    and "r = Inr h \<Longrightarrow> stored st s a h = None \<Longrightarrow> stored st t a h = Some p"
    and "\<not> (b = a \<and> k = compute_hash (st_crypto st) p) \<Longrightarrow> stored st t b k = stored st s b k"
proof -
  note res = put_result [OF run]
  from put_keeps_ok [OF ok run] have okt: "blobs_ok st t" .
  have other: "w_files t (blob_path (st_root st) b k) = w_files s (blob_path (st_root st) b k)"
    if "\<not> (b = a \<and> k = compute_hash (st_crypto st) p)" for b k
    using res that blob_not_tmp blob_path_inj by metis
  then show "\<not> (b = a \<and> k = compute_hash (st_crypto st) p) \<Longrightarrow> stored st t b k = stored st s b k"
    by (simp add: stored_def)
  show "stored st t b k = Some q" if "stored st s b k = Some q"
  proof (cases "b = a \<and> k = compute_hash (st_crypto st) p")
    case True
    with that res show ?thesis by (auto simp: stored_def split: option.splits)
  next
    case False
    with that other show ?thesis by (simp add: stored_def)
  qed
  {
    assume r: "r = Inr h"
    with res have h: "h = compute_hash (st_crypto st) p"
      and there: "w_files t (blob_path (st_root st) a h) \<noteq> None" by auto
    with okt show "h = compute_hash (st_crypto st) p \<and> (\<exists>q. stored st t a h = Some q)"
      unfolding blobs_ok_def stored_def by (fastforce split: option.splits)
    assume none: "stored st s a h = None"
    with ok have "w_files s (blob_path (st_root st) a h) = None"
      unfolding blobs_ok_def stored_def by (fastforce split: option.splits)
    with res h there obtain n where "w_files t (blob_path (st_root st) a h)
        = Some (from_parts (w_nonces s n) (aead_seal (st_crypto st) (st_key st) (w_nonces s n) (be_bytes a) p))"
      by auto
    with ok decrypt_from_parts show "stored st t a h = Some p"
      by (simp add: stored_def blobs_ok_def nonces_ok_def)
  }
qed

lemma blob_get_result:
  assumes "blob_get st a h s = (r, t)"
  shows "w_files t = w_files s" and "w_nonces t = w_nonces s" and "r = Inr p \<Longrightarrow> stored st s a h = Some p"
    and "w_wakes t = w_wakes s"
  using assms
  by (auto simp: blob_get_def bindE_def io_defs stored_def act_eval split: option.splits sum.splits)

lemma blob_get_clear:
  assumes "w_io s = []" and "stored st s a h = Some p"
  shows "blob_get st a h s = (Inr p, s)"
proof -
  have "io_call s = (Inr (), s)" using assms(1) by (simp add: io_call_def io_step_def)
  with assms(2) show ?thesis
    by (auto simp: blob_get_def bindE_def stored_def act_eval split: option.splits sum.splits)
qed

end
