(* ===== verification/WriteRace.thy ===== *)
theory WriteRace
  imports BlobStore
begin

text \<open>
  The durable write of \<open>crates/storage/src/atomic.rs\<close> run by two tasks at once, at the
  level of directory entries and inodes: both write through the same temporary name, which is
  derived from the target alone. \<open>BlobStore\<close> shows the protocol correct for one writer
  at a time; this theory shows what a second writer of the same blob can do to it.
\<close>

record fsys =
  fs_entry :: "path \<Rightarrow> nat option"
  fs_inode :: "nat \<Rightarrow> bytes"
  fs_next :: nat

definition empty_fsys :: fsys where
  "empty_fsys = \<lparr>fs_entry = (\<lambda>_. None), fs_inode = (\<lambda>_. []), fs_next = 0\<rparr>"

definition read_path :: "path \<Rightarrow> fsys \<Rightarrow> bytes option" where
  "read_path p f = map_option (fs_inode f) (fs_entry f p)"

text \<open>\<open>File::create\<close>: truncate the file there is, or make one.\<close>

definition open_truncate :: "path \<Rightarrow> fsys \<Rightarrow> nat \<times> fsys" where
  "open_truncate p f =
    (case fs_entry f p of
       Some i \<Rightarrow> (i, f\<lparr>fs_inode := (fs_inode f)(i := [])\<rparr>)
     | None \<Rightarrow> (fs_next f, f\<lparr>fs_entry := (fs_entry f)(p \<mapsto> fs_next f),
         fs_inode := (fs_inode f)(fs_next f := []), fs_next := Suc (fs_next f)\<rparr>))"

text \<open>Writing from offset zero through an open descriptor, whatever the file's name is now.\<close>

definition write_fd :: "nat \<Rightarrow> bytes \<Rightarrow> fsys \<Rightarrow> fsys" where
  "write_fd i c f = f\<lparr>fs_inode := (fs_inode f)(i := c @ drop (length c) (fs_inode f i))\<rparr>"

definition rename_entry :: "path \<Rightarrow> path \<Rightarrow> fsys \<Rightarrow> fsys option" where
  "rename_entry old new f =
    (case fs_entry f old of
       None \<Rightarrow> None
     | Some i \<Rightarrow> Some (f\<lparr>fs_entry := (fs_entry f)(old := None, new \<mapsto> i)\<rparr>))"

text \<open>Where a writer is in \<open>atomic_write_all\<close>, with the descriptor it holds.\<close>

datatype writer = AtCreate | AtWrite nat | AtSync nat | AtRename | WriteDone | WriteFailed

fun writer_step :: "path \<Rightarrow> bytes \<Rightarrow> writer \<Rightarrow> fsys \<Rightarrow> writer \<times> fsys" where
  "writer_step p c AtCreate f = (case open_truncate (tmp_path p) f of (i, f') \<Rightarrow> (AtWrite i, f'))"
| "writer_step p c (AtWrite i) f = (AtSync i, write_fd i c f)"
| "writer_step p c (AtSync i) f = (AtRename, f)"
| "writer_step p c AtRename f = (case rename_entry (tmp_path p) p f of
     None \<Rightarrow> (WriteFailed, f) | Some f' \<Rightarrow> (WriteDone, f'))"
| "writer_step p c WriteDone f = (WriteDone, f)"
| "writer_step p c WriteFailed f = (WriteFailed, f)"

text \<open>Two writers of the same target; the schedule says whose step is next.\<close>

fun run_writers :: "path \<Rightarrow> bytes \<Rightarrow> bytes \<Rightarrow> bool list \<Rightarrow> writer \<times> writer \<times> fsys \<Rightarrow> writer \<times> writer \<times> fsys" where
  "run_writers p c d [] s = s"
| "run_writers p c d (first # sched) (v, w, f) =
    run_writers p c d sched
      (if first then (case writer_step p c v f of (v', f') \<Rightarrow> (v', w, f'))
       else (case writer_step p d w f of (w', f') \<Rightarrow> (v, w', f')))"

definition writers_start :: "writer \<times> writer \<times> fsys" where
  "writers_start = (AtCreate, AtCreate, empty_fsys)"

lemma blob_tmp_neq: "tmp_path (blob_path root a h) \<noteq> blob_path root a h"
  by (rule tmp_not_blob)

lemmas race_eval = writers_start_def empty_fsys_def open_truncate_def write_fd_def rename_entry_def read_path_def

text \<open>One after the other, both writers succeed and the last contents stand.\<close>

lemma sequential_writers:
  "case run_writers (blob_path root a h) c d [True, True, True, True, False, False, False, False] writers_start of
     (v, w, f) \<Rightarrow> v = WriteDone \<and> w = WriteDone \<and> read_path (blob_path root a h) f = Some d"
  using blob_tmp_neq [of root a h] blob_not_tmp by (simp add: race_eval)

text \<open>
  Two tasks storing the same blob at once can publish a part of it: when the second
  writer opens the shared temporary after the first has synced it and before the first renames
  it, the blob's path names an empty file (which stays if the process dies there, and is then
  taken for a stored blob); and when the second goes on, its rename fails although nothing is
  wrong with the disk.
\<close>

theorem concurrent_writers_publish_partial:
  "(case run_writers (blob_path root a h) c d [True, True, True, False, True] writers_start of
      (v, w, f) \<Rightarrow> v = WriteDone \<and> read_path (blob_path root a h) f = Some []) \<and>
   (case run_writers (blob_path root a h) c d [True, True, True, False, True, False, False, False] writers_start of
      (v, w, f) \<Rightarrow> v = WriteDone \<and> w = WriteFailed \<and> read_path (blob_path root a h) f = Some d)"
  using blob_tmp_neq [of root a h] blob_not_tmp by (simp add: race_eval)

end
