(* ===== verification/BlobContract.thy ===== *)
theory BlobContract
  imports BlobStore
begin

text \<open>
  The contract of a content-addressed store (\<open>blob_store\<close>), what its clients derive from
  it, and its interpretation on the file-system stores; then what a store does end to end and
  the isolation of accounts and of the two stores.
\<close>

section \<open>The contract\<close>

locale blob_store =
  fixes inv :: "'s \<Rightarrow> bool"
    and content :: "'s \<Rightarrow> AccountId \<Rightarrow> ContentHash \<Rightarrow> bytes option"
    and digest :: "bytes \<Rightarrow> ContentHash"
    and put :: "AccountId \<Rightarrow> bytes \<Rightarrow> ('s, Error, ContentHash) action"
    and get :: "AccountId \<Rightarrow> ContentHash \<Rightarrow> ('s, Error, bytes) action"
  assumes put_inv: "preserves inv (put a p)"
    and get_inv: "preserves inv (get a h)"
    and content_digest: "inv s \<Longrightarrow> content s a h = Some p \<Longrightarrow> digest p = h"
    and put_grows: "inv s \<Longrightarrow> put a p s = (r, t) \<Longrightarrow> content s b k = Some q \<Longrightarrow> content t b k = Some q"
    and put_ok: "inv s \<Longrightarrow> put a p s = (Inr h, t) \<Longrightarrow> h = digest p \<and> (\<exists>q. content t a h = Some q)"
    and put_new: "inv s \<Longrightarrow> put a p s = (Inr h, t) \<Longrightarrow> content s a h = None \<Longrightarrow> content t a h = Some p"
    and get_ok: "inv s \<Longrightarrow> get a h s = (Inr p, t) \<Longrightarrow> content s a h = Some p"
    and get_same: "inv s \<Longrightarrow> get a h s = (r, t) \<Longrightarrow> content t = content s"
begin

text \<open>What a client reads back has the digest it put.\<close>

lemma get_after_put:
  assumes "inv s" and "put a p s = (Inr h, t)" and "get a h t = (Inr q, u)"
  shows "digest q = digest p" and "content s a h = None \<Longrightarrow> q = p"
proof -
  from preservesD [OF put_inv assms(1,2)] have t: "inv t" .
  from get_ok [OF t assms(3)] have q: "content t a h = Some q" .
  from content_digest [OF t q] put_ok [OF assms(1,2)] show "digest q = digest p" by simp
  show "q = p" if "content s a h = None" using put_new [OF assms(1,2) that] q by simp
qed

text \<open>Storing a list of blobs keeps every blob there was, and ends with all of them stored.\<close>

lemma puts_grow_all:
  assumes "inv s" and "mapE (\<lambda>x. put a (f x)) xs s = (r, t)"
  shows "inv t \<and> (\<forall>b k q. content s b k = Some q \<longrightarrow> content t b k = Some q)"
  using assms
proof (induction xs arbitrary: s r t)
  case Nil
  then show ?case by (simp add: act_eval)
next
  case (Cons x xs)
  obtain r1 s1 where p: "put a (f x) s = (r1, s1)" by (cases "put a (f x) s")
  note s1 = preservesD [OF put_inv Cons.prems(1) p]
  have grow: "content s1 b k = Some q" if "content s b k = Some q" for b k q
    using put_grows [OF Cons.prems(1) p that] .
  show ?case
  proof (cases r1)
    case (Inl e)
    with Cons.prems(2) p s1 grow show ?thesis by (simp add: bindE_def)
  next
    case (Inr h)
    obtain r2 s2 where m: "mapE (\<lambda>x. put a (f x)) xs s1 = (r2, s2)"
      by (cases "mapE (\<lambda>x. put a (f x)) xs s1")
    from Cons.prems(2) p m Inr have "s2 = t" by (cases r2) (simp_all add: bindE_def act_eval)
    with Cons.IH [OF s1 m] grow show ?thesis by blast
  qed
qed

lemma puts_grow:
  assumes "inv s" and "mapE (\<lambda>x. put a (f x)) xs s = (r, t)"
  shows "inv t" and "content s b k = Some q \<Longrightarrow> content t b k = Some q"
  using puts_grow_all [OF assms] by blast+

lemma puts_stored:
  assumes "inv s" and "mapE (\<lambda>x. put a (f x)) xs s = (Inr hs, t)"
  shows "hs = map (digest \<circ> f) xs" and "\<forall>h \<in> set hs. \<exists>q. content t a h = Some q"
proof -
  have "hs = map (digest \<circ> f) xs \<and> (\<forall>h \<in> set hs. \<exists>q. content t a h = Some q)"
    using assms
  proof (induction xs arbitrary: s hs)
    case Nil
    then show ?case by (simp add: act_eval)
  next
    case (Cons x xs)
    from Cons.prems(2) obtain h s1 hs' where p: "put a (f x) s = (Inr h, s1)"
      and m: "mapE (\<lambda>x. put a (f x)) xs s1 = (Inr hs', t)" and hs: "hs = h # hs'"
      by (auto simp: bindE_def act_eval split: prod.splits sum.splits)
    note s1 = preservesD [OF put_inv Cons.prems(1) p]
    from put_ok [OF Cons.prems(1) p] obtain q where "h = digest (f x)" "content s1 a h = Some q" by blast
    with puts_grow(2) [OF s1 m] Cons.IH [OF s1 m] hs show ?case by auto
  qed
  then show "hs = map (digest \<circ> f) xs" "\<forall>h \<in> set hs. \<exists>q. content t a h = Some q" by blast+
qed

end

section \<open>The file-system stores provide it\<close>

lemma get_keeps_ok: "blobs_ok st s \<Longrightarrow> blob_get st a h s = (r, t) \<Longrightarrow> blobs_ok st t"
  using blob_get_result(1,2) [of st a h s r t] by (simp add: blobs_ok_def nonces_ok_def)

interpretation fs: blob_store "blobs_ok st" "stored st" "compute_hash (st_crypto st)" "put_if_absent st" "blob_get st"
  for st
proof (unfold_locales, goal_cases)
  case (1 a p)
  then show ?case by (metis preserves_def prod.collapse put_keeps_ok)
next
  case (2 a h)
  then show ?case by (metis preserves_def prod.collapse get_keeps_ok)
next
  case (3 s a h p)
  then show ?case unfolding blobs_ok_def stored_def by (fastforce split: option.splits sum.splits)
next
  case (4 s a p r t b k q)
  then show ?case using put_stored(1) by blast
next
  case (5 s a p h t)
  then show ?case using put_stored(2) by blast
next
  case (6 s a p h t)
  then show ?case using put_stored(3) by blast
next
  case (7 s a h p t)
  then show ?case using blob_get_result(3) by blast
next
  case (8 s a h r t)
  then show ?case using blob_get_result(1) [of st a h s r t] by (simp add: stored_def fun_eq_iff)
qed

section \<open>Properties\<close>

text \<open>
  C20. Content addressing: what is stored for an account can be read back under the hash that
  \<open>put_if_absent\<close> returns, which is the hash of the content; a hash new to the account
  reads back exactly what was put, an existing one content of the same hash (nothing is
  overwritten), and no other account's view of its store changes.
\<close>

theorem put_then_get:
  assumes "blobs_ok st s" and "put_if_absent st a p s = (Inr h, t)" and "w_io t = []"
  shows "h = compute_hash (st_crypto st) p \<and>
    (\<exists>q. fst (blob_get st a h t) = Inr q \<and> compute_hash (st_crypto st) q = h \<and>
       (stored st s a h = None \<longrightarrow> q = p) \<and> (\<forall>x. stored st s a h = Some x \<longrightarrow> q = x)) \<and>
    (\<forall>b k. b \<noteq> a \<longrightarrow> stored st t b k = stored st s b k)"
proof -
  from put_stored(2) [OF assms(1,2)] obtain q where
    h: "h = compute_hash (st_crypto st) p" and q: "stored st t a h = Some q" by blast
  have "compute_hash (st_crypto st) q = h"
    using fs.content_digest [OF put_keeps_ok [OF assms(1,2)] q] .
  with blob_get_clear [OF assms(3) q] h q show ?thesis
    using put_stored(1,4) [OF assms(1,2)] put_stored(3) [OF assms(1,2) refl] by auto
qed

definition sample_storage :: storage where
  "sample_storage = \<lparr>st_crypto = toy_crypto, st_key = [], st_root = [''data'', ''raw'']\<rparr>"

lemma sample_blobs_ok: "blobs_ok sample_storage sample_world"
  using toy_crypto_ok sample_nonces_ok
  by (simp add: blobs_ok_def sample_storage_def sample_world_def tx.extend_def)

lemma sample_put: "\<exists>t. put_if_absent sample_storage 7 [1, 2] sample_world
  = (Inr (compute_hash toy_crypto [1, 2]), t) \<and> w_io t = []"
proof -
  have *: "w_io s = [] \<Longrightarrow> io_step failing ok s = (Inr (), ok s)" for failing ok and s :: world
    by (simp add: io_step_def)
  have "w_io sample_world = []" "w_files sample_world p = None" for p
    by (simp_all add: sample_world_def tx.extend_def)
  then show ?thesis
    by (simp add: put_if_absent_def try_exists_def atomic_write_all_def encrypt_def generate_nonce_def Let_def
        bindE_def io_call_def file_create_def write_all_def rename_file_def * act_eval blob_path_last
        sample_storage_def set_file_def)
qed

theorem put_then_get_witness:
  "\<exists>t :: world. fst (blob_get sample_storage 7 (compute_hash toy_crypto [1, 2]) t) = Inr [1, 2]"
proof -
  from sample_put obtain t where t: "put_if_absent sample_storage 7 [1, 2] sample_world
      = (Inr (compute_hash toy_crypto [1, 2]), t)" "w_io t = []" by blast
  have "stored sample_storage sample_world 7 (compute_hash toy_crypto [1, 2]) = None"
    by (simp add: stored_def sample_world_def tx.extend_def)
  with put_then_get [OF sample_blobs_ok t] have "fst (blob_get sample_storage 7 (compute_hash toy_crypto [1, 2]) t) = Inr [1, 2]"
    by blast
  then show ?thesis ..
qed

text \<open>
  Deleting an account's blobs removes all of that account's blobs when it succeeds, can be
  repeated, and whatever fails it never touches another account's blobs.
\<close>

theorem delete_account_blobs_isolated:
  "case delete_account_blobs st a s of (r, t) \<Rightarrow>
    (\<forall>b h. b \<noteq> a \<longrightarrow> stored st t b h = stored st s b h) \<and>
    (r = Inr () \<longrightarrow> (\<forall>h. w_files t (blob_path (st_root st) a h) = None))"
  by (auto simp: delete_account_blobs_def Let_def io_step_eq stored_def under_account split: option.splits)

theorem delete_account_blobs_isolated_witness:
  "\<exists>t. delete_account_blobs sample_storage 7 sample_world = (Inr (), t) \<and>
     w_files t (blob_path (st_root sample_storage) 7 (replicate 32 0)) = None \<and>
     stored sample_storage t 8 (replicate 32 0) = stored sample_storage sample_world 8 (replicate 32 0)"
proof -
  have "\<exists>t. delete_account_blobs sample_storage 7 sample_world = (Inr (), t)"
    by (simp add: delete_account_blobs_def io_step_def sample_world_def tx.extend_def Let_def)
  with delete_account_blobs_isolated [where st = sample_storage and a = 7 and s = sample_world] show ?thesis by auto
qed

end
