(* ===== verification/Messages.thy ===== *)
theory Messages
  imports Store
begin

text \<open>
  The message repositories: \<open>crates/database/src/adapters/message.rs\<close>,
  \<open>message_location.rs\<close> and \<open>message_attachment.rs\<close>, over the tables with their
  unique indexes and foreign keys (the migrations), and the version hook of the entities
  (\<open>before_save\<close>: a changed row gets the next version and the current time). Conversions
  between rows and domain values are the identity of the shared row type.
\<close>

section \<open>New rows\<close>

record NewMessageRow =
  nm_token :: MessageId
  nm_account_id :: AccountId
  nm_rfc822_message_id :: string
  nm_content_hash :: ContentHash
  nm_subject :: "string option"
  nm_from_address :: string
  nm_from_name :: "string option"
  nm_to_addresses :: "NamedAddress list"
  nm_cc_addresses :: "NamedAddress list"
  nm_bcc_addresses :: "NamedAddress list"
  nm_reply_to_addresses :: "NamedAddress list"
  nm_sent_date :: "time option"
  nm_in_reply_to :: "string option"
  nm_references :: "string list"
  nm_snippet :: string
  nm_size_bytes :: int
  nm_has_attachments :: bool
  nm_attachment_count :: int

record NewMessageLocationRow =
  nl_token :: MessageLocationId
  nl_message_id :: MessageId
  nl_folder_id :: FolderId
  nl_uid :: u32
  nl_uidvalidity :: u32
  nl_flags :: MessageFlags
  nl_internal_date :: time

record NewMessageAttachmentRow =
  na_token :: u64
  na_message_id :: MessageId
  na_account_id :: AccountId
  na_content_hash :: ContentHash
  na_filename :: "string option"
  na_content_type :: string
  na_size_bytes :: int
  na_is_inline :: bool
  na_content_id :: "string option"

section \<open>Messages\<close>

definition account_exists :: "AccountId \<Rightarrow> db \<Rightarrow> bool" where
  "account_exists a d \<longleftrightarrow> (\<exists>x \<in> set (tbl_accounts d). acc_id x = a)"

definition user_owns :: "UserId \<Rightarrow> AccountId \<Rightarrow> db \<Rightarrow> bool" where
  "user_owns u a d \<longleftrightarrow> (\<exists>x \<in> set (tbl_accounts d). acc_id x = a \<and> acc_user_id x = u)"

definition same_content :: "AccountId \<Rightarrow> ContentHash \<Rightarrow> Message \<Rightarrow> bool" where
  "same_content a h m \<longleftrightarrow> msg_account_id m = a \<and> msg_content_hash m = h"

definition find_by_account_and_content_hash :: "AccountId \<Rightarrow> ContentHash \<Rightarrow> ('z, Message option) dbm" where
  "find_by_account_and_content_hash a h =
    bindE (requireE (a \<noteq> 0) (InvalidId a)) (\<lambda>_.
    query (\<lambda>d. find_row (same_content a h) (tbl_messages d)))"

text \<open>The row as inserted: the hook raises the version to one.\<close>

definition new_message :: "time \<Rightarrow> NewMessageRow \<Rightarrow> Message" where
  "new_message now n =
    \<lparr>msg_id = nm_token n, msg_version = 1, msg_account_id = nm_account_id n,
     msg_rfc822_message_id = nm_rfc822_message_id n, msg_content_hash = nm_content_hash n,
     msg_subject = nm_subject n, msg_from_address = nm_from_address n, msg_from_name = nm_from_name n,
     msg_to_addresses = nm_to_addresses n, msg_cc_addresses = nm_cc_addresses n,
     msg_bcc_addresses = nm_bcc_addresses n, msg_reply_to_addresses = nm_reply_to_addresses n,
     msg_sent_date = nm_sent_date n, msg_in_reply_to = nm_in_reply_to n,
     msg_references = nm_references n, msg_snippet = nm_snippet n, msg_size_bytes = nm_size_bytes n,
     msg_has_attachments = nm_has_attachments n, msg_attachment_count = nm_attachment_count n,
     msg_indexed = False, msg_created_at = now, msg_updated_at = now\<rparr>"

definition insert_message :: "Message \<Rightarrow> db \<Rightarrow> DbErr + Message \<times> db" where
  "insert_message m d =
    (if \<exists>x \<in> set (tbl_messages d). msg_id x = msg_id m then Inl (unique_violation ''messages.id'')
     else if \<exists>x \<in> set (tbl_messages d). same_content (msg_account_id m) (msg_content_hash m) x
       then Inl (unique_violation ''idx_messages_account_content_hash'')
     else if \<not> account_exists (msg_account_id m) d then Inl (foreign_key_violation ''fk_messages_account'')
     else Inr (m, d\<lparr>tbl_messages := tbl_messages d @ [m]\<rparr>))"

definition create_message :: "NewMessageRow \<Rightarrow> ('z, Message) dbm" where
  "create_message n =
    bindE (requireE (nm_account_id n \<noteq> 0) (InvalidId (nm_account_id n))) (\<lambda>_.
    bindE utc_now (\<lambda>now. execute (insert_message (new_message now n))))"

definition find_by_id_for_account :: "AccountId \<Rightarrow> MessageId \<Rightarrow> ('z, Message option) dbm" where
  "find_by_id_for_account a i =
    bindE (requireE (a \<noteq> 0) (InvalidId a)) (\<lambda>_.
    bindE (requireE (i \<noteq> 0) (InvalidId i)) (\<lambda>_.
    query (\<lambda>d. find_row (\<lambda>m. msg_id m = i \<and> msg_account_id m = a) (tbl_messages d))))"

text \<open>
  \<open>ORDER BY sent_date DESC NULLS LAST, id DESC\<close>, with a limit and an offset. Ids are stored
  as signed 64-bit integers.
\<close>

definition newest_key :: "Message \<Rightarrow> nat \<times> time \<times> int" where
  "newest_key m = (case msg_sent_date m of None \<Rightarrow> (1, 0, - sint (msg_id m)) | Some t \<Rightarrow> (0, - t, - sint (msg_id m)))"

definition page :: "u32 \<Rightarrow> u32 \<Rightarrow> 'a list \<Rightarrow> 'a list" where
  "page limit offset xs = take (unat limit) (drop (unat offset) xs)"

definition list_for_account :: "AccountId \<Rightarrow> u32 \<Rightarrow> u32 \<Rightarrow> ('z, Message list) dbm" where
  "list_for_account a limit offset =
    bindE (requireE (a \<noteq> 0) (InvalidId a)) (\<lambda>_.
    query (\<lambda>d. page limit offset (sort_key newest_key (filter (\<lambda>m. msg_account_id m = a) (tbl_messages d)))))"

definition list_by_ids_for_user :: "UserId \<Rightarrow> MessageId list \<Rightarrow> ('z, Message list) dbm" where
  "list_by_ids_for_user u ids =
    bindE (requireE (u \<noteq> 0) (InvalidId u)) (\<lambda>_.
      if ids = [] then ret []
      else query (\<lambda>d. filter (\<lambda>m. msg_id m \<in> set ids \<and> user_owns u (msg_account_id m) d) (tbl_messages d)))"

definition find_by_id_for_user :: "UserId \<Rightarrow> MessageId \<Rightarrow> ('z, Message option) dbm" where
  "find_by_id_for_user u i =
    bindE (requireE (u \<noteq> 0) (InvalidId u)) (\<lambda>_.
    bindE (requireE (i \<noteq> 0) (InvalidId i)) (\<lambda>_.
    query (\<lambda>d. find_row (\<lambda>m. msg_id m = i \<and> user_owns u (msg_account_id m) d) (tbl_messages d))))"

definition located_in :: "FolderId list \<Rightarrow> db \<Rightarrow> Message \<Rightarrow> bool" where
  "located_in fs d m \<longleftrightarrow> (\<exists>l \<in> set (tbl_locations d). loc_message_id l = msg_id m \<and> loc_folder_id l \<in> set fs)"

definition in_folders :: "UserId \<Rightarrow> FolderId list list \<Rightarrow> FolderId list \<Rightarrow> db \<Rightarrow> Message \<Rightarrow> bool" where
  "in_folders u include_groups exclude d m \<longleftrightarrow>
     user_owns u (msg_account_id m) d \<and> (\<forall>g \<in> set include_groups. located_in g d m) \<and>
     (exclude \<noteq> [] \<longrightarrow> \<not> located_in exclude d m)"

text \<open>The total and the page are two statements of one transaction.\<close>

definition list_and_count_by_folders_for_user ::
  "UserId \<Rightarrow> FolderId list list \<Rightarrow> FolderId list \<Rightarrow> u32 \<Rightarrow> u32 \<Rightarrow> ('z, nat \<times> Message list) dbm"
where
  "list_and_count_by_folders_for_user u include_groups exclude limit offset =
    bindE (requireE (u \<noteq> 0) (InvalidId u)) (\<lambda>_.
    bindE (query (\<lambda>d. count_where (in_folders u include_groups exclude d) (tbl_messages d))) (\<lambda>total.
    bindE (query (\<lambda>d. page limit offset
      (sort_key newest_key (filter (in_folders u include_groups exclude d) (tbl_messages d))))) (\<lambda>rows.
    ret (total, rows))))"

definition list_unindexed :: "u32 \<Rightarrow> ('z, Message list) dbm" where
  "list_unindexed limit =
    query (\<lambda>d. take (unat limit) (sort_key (\<lambda>m. sint (msg_id m)) (filter (\<lambda>m. \<not> msg_indexed m) (tbl_messages d))))"

definition set_indexed :: "(Message \<Rightarrow> bool) \<Rightarrow> bool \<Rightarrow> db \<Rightarrow> DbErr + nat \<times> db" where
  "set_indexed p b d = Inr (count_where p (tbl_messages d),
     d\<lparr>tbl_messages := update_where p (\<lambda>m. m\<lparr>msg_indexed := b\<rparr>) (tbl_messages d)\<rparr>)"

definition mark_indexed :: "MessageId list \<Rightarrow> ('z, unit) dbm" where
  "mark_indexed ids =
    (if ids = [] then ret ()
     else bindE (execute (set_indexed (\<lambda>m. msg_id m \<in> set ids) True)) (\<lambda>_. ret ()))"

definition reset_all_indexed :: "('z, nat) dbm" where
  "reset_all_indexed = execute (set_indexed (\<lambda>_. True) False)"

section \<open>Locations\<close>

definition at_place :: "MessageId \<Rightarrow> FolderId \<Rightarrow> MessageLocation \<Rightarrow> bool" where
  "at_place m f l \<longleftrightarrow> loc_message_id l = m \<and> loc_folder_id l = f"

definition find_by_message_and_folder :: "MessageId \<Rightarrow> FolderId \<Rightarrow> ('z, MessageLocation option) dbm" where
  "find_by_message_and_folder m f =
    bindE (requireE (m \<noteq> 0) (InvalidId m)) (\<lambda>_.
    bindE (requireE (f \<noteq> 0) (InvalidId f)) (\<lambda>_.
    query (\<lambda>d. find_row (at_place m f) (tbl_locations d))))"

definition new_location :: "time \<Rightarrow> NewMessageLocationRow \<Rightarrow> MessageLocation" where
  "new_location now n =
    \<lparr>loc_id = nl_token n, loc_version = 1, loc_message_id = nl_message_id n, loc_folder_id = nl_folder_id n,
     loc_uid = nl_uid n, loc_uidvalidity = nl_uidvalidity n, loc_flags = nl_flags n,
     loc_internal_date = nl_internal_date n, loc_first_seen_at = now, loc_updated_at = now\<rparr>"

text \<open>The columns an update of an existing location sets; \<open>v\<close> is the next version.\<close>

definition moved_location :: "time \<Rightarrow> NewMessageLocationRow \<Rightarrow> int \<Rightarrow> MessageLocation \<Rightarrow> MessageLocation" where
  "moved_location now n v l =
    l\<lparr>loc_uid := nl_uid n, loc_uidvalidity := nl_uidvalidity n, loc_flags := nl_flags n,
      loc_internal_date := nl_internal_date n, loc_version := v, loc_updated_at := now\<rparr>"

definition folder_exists :: "FolderId \<Rightarrow> db \<Rightarrow> bool" where
  "folder_exists f d \<longleftrightarrow> (\<exists>x \<in> set (tbl_folders d). fld_id x = f)"

definition message_exists :: "MessageId \<Rightarrow> db \<Rightarrow> bool" where
  "message_exists i d \<longleftrightarrow> (\<exists>x \<in> set (tbl_messages d). msg_id x = i)"

definition insert_location :: "MessageLocation \<Rightarrow> db \<Rightarrow> DbErr + MessageLocation \<times> db" where
  "insert_location l d =
    (if \<exists>x \<in> set (tbl_locations d). loc_id x = loc_id l then Inl (unique_violation ''message_locations.id'')
     else if \<exists>x \<in> set (tbl_locations d). at_place (loc_message_id l) (loc_folder_id l) x
       then Inl (unique_violation ''idx_message_locations_message_folder'')
     else if \<not> (message_exists (loc_message_id l) d \<and> folder_exists (loc_folder_id l) d)
       then Inl (foreign_key_violation ''fk_message_locations'')
     else Inr (l, d\<lparr>tbl_locations := tbl_locations d @ [l]\<rparr>))"

text \<open>\<open>UPDATE .. SET .. WHERE id = ..\<close> of one row, returning it.\<close>

definition update_location ::
  "MessageLocationId \<Rightarrow> (MessageLocation \<Rightarrow> MessageLocation) \<Rightarrow> db \<Rightarrow> DbErr + MessageLocation \<times> db"
where
  "update_location i f d =
    (case find_row (\<lambda>l. loc_id l = i) (tbl_locations d) of
       None \<Rightarrow> Inl record_not_updated
     | Some l \<Rightarrow> Inr (f l, d\<lparr>tbl_locations := update_where (\<lambda>l. loc_id l = i) f (tbl_locations d)\<rparr>))"

definition upsert_location :: "NewMessageLocationRow \<Rightarrow> ('z, MessageLocation) dbm" where
  "upsert_location n =
    bindE (requireE (nl_message_id n \<noteq> 0) (InvalidId (nl_message_id n))) (\<lambda>_.
    bindE (requireE (nl_folder_id n \<noteq> 0) (InvalidId (nl_folder_id n))) (\<lambda>_.
    bindE utc_now (\<lambda>now.
    bindE (query (\<lambda>d. find_row (at_place (nl_message_id n) (nl_folder_id n)) (tbl_locations d))) (\<lambda>existing.
      case existing of
        Some l \<Rightarrow> execute (update_location (loc_id l) (moved_location now n (loc_version l + 1)))
      | None \<Rightarrow> execute (insert_location (new_location now n))))))"

definition delete_by_folder_id :: "FolderId \<Rightarrow> ('z, nat) dbm" where
  "delete_by_folder_id f =
    bindE (requireE (f \<noteq> 0) (InvalidId f)) (\<lambda>_.
    execute (\<lambda>d. Inr (count_where (\<lambda>l. loc_folder_id l = f) (tbl_locations d),
      d\<lparr>tbl_locations := delete_where (\<lambda>l. loc_folder_id l = f) (tbl_locations d)\<rparr>)))"

definition filter_message_ids_in_folders :: "MessageId list \<Rightarrow> FolderId list \<Rightarrow> ('z, MessageId list) dbm" where
  "filter_message_ids_in_folders ms fs =
    (if ms = [] \<or> fs = [] then ret []
     else query (\<lambda>d. remdups (map loc_message_id
       (filter (\<lambda>l. loc_message_id l \<in> set ms \<and> loc_folder_id l \<in> set fs) (tbl_locations d)))))"

section \<open>Attachments\<close>

definition new_attachment :: "time \<Rightarrow> NewMessageAttachmentRow \<Rightarrow> MessageAttachment" where
  "new_attachment now n =
    \<lparr>att_id = na_token n, att_version = 1, att_message_id = na_message_id n, att_account_id = na_account_id n,
     att_content_hash = na_content_hash n, att_filename = na_filename n, att_content_type = na_content_type n,
     att_size_bytes = na_size_bytes n, att_is_inline = na_is_inline n, att_content_id = na_content_id n,
     att_created_at = now, att_updated_at = now\<rparr>"

definition insert_attachment :: "MessageAttachment \<Rightarrow> db \<Rightarrow> DbErr + MessageAttachment \<times> db" where
  "insert_attachment a d =
    (if \<exists>x \<in> set (tbl_attachments d). att_id x = att_id a then Inl (unique_violation ''message_attachments.id'')
     else if \<not> (message_exists (att_message_id a) d \<and> account_exists (att_account_id a) d)
       then Inl (foreign_key_violation ''fk_message_attachments'')
     else Inr (a, d\<lparr>tbl_attachments := tbl_attachments d @ [a]\<rparr>))"

definition create_attachments :: "NewMessageAttachmentRow list \<Rightarrow> ('z, MessageAttachment list) dbm" where
  "create_attachments rows =
    bindE utc_now (\<lambda>now.
    mapE (\<lambda>row.
      bindE (requireE (na_message_id row \<noteq> 0) (InvalidId (na_message_id row))) (\<lambda>_.
      bindE (requireE (na_account_id row \<noteq> 0) (InvalidId (na_account_id row))) (\<lambda>_.
      execute (insert_attachment (new_attachment now row))))) rows)"

definition list_for_message :: "MessageId \<Rightarrow> ('z, MessageAttachment list) dbm" where
  "list_for_message i =
    bindE (requireE (i \<noteq> 0) (InvalidId i)) (\<lambda>_.
    query (\<lambda>d. filter (\<lambda>a. att_message_id a = i) (tbl_attachments d)))"

end
