(* ===== verification/MessageService.thy ===== *)
theory MessageService
  imports Messages
begin

text \<open>
  The message service (\<open>crates/core/src/message/service.rs\<close>): recording a parsed message
  once per content, with its attachments and its location, and the reads the front end makes.
\<close>

section \<open>Parsed messages\<close>

record ParsedAttachment =
  pa_content_hash :: ContentHash
  pa_filename :: "string option"
  pa_content_type :: string
  pa_size_bytes :: int
  pa_is_inline :: bool
  pa_content_id :: "string option"

record ParsedMessage =
  pm_rfc822_message_id :: string
  pm_content_hash :: ContentHash
  pm_subject :: "string option"
  pm_from_address :: string
  pm_from_name :: "string option"
  pm_to_addresses :: "NamedAddress list"
  pm_cc_addresses :: "NamedAddress list"
  pm_bcc_addresses :: "NamedAddress list"
  pm_reply_to_addresses :: "NamedAddress list"
  pm_sent_date :: "time option"
  pm_in_reply_to :: "string option"
  pm_references :: "string list"
  pm_snippet :: string
  pm_size_bytes :: int
  pm_attachments :: "ParsedAttachment list"

record RecordedMessage =
  rm_message_id :: MessageId
  rm_created :: bool

section \<open>Recording\<close>

text \<open>\<open>i32::try_from(len).unwrap_or(i32::MAX)\<close>\<close>

definition clamp_i32 :: "nat \<Rightarrow> int" where
  "clamp_i32 n = min (int n) (2 ^ 31 - 1)"

definition message_row :: "MessageId \<Rightarrow> AccountId \<Rightarrow> ParsedMessage \<Rightarrow> NewMessageRow" where
  "message_row token a p =
    \<lparr>nm_token = token, nm_account_id = a, nm_rfc822_message_id = pm_rfc822_message_id p,
     nm_content_hash = pm_content_hash p, nm_subject = pm_subject p, nm_from_address = pm_from_address p,
     nm_from_name = pm_from_name p, nm_to_addresses = pm_to_addresses p, nm_cc_addresses = pm_cc_addresses p,
     nm_bcc_addresses = pm_bcc_addresses p, nm_reply_to_addresses = pm_reply_to_addresses p,
     nm_sent_date = pm_sent_date p, nm_in_reply_to = pm_in_reply_to p, nm_references = pm_references p,
     nm_snippet = pm_snippet p, nm_size_bytes = pm_size_bytes p,
     nm_has_attachments = (pm_attachments p \<noteq> []), nm_attachment_count = clamp_i32 (length (pm_attachments p))\<rparr>"

definition attachment_row :: "u64 \<Rightarrow> MessageId \<Rightarrow> AccountId \<Rightarrow> ParsedAttachment \<Rightarrow> NewMessageAttachmentRow" where
  "attachment_row token m a x =
    \<lparr>na_token = token, na_message_id = m, na_account_id = a, na_content_hash = pa_content_hash x,
     na_filename = pa_filename x, na_content_type = pa_content_type x, na_size_bytes = pa_size_bytes x,
     na_is_inline = pa_is_inline x, na_content_id = pa_content_id x\<rparr>"

text \<open>
  The dedup step: the message of this content, made if there is none. \<open>env\<close> is what
  other connections commit between the lookup and the insert; the insert's constraint error is
  the sign of a race, and the winner is looked up.
\<close>

definition find_or_create ::
  "(db \<Rightarrow> db) \<Rightarrow> AccountId \<Rightarrow> ParsedMessage \<Rightarrow> ('z, MessageId \<times> bool) dbm"
where
  "find_or_create env a p =
    bindE (find_by_account_and_content_hash a (pm_content_hash p)) (\<lambda>existing.
      case existing of
        Some m \<Rightarrow> ret (msg_id m, False)
      | None \<Rightarrow>
          bindE generate_token (\<lambda>token.
          bindE (modifyE (\<lambda>s. s\<lparr>tx_db := env (tx_db s)\<rparr>)) (\<lambda>_.
          handleE (create_message (message_row token a p))
            (\<lambda>m. bindE (mapE (\<lambda>x. bindE generate_token (\<lambda>t. ret (attachment_row t (msg_id m) a x)))
                         (pm_attachments p)) (\<lambda>rows.
                  bindE (create_attachments rows) (\<lambda>_. ret (msg_id m, True))))
            (\<lambda>e. case e of
                RepoError (Constraint _) \<Rightarrow>
                  bindE (find_by_account_and_content_hash a (pm_content_hash p)) (\<lambda>winner.
                    case winner of
                      Some w \<Rightarrow> ret (msg_id w, False)
                    | None \<Rightarrow> throw (RepoError Conflict))
              | _ \<Rightarrow> throw e))))"

definition record_body ::
  "(db \<Rightarrow> db) \<Rightarrow> AccountId \<Rightarrow> FolderId \<Rightarrow> u32 \<Rightarrow> u32 \<Rightarrow> time \<Rightarrow> MessageFlags \<Rightarrow> ParsedMessage \<Rightarrow> ('z, RecordedMessage) dbm"
where
  "record_body env a f uid uidvalidity internal_date flags p =
    bindE (find_or_create env a p) (\<lambda>(message_id, created).
    bindE generate_token (\<lambda>token.
    bindE (upsert_location \<lparr>nl_token = token, nl_message_id = message_id, nl_folder_id = f, nl_uid = uid,
      nl_uidvalidity = uidvalidity, nl_flags = flags, nl_internal_date = internal_date\<rparr>) (\<lambda>_.
    ret \<lparr>rm_message_id = message_id, rm_created = created\<rparr>)))"

definition record_parsed_message ::
  "AccountId \<Rightarrow> FolderId \<Rightarrow> u32 \<Rightarrow> u32 \<Rightarrow> time \<Rightarrow> MessageFlags \<Rightarrow> ParsedMessage \<Rightarrow> ('z, RecordedMessage) dbm"
where
  "record_parsed_message a f uid uidvalidity internal_date flags p =
    transaction (record_body (\<lambda>d. d) a f uid uidvalidity internal_date flags p)"

section \<open>The other operations\<close>

definition delete_locations_for_folder :: "FolderId \<Rightarrow> ('z, nat) dbm" where
  "delete_locations_for_folder f = transaction (delete_by_folder_id f)"

definition get_message_for_account :: "AccountId \<Rightarrow> MessageId \<Rightarrow> ('z, Message option) dbm" where
  "get_message_for_account a i = read_only_transaction (find_by_id_for_account a i)"

definition list_messages_for_account :: "AccountId \<Rightarrow> u32 \<Rightarrow> u32 \<Rightarrow> ('z, Message list) dbm" where
  "list_messages_for_account a limit offset = read_only_transaction (list_for_account a limit offset)"

definition get_messages_by_ids :: "UserId \<Rightarrow> MessageId list \<Rightarrow> ('z, Message list) dbm" where
  "get_messages_by_ids u ids = read_only_transaction (list_by_ids_for_user u ids)"

text \<open>A token names the message of its id.\<close>

definition get_message_with_attachments ::
  "UserId \<Rightarrow> MessageId \<Rightarrow> ('z, (Message \<times> MessageAttachment list) option) dbm"
where
  "get_message_with_attachments u token_id =
    read_only_transaction (bindE (find_by_id_for_user u token_id) (\<lambda>found.
      case found of
        None \<Rightarrow> ret None
      | Some m \<Rightarrow> bindE (list_for_message (msg_id m)) (\<lambda>atts. ret (Some (m, atts)))))"

section \<open>The invariant of the mail tables\<close>

text \<open>
  Ids are unique, a message is unique for its account and content, a location for its message
  and folder, and every reference names a row.
\<close>

definition messages_ok :: "db \<Rightarrow> bool" where
  "messages_ok d \<longleftrightarrow> distinct (map msg_id (tbl_messages d)) \<and>
     distinct (map (\<lambda>m. (msg_account_id m, msg_content_hash m)) (tbl_messages d)) \<and>
     (\<forall>m \<in> set (tbl_messages d). account_exists (msg_account_id m) d)"

definition locations_ok :: "db \<Rightarrow> bool" where
  "locations_ok d \<longleftrightarrow> distinct (map loc_id (tbl_locations d)) \<and>
     distinct (map (\<lambda>l. (loc_message_id l, loc_folder_id l)) (tbl_locations d)) \<and>
     (\<forall>l \<in> set (tbl_locations d). message_exists (loc_message_id l) d \<and> folder_exists (loc_folder_id l) d)"

definition attachments_ok :: "db \<Rightarrow> bool" where
  "attachments_ok d \<longleftrightarrow> distinct (map att_id (tbl_attachments d)) \<and>
     (\<forall>a \<in> set (tbl_attachments d). message_exists (att_message_id a) d \<and> account_exists (att_account_id a) d)"

definition mail_ok :: "db \<Rightarrow> bool" where
  "mail_ok d \<longleftrightarrow> messages_ok d \<and> locations_ok d \<and> attachments_ok d"

lemmas mail_ok_defs = mail_ok_def messages_ok_def locations_ok_def attachments_ok_def
lemmas exists_defs = account_exists_def folder_exists_def message_exists_def

lemma insert_message_Inr:
  assumes "insert_message m d = Inr (x, d')"
  shows "x = m" and "d' = d\<lparr>tbl_messages := tbl_messages d @ [m]\<rparr>" and "msg_id m \<notin> msg_id ` set (tbl_messages d)"
    and "\<forall>y \<in> set (tbl_messages d). \<not> same_content (msg_account_id m) (msg_content_hash m) y"
    and "account_exists (msg_account_id m) d"
  using assms by (auto simp: insert_message_def split: if_splits)

lemma insert_message_ok:
  assumes "mail_ok d" and "insert_message m d = Inr (x, d')"
  shows "mail_ok d'"
  using assms(1) insert_message_Inr [OF assms(2)]
  by (fastforce simp: mail_ok_defs exists_defs same_content_def)

lemma insert_location_Inr:
  assumes "insert_location l d = Inr (x, d')"
  shows "x = l" and "d' = d\<lparr>tbl_locations := tbl_locations d @ [l]\<rparr>" and "loc_id l \<notin> loc_id ` set (tbl_locations d)"
    and "\<forall>y \<in> set (tbl_locations d). \<not> at_place (loc_message_id l) (loc_folder_id l) y"
    and "message_exists (loc_message_id l) d" and "folder_exists (loc_folder_id l) d"
  using assms by (auto simp: insert_location_def split: if_splits)

lemma insert_location_ok:
  assumes "mail_ok d" and "insert_location l d = Inr (x, d')"
  shows "mail_ok d'"
  using assms(1) insert_location_Inr [OF assms(2)]
  by (fastforce simp: mail_ok_defs exists_defs at_place_def)

lemma insert_attachment_Inr:
  assumes "insert_attachment a d = Inr (x, d')"
  shows "x = a" and "d' = d\<lparr>tbl_attachments := tbl_attachments d @ [a]\<rparr>"
    and "att_id a \<notin> att_id ` set (tbl_attachments d)" and "message_exists (att_message_id a) d"
    and "account_exists (att_account_id a) d"
  using assms by (auto simp: insert_attachment_def split: if_splits)

lemma insert_attachment_ok:
  assumes "mail_ok d" and "insert_attachment a d = Inr (x, d')"
  shows "mail_ok d'"
  using assms(1) insert_attachment_Inr [OF assms(2)]
  by (fastforce simp: mail_ok_defs exists_defs)

lemma update_location_ok:
  assumes ok: "mail_ok d" and f: "\<And>l. loc_id (f l) = loc_id l" "\<And>l. loc_message_id (f l) = loc_message_id l"
    "\<And>l. loc_folder_id (f l) = loc_folder_id l"
    and up: "update_location i f d = Inr (x, d')"
  shows "mail_ok d'"
proof -
  have d': "d' = d\<lparr>tbl_locations := update_where (\<lambda>l. loc_id l = i) f (tbl_locations d)\<rparr>"
    using up by (auto simp: update_location_def split: option.splits)
  have "map (\<lambda>l. (loc_message_id l, loc_folder_id l)) (update_where (\<lambda>l. loc_id l = i) f (tbl_locations d))
      = map (\<lambda>l. (loc_message_id l, loc_folder_id l)) (tbl_locations d)"
    by (rule map_update_where) (simp add: f)
  with ok show ?thesis
    by (auto simp: d' mail_ok_defs exists_defs map_update_where f elim!: in_update_whereE)
qed

lemma moved_location_keys [simp]:
  "loc_id (moved_location now n v l) = loc_id l" "loc_message_id (moved_location now n v l) = loc_message_id l"
  "loc_folder_id (moved_location now n v l) = loc_folder_id l"
  by (simp_all add: moved_location_def)

lemma keeps_mail_ok_statements [keeps_intros]:
  "keeps mail_ok (execute (insert_message m))" "keeps mail_ok (execute (insert_location l))"
  "keeps mail_ok (execute (insert_attachment a))"
  "keeps mail_ok (execute (update_location i (moved_location now n v)))"
proof -
  show "keeps mail_ok (execute (insert_message m))" by (rule keeps_execute) (rule insert_message_ok)
  show "keeps mail_ok (execute (insert_location l))" by (rule keeps_execute) (rule insert_location_ok)
  show "keeps mail_ok (execute (insert_attachment a))" by (rule keeps_execute) (rule insert_attachment_ok)
  show "keeps mail_ok (execute (update_location i (moved_location now n v)))"
    by (rule keeps_execute) (rule update_location_ok; simp)
qed

lemma message_exists_map: "message_exists i d \<longleftrightarrow> i \<in> set (map msg_id (tbl_messages d))"
  by (auto simp: message_exists_def)

lemma messages_ok_map:
  "messages_ok d \<longleftrightarrow> distinct (map msg_id (tbl_messages d)) \<and>
     distinct (map (\<lambda>m. (msg_account_id m, msg_content_hash m)) (tbl_messages d)) \<and>
     (\<forall>a \<in> set (map msg_account_id (tbl_messages d)). account_exists a d)"
  by (simp add: messages_ok_def)

lemma keeps_mail_ok_indexed [keeps_intros]: "keeps mail_ok (execute (set_indexed p b))"
proof (rule keeps_execute)
  fix d x d'
  assume ok: "mail_ok d" and run: "set_indexed p b d = Inr (x, d')"
  then have d': "d' = d\<lparr>tbl_messages := update_where p (\<lambda>m. m\<lparr>msg_indexed := b\<rparr>) (tbl_messages d)\<rparr>"
    by (simp add: set_indexed_def)
  have maps: "map msg_id (tbl_messages d') = map msg_id (tbl_messages d)"
    "map msg_account_id (tbl_messages d') = map msg_account_id (tbl_messages d)"
    "map (\<lambda>m. (msg_account_id m, msg_content_hash m)) (tbl_messages d')
      = map (\<lambda>m. (msg_account_id m, msg_content_hash m)) (tbl_messages d)"
    unfolding d' by (simp_all add: map_update_where)
  have same: "tbl_accounts d' = tbl_accounts d" "tbl_folders d' = tbl_folders d"
    "tbl_locations d' = tbl_locations d" "tbl_attachments d' = tbl_attachments d"
    unfolding d' by simp_all
  show "mail_ok d'"
    using ok unfolding mail_ok_def messages_ok_map locations_ok_def attachments_ok_def message_exists_map
      account_exists_def folder_exists_def maps same .
qed

lemma keeps_mail_ok_delete [keeps_intros]: "keeps mail_ok (delete_by_folder_id f)"
proof -
  have "keeps mail_ok (execute (\<lambda>d. Inr (count_where (\<lambda>l. loc_folder_id l = f) (tbl_locations d),
      d\<lparr>tbl_locations := delete_where (\<lambda>l. loc_folder_id l = f) (tbl_locations d)\<rparr>)))"
    by (rule keeps_execute) (auto simp: mail_ok_defs exists_defs intro: distinct_map_delete_where)
  then show ?thesis unfolding delete_by_folder_id_def by (intro keeps_intros)
qed

lemma keeps_env: "(\<And>d. P d \<Longrightarrow> P (env d)) \<Longrightarrow> keeps P (modifyE (\<lambda>s. s\<lparr>tx_db := env (tx_db s)\<rparr>))"
  by (rule keepsI) simp

lemma keeps_find_or_create:
  assumes env: "\<And>d. mail_ok d \<Longrightarrow> mail_ok (env d)"
  shows "keeps mail_ok (find_or_create env a p)"
proof -
  have cr: "keeps mail_ok (create_message n)" for n
    unfolding create_message_def by (intro keeps_intros)
  have ca: "keeps mail_ok (create_attachments rows)" for rows
    unfolding create_attachments_def by (intro keeps_intros)
  have fd: "keeps mail_ok (find_by_account_and_content_hash a h)" for h
    unfolding find_by_account_and_content_hash_def by (intro keeps_intros)
  have er: "keeps mail_ok (case e of RepoError (Constraint _) \<Rightarrow>
        bindE (find_by_account_and_content_hash a (pm_content_hash p)) (\<lambda>winner.
          case winner of Some w \<Rightarrow> ret (msg_id w, False) | None \<Rightarrow> throw (RepoError Conflict))
      | _ \<Rightarrow> throw e)" for e
    by (auto intro!: keeps_intros fd split: Error.splits RepositoryError.splits)
  show ?thesis
    unfolding find_or_create_def by (intro keeps_intros keeps_env env cr ca fd er)
qed

lemma keeps_upsert [keeps_intros]: "keeps mail_ok (upsert_location n)"
  unfolding upsert_location_def by (intro keeps_intros)

lemma keeps_record [keeps_intros]: "keeps mail_ok (record_parsed_message a f uid uv dt fl p)"
  unfolding record_parsed_message_def record_body_def
  by (auto intro!: keeps_intros keeps_find_or_create split: prod.splits)

text \<open>
  The message service keeps the archive consistent under every schedule of database
  failures: ids stay unique, an account has one message per content, a folder one location per
  message, and no location or attachment loses the rows it refers to.
\<close>

theorem message_service_keeps_mail_ok:
  assumes "mail_ok (tx_db s)"
  shows "mail_ok (tx_db (snd (record_parsed_message a f uid uv dt fl p s))) \<and>
    mail_ok (tx_db (snd (delete_locations_for_folder f s))) \<and>
    mail_ok (tx_db (snd (transaction (mark_indexed ids) s))) \<and>
    mail_ok (tx_db (snd (transaction reset_all_indexed s)))"
proof -
  have "keeps mail_ok (delete_locations_for_folder f :: ('a, nat) dbm)"
    and "keeps mail_ok (transaction (mark_indexed ids) :: ('a, unit) dbm)"
    and "keeps mail_ok (transaction reset_all_indexed :: ('a, nat) dbm)"
    unfolding delete_locations_for_folder_def mark_indexed_def reset_all_indexed_def
    by (intro keeps_intros)+
  from this [THEN keepsD, OF assms] keepsD [OF keeps_record assms] show ?thesis by blast
qed

end
