(* ===== verification/MessageProps.thy ===== *)
theory MessageProps
  imports MessageService
begin

text \<open>
  What recording a message does to the archive: one message per content whoever wins a race,
  its attachments, its location; and what the reads return to whom.
\<close>

section \<open>Small steps\<close>

lemma execute_run:
  assumes "execute f s = (Inr x, t)"
  shows "f (tx_db s) = Inr (x, tx_db t)" and "tx_now t = tx_now s"
  using execute_Inr [OF assms] by blast+

lemma requireE_Inr: "requireE b e s = (Inr u, t) \<Longrightarrow> b \<and> t = s"
  by (simp add: requireE_apply split: if_splits)

lemma token_Inr: "generate_token s = (Inr i, t) \<Longrightarrow> tx_db t = tx_db s \<and> tx_now t = tx_now s"
  by (auto simp: generate_token_def)

lemma find_content_Inr:
  assumes "find_by_account_and_content_hash a h s = (Inr o1, t)"
  shows "o1 = find_row (same_content a h) (tbl_messages (tx_db s))" and "tx_db t = tx_db s" and "tx_now t = tx_now s"
proof -
  from assms obtain s1 where "requireE (a \<noteq> 0) (InvalidId a) s = (Inr (), s1)"
      "query (\<lambda>d. find_row (same_content a h) (tbl_messages d)) s1 = (Inr o1, t)"
    by (auto simp: find_by_account_and_content_hash_def bindE_Inr_iff [of "requireE _ _"])
  with requireE_Inr [of "a \<noteq> 0" "InvalidId a" s "()" s1] query_Inr [of "\<lambda>d. find_row (same_content a h) (tbl_messages d)" s1 o1 t]
  show "o1 = find_row (same_content a h) (tbl_messages (tx_db s))"
    "tx_db t = tx_db s" "tx_now t = tx_now s" by simp_all
qed

lemma create_message_Inr:
  assumes "create_message n s = (Inr m, t)"
  shows "m = new_message (tx_now s) n" and "insert_message m (tx_db s) = Inr (m, tx_db t)" and "tx_now t = tx_now s"
proof -
  from assms have "execute (insert_message (new_message (tx_now s) n)) s = (Inr m, t)"
    by (auto simp: create_message_def utc_now_def bindE_Inr_iff [of "requireE _ _"] dest!: requireE_Inr)
  note run = execute_run [OF this]
  from insert_message_Inr(1) [OF run(1)] run show "m = new_message (tx_now s) n"
    "insert_message m (tx_db s) = Inr (m, tx_db t)" "tx_now t = tx_now s" by auto
qed

lemma create_message_Inl: "create_message n s = (Inl e, t) \<Longrightarrow> tx_db t = tx_db s"
  by (auto simp: create_message_def utc_now_def bindE_Inl_iff [of "requireE _ _"] requireE_apply dest: execute_Inl
      split: if_splits)

lemma attachment_rows_Inr:
  assumes "mapE (\<lambda>x. bindE generate_token (\<lambda>t. ret (attachment_row t i a x))) xs s = (Inr rows, t)"
  shows "tx_db t = tx_db s \<and> tx_now t = tx_now s \<and>
    list_all2 (\<lambda>row x. \<exists>token. row = attachment_row token i a x) rows xs"
  using assms
proof (induction xs arbitrary: s rows)
  case Nil
  then show ?case by (simp add: act_eval)
next
  case (Cons x xs)
  from Cons.prems obtain y s1 ys where y: "bindE generate_token (\<lambda>t. ret (attachment_row t i a x)) s = (Inr y, s1)"
    and ys: "mapE (\<lambda>x. bindE generate_token (\<lambda>t. ret (attachment_row t i a x))) xs s1 = (Inr ys, t)"
    and rows: "rows = y # ys"
    unfolding mapE.simps bindE_Inr_iff [of "bindE generate_token _"] bindE_Inr_iff [of "mapE _ _"]
    by (auto simp: act_eval)
  from y have "tx_db s1 = tx_db s" "tx_now s1 = tx_now s" "\<exists>token. y = attachment_row token i a x"
    by (auto simp: bindE_def generate_token_def act_eval)
  with Cons.IH [OF ys] rows show ?case by auto
qed

definition attachment_of :: "MessageId \<Rightarrow> AccountId \<Rightarrow> ParsedAttachment \<Rightarrow> MessageAttachment \<Rightarrow> bool" where
  "attachment_of i a x att \<longleftrightarrow> att_message_id att = i \<and> att_account_id att = a \<and>
     att_content_hash att = pa_content_hash x \<and> att_filename att = pa_filename x \<and>
     att_content_type att = pa_content_type x \<and> att_size_bytes att = pa_size_bytes x \<and>
     att_is_inline att = pa_is_inline x \<and> att_content_id att = pa_content_id x"

text \<open>The columns of a message that is recorded from parsed mail.\<close>

definition message_of :: "AccountId \<Rightarrow> ParsedMessage \<Rightarrow> Message \<Rightarrow> bool" where
  "message_of a p m \<longleftrightarrow> msg_account_id m = a \<and> msg_content_hash m = pm_content_hash p \<and>
     msg_rfc822_message_id m = pm_rfc822_message_id p \<and> msg_subject m = pm_subject p \<and>
     msg_from_address m = pm_from_address p \<and> msg_from_name m = pm_from_name p \<and>
     msg_to_addresses m = pm_to_addresses p \<and> msg_cc_addresses m = pm_cc_addresses p \<and>
     msg_bcc_addresses m = pm_bcc_addresses p \<and> msg_reply_to_addresses m = pm_reply_to_addresses p \<and>
     msg_sent_date m = pm_sent_date p \<and> msg_in_reply_to m = pm_in_reply_to p \<and>
     msg_references m = pm_references p \<and> msg_snippet m = pm_snippet p \<and> msg_size_bytes m = pm_size_bytes p \<and>
     (msg_has_attachments m \<longleftrightarrow> pm_attachments p \<noteq> []) \<and>
     msg_attachment_count m = min (int (length (pm_attachments p))) (2 ^ 31 - 1) \<and> \<not> msg_indexed m"

lemma new_message_of: "message_of a p (new_message now (message_row token a p))"
  by (simp add: message_of_def new_message_def message_row_def clamp_i32_def)

lemma insert_attachments_Inr:
  assumes "mapE (\<lambda>row. bindE (requireE (na_message_id row \<noteq> 0) (InvalidId (na_message_id row))) (\<lambda>_.
      bindE (requireE (na_account_id row \<noteq> 0) (InvalidId (na_account_id row))) (\<lambda>_.
      execute (insert_attachment (new_attachment now row))))) rows s = (Inr atts, t)"
  shows "atts = map (new_attachment now) rows \<and>
    tx_db t = tx_db s\<lparr>tbl_attachments := tbl_attachments (tx_db s) @ atts\<rparr>"
  using assms
proof (induction rows arbitrary: s atts)
  case Nil
  then show ?case by (simp add: act_eval)
next
  case (Cons r rows)
  from Cons.prems obtain y s1 ys where y: "execute (insert_attachment (new_attachment now r)) s = (Inr y, s1)"
    and ys: "mapE (\<lambda>row. bindE (requireE (na_message_id row \<noteq> 0) (InvalidId (na_message_id row))) (\<lambda>_.
      bindE (requireE (na_account_id row \<noteq> 0) (InvalidId (na_account_id row))) (\<lambda>_.
      execute (insert_attachment (new_attachment now row))))) rows s1 = (Inr ys, t)"
    and rows: "atts = y # ys"
    by (auto simp: bindE_Inr_iff act_eval dest!: requireE_Inr)
  note ins = insert_attachment_Inr [OF execute_run(1) [OF y]]
  from Cons.IH [OF ys] ins(1,2) rows show ?case by simp
qed

lemma create_attachments_Inr:
  assumes "create_attachments rows s = (Inr atts, t)"
  shows "atts = map (new_attachment (tx_now s)) rows \<and>
    tx_db t = tx_db s\<lparr>tbl_attachments := tbl_attachments (tx_db s) @ atts\<rparr>"
  using assms by (auto simp: create_attachments_def utc_now_def dest: insert_attachments_Inr)

lemma attachments_of_rows:
  assumes "list_all2 (\<lambda>row x. \<exists>token. row = attachment_row token i a x) rows xs"
  shows "list_all2 (\<lambda>att x. attachment_of i a x att) (map (new_attachment now) rows) xs"
  using assms
  by (induction rule: list_all2_induct) (auto simp: attachment_of_def new_attachment_def attachment_row_def)

section \<open>The dedup step\<close>

text \<open>
  \<open>resolved\<close>: the outcome of the dedup step from the tables \<open>d\<close> the insert saw to
  the tables \<open>d'\<close> it left.
\<close>

definition resolved :: "AccountId \<Rightarrow> ParsedMessage \<Rightarrow> db \<Rightarrow> db \<Rightarrow> MessageId \<Rightarrow> bool \<Rightarrow> bool" where
  "resolved a p d d' i created \<longleftrightarrow>
    (if created then
       (\<exists>m atts. d' = d\<lparr>tbl_messages := tbl_messages d @ [m], tbl_attachments := tbl_attachments d @ atts\<rparr> \<and>
          msg_id m = i \<and> message_of a p m \<and>
          (\<forall>x \<in> set (tbl_messages d). \<not> same_content a (pm_content_hash p) x) \<and>
          list_all2 (\<lambda>att x. attachment_of i a x att) atts (pm_attachments p))
     else d' = d \<and> (\<exists>m \<in> set (tbl_messages d). msg_id m = i \<and> same_content a (pm_content_hash p) m))"

lemma find_or_create_Inr:
  assumes run: "find_or_create env a p s = (Inr (i, created), t)"
  shows "\<exists>d \<in> {tx_db s, env (tx_db s)}. resolved a p d (tx_db t) i created"
proof -
  from run obtain o1 s1 where f: "find_by_account_and_content_hash a (pm_content_hash p) s = (Inr o1, s1)"
    and rest: "(case o1 of
        Some m \<Rightarrow> ret (msg_id m, False)
      | None \<Rightarrow>
          bindE generate_token (\<lambda>token.
          bindE (modifyE (\<lambda>s. s\<lparr>tx_db := env (tx_db s)\<rparr>)) (\<lambda>_.
          handleE (create_message (message_row token a p))
            (\<lambda>m. bindE (mapE (\<lambda>x. bindE generate_token (\<lambda>t. ret (attachment_row t (msg_id m) a x)))
                         (pm_attachments p)) (\<lambda>rows.
                  bindE (create_attachments rows) (\<lambda>_. ret (msg_id m, True))))
            (\<lambda>e. case e of
                RepoError (Constraint _) \<Rightarrow>
                  bindE (find_by_account_and_content_hash a (pm_content_hash p)) (\<lambda>winner.
                    case winner of
                      Some w \<Rightarrow> ret (msg_id w, False)
                    | None \<Rightarrow> throw (RepoError Conflict))
              | _ \<Rightarrow> throw e)))) s1 = (Inr (i, created), t)"
    unfolding find_or_create_def bindE_Inr_iff [of "find_by_account_and_content_hash _ _"] by blast
  note o1 = find_content_Inr [OF f]
  show ?thesis
  proof (cases o1)
    case (Some m)
    from rest [unfolded Some] o1(2) have "i = msg_id m" "\<not> created" "tx_db t = tx_db s" by (simp_all add: act_eval)
    with find_row_Some [OF o1(1) [symmetric, unfolded Some]] show ?thesis
      by (intro bexI [of _ "tx_db s"]) (auto simp: resolved_def)
  next
    case None
    from rest None obtain token s2 where tk: "generate_token s1 = (Inr token, s2)"
      and rest2: "handleE (create_message (message_row token a p))
            (\<lambda>m. bindE (mapE (\<lambda>x. bindE generate_token (\<lambda>t. ret (attachment_row t (msg_id m) a x)))
                         (pm_attachments p)) (\<lambda>rows.
                  bindE (create_attachments rows) (\<lambda>_. ret (msg_id m, True))))
            (\<lambda>e. case e of
                RepoError (Constraint _) \<Rightarrow>
                  bindE (find_by_account_and_content_hash a (pm_content_hash p)) (\<lambda>winner.
                    case winner of
                      Some w \<Rightarrow> ret (msg_id w, False)
                    | None \<Rightarrow> throw (RepoError Conflict))
              | _ \<Rightarrow> throw e) (s2\<lparr>tx_db := env (tx_db s2)\<rparr>) = (Inr (i, created), t)"
      by (auto simp: bindE_Inr_iff [of generate_token])
    let ?s3 = "s2\<lparr>tx_db := env (tx_db s2)\<rparr>"
    from token_Inr [OF tk] o1 have d: "tx_db ?s3 = env (tx_db s)" by simp
    obtain c s4 where c: "create_message (message_row token a p) ?s3 = (c, s4)"
      by (cases "create_message (message_row token a p) ?s3")
    show ?thesis
    proof (cases c)
      case (Inl e)
      with c have s4: "tx_db s4 = env (tx_db s)" using create_message_Inl d by metis
      from rest2 c Inl have "(case e of
                RepoError (Constraint _) \<Rightarrow>
                  bindE (find_by_account_and_content_hash a (pm_content_hash p)) (\<lambda>winner.
                    case winner of
                      Some w \<Rightarrow> ret (msg_id w, False)
                    | None \<Rightarrow> throw (RepoError Conflict))
              | _ \<Rightarrow> throw e) s4 = (Inr (i, created), t)" by (simp add: handleE_def)
      then obtain o2 s5 where "find_by_account_and_content_hash a (pm_content_hash p) s4 = (Inr o2, s5)"
        and "(case o2 of Some w \<Rightarrow> ret (msg_id w, False) | None \<Rightarrow> throw (RepoError Conflict)) s5 = (Inr (i, created), t)"
        by (auto simp: act_eval bindE_Inr_iff split: Error.splits RepositoryError.splits)
      with find_content_Inr obtain w where "o2 = Some w" "o2 = find_row (same_content a (pm_content_hash p)) (tbl_messages (tx_db s4))"
          "i = msg_id w" "\<not> created" "tx_db t = tx_db s4"
        by (cases o2) (fastforce simp: act_eval)+
      with s4 show ?thesis
        by (intro bexI [of _ "env (tx_db s)"]) (auto simp: resolved_def dest!: find_row_Some)
    next
      case (Inr m)
      with c have "create_message (message_row token a p) ?s3 = (Inr m, s4)" by simp
      note cm = create_message_Inr [OF this]
      from rest2 c Inr obtain rows s5 atts s6 where
        rows: "mapE (\<lambda>x. bindE generate_token (\<lambda>t. ret (attachment_row t (msg_id m) a x))) (pm_attachments p) s4 = (Inr rows, s5)"
        and atts: "create_attachments rows s5 = (Inr atts, s6)"
        and fin: "i = msg_id m" "created" "t = s6"
        by (auto simp: handleE_def bindE_Inr_iff act_eval)
      note ro = attachment_rows_Inr [OF rows]
      note at = create_attachments_Inr [OF atts]
      note ins = insert_message_Inr [OF cm(2) [unfolded d]]
      have m: "message_of a p m" "msg_account_id m = a" "msg_content_hash m = pm_content_hash p"
        using new_message_of by (simp_all add: cm(1) new_message_def message_row_def)
      have "resolved a p (env (tx_db s)) (tx_db t) i created"
        unfolding resolved_def
        using fin m ins(2,4) at ro attachments_of_rows [OF ro [THEN conjunct2, THEN conjunct2], of "tx_now s5"]
        by (auto intro!: exI [of _ m] exI [of _ atts])
      then show ?thesis by blast
    qed
  qed
qed

section \<open>Recording a message\<close>

text \<open>
  \<open>placed\<close>: an upsert leaves exactly one location row at its place, with the columns given,
  the rows of every other place as they were, and every other table alone.
\<close>

definition placed :: "NewMessageLocationRow \<Rightarrow> db \<Rightarrow> db \<Rightarrow> MessageLocation \<Rightarrow> bool" where
  "placed n d d' l \<longleftrightarrow> loc_uid l = nl_uid n \<and>
     loc_uidvalidity l = nl_uidvalidity n \<and> loc_flags l = nl_flags n \<and> loc_internal_date l = nl_internal_date n \<and>
     filter (at_place (nl_message_id n) (nl_folder_id n)) (tbl_locations d') = [l] \<and>
     filter (\<lambda>x. \<not> at_place (nl_message_id n) (nl_folder_id n) x) (tbl_locations d') =
       filter (\<lambda>x. \<not> at_place (nl_message_id n) (nl_folder_id n) x) (tbl_locations d) \<and>
     d' = d\<lparr>tbl_locations := tbl_locations d'\<rparr>"

lemma placed_at:
  assumes "placed n d d' l"
  shows "at_place (nl_message_id n) (nl_folder_id n) l" and "l \<in> set (tbl_locations d')"
    and "x \<in> set (tbl_locations d) \<Longrightarrow> \<not> at_place (nl_message_id n) (nl_folder_id n) x \<Longrightarrow> x \<in> set (tbl_locations d')"
proof -
  from assms have one: "filter (at_place (nl_message_id n) (nl_folder_id n)) (tbl_locations d') = [l]"
    and rest: "filter (\<lambda>x. \<not> at_place (nl_message_id n) (nl_folder_id n) x) (tbl_locations d') =
       filter (\<lambda>x. \<not> at_place (nl_message_id n) (nl_folder_id n) x) (tbl_locations d)"
    by (simp_all add: placed_def)
  from one show "at_place (nl_message_id n) (nl_folder_id n) l" "l \<in> set (tbl_locations d')"
    by (auto dest: filter_eq_ConsD)
  from arg_cong [OF rest, of set] show "x \<in> set (tbl_locations d) \<Longrightarrow> \<not> at_place (nl_message_id n) (nl_folder_id n) x \<Longrightarrow>
      x \<in> set (tbl_locations d')" by auto
qed

text \<open>Changing one row of a table that is unique for a key splits it as wanted.\<close>

lemma filter_update_one:
  assumes "distinct (map g rows)" and "k \<in> set rows" and "\<And>x. P x \<longleftrightarrow> g x = g k"
    and "\<And>x. g (f x) = g x" and "\<And>x. x \<in> set rows \<Longrightarrow> q x \<longleftrightarrow> x = k"
  shows "filter P (update_where q f rows) = [f k]"
    and "filter (\<lambda>x. \<not> P x) (update_where q f rows) = filter (\<lambda>x. \<not> P x) rows"
proof -
  have "filter P (update_where q f rows) = [f k] \<and> filter (\<lambda>x. \<not> P x) (update_where q f rows) = filter (\<lambda>x. \<not> P x) rows"
    using assms(1,2,5)
  proof (induction rows)
    case (Cons y ys)
    show ?case
    proof (cases "y = k")
      case True
      with Cons.prems(1) have "\<forall>x \<in> set ys. g x \<noteq> g k" by (auto simp: image_iff)
      then have "\<forall>x \<in> set ys. g x \<noteq> g k" "k \<notin> set ys" by auto
      then have "update_where q f ys = ys" "filter (\<lambda>a. g a = g k) ys = []"
        using Cons.prems(3) by (auto simp: assms(3) filter_empty_conv update_where_def intro!: map_idI)
      moreover have "P = (\<lambda>a. g a = g k)" using assms(3) by auto
      ultimately show ?thesis using True Cons.prems(3) assms(4) by (simp add: update_where_def)
    next
      case False
      with Cons.prems have "k \<in> set ys" "g y \<noteq> g k" by (auto simp: image_iff)
      with False Cons show ?thesis by (auto simp: update_where_def assms(3))
    qed
  qed simp
  then show "filter P (update_where q f rows) = [f k]"
    and "filter (\<lambda>x. \<not> P x) (update_where q f rows) = filter (\<lambda>x. \<not> P x) rows" by auto
qed

lemma upsert_location_Inr:
  assumes ok: "mail_ok (tx_db s)" and run0: "upsert_location n s = (Inr l, t)"
  shows "placed n (tx_db s) (tx_db t) l"
proof -
  from run0 obtain o1 s1 where q: "query (\<lambda>d. find_row (at_place (nl_message_id n) (nl_folder_id n)) (tbl_locations d)) s = (Inr o1, s1)"
    and rest: "(case o1 of
        Some l \<Rightarrow> execute (update_location (loc_id l) (moved_location (tx_now s) n (loc_version l + 1)))
      | None \<Rightarrow> execute (insert_location (new_location (tx_now s) n))) s1 = (Inr l, t)"
    by (auto simp: upsert_location_def utc_now_def bindE_Inr_iff [of "requireE _ _"] bindE_Inr_iff [of "query _"]
        dest!: requireE_Inr)
  from query_Inr [OF q] have o1: "o1 = find_row (at_place (nl_message_id n) (nl_folder_id n)) (tbl_locations (tx_db s))"
    and s1: "tx_db s1 = tx_db s" by auto
  show ?thesis
  proof (cases o1)
    case None
    with rest have "execute (insert_location (new_location (tx_now s) n)) s1 = (Inr l, t)" by simp
    note ins = insert_location_Inr [OF execute_run(1) [OF this]]
    with s1 o1 [symmetric, unfolded None] show ?thesis
      by (auto simp: placed_def new_location_def at_place_def find_row_None filter_empty_conv)
  next
    case (Some k)
    let ?f = "moved_location (tx_now s) n (loc_version k + 1)"
    from rest Some have run: "execute (update_location (loc_id k) ?f) s1 = (Inr l, t)" by simp
    from find_row_Some [OF o1 [symmetric, unfolded Some]] have k: "k \<in> set (tbl_locations (tx_db s))"
      "at_place (nl_message_id n) (nl_folder_id n) k" by auto
    from ok have dis: "distinct (map loc_id (tbl_locations (tx_db s)))" by (simp add: mail_ok_defs)
    from find_row_key_eq [OF dis k(1) refl] execute_run(1) [OF run] s1 have l: "l = ?f k"
      and t: "tx_db t = tx_db s\<lparr>tbl_locations := update_where (\<lambda>x. loc_id x = loc_id k) ?f (tbl_locations (tx_db s))\<rparr>"
      by (auto simp: update_location_def)
    have same: "x = k" if "x \<in> set (tbl_locations (tx_db s))" "loc_id x = loc_id k" for x
      using dis that k(1) by (auto simp: distinct_map dest: inj_onD)
    have keys: "distinct (map (\<lambda>l. (loc_message_id l, loc_folder_id l)) (tbl_locations (tx_db s)))"
      using ok by (simp add: mail_ok_defs)
    note upd = filter_update_one [OF keys k(1), where P = "at_place (nl_message_id n) (nl_folder_id n)"
        and f = ?f and q = "\<lambda>x. loc_id x = loc_id k"]
    have "filter (at_place (nl_message_id n) (nl_folder_id n)) (tbl_locations (tx_db t)) = [l]"
      unfolding t l using k(2) same by (simp add: at_place_def) (rule upd(1), auto simp: at_place_def)
    moreover have "filter (\<lambda>x. \<not> at_place (nl_message_id n) (nl_folder_id n) x) (tbl_locations (tx_db t)) =
        filter (\<lambda>x. \<not> at_place (nl_message_id n) (nl_folder_id n) x) (tbl_locations (tx_db s))"
      unfolding t using k(2) same by simp (rule upd(2), auto simp: at_place_def)
    ultimately show ?thesis
      using t by (auto simp: placed_def l moved_location_def)
  qed
qed

lemma resolved_mail:
  assumes "resolved a p d d' i created"
  shows "\<exists>m \<in> set (tbl_messages d'). msg_id m = i \<and> same_content a (pm_content_hash p) m"
  using assms by (auto simp: resolved_def message_of_def same_content_def split: if_splits)

lemma record_Inr:
  fixes s :: "'z tx_scheme"
  assumes ok: "mail_ok (tx_db s)" and run: "record_parsed_message a f uid uv dt fl p s = (Inr r, t)"
  shows "\<exists>d1 l token. resolved a p (tx_db s) d1 (rm_message_id r) (rm_created r) \<and>
    placed \<lparr>nl_token = token, nl_message_id = rm_message_id r, nl_folder_id = f, nl_uid = uid,
      nl_uidvalidity = uv, nl_flags = fl, nl_internal_date = dt\<rparr> d1 (tx_db t) l"
proof -
  from run obtain s0 s1 :: "'z tx_scheme" where s0: "tx_db s0 = tx_db s" "tx_now s0 = tx_now s"
      "record_body (\<lambda>d. d) a f uid uv dt fl p s0 = (Inr r, s1)" "tx_db t = tx_db s1"
    unfolding record_parsed_message_def by (rule transaction_Inr)
  from s0(3) obtain i c s2 token s3 l s4 where
    fc: "find_or_create (\<lambda>d. d) a p s0 = (Inr (i, c), s2)" and tk: "generate_token s2 = (Inr token, s3)"
    and up: "upsert_location \<lparr>nl_token = token, nl_message_id = i, nl_folder_id = f, nl_uid = uid,
      nl_uidvalidity = uv, nl_flags = fl, nl_internal_date = dt\<rparr> s3 = (Inr l, s4)"
    and r: "r = \<lparr>rm_message_id = i, rm_created = c\<rparr>" "s1 = s4"
    by (auto simp: record_body_def bindE_Inr_iff act_eval split: prod.splits)
  from find_or_create_Inr [OF fc] s0(1) have res: "resolved a p (tx_db s) (tx_db s2) i c" by simp
  have "mail_ok (tx_db s2)"
    using keeps_eqD [OF keeps_find_or_create [of "\<lambda>d. d"] _ fc] ok s0(1) by simp
  with token_Inr [OF tk] have "mail_ok (tx_db s3)" "tx_db s3 = tx_db s2" by simp_all
  from upsert_location_Inr [OF this(1) up] this(2) res r s0(4) show ?thesis by auto
qed

lemma record_effect:
  assumes "mail_ok (tx_db s)" and "record_parsed_message a f uid uv dt fl p s = (Inr r, t)"
  shows "(\<exists>m. filter (same_content a (pm_content_hash p)) (tbl_messages (tx_db t)) = [m] \<and> msg_id m = rm_message_id r) \<and>
    (rm_created r \<longleftrightarrow> filter (same_content a (pm_content_hash p)) (tbl_messages (tx_db s)) = []) \<and>
    (if rm_created r
     then \<exists>m atts. tbl_messages (tx_db t) = tbl_messages (tx_db s) @ [m] \<and>
       tbl_attachments (tx_db t) = tbl_attachments (tx_db s) @ atts \<and>
       list_all2 (\<lambda>att x. attachment_of (rm_message_id r) a x att) atts (pm_attachments p)
     else tbl_messages (tx_db t) = tbl_messages (tx_db s) \<and> tbl_attachments (tx_db t) = tbl_attachments (tx_db s)) \<and>
    (\<exists>l \<in> set (tbl_locations (tx_db t)). at_place (rm_message_id r) f l \<and> loc_uid l = uid \<and>
       loc_uidvalidity l = uv \<and> loc_flags l = fl \<and> loc_internal_date l = dt) \<and>
    (\<forall>l \<in> set (tbl_locations (tx_db s)). \<not> at_place (rm_message_id r) f l \<longrightarrow> l \<in> set (tbl_locations (tx_db t)))"
proof -
  from record_Inr [OF assms] obtain d1 l token where
    res: "resolved a p (tx_db s) d1 (rm_message_id r) (rm_created r)" and
    pl: "placed \<lparr>nl_token = token, nl_message_id = rm_message_id r, nl_folder_id = f, nl_uid = uid,
      nl_uidvalidity = uv, nl_flags = fl, nl_internal_date = dt\<rparr> d1 (tx_db t) l" by blast
  from pl have t: "tx_db t = d1\<lparr>tbl_locations := tbl_locations (tx_db t)\<rparr>" by (simp add: placed_def)
  have msgs: "tbl_messages (tx_db t) = tbl_messages d1" "tbl_attachments (tx_db t) = tbl_attachments d1"
    by (subst t, simp)+
  have locs: "tbl_locations d1 = tbl_locations (tx_db s)"
    using res by (auto simp: resolved_def split: if_splits)
  have okt: "mail_ok (tx_db t)" using keeps_eqD [OF keeps_record assms(1,2)] .
  from resolved_mail [OF res] obtain m where m: "m \<in> set (tbl_messages (tx_db t))"
    "msg_id m = rm_message_id r" "same_content a (pm_content_hash p) m" by (auto simp: msgs)
  have "count_where (\<lambda>x. (msg_account_id x, msg_content_hash x) = (a, pm_content_hash p) \<and> True) (tbl_messages (tx_db t)) = 1"
    using okt m by (subst count_where_key) (auto simp: mail_ok_defs same_content_def)
  then have "length (filter (same_content a (pm_content_hash p)) (tbl_messages (tx_db t))) = 1"
    by (simp add: count_where_def same_content_def [abs_def])
  then obtain x where x: "filter (same_content a (pm_content_hash p)) (tbl_messages (tx_db t)) = [x]"
    by (auto simp: length_Suc_conv)
  from m have "m \<in> set (filter (same_content a (pm_content_hash p)) (tbl_messages (tx_db t)))" by simp
  then have "x = m" unfolding x by simp
  with x m have one: "\<exists>m. filter (same_content a (pm_content_hash p)) (tbl_messages (tx_db t)) = [m] \<and> msg_id m = rm_message_id r"
    by blast
  have new: "rm_created r \<longleftrightarrow> filter (same_content a (pm_content_hash p)) (tbl_messages (tx_db s)) = []"
    using res by (auto simp: resolved_def filter_empty_conv split: if_splits)
  have shape: "if rm_created r
     then \<exists>m atts. tbl_messages (tx_db t) = tbl_messages (tx_db s) @ [m] \<and>
       tbl_attachments (tx_db t) = tbl_attachments (tx_db s) @ atts \<and>
       list_all2 (\<lambda>att x. attachment_of (rm_message_id r) a x att) atts (pm_attachments p)
     else tbl_messages (tx_db t) = tbl_messages (tx_db s) \<and> tbl_attachments (tx_db t) = tbl_attachments (tx_db s)"
    using res by (auto simp: resolved_def msgs split: if_splits)
  have "\<exists>l \<in> set (tbl_locations (tx_db t)). at_place (rm_message_id r) f l \<and> loc_uid l = uid \<and>
       loc_uidvalidity l = uv \<and> loc_flags l = fl \<and> loc_internal_date l = dt"
    "\<forall>l \<in> set (tbl_locations (tx_db s)). \<not> at_place (rm_message_id r) f l \<longrightarrow> l \<in> set (tbl_locations (tx_db t))"
    using pl locs placed_at [OF pl] by (auto simp: placed_def)
  with one new shape show ?thesis by blast
qed

text \<open>The whole change of the tables.\<close>

lemma record_exact:
  assumes "mail_ok (tx_db s)" and "record_parsed_message a f uid uv dt fl p s = (Inr r, t)"
  shows "tx_db t = (tx_db s)\<lparr>tbl_messages := tbl_messages (tx_db t), tbl_attachments := tbl_attachments (tx_db t),
      tbl_locations := tbl_locations (tx_db t)\<rparr> \<and>
    (if rm_created r
     then \<exists>m atts. msg_id m = rm_message_id r \<and> message_of a p m \<and>
       (\<forall>x \<in> set (tbl_messages (tx_db s)). \<not> same_content a (pm_content_hash p) x) \<and>
       tbl_messages (tx_db t) = tbl_messages (tx_db s) @ [m] \<and>
       tbl_attachments (tx_db t) = tbl_attachments (tx_db s) @ atts \<and>
       list_all2 (\<lambda>att x. attachment_of (rm_message_id r) a x att) atts (pm_attachments p)
     else (\<exists>m \<in> set (tbl_messages (tx_db s)). msg_id m = rm_message_id r \<and> same_content a (pm_content_hash p) m) \<and>
       tbl_messages (tx_db t) = tbl_messages (tx_db s) \<and> tbl_attachments (tx_db t) = tbl_attachments (tx_db s)) \<and>
    (\<exists>l. filter (at_place (rm_message_id r) f) (tbl_locations (tx_db t)) = [l] \<and> loc_uid l = uid \<and>
       loc_uidvalidity l = uv \<and> loc_flags l = fl \<and> loc_internal_date l = dt) \<and>
    filter (\<lambda>l. \<not> at_place (rm_message_id r) f l) (tbl_locations (tx_db t)) =
      filter (\<lambda>l. \<not> at_place (rm_message_id r) f l) (tbl_locations (tx_db s))"
proof -
  from record_Inr [OF assms] obtain d1 l token where
    res: "resolved a p (tx_db s) d1 (rm_message_id r) (rm_created r)" and
    pl: "placed \<lparr>nl_token = token, nl_message_id = rm_message_id r, nl_folder_id = f, nl_uid = uid,
      nl_uidvalidity = uv, nl_flags = fl, nl_internal_date = dt\<rparr> d1 (tx_db t) l" by blast
  from pl have t: "tx_db t = d1\<lparr>tbl_locations := tbl_locations (tx_db t)\<rparr>" by (simp add: placed_def)
  have tabs: "tbl_messages (tx_db t) = tbl_messages d1" "tbl_attachments (tx_db t) = tbl_attachments d1"
    by (subst t, simp)+
  have d1: "d1 = (tx_db s)\<lparr>tbl_messages := tbl_messages d1, tbl_attachments := tbl_attachments d1\<rparr>"
    using res by (auto simp: resolved_def split: if_splits)
  then have "tbl_locations d1 = tbl_locations (tx_db s)" by (metis db.select_convs(7) db.surjective db.update_convs(6,8))
  moreover have "tx_db t = (tx_db s)\<lparr>tbl_messages := tbl_messages (tx_db t), tbl_attachments := tbl_attachments (tx_db t),
      tbl_locations := tbl_locations (tx_db t)\<rparr>"
    unfolding tabs by (subst t, subst d1) simp
  moreover have "if rm_created r
     then \<exists>m atts. msg_id m = rm_message_id r \<and> message_of a p m \<and>
       (\<forall>x \<in> set (tbl_messages (tx_db s)). \<not> same_content a (pm_content_hash p) x) \<and>
       tbl_messages d1 = tbl_messages (tx_db s) @ [m] \<and> tbl_attachments d1 = tbl_attachments (tx_db s) @ atts \<and>
       list_all2 (\<lambda>att x. attachment_of (rm_message_id r) a x att) atts (pm_attachments p)
     else (\<exists>m \<in> set (tbl_messages (tx_db s)). msg_id m = rm_message_id r \<and> same_content a (pm_content_hash p) m) \<and>
       tbl_messages d1 = tbl_messages (tx_db s) \<and> tbl_attachments d1 = tbl_attachments (tx_db s)"
    using res by (auto simp: resolved_def split: if_splits)
  ultimately show ?thesis using pl unfolding tabs by (auto simp: placed_def)
qed

text \<open>
  C8. Recording archives a message once per account and content, whatever the database does: on
  success the archive holds exactly one message of that content, which the result names. It is
  created exactly when the content was new, with every column taken from the parsed mail and with
  one attachment row for each parsed attachment, in order; otherwise messages and attachments are
  left as they were. Its place in the folder has exactly one location row, with the UID, validity,
  flags and date given; the location rows of all other places are the same, and so is every other
  table. On failure no table changes.
\<close>

theorem record_parsed_message_effect:
  assumes "mail_ok (tx_db s)" and "record_parsed_message a f uid uv dt fl p s = (res, t)"
  shows "case res of
      Inl _ \<Rightarrow> tx_db t = tx_db s
    | Inr r \<Rightarrow>
       (\<exists>m. filter (same_content a (pm_content_hash p)) (tbl_messages (tx_db t)) = [m] \<and> msg_id m = rm_message_id r) \<and>
       (rm_created r \<longleftrightarrow> filter (same_content a (pm_content_hash p)) (tbl_messages (tx_db s)) = []) \<and>
       (if rm_created r
        then \<exists>m atts. message_of a p m \<and> tbl_messages (tx_db t) = tbl_messages (tx_db s) @ [m] \<and>
          tbl_attachments (tx_db t) = tbl_attachments (tx_db s) @ atts \<and>
          list_all2 (\<lambda>att x. attachment_of (rm_message_id r) a x att) atts (pm_attachments p)
        else tbl_messages (tx_db t) = tbl_messages (tx_db s) \<and> tbl_attachments (tx_db t) = tbl_attachments (tx_db s)) \<and>
       (\<exists>l. filter (at_place (rm_message_id r) f) (tbl_locations (tx_db t)) = [l] \<and> loc_uid l = uid \<and>
          loc_uidvalidity l = uv \<and> loc_flags l = fl \<and> loc_internal_date l = dt) \<and>
       filter (\<lambda>l. \<not> at_place (rm_message_id r) f l) (tbl_locations (tx_db t)) =
         filter (\<lambda>l. \<not> at_place (rm_message_id r) f l) (tbl_locations (tx_db s)) \<and>
       tx_db t = (tx_db s)\<lparr>tbl_messages := tbl_messages (tx_db t), tbl_attachments := tbl_attachments (tx_db t),
         tbl_locations := tbl_locations (tx_db t)\<rparr>"
proof (cases res)
  case (Inl e)
  with assms(2) show ?thesis by (simp add: record_parsed_message_def transaction_Inl_db)
next
  case (Inr r)
  note run = assms(2) [unfolded Inr]
  note exact = record_exact [OF assms(1) run]
  have "if rm_created r
        then \<exists>m atts. message_of a p m \<and> tbl_messages (tx_db t) = tbl_messages (tx_db s) @ [m] \<and>
          tbl_attachments (tx_db t) = tbl_attachments (tx_db s) @ atts \<and>
          list_all2 (\<lambda>att x. attachment_of (rm_message_id r) a x att) atts (pm_attachments p)
        else tbl_messages (tx_db t) = tbl_messages (tx_db s) \<and> tbl_attachments (tx_db t) = tbl_attachments (tx_db s)"
    using exact by (auto split: if_splits)
  with exact record_effect [OF assms(1) run] show ?thesis unfolding Inr sum.case by blast
qed

text \<open>
  Recording is idempotent in the archive: recording the same content again for the
  account, in any folder, at any time and after anything else that left the archived messages
  alone, names the same message, creates nothing and adds no message or attachment.
\<close>

theorem record_parsed_message_dedups:
  assumes "mail_ok (tx_db s)" and "record_parsed_message a f uid uv dt fl p s = (Inr r, t)"
    and "mail_ok (tx_db t')" and "tbl_messages (tx_db t') = tbl_messages (tx_db t)"
    and "pm_content_hash q = pm_content_hash p"
    and "record_parsed_message a f' uid' uv' dt' fl' q t' = (Inr r', u)"
  shows "rm_message_id r' = rm_message_id r \<and> \<not> rm_created r' \<and>
    tbl_messages (tx_db u) = tbl_messages (tx_db t) \<and> tbl_attachments (tx_db u) = tbl_attachments (tx_db t')"
proof -
  from record_Inr [OF assms(1,2)] obtain d1 l token where
    res: "resolved a p (tx_db s) d1 (rm_message_id r) (rm_created r)" and
    pl: "tx_db t = d1\<lparr>tbl_locations := tbl_locations (tx_db t)\<rparr>" by (auto simp: placed_def)
  from resolved_mail [OF res] obtain m where "m \<in> set (tbl_messages d1)" "msg_id m = rm_message_id r"
    "same_content a (pm_content_hash p) m" by blast
  moreover have "tbl_messages (tx_db t) = tbl_messages d1" by (subst pl) simp
  ultimately have m: "m \<in> set (tbl_messages (tx_db t'))" "msg_id m = rm_message_id r"
    "same_content a (pm_content_hash p) m" using assms(4) by auto
  from record_Inr [OF assms(3,6)] assms(5) obtain d2 l2 token2 where
    res2: "resolved a q (tx_db t') d2 (rm_message_id r') (rm_created r')" and
    pl2: "tx_db u = d2\<lparr>tbl_locations := tbl_locations (tx_db u)\<rparr>" by (auto simp: placed_def)
  from res2 m assms(5) have nc: "\<not> rm_created r'" by (auto simp: resolved_def split: if_splits)
  with res2 have d2: "d2 = tx_db t'" by (simp add: resolved_def)
  from res2 nc assms(5) obtain m' where m': "m' \<in> set (tbl_messages (tx_db t'))" "msg_id m' = rm_message_id r'"
    "same_content a (pm_content_hash p) m'" by (auto simp: resolved_def)
  have "distinct (map (\<lambda>m. (msg_account_id m, msg_content_hash m)) (tbl_messages (tx_db t')))"
    using assms(3) by (simp add: mail_ok_defs)
  with m m' have "m' = m" by (auto simp: same_content_def distinct_map dest!: inj_onD)
  moreover have "tbl_messages (tx_db u) = tbl_messages (tx_db t')" "tbl_attachments (tx_db u) = tbl_attachments (tx_db t')"
    by (subst pl2, simp add: d2)+
  ultimately show ?thesis using m m' nc assms(4) by simp
qed

text \<open>
  Two workers archiving the same content at once: if another connection commits a message
  of that content between this one's lookup and its insert, the insert is refused, and the
  dedup step ends with the winner's message and creates nothing, with no failure of its own.
\<close>

theorem dedup_race_takes_winner:
  assumes "tx_faults s = []" and "a \<noteq> 0"
    and "filter (same_content a (pm_content_hash p)) (tbl_messages (tx_db s)) = []"
    and "mail_ok (env (tx_db s))" and "w \<in> set (tbl_messages (env (tx_db s)))"
    and "same_content a (pm_content_hash p) w"
  shows "\<exists>t. find_or_create env a p s = (Inr (msg_id w, False), t) \<and> tx_db t = env (tx_db s)"
proof -
  have none: "find_row (same_content a (pm_content_hash p)) (tbl_messages (tx_db s)) = None"
    using assms(3) by (auto simp: find_row_None filter_empty_conv)
  let ?s2 = "s\<lparr>tx_rng_pos := Suc (tx_rng_pos s)\<rparr>"
  let ?s3 = "?s2\<lparr>tx_db := env (tx_db s)\<rparr>" and ?n = "message_row (tx_rng s (tx_rng_pos s)) a p"
  have ins: "\<exists>i. insert_message (new_message (tx_now s) ?n) (env (tx_db s)) = Inl (unique_violation i)"
    using assms(5,6) by (auto simp: insert_message_def new_message_def message_row_def)
  then obtain i where "insert_message (new_message (tx_now s) ?n) (env (tx_db s)) = Inl (unique_violation i)" ..
  then have cr: "create_message ?n ?s3 = (Inl (RepoError (Constraint i)), ?s3)"
    using assms(1,2) by (simp add: create_message_def utc_now_def stmt_simps message_row_def)
  have "find_row (\<lambda>m. (msg_account_id m, msg_content_hash m) = (a, pm_content_hash p)) (tbl_messages (env (tx_db s))) = Some w"
    using assms(4-6) by (intro find_row_key_eq) (auto simp: mail_ok_defs same_content_def)
  then have win: "find_row (same_content a (pm_content_hash p)) (tbl_messages (env (tx_db s))) = Some w"
    by (simp add: same_content_def [abs_def])
  have "find_or_create env a p s = (Inr (msg_id w, False), ?s3)"
    using none win cr assms(1,2)
    by (simp add: find_or_create_def find_by_account_and_content_hash_def bindE_def generate_token_def
        handleE_def stmt_simps act_eval)
  then show ?thesis by auto
qed

section \<open>Reads\<close>

text \<open>
  A user reads only mail of their own accounts: whatever the schedule, a message read with
  its attachments is the message of that id, in an account of the user, with exactly its
  attachments; and a folder query returns at most the page size, newest first, of messages the
  user owns that lie in every required group of folders and in no excluded folder, with the
  total number of such messages.
\<close>

theorem reads_scoped_to_owner:
  "(case get_message_with_attachments u i s of
      (Inr (Some (m, atts)), _) \<Rightarrow> m \<in> set (tbl_messages (tx_db s)) \<and> msg_id m = i \<and>
        user_owns u (msg_account_id m) (tx_db s) \<and>
        atts = filter (\<lambda>a. att_message_id a = i) (tbl_attachments (tx_db s))
    | _ \<Rightarrow> True) \<and>
   (case list_and_count_by_folders_for_user u groups exclude limit offset s of
      (Inr (n, rows), _) \<Rightarrow> length rows \<le> unat limit \<and> sorted (map newest_key rows) \<and>
        set rows \<subseteq> {m \<in> set (tbl_messages (tx_db s)). in_folders u groups exclude (tx_db s) m} \<and>
        n = length (filter (in_folders u groups exclude (tx_db s)) (tbl_messages (tx_db s)))
    | (Inl _, _) \<Rightarrow> True)"
proof (rule conjI, goal_cases)
  case 1
  obtain r t where run: "get_message_with_attachments u i s = (r, t)" by (cases "get_message_with_attachments u i s")
  show ?case
  proof (cases "\<exists>m atts. r = Inr (Some (m, atts))")
    case True
    then obtain m atts where r: "r = Inr (Some (m, atts))" by blast
    from run obtain s0 s1 :: "'a tx_scheme" where s0: "tx_db s0 = tx_db s" "tx_now s0 = tx_now s"
      "bindE (find_by_id_for_user u i) (\<lambda>found. case found of
        None \<Rightarrow> ret None | Some m \<Rightarrow> bindE (list_for_message (msg_id m)) (\<lambda>atts. ret (Some (m, atts)))) s0
        = (Inr (Some (m, atts)), s1)"
      unfolding get_message_with_attachments_def r by (rule read_only_Inr)
    then obtain s2 where f: "find_by_id_for_user u i s0 = (Inr (Some m), s2)" and
      l: "list_for_message (msg_id m) s2 = (Inr atts, s1)"
      by (auto simp: bindE_Inr_iff act_eval split: option.splits)
    from f have "tx_db s2 = tx_db s0" and
      m: "find_row (\<lambda>m. msg_id m = i \<and> user_owns u (msg_account_id m) (tx_db s0)) (tbl_messages (tx_db s0)) = Some m"
      by (auto simp: find_by_id_for_user_def bindE_Inr_iff dest!: requireE_Inr query_Inr)
    with l have "atts = filter (\<lambda>a. att_message_id a = msg_id m) (tbl_attachments (tx_db s0))"
      by (auto simp: list_for_message_def bindE_Inr_iff dest!: requireE_Inr query_Inr)
    with find_row_Some [OF m] s0(1) run r show ?thesis by simp
  next
    case False
    with run show ?thesis by (auto split: sum.splits option.splits)
  qed
next
  case 2
  obtain r t where run: "list_and_count_by_folders_for_user u groups exclude limit offset s = (r, t)"
    by (cases "list_and_count_by_folders_for_user u groups exclude limit offset s")
  have page: "set (page limit offset xs) \<subseteq> set xs" "length (page limit offset xs) \<le> unat limit"
    "sorted (map newest_key xs) \<Longrightarrow> sorted (map newest_key (page limit offset xs))" for xs
    using set_take_subset set_drop_subset
    by (auto simp: page_def take_map [symmetric] drop_map [symmetric] sorted_wrt_take sorted_wrt_drop
        dest!: in_set_takeD in_set_dropD)
  show ?case
  proof (cases r)
    case (Inr x)
    obtain n rows where x: "x = (n, rows)" by (cases x)
    from run Inr x have "n = count_where (in_folders u groups exclude (tx_db s)) (tbl_messages (tx_db s))"
      "rows = page limit offset (sort_key newest_key (filter (in_folders u groups exclude (tx_db s)) (tbl_messages (tx_db s))))"
      by (auto simp: list_and_count_by_folders_for_user_def bindE_Inr_iff act_eval dest!: requireE_Inr query_Inr)
    with run Inr x page show ?thesis by (fastforce simp: count_where_def)
  qed (use run in simp)
qed

section \<open>A concrete archive\<close>

text \<open>The input of the witnesses: one account with one folder, and a message with an attachment.\<close>

definition sample_account :: Account where
  "sample_account = \<lparr>acc_id = 7, acc_version = 1, acc_user_id = 1, acc_display_name = ''Work'',
     acc_email_address = ''a@b.c'', acc_server = \<lparr>srv_host = ''h'', srv_port = 993, srv_tls = Tls\<rparr>,
     acc_username = ''a'', acc_credentials = [], acc_enabled = True, acc_status = IdleStatus,
     acc_last_error = None, acc_last_synced_at = None, acc_created_at = 0, acc_updated_at = 0\<rparr>"

definition sample_user :: User where
  "sample_user = \<lparr>usr_id = 1, usr_version = 1, usr_username = ''Alice'', usr_full_name = ''Alice A'',
     usr_password_hash = ''h'', usr_email_address = ''alice@example.com'', usr_capabilities = {SuperAdmin},
     usr_change_password_on_login = False, usr_created_at = 0, usr_updated_at = 0\<rparr>"

definition sample_folder :: Folder where
  "sample_folder = \<lparr>fld_id = 3, fld_version = 1, fld_account_id = 7, fld_path = ''INBOX'',
     fld_display_name = None, fld_special_use = Some Inbox, fld_enabled = True, fld_idle_enabled = True,
     fld_uidvalidity = None, fld_last_uid = 0, fld_last_synced_at = None, fld_last_error = None,
     fld_created_at = 0, fld_updated_at = 0\<rparr>"

definition sample_mail_db :: db where
  "sample_mail_db = empty_db\<lparr>tbl_users := [sample_user], tbl_accounts := [sample_account], tbl_folders := [sample_folder]\<rparr>"

definition sample_mail :: tx where
  "sample_mail = \<lparr>tx_db = sample_mail_db, tx_faults = [], tx_now = seconds 100, tx_rng = (\<lambda>n. of_nat (Suc n)), tx_rng_pos = 0\<rparr>"

definition no_flags :: MessageFlags where
  "no_flags = \<lparr>seen = False, answered = False, flagged = False, draft = False, deleted = False, recent = False, custom = []\<rparr>"

definition sample_parsed :: ParsedMessage where
  "sample_parsed = \<lparr>pm_rfc822_message_id = ''<m1@x>'', pm_content_hash = replicate 32 9, pm_subject = Some ''Hi'',
     pm_from_address = ''a@b.c'', pm_from_name = None, pm_to_addresses = [], pm_cc_addresses = [],
     pm_bcc_addresses = [], pm_reply_to_addresses = [], pm_sent_date = None, pm_in_reply_to = None,
     pm_references = [], pm_snippet = ''Hello'', pm_size_bytes = 10,
     pm_attachments = [\<lparr>pa_content_hash = replicate 32 5, pa_filename = Some ''x.txt'', pa_content_type = ''text/plain'',
       pa_size_bytes = 3, pa_is_inline = False, pa_content_id = None\<rparr>]\<rparr>"

lemma sample_mail_ok: "mail_ok (tx_db sample_mail)"
  by (simp add: mail_ok_defs sample_mail_def sample_mail_db_def empty_db_def)

lemmas mail_eval = find_by_account_and_content_hash_def find_row_def generate_token_def create_message_def
  insert_message_def new_message_def message_row_def attachment_row_def create_attachments_def
  insert_attachment_def new_attachment_def upsert_location_def insert_location_def new_location_def
  account_exists_def message_exists_def folder_exists_def same_content_def at_place_def

lemma sample_records:
  "\<exists>r t. record_parsed_message 7 3 10 20 0 no_flags sample_parsed sample_mail = (Inr r, t) \<and> tx_faults t = []"
  by (simp add: record_parsed_message_def record_body_def find_or_create_def mail_eval sample_mail_def sample_mail_db_def
      sample_parsed_def sample_account_def sample_folder_def empty_db_def bindE_def handleE_def utc_now_def
      transaction_def stmt_simps act_eval)

theorem message_service_keeps_mail_ok_witness:
  "mail_ok (tx_db (snd (record_parsed_message 7 3 10 20 0 no_flags sample_parsed sample_mail)))"
  using message_service_keeps_mail_ok [OF sample_mail_ok, of 7 3 10 20 0 no_flags sample_parsed] by blast

theorem record_parsed_message_effect_witness:
  "\<exists>r t m. record_parsed_message 7 3 10 20 0 no_flags sample_parsed sample_mail = (Inr r, t) \<and> rm_created r \<and>
     filter (same_content 7 (replicate 32 9)) (tbl_messages (tx_db t)) = [m] \<and> length (tbl_attachments (tx_db t)) = 1"
proof -
  obtain r t where run: "record_parsed_message 7 3 10 20 0 no_flags sample_parsed sample_mail = (Inr r, t)"
    using sample_records by blast
  have none: "filter (same_content 7 (pm_content_hash sample_parsed)) (tbl_messages (tx_db sample_mail)) = []"
    "tbl_attachments (tx_db sample_mail) = []"
    by (simp_all add: sample_mail_def sample_mail_db_def empty_db_def)
  note eff = record_parsed_message_effect [OF sample_mail_ok run, unfolded sum.case]
  from eff none(1) have "rm_created r" by simp
  moreover from eff this none(2) obtain atts where "tbl_attachments (tx_db t) = atts"
    "list_all2 (\<lambda>att x. attachment_of (rm_message_id r) 7 x att) atts (pm_attachments sample_parsed)" by auto
  then have "length (tbl_attachments (tx_db t)) = 1" by (auto simp: sample_parsed_def dest!: list_all2_lengthD)
  ultimately show ?thesis using run eff by (auto simp: sample_parsed_def)
qed

theorem record_parsed_message_dedups_witness:
  "\<exists>r t r' u. record_parsed_message 7 3 10 20 0 no_flags sample_parsed sample_mail = (Inr r, t) \<and>
     record_parsed_message 7 3 99 20 0 no_flags sample_parsed t = (Inr r', u) \<and>
     rm_message_id r' = rm_message_id r \<and> \<not> rm_created r' \<and> tbl_messages (tx_db u) = tbl_messages (tx_db t)"
proof -
  have "\<exists>r t r' u. record_parsed_message 7 3 10 20 0 no_flags sample_parsed sample_mail = (Inr r, t) \<and>
     record_parsed_message 7 3 99 20 0 no_flags sample_parsed t = (Inr r', u)"
    by (simp add: record_parsed_message_def record_body_def find_or_create_def mail_eval sample_mail_def sample_mail_db_def
        sample_parsed_def sample_account_def sample_folder_def empty_db_def bindE_def handleE_def utc_now_def
        transaction_def stmt_simps act_eval update_location_def)
  then obtain r t r' u where runs: "record_parsed_message 7 3 10 20 0 no_flags sample_parsed sample_mail = (Inr r, t)"
    "record_parsed_message 7 3 99 20 0 no_flags sample_parsed t = (Inr r', u)" by blast
  have "mail_ok (tx_db t)" using keeps_eqD [OF keeps_record sample_mail_ok runs(1)] .
  from record_parsed_message_dedups [OF sample_mail_ok runs(1) this refl refl runs(2)] runs show ?thesis by blast
qed

text \<open>The winner of a race: another connection archives the content first.\<close>

definition sample_winner :: Message where
  "sample_winner = new_message 0 (message_row 42 7 sample_parsed)"

theorem dedup_race_takes_winner_witness:
  "\<exists>t. find_or_create (\<lambda>d. d\<lparr>tbl_messages := [sample_winner]\<rparr>) 7 sample_parsed sample_mail = (Inr (42, False), t)"
proof -
  let ?env = "\<lambda>d :: db. d\<lparr>tbl_messages := [sample_winner]\<rparr>"
  have w: "same_content 7 (pm_content_hash sample_parsed) sample_winner" "msg_id sample_winner = 42"
    by (simp_all add: sample_winner_def new_message_def message_row_def same_content_def)
  have "mail_ok (?env (tx_db sample_mail))"
    by (simp add: mail_ok_defs sample_mail_def sample_mail_db_def empty_db_def sample_winner_def new_message_def
        message_row_def exists_defs sample_account_def)
  moreover have "filter (same_content 7 (pm_content_hash sample_parsed)) (tbl_messages (tx_db sample_mail)) = []"
    and "tx_faults sample_mail = []" and "sample_winner \<in> set (tbl_messages (?env (tx_db sample_mail)))"
    by (simp_all add: sample_mail_def sample_mail_db_def empty_db_def)
  ultimately show ?thesis
    using dedup_race_takes_winner [of sample_mail 7 sample_parsed ?env sample_winner] w by auto
qed

end
