(* ===== verification/Texts.thy ===== *)
theory Texts
  imports Prelude
begin

text \<open>
  Rust's \<open>str\<close> as the program uses it: strings are UTF-8 byte sequences, \<open>chars\<close>
  cuts them into characters (a leading byte with its continuation bytes), and trimming,
  splitting on whitespace and prefix tests follow the standard library, with its Unicode
  white space.
\<close>

definition is_cont :: "char \<Rightarrow> bool" where
  "is_cont c \<longleftrightarrow> 128 \<le> (of_char c :: nat) \<and> (of_char c :: nat) < 192"

function chars :: "string \<Rightarrow> string list" where
  "chars [] = []"
| "chars (c # s) = (c # takeWhile is_cont s) # chars (dropWhile is_cont s)"
  by pat_completeness auto
termination
  by (relation "measure length") (auto simp: less_Suc_eq_le length_dropWhile_le)

text \<open>\<open>char::is_whitespace\<close> (the Unicode property White\_Space), on a character's bytes.\<close>

definition is_whitespace :: "string \<Rightarrow> bool" where
  "is_whitespace ch \<longleftrightarrow>
    (let b = map of_char ch :: nat list in
     b \<in> set [[9], [10], [11], [12], [13], [32], [194, 133], [194, 160], [225, 154, 128],
       [226, 128, 168], [226, 128, 169], [226, 128, 175], [226, 129, 159], [227, 128, 128]] \<or>
     (\<exists>x \<in> set [128..<139]. b = [226, 128, x]))"

definition trim :: "string \<Rightarrow> string" where
  "trim s = concat (rev (dropWhile is_whitespace (rev (dropWhile is_whitespace (chars s)))))"

definition starts_with :: "string \<Rightarrow> string \<Rightarrow> bool" where
  "starts_with p s \<longleftrightarrow> take (length p) s = p"

definition ends_with :: "string \<Rightarrow> string \<Rightarrow> bool" where
  "ends_with p s \<longleftrightarrow> length p \<le> length s \<and> drop (length s - length p) s = p"

text \<open>The words of a character list: maximal runs without white space.\<close>

function words_of :: "string list \<Rightarrow> string list" where
  "words_of cs =
    (case dropWhile is_whitespace cs of
       [] \<Rightarrow> []
     | d # ds \<Rightarrow>
         concat (d # takeWhile (\<lambda>c. \<not> is_whitespace c) ds) # words_of (dropWhile (\<lambda>c. \<not> is_whitespace c) ds))"
  by pat_completeness auto
termination
proof (relation "measure length")
  fix cs d ds
  assume "dropWhile is_whitespace cs = d # ds"
  then have "Suc (length ds) \<le> length cs" by (metis length_dropWhile_le list.size(4) add.right_neutral add_Suc_right)
  moreover have "length (dropWhile (\<lambda>c. \<not> is_whitespace c) ds) \<le> length ds" by (rule length_dropWhile_le)
  ultimately show "(dropWhile (\<lambda>c. \<not> is_whitespace c) ds, cs) \<in> measure length" by simp
qed simp

declare words_of.simps [simp del]

definition split_whitespace :: "string \<Rightarrow> string list" where
  "split_whitespace s = words_of (chars s)"

fun join_with :: "string \<Rightarrow> string list \<Rightarrow> string" where
  "join_with sep [] = []"
| "join_with sep [w] = w"
| "join_with sep (w # v # ws) = w @ sep @ join_with sep (v # ws)"

definition ascii_lower :: "char \<Rightarrow> char" where
  "ascii_lower c = (let n = of_char c :: nat in if 65 \<le> n \<and> n \<le> 90 then char_of (n + 32) else c)"

definition to_ascii_lowercase :: "string \<Rightarrow> string" where
  "to_ascii_lowercase s = map ascii_lower s"

definition eq_ignore_ascii_case :: "string \<Rightarrow> string \<Rightarrow> bool" where
  "eq_ignore_ascii_case s t \<longleftrightarrow> to_ascii_lowercase s = to_ascii_lowercase t"

text \<open>\<open>str::find\<close> of a string, and \<open>str::contains\<close>.\<close>

fun find_str :: "string \<Rightarrow> string \<Rightarrow> nat option" where
  "find_str p [] = (if p = [] then Some 0 else None)"
| "find_str p (c # s) = (if starts_with p (c # s) then Some 0 else map_option Suc (find_str p s))"

definition contains :: "string \<Rightarrow> string \<Rightarrow> bool" where
  "contains p s \<longleftrightarrow> find_str p s \<noteq> None"

text \<open>\<open>&s[..n]\<close> and \<open>&s[n..]\<close>: \<open>None\<close> is the panic off a character boundary.\<close>

definition is_char_boundary :: "nat \<Rightarrow> string \<Rightarrow> bool" where
  "is_char_boundary n s \<longleftrightarrow> n = 0 \<or> n = length s \<or> (n < length s \<and> \<not> is_cont (s ! n))"

definition slice_to :: "nat \<Rightarrow> string \<Rightarrow> string option" where
  "slice_to n s = (if is_char_boundary n s then Some (take n s) else None)"

section \<open>Properties\<close>

lemma concat_chars [simp]: "concat (chars s) = s"
  by (induction s rule: chars.induct) simp_all

lemma chars_nonempty: "ch \<in> set (chars s) \<Longrightarrow> ch \<noteq> []"
  by (induction s rule: chars.induct) auto

text \<open>A character starts with a byte that is followed by continuation bytes only.\<close>

definition char_shaped :: "string \<Rightarrow> bool" where
  "char_shaped ch \<longleftrightarrow> ch \<noteq> [] \<and> (\<forall>b \<in> set (tl ch). is_cont b)"

lemma chars_shaped: "ch \<in> set (chars s) \<Longrightarrow> char_shaped ch"
  by (induction s rule: chars.induct) (auto simp: char_shaped_def dest: set_takeWhileD)

text \<open>
  Cutting a list of shaped characters whose followers start characters of their own gives the
  list back.
\<close>

definition leads :: "string list \<Rightarrow> bool" where
  "leads cs \<longleftrightarrow> (\<forall>ch \<in> set cs. char_shaped ch) \<and> (\<forall>ch \<in> set (tl cs). \<not> is_cont (hd ch))"

lemma chars_leads: "leads (chars s)"
proof (induction s rule: chars.induct)
  case (2 c s)
  have "\<not> is_cont (hd ch)" if "ch \<in> set (chars (dropWhile is_cont s))" for ch
  proof (cases "dropWhile is_cont s")
    case (Cons d t)
    with hd_dropWhile [of is_cont s] have "\<not> is_cont d" by auto
    with 2 that Cons show ?thesis by (auto simp: leads_def)
  next
    case Nil
    with that show ?thesis by (metis chars.simps(1) list.set(1) empty_iff)
  qed
  with 2 show ?case by (auto simp: leads_def char_shaped_def dest: set_takeWhileD)
qed (simp add: leads_def)

lemma cut_lead:
  assumes "\<forall>x \<in> set bs. is_cont x" and "y = [] \<or> \<not> is_cont (hd y)"
  shows "takeWhile is_cont (bs @ y) = bs" and "dropWhile is_cont (bs @ y) = y"
  using assms by (cases y; simp add: takeWhile_append dropWhile_append)+

lemma chars_concat:
  assumes "leads cs"
  shows "chars (concat cs) = cs"
  using assms
proof (induction cs)
  case (Cons ch cs)
  then obtain b bs where ch: "ch = b # bs" and bs: "\<forall>x \<in> set bs. is_cont x"
    by (auto simp: leads_def char_shaped_def neq_Nil_conv)
  have next_lead: "concat cs = [] \<or> \<not> is_cont (hd (concat cs))"
  proof (cases cs)
    case (Cons d ds)
    with Cons.prems have "char_shaped d" "\<not> is_cont (hd d)" by (auto simp: leads_def)
    with Cons show ?thesis by (auto simp: char_shaped_def hd_append)
  qed simp
  note cut = cut_lead [OF bs next_lead]
  from Cons.prems have "leads cs" by (cases cs) (auto simp: leads_def)
  with Cons.IH show ?case by (simp add: ch cut)
qed simp

lemma leads_take: "leads cs \<Longrightarrow> leads (take n cs)"
  by (cases n; cases cs) (auto simp: leads_def dest: in_set_takeD)

lemma chars_take: "chars (concat (take n (chars s))) = take n (chars s)"
  by (rule chars_concat) (rule leads_take [OF chars_leads])

end
