(* ===== verification/Parser.thy ===== *)
theory Parser
  imports Texts ContentHash
begin

text \<open>
  The mail parser (\<open>crates/parser/src/parse.rs\<close>) and the renderer
  (\<open>crates/parser/src/render.rs\<close>). The MIME parser, the time conversion, base64 and the
  HTML sanitizer are external crates: \<open>mail_env\<close> holds them as parameters, with a parsed
  message as the record \<open>mail\<close> of what the code reads from it.
  The properties are that parsing is total and bounded, and which images a message shows.
\<close>

section \<open>What the external crates give\<close>

record mail_addr =
  ma_address :: "string option"
  ma_name :: "string option"

record mail_addr_list =
  al_first :: "mail_addr option"
  al_mailboxes :: "mail_addr list"

record mail_part =
  mp_decoded :: "u8 list"
  mp_name :: "string option"
  mp_content_type :: "(string \<times> string option) option"
  mp_content_id :: "string option"

record mail =
  ml_message_id :: "string option"
  ml_from :: "mail_addr_list option"
  ml_to :: "mail_addr_list option"
  ml_cc :: "mail_addr_list option"
  ml_bcc :: "mail_addr_list option"
  ml_reply_to :: "mail_addr_list option"
  ml_subject :: "string option"
  ml_date :: "int option"
  ml_in_reply_to :: "string list option"
  ml_references :: "string list option"
  ml_body_text :: "string option"
  ml_body_html :: "string option"
  ml_html_is_html :: bool
  ml_attachments :: "mail_part list"

text \<open>
  \<open>me_img_srcs\<close> are the image sources the sanitizer offers to the attribute filter, in
  order, and \<open>me_clean\<close> the sanitized text given what the filter made of them.
\<close>

record mail_env =
  me_parse :: "u8 list \<Rightarrow> mail option"
  me_from_timestamp :: "int \<Rightarrow> time option"
  me_base64 :: "u8 list \<Rightarrow> string"
  me_img_srcs :: "string \<Rightarrow> string list"
  me_clean :: "string \<Rightarrow> string option list \<Rightarrow> string"

section \<open>Parsing\<close>

definition SENTINEL_FROM :: string where
  "SENTINEL_FROM = ''unknown@mailkeep.invalid''"

definition SNIPPET_MAX_CHARS :: nat where
  "SNIPPET_MAX_CHARS = 200"

text \<open>\<open>EmailAddress::new\<close> (\<open>crates/core/src/types/email.rs\<close>).\<close>

definition email_address_new :: "string \<Rightarrow> Error + string" where
  "email_address_new e =
    (if CHR ''@'' \<notin> set e then Inl (Validation (''Invalid email format: '' @ e)) else Inr e)"

definition email_ok :: "string \<Rightarrow> string option" where
  "email_ok e = (case email_address_new e of Inl _ \<Rightarrow> None | Inr x \<Rightarrow> Some x)"

definition canonical_message_id :: "string \<Rightarrow> string" where
  "canonical_message_id i =
    (let t = trim i in if starts_with ''<'' t \<and> ends_with ''>'' t then t else ''<'' @ t @ ''>'')"

definition first_address :: "mail_addr_list option \<Rightarrow> (string \<times> string option) option" where
  "first_address addr =
    Option.bind addr (\<lambda>l. Option.bind (al_first l) (\<lambda>a. Option.bind (ma_address a) (\<lambda>e.
      map_option (\<lambda>x. (x, ma_name a)) (email_ok e))))"

definition named_address :: "mail_addr \<Rightarrow> NamedAddress option" where
  "named_address a = Option.bind (ma_address a) (\<lambda>e.
     map_option (\<lambda>x. \<lparr>na_address = x, na_name = ma_name a\<rparr>) (email_ok e))"

definition address_list :: "mail_addr_list option \<Rightarrow> NamedAddress list" where
  "address_list addr = (case addr of None \<Rightarrow> [] | Some l \<Rightarrow> List.map_filter named_address (al_mailboxes l))"

definition content_type_string :: "mail_part \<Rightarrow> string" where
  "content_type_string part =
    (case mp_content_type part of
       None \<Rightarrow> ''application/octet-stream''
     | Some (ctype, Some sub) \<Rightarrow> ctype @ ''/'' @ sub
     | Some (ctype, None) \<Rightarrow> ctype)"

definition header_text_list :: "string list option \<Rightarrow> string list" where
  "header_text_list v = (case v of None \<Rightarrow> [] | Some l \<Rightarrow> l)"

fun html_to_text_from :: "bool \<Rightarrow> string \<Rightarrow> string" where
  "html_to_text_from in_tag [] = []"
| "html_to_text_from in_tag (c # s) =
    (if c = CHR ''<'' then html_to_text_from True s
     else if c = CHR ''>'' then html_to_text_from False s
     else if \<not> in_tag then c # html_to_text_from in_tag s
     else html_to_text_from in_tag s)"

definition html_to_text :: "string \<Rightarrow> string" where
  "html_to_text = html_to_text_from False"

definition normalize_snippet :: "string \<Rightarrow> string" where
  "normalize_snippet text = concat (take SNIPPET_MAX_CHARS (chars (join_with '' '' (split_whitespace text))))"

definition build_snippet :: "mail \<Rightarrow> string" where
  "build_snippet m =
    normalize_snippet (case ml_body_text m of
        Some t \<Rightarrow> t
      | None \<Rightarrow> (case ml_body_html m of Some h \<Rightarrow> html_to_text h | None \<Rightarrow> []))"

record ExtractedAttachment =
  ea_bytes :: "u8 list"
  ea_filename :: "string option"
  ea_content_type :: string
  ea_is_inline :: bool
  ea_content_id :: "string option"

record ParsedEml =
  pe_rfc822_message_id :: string
  pe_subject :: "string option"
  pe_from_address :: string
  pe_from_name :: "string option"
  pe_to_addresses :: "NamedAddress list"
  pe_cc_addresses :: "NamedAddress list"
  pe_bcc_addresses :: "NamedAddress list"
  pe_reply_to_addresses :: "NamedAddress list"
  pe_sent_date :: "time option"
  pe_in_reply_to :: "string option"
  pe_references :: "string list"
  pe_snippet :: string
  pe_size_bytes :: int
  pe_attachments :: "ExtractedAttachment list"

definition extract_attachment :: "mail_part \<Rightarrow> ExtractedAttachment" where
  "extract_attachment part =
    \<lparr>ea_bytes = mp_decoded part, ea_filename = mp_name part, ea_content_type = content_type_string part,
     ea_is_inline = (mp_content_id part \<noteq> None), ea_content_id = mp_content_id part\<rparr>"

definition parse_eml :: "mail_env \<Rightarrow> ContentHash \<Rightarrow> u8 list \<Rightarrow> Error + ParsedEml" where
  "parse_eml env content_hash raw =
    (case me_parse env raw of
       None \<Rightarrow> Inl (Validation ''mail-parser could not parse message'')
     | Some msg \<Rightarrow>
        (let (from_address, from_name) =
               (case first_address (ml_from msg) of Some f \<Rightarrow> f | None \<Rightarrow> (SENTINEL_FROM, None))
         in Inr \<lparr>pe_rfc822_message_id = (case ml_message_id msg of
               None \<Rightarrow> ''<'' @ as_hex content_hash @ ''@mailkeep.invalid>''
             | Some i \<Rightarrow> canonical_message_id i),
           pe_subject = ml_subject msg, pe_from_address = from_address, pe_from_name = from_name,
           pe_to_addresses = address_list (ml_to msg), pe_cc_addresses = address_list (ml_cc msg),
           pe_bcc_addresses = address_list (ml_bcc msg), pe_reply_to_addresses = address_list (ml_reply_to msg),
           pe_sent_date = Option.bind (ml_date msg) (me_from_timestamp env),
           pe_in_reply_to = Option.bind (ml_in_reply_to msg) (\<lambda>ids. case ids of [] \<Rightarrow> None | i # _ \<Rightarrow> Some i),
           pe_references = header_text_list (ml_references msg),
           pe_snippet = build_snippet msg, pe_size_bytes = int (length raw),
           pe_attachments = map extract_attachment (ml_attachments msg)\<rparr>))"

section \<open>Rendering\<close>

record RenderedBody =
  rb_html :: "string option"
  rb_text :: "string option"
  rb_has_remote_content :: bool

definition trim_start_matches :: "char \<Rightarrow> string \<Rightarrow> string" where
  "trim_start_matches c s = dropWhile ((=) c) s"

definition trim_end_matches :: "char \<Rightarrow> string \<Rightarrow> string" where
  "trim_end_matches c s = rev (dropWhile ((=) c) (rev s))"

definition normalize_cid :: "string \<Rightarrow> string" where
  "normalize_cid i = trim_end_matches (CHR ''>'') (trim_start_matches (CHR ''<'') (trim i))"

definition build_cid_map :: "mail_env \<Rightarrow> mail \<Rightarrow> string \<Rightarrow> string option" where
  "build_cid_map env m =
    foldl (\<lambda>cids part. case mp_content_id part of
        None \<Rightarrow> cids
      | Some cid \<Rightarrow> cids(normalize_cid cid \<mapsto>
          ''data:'' @ content_type_string part @ '';base64,'' @ me_base64 env (mp_decoded part)))
      (\<lambda>_. None) (ml_attachments m)"

definition is_remote :: "string \<Rightarrow> bool" where
  "is_remote s \<longleftrightarrow> (let lower = to_ascii_lowercase s in
     starts_with ''http://'' lower \<or> starts_with ''https://'' lower \<or> starts_with ''//'' lower)"

text \<open>
  The filter on an image source: the new source (\<open>None\<close> drops it) and whether it blocked
  a remote one. The outer \<open>None\<close> is the panic of the byte slice \<open>trimmed[..4]\<close>.
\<close>

definition rewrite_img_src :: "string \<Rightarrow> bool \<Rightarrow> (string \<Rightarrow> string option) \<Rightarrow> (string option \<times> bool) option" where
  "rewrite_img_src value load_remote cids =
    (let trimmed = trim value;
         rest = (if is_remote trimmed then (if load_remote then (Some value, False) else (None, True))
                 else (Some value, False))
     in if 4 \<le> length trimmed then
          (case slice_to 4 trimmed of
             None \<Rightarrow> None
           | Some scheme \<Rightarrow>
               if to_ascii_lowercase scheme = ''cid:''
               then Some (cids (normalize_cid (drop 4 trimmed)), False) else Some rest)
        else Some rest)"

fun rewrite_all :: "bool \<Rightarrow> (string \<Rightarrow> string option) \<Rightarrow> string list \<Rightarrow> (string option list \<times> bool) option" where
  "rewrite_all load_remote cids [] = Some ([], False)"
| "rewrite_all load_remote cids (v # vs) =
    Option.bind (rewrite_img_src v load_remote cids) (\<lambda>(r, removed).
    map_option (\<lambda>(rs, more). (r # rs, removed \<or> more)) (rewrite_all load_remote cids vs))"

definition sanitize_html :: "mail_env \<Rightarrow> string \<Rightarrow> bool \<Rightarrow> (string \<Rightarrow> string option) \<Rightarrow> (string \<times> bool) option" where
  "sanitize_html env html load_remote cids =
    map_option (\<lambda>(srcs, removed). (me_clean env html srcs, removed))
      (rewrite_all load_remote cids (me_img_srcs env html))"

definition text_only :: "mail \<Rightarrow> RenderedBody" where
  "text_only m = \<lparr>rb_html = None, rb_text = ml_body_text m, rb_has_remote_content = False\<rparr>"

text \<open>The outer \<open>None\<close> is a panic.\<close>

definition render_message_for_display :: "mail_env \<Rightarrow> u8 list \<Rightarrow> bool \<Rightarrow> (Error + RenderedBody) option" where
  "render_message_for_display env raw load_remote =
    (case me_parse env raw of
       None \<Rightarrow> Some (Inl (Validation ''mail-parser could not parse message''))
     | Some m \<Rightarrow>
        if \<not> ml_html_is_html m then Some (Inr (text_only m))
        else
          (case ml_body_html m of
             None \<Rightarrow> None
           | Some html \<Rightarrow>
              (case sanitize_html env html load_remote (build_cid_map env m) of
                 None \<Rightarrow> None
               | Some (sanitized, removed) \<Rightarrow>
                  if trim sanitized = [] then Some (Inr (text_only m))
                  else Some (Inr \<lparr>rb_html = Some sanitized, rb_text = None, rb_has_remote_content = removed\<rparr>))))"

section \<open>Properties\<close>

lemma ends_with_single: "ends_with [c] s \<longleftrightarrow> s \<noteq> [] \<and> last s = c"
  by (cases s rule: rev_cases) (auto simp: ends_with_def)

lemma starts_with_single: "starts_with [c] s \<longleftrightarrow> s \<noteq> [] \<and> hd s = c"
  by (cases s) (auto simp: starts_with_def)

lemma canonical_bracketed: "starts_with ''<'' (canonical_message_id i) \<and> ends_with ''>'' (canonical_message_id i)"
  by (auto simp: canonical_message_id_def Let_def starts_with_single ends_with_single)

lemma email_ok_at: "email_ok e = Some x \<Longrightarrow> x = e \<and> CHR ''@'' \<in> set x"
  by (auto simp: email_ok_def email_address_new_def split: if_splits)

lemma first_address_at: "first_address l = Some (x, n) \<Longrightarrow> CHR ''@'' \<in> set x"
  by (auto simp: first_address_def bind_eq_Some_conv dest: email_ok_at)

lemma address_list_at: "na \<in> set (address_list l) \<Longrightarrow> CHR ''@'' \<in> set (na_address na)"
  by (auto simp: address_list_def List.map_filter_def named_address_def bind_eq_Some_conv split: option.splits
      dest: email_ok_at)

lemma snippet_bound: "length (chars (normalize_snippet t)) \<le> 200"
  unfolding normalize_snippet_def by (subst chars_take) (simp add: SNIPPET_MAX_CHARS_def)

text \<open>
  Parsing is total and bounded: it fails exactly when the MIME parser refuses the bytes,
  with an error that is not retried; otherwise the message has a bracketed Message-ID, a
  sender and recipients that are all addresses, a snippet of at most 200 characters, the size
  of the bytes, and its attachments in order.
\<close>

theorem parse_eml_total:
  "case parse_eml env h raw of
      Inl e \<Rightarrow> me_parse env raw = None \<and> error_kind e = KindInvalidInput \<and> \<not> is_transient e
    | Inr p \<Rightarrow> (\<exists>m. me_parse env raw = Some m \<and> map ea_bytes (pe_attachments p) = map mp_decoded (ml_attachments m)) \<and>
        starts_with ''<'' (pe_rfc822_message_id p) \<and> ends_with ''>'' (pe_rfc822_message_id p) \<and>
        CHR ''@'' \<in> set (pe_from_address p) \<and>
        list_all (\<lambda>n. CHR ''@'' \<in> set (na_address n))
          (pe_to_addresses p @ pe_cc_addresses p @ pe_bcc_addresses p @ pe_reply_to_addresses p) \<and>
        length (chars (pe_snippet p)) \<le> 200 \<and> pe_size_bytes p = int (length raw)"
proof (cases "me_parse env raw")
  case None
  then show ?thesis by (simp add: parse_eml_def)
next
  case (Some m)
  have "CHR ''@'' \<in> set SENTINEL_FROM" by (simp add: SENTINEL_FROM_def)
  with Some show ?thesis
    using snippet_bound canonical_bracketed
    by (auto simp: parse_eml_def Let_def extract_attachment_def o_def build_snippet_def list_all_iff
        starts_with_single ends_with_single dest: address_list_at first_address_at
        split: prod.splits option.splits)
qed

text \<open>
  What a remote source is, said of the source alone: after white space and ignoring the case of ASCII
  letters it begins with one of three prefixes. A source that refers to a part of the mail begins with
  \<open>cid:\<close>.
\<close>

definition begins :: "string \<Rightarrow> string \<Rightarrow> bool" where
  "begins p src \<longleftrightarrow> eq_ignore_ascii_case (take (length p) (trim src)) p"

definition remote_source :: "string \<Rightarrow> bool" where
  "remote_source src \<longleftrightarrow> (\<exists>p \<in> {''http://'', ''https://'', ''//''}. begins p src)"

definition splits_char :: "string \<Rightarrow> bool" where
  "splits_char src \<longleftrightarrow> 4 < length (trim src) \<and> is_cont (trim src ! 4)"

definition inline_uri :: "mail_env \<Rightarrow> mail \<Rightarrow> string \<Rightarrow> bool" where
  "inline_uri env m w \<longleftrightarrow> (\<exists>part \<in> set (ml_attachments m). mp_content_id part \<noteq> None \<and>
     w = ''data:'' @ content_type_string part @ '';base64,'' @ me_base64 env (mp_decoded part))"

lemma remote_source_iff: "remote_source src \<longleftrightarrow> is_remote (trim src)"
proof -
  have low: "to_ascii_lowercase p = p" if "p \<in> {''http://'', ''https://'', ''//''}" for p
    using that by (auto simp: to_ascii_lowercase_def ascii_lower_def)
  have "begins p src \<longleftrightarrow> starts_with p (to_ascii_lowercase (trim src))" if "p \<in> {''http://'', ''https://'', ''//''}" for p
    using low [OF that] by (simp add: begins_def eq_ignore_ascii_case_def starts_with_def to_ascii_lowercase_def take_map)
  then show ?thesis by (simp add: remote_source_def is_remote_def Let_def)
qed

lemma trim_keeps_first:
  assumes "\<not> is_cont d" and "\<not> is_whitespace [c]"
  shows "\<exists>r. trim (c # d # s) = c # r"
proof -
  obtain cs where cs: "chars (c # d # s) = [c] # cs" using assms(1) by simp
  have "\<exists>r. rev (dropWhile is_whitespace (rev cs @ [[c]])) = [c] # r"
    by (rule exI [of _ "rev (dropWhile is_whitespace (rev cs))"]) (use assms(2) in \<open>auto simp: dropWhile_append\<close>)
  then show ?thesis using assms(2) by (auto simp: trim_def cs simp del: chars.simps)
qed

lemma data_not_remote: "\<not> remote_source (''data:'' @ x)"
proof -
  obtain r where "trim (''data:'' @ x) = CHR ''d'' # r"
    using trim_keeps_first [of "CHR ''a''" "CHR ''d''" "''ta:'' @ x"] by (auto simp: is_cont_def is_whitespace_def)
  then show ?thesis by (simp add: remote_source_def begins_def eq_ignore_ascii_case_def to_ascii_lowercase_def ascii_lower_def)
qed

lemma cid_map_inline:
  assumes "build_cid_map env m i = Some w"
  shows "inline_uri env m w"
proof -
  let ?step = "\<lambda>cids part. case mp_content_id part of None \<Rightarrow> cids
      | Some cid \<Rightarrow> cids(normalize_cid cid \<mapsto>
          ''data:'' @ content_type_string part @ '';base64,'' @ me_base64 env (mp_decoded part))"
  let ?uri = "\<lambda>parts w. \<exists>part \<in> set parts. mp_content_id part \<noteq> None \<and>
     w = ''data:'' @ content_type_string part @ '';base64,'' @ me_base64 env (mp_decoded part)"
  have "foldl ?step f parts i = Some w \<Longrightarrow> f i = Some w \<or> ?uri parts w" for f parts
  proof (induction parts arbitrary: f)
    case (Cons part parts)
    from Cons.IH [of "?step f part"] Cons.prems show ?case by (auto split: option.splits if_splits)
  qed simp
  from this [of "\<lambda>_. None" "ml_attachments m"] assms show ?thesis by (simp add: build_cid_map_def inline_uri_def)
qed

text \<open>What the filter makes of one source, and of all of them.\<close>

lemma rewrite_one:
  "rewrite_img_src v False cids = None \<longleftrightarrow> splits_char v"
  "rewrite_img_src v False cids = Some (r, removed) \<Longrightarrow>
     (removed \<longleftrightarrow> remote_source v) \<and> (\<forall>w. r = Some w \<longrightarrow> w \<in> ran cids \<or> (w = v \<and> \<not> remote_source v)) \<and>
     (\<not> remote_source v \<and> \<not> begins ''cid:'' v \<longrightarrow> r = Some v)"
proof -
  have cid: "\<not> is_remote t" if "to_ascii_lowercase (take 4 t) = ''cid:''" for t
  proof
    assume "is_remote t"
    moreover have "take 4 (to_ascii_lowercase t) = ''cid:''" using that by (simp add: to_ascii_lowercase_def take_map)
    ultimately show False
      by (cases "to_ascii_lowercase t") (auto simp: is_remote_def Let_def starts_with_def)
  qed
  have begins_cid: "begins ''cid:'' v \<longleftrightarrow> to_ascii_lowercase (take 4 (trim v)) = ''cid:''"
    by (simp add: begins_def eq_ignore_ascii_case_def eval_nat_numeral) (simp add: to_ascii_lowercase_def ascii_lower_def)
  show "rewrite_img_src v False cids = None \<longleftrightarrow> splits_char v"
    by (auto simp: rewrite_img_src_def Let_def slice_to_def is_char_boundary_def splits_char_def)
  show "(removed \<longleftrightarrow> remote_source v) \<and> (\<forall>w. r = Some w \<longrightarrow> w \<in> ran cids \<or> (w = v \<and> \<not> remote_source v)) \<and>
     (\<not> remote_source v \<and> \<not> begins ''cid:'' v \<longrightarrow> r = Some v)"
    if "rewrite_img_src v False cids = Some (r, removed)"
    using that cid [of "trim v"]
    by (auto simp: rewrite_img_src_def Let_def slice_to_def ran_def remote_source_iff begins_cid split: if_splits option.splits)
qed

lemma rewrite_every:
  "rewrite_all False cids vs = None \<longleftrightarrow> list_ex splits_char vs"
  "rewrite_all False cids vs = Some (rs, removed) \<Longrightarrow> length rs = length vs \<and> (removed \<longleftrightarrow> list_ex remote_source vs) \<and>
     (\<forall>w. Some w \<in> set rs \<longrightarrow> w \<in> ran cids \<or> (w \<in> set vs \<and> \<not> remote_source w)) \<and>
     (\<forall>v \<in> set vs. \<not> remote_source v \<and> \<not> begins ''cid:'' v \<longrightarrow> Some v \<in> set rs)"
proof (induction vs arbitrary: rs removed)
  case (Cons v vs)
  {
    case 1
    show ?case using Cons.IH(1) rewrite_one(1) [of v cids] by (auto split: option.splits)
  next
    case 2
    then obtain r b rs' more where one: "rewrite_img_src v False cids = Some (r, b)"
        and rest: "rewrite_all False cids vs = Some (rs', more)" and out: "rs = r # rs'" "removed = (b \<or> more)"
      by (auto simp: bind_eq_Some_conv)
    from rewrite_one(2) [OF one] Cons.IH(2) [OF rest] show ?case unfolding out by auto
  }
qed simp_all

text \<open>
  C39. Showing a message with an HTML body and without remote content, the sanitizer keeping of its
  images' sources what the attribute filter made of them: no image of the HTML shown has a remote
  source (after white space and in any case \<open>http://\<close>, \<open>https://\<close> or \<open>//\<close>); each has a source of the
  mail's HTML, or is an inline part the mail itself carries; every source that is neither remote nor a
  \<open>cid:\<close> reference is kept; and the page offers to load remote content exactly if a remote source was
  dropped. An HTML body sanitized to white space is replaced by the text. Showing the message
  panics exactly if the fourth byte of some source falls inside a character, which any sender can put
  in a message; it never fails otherwise.
\<close>

theorem remote_images_blocked:
  assumes "\<forall>srcs. length srcs = length (me_img_srcs env html) \<longrightarrow> imgs (me_clean env html srcs) = List.map_filter id srcs"
    and "me_parse env raw = Some m" and "ml_html_is_html m" and "ml_body_html m = Some html"
  shows "case render_message_for_display env raw False of
      None \<Rightarrow> \<exists>v \<in> set (me_img_srcs env html). 4 < length (trim v) \<and> is_cont (trim v ! 4)
    | Some (Inl e) \<Rightarrow> False
    | Some (Inr body) \<Rightarrow>
        (\<forall>v \<in> set (me_img_srcs env html). \<not> (4 < length (trim v) \<and> is_cont (trim v ! 4))) \<and>
        (case rb_html body of
           None \<Rightarrow> body = \<lparr>rb_html = None, rb_text = ml_body_text m, rb_has_remote_content = False\<rparr>
         | Some h \<Rightarrow> trim h \<noteq> [] \<and> rb_text body = None \<and>
             (\<forall>w \<in> set (imgs h). \<not> remote_source w \<and> (w \<in> set (me_img_srcs env html) \<or> inline_uri env m w)) \<and>
             (\<forall>v \<in> set (me_img_srcs env html). \<not> remote_source v \<and> \<not> begins ''cid:'' v \<longrightarrow> v \<in> set (imgs h)) \<and>
             (rb_has_remote_content body \<longleftrightarrow> (\<exists>v \<in> set (me_img_srcs env html). remote_source v)))"
proof (cases "rewrite_all False (build_cid_map env m) (me_img_srcs env html)")
  case None
  with rewrite_every(1) [of "build_cid_map env m" "me_img_srcs env html"] show ?thesis
    using assms(2-4) by (simp add: render_message_for_display_def sanitize_html_def list_ex_iff splits_char_def)
next
  case (Some p)
  then obtain rs removed where run: "rewrite_all False (build_cid_map env m) (me_img_srcs env html) = Some (rs, removed)"
    by (cases p) simp
  note facts = rewrite_every(2) [OF run]
  have whole: "\<not> list_ex splits_char (me_img_srcs env html)"
    using rewrite_every(1) [of "build_cid_map env m" "me_img_srcs env html"] run by simp
  have shown: "set (imgs (me_clean env html rs)) = {w. Some w \<in> set rs}"
    using assms(1) facts by (force simp: List.map_filter_def image_iff)
  have "\<not> remote_source w \<and> (w \<in> set (me_img_srcs env html) \<or> inline_uri env m w)" if "Some w \<in> set rs" for w
  proof (cases "w \<in> ran (build_cid_map env m)")
    case True
    then have "inline_uri env m w" by (auto simp: ran_def dest: cid_map_inline)
    then show ?thesis using data_not_remote unfolding inline_uri_def by blast
  qed (use facts that in blast)
  with facts whole run show ?thesis
    using assms(2-4)
    by (auto simp: render_message_for_display_def sanitize_html_def text_only_def list_ex_iff splits_char_def shown)
qed

text \<open>A source of five bytes that panics: two letters and a three-byte character.\<close>

lemma img_src_panics:
  "rewrite_img_src [CHR ''a'', CHR ''b'', char_of (228 :: nat), char_of (184 :: nat), char_of (173 :: nat)] False (\<lambda>_. None) = None"
  by (simp add: rewrite_img_src_def Let_def slice_to_def is_char_boundary_def trim_def is_cont_def is_whitespace_def)

text \<open>
  The filter knows the prefixes as they are written. A source that begins with two backslashes is kept,
  and so is one with a tab inside the scheme; a browser reads the first as \<open>//\<close> and drops the tab, so
  what stops these images is the policy of the viewer's page alone, and no banner offers them.
\<close>

lemma disguised_sources_kept:
  "rewrite_img_src ([CHR 0x5C, CHR 0x5C] @ ''t.example/p.gif'') False cids =
     Some (Some ([CHR 0x5C, CHR 0x5C] @ ''t.example/p.gif''), False)"
  "rewrite_img_src (''ht'' @ [CHR 0x09] @ ''tp://t.example/p.gif'') False cids =
     Some (Some (''ht'' @ [CHR 0x09] @ ''tp://t.example/p.gif''), False)"
proof -
  have t: "trim ([CHR 0x5C, CHR 0x5C] @ ''t.example/p.gif'') = [CHR 0x5C, CHR 0x5C] @ ''t.example/p.gif''"
    "trim (''ht'' @ [CHR 0x09] @ ''tp://t.example/p.gif'') = ''ht'' @ [CHR 0x09] @ ''tp://t.example/p.gif''" by code_simp+
  show "rewrite_img_src ([CHR 0x5C, CHR 0x5C] @ ''t.example/p.gif'') False cids =
     Some (Some ([CHR 0x5C, CHR 0x5C] @ ''t.example/p.gif''), False)"
    "rewrite_img_src (''ht'' @ [CHR 0x09] @ ''tp://t.example/p.gif'') False cids =
     Some (Some (''ht'' @ [CHR 0x09] @ ''tp://t.example/p.gif''), False)"
    unfolding rewrite_img_src_def t
    by (simp_all add: Let_def slice_to_def is_char_boundary_def is_cont_def is_remote_def starts_with_def
        to_ascii_lowercase_def ascii_lower_def eval_nat_numeral)
qed

section \<open>Concrete inputs\<close>

text \<open>
  A sanitizer that writes the sources kept and nothing else, each byte marked and each source closed
  by a full stop, and the sources read back.
\<close>

definition toy_html :: "string option list \<Rightarrow> string" where
  "toy_html srcs = concat (map (\<lambda>s. concat (map (\<lambda>c. [CHR ''+'', c]) s) @ ''.'') (List.map_filter id srcs))"

fun toy_imgs :: "string \<Rightarrow> string \<Rightarrow> string list" where
  "toy_imgs acc [] = []"
| "toy_imgs acc [c] = [acc]"
| "toy_imgs acc (c # d # r) = (if c = CHR ''+'' then toy_imgs (acc @ [d]) r else acc # toy_imgs [] (d # r))"

lemma toy_imgs_written: "toy_imgs acc (concat (map (\<lambda>c. [CHR ''+'', c]) s) @ CHR ''.'' # r) = (acc @ s) # toy_imgs [] r"
proof (induction s arbitrary: acc)
  case Nil
  show ?case by (cases r) simp_all
qed simp

lemma toy_imgs_html: "toy_imgs [] (toy_html srcs) = List.map_filter id srcs"
proof -
  have "toy_imgs [] (concat (map (\<lambda>s. concat (map (\<lambda>c. [CHR ''+'', c]) s) @ ''.'') kept)) = kept" for kept
    by (induction kept) (simp_all add: toy_imgs_written)
  then show ?thesis by (simp add: toy_html_def)
qed

text \<open>A mail with an inline part, and HTML with four images: two remote, the part, and a local one.\<close>

definition picture_mail :: mail where
  "picture_mail = \<lparr>ml_message_id = None, ml_from = None, ml_to = None, ml_cc = None, ml_bcc = None, ml_reply_to = None,
     ml_subject = None, ml_date = None, ml_in_reply_to = None, ml_references = None, ml_body_text = Some ''text'',
     ml_body_html = Some ''html'', ml_html_is_html = True,
     ml_attachments = [\<lparr>mp_decoded = [1], mp_name = None, mp_content_type = Some (''image'', Some ''png''),
       mp_content_id = Some ''<a@b>''\<rparr>]\<rparr>"

definition picture_env :: mail_env where
  "picture_env = \<lparr>me_parse = (\<lambda>_. Some picture_mail), me_from_timestamp = (\<lambda>_. None), me_base64 = (\<lambda>_. ''AQ==''),
     me_img_srcs = (\<lambda>_. ['' HTTP://t.example/p'', ''//t.example/p'', ''CID:a@b'', ''logo.png'']),
     me_clean = (\<lambda>_. toy_html)\<rparr>"

theorem remote_images_blocked_witness:
  "\<exists>body h. render_message_for_display picture_env [] False = Some (Inr body) \<and> rb_html body = Some h \<and>
     rb_has_remote_content body \<and> toy_imgs [] h = [''data:image/png;base64,AQ=='', ''logo.png''] \<and>
     (\<forall>w \<in> set (toy_imgs [] h). \<not> remote_source w)"
proof -
  have "case render_message_for_display picture_env [] False of
      Some (Inr body) \<Rightarrow> (case rb_html body of Some h \<Rightarrow> toy_imgs [] h = [''data:image/png;base64,AQ=='', ''logo.png''] | None \<Rightarrow> False)
    | _ \<Rightarrow> False" by code_simp
  then obtain body h where run: "render_message_for_display picture_env [] False = Some (Inr body)" "rb_html body = Some h"
      "toy_imgs [] h = [''data:image/png;base64,AQ=='', ''logo.png'']"
    by (auto split: option.splits sum.splits)
  have remote: "\<exists>v \<in> set (me_img_srcs picture_env ''html''). remote_source v"
    by (rule bexI [of _ "''//t.example/p''"]) (code_simp, simp add: picture_env_def)
  have "\<forall>srcs. length srcs = length (me_img_srcs picture_env ''html'') \<longrightarrow>
      toy_imgs [] (me_clean picture_env ''html'' srcs) = List.map_filter id srcs"
    by (simp add: picture_env_def toy_imgs_html)
  from remote_images_blocked [OF this, of "[]" picture_mail] remote run show ?thesis
    by (simp add: picture_env_def picture_mail_def)
qed

end
