(* ===== verification/Ingest.thy ===== *)
theory Ingest
  imports BlobContract MessageProps Parser WorkerDrain
begin

text \<open>
  The ingest pipeline: the data directory with its two stores
  (\<open>crates/storage/src/lib.rs\<close>), the front door that stores raw bytes and queues a parse
  job (\<open>crates/core/src/ingest\<close>), and the handler that turns a parse job into archived
  rows and attachment blobs (\<open>crates/parser/src/handler.rs\<close>).
\<close>

section \<open>The data directory\<close>

datatype StorageInitError = CreateDir path string | NotWritable path string

definition raw_store :: "crypto \<Rightarrow> bytes \<Rightarrow> path \<Rightarrow> storage" where
  "raw_store cr key data = \<lparr>st_crypto = cr, st_key = key, st_root = data @ [''raw'']\<rparr>"

definition att_store :: "crypto \<Rightarrow> bytes \<Rightarrow> path \<Rightarrow> storage" where
  "att_store cr key data = \<lparr>st_crypto = cr, st_key = key, st_root = data @ [''attachments'']\<rparr>"

definition infra_text :: "Error \<Rightarrow> string" where
  "infra_text e = (case e of Infrastructure m \<Rightarrow> m | _ \<Rightarrow> error_text e)"

definition create_dir :: "path \<Rightarrow> ('z world_scheme, StorageInitError, unit) action" where
  "create_dir p = handleE io_call ret (\<lambda>e. throw (CreateDir p (infra_text e)))"

text \<open>The probe file is written and removed; a failed removal is ignored.\<close>

definition probe_writable :: "path \<Rightarrow> ('z world_scheme, StorageInitError, unit) action" where
  "probe_writable dir =
    (let probe = dir @ [''.mailkeep-write-test''] in
     handleE (write_all probe [111, 107])
       (\<lambda>_. handleE (io_step (\<lambda>_ s. s) (set_file probe None)) ret (\<lambda>_. ret ()))
       (\<lambda>e. throw (NotWritable dir (infra_text e))))"

definition create_filesystem_storage ::
  "crypto \<Rightarrow> bytes \<Rightarrow> path \<Rightarrow> ('z world_scheme, StorageInitError, storage \<times> storage) action"
where
  "create_filesystem_storage cr key data =
    bindE (create_dir data) (\<lambda>_.
    bindE (create_dir (data @ [''raw''])) (\<lambda>_.
    bindE (create_dir (data @ [''attachments''])) (\<lambda>_.
    bindE (probe_writable (data @ [''raw''])) (\<lambda>_.
    bindE (probe_writable (data @ [''attachments''])) (\<lambda>_.
    ret (raw_store cr key data, att_store cr key data))))))"

section \<open>The front door\<close>

record IngestRequest =
  ir_account_id :: AccountId
  ir_folder_id :: FolderId
  ir_uid :: u32
  ir_uidvalidity :: u32
  ir_internal_date :: time
  ir_flags :: MessageFlags
  ir_raw_bytes :: bytes

record IngestResult =
  ires_content_hash :: ContentHash
  ires_job_id :: JobId

definition parse_job_of :: "IngestRequest \<Rightarrow> ContentHash \<Rightarrow> ParseMessageJob" where
  "parse_job_of req h =
    \<lparr>pj_account_id = ir_account_id req, pj_folder_id = ir_folder_id req, pj_uid = ir_uid req,
     pj_uidvalidity = ir_uidvalidity req, pj_content_hash = h, pj_internal_date = ir_internal_date req,
     pj_flags = ir_flags req\<rparr>"

definition ingest_raw :: "storage \<Rightarrow> IngestRequest \<Rightarrow> ('z, IngestResult) wm" where
  "ingest_raw raw req =
    bindE (put_if_absent raw (ir_account_id req) (ir_raw_bytes req)) (\<lambda>content_hash.
    bindE (enqueue_parse (parse_job_of req content_hash)) (\<lambda>job_id.
    ret \<lparr>ires_content_hash = content_hash, ires_job_id = job_id\<rparr>))"

section \<open>The parse handler\<close>

definition store_attachment :: "storage \<Rightarrow> AccountId \<Rightarrow> ExtractedAttachment \<Rightarrow> ('z, ParsedAttachment) wm" where
  "store_attachment att a x =
    bindE (put_if_absent att a (ea_bytes x)) (\<lambda>h.
    ret \<lparr>pa_content_hash = h, pa_filename = ea_filename x, pa_content_type = ea_content_type x,
         pa_size_bytes = int (length (ea_bytes x)), pa_is_inline = ea_is_inline x,
         pa_content_id = ea_content_id x\<rparr>)"

definition parsed_message :: "ContentHash \<Rightarrow> ParsedEml \<Rightarrow> ParsedAttachment list \<Rightarrow> ParsedMessage" where
  "parsed_message h p atts =
    \<lparr>pm_rfc822_message_id = pe_rfc822_message_id p, pm_content_hash = h, pm_subject = pe_subject p,
     pm_from_address = pe_from_address p, pm_from_name = pe_from_name p, pm_to_addresses = pe_to_addresses p,
     pm_cc_addresses = pe_cc_addresses p, pm_bcc_addresses = pe_bcc_addresses p,
     pm_reply_to_addresses = pe_reply_to_addresses p, pm_sent_date = pe_sent_date p,
     pm_in_reply_to = pe_in_reply_to p, pm_references = pe_references p, pm_snippet = pe_snippet p,
     pm_size_bytes = pe_size_bytes p, pm_attachments = atts\<rparr>"

definition handle_parse :: "mail_env \<Rightarrow> storage \<Rightarrow> storage \<Rightarrow> ParseMessageJob \<Rightarrow> ('z, unit) wm" where
  "handle_parse env raw att j =
    bindE (blob_get raw (pj_account_id j) (pj_content_hash j)) (\<lambda>bytes.
      case parse_eml env (pj_content_hash j) bytes of
        Inl e \<Rightarrow> throw e
      | Inr p \<Rightarrow>
          bindE (mapE (store_attachment att (pj_account_id j)) (pe_attachments p)) (\<lambda>atts.
          bindE (record_parsed_message (pj_account_id j) (pj_folder_id j) (pj_uid j) (pj_uidvalidity j)
            (pj_internal_date j) (pj_flags j) (parsed_message (pj_content_hash j) p atts)) (\<lambda>_.
          ret ())))"

definition parse_handlers :: "(string \<Rightarrow> string) \<Rightarrow> mail_env \<Rightarrow> storage \<Rightarrow> storage \<Rightarrow> 'z world_scheme registry" where
  "parse_handlers serde_error env raw att = register_handler PARSE_JOB_TYPE
     \<lparr>h_quiet = True, h_handle = erased_handle serde_error (handle_parse env raw att)\<rparr> (\<lambda>_. None)"

section \<open>Two stores beside each other\<close>

definition apart :: "storage \<Rightarrow> storage \<Rightarrow> bool" where
  "apart st su \<longleftrightarrow> length (st_root st) = length (st_root su) \<and> st_root st \<noteq> st_root su"

lemma stores_apart: "apart (att_store cr key data) (raw_store cr key data)"
  by (simp add: apart_def att_store_def raw_store_def)

lemma apart_paths:
  assumes "apart st su" and "under (st_root st) p"
  shows "p \<noteq> blob_path (st_root su) a h"
  using assms under_blob(1) [of "st_root su" a h] by (auto simp: apart_def under_def)

lemma put_other_store:
  assumes "apart st su" and "put_if_absent st a p s = (r, t)"
  shows "stored su t = stored su s" and "blobs_ok su s \<Longrightarrow> blobs_ok su t"
proof -
  note res = put_result [OF assms(2)]
  have same: "w_files t (blob_path (st_root su) b k) = w_files s (blob_path (st_root su) b k)" for b k
    using res apart_paths [OF assms(1) under_blob(1)] apart_paths [OF assms(1) under_blob(2)] by metis
  then show "stored su t = stored su s" by (simp add: stored_def fun_eq_iff)
  show "blobs_ok su s \<Longrightarrow> blobs_ok su t" using same res by (simp add: blobs_ok_def nonces_ok_def)
qed

lemma stored_files: "w_files t = w_files s \<Longrightarrow> stored st t = stored st s"
  by (simp add: stored_def fun_eq_iff)

lemma blobs_ok_files: "w_files t = w_files s \<Longrightarrow> w_nonces t = w_nonces s \<Longrightarrow> blobs_ok st t = blobs_ok st s"
  by (simp add: blobs_ok_def nonces_ok_def)

section \<open>Ingesting\<close>

text \<open>Every parse job in the table, finished or not, names a blob that is stored.\<close>

definition jobs_backed :: "storage \<Rightarrow> 'z world_scheme \<Rightarrow> bool" where
  "jobs_backed raw s \<longleftrightarrow> (\<forall>j \<in> set (tbl_jobs (tx_db s)). \<forall>p. job_payload j = ParsePayload p \<longrightarrow>
     stored raw s (pj_account_id p) (pj_content_hash p) \<noteq> None)"

lemma enqueue_parse_case:
  fixes s :: "'z world_scheme"
  assumes "enqueue_parse p s = (r, t)" and "jobs_ok (tx_db s)"
  shows "w_files t = w_files s \<and> (case r of
      Inr i \<Rightarrow> tx_db t = tx_db s\<lparr>tbl_jobs := tbl_jobs (tx_db s) @
          [new_job_row (tx_now s) PARSE_JOB_TYPE (ParsePayload p) PRIORITY_INGEST (tx_now s) i], job_seq := i\<rparr> \<and>
        find_job i (tx_db t) = Some (new_job_row (tx_now s) PARSE_JOB_TYPE (ParsePayload p) PRIORITY_INGEST (tx_now s) i)
    | Inl _ \<Rightarrow> tx_db t = tx_db s)"
proof (cases r)
  case (Inl e)
  with assms svc_enqueue_raw_Inl show ?thesis unfolding enqueue_parse_def by fastforce
next
  case (Inr i)
  have "svc_enqueue_raw PARSE_JOB_TYPE (ParsePayload p) PRIORITY_INGEST s = (Inr i, t)"
    using assms(1) Inr unfolding enqueue_parse_def by simp
  note facts = svc_enqueue_raw_Inr [OF this assms(2)]
  show ?thesis unfolding Inr sum.case by (intro conjI; (elim conjE)?; (rule facts [THEN conjunct2, THEN conjunct2, THEN conjunct1]
      | rule facts [THEN conjunct2, THEN conjunct2, THEN conjunct2, THEN conjunct1]
      | rule facts [THEN conjunct2, THEN conjunct2, THEN conjunct2, THEN conjunct2]))
qed

lemma enqueue_parse_nonces: "enqueue_parse p s = (r, t) \<Longrightarrow> w_nonces t = w_nonces s"
  for s :: "'z world_scheme"
proof -
  assume run: "enqueue_parse p s = (r, t)"
  have "frame w_nonces (notify_waiters :: ('z, unit) wm)"
    unfolding notify_waiters_def by (rule frame_modifyE) simp
  moreover have "frame w_nonces (transaction m :: ('z, Job) wm)" if "db_only (m :: ('z, Job) wm)" for m
    unfolding frame_def using db_only_world(4) [OF db_only_transaction(1) [OF that]] by (metis prod.collapse)
  note this [OF db_only_jobs(1)]
  ultimately have "frame w_nonces (enqueue_parse p :: ('z, JobId) wm)"
    unfolding enqueue_parse_def svc_enqueue_raw_def by (intro frame_intros)
  from frameD [OF this run] show ?thesis .
qed

lemma enqueue_parse_jobs_ok:
  fixes s :: "'z world_scheme"
  assumes "enqueue_parse p s = (r, t)" and "jobs_ok (tx_db s)"
  shows "jobs_ok (tx_db t)"
proof -
  have "keeps jobs_ok (notify_waiters :: ('z, unit) wm)"
    unfolding notify_waiters_def by (rule keepsI) simp
  then have "keeps jobs_ok (enqueue_parse p :: ('z, JobId) wm)"
    unfolding enqueue_parse_def svc_enqueue_raw_def by (intro keeps_intros)
  from keeps_eqD [OF this assms(2) assms(1)] show ?thesis .
qed

lemma ingest_outcome:
  assumes "blobs_ok raw s" and "jobs_ok (tx_db s)" and "jobs_backed raw s"
  shows "case ingest_raw raw req s of (r, t) \<Rightarrow>
    blobs_ok raw t \<and> jobs_ok (tx_db t) \<and> jobs_backed raw t \<and>
    (case r of
       Inl _ \<Rightarrow> tx_db t = tx_db s
     | Inr res \<Rightarrow> ires_content_hash res = compute_hash (st_crypto raw) (ir_raw_bytes req) \<and>
         (\<exists>j. find_job (ires_job_id res) (tx_db t) = Some j \<and> job_status j = Pending \<and>
            job_type j = PARSE_JOB_TYPE \<and> job_payload j = ParsePayload (parse_job_of req (ires_content_hash res))))"
proof -
  obtain hr s1 where put: "put_if_absent raw (ir_account_id req) (ir_raw_bytes req) s = (hr, s1)"
    by (cases "put_if_absent raw (ir_account_id req) (ir_raw_bytes req) s")
  note ok1 = put_keeps_ok [OF assms(1) put]
  have db1: "tx_db s1 = tx_db s" and now1: "tx_now s1 = tx_now s"
    using off_dbD [OF off_db_blob_ops(3) put] by auto
  have grow: "stored raw s b k = Some q \<Longrightarrow> stored raw s1 b k = Some q" for b k q
    using put_stored(1) [OF assms(1) put] .
  have backed1: "jobs_backed raw s1"
    using assms(3) grow db1 unfolding jobs_backed_def by fastforce
  show ?thesis
  proof (cases hr)
    case (Inl e)
    with put ok1 backed1 db1 assms(2) show ?thesis by (simp add: ingest_raw_def bindE_def)
  next
    case (Inr h)
    obtain jr s2 where enq: "enqueue_parse (parse_job_of req h) s1 = (jr, s2)"
      by (cases "enqueue_parse (parse_job_of req h) s1")
    have jok1: "jobs_ok (tx_db s1)" using assms(2) db1 by simp
    note ec = enqueue_parse_case [OF enq jok1]
    from put_stored(2) [OF assms(1) put Inr] obtain q where
      h: "h = compute_hash (st_crypto raw) (ir_raw_bytes req)" and q: "stored raw s1 (ir_account_id req) h = Some q"
      by blast
    have st2: "stored raw s2 = stored raw s1" using ec by (intro stored_files) simp
    have ok2: "blobs_ok raw s2" using ok1 blobs_ok_files [of s2 s1 raw] ec enqueue_parse_nonces [OF enq] by simp
    have jok2: "jobs_ok (tx_db s2)"
      by (rule enqueue_parse_jobs_ok [OF enq jok1])
    have backed2: "jobs_backed raw s2"
      using backed1 ec q st2
      by (cases jr) (auto simp: jobs_backed_def new_job_row_def parse_job_of_def)
    have run: "ingest_raw raw req s = (case jr of Inl e \<Rightarrow> (Inl e, s2)
        | Inr i \<Rightarrow> (Inr \<lparr>ires_content_hash = h, ires_job_id = i\<rparr>, s2))"
      using put Inr enq by (simp add: ingest_raw_def bindE_def act_eval split: sum.splits)
    show ?thesis
      using run ok2 jok2 backed2 ec db1 h by (cases jr) (auto simp: new_job_row_def)
  qed
qed

text \<open>
  C36. Mail that is queued is stored: under every schedule of disk and database failures,
  ingesting keeps every queued parse job backed by its encrypted blob; when it succeeds, the
  returned job is pending with the request's account, folder, UID and flags and the hash of
  its bytes; and when it fails no job was queued.
\<close>

theorem ingest_queues_stored_mail:
  assumes "blobs_ok raw s" and "jobs_ok (tx_db s)" and "jobs_backed raw s"
  shows "case ingest_raw raw req s of (r, t) \<Rightarrow>
    blobs_ok raw t \<and> jobs_ok (tx_db t) \<and> jobs_backed raw t \<and>
    (case r of
       Inl _ \<Rightarrow> tx_db t = tx_db s
     | Inr res \<Rightarrow> ires_content_hash res = compute_hash (st_crypto raw) (ir_raw_bytes req) \<and>
         (\<exists>j. find_job (ires_job_id res) (tx_db t) = Some j \<and> job_status j = Pending \<and>
            job_type j = PARSE_JOB_TYPE \<and> job_payload j = ParsePayload (parse_job_of req (ires_content_hash res))))"
  by (rule ingest_outcome [OF assms])

end
