(* ===== verification/Folders.thy ===== *)
theory Folders
  imports MessageProps
begin

text \<open>
  Folders: the repository adapter (\<open>crates/database/src/adapters/folder.rs\<close>) over the
  folders table with its unique path per account and its cascades, the version hook of the
  entity, and the folder service (\<open>crates/core/src/folder/service.rs\<close>).
\<close>

section \<open>The repository\<close>

record NewFolderRow =
  nf_token :: FolderId
  nf_account_id :: AccountId
  nf_path :: string
  nf_display_name :: "string option"
  nf_special_use :: "SpecialUse option"
  nf_idle_enabled :: bool
  nf_uidvalidity :: "u32 option"

definition new_folder :: "time \<Rightarrow> NewFolderRow \<Rightarrow> Folder" where
  "new_folder now n =
    \<lparr>fld_id = nf_token n, fld_version = 1, fld_account_id = nf_account_id n, fld_path = nf_path n,
     fld_display_name = nf_display_name n, fld_special_use = nf_special_use n, fld_enabled = True,
     fld_idle_enabled = nf_idle_enabled n, fld_uidvalidity = nf_uidvalidity n, fld_last_uid = 0,
     fld_last_synced_at = None, fld_last_error = None, fld_created_at = now, fld_updated_at = now\<rparr>"

definition insert_folder :: "Folder \<Rightarrow> db \<Rightarrow> DbErr + Folder \<times> db" where
  "insert_folder f d =
    (if \<exists>x \<in> set (tbl_folders d). fld_id x = fld_id f then Inl (unique_violation ''folders.id'')
     else if \<exists>x \<in> set (tbl_folders d). fld_account_id x = fld_account_id f \<and> fld_path x = fld_path f
       then Inl (unique_violation ''idx_folders_account_path'')
     else if \<not> account_exists (fld_account_id f) d then Inl (foreign_key_violation ''fk_folders_account'')
     else Inr (f, d\<lparr>tbl_folders := tbl_folders d @ [f]\<rparr>))"

text \<open>Rows are checked and inserted one by one; the caller's transaction undoes a partial run.\<close>

definition folder_create_many :: "AccountId \<Rightarrow> NewFolderRow list \<Rightarrow> ('z, Folder list) dbm" where
  "folder_create_many a rows =
    bindE (requireE (a \<noteq> 0) (InvalidId a)) (\<lambda>_.
    bindE utc_now (\<lambda>now.
    mapE (\<lambda>row.
      bindE (requireE (nf_account_id row = a)
        (Validation ''NewFolderRow.account_id must match the create_many account_id'')) (\<lambda>_.
      execute (insert_folder (new_folder now row)))) rows))"

definition folder_find_by_id_for_account :: "AccountId \<Rightarrow> FolderId \<Rightarrow> ('z, Folder option) dbm" where
  "folder_find_by_id_for_account a i =
    bindE (requireE (a \<noteq> 0) (InvalidId a)) (\<lambda>_.
    bindE (requireE (i \<noteq> 0) (InvalidId i)) (\<lambda>_.
    query (\<lambda>d. find_row (\<lambda>f. fld_id f = i \<and> fld_account_id f = a) (tbl_folders d))))"

definition folder_find_by_account_and_path :: "AccountId \<Rightarrow> string \<Rightarrow> ('z, Folder option) dbm" where
  "folder_find_by_account_and_path a path =
    bindE (requireE (a \<noteq> 0) (InvalidId a)) (\<lambda>_.
    query (\<lambda>d. find_row (\<lambda>f. fld_account_id f = a \<and> fld_path f = path) (tbl_folders d)))"

definition folder_list_for_account :: "AccountId \<Rightarrow> ('z, Folder list) dbm" where
  "folder_list_for_account a =
    bindE (requireE (a \<noteq> 0) (InvalidId a)) (\<lambda>_.
    query (\<lambda>d. filter (\<lambda>f. fld_account_id f = a) (tbl_folders d)))"

definition folder_list_enabled_for_account :: "AccountId \<Rightarrow> ('z, Folder list) dbm" where
  "folder_list_enabled_for_account a =
    bindE (requireE (a \<noteq> 0) (InvalidId a)) (\<lambda>_.
    query (\<lambda>d. filter (\<lambda>f. fld_account_id f = a \<and> fld_enabled f) (tbl_folders d)))"

text \<open>The grouped maximum: accounts whose folders never synced are absent from the map.\<close>

definition max_last_synced :: "AccountId list \<Rightarrow> db \<Rightarrow> AccountId \<Rightarrow> time option" where
  "max_last_synced ids d a =
    (if a \<in> set ids then
       (case List.map_filter fld_last_synced_at (filter (\<lambda>f. fld_account_id f = a) (tbl_folders d)) of
          [] \<Rightarrow> None
        | t # ts \<Rightarrow> Some (foldl max t ts))
     else None)"

definition folder_max_last_synced_by_account :: "AccountId list \<Rightarrow> ('z, AccountId \<Rightarrow> time option) dbm" where
  "folder_max_last_synced_by_account ids = (if ids = [] then ret (\<lambda>_. None) else query (max_last_synced ids))"

definition find_folder :: "FolderId \<Rightarrow> db \<Rightarrow> Folder option" where
  "find_folder i d = find_row (\<lambda>f. fld_id f = i) (tbl_folders d)"

text \<open>The hook of a changed row: the next version and the current time.\<close>

definition saved_folder :: "time \<Rightarrow> int \<Rightarrow> (Folder \<Rightarrow> Folder) \<Rightarrow> Folder \<Rightarrow> Folder" where
  "saved_folder now v g f = (g f)\<lparr>fld_version := v, fld_updated_at := now\<rparr>"

definition update_folder :: "FolderId \<Rightarrow> (Folder \<Rightarrow> Folder) \<Rightarrow> db \<Rightarrow> DbErr + Folder \<times> db" where
  "update_folder i f d =
    (case find_folder i d of
       None \<Rightarrow> Inl record_not_updated
     | Some x \<Rightarrow> Inr (f x, d\<lparr>tbl_folders := update_where (\<lambda>x. fld_id x = i) f (tbl_folders d)\<rparr>))"

text \<open>The three updates read the row, set columns and save it; \<open>g\<close> sets the columns.\<close>

definition folder_update :: "FolderId \<Rightarrow> (Folder \<Rightarrow> Folder) \<Rightarrow> ('z, unit) dbm" where
  "folder_update i g =
    bindE (requireE (i \<noteq> 0) (InvalidId i)) (\<lambda>_.
    bindE (query (find_folder i)) (\<lambda>found.
      case found of
        None \<Rightarrow> throw (RepoError NotFound)
      | Some x \<Rightarrow>
          bindE utc_now (\<lambda>now.
          bindE (execute (update_folder i (saved_folder now (fld_version x + 1) g))) (\<lambda>_. ret ()))))"

definition update_enabled :: "FolderId \<Rightarrow> bool \<Rightarrow> ('z, unit) dbm" where
  "update_enabled i b = folder_update i (\<lambda>f. f\<lparr>fld_enabled := b\<rparr>)"

definition update_idle_enabled :: "FolderId \<Rightarrow> bool \<Rightarrow> ('z, unit) dbm" where
  "update_idle_enabled i b = folder_update i (\<lambda>f. f\<lparr>fld_idle_enabled := b\<rparr>)"

definition set_cursor :: "u32 \<Rightarrow> u32 \<Rightarrow> time \<Rightarrow> Folder \<Rightarrow> Folder" where
  "set_cursor uidvalidity last_uid at f =
    f\<lparr>fld_uidvalidity := Some uidvalidity, fld_last_uid := last_uid, fld_last_synced_at := Some at\<rparr>"

definition update_sync_state :: "FolderId \<Rightarrow> u32 \<Rightarrow> u32 \<Rightarrow> time \<Rightarrow> ('z, unit) dbm" where
  "update_sync_state i uidvalidity last_uid at = folder_update i (set_cursor uidvalidity last_uid at)"

text \<open>Deleting a folder cascades to its message locations.\<close>

definition delete_folder_row :: "FolderId \<Rightarrow> db \<Rightarrow> DbErr + unit \<times> db" where
  "delete_folder_row i d = Inr ((), d\<lparr>tbl_folders := delete_where (\<lambda>f. fld_id f = i) (tbl_folders d),
     tbl_locations := delete_where (\<lambda>l. loc_folder_id l = i) (tbl_locations d)\<rparr>)"

definition folder_delete_by_id :: "FolderId \<Rightarrow> ('z, unit) dbm" where
  "folder_delete_by_id i =
    bindE (requireE (i \<noteq> 0) (InvalidId i)) (\<lambda>_.
    bindE (query (find_folder i)) (\<lambda>found.
      case found of
        None \<Rightarrow> throw (RepoError NotFound)
      | Some _ \<Rightarrow> execute (delete_folder_row i)))"

section \<open>The service\<close>

record NewFolderRequest =
  nfr_path :: string
  nfr_display_name :: "string option"
  nfr_special_use :: "SpecialUse option"
  nfr_uidvalidity :: "u32 option"

text \<open>Only an Inbox is idled on.\<close>

definition folder_row_of :: "AccountId \<Rightarrow> FolderId \<Rightarrow> NewFolderRequest \<Rightarrow> NewFolderRow" where
  "folder_row_of a token req =
    \<lparr>nf_token = token, nf_account_id = a, nf_path = nfr_path req, nf_display_name = nfr_display_name req,
     nf_special_use = nfr_special_use req, nf_idle_enabled = (nfr_special_use req = Some Inbox),
     nf_uidvalidity = nfr_uidvalidity req\<rparr>"

definition create_folders_for_account :: "AccountId \<Rightarrow> NewFolderRequest list \<Rightarrow> ('z, Folder list) dbm" where
  "create_folders_for_account a requests =
    bindE (mapE (\<lambda>req. bindE generate_token (\<lambda>token. ret (folder_row_of a token req))) requests) (\<lambda>rows.
    transaction (folder_create_many a rows))"

definition list_folders :: "AccountId \<Rightarrow> ('z, Folder list) dbm" where
  "list_folders a = read_only_transaction (folder_list_for_account a)"

definition list_enabled_folders :: "AccountId \<Rightarrow> ('z, Folder list) dbm" where
  "list_enabled_folders a = read_only_transaction (folder_list_enabled_for_account a)"

definition folder_set_enabled :: "FolderId \<Rightarrow> bool \<Rightarrow> ('z, unit) dbm" where
  "folder_set_enabled i b = transaction (update_enabled i b)"

definition folder_set_idle_enabled :: "FolderId \<Rightarrow> bool \<Rightarrow> ('z, unit) dbm" where
  "folder_set_idle_enabled i b = transaction (update_idle_enabled i b)"

definition record_sync_progress :: "FolderId \<Rightarrow> u32 \<Rightarrow> u32 \<Rightarrow> time \<Rightarrow> ('z, unit) dbm" where
  "record_sync_progress i uidvalidity last_uid at = transaction (update_sync_state i uidvalidity last_uid at)"

definition delete_folder :: "FolderId \<Rightarrow> ('z, unit) dbm" where
  "delete_folder i = transaction (folder_delete_by_id i)"

definition last_synced_by_account :: "AccountId list \<Rightarrow> ('z, AccountId \<Rightarrow> time option) dbm" where
  "last_synced_by_account ids = read_only_transaction (folder_max_last_synced_by_account ids)"

section \<open>The invariant of the folders table\<close>

definition folders_ok :: "db \<Rightarrow> bool" where
  "folders_ok d \<longleftrightarrow> distinct (map fld_id (tbl_folders d)) \<and>
     distinct (map (\<lambda>f. (fld_account_id f, fld_path f)) (tbl_folders d)) \<and>
     (\<forall>f \<in> set (tbl_folders d). account_exists (fld_account_id f) d)"

text \<open>What an update of a folder may change: not its identity.\<close>

definition same_folder :: "(Folder \<Rightarrow> Folder) \<Rightarrow> bool" where
  "same_folder g \<longleftrightarrow> (\<forall>f. fld_id (g f) = fld_id f \<and> fld_account_id (g f) = fld_account_id f \<and> fld_path (g f) = fld_path f)"

lemma same_folder_updates [simp]:
  "same_folder (\<lambda>f. f\<lparr>fld_enabled := b\<rparr>)" "same_folder (\<lambda>f. f\<lparr>fld_idle_enabled := b\<rparr>)"
  "same_folder (set_cursor uv u at)" "same_folder g \<Longrightarrow> same_folder (saved_folder now v g)"
  by (simp_all add: same_folder_def set_cursor_def saved_folder_def)

definition mailbox_ok :: "db \<Rightarrow> bool" where
  "mailbox_ok d \<longleftrightarrow> folders_ok d \<and> mail_ok d"

lemma insert_folder_ok: "mailbox_ok d \<Longrightarrow> insert_folder f d = Inr (x, d') \<Longrightarrow> mailbox_ok d'"
  by (fastforce simp: mailbox_ok_def folders_ok_def insert_folder_def mail_ok_defs exists_defs split: if_splits)

lemma update_folder_ok:
  assumes ok: "mailbox_ok d" and g: "same_folder g" and up: "update_folder i g d = Inr (x, d')"
  shows "mailbox_ok d'"
proof -
  have d': "d' = d\<lparr>tbl_folders := update_where (\<lambda>x. fld_id x = i) g (tbl_folders d)\<rparr>"
    using up by (auto simp: update_folder_def split: option.splits)
  have maps: "map fld_id (tbl_folders d') = map fld_id (tbl_folders d)"
    "map (\<lambda>f. (fld_account_id f, fld_path f)) (tbl_folders d') = map (\<lambda>f. (fld_account_id f, fld_path f)) (tbl_folders d)"
    unfolding d' using g by (simp_all add: map_update_where same_folder_def)
  have fe: "folder_exists k d' = folder_exists k d" for k
  proof -
    have "folder_exists k e \<longleftrightarrow> k \<in> set (map fld_id (tbl_folders e))" for e
      by (auto simp: folder_exists_def)
    then show ?thesis by (simp only: maps)
  qed
  have accounts: "account_exists (fld_account_id f) d'" if "f \<in> set (tbl_folders d')" for f
  proof -
    from that have "(fld_account_id f, fld_path f) \<in> set (map (\<lambda>f. (fld_account_id f, fld_path f)) (tbl_folders d'))" by auto
    then have "(fld_account_id f, fld_path f) \<in> set (map (\<lambda>f. (fld_account_id f, fld_path f)) (tbl_folders d))"
      by (simp only: maps)
    with ok show ?thesis by (auto simp: mailbox_ok_def folders_ok_def account_exists_def d')
  qed
  from ok accounts show ?thesis
    unfolding mailbox_ok_def folders_ok_def mail_ok_defs maps fe by (simp add: d' exists_defs)
qed

lemma delete_folder_ok:
  "mailbox_ok d \<Longrightarrow> delete_folder_row i d = Inr (x, d') \<Longrightarrow> mailbox_ok d'"
  by (fastforce simp: mailbox_ok_def folders_ok_def mail_ok_defs exists_defs delete_folder_row_def intro: distinct_map_delete_where)

lemma keeps_folder_update [keeps_intros]:
  assumes "same_folder g" shows "keeps mailbox_ok (folder_update i g)"
proof -
  have "keeps mailbox_ok (execute (update_folder i (saved_folder now v g)))" for now v
    by (rule keeps_execute) (rule update_folder_ok, use assms in auto)
  then show ?thesis unfolding folder_update_def by (intro keeps_intros)
qed

lemma keeps_folder_ops [keeps_intros]:
  "keeps mailbox_ok (create_folders_for_account a reqs)" "keeps mailbox_ok (folder_set_enabled i b)"
  "keeps mailbox_ok (folder_set_idle_enabled i b)" "keeps mailbox_ok (record_sync_progress i uv u at)"
  "keeps mailbox_ok (delete_folder i)"
proof -
  have ins: "keeps mailbox_ok (execute (insert_folder f))" for f
    by (rule keeps_execute) (rule insert_folder_ok)
  have del: "keeps mailbox_ok (execute (delete_folder_row i))" for i
    by (rule keeps_execute) (rule delete_folder_ok)
  show "keeps mailbox_ok (create_folders_for_account a reqs)"
    unfolding create_folders_for_account_def folder_create_many_def by (intro keeps_intros ins)
  show "keeps mailbox_ok (delete_folder i)"
    unfolding delete_folder_def folder_delete_by_id_def by (intro keeps_intros del)
  show "keeps mailbox_ok (folder_set_enabled i b)" "keeps mailbox_ok (folder_set_idle_enabled i b)"
    "keeps mailbox_ok (record_sync_progress i uv u at)"
    unfolding folder_set_enabled_def folder_set_idle_enabled_def record_sync_progress_def update_enabled_def
      update_idle_enabled_def update_sync_state_def
    by (intro keeps_intros; simp)+
qed

section \<open>What the operations do\<close>

lemma find_folder_in: "find_folder i d = Some f \<Longrightarrow> f \<in> set (tbl_folders d) \<and> fld_id f = i"
  by (auto simp: find_folder_def dest: find_row_Some)

lemma find_folder_update:
  assumes "same_folder g"
  shows "find_folder k (d\<lparr>tbl_folders := update_where (\<lambda>x. fld_id x = i) g (tbl_folders d)\<rparr>)
    = (if k = i then map_option g (find_folder i d) else find_folder k d)"
proof -
  have "find_row (\<lambda>f. fld_id f = k) (update_where (\<lambda>x. fld_id x = i) g xs)
      = (if k = i then map_option g (find_row (\<lambda>f. fld_id f = i) xs) else find_row (\<lambda>f. fld_id f = k) xs)" for xs
    using assms by (induction xs) (auto simp: find_row_def update_where_def same_folder_def)
  then show ?thesis by (simp add: find_folder_def)
qed

text \<open>An update that succeeded set its columns on its folder, once, and nothing else.\<close>

definition folder_updated :: "FolderId \<Rightarrow> (Folder \<Rightarrow> Folder) \<Rightarrow> db \<Rightarrow> db \<Rightarrow> bool" where
  "folder_updated i g d d' \<longleftrightarrow> d' = d\<lparr>tbl_folders := tbl_folders d'\<rparr> \<and>
     (\<forall>k. k \<noteq> i \<longrightarrow> find_folder k d' = find_folder k d) \<and>
     (\<exists>x now. find_folder i d = Some x \<and> find_folder i d' = Some (saved_folder now (fld_version x + 1) g x))"

lemma folder_update_Inr:
  assumes run: "folder_update i g s = (Inr u, t)" and g: "same_folder g"
  shows "folder_updated i g (tx_db s) (tx_db t)"
proof -
  from run obtain o1 s1 where q: "query (find_folder i) s = (Inr o1, s1)"
    and rest: "(case o1 of
        None \<Rightarrow> throw (RepoError NotFound)
      | Some x \<Rightarrow>
          bindE utc_now (\<lambda>now.
          bindE (execute (update_folder i (saved_folder now (fld_version x + 1) g))) (\<lambda>_. ret ()))) s1 = (Inr u, t)"
    by (auto simp: folder_update_def bindE_Inr_iff [of "requireE _ _"] bindE_Inr_iff [of "query _"] requireE_apply
        split: if_splits)
  from query_Inr [OF q] have o1: "o1 = find_folder i (tx_db s)" and s1: "tx_db s1 = tx_db s" by auto
  have "find_folder i (tx_db s) \<noteq> None" using rest unfolding o1
    by (cases "find_folder i (tx_db s)") (simp_all add: act_eval)
  then obtain x where x: "find_folder i (tx_db s) = Some x" by blast
  let ?f = "saved_folder (tx_now s1) (fld_version x + 1) g"
  from rest o1 x obtain y s2 where "execute (update_folder i ?f) s1 = (Inr y, s2)" "t = s2"
    by (auto simp: utc_now_def bindE_Inr_iff [of "execute _"] act_eval)
  with execute_Inr s1 have "update_folder i ?f (tx_db s) = Inr (y, tx_db t)" by metis
  with x have t: "tx_db t = (tx_db s)\<lparr>tbl_folders := update_where (\<lambda>x. fld_id x = i) ?f (tbl_folders (tx_db s))\<rparr>"
    by (simp add: update_folder_def)
  have "same_folder ?f" using g by simp
  from find_folder_update [OF this] x show ?thesis unfolding folder_updated_def t by auto
qed

lemma record_sync_progress_Inr:
  fixes s :: "'z tx_scheme"
  assumes run: "record_sync_progress i uv u at s = (Inr x, t)"
  shows "folder_updated i (set_cursor uv u at) (tx_db s) (tx_db t)"
proof -
  from run obtain s0 s1 :: "'z tx_scheme" where "tx_db s0 = tx_db s" "tx_now s0 = tx_now s"
      "update_sync_state i uv u at s0 = (Inr x, s1)" "tx_db t = tx_db s1"
    unfolding record_sync_progress_def by (rule transaction_Inr)
  with folder_update_Inr [of i "set_cursor uv u at" s0 x s1] show ?thesis by (simp add: update_sync_state_def)
qed

lemma record_sync_progress_Inl: "record_sync_progress i uv u at s = (Inl e, t) \<Longrightarrow> tx_db t = tx_db s"
  unfolding record_sync_progress_def by (rule transaction_Inl_db)

text \<open>
  The folder service, under every schedule of database failures, keeps an account's
  folders distinct by path, every folder owned by an account, and the mail tables consistent
  (deleting a folder takes its locations with it); a failed call changes nothing, and recorded
  progress moves exactly the cursor of its folder and one version on.
\<close>

theorem folder_service_contract:
  assumes "mailbox_ok (tx_db s)"
  shows "mailbox_ok (tx_db (snd (create_folders_for_account a reqs s))) \<and>
    mailbox_ok (tx_db (snd (folder_set_enabled i b s))) \<and> mailbox_ok (tx_db (snd (folder_set_idle_enabled i b s))) \<and>
    mailbox_ok (tx_db (snd (record_sync_progress i uv u at s))) \<and> mailbox_ok (tx_db (snd (delete_folder i s))) \<and>
    (case record_sync_progress i uv u at s of
       (Inl _, t) \<Rightarrow> tx_db t = tx_db s
     | (Inr _, t) \<Rightarrow> folder_updated i (set_cursor uv u at) (tx_db s) (tx_db t))"
  using keeps_folder_ops [THEN keepsD, OF assms] record_sync_progress_Inr record_sync_progress_Inl
  by (auto split: prod.splits sum.splits)

lemma sample_mailbox_ok: "mailbox_ok (sample_mail_db)"
  using sample_mail_ok by (simp add: mailbox_ok_def folders_ok_def sample_mail_def sample_mail_db_def empty_db_def
      account_exists_def sample_account_def sample_folder_def)

theorem folder_service_contract_witness:
  "\<exists>x t. record_sync_progress 3 20 10 0 sample_mail = (Inr x, t) \<and>
     folder_updated 3 (set_cursor 20 10 0) sample_mail_db (tx_db t)"
proof -
  have "\<exists>x t. record_sync_progress 3 20 10 0 sample_mail = (Inr x, t)"
    by (simp add: record_sync_progress_def update_sync_state_def folder_update_def find_folder_def find_row_def
        update_folder_def sample_mail_def sample_mail_db_def sample_folder_def empty_db_def bindE_def utc_now_def
        transaction_def stmt_simps act_eval)
  moreover have "mailbox_ok (tx_db sample_mail)" using sample_mailbox_ok by (simp add: sample_mail_def)
  ultimately show ?thesis
    using folder_service_contract [of sample_mail 7 "[]" 3 True 20 10 0] by (auto simp: sample_mail_def)
qed

end
