(* ===== verification/ImapSync.thy ===== *)
theory ImapSync
  imports Ingest Folders
begin

text \<open>
  The IMAP adapter's connection (\<open>crates/imap/src/connect.rs\<close>) and sync machinery
  (\<open>crates/imap/src/sync.rs\<close>): login over both TLS modes, the shared fetch routine with
  its UIDVALIDITY check, windows and checkpoints, and the two long-lived tasks of an account.

  The server and the network are external: \<open>imap_env\<close> gives the answer to each call as a
  function of how many calls came before, so any sequence of answers, failures and changes of
  the mailbox is one environment. Library errors are carried by their text.
\<close>

section \<open>The server's answers\<close>

datatype ImapError = ImapNo string | ImapOther string

fun imap_error_text :: "ImapError \<Rightarrow> string" where
  "imap_error_text (ImapNo t) = t"
| "imap_error_text (ImapOther t) = t"

datatype imap_flag =
    FlagSeen | FlagAnswered | FlagFlagged | FlagDraft | FlagDeleted | FlagRecent
  | FlagCustom string | FlagMayCreate

record mailbox =
  mb_uid_validity :: "u32 option"
  mb_uid_next :: "u32 option"

record fetch_item =
  fe_uid :: "u32 option"
  fe_body :: "bytes option"
  fe_internal_date :: "time option"
  fe_flags :: "imap_flag list"

record imap_env =
  ie_dial :: "nat \<Rightarrow> string option"
  ie_server_name :: "string \<Rightarrow> string option"
  ie_handshake :: "nat \<Rightarrow> string option"
  ie_greeting :: "nat \<Rightarrow> string + bool"
  ie_starttls :: "nat \<Rightarrow> string option"
  ie_login :: "nat \<Rightarrow> ImapError option"
  ie_select :: "nat \<Rightarrow> string \<Rightarrow> ImapError + mailbox"
  ie_fetch :: "nat \<Rightarrow> u32 \<Rightarrow> u32 \<Rightarrow> string + (string + fetch_item) list"
  ie_idle_init :: "nat \<Rightarrow> string option"
  ie_idle_wait :: "nat \<Rightarrow> string option"
  ie_idle_done :: "nat \<Rightarrow> string option"
  ie_cancelled :: "nat \<Rightarrow> bool"

section \<open>The state of a task\<close>

datatype SyncState = NotRunning | Connecting | SyncIdle | SyncSyncing | SyncError

record SyncStatus =
  ss_state :: SyncState
  ss_last_sync_started_at :: "time option"
  ss_last_sync_finished_at :: "time option"
  ss_last_error :: "string option"
  ss_messages_ingested_session :: u64

definition initial_status :: SyncStatus where
  "initial_status = \<lparr>ss_state = Connecting, ss_last_sync_started_at = None, ss_last_sync_finished_at = None,
     ss_last_error = None, ss_messages_ingested_session = 0\<rparr>"

definition not_running_status :: SyncStatus where
  "not_running_status = \<lparr>ss_state = NotRunning, ss_last_sync_started_at = None, ss_last_sync_finished_at = None,
     ss_last_error = None, ss_messages_ingested_session = 0\<rparr>"

text \<open>The world, the number of calls to the outside so far, the shared status, and the task's
  count of consecutive failures.\<close>

record sync_world = world +
  sw_calls :: nat
  sw_status :: SyncStatus
  sw_failures :: u32

type_synonym ('z, 'a) sm = "('z sync_world_scheme, Error, 'a) action"

definition net :: "(nat \<Rightarrow> 'a) \<Rightarrow> ('z, 'a) sm" where
  "net f s = (Inr (f (sw_calls s)), s\<lparr>sw_calls := Suc (sw_calls s)\<rparr>)"

text \<open>A call that only succeeds or fails.\<close>

definition net_check :: "(nat \<Rightarrow> string option) \<Rightarrow> (string \<Rightarrow> string) \<Rightarrow> ('z, unit) sm" where
  "net_check f msg = bindE (net f) (\<lambda>r. case r of None \<Rightarrow> ret () | Some e \<Rightarrow> throw (Infrastructure (msg e)))"

definition set_status :: "(SyncStatus \<Rightarrow> SyncStatus) \<Rightarrow> ('z, unit) sm" where
  "set_status f = modifyE (\<lambda>s. s\<lparr>sw_status := f (sw_status s)\<rparr>)"

definition FAILURE_ERROR_THRESHOLD :: u32 where
  "FAILURE_ERROR_THRESHOLD = 5"

text \<open>Seconds until the next attempt after the n-th consecutive failure.\<close>

definition backoff_delay :: "u32 \<Rightarrow> nat" where
  "backoff_delay consecutive_failures =
    (let exponent = unat (min (sat_sub consecutive_failures 1) 6) in min (5 * 2 ^ exponent) 300)"

section \<open>Connecting\<close>

definition dial_tcp :: "imap_env \<Rightarrow> ImapServerConfig \<Rightarrow> ('z, unit) sm" where
  "dial_tcp env server = net_check (ie_dial env)
     (\<lambda>e. ''IMAP TCP connect to '' @ srv_host server @ '':'' @ show_nat (unat (srv_port server)) @ '' failed: '' @ e)"

definition tls_handshake :: "imap_env \<Rightarrow> string \<Rightarrow> ('z, unit) sm" where
  "tls_handshake env host =
    (case ie_server_name env host of
       Some e \<Rightarrow> throw (Infrastructure (''invalid IMAP server name '' @ [CHR 0x22] @ host @ [CHR 0x22] @ '': '' @ e))
     | None \<Rightarrow> net_check (ie_handshake env) (\<lambda>e. ''IMAP TLS handshake with '' @ host @ '' failed: '' @ e))"

definition read_greeting :: "imap_env \<Rightarrow> ('z, unit) sm" where
  "read_greeting env = bindE (net (ie_greeting env)) (\<lambda>r.
     case r of
       Inr True \<Rightarrow> ret ()
     | Inr False \<Rightarrow> throw (Infrastructure ''IMAP server closed connection before greeting'')
     | Inl e \<Rightarrow> throw (Infrastructure (''IMAP greeting read failed: '' @ e)))"

definition connect_implicit_tls :: "imap_env \<Rightarrow> ImapServerConfig \<Rightarrow> ('z, unit) sm" where
  "connect_implicit_tls env server =
    bindE (dial_tcp env server) (\<lambda>_. bindE (tls_handshake env (srv_host server)) (\<lambda>_. read_greeting env))"

definition connect_starttls :: "imap_env \<Rightarrow> ImapServerConfig \<Rightarrow> ('z, unit) sm" where
  "connect_starttls env server =
    bindE (dial_tcp env server) (\<lambda>_. bindE (read_greeting env) (\<lambda>_.
    bindE (net_check (ie_starttls env) (\<lambda>e. ''IMAP STARTTLS command failed: '' @ e)) (\<lambda>_.
    tls_handshake env (srv_host server))))"

fun map_login_error :: "ImapError \<Rightarrow> Error" where
  "map_login_error (ImapNo _) = Validation ''IMAP authentication failed''"
| "map_login_error (ImapOther t) = Infrastructure (''IMAP login failed: '' @ t)"

definition connect_and_login :: "imap_env \<Rightarrow> ImapServerConfig \<Rightarrow> ('z, unit) sm" where
  "connect_and_login env server =
    bindE (case srv_tls server of Tls \<Rightarrow> connect_implicit_tls env server | StartTls \<Rightarrow> connect_starttls env server) (\<lambda>_.
    bindE (net (ie_login env)) (\<lambda>r. case r of None \<Rightarrow> ret () | Some e \<Rightarrow> throw (map_login_error e)))"

section \<open>One folder\<close>

record FolderConfig =
  fc_id :: FolderId
  fc_path :: string
  fc_idle_enabled :: bool
  fc_uidvalidity :: "u32 option"
  fc_last_uid :: u32

definition FETCH_BATCH :: u32 where
  "FETCH_BATCH = 200"

definition map_flag :: "MessageFlags \<Rightarrow> imap_flag \<Rightarrow> MessageFlags" where
  "map_flag f flag =
    (case flag of
       FlagSeen \<Rightarrow> f\<lparr>seen := True\<rparr>
     | FlagAnswered \<Rightarrow> f\<lparr>answered := True\<rparr>
     | FlagFlagged \<Rightarrow> f\<lparr>flagged := True\<rparr>
     | FlagDraft \<Rightarrow> f\<lparr>draft := True\<rparr>
     | FlagDeleted \<Rightarrow> f\<lparr>deleted := True\<rparr>
     | FlagRecent \<Rightarrow> f\<lparr>recent := True\<rparr>
     | FlagCustom s \<Rightarrow> f\<lparr>custom := custom f @ [s]\<rparr>
     | FlagMayCreate \<Rightarrow> f)"

definition map_flags :: "imap_flag list \<Rightarrow> MessageFlags" where
  "map_flags flags = foldl map_flag
     \<lparr>seen = False, answered = False, flagged = False, draft = False, deleted = False, recent = False, custom = []\<rparr> flags"

text \<open>The cursor first, then the stale locations.\<close>

definition handle_uidvalidity_change :: "FolderId \<Rightarrow> u32 \<Rightarrow> ('z, unit) sm" where
  "handle_uidvalidity_change folder_id new_uidvalidity =
    bindE utc_now (\<lambda>now.
    bindE (record_sync_progress folder_id new_uidvalidity 0 now) (\<lambda>_.
    bindE (delete_locations_for_folder folder_id) (\<lambda>_. ret ())))"

definition request_of :: "AccountId \<Rightarrow> FolderId \<Rightarrow> u32 \<Rightarrow> u32 \<Rightarrow> bytes \<Rightarrow> time \<Rightarrow> imap_flag list \<Rightarrow> IngestRequest" where
  "request_of a f uidvalidity uid body date flags =
    \<lparr>ir_account_id = a, ir_folder_id = f, ir_uid = uid, ir_uidvalidity = uidvalidity, ir_internal_date = date,
     ir_flags = map_flags flags, ir_raw_bytes = body\<rparr>"

text \<open>
  The items of one window as they arrive: items without a UID or a body are skipped, an error
  ends the pass. The result is the high-water UID and how many items were ingested.
\<close>

fun ingest_items ::
  "storage \<Rightarrow> AccountId \<Rightarrow> FolderId \<Rightarrow> u32 \<Rightarrow> u32 \<Rightarrow> nat \<Rightarrow> (string + fetch_item) list \<Rightarrow> ('z, u32 \<times> nat) sm"
where
  "ingest_items raw a f uv high n [] = ret (high, n)"
| "ingest_items raw a f uv high n (Inl e # items) = throw (Infrastructure (''FETCH item error: '' @ e))"
| "ingest_items raw a f uv high n (Inr fe # items) =
    (case (fe_uid fe, fe_body fe) of
       (Some uid, Some body) \<Rightarrow>
         bindE utc_now (\<lambda>now.
         bindE (ingest_raw raw (request_of a f uv uid body
             (case fe_internal_date fe of None \<Rightarrow> now | Some d \<Rightarrow> d) (fe_flags fe))) (\<lambda>_.
         bindE (set_status (\<lambda>st. st\<lparr>ss_messages_ingested_session := ss_messages_ingested_session st + 1\<rparr>)) (\<lambda>_.
         ingest_items raw a f uv (max high uid) (Suc n) items)))
     | _ \<Rightarrow> ingest_items raw a f uv high n items)"

definition window_end :: "u32 option \<Rightarrow> u32 \<Rightarrow> u32" where
  "window_end upper from_uid =
    (case upper of
       Some u \<Rightarrow> min (sat_add from_uid (FETCH_BATCH - 1)) u
     | None \<Rightarrow> sat_add from_uid (FETCH_BATCH - 1))"

definition last_window :: "u32 option \<Rightarrow> u32 \<Rightarrow> bool \<Rightarrow> bool" where
  "last_window upper to_uid fetched_any =
    (case upper of Some u \<Rightarrow> u \<le> to_uid | None \<Rightarrow> \<not> fetched_any \<or> to_uid = - 1)"

lemma u32_bound: "unat x < 2 ^ 32" for x :: u32
proof -
  have "unat x < 2 ^ LENGTH(32)" by (rule unsigned_less)
  then show ?thesis by simp
qed

lemma below_max: "x \<noteq> - 1 \<Longrightarrow> unat x < 2 ^ 32 - 1" for x :: u32
proof -
  assume "x \<noteq> - 1"
  then have "x < - 1" by (simp add: word_order.not_eq_extremum)
  then show ?thesis by (simp add: word_less_nat_alt unsigned_minus_1_eq_mask mask_eq_exp_minus_1)
qed

lemma next_window_later:
  "\<not> last_window upper (window_end upper u) b \<Longrightarrow> unat u < unat (sat_add (window_end upper u) 1)"
proof (cases upper)
  case None
  assume "\<not> last_window upper (window_end upper u) b"
  with None have ne: "sat_add u 199 \<noteq> - 1" by (simp add: last_window_def window_end_def FETCH_BATCH_def)
  note lt = below_max [OF ne]
  with unat_sat_add [of "sat_add u 199" 1] unat_sat_add [of u 199] None show ?thesis
    by (simp add: window_end_def FETCH_BATCH_def)
next
  case (Some v)
  assume "\<not> last_window upper (window_end upper u) b"
  with Some have "sat_add u 199 < v" "window_end upper u = sat_add u 199"
    by (auto simp: last_window_def window_end_def FETCH_BATCH_def min_def split: if_splits)
  moreover have "unat v < 2 ^ 32" by (rule u32_bound)
  ultimately show ?thesis
    using unat_sat_add [of "sat_add u 199" 1] unat_sat_add [of u 199] by (simp add: word_less_nat_alt)
qed

text \<open>
  The window loop. It ends because each window starts after the last one: the window's end is
  below the ceiling, or below the largest UID.
\<close>

function fetch_windows ::
  "imap_env \<Rightarrow> storage \<Rightarrow> AccountId \<Rightarrow> FolderId \<Rightarrow> u32 \<Rightarrow> u32 option \<Rightarrow> u32 \<Rightarrow> u32 \<Rightarrow> nat \<Rightarrow> ('z, u32 \<times> nat) sm"
where
  "fetch_windows env raw a f uv upper from_uid high ingested =
    (let to_uid = window_end upper from_uid in
     bindE (net (\<lambda>k. ie_fetch env k from_uid to_uid)) (\<lambda>answer.
       case answer of
         Inl e \<Rightarrow> throw (Infrastructure (''UID FETCH '' @ show_nat (unat from_uid) @ '':'' @ show_nat (unat to_uid)
           @ '' failed: '' @ e))
       | Inr items \<Rightarrow>
           bindE (ingest_items raw a f uv high 0 items) (\<lambda>(high', n).
           bindE (if 0 < n then bindE utc_now (\<lambda>now. record_sync_progress f uv high' now) else ret ()) (\<lambda>_.
             if last_window upper to_uid (0 < n) then ret (high', ingested + n)
             else fetch_windows env raw a f uv upper (sat_add to_uid 1) high' (ingested + n)))))"
  by pat_completeness auto

termination
  by (relation "measure (\<lambda>(env, raw, a, f, uv, upper, from_uid, high, ingested). 2 ^ 32 - unat from_uid)")
    (use next_window_later u32_bound in \<open>auto intro!: diff_less_mono2\<close>)

declare fetch_windows.simps [simp del]

definition sync_folder :: "imap_env \<Rightarrow> storage \<Rightarrow> AccountId \<Rightarrow> FolderConfig \<Rightarrow> ('z, u32 \<times> u32) sm" where
  "sync_folder env raw a cfg =
    bindE (net (\<lambda>k. ie_select env k (fc_path cfg))) (\<lambda>answer.
      case answer of
        Inl (ImapNo _) \<Rightarrow> throw (FolderNotFound (fc_path cfg))
      | Inl (ImapOther e) \<Rightarrow> throw (Infrastructure (''SELECT '' @ fc_path cfg @ '' failed: '' @ e))
      | Inr mailbox \<Rightarrow>
          (case mb_uid_validity mailbox of
             None \<Rightarrow> throw (Infrastructure (''server returned no UIDVALIDITY for '' @ fc_path cfg))
           | Some uv \<Rightarrow>
               (let rolled = (fc_uidvalidity cfg \<noteq> None \<and> fc_uidvalidity cfg \<noteq> Some uv) in
                bindE (if rolled then handle_uidvalidity_change (fc_id cfg) uv else ret ()) (\<lambda>_.
                let last_uid = (if rolled then 0 else fc_last_uid cfg);
                    upper = map_option (\<lambda>n. sat_sub n 1) (mb_uid_next mailbox);
                    from_uid = sat_add last_uid 1 in
                bindE (set_status (\<lambda>st. st\<lparr>ss_state := SyncSyncing\<rparr>)) (\<lambda>_.
                  if (case upper of None \<Rightarrow> False | Some u \<Rightarrow> u < from_uid) then
                    bindE utc_now (\<lambda>now.
                    bindE (record_sync_progress (fc_id cfg) uv last_uid now) (\<lambda>_. ret (last_uid, uv)))
                  else
                    bindE (fetch_windows env raw a (fc_id cfg) uv upper from_uid last_uid 0) (\<lambda>(high, ingested).
                    bindE (if 0 < ingested then ret ()
                           else bindE utc_now (\<lambda>now. record_sync_progress (fc_id cfg) uv high now)) (\<lambda>_.
                    ret (high, uv))))))))"

section \<open>The poll task\<close>

definition cancelled :: "imap_env \<Rightarrow> ('z, bool) sm" where
  "cancelled env = net (ie_cancelled env)"

text \<open>A folder that is gone on the server is skipped; any other error ends the pass.\<close>

fun poll_folders :: "imap_env \<Rightarrow> storage \<Rightarrow> AccountId \<Rightarrow> FolderConfig list \<Rightarrow> ('z, unit) sm" where
  "poll_folders env raw a [] = ret ()"
| "poll_folders env raw a (cfg # cfgs) =
    bindE (cancelled env) (\<lambda>stop.
      if stop then ret ()
      else handleE (sync_folder env raw a cfg) (\<lambda>_. poll_folders env raw a cfgs)
        (\<lambda>e. case e of FolderNotFound _ \<Rightarrow> poll_folders env raw a cfgs | _ \<Rightarrow> throw e))"

definition poll_pass :: "imap_env \<Rightarrow> storage \<Rightarrow> AccountId \<Rightarrow> ImapServerConfig \<Rightarrow> FolderConfig list \<Rightarrow> ('z, unit) sm" where
  "poll_pass env raw a server cfgs = bindE (connect_and_login env server) (\<lambda>_. poll_folders env raw a cfgs)"

text \<open>One failure more, in the status once there are enough of them; the value is the wait.\<close>

definition note_failure :: "Error \<Rightarrow> ('z, nat) sm" where
  "note_failure e =
    bindE (modifyE (\<lambda>s. s\<lparr>sw_failures := sat_add (sw_failures s) 1\<rparr>)) (\<lambda>_.
    bindE (getsE sw_failures) (\<lambda>failures.
    bindE (set_status (\<lambda>st. (if FAILURE_ERROR_THRESHOLD \<le> failures then st\<lparr>ss_state := SyncError\<rparr> else st)
      \<lparr>ss_last_error := Some (error_text e)\<rparr>)) (\<lambda>_.
    ret (backoff_delay failures))))"

definition note_success :: "('z, unit) sm" where
  "note_success =
    bindE (modifyE (\<lambda>s. s\<lparr>sw_failures := 0\<rparr>)) (\<lambda>_.
    bindE utc_now (\<lambda>now.
    set_status (\<lambda>st. st\<lparr>ss_state := SyncIdle, ss_last_sync_finished_at := Some now\<rparr>)))"

definition start_pass :: "('z, unit) sm" where
  "start_pass = bindE utc_now (\<lambda>now.
     set_status (\<lambda>st. st\<lparr>ss_state := Connecting, ss_last_sync_started_at := Some now\<rparr>))"

text \<open>One turn of the poll loop, up to its wait.\<close>

definition poll_turn ::
  "imap_env \<Rightarrow> storage \<Rightarrow> AccountId \<Rightarrow> ImapServerConfig \<Rightarrow> nat \<Rightarrow> FolderConfig list \<Rightarrow> ('z, nat) sm"
where
  "poll_turn env raw a server poll_interval cfgs =
    bindE start_pass (\<lambda>_.
    handleE (poll_pass env raw a server cfgs)
      (\<lambda>_. bindE note_success (\<lambda>_. ret poll_interval))
      note_failure)"

text \<open>
  The loop, for at most \<open>n\<close> turns: \<open>True\<close> when it ended (nothing to poll, or
  cancelled while waiting).
\<close>

fun poll_turns ::
  "nat \<Rightarrow> imap_env \<Rightarrow> storage \<Rightarrow> AccountId \<Rightarrow> ImapServerConfig \<Rightarrow> nat \<Rightarrow> FolderConfig list \<Rightarrow> ('z, bool) sm"
where
  "poll_turns 0 env raw a server poll_interval cfgs = ret False"
| "poll_turns (Suc n) env raw a server poll_interval cfgs =
    bindE (poll_turn env raw a server poll_interval cfgs) (\<lambda>_.
    bindE (cancelled env) (\<lambda>stop.
      if stop then ret True else poll_turns n env raw a server poll_interval cfgs))"

definition poll_task ::
  "nat \<Rightarrow> imap_env \<Rightarrow> storage \<Rightarrow> AccountId \<Rightarrow> ImapServerConfig \<Rightarrow> nat \<Rightarrow> FolderConfig list \<Rightarrow> ('z, bool) sm"
where
  "poll_task n env raw a server poll_interval cfgs =
    (if cfgs = [] then ret True else poll_turns n env raw a server poll_interval cfgs)"

section \<open>The IDLE task\<close>

definition next_cursor :: "FolderConfig \<Rightarrow> u32 \<times> u32 \<Rightarrow> FolderConfig" where
  "next_cursor cfg hv = cfg\<lparr>fc_last_uid := fst hv, fc_uidvalidity := Some (snd hv)\<rparr>"

text \<open>
  One connection, for at most \<open>n\<close> rounds of fetching and idling: \<open>True\<close> after a
  cancellation. The wait yields to a cancellation; DONE follows either way.
\<close>

fun idle_rounds :: "nat \<Rightarrow> imap_env \<Rightarrow> storage \<Rightarrow> AccountId \<Rightarrow> FolderConfig \<Rightarrow> ('z, bool) sm" where
  "idle_rounds 0 env raw a cur = ret False"
| "idle_rounds (Suc n) env raw a cur =
    bindE (cancelled env) (\<lambda>stop.
      if stop then ret True
      else
        bindE (sync_folder env raw a cur) (\<lambda>hv.
        bindE note_success (\<lambda>_.
        bindE (net_check (ie_idle_init env) (\<lambda>e. ''IMAP IDLE init failed: '' @ e)) (\<lambda>_.
        bindE (cancelled env) (\<lambda>stopped.
        bindE (if stopped then ret () else net_check (ie_idle_wait env) (\<lambda>e. ''IMAP IDLE wait failed: '' @ e)) (\<lambda>_.
        bindE (net_check (ie_idle_done env) (\<lambda>e. ''IMAP IDLE done failed: '' @ e)) (\<lambda>_.
          if stopped then ret True else idle_rounds n env raw a (next_cursor cur hv))))))))"

text \<open>The reconnect loop, for at most \<open>n\<close> connections of at most \<open>m\<close> rounds.\<close>

fun idle_task :: "nat \<Rightarrow> nat \<Rightarrow> imap_env \<Rightarrow> storage \<Rightarrow> AccountId \<Rightarrow> ImapServerConfig \<Rightarrow> FolderConfig \<Rightarrow> ('z, bool) sm" where
  "idle_task 0 m env raw a server cfg = ret False"
| "idle_task (Suc n) m env raw a server cfg =
    bindE (cancelled env) (\<lambda>stop.
      if stop then ret True
      else
        bindE start_pass (\<lambda>_.
        handleE (bindE (connect_and_login env server) (\<lambda>_. idle_rounds m env raw a cfg))
          (\<lambda>ended. ret ended)
          (\<lambda>e. bindE (note_failure e) (\<lambda>_.
               bindE (cancelled env) (\<lambda>stopped.
                 if stopped then ret True else idle_task n m env raw a server cfg)))))"

end
