(* ===== verification/Archive.thy ===== *)
theory Archive
  imports Ingest
begin

text \<open>
  The archive end to end: what the parse handler (\<open>crates/parser/src/handler.rs\<close>)
  leaves in the tables and the attachment store under every failure, and the guarantee of the
  pipeline of \<open>crates/core/src/jobs/worker.rs\<close> around it: a parse job that is Completed
  has its message in the archive.
\<close>

section \<open>Storing the attachments of a message\<close>

definition with_hash :: "ExtractedAttachment \<Rightarrow> ContentHash \<Rightarrow> ParsedAttachment" where
  "with_hash x h = \<lparr>pa_content_hash = h, pa_filename = ea_filename x, pa_content_type = ea_content_type x,
     pa_size_bytes = int (length (ea_bytes x)), pa_is_inline = ea_is_inline x, pa_content_id = ea_content_id x\<rparr>"

lemma with_hash_content [simp]: "pa_content_hash (with_hash x h) = h"
  by (simp add: with_hash_def)

lemma store_attachments_puts:
  "mapE (store_attachment att a) xs s = (case mapE (\<lambda>x. put_if_absent att a (ea_bytes x)) xs s of
     (Inl e, t) \<Rightarrow> (Inl e, t) | (Inr hs, t) \<Rightarrow> (Inr (map2 with_hash xs hs), t))"
proof (induction xs arbitrary: s)
  case Nil
  then show ?case by (simp add: act_eval)
next
  case (Cons x xs)
  then show ?case
    by (simp add: store_attachment_def bindE_def act_eval with_hash_def split: prod.splits sum.splits)
qed

lemma stored_attachments:
  assumes "blobs_ok att s" and "mapE (store_attachment att a) xs s = (r, t)"
  shows "blobs_ok att t" and "stored att s b k = Some q \<Longrightarrow> stored att t b k = Some q"
    and "r = Inr atts \<Longrightarrow> \<forall>x \<in> set atts. stored att t a (pa_content_hash x) \<noteq> None"
proof -
  from assms(2) obtain r' where puts: "mapE (\<lambda>x. put_if_absent att a (ea_bytes x)) xs s = (r', t)"
    and r: "r = (case r' of Inl e \<Rightarrow> Inl e | Inr hs \<Rightarrow> Inr (map2 with_hash xs hs))"
    by (auto simp: store_attachments_puts split: prod.splits sum.splits)
  show "blobs_ok att t" "stored att s b k = Some q \<Longrightarrow> stored att t b k = Some q"
    using fs.puts_grow [OF assms(1) puts] by blast+
  assume "r = Inr atts"
  with r obtain hs where hs: "r' = Inr hs" "atts = map2 with_hash xs hs" by (auto split: sum.splits)
  from fs.puts_stored(2) [OF assms(1) puts [unfolded hs(1)]]
  show "\<forall>x \<in> set atts. stored att t a (pa_content_hash x) \<noteq> None"
    using hs(2) by (auto dest: set_zip_rightD)
qed

lemma off_db_store_attachments: "off_db (mapE (store_attachment att a) xs)"
  unfolding store_attachment_def by (intro off_db_intros)

section \<open>What recording leaves alone\<close>

lemma db_only_record: "db_only (record_parsed_message a f uid uv dt fl p)"
proof -
  have "db_only (modifyE (\<lambda>s. s))" by (rule db_only_modifyE) simp
  moreover have "db_only (find_by_account_and_content_hash a h)" for h
    unfolding find_by_account_and_content_hash_def by (intro db_only_intros)
  moreover have "db_only (create_message n)" "db_only (create_attachments rows)" "db_only (upsert_location l)" for n rows l
    unfolding create_message_def create_attachments_def upsert_location_def by (intro db_only_intros)+
  ultimately show ?thesis
    unfolding record_parsed_message_def record_body_def find_or_create_def
    by (auto intro!: db_only_intros split: prod.splits Error.splits RepositoryError.splits)
qed

definition jobs_part :: "db \<Rightarrow> Job list \<times> int" where
  "jobs_part d = (tbl_jobs d, job_seq d)"

lemma keeps_jobs_part:
  assumes "\<And>d x d'. f d = Inr (x, d') \<Longrightarrow> jobs_part d' = jobs_part d"
  shows "keeps (\<lambda>d. jobs_part d = v) (execute f)"
  by (rule keeps_execute) (simp add: assms)

lemma record_jobs_part: "keeps (\<lambda>d. jobs_part d = v) (record_parsed_message a f uid uv dt fl p)"
proof -
  have st: "keeps (\<lambda>d. jobs_part d = v) (execute (insert_message m))"
    "keeps (\<lambda>d. jobs_part d = v) (execute (insert_location l))"
    "keeps (\<lambda>d. jobs_part d = v) (execute (insert_attachment x))"
    "keeps (\<lambda>d. jobs_part d = v) (execute (update_location i g))" for m l x i g
    by (rule keeps_jobs_part; auto simp: jobs_part_def insert_message_def insert_location_def insert_attachment_def
        update_location_def split: if_splits option.splits)+
  have "keeps (\<lambda>d. jobs_part d = v) (modifyE (\<lambda>s. s))" by (rule keepsI) simp
  moreover have "keeps (\<lambda>d. jobs_part d = v) (find_by_account_and_content_hash a h)" for h
    unfolding find_by_account_and_content_hash_def by (intro keeps_intros)
  moreover have "keeps (\<lambda>d. jobs_part d = v) (create_message n)" "keeps (\<lambda>d. jobs_part d = v) (create_attachments rows)"
    "keeps (\<lambda>d. jobs_part d = v) (upsert_location k)" for n rows k
    unfolding create_message_def create_attachments_def upsert_location_def by (intro keeps_intros st)+
  ultimately show ?thesis
    unfolding record_parsed_message_def record_body_def find_or_create_def
    by (auto intro!: keeps_intros split: prod.splits Error.splits RepositoryError.splits)
qed

section \<open>The parse handler\<close>

text \<open>Every attachment row names a blob that is stored for its account.\<close>

definition attachments_backed :: "storage \<Rightarrow> 'z world_scheme \<Rightarrow> bool" where
  "attachments_backed att s \<longleftrightarrow>
     (\<forall>x \<in> set (tbl_attachments (tx_db s)). stored att s (att_account_id x) (att_content_hash x) \<noteq> None)"

text \<open>The message of a parse job's content is in the archive, and located where the job says.\<close>

definition archived :: "ParseMessageJob \<Rightarrow> db \<Rightarrow> bool" where
  "archived j d \<longleftrightarrow> (\<exists>m \<in> set (tbl_messages d). same_content (pj_account_id j) (pj_content_hash j) m \<and>
     (\<exists>l \<in> set (tbl_locations d). at_place (msg_id m) (pj_folder_id j) l))"

definition filed_now :: "ParseMessageJob \<Rightarrow> db \<Rightarrow> bool" where
  "filed_now j d \<longleftrightarrow> (\<exists>m. filter (same_content (pj_account_id j) (pj_content_hash j)) (tbl_messages d) = [m] \<and>
     (\<exists>l \<in> set (tbl_locations d). at_place (msg_id m) (pj_folder_id j) l \<and> loc_uid l = pj_uid j \<and>
        loc_uidvalidity l = pj_uidvalidity j \<and> loc_flags l = pj_flags j \<and>
        loc_internal_date l = pj_internal_date j))"

lemma filed_now_archived: "filed_now j d \<Longrightarrow> archived j d"
  unfolding filed_now_def archived_def by (fastforce dest: filter_eq_ConsD)

lemma handle_parse_cases:
  assumes run: "handle_parse env raw att j s = (r, t)"
  obtains (nothing) e where "r = Inl e" "tx_db t = tx_db s" "w_files t = w_files s" "w_nonces t = w_nonces s"
  | (attachments) e and p :: ParsedEml and s1 where "r = Inl e" "w_files s1 = w_files s" "w_nonces s1 = w_nonces s" "tx_db s1 = tx_db s"
      "mapE (store_attachment att (pj_account_id j)) (pe_attachments p) s1 = (Inl e, t)" "tx_db t = tx_db s"
  | (recorded) bytes p s1 atts s2 q where "stored raw s (pj_account_id j) (pj_content_hash j) = Some bytes"
      "parse_eml env (pj_content_hash j) bytes = Inr p"
      "w_files s1 = w_files s" "w_nonces s1 = w_nonces s" "tx_db s1 = tx_db s"
      "mapE (store_attachment att (pj_account_id j)) (pe_attachments p) s1 = (Inr atts, s2)" "tx_db s2 = tx_db s"
      "record_parsed_message (pj_account_id j) (pj_folder_id j) (pj_uid j) (pj_uidvalidity j)
        (pj_internal_date j) (pj_flags j) (parsed_message (pj_content_hash j) p atts) s2 = (q, t)"
      "r = (case q of Inl e \<Rightarrow> Inl e | Inr _ \<Rightarrow> Inr ())"
proof -
  obtain br s1 where get: "blob_get raw (pj_account_id j) (pj_content_hash j) s = (br, s1)"
    by (cases "blob_get raw (pj_account_id j) (pj_content_hash j) s")
  have db1: "tx_db s1 = tx_db s" using off_dbD [OF off_db_blob_ops(4) get] by simp
  note g = blob_get_result(1,2) [OF get]
  have got: "br = Inr b \<Longrightarrow> stored raw s (pj_account_id j) (pj_content_hash j) = Some b" for b
    using blob_get_result(3) [OF get] .
  show thesis
  proof (cases br)
    case (Inl e)
    have "r = Inl e \<and> t = s1" using run get Inl by (simp add: handle_parse_def bindE_def)
    with g db1 show thesis by (intro that(1) [of e]) simp_all
  next
    case (Inr bytes)
    show thesis
    proof (cases "parse_eml env (pj_content_hash j) bytes")
      case (Inl e)
      have "r = Inl e \<and> t = s1" using run get Inr Inl by (simp add: handle_parse_def bindE_def act_eval)
      with g db1 show thesis by (intro that(1) [of e]) simp_all
    next
      case (Inr p)
      obtain ar s2 where ma: "mapE (store_attachment att (pj_account_id j)) (pe_attachments p) s1 = (ar, s2)"
        by (cases "mapE (store_attachment att (pj_account_id j)) (pe_attachments p) s1")
      have db2: "tx_db s2 = tx_db s" using off_dbD [OF off_db_store_attachments ma] db1 by simp
      note prefix = get Inr \<open>br = Inr bytes\<close> ma
      show thesis
      proof (cases ar)
        case (Inl e)
        have "r = Inl e \<and> s2 = t" using run prefix Inl by (simp add: handle_parse_def bindE_def)
        with ma db1 db2 g Inl show thesis by (intro that(2) [of e s1 p]) simp_all
      next
        case (Inr atts)
        obtain q u where rec: "record_parsed_message (pj_account_id j) (pj_folder_id j) (pj_uid j) (pj_uidvalidity j)
            (pj_internal_date j) (pj_flags j) (parsed_message (pj_content_hash j) p atts) s2 = (q, u)"
          by fastforce
        have "t = u \<and> r = (case q of Inl e \<Rightarrow> Inl e | Inr _ \<Rightarrow> Inr ())"
          using run prefix Inr rec by (cases q) (simp_all add: handle_parse_def bindE_def act_eval)
        with prefix g got [OF \<open>br = Inr bytes\<close>] db1 db2 Inr rec show thesis
          by (intro that(3) [of bytes p s1 atts s2 q]) simp_all
      qed
    qed
  qed
qed

text \<open>What recording leaves of the stores, and of the attachments' blobs.\<close>

lemma record_stores:
  fixes s :: "'z world_scheme"
  assumes "record_parsed_message a f uid uv dt fl p s = (q, t)"
  shows "w_files t = w_files s" and "w_nonces t = w_nonces s"
  using db_only_world [OF db_only_record assms] by simp_all

lemma record_backed:
  fixes s :: "'z world_scheme"
  assumes ok: "mail_ok (tx_db s)" and backed: "attachments_backed att s"
    and new: "\<forall>x \<in> set (pm_attachments p). stored att s a (pa_content_hash x) \<noteq> None"
    and run: "record_parsed_message a f uid uv dt fl p s = (q, t)"
  shows "attachments_backed att t"
proof (cases q)
  case (Inl e)
  have "tx_db t = tx_db s"
    using run Inl unfolding record_parsed_message_def by (simp add: transaction_Inl_db)
  with backed stored_files [OF record_stores(1) [OF run]] show ?thesis by (simp add: attachments_backed_def)
next
  case (Inr r)
  from record_effect [OF ok run [unfolded Inr]] consider
      (made) atts where "tbl_attachments (tx_db t) = tbl_attachments (tx_db s) @ atts"
        "list_all2 (\<lambda>x y. attachment_of (rm_message_id r) a y x) atts (pm_attachments p)"
    | (kept) "tbl_attachments (tx_db t) = tbl_attachments (tx_db s)"
    by (auto split: if_splits)
  then show ?thesis
  proof cases
    case made
    have "stored att s (att_account_id x) (att_content_hash x) \<noteq> None" if "x \<in> set atts" for x
    proof -
      from made(2) that obtain y where "y \<in> set (pm_attachments p)" "attachment_of (rm_message_id r) a y x"
        by (auto simp: list_all2_conv_all_nth in_set_conv_nth) metis
      with new show ?thesis by (simp add: attachment_of_def)
    qed
    with made(1) backed stored_files [OF record_stores(1) [OF run]] show ?thesis
      by (auto simp: attachments_backed_def)
  next
    case kept
    with backed stored_files [OF record_stores(1) [OF run]] show ?thesis by (simp add: attachments_backed_def)
  qed
qed

lemma attachments_backed_mono:
  assumes "attachments_backed att s" and "tx_db t = tx_db s"
    and "\<And>b k q. stored att s b k = Some q \<Longrightarrow> stored att t b k = Some q"
  shows "attachments_backed att t"
  using assms unfolding attachments_backed_def by (metis not_None_eq)

lemma filed_after_record:
  assumes "mail_ok (tx_db s)"
    and "record_parsed_message (pj_account_id j) (pj_folder_id j) (pj_uid j) (pj_uidvalidity j)
        (pj_internal_date j) (pj_flags j) (parsed_message (pj_content_hash j) p atts) s = (Inr x, t)"
  shows "filed_now j (tx_db t)"
proof -
  have "pm_content_hash (parsed_message (pj_content_hash j) p atts) = pj_content_hash j"
    by (simp add: parsed_message_def)
  with record_effect [OF assms] show ?thesis unfolding filed_now_def by auto
qed

lemma handler_outcome:
  assumes "blobs_ok att s" and "mail_ok (tx_db s)" and "attachments_backed att s"
  shows "case handle_parse env raw att j s of (r, t) \<Rightarrow>
    blobs_ok att t \<and> mail_ok (tx_db t) \<and> attachments_backed att t \<and> jobs_part (tx_db t) = jobs_part (tx_db s) \<and>
    (case r of
       Inl _ \<Rightarrow> tx_db t = tx_db s
     | Inr _ \<Rightarrow> filed_now j (tx_db t) \<and> (\<exists>bytes p. stored raw s (pj_account_id j) (pj_content_hash j) = Some bytes \<and>
         parse_eml env (pj_content_hash j) bytes = Inr p))"
proof (cases "handle_parse env raw att j s")
  case (Pair r t)
  from Pair show ?thesis
  proof (cases rule: handle_parse_cases)
    case (nothing e)
    with assms Pair blobs_ok_files [of t s att] stored_files [of t s att] show ?thesis
      by (simp add: attachments_backed_def)
  next
    case (attachments e p s1)
    have ok1: "blobs_ok att s1" "stored att s1 = stored att s"
      using assms(1) attachments blobs_ok_files [of s1 s att] stored_files [of s1 s att] by simp_all
    note st = stored_attachments [OF ok1(1) attachments(5)]
    have "attachments_backed att t"
      by (rule attachments_backed_mono [OF assms(3)]) (use attachments st ok1 in auto)
    with Pair attachments assms st(1) show ?thesis by simp
  next
    case (recorded bytes p s1 atts s2 q)
    have ok1: "blobs_ok att s1" "stored att s1 = stored att s"
      using assms(1) recorded blobs_ok_files [of s1 s att] stored_files [of s1 s att] by simp_all
    note st = stored_attachments [OF ok1(1) recorded(6)]
    have ok2: "mail_ok (tx_db s2)" using assms(2) recorded by simp
    have backed2: "attachments_backed att s2"
      by (rule attachments_backed_mono [OF assms(3)]) (use recorded st ok1 in auto)
    have new: "\<forall>x \<in> set (pm_attachments (parsed_message (pj_content_hash j) p atts)).
        stored att s2 (pj_account_id j) (pa_content_hash x) \<noteq> None"
      using st(3) by (simp add: parsed_message_def)
    have files: "blobs_ok att t"
      using st(1) record_stores [OF recorded(8)] blobs_ok_files [of t s2 att] by simp
    have jobs: "jobs_part (tx_db t) = jobs_part (tx_db s)"
      using keeps_eqD [OF record_jobs_part refl recorded(8)] recorded(7) by simp
    have mail: "mail_ok (tx_db t)" using keeps_eqD [OF keeps_record ok2 recorded(8)] .
    have kept: "attachments_backed att t" by (rule record_backed [OF ok2 backed2 new recorded(8)])
    show ?thesis
    proof (cases q)
      case (Inl e)
      then have "tx_db t = tx_db s"
        using recorded(7,8) unfolding record_parsed_message_def by (simp add: transaction_Inl_db)
      with Pair Inl files mail kept recorded(9) show ?thesis by simp
    next
      case (Inr x)
      with filed_after_record [OF ok2 recorded(8) [unfolded Inr]] Pair files mail kept jobs recorded(1,2,9)
      show ?thesis by simp
    qed
  qed
qed

text \<open>The rows a parsed mail must have: every column, from the mail's own fields.\<close>

definition row_of_mail :: "AccountId \<Rightarrow> ContentHash \<Rightarrow> ParsedEml \<Rightarrow> Message \<Rightarrow> bool" where
  "row_of_mail a h p m \<longleftrightarrow> msg_account_id m = a \<and> msg_content_hash m = h \<and>
     msg_rfc822_message_id m = pe_rfc822_message_id p \<and> msg_subject m = pe_subject p \<and>
     msg_from_address m = pe_from_address p \<and> msg_from_name m = pe_from_name p \<and>
     msg_to_addresses m = pe_to_addresses p \<and> msg_cc_addresses m = pe_cc_addresses p \<and>
     msg_bcc_addresses m = pe_bcc_addresses p \<and> msg_reply_to_addresses m = pe_reply_to_addresses p \<and>
     msg_sent_date m = pe_sent_date p \<and> msg_in_reply_to m = pe_in_reply_to p \<and>
     msg_references m = pe_references p \<and> msg_snippet m = pe_snippet p \<and> msg_size_bytes m = pe_size_bytes p \<and>
     (msg_has_attachments m \<longleftrightarrow> pe_attachments p \<noteq> []) \<and>
     msg_attachment_count m = min (int (length (pe_attachments p))) (2 ^ 31 - 1) \<and> \<not> msg_indexed m"

definition row_of_attachment :: "storage \<Rightarrow> MessageId \<Rightarrow> AccountId \<Rightarrow> ExtractedAttachment \<Rightarrow> MessageAttachment \<Rightarrow> bool" where
  "row_of_attachment st i a x row \<longleftrightarrow> att_message_id row = i \<and> att_account_id row = a \<and>
     att_content_hash row = compute_hash (st_crypto st) (ea_bytes x) \<and> att_filename row = ea_filename x \<and>
     att_content_type row = ea_content_type x \<and> att_size_bytes row = int (length (ea_bytes x)) \<and>
     att_is_inline row = ea_is_inline x \<and> att_content_id row = ea_content_id x"

lemma stored_attachment_rows:
  assumes "blobs_ok att s" and "mapE (store_attachment att a) xs s = (Inr atts, t)"
  shows "atts = map (\<lambda>x. with_hash x (compute_hash (st_crypto att) (ea_bytes x))) xs"
proof -
  from assms(2) obtain hs where hs: "mapE (\<lambda>x. put_if_absent att a (ea_bytes x)) xs s = (Inr hs, t)" "atts = map2 with_hash xs hs"
    by (auto simp: store_attachments_puts split: prod.splits sum.splits)
  from fs.puts_stored(1) [OF assms(1) hs(1)] hs(2) show ?thesis
    by (auto simp: comp_def intro: nth_equalityI)
qed

lemma rows_of_recorded:
  assumes "atts = map (\<lambda>x. with_hash x (compute_hash (st_crypto att) (ea_bytes x))) (pe_attachments p)"
  shows "message_of a (parsed_message h p atts) m \<Longrightarrow> row_of_mail a h p m"
    and "list_all2 (\<lambda>row x. attachment_of i a x row) rows atts \<Longrightarrow>
      list_all2 (\<lambda>row x. row_of_attachment att i a x row) rows (pe_attachments p)"
  unfolding assms
  by (simp_all add: message_of_def row_of_mail_def parsed_message_def attachment_of_def row_of_attachment_def
      with_hash_def list_all2_map2 list.rel_map)

lemma handler_recorded:
  assumes files: "blobs_ok att s" and mail: "mail_ok (tx_db s)"
    and run: "handle_parse env raw att j s = (Inr u, t)"
  shows "\<exists>bytes p (r :: RecordedMessage). stored raw s (pj_account_id j) (pj_content_hash j) = Some bytes \<and>
    parse_eml env (pj_content_hash j) bytes = Inr p \<and>
    (\<exists>m. filter (same_content (pj_account_id j) (pj_content_hash j)) (tbl_messages (tx_db t)) = [m] \<and>
      msg_id m = rm_message_id r) \<and>
    (rm_created r \<longleftrightarrow> filter (same_content (pj_account_id j) (pj_content_hash j)) (tbl_messages (tx_db s)) = []) \<and>
    (if rm_created r
     then \<exists>m rows. row_of_mail (pj_account_id j) (pj_content_hash j) p m \<and>
       tbl_messages (tx_db t) = tbl_messages (tx_db s) @ [m] \<and> tbl_attachments (tx_db t) = tbl_attachments (tx_db s) @ rows \<and>
       list_all2 (\<lambda>row x. row_of_attachment att (rm_message_id r) (pj_account_id j) x row) rows (pe_attachments p)
     else tbl_messages (tx_db t) = tbl_messages (tx_db s) \<and> tbl_attachments (tx_db t) = tbl_attachments (tx_db s)) \<and>
    (\<exists>l. filter (at_place (rm_message_id r) (pj_folder_id j)) (tbl_locations (tx_db t)) = [l] \<and> loc_uid l = pj_uid j \<and>
       loc_uidvalidity l = pj_uidvalidity j \<and> loc_flags l = pj_flags j \<and> loc_internal_date l = pj_internal_date j) \<and>
    filter (\<lambda>l. \<not> at_place (rm_message_id r) (pj_folder_id j) l) (tbl_locations (tx_db t)) =
      filter (\<lambda>l. \<not> at_place (rm_message_id r) (pj_folder_id j) l) (tbl_locations (tx_db s)) \<and>
    tx_db t = (tx_db s)\<lparr>tbl_messages := tbl_messages (tx_db t), tbl_attachments := tbl_attachments (tx_db t),
      tbl_locations := tbl_locations (tx_db t)\<rparr>"
  using run
proof (cases rule: handle_parse_cases)
  case (recorded bytes p s1 atts s2 q)
  then obtain r where r: "q = Inr r" by (cases q) auto
  have "blobs_ok att s1" using files recorded blobs_ok_files [of s1 s att] by simp
  note atts = stored_attachment_rows [OF this recorded(6)]
  have ok2: "mail_ok (tx_db s2)" using mail recorded(7) by simp
  have hash: "pm_content_hash (parsed_message (pj_content_hash j) p atts) = pj_content_hash j"
    and list: "pm_attachments (parsed_message (pj_content_hash j) p atts) = atts"
    by (simp_all add: parsed_message_def)
  note exact = record_exact [OF ok2 recorded(8) [unfolded r], unfolded hash list recorded(7)]
    and one = record_effect [OF ok2 recorded(8) [unfolded r], unfolded hash list recorded(7)]
  have made: "if rm_created r
     then \<exists>m rows. row_of_mail (pj_account_id j) (pj_content_hash j) p m \<and>
       tbl_messages (tx_db t) = tbl_messages (tx_db s) @ [m] \<and> tbl_attachments (tx_db t) = tbl_attachments (tx_db s) @ rows \<and>
       list_all2 (\<lambda>row x. row_of_attachment att (rm_message_id r) (pj_account_id j) x row) rows (pe_attachments p)
     else tbl_messages (tx_db t) = tbl_messages (tx_db s) \<and> tbl_attachments (tx_db t) = tbl_attachments (tx_db s)"
    using exact rows_of_recorded [OF atts] by (cases "rm_created r") (simp_all, blast)
  have one': "\<exists>m. filter (same_content (pj_account_id j) (pj_content_hash j)) (tbl_messages (tx_db t)) = [m] \<and>
      msg_id m = rm_message_id r"
    "rm_created r \<longleftrightarrow> filter (same_content (pj_account_id j) (pj_content_hash j)) (tbl_messages (tx_db s)) = []"
    using one by blast+
  from exact have place: "\<exists>l. filter (at_place (rm_message_id r) (pj_folder_id j)) (tbl_locations (tx_db t)) = [l] \<and>
       loc_uid l = pj_uid j \<and> loc_uidvalidity l = pj_uidvalidity j \<and> loc_flags l = pj_flags j \<and>
       loc_internal_date l = pj_internal_date j"
    "filter (\<lambda>l. \<not> at_place (rm_message_id r) (pj_folder_id j) l) (tbl_locations (tx_db t)) =
      filter (\<lambda>l. \<not> at_place (rm_message_id r) (pj_folder_id j) l) (tbl_locations (tx_db s))"
    "tx_db t = (tx_db s)\<lparr>tbl_messages := tbl_messages (tx_db t), tbl_attachments := tbl_attachments (tx_db t),
      tbl_locations := tbl_locations (tx_db t)\<rparr>" by blast+
  show ?thesis
    by (rule exI [of _ bytes], rule exI [of _ p], rule exI [of _ r])
      (intro conjI recorded(1,2) made one' place)
qed simp_all

text \<open>
  C35. The parse handler, under every schedule of disk and database failures. The archive stays
  consistent and every attachment row names a stored blob. If the handler fails, the tables are as
  before. If it succeeds, the job's raw blob was stored and it parsed; the archive has exactly one
  message of that content for the account. If there was none before, that message was added with every column
  taken from the parsed mail, and one attachment row for each of its attachments in order, under
  the hash of its bytes and with its own name, type, size and inline marks; otherwise no message
  and no attachment changed. The message has exactly one location in the job's folder, with the
  job's UID, validity, flags and date; other locations and all other tables, the queue among them,
  are the same.
\<close>

theorem parse_handler_archives:
  assumes "blobs_ok att s" and "mail_ok (tx_db s)" and "attachments_backed att s"
    and "handle_parse env raw att j s = (r, t)"
  shows "blobs_ok att t \<and> mail_ok (tx_db t) \<and> attachments_backed att t \<and>
    (case r of
       Inl _ \<Rightarrow> tx_db t = tx_db s
     | Inr _ \<Rightarrow> \<exists>bytes p m. stored raw s (pj_account_id j) (pj_content_hash j) = Some bytes \<and>
         parse_eml env (pj_content_hash j) bytes = Inr p \<and>
         filter (same_content (pj_account_id j) (pj_content_hash j)) (tbl_messages (tx_db t)) = [m] \<and>
         (if filter (same_content (pj_account_id j) (pj_content_hash j)) (tbl_messages (tx_db s)) = []
          then row_of_mail (pj_account_id j) (pj_content_hash j) p m \<and>
            tbl_messages (tx_db t) = tbl_messages (tx_db s) @ [m] \<and>
            (\<exists>rows. tbl_attachments (tx_db t) = tbl_attachments (tx_db s) @ rows \<and>
              list_all2 (\<lambda>row x. row_of_attachment att (msg_id m) (pj_account_id j) x row) rows (pe_attachments p))
          else tbl_messages (tx_db t) = tbl_messages (tx_db s) \<and> tbl_attachments (tx_db t) = tbl_attachments (tx_db s)) \<and>
         (\<exists>l. filter (at_place (msg_id m) (pj_folder_id j)) (tbl_locations (tx_db t)) = [l] \<and> loc_uid l = pj_uid j \<and>
            loc_uidvalidity l = pj_uidvalidity j \<and> loc_flags l = pj_flags j \<and> loc_internal_date l = pj_internal_date j) \<and>
         filter (\<lambda>l. \<not> at_place (msg_id m) (pj_folder_id j) l) (tbl_locations (tx_db t)) =
           filter (\<lambda>l. \<not> at_place (msg_id m) (pj_folder_id j) l) (tbl_locations (tx_db s)) \<and>
         tx_db t = (tx_db s)\<lparr>tbl_messages := tbl_messages (tx_db t), tbl_attachments := tbl_attachments (tx_db t),
           tbl_locations := tbl_locations (tx_db t)\<rparr>)"
proof (cases r)
  case (Inl e)
  with handler_outcome [OF assms(1-3), where env = env and raw = raw and j = j] assms show ?thesis by simp
next
  case (Inr u)
  from handler_recorded [OF assms(1,2) assms(4) [unfolded Inr]] obtain bytes p m and r' :: RecordedMessage where
    read: "stored raw s (pj_account_id j) (pj_content_hash j) = Some bytes" "parse_eml env (pj_content_hash j) bytes = Inr p"
    and m: "filter (same_content (pj_account_id j) (pj_content_hash j)) (tbl_messages (tx_db t)) = [m]"
      "msg_id m = rm_message_id r'"
    and created: "rm_created r' \<longleftrightarrow> filter (same_content (pj_account_id j) (pj_content_hash j)) (tbl_messages (tx_db s)) = []"
    and made: "if rm_created r'
     then \<exists>m rows. row_of_mail (pj_account_id j) (pj_content_hash j) p m \<and>
       tbl_messages (tx_db t) = tbl_messages (tx_db s) @ [m] \<and> tbl_attachments (tx_db t) = tbl_attachments (tx_db s) @ rows \<and>
       list_all2 (\<lambda>row x. row_of_attachment att (rm_message_id r') (pj_account_id j) x row) rows (pe_attachments p)
     else tbl_messages (tx_db t) = tbl_messages (tx_db s) \<and> tbl_attachments (tx_db t) = tbl_attachments (tx_db s)"
    and rest: "(\<exists>l. filter (at_place (rm_message_id r') (pj_folder_id j)) (tbl_locations (tx_db t)) = [l] \<and> loc_uid l = pj_uid j \<and>
       loc_uidvalidity l = pj_uidvalidity j \<and> loc_flags l = pj_flags j \<and> loc_internal_date l = pj_internal_date j) \<and>
      filter (\<lambda>l. \<not> at_place (rm_message_id r') (pj_folder_id j) l) (tbl_locations (tx_db t)) =
        filter (\<lambda>l. \<not> at_place (rm_message_id r') (pj_folder_id j) l) (tbl_locations (tx_db s)) \<and>
      tx_db t = (tx_db s)\<lparr>tbl_messages := tbl_messages (tx_db t), tbl_attachments := tbl_attachments (tx_db t),
        tbl_locations := tbl_locations (tx_db t)\<rparr>"
    by (elim exE conjE) (rule that; (intro conjI exI)?; assumption)
  have "row_of_mail (pj_account_id j) (pj_content_hash j) p x \<Longrightarrow> same_content (pj_account_id j) (pj_content_hash j) x" for x
    by (simp add: row_of_mail_def same_content_def)
  with made created m have "if filter (same_content (pj_account_id j) (pj_content_hash j)) (tbl_messages (tx_db s)) = []
     then row_of_mail (pj_account_id j) (pj_content_hash j) p m \<and>
       tbl_messages (tx_db t) = tbl_messages (tx_db s) @ [m] \<and>
       (\<exists>rows. tbl_attachments (tx_db t) = tbl_attachments (tx_db s) @ rows \<and>
         list_all2 (\<lambda>row x. row_of_attachment att (msg_id m) (pj_account_id j) x row) rows (pe_attachments p))
     else tbl_messages (tx_db t) = tbl_messages (tx_db s) \<and> tbl_attachments (tx_db t) = tbl_attachments (tx_db s)"
    by (cases "rm_created r'") auto
  with read m(1) rest [folded m(2)] handler_outcome [OF assms(1-3), where env = env and raw = raw and j = j] assms(4) show ?thesis
    unfolding Inr sum.case by auto
qed

text \<open>
  The registered handlers are what the pool's lemmas ask of handlers: they leave the queue alone, so
  a job that another worker runs is not disturbed.
\<close>

lemma handle_parse_jobs: "jobs_part (tx_db (snd (handle_parse env raw att j s))) = jobs_part (tx_db s)"
proof (cases "handle_parse env raw att j s")
  case (Pair r t)
  then show ?thesis
  proof (cases rule: handle_parse_cases)
    case (recorded bytes p s1 atts s2 q)
    from keeps_eqD [OF record_jobs_part refl recorded(8)] recorded(7) Pair show ?thesis by simp
  qed (simp_all add: Pair)
qed

lemma parse_handlers_ok: "registry_ok (parse_handlers ser env raw att)"
proof -
  have "calm (tx_db s) (tx_db (snd (erased_handle ser (handle_parse env raw att) p s)))" for p and s :: "'z world_scheme"
  proof (cases p)
    case (ParsePayload j)
    have "jobs_part (tx_db (snd (handle_parse env raw att j s))) = jobs_part (tx_db s)" by (rule handle_parse_jobs)
    then show ?thesis by (simp add: ParsePayload erased_handle_def jobs_part_def calm_jobs_eq)
  qed (simp_all add: erased_handle_def act_eval calm_refl)
  then show ?thesis by (auto simp: registry_ok_def parse_handlers_def register_handler_def split: if_splits)
qed

section \<open>The pipeline\<close>

text \<open>What claiming a job and recording its outcome leave alone: all but status and bookkeeping.\<close>

definition work :: "Job \<Rightarrow> JobId \<times> string \<times> payload" where
  "work j = (job_id j, job_type j, job_payload j)"

definition mail_tables :: "db \<Rightarrow> Message list \<times> MessageLocation list \<times> MessageAttachment list \<times> Account list \<times> Folder list" where
  "mail_tables d = (tbl_messages d, tbl_locations d, tbl_attachments d, tbl_accounts d, tbl_folders d)"

definition beside where
  "beside d = (map work (tbl_jobs d), mail_tables d)"

lemma mail_tables_ok: "mail_tables d' = mail_tables d \<Longrightarrow> mail_ok d' = mail_ok d"
  by (simp add: mail_tables_def mail_ok_defs exists_defs)

lemma work_rows [simp]:
  "work (claimed_row now j) = work j" "work (completed_row now j) = work j"
  "work (rescheduled_row now at e j) = work j" "work (failed_row now e j) = work j"
  "work (pending_again_row now j) = work j"
  by (simp_all add: work_def row_update_defs)

lemma keeps_beside_update:
  assumes "\<And>j. work (f j) = work j"
  shows "keeps (\<lambda>d. beside d = v) (execute (update_jobs p f))"
  by (rule keeps_execute) (use assms in \<open>auto simp: update_jobs_def beside_def mail_tables_def map_update_where\<close>)

lemma keeps_beside_finish:
  assumes "\<And>j. work (f j) = work j"
  shows "keeps (\<lambda>d. beside d = v) (finish_job name job f)"
  unfolding finish_job_def using assms by (intro keeps_intros keeps_beside_update) auto

lemma keeps_beside_ops:
  "keeps (\<lambda>d. beside d = v) (transaction claim_next)" "keeps (\<lambda>d. beside d = v) (record_outcome j r)"
  "keeps (\<lambda>d. beside d = v) (transaction reset_running_to_pending)"
proof -
  have "keeps (\<lambda>d. beside d = v) (claim_loop (\<lambda>_ d. d) now n)" for now n
  proof (induction n)
    case 0
    then show ?case by (simp add: keeps_intros)
  next
    case (Suc n)
    have "keeps (\<lambda>d. beside d = v) (modifyE (\<lambda>s. s))" by (rule keepsI) simp
    with Suc show ?case by (auto intro!: keeps_intros keeps_beside_update)
  qed
  then show "keeps (\<lambda>d. beside d = v) (transaction claim_next)"
    unfolding claim_next_def claim_next_among_def by (intro keeps_intros)
  show "keeps (\<lambda>d. beside d = v) (record_outcome j r)"
    unfolding record_outcome_def complete_job_def fail_job_def fail_terminal_def
    by (cases r) (auto intro!: keeps_intros keeps_beside_finish)
  show "keeps (\<lambda>d. beside d = v) (transaction reset_running_to_pending)"
    unfolding reset_running_to_pending_def by (intro keeps_intros keeps_beside_update) simp
qed

lemma same_work:
  assumes "jobs_ok d" and "beside d' = beside d" and "find_job i d' = Some y" and "find_job i d = Some x"
  shows "job_type y = job_type x \<and> job_payload y = job_payload x"
proof -
  from assms(2) have "work ` set (tbl_jobs d') = work ` set (tbl_jobs d)"
    by (metis beside_def prod.inject set_map)
  with find_job_in [OF assms(3)] obtain z where z: "z \<in> set (tbl_jobs d)" "work z = work y" "job_id y = i" by force
  then have "find_job i d = Some z" by (intro find_job_eq [OF assms(1)]) (auto simp: work_def)
  with assms(4) z show ?thesis by (simp add: work_def)
qed

definition finished_archived :: "db \<Rightarrow> bool" where
  "finished_archived d \<longleftrightarrow> (\<forall>i j p. find_job i d = Some j \<longrightarrow> job_status j = Completed \<longrightarrow>
     job_type j = PARSE_JOB_TYPE \<longrightarrow> job_payload j = ParsePayload p \<longrightarrow> archived p d)"

definition pipeline_ok :: "storage \<Rightarrow> 'z world_scheme \<Rightarrow> bool" where
  "pipeline_ok att s \<longleftrightarrow> jobs_ok (tx_db s) \<and> mail_ok (tx_db s) \<and> blobs_ok att s \<and> attachments_backed att s \<and>
     finished_archived (tx_db s)"

lemma archived_beside: "beside d' = beside d \<Longrightarrow> archived p d' = archived p d"
  by (simp add: archived_def beside_def mail_tables_def)

lemma attachments_backed_eq:
  "tbl_attachments (tx_db t) = tbl_attachments (tx_db s) \<Longrightarrow> w_files t = w_files s \<Longrightarrow> attachments_backed att t = attachments_backed att s"
  using stored_files [of t s att] by (simp add: attachments_backed_def)

text \<open>Recording a message keeps every other one archived.\<close>

lemma archived_after_record:
  assumes "mail_ok (tx_db s)" and "archived k (tx_db s)"
    and "record_parsed_message a f uid uv dt fl p s = (q, t)"
  shows "archived k (tx_db t)"
proof (cases q)
  case (Inl e)
  with assms(2,3) show ?thesis unfolding record_parsed_message_def by (simp add: transaction_Inl_db)
next
  case (Inr r)
  note eff = record_effect [OF assms(1) assms(3) [unfolded Inr]]
  from assms(2) obtain m l where m: "m \<in> set (tbl_messages (tx_db s))" "same_content (pj_account_id k) (pj_content_hash k) m"
    and l: "l \<in> set (tbl_locations (tx_db s))" "at_place (msg_id m) (pj_folder_id k) l"
    unfolding archived_def by blast
  from eff m(1) have "m \<in> set (tbl_messages (tx_db t))" by (auto split: if_splits)
  moreover have "\<exists>l \<in> set (tbl_locations (tx_db t)). at_place (msg_id m) (pj_folder_id k) l"
  proof (cases "at_place (rm_message_id r) f l")
    case True
    with l eff show ?thesis by (auto simp: at_place_def)
  next
    case False
    with l eff show ?thesis by blast
  qed
  ultimately show ?thesis using m(2) unfolding archived_def by blast
qed

lemma archived_after_handler:
  assumes "mail_ok (tx_db s)" and "archived k (tx_db s)" and "handle_parse env raw att j s = (r, t)"
  shows "archived k (tx_db t)"
  using assms(3)
proof (cases rule: handle_parse_cases)
  case (recorded bytes p s1 atts s2 q)
  have "mail_ok (tx_db s2)" "archived k (tx_db s2)" using assms(1,2) recorded(7) by simp_all
  from archived_after_record [OF this recorded(8)] show ?thesis .
qed (use assms in simp_all)

section \<open>A worker's pass keeps the pipeline\<close>

lemma worker_turn_parts:
  assumes run: "worker_turn reg s = (o1, t)"
  obtains
    (no_job) c where "transaction claim_next s = (c, t)" "\<And>j. c \<noteq> Inr (Some j)"
  | (job) j t0 r t1 q where "transaction claim_next s = (Inr (Some j), t0)"
      "dispatch reg (job_type j) (job_payload j) t0 = (r, t1)" "record_outcome j r t1 = (q, t)"
proof -
  obtain c t0 where c: "transaction claim_next s = (c, t0)" by (cases "transaction claim_next s")
  show thesis
  proof (cases "\<exists>j. c = Inr (Some j)")
    case False
    with run c have "t0 = t"
      by (cases c) (auto simp: worker_turn_def worker_turn_on_def handleE_def pause_or_stop_def act_eval
          split: option.splits if_splits)
    with c False show thesis by (intro that(1) [of c]) auto
  next
    case True
    then obtain j where j: "c = Inr (Some j)" by blast
    obtain r t1 where d: "dispatch reg (job_type j) (job_payload j) t0 = (r, t1)"
      by (cases "dispatch reg (job_type j) (job_payload j) t0")
    obtain q u where q: "record_outcome j r t1 = (q, u)" by (cases "record_outcome j r t1")
    have "u = t"
      using run c j d q
      by (cases r; cases q) (auto simp: worker_turn_def worker_turn_on_def record_outcome_def handleE_def
          pause_or_stop_def act_eval split: if_splits)
    with c j d q show thesis by (intro that(2) [of j t0 r t1 q]) simp_all
  qed
qed

text \<open>A database operation that completes no job and leaves the mail alone.\<close>

lemma pipeline_db_step:
  fixes s :: "'z world_scheme"
  assumes ok: "pipeline_ok att s" and m: "m s = (r, t)" and db: "db_only m"
    and jobs: "jobs_ok (tx_db t)" and beside: "beside (tx_db t) = beside (tx_db s)"
    and fresh: "\<And>i y. find_job i (tx_db t) = Some y \<Longrightarrow> job_status y = Completed \<Longrightarrow>
      job_type y = PARSE_JOB_TYPE \<Longrightarrow> find_job i (tx_db s) = Some y \<or> (\<forall>p. job_payload y = ParsePayload p \<longrightarrow> archived p (tx_db s))"
  shows "pipeline_ok att t"
proof -
  note w = db_only_world [OF db m]
  from beside have mail: "tbl_messages (tx_db t) = tbl_messages (tx_db s)"
    "tbl_locations (tx_db t) = tbl_locations (tx_db s)" "tbl_attachments (tx_db t) = tbl_attachments (tx_db s)"
    by (simp_all add: beside_def mail_tables_def)
  have fin: "finished_archived (tx_db t)"
    unfolding finished_archived_def archived_beside [OF beside]
    using fresh ok unfolding pipeline_ok_def finished_archived_def by blast
  show ?thesis
    using ok fin jobs mail_tables_ok [of "tx_db t" "tx_db s"] beside blobs_ok_files [of t s att] attachments_backed_eq [OF mail(3)] w mail
    unfolding pipeline_ok_def beside_def by simp
qed

lemma handler_keeps_pipeline:
  assumes ok: "pipeline_ok att s" and run: "handle_parse env raw att j s = (r, t)"
  shows "pipeline_ok att t" and "r = Inr () \<Longrightarrow> archived j (tx_db t)"
    and "jobs_part (tx_db t) = jobs_part (tx_db s)"
proof -
  from ok have parts: "blobs_ok att s" "mail_ok (tx_db s)" "attachments_backed att s" "finished_archived (tx_db s)"
    "jobs_ok (tx_db s)" by (simp_all add: pipeline_ok_def)
  from handler_outcome [OF parts(1-3), where env = env and raw = raw and j = j] run have eff:
    "blobs_ok att t" "mail_ok (tx_db t)" "attachments_backed att t"
    and filed: "r = Inr () \<Longrightarrow> filed_now j (tx_db t)"
    and jobs: "jobs_part (tx_db t) = jobs_part (tx_db s)"
    by (auto split: sum.splits)
  show "jobs_part (tx_db t) = jobs_part (tx_db s)" by (rule jobs)
  then have same: "tbl_jobs (tx_db t) = tbl_jobs (tx_db s)" "job_seq (tx_db t) = job_seq (tx_db s)"
    by (simp_all add: jobs_part_def)
  then have "jobs_ok (tx_db t)" "find_job i (tx_db t) = find_job i (tx_db s)" for i
    using parts(5) by (simp_all add: jobs_ok_def find_job_def)
  with parts(4) archived_after_handler [OF parts(2) _ run] eff show "pipeline_ok att t"
    unfolding pipeline_ok_def finished_archived_def by metis
  show "r = Inr () \<Longrightarrow> archived j (tx_db t)" using filed filed_now_archived by blast
qed

lemma dispatch_keeps_pipeline:
  assumes ok: "pipeline_ok att s" and run: "dispatch (parse_handlers ser env raw att) jt p s = (r, t)"
  shows "pipeline_ok att t" and "jobs_part (tx_db t) = jobs_part (tx_db s)"
    and "r = Inr () \<Longrightarrow> p = ParsePayload q \<Longrightarrow> archived q (tx_db t)"
proof -
  have "pipeline_ok att t \<and> jobs_part (tx_db t) = jobs_part (tx_db s) \<and>
    (\<forall>q. r = Inr () \<longrightarrow> p = ParsePayload q \<longrightarrow> archived q (tx_db t))"
  proof (cases "jt = PARSE_JOB_TYPE \<and> (\<exists>q. p = ParsePayload q)")
    case True
    then obtain q where "jt = PARSE_JOB_TYPE" "p = ParsePayload q" by blast
    with run have "handle_parse env raw att q s = (r, t)"
      by (simp add: dispatch_def parse_handlers_def register_handler_def erased_handle_def)
    from handler_keeps_pipeline [OF ok this] \<open>p = ParsePayload q\<close> show ?thesis by auto
  next
    case False
    then have "t = s \<and> (\<exists>e. r = Inl e)"
      using run by (auto simp: dispatch_def parse_handlers_def register_handler_def erased_handle_def act_eval
          split: if_splits payload.splits)
    with ok show ?thesis by auto
  qed
  then show "pipeline_ok att t" "jobs_part (tx_db t) = jobs_part (tx_db s)"
    "r = Inr () \<Longrightarrow> p = ParsePayload q \<Longrightarrow> archived q (tx_db t)" by blast+
qed

lemma claim_keeps_pipeline:
  fixes s :: "'z world_scheme"
  assumes ok: "pipeline_ok att s" and run: "transaction claim_next s = (c, t)"
  shows "pipeline_ok att t"
proof (rule pipeline_db_step [where m = "transaction claim_next", OF ok run])
  from ok have jok: "jobs_ok (tx_db s)" by (simp add: pipeline_ok_def)
  show "db_only (transaction claim_next :: ('z, Job option) wm)" by (intro db_only_intros)
  show "jobs_ok (tx_db t)" by (rule keeps_eqD [where P = jobs_ok and m = "transaction claim_next", OF _ jok run]) (intro keeps_intros)
  show "beside (tx_db t) = beside (tx_db s)" by (rule keeps_eqD [OF keeps_beside_ops(1) refl run])
  fix i y
  assume y: "find_job i (tx_db t) = Some y" and fin: "job_status y = Completed"
  consider e where "c = Inl e" | "c = Inr None" | j where "c = Inr (Some j)"
    by (metis option.exhaust sum.exhaust)
  then have "find_job i (tx_db s) = Some y"
  proof cases
    case 1
    with jq.claim_err run y show ?thesis by metis
  next
    case 2
    with jq.claim_none [OF jok] run y show ?thesis by metis
  next
    case 3
    note cs = jq.claim_some [OF jok run [unfolded 3]]
    have upd: "find_job i (tx_db t) = (if i = job_id j then Some j else find_job i (tx_db s))"
      using fun_cong [OF cs [THEN conjunct2, THEN conjunct1], of i] by simp
    with cs y fin show ?thesis by (cases "i = job_id j") auto
  qed
  then show "find_job i (tx_db s) = Some y \<or> (\<forall>p. job_payload y = ParsePayload p \<longrightarrow> archived p (tx_db s))" ..
qed

lemma reset_completed:
  assumes "transaction reset_running_to_pending s = (r, t)" and "y \<in> set (tbl_jobs (tx_db t))"
    and "job_status y = Completed"
  shows "y \<in> set (tbl_jobs (tx_db s))"
proof -
  have ex: "keeps (\<lambda>d. \<forall>y \<in> set (tbl_jobs d). job_status y = Completed \<longrightarrow> y \<in> J)
      (execute (update_jobs q (pending_again_row now)))" for q now J
    by (rule keeps_execute) (auto simp: update_jobs_def elim!: in_update_whereE)
  have "keeps (\<lambda>d. \<forall>y \<in> set (tbl_jobs d). job_status y = Completed \<longrightarrow> y \<in> J)
      (transaction reset_running_to_pending)" for J
    unfolding reset_running_to_pending_def by (intro keeps_intros ex)
  from keeps_eqD [OF this [of "set (tbl_jobs (tx_db s))"] _ assms(1)] assms(2,3) show ?thesis by blast
qed

lemma enqueue_keeps_pipeline:
  fixes s :: "'z world_scheme"
  assumes ok: "pipeline_ok att s" and run: "enqueue_parse p s = (r, t)"
  shows "pipeline_ok att t"
proof -
  from ok have parts: "blobs_ok att s" "mail_ok (tx_db s)" "attachments_backed att s" "finished_archived (tx_db s)"
    "jobs_ok (tx_db s)" by (simp_all add: pipeline_ok_def)
  note ec = enqueue_parse_case [OF run parts(5)]
  have jok: "jobs_ok (tx_db t)" by (rule enqueue_parse_jobs_ok [OF run parts(5)])
  from ec have mail: "mail_tables (tx_db t) = mail_tables (tx_db s)" by (cases r) (simp_all add: mail_tables_def)
  have arch: "archived k (tx_db t) = archived k (tx_db s)" for k
    using mail by (simp add: archived_def mail_tables_def)
  have rows: "y \<in> set (tbl_jobs (tx_db s))"
    if "y \<in> set (tbl_jobs (tx_db t))" "job_status y = Completed" for y
    using ec that by (cases r) (auto simp: new_job_row_def)
  have "finished_archived (tx_db t)"
    unfolding finished_archived_def arch
  proof (intro allI impI)
    fix i y k
    assume "find_job i (tx_db t) = Some y" "job_status y = Completed" "job_type y = PARSE_JOB_TYPE"
      "job_payload y = ParsePayload k"
    moreover from this(1,2) have "find_job i (tx_db s) = Some y"
      using rows by (auto intro: find_job_eq [OF parts(5)] dest: find_job_in)
    ultimately show "archived k (tx_db s)" using parts(4) unfolding finished_archived_def by blast
  qed
  moreover have "mail_ok (tx_db t)" using mail_tables_ok [OF mail] parts(2) by simp
  moreover have "blobs_ok att t"
    using parts(1) ec enqueue_parse_nonces [OF run] blobs_ok_files [of t s att] by simp
  moreover have "attachments_backed att t"
    using attachments_backed_eq [of t s att] parts(3) mail ec by (simp add: mail_tables_def)
  ultimately show ?thesis using jok by (simp add: pipeline_ok_def)
qed

lemma record_keeps_pipeline:
  fixes s :: "'z world_scheme"
  assumes ok: "pipeline_ok att s" and j: "find_job (job_id j) (tx_db s) = Some j"
    and arch: "\<And>p. r = Inr () \<Longrightarrow> job_payload j = ParsePayload p \<Longrightarrow> archived p (tx_db s)"
    and run: "record_outcome j r s = (q, t)"
  shows "pipeline_ok att t"
proof (rule pipeline_db_step [where m = "record_outcome j r", OF ok run])
  from ok have jok: "jobs_ok (tx_db s)" by (simp add: pipeline_ok_def)
  show "db_only (record_outcome j r :: ('z, Job) wm)"
    unfolding record_outcome_def by (cases r) (auto intro: db_only_intros)
  show "jobs_ok (tx_db t)" by (rule keeps_eqD [OF keeps_record_outcome jok run])
  show b: "beside (tx_db t) = beside (tx_db s)" by (rule keeps_eqD [OF keeps_beside_ops(2) refl run])
  fix i y
  assume y: "find_job i (tx_db t) = Some y" and fin: "job_status y = Completed"
  show "find_job i (tx_db s) = Some y \<or> (\<forall>p. job_payload y = ParsePayload p \<longrightarrow> archived p (tx_db s))"
  proof (cases q)
    case (Inl e)
    with record_outcome_err run have "tx_db t = tx_db s" by blast
    with y show ?thesis by simp
  next
    case (Inr row)
    note rec = record_outcome_row [OF jok run [unfolded Inr]]
    show ?thesis
    proof (cases "i = job_id j")
      case False
      with fun_cong [OF rec(1), of i] y show ?thesis by simp
    next
      case True
      with fun_cong [OF rec(1), of i] y have "y = row" by simp
      with rec(2) fin have r: "r = Inr ()" by (auto simp: recorded_as_def split: sum.splits if_splits)
      from same_work [OF jok b y] j True have "job_payload y = job_payload j" by simp
      with arch [OF r] show ?thesis by simp
    qed
  qed
qed

lemma turn_keeps_pipeline:
  fixes s :: "'z world_scheme"
  assumes ok: "pipeline_ok att s"
  shows "pipeline_ok att (snd (worker_turn (parse_handlers ser env raw att) s))"
proof (cases "worker_turn (parse_handlers ser env raw att) s")
  case (Pair o1 t)
  from Pair have "pipeline_ok att t"
  proof (cases rule: worker_turn_parts)
    case (no_job c)
    show ?thesis by (rule claim_keeps_pipeline [OF ok no_job(1)])
  next
    case (job j t0 r t1 q)
    have ok0: "pipeline_ok att t0" by (rule claim_keeps_pipeline [OF ok job(1)])
    note d = dispatch_keeps_pipeline [OF ok0 job(2)]
    from ok have "jobs_ok (tx_db s)" by (simp add: pipeline_ok_def)
    from jq.claimed_lookup(2) [OF this job(1)] d(2) have "find_job (job_id j) (tx_db t1) = Some j"
      by (simp add: jobs_part_def find_job_def)
    with d(1,3) job(3) show ?thesis by (blast intro: record_keeps_pipeline)
  qed
  with Pair show ?thesis by simp
qed

lemma start_keeps_pipeline:
  fixes s :: "'z world_scheme"
  assumes ok: "pipeline_ok att s"
  shows "pipeline_ok att (snd (start_subsystem n s))"
proof -
  obtain r t where run: "transaction reset_running_to_pending s = (r, t)"
    by (cases "transaction reset_running_to_pending s")
  have "pipeline_ok att t"
  proof (rule pipeline_db_step [where m = "transaction reset_running_to_pending", OF ok run])
    from ok have jok: "jobs_ok (tx_db s)" by (simp add: pipeline_ok_def)
    show "db_only (transaction reset_running_to_pending :: ('z, nat) wm)" by (intro db_only_intros)
    show ok': "jobs_ok (tx_db t)" by (rule keeps_eqD [where P = jobs_ok and m = "transaction reset_running_to_pending", OF _ jok run]) (intro keeps_intros)
    show "beside (tx_db t) = beside (tx_db s)" by (rule keeps_eqD [OF keeps_beside_ops(3) refl run])
    fix i y
    assume y: "find_job i (tx_db t) = Some y" and fin: "job_status y = Completed"
    have "y \<in> set (tbl_jobs (tx_db s))"
      by (rule reset_completed [OF run]) (use y fin in \<open>auto dest: find_job_in\<close>)
    with find_job_in [OF y] show "find_job i (tx_db s) = Some y \<or> (\<forall>p. job_payload y = ParsePayload p \<longrightarrow> archived p (tx_db s))"
      by (auto intro: find_job_eq [OF jok])
  qed
  with run show ?thesis by (cases r) (simp_all add: start_subsystem_def bindE_def act_eval)
qed

lemma ingest_keeps_pipeline:
  assumes ok: "pipeline_ok att s" and apart: "apart raw att"
  shows "pipeline_ok att (snd (ingest_raw raw req s))"
proof -
  from ok have parts: "blobs_ok att s" "mail_ok (tx_db s)" "attachments_backed att s" "finished_archived (tx_db s)"
    "jobs_ok (tx_db s)" by (simp_all add: pipeline_ok_def)
  obtain hr s1 where put: "put_if_absent raw (ir_account_id req) (ir_raw_bytes req) s = (hr, s1)"
    by (cases "put_if_absent raw (ir_account_id req) (ir_raw_bytes req) s")
  have db1: "tx_db s1 = tx_db s" using off_dbD [OF off_db_blob_ops(3) put] by simp
  note other = put_other_store [OF apart put]
  have ok1: "pipeline_ok att s1"
    using parts db1 other by (simp add: pipeline_ok_def attachments_backed_def)
  show ?thesis
  proof (cases hr)
    case (Inl e)
    with put ok1 show ?thesis by (simp add: ingest_raw_def bindE_def)
  next
    case (Inr h)
    obtain jr s2 where enq: "enqueue_parse (parse_job_of req h) s1 = (jr, s2)"
      by (cases "enqueue_parse (parse_job_of req h) s1")
    have jok1: "jobs_ok (tx_db s1)" using parts(5) db1 by simp
    have "pipeline_ok att s2" by (rule enqueue_keeps_pipeline [OF ok1 enq])
    moreover have "snd (ingest_raw raw req s) = s2"
      using put Inr enq by (cases jr) (simp_all add: ingest_raw_def bindE_def act_eval)
    ultimately show ?thesis by simp
  qed
qed

text \<open>
  C3. No mail is lost by being marked done: a pass of the worker, the crash recovery at start
  and the front door, under every schedule of disk and database failures, keep the pipeline
  sound. Every parse job that is Completed has its message in the archive, located in the
  job's folder; every attachment row names a stored blob; and the tables stay consistent.
\<close>

theorem pipeline_stays_sound:
  assumes ok: "pipeline_ok att s" and apart: "apart raw att"
  shows "pipeline_ok att (snd (worker_turn (parse_handlers ser env raw att) s)) \<and>
    pipeline_ok att (snd (start_subsystem n s)) \<and> pipeline_ok att (snd (ingest_raw raw req s))"
proof (intro conjI)
  show "pipeline_ok att (snd (worker_turn (parse_handlers ser env raw att) s))"
    by (rule turn_keeps_pipeline [OF ok])
  show "pipeline_ok att (snd (start_subsystem n s))"
    by (rule start_keeps_pipeline [OF ok])
  show "pipeline_ok att (snd (ingest_raw raw req s))"
    by (rule ingest_keeps_pipeline [OF ok apart])
qed

section \<open>Concrete inputs\<close>

definition sample_data :: path where
  "sample_data = [''data'']"

definition sample_raw :: storage where
  "sample_raw = raw_store toy_crypto [] sample_data"

definition sample_att :: storage where
  "sample_att = att_store toy_crypto [] sample_data"

text \<open>An account with a folder, no mail yet, the jobs of the sample queue and an empty disk.\<close>

definition sample_pipeline :: world where
  "sample_pipeline = sample_world\<lparr>tx_db := sample_jobs_db\<lparr>tbl_users := [sample_user], tbl_accounts := [sample_account],
     tbl_folders := [sample_folder]\<rparr>, tx_rng := (\<lambda>n. of_nat (Suc n))\<rparr>"

lemma sample_disk: "blobs_ok sample_att sample_pipeline" "blobs_ok sample_raw sample_pipeline"
  using toy_crypto_ok sample_nonces_ok
  by (simp_all add: blobs_ok_def sample_att_def sample_raw_def att_store_def raw_store_def nonces_ok_def
      sample_pipeline_def sample_world_def tx.extend_def)

lemma sample_tables:
  "tbl_jobs (tx_db sample_pipeline) = tbl_jobs sample_jobs_db" "tbl_messages (tx_db sample_pipeline) = []"
  "tbl_locations (tx_db sample_pipeline) = []" "tbl_attachments (tx_db sample_pipeline) = []"
  "job_seq (tx_db sample_pipeline) = job_seq sample_jobs_db"
  by (simp_all add: sample_pipeline_def sample_jobs_db_def empty_db_def)

lemma sample_tables_ok: "mail_ok (tx_db sample_pipeline)" "jobs_ok (tx_db sample_pipeline)"
  using sample_world_ok by (simp_all add: mail_ok_defs sample_tables jobs_ok_def)

lemma sample_pipeline_ok: "pipeline_ok sample_att sample_pipeline"
  using sample_disk sample_tables_ok
  by (auto simp: pipeline_ok_def attachments_backed_def finished_archived_def sample_tables sample_jobs_db_def
      sample_row_def find_job_def find_row_def)

definition sample_request :: IngestRequest where
  "sample_request = \<lparr>ir_account_id = 7, ir_folder_id = 3, ir_uid = 10, ir_uidvalidity = 20,
     ir_internal_date = 0, ir_flags = no_flags, ir_raw_bytes = [1, 2]\<rparr>"

lemma sample_ingest: "\<exists>res t. ingest_raw sample_raw sample_request sample_pipeline = (Inr res, t)"
proof -
  have *: "w_io s = [] \<Longrightarrow> io_step failing ok s = (Inr (), ok s)" for failing ok and s :: world
    by (simp add: io_step_def)
  have "w_io sample_pipeline = []" "w_files sample_pipeline p = None" "tx_faults sample_pipeline = []" for p
    by (simp_all add: sample_pipeline_def sample_world_def sample_tx_def tx.extend_def)
  then show ?thesis
    by (simp add: ingest_raw_def put_if_absent_def try_exists_def atomic_write_all_def encrypt_def generate_nonce_def
        bindE_def io_call_def file_create_def write_all_def rename_file_def * act_eval blob_path_last
        sample_raw_def raw_store_def set_file_def enqueue_parse_def svc_enqueue_raw_def enqueue_raw_def utc_now_def
        notify_waiters_def transaction_def stmt_simps insert_job_def Let_def)
qed

theorem ingest_queues_stored_mail_witness:
  "\<exists>res t j. ingest_raw sample_raw sample_request sample_pipeline = (Inr res, t) \<and> jobs_backed sample_raw t \<and>
     find_job (ires_job_id res) (tx_db t) = Some j \<and> job_status j = Pending"
proof -
  obtain res t where run: "ingest_raw sample_raw sample_request sample_pipeline = (Inr res, t)"
    using sample_ingest by blast
  have "jobs_backed sample_raw sample_pipeline"
    by (auto simp: jobs_backed_def sample_tables sample_jobs_db_def sample_row_def)
  from ingest_queues_stored_mail [OF sample_disk(2) sample_tables_ok(2) this, of sample_request] run
  show ?thesis by auto
qed

text \<open>An environment whose parser reads every input as an empty mail.\<close>

definition sample_mail_env :: mail_env where
  "sample_mail_env = \<lparr>me_parse = (\<lambda>_. Some \<lparr>ml_message_id = Some ''<m1@x>'', ml_from = None, ml_to = None, ml_cc = None,
       ml_bcc = None, ml_reply_to = None, ml_subject = Some ''Hi'', ml_date = None, ml_in_reply_to = None,
       ml_references = None, ml_body_text = Some ''Hello'', ml_body_html = None, ml_html_is_html = False,
       ml_attachments = [\<lparr>mp_decoded = [3], mp_name = None, mp_content_type = None, mp_content_id = None\<rparr>]\<rparr>),
     me_from_timestamp = Some, me_base64 = (\<lambda>_. []), me_img_srcs = (\<lambda>_. []), me_clean = (\<lambda>h _. h)\<rparr>"

lemma sample_parse:
  "parse_eml sample_mail_env h bytes = Inr p \<Longrightarrow> pe_subject p = Some ''Hi'' \<and> map ea_bytes (pe_attachments p) = [[3]]"
  by (auto simp: parse_eml_def sample_mail_env_def Let_def extract_attachment_def split: prod.splits option.splits)

text \<open>The sample request, once ingested, is parsed into a message with its one attachment.\<close>

definition ingested :: world where
  "ingested = snd (ingest_raw sample_raw sample_request sample_pipeline)"

definition sample_job :: ParseMessageJob where
  "sample_job = parse_job_of sample_request (compute_hash toy_crypto [1, 2])"

theorem parse_handler_archives_witness:
  "\<exists>t m row. handle_parse sample_mail_env sample_raw sample_att sample_job ingested = (Inr (), t) \<and>
     tbl_messages (tx_db t) = [m] \<and> msg_subject m = Some ''Hi'' \<and> tbl_attachments (tx_db t) = [row] \<and>
     att_message_id row = msg_id m \<and> att_content_hash row = compute_hash toy_crypto [3] \<and>
     map loc_uid (tbl_locations (tx_db t)) = [10]"
proof -
  have "fst (handle_parse sample_mail_env sample_raw sample_att sample_job ingested) = Inr ()" by code_simp
  then obtain t where run: "handle_parse sample_mail_env sample_raw sample_att sample_job ingested = (Inr (), t)"
    by (metis prod.collapse)
  have "apart sample_raw sample_att"
    by (simp add: apart_def sample_raw_def sample_att_def raw_store_def att_store_def)
  from ingest_keeps_pipeline [OF sample_pipeline_ok this, of sample_request]
  have ok: "blobs_ok sample_att ingested" "mail_ok (tx_db ingested)" "attachments_backed sample_att ingested"
    by (simp_all add: pipeline_ok_def ingested_def)
  have empty: "tbl_messages (tx_db ingested) = []" "tbl_attachments (tx_db ingested) = []" "tbl_locations (tx_db ingested) = []"
    by code_simp+
  have uid: "pj_uid sample_job = 10" by (simp add: sample_job_def parse_job_of_def sample_request_def)
  have att: "st_crypto sample_att = toy_crypto" by (simp add: sample_att_def att_store_def)
  from parse_handler_archives [OF ok run, unfolded empty] obtain h bytes p m l f where
    parsed: "parse_eml sample_mail_env h bytes = Inr p" and rows: "tbl_messages (tx_db t) = [m]"
      "row_of_mail (pj_account_id sample_job) (pj_content_hash sample_job) p m" "list_all2 (\<lambda>row x. row_of_attachment sample_att (msg_id m) (pj_account_id sample_job) x row)
        (tbl_attachments (tx_db t)) (pe_attachments p)"
    and loc: "filter (at_place (msg_id m) f) (tbl_locations (tx_db t)) = [l]" "loc_uid l = pj_uid sample_job"
      "filter (\<lambda>l. \<not> at_place (msg_id m) f l) (tbl_locations (tx_db t)) = []"
    by auto
  from rows(2) have subject: "msg_subject m = pe_subject p" by (simp add: row_of_mail_def)
  have "filter (at_place (msg_id m) f) (tbl_locations (tx_db t)) = tbl_locations (tx_db t)"
    using loc(3) by (auto simp: filter_empty_conv intro: filter_True)
  with loc uid have "map loc_uid (tbl_locations (tx_db t)) = [10]" by simp
  moreover from sample_parse [OF parsed] obtain x where "pe_subject p = Some ''Hi''" "pe_attachments p = [x]" "ea_bytes x = [3]"
    by auto
  ultimately show ?thesis
    using run rows(1,3) subject att by (auto simp: list_all2_Cons2 row_of_attachment_def)
qed

theorem pipeline_stays_sound_witness:
  "pipeline_ok sample_att (snd (worker_turn (parse_handlers (\<lambda>t. t) sample_mail_env sample_raw sample_att)
     (snd (ingest_raw sample_raw sample_request sample_pipeline))))"
proof -
  have apart: "apart sample_raw sample_att"
    by (simp add: apart_def sample_raw_def sample_att_def raw_store_def att_store_def)
  have "pipeline_ok sample_att (snd (ingest_raw sample_raw sample_request sample_pipeline))"
    using pipeline_stays_sound [OF sample_pipeline_ok apart] by blast
  from pipeline_stays_sound [OF this apart] show ?thesis by blast
qed

end
