(* ===== verification/ImapSyncProps.thy ===== *)
theory ImapSyncProps
  imports ImapSync Archive
begin

text \<open>
  Properties of the sync machinery of \<open>crates/imap/src/sync.rs\<close>: the checkpoint of a
  folder never passes a message that has not been queued, a pass that ends well has queued all
  the server advertised, and what the two tasks make of their cursors and failures.
\<close>

section \<open>What a sync pass keeps\<close>

definition sync_ok :: "storage \<Rightarrow> 'z world_scheme \<Rightarrow> bool" where
  "sync_ok raw s \<longleftrightarrow> blobs_ok raw s \<and> jobs_ok (tx_db s) \<and> jobs_backed raw s"

text \<open>Moving on without losing a job or breaking the stores.\<close>

definition advances :: "storage \<Rightarrow> 'z world_scheme \<Rightarrow> 'z world_scheme \<Rightarrow> bool" where
  "advances raw s t \<longleftrightarrow> (sync_ok raw s \<longrightarrow> sync_ok raw t \<and> set (tbl_jobs (tx_db s)) \<subseteq> set (tbl_jobs (tx_db t)))"

lemma advances_refl: "advances raw s s"
  by (simp add: advances_def)

lemma advances_trans: "advances raw s t \<Longrightarrow> advances raw t u \<Longrightarrow> advances raw s u"
  by (auto simp: advances_def)

lemma advancesD: "advances raw s t \<Longrightarrow> sync_ok raw s \<Longrightarrow> sync_ok raw t"
  "advances raw s t \<Longrightarrow> sync_ok raw s \<Longrightarrow> j \<in> set (tbl_jobs (tx_db s)) \<Longrightarrow> j \<in> set (tbl_jobs (tx_db t))"
  by (auto simp: advances_def)

lemma advances_same:
  assumes "w_files t = w_files s" and "w_nonces t = w_nonces s" and "jobs_part (tx_db t) = jobs_part (tx_db s)"
  shows "advances raw s t"
proof -
  have "tbl_jobs (tx_db t) = tbl_jobs (tx_db s)" "job_seq (tx_db t) = job_seq (tx_db s)"
    using assms(3) by (simp_all add: jobs_part_def)
  then show ?thesis
    using blobs_ok_files [of t s raw] stored_files [of t s raw] assms(1,2)
    by (auto simp: advances_def sync_ok_def jobs_ok_def jobs_backed_def)
qed

lemma ingest_raw_effect:
  fixes s :: "'z world_scheme"
  assumes ok: "sync_ok raw s" and run: "ingest_raw raw req s = (r, t)"
  shows "advances raw s t" and "tbl_folders (tx_db t) = tbl_folders (tx_db s)"
    and "r = Inr x \<Longrightarrow> \<exists>j \<in> set (tbl_jobs (tx_db t)). job_payload j
      = ParsePayload (parse_job_of req (compute_hash (st_crypto raw) (ir_raw_bytes req)))"
proof -
  have parts: "blobs_ok raw s" "jobs_ok (tx_db s)" "jobs_backed raw s" using ok by (simp_all add: sync_ok_def)
  note out = ingest_outcome [OF parts, of req, unfolded run, simplified]
  obtain hr s1 where put: "put_if_absent raw (ir_account_id req) (ir_raw_bytes req) s = (hr, s1)"
    by (cases "put_if_absent raw (ir_account_id req) (ir_raw_bytes req) s")
  have db1: "tx_db s1 = tx_db s" using off_dbD [OF off_db_blob_ops(3) put] by simp
  have "tbl_folders (tx_db t) = tbl_folders (tx_db s) \<and> set (tbl_jobs (tx_db s)) \<subseteq> set (tbl_jobs (tx_db t))"
  proof (cases hr)
    case (Inl e)
    with put run db1 show ?thesis by (simp add: ingest_raw_def bindE_def)
  next
    case (Inr h)
    obtain jr s2 where enq: "enqueue_parse (parse_job_of req h) s1 = (jr, s2)"
      by (cases "enqueue_parse (parse_job_of req h) s1")
    have "jobs_ok (tx_db s1)" using parts(2) db1 by simp
    note ec = enqueue_parse_case [OF enq this]
    have "t = s2" using run put Inr enq by (cases jr) (simp_all add: ingest_raw_def bindE_def act_eval)
    with ec db1 show ?thesis by (cases jr) auto
  qed
  with out show "advances raw s t" "tbl_folders (tx_db t) = tbl_folders (tx_db s)"
    by (auto simp: advances_def sync_ok_def)
  assume "r = Inr x"
  with out show "\<exists>j \<in> set (tbl_jobs (tx_db t)). job_payload j
      = ParsePayload (parse_job_of req (compute_hash (st_crypto raw) (ir_raw_bytes req)))"
    by (auto dest: find_job_in)
qed

lemma net_world [simp]: "tx_db (snd (net f s)) = tx_db s" "w_files (snd (net f s)) = w_files s"
  "w_nonces (snd (net f s)) = w_nonces s"
  by (simp_all add: net_def)

lemma record_sync_progress_effect:
  fixes s :: "'z world_scheme"
  assumes run: "record_sync_progress i uv u at s = (r, t)"
  shows "advances raw s t" and "r = Inr x \<Longrightarrow> folder_updated i (set_cursor uv u at) (tx_db s) (tx_db t)"
    and "r = Inl e \<Longrightarrow> tx_db t = tx_db s"
proof -
  have "db_only (record_sync_progress i uv u at :: ('z world_ext, unit) dbm)"
    unfolding record_sync_progress_def update_sync_state_def folder_update_def by (intro db_only_intros)
  note w = db_only_world [OF this run]
  have "jobs_part (tx_db t) = jobs_part (tx_db s)"
  proof (cases r)
    case (Inl e)
    with record_sync_progress_Inl run show ?thesis by metis
  next
    case (Inr x)
    with run have "folder_updated i (set_cursor uv u at) (tx_db s) (tx_db t)" by (intro record_sync_progress_Inr) simp
    then obtain fs where "tx_db t = tx_db s\<lparr>tbl_folders := fs\<rparr>" unfolding folder_updated_def by blast
    then show ?thesis by (simp add: jobs_part_def)
  qed
  then show "advances raw s t" using w by (intro advances_same) simp_all
  show "r = Inr x \<Longrightarrow> folder_updated i (set_cursor uv u at) (tx_db s) (tx_db t)"
    using run by (intro record_sync_progress_Inr) simp
  show "r = Inl e \<Longrightarrow> tx_db t = tx_db s" using run record_sync_progress_Inl by metis
qed

lemma delete_locations_effect:
  fixes s :: "'z world_scheme"
  assumes run: "delete_locations_for_folder i s = (r, t)"
  shows "advances raw s t" and "tbl_folders (tx_db t) = tbl_folders (tx_db s)"
    and "r = Inr n \<Longrightarrow> \<forall>l \<in> set (tbl_locations (tx_db t)). loc_folder_id l \<noteq> i"
proof -
  let ?del = "execute (\<lambda>d. Inr (count_where (\<lambda>l. loc_folder_id l = i) (tbl_locations d),
      d\<lparr>tbl_locations := delete_where (\<lambda>l. loc_folder_id l = i) (tbl_locations d)\<rparr>))"
  have "db_only (delete_locations_for_folder i :: ('z world_ext, nat) dbm)"
    unfolding delete_locations_for_folder_def delete_by_folder_id_def by (intro db_only_intros)
  note w = db_only_world [OF this run]
  have "keeps (\<lambda>d. jobs_part d = v \<and> tbl_folders d = v') ?del" for v v'
    by (rule keeps_execute) (auto simp: jobs_part_def)
  then have "keeps (\<lambda>d. jobs_part d = v \<and> tbl_folders d = v') (delete_locations_for_folder i)" for v v'
    unfolding delete_locations_for_folder_def delete_by_folder_id_def by (intro keeps_intros)
  from keeps_eqD [OF this _ run, of "jobs_part (tx_db s)" "tbl_folders (tx_db s)"]
  have "jobs_part (tx_db t) = jobs_part (tx_db s)" "tbl_folders (tx_db t) = tbl_folders (tx_db s)" by simp_all
  then show "advances raw s t" "tbl_folders (tx_db t) = tbl_folders (tx_db s)"
    using w by (auto intro: advances_same)
  assume "r = Inr n"
  with run obtain s0 s1 :: "'z world_scheme" where "delete_by_folder_id i s0 = (Inr n, s1)" "tx_db t = tx_db s1"
    unfolding delete_locations_for_folder_def by (auto elim: transaction_Inr)
  moreover from this(1) have "?del s0 = (Inr n, s1)"
    by (auto simp: delete_by_folder_id_def requireE_apply bindE_Inr_iff [of "requireE _ _"] split: if_splits)
  from execute_run(1) [OF this]
  have "tbl_locations (tx_db s1) = delete_where (\<lambda>l. loc_folder_id l = i) (tbl_locations (tx_db s0))"
    by (auto dest: sym [of _ "tx_db s1"])
  ultimately show "\<forall>l \<in> set (tbl_locations (tx_db t)). loc_folder_id l \<noteq> i" by simp
qed

section \<open>The server, the jobs and the cursor\<close>

text \<open>
  The hypothesis on the server: a UID FETCH answers with items of the range asked for, and
  unless the stream reports an error it answers with every message of the mailbox in that
  range (RFC 3501, 6.4.8). \<open>mbox\<close> is the mailbox: the bodies by UID.
\<close>

definition serves :: "imap_env \<Rightarrow> (u32 \<Rightarrow> bytes option) \<Rightarrow> bool" where
  "serves env mbox \<longleftrightarrow> (\<forall>k lo hi items. ie_fetch env k lo hi = Inr items \<longrightarrow>
     (\<forall>fe uid. Inr fe \<in> set items \<longrightarrow> fe_uid fe = Some uid \<longrightarrow> lo \<le> uid \<and> uid \<le> hi) \<and>
     ((\<forall>e. Inl e \<notin> set items) \<longrightarrow> (\<forall>uid body. mbox uid = Some body \<longrightarrow> lo \<le> uid \<longrightarrow> uid \<le> hi \<longrightarrow>
        (\<exists>fe. Inr fe \<in> set items \<and> fe_uid fe = Some uid \<and> fe_body fe = Some body))))"

text \<open>A parse job for this message of this folder is in the table.\<close>

definition queued :: "storage \<Rightarrow> AccountId \<Rightarrow> FolderId \<Rightarrow> u32 \<Rightarrow> u32 \<Rightarrow> bytes \<Rightarrow> db \<Rightarrow> bool" where
  "queued raw a f uv uid body d \<longleftrightarrow> (\<exists>j \<in> set (tbl_jobs d). \<exists>p. job_payload j = ParsePayload p \<and>
     pj_account_id p = a \<and> pj_folder_id p = f \<and> pj_uid p = uid \<and> pj_uidvalidity p = uv \<and>
     pj_content_hash p = compute_hash (st_crypto raw) body)"

text \<open>Every message of the mailbox above \<open>start\<close> up to \<open>lim\<close> is queued.\<close>

definition covered ::
  "storage \<Rightarrow> AccountId \<Rightarrow> FolderId \<Rightarrow> u32 \<Rightarrow> (u32 \<Rightarrow> bytes option) \<Rightarrow> u32 \<Rightarrow> u32 \<Rightarrow> db \<Rightarrow> bool"
where
  "covered raw a f uv mbox start lim d \<longleftrightarrow>
     (\<forall>uid body. mbox uid = Some body \<longrightarrow> start < uid \<longrightarrow> uid \<le> lim \<longrightarrow> queued raw a f uv uid body d)"

lemma queued_mono:
  "advances raw s t \<Longrightarrow> sync_ok raw s \<Longrightarrow> queued raw a f uv uid body (tx_db s) \<Longrightarrow> queued raw a f uv uid body (tx_db t)"
  unfolding queued_def using advancesD(2) by blast

lemma covered_mono:
  "advances raw s t \<Longrightarrow> sync_ok raw s \<Longrightarrow> covered raw a f uv mbox start lim (tx_db s) \<Longrightarrow> covered raw a f uv mbox start lim (tx_db t)"
  unfolding covered_def using queued_mono by blast

lemma covered_empty: "lim \<le> start \<Longrightarrow> covered raw a f uv mbox start lim d"
  by (auto simp: covered_def)

lemma covered_max: "covered raw a f uv mbox start x d \<Longrightarrow> covered raw a f uv mbox start y d \<Longrightarrow> covered raw a f uv mbox start (max x y) d"
  by (auto simp: covered_def max_def split: if_splits)

text \<open>One folder's cursor: where it was, or at a point up to which all is queued.\<close>

definition cursor_safe ::
  "storage \<Rightarrow> AccountId \<Rightarrow> FolderId \<Rightarrow> u32 \<Rightarrow> (u32 \<Rightarrow> bytes option) \<Rightarrow> u32 \<Rightarrow> db \<Rightarrow> db \<Rightarrow> bool"
where
  "cursor_safe raw a f uv mbox start d d' \<longleftrightarrow>
     find_folder f d' = find_folder f d \<or>
     (\<exists>x. find_folder f d' = Some x \<and> fld_uidvalidity x = Some uv \<and>
        covered raw a f uv mbox start (fld_last_uid x) d')"

lemma cursor_safe_refl: "cursor_safe raw a f uv mbox start d d"
  by (simp add: cursor_safe_def)

lemma cursor_safe_trans:
  assumes "cursor_safe raw a f uv mbox start (tx_db s) (tx_db t)" and "cursor_safe raw a f uv mbox start (tx_db t) (tx_db u)"
    and "advances raw t u" and "sync_ok raw t"
  shows "cursor_safe raw a f uv mbox start (tx_db s) (tx_db u)"
  using assms covered_mono [OF assms(3,4)] unfolding cursor_safe_def by metis

lemma cursor_safe_folders:
  "tbl_folders d' = tbl_folders d \<Longrightarrow> cursor_safe raw a f uv mbox start d d'"
  by (simp add: cursor_safe_def find_folder_def)

lemma cursor_safe_record:
  fixes s :: "'z world_scheme"
  assumes run: "record_sync_progress f uv u at s = (r, t)" and ok: "sync_ok raw s"
    and cov: "covered raw a f uv mbox start u (tx_db s)"
  shows "cursor_safe raw a f uv mbox start (tx_db s) (tx_db t)"
proof (cases r)
  case (Inl e)
  with record_sync_progress_effect(3) [OF run] show ?thesis by (simp add: cursor_safe_refl)
next
  case (Inr x)
  with record_sync_progress_effect(2) [OF run] obtain y now where
    "find_folder f (tx_db t) = Some (saved_folder now (fld_version y + 1) (set_cursor uv u at) y)"
    unfolding folder_updated_def by blast
  moreover have "covered raw a f uv mbox start u (tx_db t)"
    by (rule covered_mono [OF record_sync_progress_effect(1) [OF run] ok cov])
  ultimately show ?thesis by (auto simp: cursor_safe_def saved_folder_def set_cursor_def)
qed

section \<open>One window\<close>

lemma set_status_same: "set_status g s = (r, t) \<Longrightarrow>
    r = Inr () \<and> tx_db t = tx_db s \<and> w_files t = w_files s \<and> w_nonces t = w_nonces s"
  by (auto simp: set_status_def)

lemma ingest_items_effect:
  fixes s :: "'z sync_world_scheme"
  assumes "sync_ok raw s" and "ingest_items raw a f uv high n items s = (r, t)"
  shows "advances raw s t \<and> tbl_folders (tx_db t) = tbl_folders (tx_db s) \<and>
    (\<forall>h m. r = Inr (h, m) \<longrightarrow> n \<le> m \<and> (\<forall>e. Inl e \<notin> set items) \<and>
       (\<forall>fe uid body. Inr fe \<in> set items \<longrightarrow> fe_uid fe = Some uid \<longrightarrow> fe_body fe = Some body \<longrightarrow>
          queued raw a f uv uid body (tx_db t)) \<and>
       (h = high \<or> (\<exists>fe. Inr fe \<in> set items \<and> fe_uid fe = Some h)))"
  using assms
proof (induction items arbitrary: s r t high n)
  case Nil
  then show ?case by (auto simp: act_eval advances_refl)
next
  case (Cons item items)
  show ?case
  proof (cases item)
    case (Inl e)
    with Cons.prems show ?thesis by (auto simp: act_eval advances_refl)
  next
    case (Inr fe)
    show ?thesis
    proof (cases "\<exists>uid body. fe_uid fe = Some uid \<and> fe_body fe = Some body")
      case False
      then have "ingest_items raw a f uv high n items s = (r, t)"
        using Cons.prems(2) Inr by (cases "fe_uid fe"; cases "fe_body fe") simp_all
      note ih = Cons.IH [OF Cons.prems(1) this]
      have "\<And>uid body. fe_uid fe = Some uid \<Longrightarrow> fe_body fe = Some body \<Longrightarrow> False" using False by blast
      with ih Inr show ?thesis by (simp add: disj_imp) blast
    next
      case True
      then obtain uid body where fe: "fe_uid fe = Some uid" "fe_body fe = Some body" by blast
      let ?req = "request_of a f uv uid body (case fe_internal_date fe of None \<Rightarrow> tx_now s | Some d \<Rightarrow> d) (fe_flags fe)"
      obtain ir s1 where ing: "ingest_raw raw ?req s = (ir, s1)" by (cases "ingest_raw raw ?req s")
      note eff = ingest_raw_effect [OF Cons.prems(1) ing]
      show ?thesis
      proof (cases ir)
        case (Inl e)
        with Cons.prems(2) \<open>item = Inr fe\<close> fe ing have "r = Inl e \<and> t = s1" by (simp add: utc_now_def bindE_def)
        with eff(1,2) show ?thesis by simp
      next
        case (Inr x)
        obtain s2 where st: "set_status (\<lambda>st. st\<lparr>ss_messages_ingested_session := ss_messages_ingested_session st + 1\<rparr>) s1 = (Inr (), s2)"
          by (simp add: set_status_def)
        note same = set_status_same [OF st]
        have "jobs_part (tx_db s2) = jobs_part (tx_db s1)" using same by simp
        then have adv: "advances raw s s2"
          using advances_trans [OF eff(1) advances_same [of s2 s1 raw]] same by simp
        have ok2: "sync_ok raw s2" using advancesD(1) [OF adv Cons.prems(1)] .
        have rest: "ingest_items raw a f uv (max high uid) (Suc n) items s2 = (r, t)"
          using Cons.prems(2) \<open>item = Inr fe\<close> fe ing Inr st by (simp add: utc_now_def bindE_def)
        note ih = Cons.IH [OF ok2 rest]
        from eff(3) [OF Inr] have "queued raw a f uv uid body (tx_db s1)"
          by (fastforce simp: queued_def parse_job_of_def request_of_def)
        then have "queued raw a f uv uid body (tx_db s2)" using same by simp
        with queued_mono [OF ih [THEN conjunct1] ok2] have q: "queued raw a f uv uid body (tx_db t)" .
        have adv': "advances raw s t" using advances_trans [OF adv] ih by blast
        have fld: "tbl_folders (tx_db t) = tbl_folders (tx_db s)" using ih same eff(2) by simp
        show ?thesis
        proof (intro conjI allI impI)
          fix h m assume r: "r = Inr (h, m)"
          from ih r have tail: "Suc n \<le> m" "\<forall>e. Inl e \<notin> set items"
            "\<forall>fe uid body. Inr fe \<in> set items \<longrightarrow> fe_uid fe = Some uid \<longrightarrow> fe_body fe = Some body \<longrightarrow>
              queued raw a f uv uid body (tx_db t)"
            "h = max high uid \<or> (\<exists>fe. Inr fe \<in> set items \<and> fe_uid fe = Some h)" by blast+
          show "n \<le> m" using tail(1) by simp
          show "Inl e \<notin> set (item # items)" for e using tail(2) \<open>item = Inr fe\<close> by simp
          show "h = high \<or> (\<exists>fe. Inr fe \<in> set (item # items) \<and> fe_uid fe = Some h)"
            using tail(4) fe \<open>item = Inr fe\<close> by (auto simp: max_def split: if_splits)
          fix fe' uid' body'
          assume "Inr fe' \<in> set (item # items)" "fe_uid fe' = Some uid'" "fe_body fe' = Some body'"
          with tail(3) q fe \<open>item = Inr fe\<close> show "queued raw a f uv uid' body' (tx_db t)" by auto
        qed (use adv' fld in simp_all)
      qed
    qed
  qed
qed

section \<open>The window loop\<close>

text \<open>A run of the loop split at the end of its first window.\<close>

lemma fetch_windows_cases:
  fixes s :: "'z sync_world_scheme"
  assumes run: "fetch_windows env raw a f uv upper lo high k s = (r, t)"
  defines "hi \<equiv> window_end upper lo"
  obtains
    (failed) e where "r = Inl e" "tx_db t = tx_db s" "w_files t = w_files s" "w_nonces t = w_nonces s"
  | (items_failed) items e s1 where "ie_fetch env (sw_calls s) lo hi = Inr items" "net (\<lambda>k. ie_fetch env k lo hi) s = (Inr (Inr items), s1)"
      "ingest_items raw a f uv high 0 items s1 = (Inl e, t)" "r = Inl e"
  | (window) items s1 h n s2 q s3 where "ie_fetch env (sw_calls s) lo hi = Inr items"
      "net (\<lambda>k. ie_fetch env k lo hi) s = (Inr (Inr items), s1)" "ingest_items raw a f uv high 0 items s1 = (Inr (h, n), s2)"
      "(if 0 < n then record_sync_progress f uv h (tx_now s2) else ret ()) s2 = (q, s3)"
      "(case q of Inl e \<Rightarrow> (Inl e, s3)
        | Inr _ \<Rightarrow> (if last_window upper hi (0 < n) then (Inr (h, k + n), s3)
            else fetch_windows env raw a f uv upper (sat_add hi 1) h (k + n) s3)) = (r, t)"
proof -
  obtain ans s1 where net: "net (\<lambda>k. ie_fetch env k lo hi) s = (Inr ans, s1)" "ans = ie_fetch env (sw_calls s) lo hi"
    and s1: "s1 = s\<lparr>sw_calls := Suc (sw_calls s)\<rparr>"
    by (simp add: net_def)
  show thesis
  proof (cases ans)
    case (Inl e)
    with net have n: "net (\<lambda>k. ie_fetch env k lo hi) s = (Inr (Inl e), s1)" by simp
    have "\<exists>m. r = Inl m \<and> t = s1"
      using run unfolding fetch_windows.simps [of env raw a f uv upper lo] Let_def hi_def [symmetric] bindE_def n
      by (auto simp: act_eval)
    with s1 show thesis by (auto intro: failed)
  next
    case (Inr items)
    with net have n: "net (\<lambda>k. ie_fetch env k lo hi) s = (Inr (Inr items), s1)"
      and answer: "ie_fetch env (sw_calls s) lo hi = Inr items" by simp_all
    obtain ir s2 where it: "ingest_items raw a f uv high 0 items s1 = (ir, s2)"
      by (cases "ingest_items raw a f uv high 0 items s1")
    show thesis
    proof (cases ir)
      case (Inl e)
      have "r = Inl e \<and> t = s2"
        using run Inl unfolding fetch_windows.simps [of env raw a f uv upper lo] Let_def hi_def [symmetric] bindE_def n
        by (auto simp: it)
      with answer n it Inl show thesis by (intro items_failed [of items s1 e]) simp_all
    next
      case (Inr hn)
      obtain h n where hn: "hn = (h, n)" by (cases hn)
      obtain q s3 where q: "(if 0 < n then record_sync_progress f uv h (tx_now s2) else ret ()) s2 = (q, s3)"
        by fastforce
      have "(case q of Inl e \<Rightarrow> (Inl e, s3)
        | Inr _ \<Rightarrow> (if last_window upper hi (0 < n) then (Inr (h, k + n), s3)
            else fetch_windows env raw a f uv upper (sat_add hi 1) h (k + n) s3)) = (r, t)"
        using run q Inr hn unfolding fetch_windows.simps [of env raw a f uv upper lo] Let_def hi_def [symmetric] bindE_def n
        by (cases q) (auto simp: it utc_now_def act_eval split: if_splits)
      with answer n it Inr hn q show thesis by (intro window [of items s1 h n s2 q s3]) simp_all
    qed
  qed
qed

lemma covered_le: "covered raw a f uv mbox start x d \<Longrightarrow> y \<le> x \<Longrightarrow> covered raw a f uv mbox start y d"
  by (auto simp: covered_def)

lemma covered_window:
  assumes "serves env mbox" and "ie_fetch env k lo hi = Inr items" and "\<forall>e. Inl e \<notin> set items"
    and "\<forall>fe uid body. Inr fe \<in> set items \<longrightarrow> fe_uid fe = Some uid \<longrightarrow> fe_body fe = Some body \<longrightarrow> queued raw a f uv uid body d"
    and "\<forall>uid body. mbox uid = Some body \<longrightarrow> start < uid \<longrightarrow> uid < lo \<longrightarrow> queued raw a f uv uid body d"
  shows "covered raw a f uv mbox start hi d"
  unfolding covered_def
proof (intro allI impI)
  fix uid body
  assume m: "mbox uid = Some body" "start < uid" "uid \<le> hi"
  show "queued raw a f uv uid body d"
  proof (cases "uid < lo")
    case False
    with assms(1-3) m obtain fe where "Inr fe \<in> set items" "fe_uid fe = Some uid" "fe_body fe = Some body"
      unfolding serves_def by (metis not_less)
    with assms(4) show ?thesis by blast
  qed (use assms(5) m in blast)
qed

lemma below_sat_add_one: "u < sat_add x 1 \<Longrightarrow> u \<le> x" for u x :: u32
  using unat_sat_add [of x 1] by (simp add: word_less_nat_alt word_le_nat_alt)

definition windows_safe ::
  "storage \<Rightarrow> AccountId \<Rightarrow> FolderId \<Rightarrow> u32 \<Rightarrow> (u32 \<Rightarrow> bytes option) \<Rightarrow> u32 \<Rightarrow> u32 option \<Rightarrow>
   'z sync_world_scheme \<Rightarrow> Error + u32 \<times> nat \<Rightarrow> 'z sync_world_scheme \<Rightarrow> bool"
where
  "windows_safe raw a f uv mbox start upper s r t \<longleftrightarrow>
     advances raw s t \<and> cursor_safe raw a f uv mbox start (tx_db s) (tx_db t) \<and>
     (\<forall>h m. r = Inr (h, m) \<longrightarrow> covered raw a f uv mbox start h (tx_db t) \<and>
        (\<forall>u. upper = Some u \<longrightarrow> covered raw a f uv mbox start u (tx_db t)))"

lemma net_advances: "net g s = (r, s1) \<Longrightarrow> advances raw s s1 \<and> tx_db s1 = tx_db s"
  by (auto simp: net_def intro: advances_same)

lemma fetch_windows_safe:
  fixes s :: "'z sync_world_scheme"
  assumes srv: "serves env mbox"
  shows "sync_ok raw s \<Longrightarrow> covered raw a f uv mbox start high (tx_db s) \<Longrightarrow>
    \<forall>uid body. mbox uid = Some body \<longrightarrow> start < uid \<longrightarrow> uid < lo \<longrightarrow> queued raw a f uv uid body (tx_db s) \<Longrightarrow>
    fetch_windows env raw a f uv upper lo high k s = (r, t) \<Longrightarrow> windows_safe raw a f uv mbox start upper s r t"
proof (induction "2 ^ 32 - unat lo" arbitrary: lo high k s r t rule: less_induct)
  case less
  note ok = less.prems(1) and high = less.prems(2) and before = less.prems(3)
  let ?hi = "window_end upper lo"
  from less.prems(4) show ?case
  proof (cases rule: fetch_windows_cases)
    case (failed e)
    then show ?thesis
      by (simp add: windows_safe_def cursor_safe_refl advances_same)
  next
    case (items_failed items e s1)
    note n1 = net_advances [OF items_failed(2), of raw]
    have ok1: "sync_ok raw s1" using advancesD(1) n1 ok by blast
    note it = ingest_items_effect [OF ok1 items_failed(3)]
    with n1 items_failed(4) advances_trans [of raw s s1 t] show ?thesis
      by (auto simp: windows_safe_def intro!: cursor_safe_folders)
  next
    case (window items s1 h n s2 q s3)
    note n1 = net_advances [OF window(2), of raw]
    have ok1: "sync_ok raw s1" using advancesD(1) n1 ok by blast
    note it = ingest_items_effect [OF ok1 window(3)]
    have adv2: "advances raw s s2" using n1 it advances_trans by blast
    note ok2 = advancesD(1) [OF adv2 ok]
    have whole: "covered raw a f uv mbox start ?hi (tx_db s2)"
      by (rule covered_window [OF srv window(1)]) (use it before queued_mono [OF adv2 ok] in blast)+
    have "h = high \<or> h \<le> ?hi" using it srv window(1) unfolding serves_def by blast
    then have top2: "covered raw a f uv mbox start h (tx_db s2)"
      using covered_mono [OF adv2 ok high] covered_le [OF whole] by blast
    have cur2: "cursor_safe raw a f uv mbox start (tx_db s) (tx_db s2)"
      using it n1 by (intro cursor_safe_folders) simp
    have rec: "advances raw s2 s3" "cursor_safe raw a f uv mbox start (tx_db s2) (tx_db s3)"
      using window(4) cursor_safe_record [OF _ ok2 top2] record_sync_progress_effect(1)
      by (auto simp: act_eval advances_refl cursor_safe_refl split: if_splits)
    note adv3 = advances_trans [OF adv2 rec(1)]
    note ok3 = advancesD(1) [OF adv3 ok]
    have cur3: "cursor_safe raw a f uv mbox start (tx_db s) (tx_db s3)"
      by (rule cursor_safe_trans [OF cur2 rec(2) rec(1) ok2])
    note top3 = covered_mono [OF rec(1) ok2 top2] and whole3 = covered_mono [OF rec(1) ok2 whole]
    show ?thesis
    proof (cases "(\<exists>e. q = Inl e) \<or> last_window upper ?hi (0 < n)")
      case True
      then show ?thesis
      proof
        assume "\<exists>e. q = Inl e"
        with window(5) adv3 cur3 show ?thesis by (auto simp: windows_safe_def)
      next
        assume last: "last_window upper ?hi (0 < n)"
        then have "\<forall>u. upper = Some u \<longrightarrow> covered raw a f uv mbox start u (tx_db s3)"
          using covered_le [OF whole3] by (auto simp: last_window_def)
        with window(5) last adv3 cur3 top3 show ?thesis
          by (cases q) (auto simp: windows_safe_def)
      qed
    next
      case False
      then have rest: "fetch_windows env raw a f uv upper (sat_add ?hi 1) h (k + n) s3 = (r, t)"
        using window(5) by (cases q) simp_all
      from False have later: "unat lo < unat (sat_add ?hi 1)" using next_window_later [of upper lo "0 < n"] by simp
      then have "2 ^ 32 - unat (sat_add ?hi 1) < 2 ^ 32 - unat lo"
        using u32_bound [of "sat_add ?hi 1"] by simp
      moreover have "\<forall>uid body. mbox uid = Some body \<longrightarrow> start < uid \<longrightarrow> uid < sat_add ?hi 1 \<longrightarrow>
          queued raw a f uv uid body (tx_db s3)"
        using whole3 below_sat_add_one unfolding covered_def by blast
      ultimately have "windows_safe raw a f uv mbox start upper s3 r t"
        using less.hyps ok3 top3 rest by blast
      with adv3 cur3 show ?thesis
        unfolding windows_safe_def using advances_trans cursor_safe_trans ok3 by blast
    qed
  qed
qed

section \<open>One folder\<close>

definition rolled_over :: "FolderConfig \<Rightarrow> u32 \<Rightarrow> bool" where
  "rolled_over cfg uv \<longleftrightarrow> fc_uidvalidity cfg \<noteq> None \<and> fc_uidvalidity cfg \<noteq> Some uv"

text \<open>The UID a pass starts after.\<close>

definition sync_start :: "FolderConfig \<Rightarrow> u32 \<Rightarrow> u32" where
  "sync_start cfg uv = (if rolled_over cfg uv then 0 else fc_last_uid cfg)"

text \<open>What follows the UIDVALIDITY check.\<close>

definition sync_rest ::
  "imap_env \<Rightarrow> storage \<Rightarrow> AccountId \<Rightarrow> FolderConfig \<Rightarrow> u32 \<Rightarrow> u32 option \<Rightarrow> ('z, u32 \<times> u32) sm"
where
  "sync_rest env raw a cfg uv upper =
    bindE (set_status (\<lambda>st. st\<lparr>ss_state := SyncSyncing\<rparr>)) (\<lambda>_.
      if (case upper of None \<Rightarrow> False | Some u \<Rightarrow> u < sat_add (sync_start cfg uv) 1) then
        bindE utc_now (\<lambda>now.
        bindE (record_sync_progress (fc_id cfg) uv (sync_start cfg uv) now) (\<lambda>_. ret (sync_start cfg uv, uv)))
      else
        bindE (fetch_windows env raw a (fc_id cfg) uv upper (sat_add (sync_start cfg uv) 1) (sync_start cfg uv) 0)
          (\<lambda>(high, ingested).
        bindE (if 0 < ingested then ret () else bindE utc_now (\<lambda>now. record_sync_progress (fc_id cfg) uv high now))
          (\<lambda>_. ret (high, uv))))"

lemma sync_folder_eq:
  "sync_folder env raw a cfg s =
    (let s1 = s\<lparr>sw_calls := Suc (sw_calls s)\<rparr> in
     case ie_select env (sw_calls s) (fc_path cfg) of
       Inl (ImapNo _) \<Rightarrow> (Inl (FolderNotFound (fc_path cfg)), s1)
     | Inl (ImapOther e) \<Rightarrow> (Inl (Infrastructure (''SELECT '' @ fc_path cfg @ '' failed: '' @ e)), s1)
     | Inr mailbox \<Rightarrow>
         (case mb_uid_validity mailbox of
            None \<Rightarrow> (Inl (Infrastructure (''server returned no UIDVALIDITY for '' @ fc_path cfg)), s1)
          | Some uv \<Rightarrow>
              bindE (if rolled_over cfg uv then handle_uidvalidity_change (fc_id cfg) uv else ret ())
                (\<lambda>_. sync_rest env raw a cfg uv (map_option (\<lambda>n. sat_sub n 1) (mb_uid_next mailbox))) s1))"
  unfolding sync_folder_def net_def bindE_def [of "\<lambda>s. (Inr (ie_select env (sw_calls s) (fc_path cfg)), _ s)"]
  by (simp add: throw_apply Let_def rolled_over_def sync_start_def sync_rest_def split: sum.splits ImapError.splits option.splits)

lemma uidvalidity_change_effect:
  fixes s :: "'z sync_world_scheme"
  assumes ok: "sync_ok raw s" and run: "handle_uidvalidity_change f uv s = (r, t)"
  shows "advances raw s t \<and> cursor_safe raw a f uv mbox 0 (tx_db s) (tx_db t) \<and>
    (r = Inr () \<longrightarrow> (\<forall>l \<in> set (tbl_locations (tx_db t)). loc_folder_id l \<noteq> f))"
proof -
  obtain q s1 where rec: "record_sync_progress f uv 0 (tx_now s) s = (q, s1)"
    by (cases "record_sync_progress f uv 0 (tx_now s) s")
  note adv = record_sync_progress_effect(1) [OF rec, of raw]
  have cur: "cursor_safe raw a f uv mbox 0 (tx_db s) (tx_db s1)"
    by (rule cursor_safe_record [OF rec ok]) (simp add: covered_empty)
  show ?thesis
  proof (cases q)
    case (Inl e)
    with run rec have "r = Inl e \<and> t = s1" by (simp add: handle_uidvalidity_change_def utc_now_def bindE_def)
    with adv cur show ?thesis by simp
  next
    case (Inr x)
    obtain p s2 where del: "delete_locations_for_folder f s1 = (p, s2)" by (cases "delete_locations_for_folder f s1")
    have "t = s2 \<and> (r = Inr () \<longrightarrow> (\<exists>n. p = Inr n))"
      using run rec Inr del by (cases p) (auto simp: handle_uidvalidity_change_def utc_now_def bindE_def act_eval)
    with delete_locations_effect [OF del] adv cur advances_trans [OF adv]
      cursor_safe_trans [OF cur cursor_safe_folders] advancesD(1) [OF adv ok]
    show ?thesis by metis
  qed
qed

lemma sync_folder_safe:
  fixes s :: "'z sync_world_scheme"
  assumes srv: "serves env mbox" and ok: "sync_ok raw s" and run: "sync_folder env raw a cfg s = (r, t)"
    and sel: "ie_select env (sw_calls s) (fc_path cfg) = Inr mailbox" "mb_uid_validity mailbox = Some uv"
  defines "start \<equiv> sync_start cfg uv"
  shows "advances raw s t \<and> cursor_safe raw a (fc_id cfg) uv mbox start (tx_db s) (tx_db t) \<and>
    (\<forall>h v. r = Inr (h, v) \<longrightarrow> v = uv \<and> covered raw a (fc_id cfg) uv mbox start h (tx_db t) \<and>
       (\<forall>n. mb_uid_next mailbox = Some n \<longrightarrow> covered raw a (fc_id cfg) uv mbox start (sat_sub n 1) (tx_db t)))"
proof -
  let ?f = "fc_id cfg" and ?upper = "map_option (\<lambda>n. sat_sub n 1) (mb_uid_next mailbox)" and ?lo = "sat_add start 1"
  let ?s1 = "s\<lparr>sw_calls := Suc (sw_calls s)\<rparr>"
  have adv1: "advances raw s ?s1" by (rule advances_same) simp_all
  note ok1 = advancesD(1) [OF adv1 ok]
  obtain q s2 where ch: "(if rolled_over cfg uv then handle_uidvalidity_change ?f uv else ret ()) ?s1 = (q, s2)"
    by fastforce
  have e2: "advances raw ?s1 s2 \<and> cursor_safe raw a ?f uv mbox start (tx_db s) (tx_db s2)"
  proof (cases "rolled_over cfg uv")
    case True
    then have "start = 0" by (simp add: start_def sync_start_def)
    with uidvalidity_change_effect [OF ok1, of ?f uv q s2] ch True show ?thesis by simp
  next
    case False
    with ch show ?thesis by (auto simp: act_eval advances_refl cursor_safe_refl)
  qed
  note adv2 = advances_trans [OF adv1 e2 [THEN conjunct1]]
  note ok2 = advancesD(1) [OF adv2 ok]
  show ?thesis
  proof (cases q)
    case (Inl e)
    have "r = Inl e \<and> t = s2"
      using run sel ch Inl unfolding sync_folder_eq sync_rest_def Let_def bindE_def by simp
    with adv2 e2 show ?thesis by simp
  next
    case (Inr x)
    let ?s3 = "s2\<lparr>sw_status := (sw_status s2)\<lparr>ss_state := SyncSyncing\<rparr>\<rparr>"
    have adv23: "advances raw s2 ?s3" by (rule advances_same) simp_all
    note adv3 = advances_trans [OF adv2 adv23]
    note ok3 = advancesD(1) [OF adv3 ok]
    have cur3: "cursor_safe raw a ?f uv mbox start (tx_db s) (tx_db ?s3)" using e2 by simp
    have empty: "covered raw a ?f uv mbox start start d" for d by (simp add: covered_empty)
    have tail: "(if (case ?upper of None \<Rightarrow> False | Some u \<Rightarrow> u < ?lo) then
          bindE utc_now (\<lambda>now. bindE (record_sync_progress ?f uv start now) (\<lambda>_. ret (start, uv)))
        else
          bindE (fetch_windows env raw a ?f uv ?upper ?lo start 0) (\<lambda>(high, ingested).
          bindE (if 0 < ingested then ret () else bindE utc_now (\<lambda>now. record_sync_progress ?f uv high now)) (\<lambda>_.
          ret (high, uv)))) ?s3 = (r, t)"
      using run sel ch Inr unfolding sync_folder_eq sync_rest_def Let_def start_def
      by (simp add: bindE_def [of "if rolled_over cfg uv then _ else _"] set_status_def)
    show ?thesis
    proof (cases "case ?upper of None \<Rightarrow> False | Some u \<Rightarrow> u < ?lo")
      case True
      then obtain u where u: "?upper = Some u" "u < ?lo" by (auto split: option.splits)
      obtain p s4 where rec: "record_sync_progress ?f uv start (tx_now s2) ?s3 = (p, s4)"
        by (cases "record_sync_progress ?f uv start (tx_now s2) ?s3")
      have rt: "t = s4" "r = (case p of Inl e \<Rightarrow> Inl e | Inr _ \<Rightarrow> Inr (start, uv))"
        using tail True rec by (cases p; simp add: utc_now_def bindE_def act_eval)+
      note adv4 = record_sync_progress_effect(1) [OF rec, of raw]
      have "covered raw a ?f uv mbox start u (tx_db t)"
        by (rule covered_empty) (rule below_sat_add_one [OF u(2)])
      moreover have "cursor_safe raw a ?f uv mbox start (tx_db s) (tx_db t)"
        using cursor_safe_trans [OF cur3 cursor_safe_record [OF rec ok3 empty] adv4 ok3] rt(1) by simp
      ultimately show ?thesis
        using u rt adv4 advances_trans [OF adv3 adv4] empty by (cases p) auto
    next
      case False
      obtain w s4 where fw: "fetch_windows env raw a ?f uv ?upper ?lo start 0 ?s3 = (w, s4)"
        by (cases "fetch_windows env raw a ?f uv ?upper ?lo start 0 ?s3")
      have "\<forall>uid body. mbox uid = Some body \<longrightarrow> start < uid \<longrightarrow> uid < ?lo \<longrightarrow> queued raw a ?f uv uid body (tx_db ?s3)"
        using below_sat_add_one by fastforce
      from fetch_windows_safe [OF srv ok3 empty this fw]
      have safe: "advances raw ?s3 s4" "cursor_safe raw a ?f uv mbox start (tx_db ?s3) (tx_db s4)"
        and res: "\<And>h m. w = Inr (h, m) \<Longrightarrow> covered raw a ?f uv mbox start h (tx_db s4) \<and>
          (\<forall>u. ?upper = Some u \<longrightarrow> covered raw a ?f uv mbox start u (tx_db s4))"
        unfolding windows_safe_def by blast+
      note adv4 = advances_trans [OF adv3 safe(1)] and cur4 = cursor_safe_trans [OF cur3 safe(2) safe(1) ok3]
      note ok4 = advancesD(1) [OF adv4 ok]
      show ?thesis
      proof (cases w)
        case (Inl e)
        with tail False fw have "r = Inl e \<and> t = s4" by (simp add: bindE_def)
        with adv4 cur4 show ?thesis by simp
      next
        case (Inr hm)
        obtain h m where hm: "hm = (h, m)" by (cases hm)
        obtain p s5 where fin: "(if 0 < m then ret () else record_sync_progress ?f uv h (tx_now s4)) s4 = (p, s5)"
          by fastforce
        have rt: "t = s5" "r = (case p of Inl e \<Rightarrow> Inl e | Inr _ \<Rightarrow> Inr (h, uv))"
          using tail False fw Inr hm fin by (cases p; simp add: utc_now_def bindE_def act_eval split: if_splits)+
        note cov = res [OF Inr [unfolded hm]]
        have step: "advances raw s4 s5 \<and> cursor_safe raw a ?f uv mbox start (tx_db s4) (tx_db s5)"
          using fin record_sync_progress_effect(1) cursor_safe_record [OF _ ok4] cov
          by (auto simp: act_eval advances_refl cursor_safe_refl split: if_splits)
        with cursor_safe_trans [OF cur4 _ _ ok4] rt(1)
        have "cursor_safe raw a ?f uv mbox start (tx_db s) (tx_db t)" by simp
        with rt cov step advances_trans [OF adv4] covered_mono [OF _ ok4] show ?thesis
          by (cases p) auto
      qed
    qed
  qed
qed

text \<open>
  C2. The checkpoint is safe: whatever disk, database and network failures interrupt a pass
  over a folder, the folder's stored cursor is where it was, or it carries the server's
  UIDVALIDITY and every message of the mailbox from the pass's start up to it has a parse job
  queued (with its blob stored), so nothing below the cursor was skipped. A pass that ends
  well has queued everything up to the UID it returns, and everything below the UIDNEXT the
  server announced. After a change of UIDVALIDITY the pass starts from the first UID.
\<close>

theorem sync_checkpoint_safe:
  assumes "serves env mbox" and "sync_ok raw s" and "ie_select env (sw_calls s) (fc_path cfg) = Inr mailbox"
    and "mb_uid_validity mailbox = Some uv"
  shows "case sync_folder env raw a cfg s of (r, t) \<Rightarrow>
    sync_ok raw t \<and> cursor_safe raw a (fc_id cfg) uv mbox (sync_start cfg uv) (tx_db s) (tx_db t) \<and>
    (\<forall>h v. r = Inr (h, v) \<longrightarrow> v = uv \<and> covered raw a (fc_id cfg) uv mbox (sync_start cfg uv) h (tx_db t) \<and>
       (\<forall>n. mb_uid_next mailbox = Some n \<longrightarrow>
          covered raw a (fc_id cfg) uv mbox (sync_start cfg uv) (sat_sub n 1) (tx_db t)))"
proof (cases "sync_folder env raw a cfg s")
  case (Pair r t)
  from sync_folder_safe [OF assms(1,2) Pair assms(3,4)] advancesD(1) [OF _ assms(2)]
  show ?thesis unfolding Pair prod.case by blast
qed

section \<open>Stale cursors\<close>

definition no_locations :: "FolderId \<Rightarrow> db \<Rightarrow> bool" where
  "no_locations f d \<longleftrightarrow> (\<forall>l \<in> set (tbl_locations d). loc_folder_id l \<noteq> f)"

lemma keeps_no_locations_ops:
  "keeps (no_locations f) (net g)" "keeps (no_locations f) (set_status h)"
  "keeps (no_locations f) (record_sync_progress i uv u at)" "keeps (no_locations f) (ingest_raw raw req)"
proof -
  show "keeps (no_locations f) (net g)" by (rule keepsI) simp
  show "keeps (no_locations f) (set_status h)" by (rule keepsI) (simp add: set_status_def)
  have up: "keeps (no_locations f) (execute (update_folder i k))" for i k
    by (rule keeps_execute) (auto simp: update_folder_def no_locations_def split: option.splits)
  show "keeps (no_locations f) (record_sync_progress i uv u at)"
    unfolding record_sync_progress_def update_sync_state_def folder_update_def by (intro keeps_intros up)
  have ins: "keeps (no_locations f) (execute (insert_job k))" for k
    by (rule keeps_execute) (auto simp: insert_job_def no_locations_def Let_def)
  have "keeps (no_locations f) (put_if_absent raw a p)" for a p by (rule keeps_off_db) (rule off_db_intros)
  moreover have "keeps (no_locations f) (enqueue_parse p)" for p
    unfolding enqueue_parse_def svc_enqueue_raw_def enqueue_raw_def notify_waiters_def
    by (intro keeps_intros ins keepsI) simp
  ultimately show "keeps (no_locations f) (ingest_raw raw req)" unfolding ingest_raw_def by (intro keeps_intros)
qed

lemma keeps_no_locations_items: "keeps (no_locations f) (ingest_items raw a i uv high n items)"
proof (induction items arbitrary: high n)
  case Nil
  then show ?case by (simp add: keeps_intros)
next
  case (Cons item items)
  then show ?case
    by (cases item) (auto intro!: keeps_intros keeps_no_locations_ops split: option.splits)
qed

lemma keeps_no_locations_windows:
  fixes s :: "'z sync_world_scheme"
  shows "no_locations f (tx_db s) \<Longrightarrow> fetch_windows env raw a i uv upper lo high k s = (r, t) \<Longrightarrow> no_locations f (tx_db t)"
proof (induction "2 ^ 32 - unat lo" arbitrary: lo high k s r t rule: less_induct)
  case less
  from less.prems(2) show ?case
  proof (cases rule: fetch_windows_cases)
    case (failed e)
    with less.prems(1) show ?thesis by simp
  next
    case (items_failed items e s1)
    with keeps_eqD [OF keeps_no_locations_items _ items_failed(3)] net_advances [OF items_failed(2)] less.prems(1)
    show ?thesis by simp
  next
    case (window items s1 h n s2 q s3)
    have "no_locations f (tx_db s2)"
      using keeps_eqD [OF keeps_no_locations_items _ window(3)] net_advances [OF window(2)] less.prems(1) by simp
    then have l3: "no_locations f (tx_db s3)"
      using window(4) keeps_eqD [OF keeps_no_locations_ops(3)] by (auto simp: act_eval split: if_splits)
    show ?thesis
    proof (cases "(\<exists>e. q = Inl e) \<or> last_window upper (window_end upper lo) (0 < n)")
      case True
      with window(5) l3 show ?thesis by (cases q) auto
    next
      case False
      then have "unat lo < unat (sat_add (window_end upper lo) 1)"
        using next_window_later [of upper lo "0 < n"] by simp
      then have "2 ^ 32 - unat (sat_add (window_end upper lo) 1) < 2 ^ 32 - unat lo"
        using u32_bound [of "sat_add (window_end upper lo) 1"] by simp
      from less.hyps [OF this l3, of h "k + n" r t] window(5) False show ?thesis by (cases q) simp_all
    qed
  qed
qed

lemma keeps_no_locations_sync:
  "keeps (no_locations f) (handle_uidvalidity_change i uv)" "keeps (no_locations f) (sync_rest env raw a cfg uv upper)"
  "keeps (no_locations f) (sync_folder env raw a cfg :: ('z, u32 \<times> u32) sm)"
proof -
  have del: "keeps (no_locations f) (delete_locations_for_folder i)" for i
    unfolding delete_locations_for_folder_def delete_by_folder_id_def
    by (intro keeps_intros keeps_execute) (auto simp: no_locations_def)
  show change: "keeps (no_locations f) (handle_uidvalidity_change i uv)" for i uv
    unfolding handle_uidvalidity_change_def by (intro keeps_intros keeps_no_locations_ops del)
  have "keeps (no_locations f) (fetch_windows env raw a i uv upper lo high k)" for i uv upper lo high k
    by (rule keepsI) (metis keeps_no_locations_windows prod.collapse)
  then show rest: "keeps (no_locations f) (sync_rest env raw a cfg uv upper)" for uv upper
    unfolding sync_rest_def by (auto intro!: keeps_intros keeps_no_locations_ops split: prod.splits)
  show "keeps (no_locations f) (sync_folder env raw a cfg :: ('z, u32 \<times> u32) sm)"
  proof (rule keepsI)
    fix s :: "'z sync_world_scheme"
    assume pre: "no_locations f (tx_db s)"
    have "keeps (no_locations f) (bindE (if rolled_over cfg uv then handle_uidvalidity_change (fc_id cfg) uv else ret ())
        (\<lambda>_. sync_rest env raw a cfg uv upper))" for uv upper
      by (intro keeps_intros change rest)
    from keepsD [OF this, of "s\<lparr>sw_calls := Suc (sw_calls s)\<rparr>"] pre
    show "no_locations f (tx_db (snd (sync_folder env raw a cfg s)))"
      unfolding sync_folder_eq Let_def by (auto split: sum.splits ImapError.splits option.splits split del: if_split)
  qed
qed

lemma uidvalidity_change_clears:
  fixes s :: "'z sync_world_scheme"
  assumes run: "handle_uidvalidity_change f uv s = (Inr (), t)"
  shows "no_locations f (tx_db t)"
proof -
  obtain u s1 where rec: "record_sync_progress f uv 0 (tx_now s) s = (Inr u, s1)"
    using run by (cases "record_sync_progress f uv 0 (tx_now s) s")
      (auto simp: handle_uidvalidity_change_def utc_now_def bindE_def split: sum.splits)
  with run obtain n where "delete_locations_for_folder f s1 = (Inr n, t)"
    by (cases "delete_locations_for_folder f s1")
      (auto simp: handle_uidvalidity_change_def utc_now_def bindE_def act_eval split: sum.splits)
  from delete_locations_effect(3) [OF this] show ?thesis by (simp add: no_locations_def)
qed

lemma rolled_over_sync_clears:
  fixes s :: "'z sync_world_scheme"
  assumes run: "sync_folder env raw a cfg s = (Inr hv, t)"
    and sel: "ie_select env (sw_calls s) (fc_path cfg) = Inr mailbox" "mb_uid_validity mailbox = Some uv"
    and rolled: "rolled_over cfg uv"
  shows "no_locations (fc_id cfg) (tx_db t)"
proof -
  let ?s1 = "s\<lparr>sw_calls := Suc (sw_calls s)\<rparr>"
  obtain s2 where ch: "handle_uidvalidity_change (fc_id cfg) uv ?s1 = (Inr (), s2)"
      "sync_rest env raw a cfg uv (map_option (\<lambda>n. sat_sub n 1) (mb_uid_next mailbox)) s2 = (Inr hv, t)"
    using run sel rolled unfolding sync_folder_eq Let_def
    by (cases "handle_uidvalidity_change (fc_id cfg) uv ?s1") (auto simp: bindE_def split: sum.splits)
  from keeps_eqD [OF keeps_no_locations_sync(2) uidvalidity_change_clears [OF ch(1)] ch(2)] show ?thesis .
qed

text \<open>Only \<open>SELECT\<close> reports a missing folder; \<open>raises P\<close>: every error satisfies \<open>P\<close>.\<close>

definition raises :: "('e \<Rightarrow> bool) \<Rightarrow> ('s, 'e, 'a) action \<Rightarrow> bool" where
  "raises P m \<longleftrightarrow> (\<forall>s e t. m s = (Inl e, t) \<longrightarrow> P e)"

lemma raises_bindE: "raises P m \<Longrightarrow> (\<And>x. raises P (f x)) \<Longrightarrow> raises P (bindE m f)"
  unfolding raises_def bindE_Inl_iff by blast

lemma raises_ops:
  "raises P (ret x)" "P e \<Longrightarrow> raises P (throw e)" "raises P (getsE g)" "raises P (modifyE h)"
  "P e \<Longrightarrow> raises P (requireE b e)"
  "raises P m \<Longrightarrow> (\<not> b \<Longrightarrow> raises P n) \<Longrightarrow> raises P (if b then m else n)"
  "raises P m \<Longrightarrow> (\<And>y. raises P (k y)) \<Longrightarrow> raises P (case v of None \<Rightarrow> m | Some y \<Rightarrow> k y)"
  "(\<And>y. raises P (l y)) \<Longrightarrow> (\<And>z. raises P (q z)) \<Longrightarrow> raises P (case w of Inl y \<Rightarrow> l y | Inr z \<Rightarrow> q z)"
  by (auto simp: raises_def act_eval requireE_apply split: option.splits sum.splits)

definition found :: "Error \<Rightarrow> bool" where
  "found e \<longleftrightarrow> (\<forall>path. e \<noteq> FolderNotFound path)"

lemma raises_db_call: "raises found db_call"
  by (auto simp: raises_def db_call_def found_def split: list.splits option.splits)

lemma raises_statements: "raises found (query g)" "raises found utc_now" "raises found (execute h)"
proof -
  show "raises found (query g)" unfolding query_def by (intro raises_ops raises_bindE raises_db_call)
  show "raises found utc_now" unfolding utc_now_def by (intro raises_ops)
  show "raises found (execute h)"
    unfolding execute_def
    by (intro raises_bindE raises_db_call) (auto simp: raises_def found_def split: sum.splits prod.splits)
qed

lemma raises_transaction:
  fixes m :: "('z, 'a) dbm"
  assumes "raises found m"
  shows "raises found (transaction m)"
proof -
  have "raises found (db_call :: ('z, unit) dbm)" by (rule raises_db_call)
  with assms show ?thesis
    unfolding transaction_def by (intro raises_bindE) (auto simp: raises_def split: prod.splits sum.splits, blast)
qed

lemmas raises_db = raises_statements raises_transaction

lemma raises_sync:
  "raises found (record_sync_progress i uv u at)" "raises found (handle_uidvalidity_change i uv)"
  "raises found (ingest_items raw a i uv high n items)"
proof -
  have simple: "found (InvalidId k)" "found (RepoError x)" "found (Infrastructure m)" for k x m by (simp_all add: found_def)
  show rec: "raises found (record_sync_progress i uv u at)" for i uv u at
    unfolding record_sync_progress_def update_sync_state_def folder_update_def by (intro raises_ops raises_bindE raises_db simple)
  show "raises found (handle_uidvalidity_change i uv)"
    unfolding handle_uidvalidity_change_def delete_locations_for_folder_def delete_by_folder_id_def
    by (intro raises_ops raises_bindE raises_db simple rec)
  have step: "raises found (io_step g h)" for g h
    by (auto simp: raises_def io_step_def found_def split: list.splits option.splits)
  have "raises found (encrypt c k a p)" for c k a p
    by (auto simp: raises_def encrypt_def generate_nonce_def bindE_def act_eval)
  then have ing: "raises found (ingest_raw raw req)" for req
    unfolding ingest_raw_def put_if_absent_def Let_def try_exists_def atomic_write_all_def io_call_def file_create_def
      write_all_def rename_file_def enqueue_parse_def svc_enqueue_raw_def enqueue_raw_def notify_waiters_def
    by (intro raises_ops raises_bindE raises_db simple step)
  show "raises found (ingest_items raw a i uv high n items)"
  proof (induction items arbitrary: high n)
    case Nil
    then show ?case by (simp add: raises_ops)
  next
    case (Cons item items)
    have "raises found (set_status h)" for h unfolding set_status_def by (intro raises_ops raises_bindE)
    with Cons simple show ?case by (cases item) (auto intro!: raises_ops raises_bindE raises_db ing split: option.splits)
  qed
qed

lemma raises_windows: "raises found (fetch_windows env raw a i uv upper lo high k :: ('z, u32 \<times> nat) sm)"
proof (induction "2 ^ 32 - unat lo" arbitrary: lo high k rule: less_induct)
  case less
  have net: "raises found (net g)" for g by (simp add: raises_def net_def)
  have inf: "found (Infrastructure m)" for m by (simp add: found_def)
  have next_window: "\<not> last_window upper (window_end upper lo) b \<Longrightarrow>
      raises found (fetch_windows env raw a i uv upper (sat_add (window_end upper lo) 1) h n :: ('z, u32 \<times> nat) sm)" for b h n
    using less [of "sat_add (window_end upper lo) 1"] next_window_later [of upper lo b]
      u32_bound [of "sat_add (window_end upper lo) 1"] by simp
  show ?case
    unfolding fetch_windows.simps [of env raw a i uv upper lo] Let_def split_def
    by (intro raises_ops raises_bindE raises_db raises_sync net inf next_window)
qed

lemma raises_sync_rest: "raises found (sync_rest env raw a cfg uv upper)"
  unfolding sync_rest_def set_status_def split_def
  by (intro raises_ops raises_bindE raises_db raises_sync raises_windows)

lemma selected_found:
  assumes sel: "ie_select env (sw_calls s) (fc_path cfg) = Inr mailbox" and run: "sync_folder env raw a cfg s = (Inl e, t)"
  shows "found e"
proof (cases "mb_uid_validity mailbox")
  case None
  with sel run show ?thesis unfolding sync_folder_eq Let_def by (auto simp: found_def)
next
  case (Some uv)
  have "raises found (bindE (if rolled_over cfg uv then handle_uidvalidity_change (fc_id cfg) uv else ret ())
      (\<lambda>_. sync_rest env raw a cfg uv (map_option (\<lambda>n. sat_sub n 1) (mb_uid_next mailbox))))"
    by (intro raises_ops raises_bindE raises_sync raises_sync_rest)
  moreover have "bindE (if rolled_over cfg uv then handle_uidvalidity_change (fc_id cfg) uv else ret ())
      (\<lambda>_. sync_rest env raw a cfg uv (map_option (\<lambda>n. sat_sub n 1) (mb_uid_next mailbox)))
      (s\<lparr>sw_calls := Suc (sw_calls s)\<rparr>) = (Inl e, t)"
    using run sel Some unfolding sync_folder_eq Let_def by simp
  ultimately show ?thesis unfolding raises_def by blast
qed

lemma keeps_no_locations_poll: "keeps (no_locations f) (poll_folders env raw a cfgs)"
  by (induction cfgs)
    (auto simp: cancelled_def intro!: keeps_intros keeps_no_locations_ops keeps_no_locations_sync split: Error.splits)

text \<open>
  A poll task keeps the cursors it was started with. Once the UIDVALIDITY of a folder
  differs from the one it was started with, each pass takes the change for a new one: every
  pass that ends well leaves the folder without a single location, whatever cursor and
  UIDVALIDITY earlier passes have recorded in the folder's row.
\<close>

theorem stale_cursor_drops_locations:
  fixes s :: "'z sync_world_scheme"
  assumes "cfg \<in> set cfgs" and "rolled_over cfg uv" and "\<And>k. \<not> ie_cancelled env k"
    and "\<And>k. \<exists>mailbox. ie_select env k (fc_path cfg) = Inr mailbox \<and> mb_uid_validity mailbox = Some uv"
    and "poll_folders env raw a cfgs s = (Inr (), t)"
  shows "no_locations (fc_id cfg) (tx_db t)"
  using assms(1,5)
proof (induction cfgs arbitrary: s)
  case Nil
  then show ?case by simp
next
  case (Cons c cs)
  let ?s1 = "s\<lparr>sw_calls := Suc (sw_calls s)\<rparr>"
  obtain r s2 where sync: "sync_folder env raw a c ?s1 = (r, s2)" by (cases "sync_folder env raw a c ?s1")
  have rest: "poll_folders env raw a cs s2 = (Inr (), t)"
    using Cons.prems(2) assms(3) sync
    by (auto simp: bindE_def cancelled_def net_def handleE_def throw_apply split: sum.splits Error.splits)
  show ?case
  proof (cases "c = cfg")
    case True
    obtain mailbox where sel: "ie_select env (sw_calls ?s1) (fc_path cfg) = Inr mailbox" "mb_uid_validity mailbox = Some uv"
      using assms(4) by blast
    have "found e" if "r = Inl e" for e using selected_found [OF sel(1)] sync that True by blast
    then have "\<exists>hv. r = Inr hv"
      using Cons.prems(2) assms(3) sync
      by (cases r) (auto simp: bindE_def cancelled_def net_def handleE_def throw_apply found_def split: Error.splits)
    with rolled_over_sync_clears [OF _ sel assms(2)] sync True
    have "no_locations (fc_id cfg) (tx_db s2)" by blast
    from keeps_eqD [OF keeps_no_locations_poll this rest] show ?thesis .
  next
    case False
    with Cons rest show ?thesis by simp
  qed
qed

section \<open>Witnesses\<close>

text \<open>A server with one message in the mailbox.\<close>

definition sample_mailbox :: "u32 \<Rightarrow> bytes option" where
  "sample_mailbox uid = (if uid = 1 then Some [1, 2] else None)"

definition sample_imap_env :: imap_env where
  "sample_imap_env =
    \<lparr>ie_dial = (\<lambda>_. None), ie_server_name = (\<lambda>_. None), ie_handshake = (\<lambda>_. None), ie_greeting = (\<lambda>_. Inr True),
     ie_starttls = (\<lambda>_. None), ie_login = (\<lambda>_. None),
     ie_select = (\<lambda>_ _. Inr \<lparr>mb_uid_validity = Some 20, mb_uid_next = Some 2\<rparr>),
     ie_fetch = (\<lambda>_ lo hi. Inr (if lo \<le> 1 \<and> 1 \<le> hi
       then [Inr \<lparr>fe_uid = Some 1, fe_body = Some [1, 2], fe_internal_date = None, fe_flags = [FlagSeen]\<rparr>] else [])),
     ie_idle_init = (\<lambda>_. None), ie_idle_wait = (\<lambda>_. None), ie_idle_done = (\<lambda>_. None), ie_cancelled = (\<lambda>_. False)\<rparr>"

definition sample_config :: "u32 \<Rightarrow> FolderConfig" where
  "sample_config uv = \<lparr>fc_id = 3, fc_path = ''INBOX'', fc_idle_enabled = False, fc_uidvalidity = Some uv, fc_last_uid = 0\<rparr>"

definition sample_sync :: sync_world where
  "sample_sync = world.extend sample_pipeline \<lparr>sw_calls = 0, sw_status = initial_status, sw_failures = 0\<rparr>"

lemma sample_serves: "serves sample_imap_env sample_mailbox"
  by (auto simp: serves_def sample_imap_env_def sample_mailbox_def)

lemma sample_sync_parts:
  "tx_db sample_sync = tx_db sample_pipeline" "w_files sample_sync = (\<lambda>_. None)" "w_io sample_sync = []"
  "tx_faults sample_sync = []" "w_nonces sample_sync = w_nonces sample_pipeline" "sw_calls sample_sync = 0"
  by (simp_all add: sample_sync_def sample_pipeline_def sample_world_def sample_tx_def world.extend_def tx.extend_def)

lemma sample_sync_ok: "sync_ok sample_raw sample_sync"
proof -
  have "nonces_ok sample_sync"
    using sample_disk(1) by (simp add: blobs_ok_def nonces_ok_def sample_sync_parts)
  then have "blobs_ok sample_raw sample_sync"
    using sample_disk(2) by (simp add: blobs_ok_def sample_sync_parts)
  moreover have "jobs_backed sample_raw sample_sync"
    by (auto simp: jobs_backed_def sample_sync_parts sample_tables sample_jobs_db_def sample_row_def)
  ultimately show ?thesis using sample_tables_ok(2) by (simp add: sync_ok_def sample_sync_parts)
qed

theorem sync_checkpoint_safe_witness:
  "sync_ok sample_raw (snd (sync_folder sample_imap_env sample_raw 7 (sample_config 20) sample_sync)) \<and>
   cursor_safe sample_raw 7 3 20 sample_mailbox 0 (tx_db sample_sync)
     (tx_db (snd (sync_folder sample_imap_env sample_raw 7 (sample_config 20) sample_sync)))"
proof -
  have "ie_select sample_imap_env (sw_calls sample_sync) (fc_path (sample_config 20)) = Inr \<lparr>mb_uid_validity = Some 20, mb_uid_next = Some 2\<rparr>"
    by (simp add: sample_imap_env_def)
  from sync_checkpoint_safe [OF sample_serves sample_sync_ok this, where uv = 20 and a = 7]
  show ?thesis
    by (simp add: sample_config_def sync_start_def rolled_over_def split: prod.splits)
qed

text \<open>The mailbox has been recreated, empty, under UIDVALIDITY 20 since the task started with 19.\<close>

definition recreated_env :: imap_env where
  "recreated_env = sample_imap_env\<lparr>ie_select := (\<lambda>_ _. Inr \<lparr>mb_uid_validity = Some 20, mb_uid_next = Some 1\<rparr>)\<rparr>"

lemma recreated_select [simp]:
  "ie_select recreated_env k p = Inr \<lparr>mb_uid_validity = Some 20, mb_uid_next = Some 1\<rparr>" "\<not> ie_cancelled recreated_env k"
  by (simp_all add: recreated_env_def sample_imap_env_def)

lemma sample_progress:
  assumes "tx_faults s = []" and "tbl_folders (tx_db s) = [f]" and "fld_id f = 3"
  shows "record_sync_progress 3 uv u at s =
    (Inr (), s\<lparr>tx_db := (tx_db s)\<lparr>tbl_folders := [saved_folder (tx_now s) (fld_version f + 1) (set_cursor uv u at) f]\<rparr>\<rparr>)"
  using assms
  by (simp add: record_sync_progress_def transaction_def update_sync_state_def folder_update_def requireE_apply bindE_def
      utc_now_def stmt_simps act_eval find_folder_def find_row_def update_folder_def update_where_def)

definition sample_located :: sync_world where
  "sample_located = sample_sync\<lparr>tx_db := (tx_db sample_sync)\<lparr>tbl_locations :=
     [\<lparr>loc_id = 5, loc_version = 1, loc_message_id = 42, loc_folder_id = 3, loc_uid = 10, loc_uidvalidity = 20,
       loc_flags = no_flags, loc_internal_date = 0, loc_first_seen_at = 0, loc_updated_at = 0\<rparr>]\<rparr>\<rparr>"

lemma sample_located_parts:
  "tbl_folders (tx_db sample_located) = [sample_folder]" "tx_faults sample_located = []"
  by (simp_all add: sample_located_def sample_sync_parts sample_pipeline_def)

lemma sample_pass: "\<exists>t. poll_folders recreated_env sample_raw 7 [sample_config 19] sample_located = (Inr (), t)"
proof -
  let ?s1 = "sample_located\<lparr>sw_calls := Suc (sw_calls sample_located)\<rparr>"
  let ?s2 = "?s1\<lparr>sw_calls := Suc (sw_calls ?s1)\<rparr>"
  define s3 where "s3 = ?s2\<lparr>tx_db := (tx_db ?s2)\<lparr>tbl_folders :=
    [saved_folder (tx_now ?s2) (fld_version sample_folder + 1) (set_cursor 20 0 (tx_now ?s2)) sample_folder]\<rparr>\<rparr>"
  have rec: "record_sync_progress 3 20 0 (tx_now ?s2) ?s2 = (Inr (), s3)"
    unfolding s3_def by (rule sample_progress) (simp_all add: sample_located_parts sample_folder_def)
  obtain n s4 where del: "delete_locations_for_folder 3 s3 = (Inr n, s4)"
      "tbl_folders (tx_db s4) = tbl_folders (tx_db s3)" "tx_faults s4 = []"
    by (simp add: delete_locations_for_folder_def delete_by_folder_id_def transaction_def requireE_apply bindE_def
        stmt_simps act_eval s3_def sample_located_parts)
  have change: "handle_uidvalidity_change 3 20 ?s2 = (Inr (), s4)"
    using rec del by (simp add: handle_uidvalidity_change_def utc_now_def bindE_def act_eval)
  let ?s5 = "s4\<lparr>sw_status := (sw_status s4)\<lparr>ss_state := SyncSyncing\<rparr>\<rparr>"
  obtain s6 where fin: "record_sync_progress 3 20 0 (tx_now ?s5) ?s5 = (Inr (), s6)"
    using sample_progress [of ?s5 "saved_folder (tx_now ?s2) (fld_version sample_folder + 1) (set_cursor 20 0 (tx_now ?s2)) sample_folder"]
      del by (simp add: s3_def saved_folder_def set_cursor_def sample_folder_def)
  have "sync_rest recreated_env sample_raw 7 (sample_config 19) 20 (Some 0) s4 = (Inr (0, 20), s6)"
    using fin by (simp add: sync_rest_def set_status_def utc_now_def bindE_def act_eval sample_config_def sync_start_def
        rolled_over_def sat_add_def)
  with change have "sync_folder recreated_env sample_raw 7 (sample_config 19) ?s1 = (Inr (0, 20), s6)"
    unfolding sync_folder_eq by (simp add: rolled_over_def sample_config_def sat_sub_def bindE_def Let_def)
  then show ?thesis by (simp add: cancelled_def net_def bindE_def handleE_def act_eval)
qed

theorem stale_cursor_drops_locations_witness:
  "\<not> no_locations 3 (tx_db sample_located) \<and>
   no_locations 3 (tx_db (snd (poll_folders recreated_env sample_raw 7 [sample_config 19] sample_located)))"
proof -
  obtain t where run: "poll_folders recreated_env sample_raw 7 [sample_config 19] sample_located = (Inr (), t)"
    using sample_pass by blast
  have "no_locations (fc_id (sample_config 19)) (tx_db t)"
    by (rule stale_cursor_drops_locations [OF _ _ _ _ run, where uv = 20]) (simp_all add: rolled_over_def sample_config_def)
  with run show ?thesis by (simp add: sample_config_def) (simp add: no_locations_def sample_located_def)
qed

end
