(* ===== verification/SearchIndex.thy ===== *)
theory SearchIndex
  imports World
begin

text \<open>
  The state the application adds to the database and the disk, and the writer of the search
  index (\<open>crates/search/src/index.rs\<close>): documents that were committed, operations the one
  shared writer has queued, the schema-version file beside the index, and the count of
  account-change events (\<open>crates/core/src/event/service.rs\<close>). Each call into the search
  engine may fail, as a schedule says; a commit that fails leaves its operations queued.
\<close>

section \<open>Documents and operations\<close>

record SearchDoc =
  sd_message_id :: MessageId
  sd_account_id :: AccountId
  sd_has_attachments :: bool
  sd_subject :: string
  sd_body :: string
  sd_snippet :: string
  sd_from :: string
  sd_to :: string
  sd_sent_date :: "int option"

datatype index_op =
    DeleteMessageDocs MessageId
  | DeleteAccountDocs AccountId
  | DeleteAllDocs
  | AddDoc SearchDoc

text \<open>A deletion removes what was added before it.\<close>

fun apply_op :: "SearchDoc list \<Rightarrow> index_op \<Rightarrow> SearchDoc list" where
  "apply_op docs (DeleteMessageDocs i) = delete_where (\<lambda>d. sd_message_id d = i) docs"
| "apply_op docs (DeleteAccountDocs a) = delete_where (\<lambda>d. sd_account_id d = a) docs"
| "apply_op docs DeleteAllDocs = []"
| "apply_op docs (AddDoc x) = docs @ [x]"

record app_world = world +
  ix_docs :: "SearchDoc list"
  ix_ops :: "index_op list"
  ix_faults :: "string option list"
  ix_version :: "u32 option"
  ev_accounts_changed :: nat

type_synonym ('z, 'a) am = "('z app_world_scheme, Error, 'a) action"

section \<open>Calls into the engine\<close>

definition ix_call :: "(string \<Rightarrow> string) \<Rightarrow> ('z, unit) am" where
  "ix_call msg s =
    (case ix_faults s of
       [] \<Rightarrow> (Inr (), s)
     | None # fs \<Rightarrow> (Inr (), s\<lparr>ix_faults := fs\<rparr>)
     | Some e # fs \<Rightarrow> (Inl (Infrastructure (msg e)), s\<lparr>ix_faults := fs\<rparr>))"

definition tantivy_error :: "string \<Rightarrow> string" where
  "tantivy_error e = ''search engine: '' @ e"

definition lock_writer :: "('z, unit) am" where
  "lock_writer = ix_call (\<lambda>_. ''search index writer lock poisoned'')"

definition queue_op :: "index_op \<Rightarrow> ('z, unit) am" where
  "queue_op x = modifyE (\<lambda>s. s\<lparr>ix_ops := ix_ops s @ [x]\<rparr>)"

definition commit_writer :: "('z, unit) am" where
  "commit_writer = bindE (ix_call tantivy_error) (\<lambda>_.
     modifyE (\<lambda>s. s\<lparr>ix_docs := foldl apply_op (ix_docs s) (ix_ops s), ix_ops := []\<rparr>))"

text \<open>\<open>SearchService::delete_account\<close>.\<close>

definition search_delete_account :: "AccountId \<Rightarrow> ('z, unit) am" where
  "search_delete_account a =
    bindE lock_writer (\<lambda>_. bindE (queue_op (DeleteAccountDocs a)) (\<lambda>_. commit_writer))"

definition notify_accounts_changed :: "('z, unit) am" where
  "notify_accounts_changed = modifyE (\<lambda>s. s\<lparr>ev_accounts_changed := Suc (ev_accounts_changed s)\<rparr>)"

section \<open>The index and the rest of the world\<close>

lemma ix_call_world [simp]:
  "world.truncate (snd (ix_call f s)) = world.truncate s" "ix_docs (snd (ix_call f s)) = ix_docs s"
  "ix_ops (snd (ix_call f s)) = ix_ops s"
  by (auto simp: ix_call_def world.truncate_def split: list.splits option.splits)

lemma off_db_ix [off_db_intros]:
  "off_db (ix_call f)" "off_db (queue_op x)" "off_db commit_writer" "off_db lock_writer" "off_db notify_accounts_changed"
  "off_db (search_delete_account a)"
proof -
  have call: "off_db (ix_call f)" for f
    by (auto simp: off_db_def frame_def ix_call_def tx.truncate_def split: list.splits option.splits)
  have q: "off_db (queue_op x)" for x
    unfolding queue_op_def by (rule off_db_modifyE) (simp add: tx.truncate_def)
  have c: "off_db commit_writer"
    unfolding commit_writer_def by (intro off_db_intros call off_db_modifyE) (simp add: tx.truncate_def)
  show "off_db (ix_call f)" "off_db (queue_op x)" "off_db commit_writer" by (fact call q c)+
  show "off_db lock_writer" unfolding lock_writer_def by (rule call)
  show "off_db notify_accounts_changed"
    unfolding notify_accounts_changed_def by (rule off_db_modifyE) (simp add: tx.truncate_def)
  show "off_db (search_delete_account a)"
    unfolding search_delete_account_def lock_writer_def by (intro off_db_intros call q c)
qed

lemma foldl_apply_account:
  "foldl apply_op docs (ops @ [DeleteAccountDocs a]) = delete_where (\<lambda>d. sd_account_id d = a) (foldl apply_op docs ops)"
  by simp

end
