(* ===== verification/Accounts.thy ===== *)
theory Accounts
  imports SearchIndex Archive Folders
begin

text \<open>
  Accounts: the repository adapter (\<open>crates/database/src/adapters/account.rs\<close>) with the
  entity's version hook and the cascades of a deleted account, and the account service
  (\<open>crates/core/src/account/service.rs\<close>): validation, credentials encrypted for their
  account, optimistic locking, ownership, and the clean-up after a deletion.
\<close>

section \<open>The repository\<close>

record NewAccount =
  nac_token :: AccountId
  nac_user_id :: UserId
  nac_display_name :: string
  nac_email_address :: string
  nac_server :: ImapServerConfig
  nac_username :: string
  nac_credentials :: bytes

text \<open>The row as inserted: the hook raises the version to one.\<close>

definition new_account :: "time \<Rightarrow> NewAccount \<Rightarrow> Account" where
  "new_account now n =
    \<lparr>acc_id = nac_token n, acc_version = 1, acc_user_id = nac_user_id n, acc_display_name = nac_display_name n,
     acc_email_address = nac_email_address n, acc_server = nac_server n, acc_username = nac_username n,
     acc_credentials = nac_credentials n, acc_enabled = True, acc_status = PendingFirstSync, acc_last_error = None,
     acc_last_synced_at = None, acc_created_at = now, acc_updated_at = now\<rparr>"

definition user_exists :: "UserId \<Rightarrow> db \<Rightarrow> bool" where
  "user_exists i d \<longleftrightarrow> (\<exists>u \<in> set (tbl_users d). usr_id u = i)"

definition insert_account_row :: "Account \<Rightarrow> db \<Rightarrow> DbErr + Account \<times> db" where
  "insert_account_row a d =
    (if account_exists (acc_id a) d then Inl (unique_violation ''accounts.id'')
     else if \<not> user_exists (acc_user_id a) d then Inl (foreign_key_violation ''fk_accounts_user'')
     else Inr (a, d\<lparr>tbl_accounts := tbl_accounts d @ [a]\<rparr>))"

definition account_insert :: "NewAccount \<Rightarrow> ('z, Account) dbm" where
  "account_insert n = bindE utc_now (\<lambda>now. execute (insert_account_row (new_account now n)))"

definition find_account :: "AccountId \<Rightarrow> db \<Rightarrow> Account option" where
  "find_account i d = find_row (\<lambda>a. acc_id a = i) (tbl_accounts d)"

definition account_find_by_id_for_user :: "UserId \<Rightarrow> AccountId \<Rightarrow> ('z, Account option) dbm" where
  "account_find_by_id_for_user u i =
    bindE (requireE (i \<noteq> 0) (InvalidId i)) (\<lambda>_.
    query (\<lambda>d. find_row (\<lambda>a. acc_id a = i \<and> acc_user_id a = u) (tbl_accounts d)))"

definition account_list_for_user :: "UserId \<Rightarrow> ('z, Account list) dbm" where
  "account_list_for_user u = query (\<lambda>d. filter (\<lambda>a. acc_user_id a = u) (tbl_accounts d))"

definition account_list_enabled :: "('z, Account list) dbm" where
  "account_list_enabled = query (\<lambda>d. filter acc_enabled (tbl_accounts d))"

text \<open>The hook of a changed row: the next version and the current time.\<close>

definition saved_account :: "time \<Rightarrow> int \<Rightarrow> (Account \<Rightarrow> Account) \<Rightarrow> Account \<Rightarrow> Account" where
  "saved_account now v g a = (g a)\<lparr>acc_version := v, acc_updated_at := now\<rparr>"

definition update_account_row :: "AccountId \<Rightarrow> (Account \<Rightarrow> Account) \<Rightarrow> db \<Rightarrow> DbErr + Account \<times> db" where
  "update_account_row i f d =
    (case find_account i d of
       None \<Rightarrow> Inl record_not_updated
     | Some x \<Rightarrow> Inr (f x, d\<lparr>tbl_accounts := update_where (\<lambda>x. acc_id x = i) f (tbl_accounts d)\<rparr>))"

text \<open>The columns \<open>update\<close> writes when they differ.\<close>

definition set_account_columns :: "Account \<Rightarrow> Account \<Rightarrow> Account" where
  "set_account_columns a x =
    x\<lparr>acc_display_name := acc_display_name a, acc_email_address := acc_email_address a, acc_server := acc_server a,
      acc_username := acc_username a, acc_credentials := acc_credentials a, acc_enabled := acc_enabled a,
      acc_status := acc_status a, acc_last_error := acc_last_error a\<rparr>"

text \<open>With no column to write the row is only read again.\<close>

definition account_update :: "Account \<Rightarrow> ('z, Account) dbm" where
  "account_update a =
    bindE (requireE (acc_id a \<noteq> 0) (InvalidId (acc_id a))) (\<lambda>_.
    bindE (query (find_account (acc_id a))) (\<lambda>found.
      case found of
        None \<Rightarrow> throw (RepoError NotFound)
      | Some x \<Rightarrow>
          bindE (requireE (acc_version x = acc_version a) (RepoError Conflict)) (\<lambda>_.
          if set_account_columns a x = x then bindE db_call (\<lambda>_. ret x)
          else
            bindE utc_now (\<lambda>now.
            execute (update_account_row (acc_id a) (saved_account now (acc_version x + 1) (set_account_columns a)))))))"

text \<open>The two system writes set their columns without a version check.\<close>

definition account_write :: "AccountId \<Rightarrow> (Account \<Rightarrow> Account) \<Rightarrow> ('z, unit) dbm" where
  "account_write i g =
    bindE (requireE (i \<noteq> 0) (InvalidId i)) (\<lambda>_.
    bindE (query (find_account i)) (\<lambda>found.
      case found of
        None \<Rightarrow> throw (RepoError NotFound)
      | Some x \<Rightarrow>
          bindE utc_now (\<lambda>now.
          bindE (execute (update_account_row i (saved_account now (acc_version x + 1) g))) (\<lambda>_. ret ()))))"

definition account_set_status :: "AccountId \<Rightarrow> AccountStatus \<Rightarrow> string option \<Rightarrow> ('z, unit) dbm" where
  "account_set_status i st err = account_write i (\<lambda>a. a\<lparr>acc_status := st, acc_last_error := err\<rparr>)"

definition account_set_enabled :: "AccountId \<Rightarrow> bool \<Rightarrow> ('z, unit) dbm" where
  "account_set_enabled i b = account_write i (\<lambda>a. a\<lparr>acc_enabled := b\<rparr>)"

text \<open>
  Deleting an account cascades to its folders, messages and attachments, and through those to
  the locations.
\<close>

definition delete_account_row :: "AccountId \<Rightarrow> db \<Rightarrow> DbErr + unit \<times> db" where
  "delete_account_row i d =
    (let gone_folder = (\<lambda>k. \<exists>f \<in> set (tbl_folders d). fld_id f = k \<and> fld_account_id f = i);
         gone_message = (\<lambda>k. \<exists>m \<in> set (tbl_messages d). msg_id m = k \<and> msg_account_id m = i)
     in Inr ((), d\<lparr>tbl_accounts := delete_where (\<lambda>a. acc_id a = i) (tbl_accounts d),
       tbl_folders := delete_where (\<lambda>f. fld_account_id f = i) (tbl_folders d),
       tbl_messages := delete_where (\<lambda>m. msg_account_id m = i) (tbl_messages d),
       tbl_locations := delete_where (\<lambda>l. gone_message (loc_message_id l) \<or> gone_folder (loc_folder_id l)) (tbl_locations d),
       tbl_attachments := delete_where (\<lambda>a. gone_message (att_message_id a) \<or> att_account_id a = i) (tbl_attachments d)\<rparr>))"

definition account_delete :: "Account \<Rightarrow> ('z, Account) dbm" where
  "account_delete a =
    bindE (requireE (acc_id a \<noteq> 0) (InvalidId (acc_id a))) (\<lambda>_.
    bindE (query (find_account (acc_id a))) (\<lambda>found.
      case found of
        None \<Rightarrow> throw (RepoError NotFound)
      | Some x \<Rightarrow>
          bindE (requireE (acc_version x = acc_version a) (RepoError Conflict)) (\<lambda>_.
          bindE (execute (delete_account_row (acc_id a))) (\<lambda>_. ret x))))"

section \<open>The service\<close>

record CreateAccountParams =
  cap_user_id :: UserId
  cap_display_name :: string
  cap_email_address :: string
  cap_server :: ImapServerConfig
  cap_username :: string
  cap_password :: string

record PartialAccountInput =
  pai_display_name :: "string option"
  pai_password :: "string option"
  pai_server :: "ImapServerConfig option"
  pai_username :: "string option"

record PartialAccountUpdate =
  pau_display_name :: "string option"
  pau_credentials :: "bytes option"
  pau_server :: "ImapServerConfig option"
  pau_username :: "string option"

definition set_opt :: "('v \<Rightarrow> 'a \<Rightarrow> 'a) \<Rightarrow> 'v option \<Rightarrow> 'a \<Rightarrow> 'a" where
  "set_opt f v a = (case v of None \<Rightarrow> a | Some x \<Rightarrow> f x a)"

definition apply_to :: "PartialAccountUpdate \<Rightarrow> Account \<Rightarrow> Account" where
  "apply_to p a =
    set_opt (\<lambda>v a. a\<lparr>acc_username := v\<rparr>) (pau_username p)
      (set_opt (\<lambda>v a. a\<lparr>acc_server := v\<rparr>) (pau_server p)
        (set_opt (\<lambda>v a. a\<lparr>acc_credentials := v\<rparr>) (pau_credentials p)
          (set_opt (\<lambda>v a. a\<lparr>acc_display_name := v\<rparr>) (pau_display_name p) a)))"

definition validate_create :: "CreateAccountParams \<Rightarrow> Error option" where
  "validate_create p =
    (if trim (cap_display_name p) = [] then Some (Validation ''display_name is required'')
     else if trim (srv_host (cap_server p)) = [] then Some (Validation ''server.host is required'')
     else if srv_port (cap_server p) = 0 then Some (Validation ''server.port must be > 0'')
     else if trim (cap_username p) = [] then Some (Validation ''username is required'')
     else if cap_password p = [] then Some (Validation ''password is required'')
     else None)"

definition bad_opt :: "('v \<Rightarrow> bool) \<Rightarrow> 'v option \<Rightarrow> bool" where
  "bad_opt p v = (case v of None \<Rightarrow> False | Some x \<Rightarrow> p x)"

definition validate_update :: "PartialAccountInput \<Rightarrow> Error option" where
  "validate_update p =
    (if bad_opt (\<lambda>d. trim d = []) (pai_display_name p) then Some (Validation ''display_name must be non-empty'')
     else if bad_opt (\<lambda>s. trim (srv_host s) = []) (pai_server p) then Some (Validation ''server.host must be non-empty'')
     else if bad_opt (\<lambda>s. srv_port s = 0) (pai_server p) then Some (Validation ''server.port must be > 0'')
     else if bad_opt (\<lambda>u. trim u = []) (pai_username p) then Some (Validation ''username must be non-empty'')
     else if bad_opt (\<lambda>w. w = []) (pai_password p) then Some (Validation ''password must be non-empty'')
     else None)"

definition checkE :: "Error option \<Rightarrow> ('s, Error, unit) action" where
  "checkE v = (case v of None \<Rightarrow> ret () | Some e \<Rightarrow> throw e)"

text \<open>
  The cipher of the service and the JSON form of \<open>Credentials::Password\<close> (the
  serialisation library's): to bytes, and back from bytes.
\<close>

record account_env =
  ae_crypto :: crypto
  ae_key :: bytes
  ae_to_json :: "string \<Rightarrow> string + bytes"
  ae_from_json :: "bytes \<Rightarrow> string + string"

definition encrypt_password :: "account_env \<Rightarrow> AccountId \<Rightarrow> string \<Rightarrow> ('z, bytes) wm" where
  "encrypt_password env a password =
    (case ae_to_json env password of
       Inl e \<Rightarrow> throw (CryptoError (''serialize credentials: '' @ e))
     | Inr plaintext \<Rightarrow> encrypt (ae_crypto env) (ae_key env) a plaintext)"

definition create_account :: "account_env \<Rightarrow> CreateAccountParams \<Rightarrow> ('z, Account) am" where
  "create_account env p =
    bindE (checkE (validate_create p)) (\<lambda>_.
    bindE generate_token (\<lambda>token.
    bindE (encrypt_password env token (cap_password p)) (\<lambda>credentials.
    bindE (transaction (account_insert
      \<lparr>nac_token = token, nac_user_id = cap_user_id p, nac_display_name = cap_display_name p,
       nac_email_address = cap_email_address p, nac_server = cap_server p, nac_username = cap_username p,
       nac_credentials = credentials\<rparr>)) (\<lambda>account.
    bindE notify_accounts_changed (\<lambda>_. ret account)))))"

text \<open>Every operation of a user starts with the lookup that also checks the owner.\<close>

definition owned_account :: "UserId \<Rightarrow> AccountId \<Rightarrow> ('z, Account) dbm" where
  "owned_account u i =
    bindE (account_find_by_id_for_user u i) (\<lambda>found.
      case found of None \<Rightarrow> throw (RepoError NotFound) | Some a \<Rightarrow> ret a)"

definition get_account :: "UserId \<Rightarrow> AccountId \<Rightarrow> ('z, Account) dbm" where
  "get_account u i = read_only_transaction (owned_account u i)"

definition list_accounts :: "UserId \<Rightarrow> ('z, Account list) dbm" where
  "list_accounts u = read_only_transaction (account_list_for_user u)"

definition list_enabled_accounts :: "('z, Account list) dbm" where
  "list_enabled_accounts = read_only_transaction account_list_enabled"

definition update_account :: "account_env \<Rightarrow> UserId \<Rightarrow> AccountId \<Rightarrow> int \<Rightarrow> PartialAccountInput \<Rightarrow> ('z, Account) am" where
  "update_account env u i expected_version input =
    bindE (checkE (validate_update input)) (\<lambda>_.
    bindE (case pai_password input of
        None \<Rightarrow> ret None
      | Some pw \<Rightarrow> bindE (encrypt_password env i pw) (\<lambda>c. ret (Some c))) (\<lambda>credentials.
    transaction (bindE (owned_account u i) (\<lambda>existing.
      bindE (requireE (acc_version existing = expected_version) (RepoError Conflict)) (\<lambda>_.
      account_update (apply_to \<lparr>pau_display_name = pai_display_name input, pau_credentials = credentials,
        pau_server = pai_server input, pau_username = pai_username input\<rparr> existing))))))"

definition enable_account :: "UserId \<Rightarrow> AccountId \<Rightarrow> ('z, unit) am" where
  "enable_account u i =
    bindE (transaction (bindE (owned_account u i) (\<lambda>_.
      bindE (account_set_enabled i True) (\<lambda>_. account_set_status i PendingFirstSync None)))) (\<lambda>_.
    notify_accounts_changed)"

definition disable_account :: "UserId \<Rightarrow> AccountId \<Rightarrow> ('z, unit) am" where
  "disable_account u i =
    bindE (transaction (bindE (owned_account u i) (\<lambda>_.
      bindE (account_set_enabled i False) (\<lambda>_. account_set_status i Disabled None)))) (\<lambda>_.
    notify_accounts_changed)"

definition set_account_status :: "AccountId \<Rightarrow> AccountStatus \<Rightarrow> string option \<Rightarrow> ('z, unit) am" where
  "set_account_status i st err =
    bindE (transaction (account_set_status i st err)) (\<lambda>_. notify_accounts_changed)"

definition best_effort :: "('s, 'e, unit) action \<Rightarrow> ('s, 'e, unit) action" where
  "best_effort m = handleE m ret (\<lambda>_. ret ())"

definition delete_account :: "storage \<Rightarrow> storage \<Rightarrow> UserId \<Rightarrow> AccountId \<Rightarrow> ('z, unit) am" where
  "delete_account raw att u i =
    bindE (transaction (bindE (owned_account u i) account_delete)) (\<lambda>deleted.
    bindE (best_effort (delete_account_blobs raw (acc_id deleted))) (\<lambda>_.
    bindE (best_effort (delete_account_blobs att (acc_id deleted))) (\<lambda>_.
    bindE (best_effort (search_delete_account (acc_id deleted))) (\<lambda>_.
    notify_accounts_changed))))"

definition decrypt_credentials :: "account_env \<Rightarrow> UserId \<Rightarrow> AccountId \<Rightarrow> ('z, string) wm" where
  "decrypt_credentials env u i =
    bindE (get_account u i) (\<lambda>account.
      case decrypt (ae_crypto env) (ae_key env) i (acc_credentials account) of
        Inl e \<Rightarrow> throw e
      | Inr plaintext \<Rightarrow>
          (case ae_from_json env plaintext of
             Inl e \<Rightarrow> throw (CredentialsDeserialize e)
           | Inr password \<Rightarrow> ret password))"

end
