(* ===== verification/AccountProps.thy ===== *)
theory AccountProps
  imports Accounts
begin

text \<open>
  Properties of the account service: the tables stay consistent under every operation, an
  update is optimistic and touches only its owner's row, a deletion removes the account's rows
  and nothing of another account, each of its clean-ups is done unless that step fails, and stored credentials come back for their account only.
\<close>

section \<open>The invariant\<close>

definition accounts_ok :: "db \<Rightarrow> bool" where
  "accounts_ok d \<longleftrightarrow> distinct (map acc_id (tbl_accounts d)) \<and>
     (\<forall>a \<in> set (tbl_accounts d). user_exists (acc_user_id a) d)"

definition archive_ok :: "db \<Rightarrow> bool" where
  "archive_ok d \<longleftrightarrow> accounts_ok d \<and> mailbox_ok d"

lemmas archive_ok_defs = archive_ok_def accounts_ok_def mailbox_ok_def folders_ok_def mail_ok_defs exists_defs user_exists_def

text \<open>What an update of an account may change: not its identity or its owner.\<close>

definition same_account :: "(Account \<Rightarrow> Account) \<Rightarrow> bool" where
  "same_account g \<longleftrightarrow> (\<forall>a. acc_id (g a) = acc_id a \<and> acc_user_id (g a) = acc_user_id a)"

lemma same_account_updates [simp]:
  "same_account (\<lambda>a. a\<lparr>acc_enabled := b\<rparr>)" "same_account (\<lambda>a. a\<lparr>acc_status := st, acc_last_error := err\<rparr>)"
  "same_account (set_account_columns x)" "same_account g \<Longrightarrow> same_account (saved_account now v g)"
  by (simp_all add: same_account_def saved_account_def set_account_columns_def)

lemma insert_account_ok: "archive_ok d \<Longrightarrow> insert_account_row a d = Inr (x, d') \<Longrightarrow> archive_ok d'"
  by (fastforce simp: archive_ok_defs insert_account_row_def split: if_splits)

lemma account_exists_map: "account_exists i d \<longleftrightarrow> i \<in> set (map acc_id (tbl_accounts d))"
  by (auto simp: account_exists_def)

lemma update_account_ok:
  assumes ok: "archive_ok d" and g: "same_account g" and up: "update_account_row i g d = Inr (x, d')"
  shows "archive_ok d'"
proof -
  have d': "d' = d\<lparr>tbl_accounts := update_where (\<lambda>x. acc_id x = i) g (tbl_accounts d)\<rparr>"
    using up by (auto simp: update_account_row_def split: option.splits)
  have ids: "map acc_id (tbl_accounts d') = map acc_id (tbl_accounts d)"
    unfolding d' using g by (simp add: map_update_where same_account_def)
  have users: "user_exists (acc_user_id a) d'" if "a \<in> set (tbl_accounts d')" for a
  proof -
    have "map acc_user_id (tbl_accounts d') = map acc_user_id (tbl_accounts d)"
      unfolding d' using g by (simp add: map_update_where same_account_def)
    with that have "acc_user_id a \<in> set (map acc_user_id (tbl_accounts d))" by (metis in_set_conv_nth length_map nth_map nth_mem)
    with ok show ?thesis by (auto simp: archive_ok_def accounts_ok_def user_exists_def d')
  qed
  have ae: "account_exists k d' = account_exists k d" for k unfolding account_exists_map ids ..
  have "tbl_folders d' = tbl_folders d" "tbl_messages d' = tbl_messages d" "tbl_locations d' = tbl_locations d"
    "tbl_attachments d' = tbl_attachments d" by (simp_all add: d')
  with ok users show ?thesis
    unfolding archive_ok_def accounts_ok_def mailbox_ok_def folders_ok_def mail_ok_def messages_ok_def locations_ok_def
      attachments_ok_def message_exists_def folder_exists_def ae ids by simp
qed

lemma delete_account_row_ok:
  assumes "archive_ok d" and "delete_account_row i d = Inr (x, d')"
  shows "archive_ok d'"
proof -
  from assms(2) have d': "d' = snd (x, d')" "delete_account_row i d = Inr (x, d')" by simp_all
  have acc: "account_exists k d' \<longleftrightarrow> account_exists k d \<and> k \<noteq> i" for k
    using assms(2) by (auto simp: delete_account_row_def Let_def account_exists_def)
  have fld: "folder_exists k d' \<longleftrightarrow> (\<exists>f \<in> set (tbl_folders d). fld_id f = k \<and> fld_account_id f \<noteq> i)" for k
    using assms(2) by (auto simp: delete_account_row_def Let_def folder_exists_def)
  have msg: "message_exists k d' \<longleftrightarrow> (\<exists>m \<in> set (tbl_messages d). msg_id m = k \<and> msg_account_id m \<noteq> i)" for k
    using assms(2) by (auto simp: delete_account_row_def Let_def message_exists_def)
  have ok: "accounts_ok d" "folders_ok d" "messages_ok d" "locations_ok d" "attachments_ok d"
    using assms(1) by (simp_all add: archive_ok_def mailbox_ok_def mail_ok_def)
  have "accounts_ok d'"
    using ok(1) assms(2) by (auto simp: accounts_ok_def user_exists_def delete_account_row_def Let_def intro: distinct_map_delete_where)
  moreover have "folders_ok d'"
    using ok(2) assms(2) unfolding folders_ok_def acc
    by (auto simp: delete_account_row_def Let_def intro: distinct_map_delete_where)
  moreover have "messages_ok d'"
    using ok(3) assms(2) unfolding messages_ok_def acc
    by (auto simp: delete_account_row_def Let_def intro: distinct_map_delete_where)
  moreover have "locations_ok d'"
    using ok(4) assms(2) unfolding locations_ok_def fld msg message_exists_def folder_exists_def
    by (auto simp: delete_account_row_def Let_def intro: distinct_map_delete_where; blast)
  moreover have "attachments_ok d'"
    using ok(5) assms(2) unfolding attachments_ok_def acc msg message_exists_def
    by (auto simp: delete_account_row_def Let_def intro: distinct_map_delete_where; blast)
  ultimately show ?thesis by (simp add: archive_ok_def mailbox_ok_def mail_ok_def)
qed

lemma keeps_account_write [keeps_intros]: "same_account g \<Longrightarrow> keeps archive_ok (account_write i g)"
proof -
  assume "same_account g"
  then have "keeps archive_ok (execute (update_account_row i (saved_account now v g)))" for now v
    by (intro keeps_execute) (rule update_account_ok, auto)
  then show ?thesis unfolding account_write_def by (intro keeps_intros)
qed

lemma keeps_account_statements [keeps_intros]:
  "keeps archive_ok (account_insert n)" "keeps archive_ok (account_update a)" "keeps archive_ok (account_delete a)"
  "keeps archive_ok (account_set_status i st err)" "keeps archive_ok (account_set_enabled i b)"
  "keeps archive_ok (owned_account u i)"
proof -
  have ins: "keeps archive_ok (execute (insert_account_row x))" for x
    by (rule keeps_execute) (rule insert_account_ok)
  have up: "keeps archive_ok (execute (update_account_row i (saved_account now v (set_account_columns x))))" for i now v x
    by (rule keeps_execute) (rule update_account_ok, auto)
  have del: "keeps archive_ok (execute (delete_account_row i))" for i
    by (rule keeps_execute) (rule delete_account_row_ok)
  show "keeps archive_ok (account_insert n)" unfolding account_insert_def by (intro keeps_intros ins)
  show "keeps archive_ok (account_update a)" unfolding account_update_def by (intro keeps_intros up)
  show "keeps archive_ok (account_delete a)" unfolding account_delete_def by (intro keeps_intros del)
  show "keeps archive_ok (account_set_status i st err)" "keeps archive_ok (account_set_enabled i b)"
    unfolding account_set_status_def account_set_enabled_def by (intro keeps_intros; simp)+
  show "keeps archive_ok (owned_account u i)"
    unfolding owned_account_def account_find_by_id_for_user_def by (intro keeps_intros)
qed

lemma off_db_blobs [off_db_intros]: "off_db (delete_account_blobs st a)" "off_db (encrypt c k a p)"
proof -
  show "off_db (delete_account_blobs st a)"
    by (auto simp: off_db_def frame_def delete_account_blobs_def Let_def io_step_def tx.truncate_def
        split: list.splits option.splits)
  show "off_db (encrypt c k a p)"
    by (auto simp: off_db_def frame_def encrypt_def generate_nonce_def bindE_def act_eval tx.truncate_def)
qed

lemma off_db_encrypt_password [off_db_intros]: "off_db (encrypt_password env a pw)"
  unfolding encrypt_password_def by (cases "ae_to_json env pw") (simp_all add: off_db_intros)

lemma off_db_best_effort [off_db_intros]: "off_db m \<Longrightarrow> off_db (best_effort m)"
  unfolding best_effort_def by (intro off_db_intros)

lemma keeps_checkE [keeps_intros]: "keeps P (checkE v)"
  unfolding checkE_def by (intro keeps_intros)

lemma keeps_account_service:
  "keeps archive_ok (create_account env p)" "keeps archive_ok (update_account env u i v input)"
  "keeps archive_ok (enable_account u i)" "keeps archive_ok (disable_account u i)"
  "keeps archive_ok (set_account_status i st err)" "keeps archive_ok (delete_account raw att u i)"
proof -
  have side: "keeps archive_ok notify_accounts_changed" "keeps archive_ok (encrypt_password env a pw)"
    "keeps archive_ok (best_effort (delete_account_blobs st a))" "keeps archive_ok (best_effort (search_delete_account a))"
    for a pw st by (rule keeps_off_db, intro off_db_intros)+
  show "keeps archive_ok (create_account env p)" unfolding create_account_def by (intro keeps_intros side)
  show "keeps archive_ok (update_account env u i v input)" unfolding update_account_def by (intro keeps_intros side)
  show "keeps archive_ok (enable_account u i)" unfolding enable_account_def by (intro keeps_intros side)
  show "keeps archive_ok (disable_account u i)" unfolding disable_account_def by (intro keeps_intros side)
  show "keeps archive_ok (set_account_status i st err)" unfolding set_account_status_def by (intro keeps_intros side)
  show "keeps archive_ok (delete_account raw att u i)" unfolding delete_account_def by (intro keeps_intros side)
qed

section \<open>What the operations do\<close>

lemma find_account_unique:
  "archive_ok d \<Longrightarrow> a \<in> set (tbl_accounts d) \<Longrightarrow> acc_id a = i \<Longrightarrow> find_account i d = Some a"
  unfolding find_account_def by (rule find_row_key_eq) (simp_all add: archive_ok_def accounts_ok_def)

lemma find_account_in: "find_account i d = Some a \<Longrightarrow> a \<in> set (tbl_accounts d) \<and> acc_id a = i"
  by (auto simp: find_account_def dest: find_row_Some)

lemma find_account_update:
  assumes "same_account g"
  shows "find_account k (d\<lparr>tbl_accounts := update_where (\<lambda>x. acc_id x = i) g (tbl_accounts d)\<rparr>)
    = (if k = i then map_option g (find_account i d) else find_account k d)"
proof -
  have "find_row (\<lambda>f. acc_id f = k) (update_where (\<lambda>x. acc_id x = i) g xs)
      = (if k = i then map_option g (find_row (\<lambda>f. acc_id f = i) xs) else find_row (\<lambda>f. acc_id f = k) xs)" for xs
    using assms by (induction xs) (auto simp: find_row_def update_where_def same_account_def)
  then show ?thesis by (simp add: find_account_def)
qed

lemma owned_account_Inr:
  assumes "owned_account u i s = (Inr a, t)"
  shows "tx_db t = tx_db s" and "a \<in> set (tbl_accounts (tx_db s))" and "acc_id a = i" and "acc_user_id a = u" and "i \<noteq> 0"
proof -
  from assms have "i \<noteq> 0 \<and> query (\<lambda>d. find_row (\<lambda>a. acc_id a = i \<and> acc_user_id a = u) (tbl_accounts d)) s = (Inr (Some a), t)"
    by (auto simp: owned_account_def account_find_by_id_for_user_def bindE_Inr_iff requireE_apply act_eval
        split: option.splits if_splits)
  with query_Inr find_row_Some
  show "tx_db t = tx_db s" "a \<in> set (tbl_accounts (tx_db s))" "acc_id a = i" "acc_user_id a = u" "i \<noteq> 0"
    by (metis (mono_tags, lifting))+
qed

lemma account_update_Inr:
  assumes run: "account_update a s = (Inr b, t)"
  shows "\<exists>x now. find_account (acc_id a) (tx_db s) = Some x \<and> acc_version x = acc_version a \<and>
    (if set_account_columns a x = x then b = x \<and> tx_db t = tx_db s
     else b = saved_account now (acc_version x + 1) (set_account_columns a) x \<and>
       tx_db t = (tx_db s)\<lparr>tbl_accounts := update_where (\<lambda>x. acc_id x = acc_id a)
         (saved_account now (acc_version x + 1) (set_account_columns a)) (tbl_accounts (tx_db s))\<rparr>)"
proof -
  from run obtain o1 s1 where q: "query (find_account (acc_id a)) s = (Inr o1, s1)"
    and rest: "(case o1 of
        None \<Rightarrow> throw (RepoError NotFound)
      | Some x \<Rightarrow>
          bindE (requireE (acc_version x = acc_version a) (RepoError Conflict)) (\<lambda>_.
          if set_account_columns a x = x then bindE db_call (\<lambda>_. ret x)
          else
            bindE utc_now (\<lambda>now.
            execute (update_account_row (acc_id a) (saved_account now (acc_version x + 1) (set_account_columns a)))))) s1 = (Inr b, t)"
    by (auto simp: account_update_def bindE_Inr_iff [of "requireE _ _"] bindE_Inr_iff [of "query _"] requireE_apply
        split: if_splits)
  from query_Inr [OF q] have o1: "o1 = find_account (acc_id a) (tx_db s)" and s1: "tx_db s1 = tx_db s" by auto
  have "find_account (acc_id a) (tx_db s) \<noteq> None" using rest unfolding o1
    by (cases "find_account (acc_id a) (tx_db s)") (simp_all add: act_eval)
  then obtain x where x: "find_account (acc_id a) (tx_db s) = Some x" by blast
  from rest o1 x have v: "acc_version x = acc_version a"
    and body: "(if set_account_columns a x = x then bindE db_call (\<lambda>_. ret x)
          else bindE utc_now (\<lambda>now.
            execute (update_account_row (acc_id a) (saved_account now (acc_version x + 1) (set_account_columns a))))) s1 = (Inr b, t)"
    by (auto simp: bindE_Inr_iff [of "requireE _ _"] requireE_apply split: if_splits)
  show ?thesis
  proof (cases "set_account_columns a x = x")
    case True
    with body have "b = x \<and> tx_db t = tx_db s1"
      using db_call_eqD by (auto simp: bindE_Inr_iff act_eval)
    with True x v s1 show ?thesis by simp
  next
    case False
    let ?f = "saved_account (tx_now s1) (acc_version x + 1) (set_account_columns a)"
    from body False have "execute (update_account_row (acc_id a) ?f) s1 = (Inr b, t)" by (simp add: utc_now_def)
    with execute_Inr s1 have "update_account_row (acc_id a) ?f (tx_db s) = Inr (b, tx_db t)" by metis
    with x False v show ?thesis by (auto simp: update_account_row_def)
  qed
qed

lemma apply_to_columns: "set_account_columns (apply_to p x) x = apply_to p x"
  "acc_id (apply_to p x) = acc_id x" "acc_version (apply_to p x) = acc_version x"
  by (auto simp: set_account_columns_def apply_to_def set_opt_def split: option.splits)

definition partial_of :: "PartialAccountInput \<Rightarrow> bytes option \<Rightarrow> PartialAccountUpdate" where
  "partial_of input credentials = \<lparr>pau_display_name = pai_display_name input, pau_credentials = credentials,
     pau_server = pai_server input, pau_username = pai_username input\<rparr>"

text \<open>The two outcomes of an update.\<close>

lemma update_account_run:
  fixes s :: "'z app_world_scheme"
  assumes run: "update_account env u i v input s = (r, t)"
  obtains (failed) e where "r = Inl e" "tx_db t = tx_db s"
  | (updated) b c x and s0 s2 s3 :: "'z app_world_scheme" where "r = Inr b" "tx_db s0 = tx_db s" "owned_account u i s0 = (Inr x, s2)"
      "acc_version x = v" "account_update (apply_to (partial_of input c) x) s2 = (Inr b, s3)" "tx_db t = tx_db s3"
proof (cases r)
  case (Inl e)
  have same: "off_db (bindE (checkE (validate_update input)) (\<lambda>_. case pai_password input of
      None \<Rightarrow> ret None | Some pw \<Rightarrow> bindE (encrypt_password env i pw) (\<lambda>c. ret (Some c))) :: ('z, bytes option) am)"
    unfolding checkE_def by (intro off_db_intros)
  obtain q s1 where pre: "(bindE (checkE (validate_update input)) (\<lambda>_. case pai_password input of
      None \<Rightarrow> ret None | Some pw \<Rightarrow> bindE (encrypt_password env i pw) (\<lambda>c. ret (Some c))) :: ('z, bytes option) am) s = (q, s1)"
    by fastforce
  from off_dbD [OF same pre] have db1: "tx_db s1 = tx_db s" by simp
  from run pre Inl have "tx_db t = tx_db s1"
    unfolding update_account_def bindE_assoc [symmetric]
    by (cases q) (auto simp: bindE_def dest!: transaction_Inl_db split: prod.splits sum.splits)
  with db1 Inl failed show thesis by simp
next
  case (Inr b)
  from run Inr obtain c s1 where pre: "(bindE (checkE (validate_update input)) (\<lambda>_. case pai_password input of
      None \<Rightarrow> ret None | Some pw \<Rightarrow> bindE (encrypt_password env i pw) (\<lambda>c. ret (Some c))) :: ('z, bytes option) am) s = (Inr c, s1)"
    and tr: "transaction (bindE (owned_account u i) (\<lambda>existing.
      bindE (requireE (acc_version existing = v) (RepoError Conflict)) (\<lambda>_.
      account_update (apply_to (partial_of input c) existing)))) s1 = (Inr b, t)"
    unfolding update_account_def bindE_assoc [symmetric] partial_of_def by (auto simp: bindE_Inr_iff)
  have "off_db (bindE (checkE (validate_update input)) (\<lambda>_. case pai_password input of
      None \<Rightarrow> ret None | Some pw \<Rightarrow> bindE (encrypt_password env i pw) (\<lambda>c. ret (Some c))) :: ('z, bytes option) am)"
    unfolding checkE_def by (intro off_db_intros)
  from off_dbD [OF this pre] have db1: "tx_db s1 = tx_db s" by simp
  from tr obtain s0 s3 :: "'z app_world_scheme" where "tx_db s0 = tx_db s1" "tx_now s0 = tx_now s1" "bindE (owned_account u i) (\<lambda>existing.
      bindE (requireE (acc_version existing = v) (RepoError Conflict)) (\<lambda>_.
      account_update (apply_to (partial_of input c) existing))) s0 = (Inr b, s3)" "tx_db t = tx_db s3"
    by (rule transaction_Inr)
  with db1 Inr updated show thesis
    by (fastforce simp: bindE_Inr_iff requireE_apply split: if_splits)
qed

definition account_after :: "AccountId \<Rightarrow> Account \<Rightarrow> Account \<Rightarrow> db \<Rightarrow> db \<Rightarrow> bool" where
  "account_after i x b d d' \<longleftrightarrow> find_account i d = Some x \<and> find_account i d' = Some b \<and>
     d' = d\<lparr>tbl_accounts := tbl_accounts d'\<rparr> \<and> (\<forall>k. k \<noteq> i \<longrightarrow> find_account k d' = find_account k d)"

text \<open>
  C13. An account update is optimistic and the owner's: it succeeds only on an account of the
  caller at the version the caller has seen, applies exactly the given fields (the password
  as credentials sealed anew), and moves the version by one when anything changed. When it fails, for whatever
  reason, no table has changed.
\<close>

theorem update_account_optimistic:
  fixes s :: "'z app_world_scheme"
  assumes "archive_ok (tx_db s)"
  shows "case update_account env u i v input s of
      (Inl _, t) \<Rightarrow> tx_db t = tx_db s
    | (Inr b, t) \<Rightarrow> \<exists>x c now. acc_user_id x = u \<and> acc_version x = v \<and> account_after i x b (tx_db s) (tx_db t) \<and>
        (let y = apply_to (partial_of input c) x in
         b = (if y = x then x else y\<lparr>acc_version := v + 1, acc_updated_at := now\<rparr>))"
proof (cases "update_account env u i v input s")
  case (Pair r t)
  from Pair show ?thesis
  proof (cases rule: update_account_run)
    case (failed e)
    with Pair show ?thesis by simp
  next
    case (updated b c x s0 s2 s3)
    note own = owned_account_Inr [OF updated(3)]
    have x: "find_account i (tx_db s) = Some x"
      using find_account_unique [OF assms] own updated(2) by simp
    let ?y = "apply_to (partial_of input c) x"
    have db2: "tx_db s2 = tx_db s" using own(1) updated(2) by simp
    note up = account_update_Inr [OF updated(5), unfolded apply_to_columns own(3) db2]
    then obtain x' now where x': "find_account i (tx_db s) = Some x'"
      and b': "if set_account_columns ?y x' = x' then b = x' \<and> tx_db s3 = tx_db s
          else b = saved_account now (acc_version x' + 1) (set_account_columns ?y) x' \<and>
            tx_db s3 = (tx_db s)\<lparr>tbl_accounts := update_where (\<lambda>x. acc_id x = i)
              (saved_account now (acc_version x' + 1) (set_account_columns ?y)) (tbl_accounts (tx_db s))\<rparr>"
      by blast
    from x x' have "x' = x" by simp
    note b = b' [unfolded this apply_to_columns(1)]
    have sa: "same_account (saved_account now (acc_version x + 1) (set_account_columns ?y))" by simp
    have "account_after i x b (tx_db s) (tx_db t) \<and>
      (\<exists>now. b = (if ?y = x then x else ?y\<lparr>acc_version := v + 1, acc_updated_at := now\<rparr>))"
    proof (cases "?y = x")
      case True
      from b [unfolded if_P [OF True]] x show ?thesis
        unfolding if_P [OF True] updated(6) account_after_def by simp
    next
      case False
      note t = b [unfolded if_not_P [OF False], THEN conjunct1] b [unfolded if_not_P [OF False], THEN conjunct2]
      have "account_after i x b (tx_db s) (tx_db t)"
        unfolding account_after_def updated(6) t(2) find_account_update [OF sa] using x t(1) by simp
      moreover have "b = ?y\<lparr>acc_version := v + 1, acc_updated_at := now\<rparr>"
        unfolding t(1) saved_account_def apply_to_columns(1) updated(4) ..
      ultimately show ?thesis unfolding if_not_P [OF False] by blast
    qed
    then show ?thesis
      using own(4) updated(4) unfolding Pair updated(1) prod.case sum.case Let_def by blast
  qed
qed

lemma account_delete_Inr:
  assumes run: "account_delete a s = (Inr b, t)"
  shows "find_account (acc_id a) (tx_db s) = Some b" and "delete_account_row (acc_id a) (tx_db s) = Inr ((), tx_db t)"
proof -
  from run obtain o1 s1 where q: "query (find_account (acc_id a)) s = (Inr o1, s1)"
    and rest: "(case o1 of
        None \<Rightarrow> throw (RepoError NotFound)
      | Some x \<Rightarrow>
          bindE (requireE (acc_version x = acc_version a) (RepoError Conflict)) (\<lambda>_.
          bindE (execute (delete_account_row (acc_id a))) (\<lambda>_. ret x))) s1 = (Inr b, t)"
    by (auto simp: account_delete_def bindE_Inr_iff [of "requireE _ _"] bindE_Inr_iff [of "query _"] requireE_apply
        split: if_splits)
  from query_Inr [OF q] have o1: "o1 = find_account (acc_id a) (tx_db s)" and s1: "tx_db s1 = tx_db s" by auto
  from rest obtain x where x: "o1 = Some x" by (cases o1) (simp_all add: act_eval)
  with rest have "bindE (requireE (acc_version x = acc_version a) (RepoError Conflict)) (\<lambda>_.
      bindE (execute (delete_account_row (acc_id a))) (\<lambda>_. ret x)) s1 = (Inr b, t)" by simp
  then have "bindE (execute (delete_account_row (acc_id a))) (\<lambda>_. ret x) s1 = (Inr b, t)"
    by (cases "acc_version x = acc_version a") (simp_all add: act_eval)
  then obtain y where "execute (delete_account_row (acc_id a)) s1 = (Inr y, t)" "x = b"
    by (cases "execute (delete_account_row (acc_id a)) s1") (auto simp: bindE_def act_eval split: sum.splits)
  with execute_Inr s1 o1 x show "find_account (acc_id a) (tx_db s) = Some b"
    "delete_account_row (acc_id a) (tx_db s) = Inr ((), tx_db t)" by fastforce+
qed

text \<open>The best-effort clean-up stays in the account's own trees and documents.\<close>

definition cleaned :: "path list \<Rightarrow> AccountId \<Rightarrow> 'z app_world_scheme \<Rightarrow> 'z app_world_scheme \<Rightarrow> bool" where
  "cleaned roots i s t \<longleftrightarrow> tx_db t = tx_db s \<and>
     (\<forall>p. (\<forall>r \<in> set roots. \<not> under (account_root r i) p) \<longrightarrow> w_files t p = w_files s p)"

lemma cleaned_blobs:
  "best_effort (delete_account_blobs st i) s = (r, t) \<Longrightarrow> r = Inr () \<and> cleaned [st_root st] i s t"
  by (auto simp: best_effort_def handleE_def delete_account_blobs_def Let_def io_step_def cleaned_def act_eval
      split: prod.splits sum.splits list.splits option.splits)

lemma frame_search: "frame (\<lambda>s. (tx_db s, w_files s)) (search_delete_account i)"
proof -
  have call: "frame (\<lambda>s. (tx_db s, w_files s)) (ix_call f)" for f
    by (auto simp: frame_def ix_call_def split: list.splits option.splits)
  show ?thesis
    unfolding search_delete_account_def lock_writer_def queue_op_def commit_writer_def
    by (intro frame_intros call frame_modifyE) simp_all
qed

lemma cleaned_search:
  "best_effort (search_delete_account i) s = (r, t) \<Longrightarrow> r = Inr () \<and> cleaned [] i s t"
  by (cases "search_delete_account i s")
    (auto simp: best_effort_def handleE_def cleaned_def act_eval dest!: frameD [OF frame_search] split: sum.splits)

lemma cleaned_trans: "cleaned rs i s t \<Longrightarrow> cleaned qs i t u \<Longrightarrow> cleaned (rs @ qs) i s u"
  by (auto simp: cleaned_def)

text \<open>Whether the \<open>k\<close>-th call into the file system, or into the search engine, is to fail.\<close>

definition io_fails :: "nat \<Rightarrow> 'z world_scheme \<Rightarrow> bool" where
  "io_fails k s \<longleftrightarrow> k < length (w_io s) \<and> w_io s ! k \<noteq> None"

definition ix_fails :: "nat \<Rightarrow> 'z app_world_scheme \<Rightarrow> bool" where
  "ix_fails k s \<longleftrightarrow> k < length (ix_faults s) \<and> ix_faults s ! k \<noteq> None"

text \<open>The state of the index and the event count.\<close>

definition index_part where
  "index_part s = (ix_docs s, ix_ops s, ix_faults s, ev_accounts_changed s)"

lemma blobs_deleted:
  fixes s :: "'z app_world_scheme"
  assumes "best_effort (delete_account_blobs st i) s = (r, t)"
  shows "(io_fails 0 s \<or> (\<forall>p. under (account_root (st_root st) i) p \<longrightarrow> w_files t p = None)) \<and>
    (\<forall>p. w_files s p = None \<longrightarrow> w_files t p = None) \<and> io_fails k t = io_fails (Suc k) s \<and> index_part t = index_part s"
proof (cases "w_io s")
  case Nil
  with assms show ?thesis
    by (auto simp: best_effort_def handleE_def delete_account_blobs_def Let_def io_step_def act_eval io_fails_def index_part_def)
next
  case (Cons f fs)
  with assms show ?thesis
    by (cases f) (auto simp: best_effort_def handleE_def delete_account_blobs_def Let_def io_step_def act_eval io_fails_def
        index_part_def)
qed

lemma ix_call_eq:
  "ix_call f s = (if ix_fails 0 s then (Inl (Infrastructure (f (the (hd (ix_faults s))))), s\<lparr>ix_faults := tl (ix_faults s)\<rparr>)
     else (Inr (), s\<lparr>ix_faults := tl (ix_faults s)\<rparr>))"
  by (cases "ix_faults s"; cases "hd (ix_faults s)") (auto simp: ix_call_def ix_fails_def)

lemma search_deleted:
  fixes s :: "'z app_world_scheme"
  assumes "best_effort (search_delete_account i) s = (r, t)"
  shows "w_files t = w_files s \<and> ev_accounts_changed t = ev_accounts_changed s \<and>
    (if ix_fails 0 s \<or> ix_fails 1 s
     then ix_docs t = ix_docs s \<and> ix_ops t \<in> {ix_ops s, ix_ops s @ [DeleteAccountDocs i]}
     else ix_docs t = filter (\<lambda>d. sd_account_id d \<noteq> i) (foldl apply_op (ix_docs s) (ix_ops s)) \<and> ix_ops t = [])"
proof -
  have next_fault: "ix_fails 0 (s\<lparr>ix_faults := tl (ix_faults s), ix_ops := x\<rparr>) = ix_fails 1 s" for x
    by (cases "ix_faults s") (auto simp: ix_fails_def)
  show ?thesis
    using assms next_fault
    by (auto simp: best_effort_def handleE_def search_delete_account_def lock_writer_def commit_writer_def queue_op_def
        bindE_def ix_call_eq act_eval delete_where_def split: if_splits)
qed

text \<open>
  \<open>emptied\<close>: each of the three clean-ups that meets no failure of its own has removed all it is
  there to remove, whatever the others met: the account's files in each store, and its documents with the
  commit of what was queued; one change event was sent.
\<close>

definition emptied :: "storage \<Rightarrow> storage \<Rightarrow> AccountId \<Rightarrow> 'z app_world_scheme \<Rightarrow> 'z app_world_scheme \<Rightarrow> bool" where
  "emptied raw att i s t \<longleftrightarrow>
     (io_fails 0 s \<or> (\<forall>p. under (account_root (st_root raw) i) p \<longrightarrow> w_files t p = None)) \<and>
     (io_fails 1 s \<or> (\<forall>p. under (account_root (st_root att) i) p \<longrightarrow> w_files t p = None)) \<and>
     (if ix_fails 0 s \<or> ix_fails 1 s
      then ix_docs t = ix_docs s \<and> ix_ops t \<in> {ix_ops s, ix_ops s @ [DeleteAccountDocs i]}
      else ix_docs t = filter (\<lambda>d. sd_account_id d \<noteq> i) (foldl apply_op (ix_docs s) (ix_ops s)) \<and> ix_ops t = []) \<and>
     ev_accounts_changed t = Suc (ev_accounts_changed s)"

lemma delete_account_run:
  fixes s :: "'z app_world_scheme"
  assumes run: "delete_account raw att u i s = (r, t)"
  obtains (failed) e where "r = Inl e" "transaction (bindE (owned_account u i) account_delete) s = (Inl e, t)"
  | (deleted) b and s1 :: "'z app_world_scheme" where "r = Inr ()"
      "transaction (bindE (owned_account u i) account_delete) s = (Inr b, s1)"
      "cleaned [st_root raw, st_root att] (acc_id b) s1 t" "emptied raw att (acc_id b) s1 t"
proof -
  obtain q s1 where tr: "transaction (bindE (owned_account u i) account_delete) s = (q, s1)"
    by (cases "transaction (bindE (owned_account u i) account_delete) s")
  show thesis
  proof (cases q)
    case (Inl e)
    with run tr have "r = Inl e" "t = s1" by (simp_all add: delete_account_def bindE_def)
    with tr Inl show thesis by (intro failed) simp_all
  next
    case (Inr b)
    obtain r2 s2 where b2: "best_effort (delete_account_blobs raw (acc_id b)) s1 = (r2, s2)" by fastforce
    obtain r3 s3 where b3: "best_effort (delete_account_blobs att (acc_id b)) s2 = (r3, s3)" by fastforce
    obtain r4 s4 where b4: "best_effort (search_delete_account (acc_id b)) s3 = (r4, s4)" by fastforce
    note c2 = cleaned_blobs [OF b2] and c3 = cleaned_blobs [OF b3] and c4 = cleaned_search [OF b4]
    have "cleaned ([st_root raw] @ [st_root att] @ []) (acc_id b) s1 s4"
      using cleaned_trans [OF c2 [THEN conjunct2] cleaned_trans [OF c3 [THEN conjunct2] c4 [THEN conjunct2]]] .
    moreover have fin: "r = Inr () \<and> t = s4\<lparr>ev_accounts_changed := Suc (ev_accounts_changed s4)\<rparr>"
      using run tr Inr b2 b3 b4 c2 c3 c4 by (simp add: delete_account_def bindE_def notify_accounts_changed_def)
    moreover have "emptied raw att (acc_id b) s1 s4'" if "s4' = s4\<lparr>ev_accounts_changed := Suc (ev_accounts_changed s4)\<rparr>" for s4'
    proof -
      note d2 = blobs_deleted [OF b2, of 0] and d3 = blobs_deleted [OF b3, of 0] and d4 = search_deleted [OF b4]
      have "index_part s3 = index_part s1" using d2 d3 by simp
      then have same: "ix_fails k s3 = ix_fails k s1" "ix_docs s3 = ix_docs s1" "ix_ops s3 = ix_ops s1"
        "ev_accounts_changed s3 = ev_accounts_changed s1" for k
        by (simp_all add: index_part_def ix_fails_def)
      show ?thesis using d2 d3 d4 unfolding that emptied_def same by auto
    qed
    ultimately show thesis using deleted [of b s1] tr Inr by (simp add: cleaned_def)
  qed
qed

definition account_gone :: "AccountId \<Rightarrow> db \<Rightarrow> bool" where
  "account_gone i d \<longleftrightarrow> \<not> account_exists i d \<and> (\<forall>f \<in> set (tbl_folders d). fld_account_id f \<noteq> i) \<and>
     (\<forall>m \<in> set (tbl_messages d). msg_account_id m \<noteq> i) \<and> (\<forall>a \<in> set (tbl_attachments d). att_account_id a \<noteq> i)"

text \<open>
  The rows of the other accounts: accounts, folders and messages by their account, locations
  by their message and folder, attachments by their account and message.
\<close>

definition others_kept :: "AccountId \<Rightarrow> db \<Rightarrow> db \<Rightarrow> bool" where
  "others_kept i d d' \<longleftrightarrow> d' = d
     \<lparr>tbl_accounts := filter (\<lambda>a. acc_id a \<noteq> i) (tbl_accounts d),
      tbl_folders := filter (\<lambda>f. fld_account_id f \<noteq> i) (tbl_folders d),
      tbl_messages := filter (\<lambda>m. msg_account_id m \<noteq> i) (tbl_messages d),
      tbl_locations := filter (\<lambda>l. message_exists (loc_message_id l) d' \<and> folder_exists (loc_folder_id l) d') (tbl_locations d),
      tbl_attachments := filter (\<lambda>a. att_account_id a \<noteq> i \<and> message_exists (att_message_id a) d') (tbl_attachments d)\<rparr>"

lemma delete_row_effect:
  assumes ok: "archive_ok d" and run: "delete_account_row i d = Inr (x, d')"
  shows "account_gone i d'" and "others_kept i d d'"
proof -
  have mid: "m = m'" if "m \<in> set (tbl_messages d)" "m' \<in> set (tbl_messages d)" "msg_id m = msg_id m'" for m m'
    using ok that by (auto simp: archive_ok_def mailbox_ok_def mail_ok_def messages_ok_def distinct_map inj_on_def)
  have fid: "f = f'" if "f \<in> set (tbl_folders d)" "f' \<in> set (tbl_folders d)" "fld_id f = fld_id f'" for f f'
    using ok that by (auto simp: archive_ok_def mailbox_ok_def folders_ok_def distinct_map inj_on_def)
  show "account_gone i d'"
    using run by (auto simp: account_gone_def account_exists_def delete_account_row_def Let_def)
  have refs: "\<forall>l \<in> set (tbl_locations d). message_exists (loc_message_id l) d \<and> folder_exists (loc_folder_id l) d"
    "\<forall>a \<in> set (tbl_attachments d). message_exists (att_message_id a) d"
    using ok by (auto simp: archive_ok_def mailbox_ok_def mail_ok_def locations_ok_def attachments_ok_def)
  have msgs: "tbl_messages d' = filter (\<lambda>m. msg_account_id m \<noteq> i) (tbl_messages d)"
    and flds: "tbl_folders d' = filter (\<lambda>f. fld_account_id f \<noteq> i) (tbl_folders d)"
    using run by (auto simp: delete_account_row_def Let_def delete_where_def)
  have m: "message_exists k d \<Longrightarrow>
      message_exists k d' \<longleftrightarrow> \<not> (\<exists>m \<in> set (tbl_messages d). msg_id m = k \<and> msg_account_id m = i)" for k
    using mid unfolding message_exists_def msgs by auto
  have f: "folder_exists k d \<Longrightarrow>
      folder_exists k d' \<longleftrightarrow> \<not> (\<exists>f \<in> set (tbl_folders d). fld_id f = k \<and> fld_account_id f = i)" for k
    using fid unfolding folder_exists_def flds by auto
  have d': "d' = d\<lparr>tbl_accounts := filter (\<lambda>a. acc_id a \<noteq> i) (tbl_accounts d), tbl_folders := tbl_folders d',
      tbl_messages := tbl_messages d', tbl_locations := tbl_locations d', tbl_attachments := tbl_attachments d'\<rparr>"
    and locs: "tbl_locations d' = filter (\<lambda>l. \<not> (\<exists>m \<in> set (tbl_messages d). msg_id m = loc_message_id l \<and> msg_account_id m = i) \<and>
      \<not> (\<exists>f \<in> set (tbl_folders d). fld_id f = loc_folder_id l \<and> fld_account_id f = i)) (tbl_locations d)"
    and atts: "tbl_attachments d' = filter (\<lambda>a. \<not> (\<exists>m \<in> set (tbl_messages d). msg_id m = att_message_id a \<and> msg_account_id m = i) \<and>
      att_account_id a \<noteq> i) (tbl_attachments d)"
    using run by (auto simp: delete_account_row_def Let_def delete_where_def)
  have "tbl_locations d' = filter (\<lambda>l. message_exists (loc_message_id l) d' \<and> folder_exists (loc_folder_id l) d') (tbl_locations d)"
    unfolding locs by (rule filter_cong [OF refl]) (use refs(1) m f in blast)
  moreover have "tbl_attachments d' = filter (\<lambda>a. att_account_id a \<noteq> i \<and> message_exists (att_message_id a) d') (tbl_attachments d)"
    unfolding atts by (rule filter_cong [OF refl]) (use refs(2) m in blast)
  ultimately show "others_kept i d d'"
    unfolding others_kept_def by (subst d') (simp only: msgs flds)
qed

lemma more_eq_app: "world.more t = world.more s \<Longrightarrow> index_part t = index_part s" for s t :: "'z app_world_scheme"
  unfolding index_part_def by (metis app_world.select_convs(1,2,3,5) app_world.surjective world.select_convs(6))

lemma delete_tx_files:
  fixes s :: "'z app_world_scheme"
  assumes "transaction (bindE (owned_account u i) account_delete) s = (q, t)"
  shows "w_files t = w_files s" and "w_io t = w_io s" and "index_part t = index_part s"
proof -
  have "db_only (transaction (bindE (owned_account u i) account_delete) :: ('z app_world_ext world_ext, Account) dbm)"
    unfolding owned_account_def account_find_by_id_for_user_def account_delete_def by (intro db_only_intros)
  note same = db_only_world [where m = "transaction (bindE (owned_account u i) account_delete)" and s = s, OF this assms]
  from same(2,3) show "w_files t = w_files s" "w_io t = w_io s" by simp_all
  from more_eq_app [OF same(6)] show "index_part t = index_part s" .
qed

lemma emptied_from:
  assumes "emptied raw att i s1 t" and "w_io s1 = w_io s" and "index_part s1 = index_part s"
  shows "emptied raw att i s t"
proof -
  have "io_fails k s1 = io_fails k s" "ix_fails k s1 = ix_fails k s" "ix_docs s1 = ix_docs s" "ix_ops s1 = ix_ops s"
    "ev_accounts_changed s1 = ev_accounts_changed s" for k
    using assms(2,3) by (simp_all add: io_fails_def ix_fails_def index_part_def)
  with assms(1) show ?thesis unfolding emptied_def by (simp cong: if_cong)
qed

text \<open>
  C14. Deleting an account needs its owner, and then takes exactly that account. Its row, its
  folders, messages and attachments are gone, and exactly the locations and attachments that would
  name a row that is gone; every other row of every table is as it was. After the commit each clean-up is
  tried whatever the others met: the raw blobs, the attachment blobs and the documents of the account are all
  gone unless that very step failed; other accounts' files and documents stay; and one change event
  is sent. A failed step leaves the rest undisturbed and does not fail the deletion. A deletion
  that is refused has changed neither tables nor files nor documents, and sends no event.
\<close>

theorem delete_account_takes_only_it:
  fixes s :: "'z app_world_scheme"
  assumes "archive_ok (tx_db s)"
  shows "case delete_account raw att u i s of
      (Inl _, t) \<Rightarrow> tx_db t = tx_db s \<and> w_files t = w_files s \<and> index_part t = index_part s
    | (Inr _, t) \<Rightarrow> user_owns u i (tx_db s) \<and> archive_ok (tx_db t) \<and> account_gone i (tx_db t) \<and>
        others_kept i (tx_db s) (tx_db t) \<and>
        (\<forall>p. w_files t p = w_files s p \<or> under (account_root (st_root raw) i) p \<or> under (account_root (st_root att) i) p) \<and>
        emptied raw att i s t"
proof (cases "delete_account raw att u i s")
  case (Pair r t)
  from Pair show ?thesis
  proof (cases rule: delete_account_run)
    case (failed e)
    with Pair transaction_Inl_db [OF failed(2)] delete_tx_files [OF failed(2)] show ?thesis by simp
  next
    case (deleted b s1)
    from deleted(2) obtain s0 s2 :: "'z app_world_scheme" where in_tx: "tx_db s0 = tx_db s" "tx_now s0 = tx_now s"
        "bindE (owned_account u i) account_delete s0 = (Inr b, s2)" "tx_db s1 = tx_db s2"
      by (rule transaction_Inr)
    from in_tx(3) obtain a s3 where own: "owned_account u i s0 = (Inr a, s3)" and del: "account_delete a s3 = (Inr b, s2)"
      by (auto simp: bindE_Inr_iff)
    note o = owned_account_Inr [OF own] and d = account_delete_Inr [OF del]
    have b: "acc_id b = i" using find_account_in [OF d(1)] o(3) by simp
    have row: "delete_account_row i (tx_db s) = Inr ((), tx_db t)"
      using d(2) o(1,3) in_tx(1,4) deleted(3) by (simp add: cleaned_def)
    have "user_owns u i (tx_db s)" using o in_tx(1) by (auto simp: user_owns_def)
    moreover have "w_files t p = w_files s p \<or> under (account_root (st_root raw) i) p \<or> under (account_root (st_root att) i) p"
      for p using deleted(3) delete_tx_files(1) [OF deleted(2)] b by (auto simp: cleaned_def)
    moreover have "emptied raw att i s t" using emptied_from [OF deleted(4)] delete_tx_files [OF deleted(2)] b by simp
    ultimately show ?thesis
      using Pair deleted(1) delete_row_effect [OF assms row] delete_account_row_ok [OF assms row] by auto
  qed
qed

section \<open>Witnesses\<close>

definition sample_app :: app_world where
  "sample_app = world.extend sample_pipeline
     \<lparr>ix_docs = [], ix_ops = [], ix_faults = [], ix_version = Some 1, ev_accounts_changed = 0\<rparr>"

lemma sample_app_parts:
  "tx_db sample_app = tx_db sample_pipeline" "tx_faults sample_app = []" "w_io sample_app = []" "ix_faults sample_app = []"
  by (simp_all add: sample_app_def sample_pipeline_def sample_world_def sample_tx_def world.extend_def tx.extend_def)

lemma sample_app_db:
  "tbl_accounts (tx_db sample_app) = [sample_account]" "tbl_users (tx_db sample_app) = [sample_user]"
  "tbl_folders (tx_db sample_app) = [sample_folder]"
  by (simp_all add: sample_app_parts sample_pipeline_def)

lemma sample_archive_ok: "archive_ok (tx_db sample_app)"
  using sample_tables_ok(1)
  by (auto simp: archive_ok_def accounts_ok_def mailbox_ok_def folders_ok_def account_exists_def sample_app_db
      sample_account_def sample_folder_def user_exists_def sample_user_def) (simp_all add: sample_app_parts)

definition sample_account_env :: account_env where
  "sample_account_env = \<lparr>ae_crypto = toy_crypto, ae_key = [], ae_to_json = (\<lambda>p. Inr (map (\<lambda>c. of_nat (of_char c)) p)),
     ae_from_json = (\<lambda>b. Inr (map (\<lambda>x. char_of (unat x)) b))\<rparr>"

definition sample_rename :: PartialAccountInput where
  "sample_rename = \<lparr>pai_display_name = Some ''Home'', pai_password = None, pai_server = None, pai_username = None\<rparr>"

lemma sample_rename_run:
  "\<exists>b t. update_account sample_account_env 1 7 1 sample_rename sample_app = (Inr b, t) \<and> acc_display_name b = ''Home''"
  by (simp add: update_account_def checkE_def validate_update_def bad_opt_def sample_rename_def trim_def is_whitespace_def
      transaction_def bindE_def owned_account_def account_find_by_id_for_user_def account_update_def requireE_apply
      stmt_simps act_eval sample_app_parts(2) sample_app_db find_row_def find_account_def sample_account_def utc_now_def
      apply_to_def set_opt_def set_account_columns_def update_account_row_def saved_account_def Let_def)

theorem update_account_optimistic_witness:
  "\<exists>b t. update_account sample_account_env 1 7 1 sample_rename sample_app = (Inr b, t) \<and>
     acc_display_name b = ''Home'' \<and> find_account 7 (tx_db t) = Some b"
proof -
  obtain b t where run: "update_account sample_account_env 1 7 1 sample_rename sample_app = (Inr b, t)" "acc_display_name b = ''Home''"
    using sample_rename_run by blast
  with update_account_optimistic [OF sample_archive_ok, where env = sample_account_env and u = 1 and i = 7 and v = 1
      and input = sample_rename]
  show ?thesis by (auto simp: account_after_def)
qed

lemma sample_delete_run: "\<exists>t. delete_account sample_raw sample_att 1 7 sample_app = (Inr (), t)"
  by (simp add: delete_account_def transaction_def bindE_def owned_account_def account_find_by_id_for_user_def
      account_delete_def requireE_apply stmt_simps act_eval sample_app_parts(2) sample_app_db find_row_def
      find_account_def sample_account_def delete_account_row_def Let_def best_effort_def handleE_def
      delete_account_blobs_def io_step_def notify_accounts_changed_def split: prod.splits sum.splits list.splits option.splits)

theorem delete_account_takes_only_it_witness:
  "\<exists>t. delete_account sample_raw sample_att 1 7 sample_app = (Inr (), t) \<and> account_gone 7 (tx_db t) \<and>
     tbl_folders (tx_db t) = [] \<and> ix_docs t = [] \<and> ev_accounts_changed t = 1"
proof -
  obtain t where run: "delete_account sample_raw sample_att 1 7 sample_app = (Inr (), t)"
    using sample_delete_run by blast
  with delete_account_takes_only_it [OF sample_archive_ok, where raw = sample_raw and att = sample_att and u = 1 and i = 7]
  have gone: "account_gone 7 (tx_db t)" and kept: "others_kept 7 (tx_db sample_app) (tx_db t)"
    and empty: "emptied sample_raw sample_att 7 sample_app t" by auto
  from kept have "tbl_folders (tx_db t) = filter (\<lambda>f. fld_account_id f \<noteq> 7) (tbl_folders (tx_db sample_app))"
    unfolding others_kept_def by (metis (no_types, lifting) db.ext_inject db.surjective db.update_convs(4-8))
  then have "tbl_folders (tx_db t) = []" by (simp add: sample_app_db sample_folder_def)
  moreover have "\<not> ix_fails k sample_app" "ix_docs sample_app = []" "ix_ops sample_app = []" "ev_accounts_changed sample_app = 0" for k
    by (simp_all add: ix_fails_def sample_app_parts) (simp_all add: sample_app_def world.extend_def)
  with empty have "ix_docs t = []" "ev_accounts_changed t = 1" by (simp_all add: emptied_def)
  ultimately show ?thesis using run gone by blast
qed

end
