(* ===== verification/ImapAccounts.thy ===== *)
theory ImapAccounts
  imports ImapSync AccountProps "HOL-Library.AList"
begin

text \<open>
  The life of the per-account sync tasks: the adapter that tracks them
  (\<open>crates/imap/src/adapter.rs\<close>), the service that drives it from the accounts table
  (\<open>crates/core/src/imap/service.rs\<close>) and the subsystem around both
  (\<open>crates/imap/src/subsystem.rs\<close>).

  What the tasks report is the environment's (their own behaviour is in the theory of the
  sync machinery): the n-th status that is read of a tracked account is \<open>pw_live n\<close>.
  The service runs accounts one after the other where the program runs up to four at once.
\<close>

section \<open>Remote folders\<close>

fun special_use_of_attribute :: "string list \<Rightarrow> SpecialUse option" where
  "special_use_of_attribute [] = None"
| "special_use_of_attribute (x # xs) =
    (if x = ''sent'' then Some Sent
     else if x = ''drafts'' then Some Drafts
     else if x = ''trash'' then Some Trash
     else if x = ''archive'' then Some Archive
     else if x = ''junk'' then Some Junk
     else if x = ''all'' then Some AllMail
     else special_use_of_attribute xs)"

definition special_use_from_attributes :: "string \<Rightarrow> string list \<Rightarrow> SpecialUse option" where
  "special_use_from_attributes path attrs =
    (if eq_ignore_ascii_case path ''inbox'' then Some Inbox else special_use_of_attribute attrs)"

text \<open>An attribute the library does not know comes with its \<open>Debug\<close> text.\<close>

datatype name_attribute =
    AttrNoInferiors | AttrNoSelect | AttrMarked | AttrUnmarked | AttrAll | AttrArchive | AttrDrafts
  | AttrFlagged | AttrJunk | AttrSent | AttrTrash | AttrExtension string | AttrOther string

definition bare_attribute :: "string \<Rightarrow> string" where
  "bare_attribute s = to_ascii_lowercase (dropWhile (\<lambda>c. c = CHR 0x5C) s)"

fun normalize_attribute :: "name_attribute \<Rightarrow> string" where
  "normalize_attribute AttrNoInferiors = ''noinferiors''"
| "normalize_attribute AttrNoSelect = ''noselect''"
| "normalize_attribute AttrMarked = ''marked''"
| "normalize_attribute AttrUnmarked = ''unmarked''"
| "normalize_attribute AttrAll = ''all''"
| "normalize_attribute AttrArchive = ''archive''"
| "normalize_attribute AttrDrafts = ''drafts''"
| "normalize_attribute AttrFlagged = ''flagged''"
| "normalize_attribute AttrJunk = ''junk''"
| "normalize_attribute AttrSent = ''sent''"
| "normalize_attribute AttrTrash = ''trash''"
| "normalize_attribute (AttrExtension n) = bare_attribute n"
| "normalize_attribute (AttrOther d) = bare_attribute d"

record list_name =
  ln_name :: string
  ln_attributes :: "name_attribute list"
  ln_delimiter :: "string option"

record RemoteFolder =
  rf_path :: string
  rf_special_use :: "SpecialUse option"
  rf_has_children :: bool
  rf_no_select :: bool
  rf_delimiter :: "string option"

definition remote_folder_from_name :: "list_name \<Rightarrow> RemoteFolder" where
  "remote_folder_from_name n =
    (let attrs = map normalize_attribute (ln_attributes n)
     in \<lparr>rf_path = ln_name n, rf_special_use = special_use_from_attributes (ln_name n) attrs,
         rf_has_children = (''haschildren'' \<in> set attrs), rf_no_select = (''noselect'' \<in> set attrs),
         rf_delimiter = ln_delimiter n\<rparr>)"

definition test_connection :: "imap_env \<Rightarrow> ImapServerConfig \<Rightarrow> ('z, unit) sm" where
  "test_connection env server = bindE (connect_and_login env server) (\<lambda>_. ret ())"

text \<open>The entries of one LIST answer, up to the first that is an error.\<close>

fun remote_folders :: "(string + list_name) list \<Rightarrow> Error + RemoteFolder list" where
  "remote_folders [] = Inr []"
| "remote_folders (Inl e # items) = Inl (Infrastructure (''IMAP LIST item error: '' @ e))"
| "remote_folders (Inr n # items) =
    (case remote_folders items of Inl e \<Rightarrow> Inl e | Inr fs \<Rightarrow> Inr (remote_folder_from_name n # fs))"

definition list_remote_folders ::
  "imap_env \<Rightarrow> (nat \<Rightarrow> string + (string + list_name) list) \<Rightarrow> ImapServerConfig \<Rightarrow> ('z, RemoteFolder list) sm"
where
  "list_remote_folders env list_answer server =
    bindE (connect_and_login env server) (\<lambda>_.
    bindE (net list_answer) (\<lambda>answer.
      case answer of
        Inl e \<Rightarrow> throw (Infrastructure (''IMAP LIST failed: '' @ e))
      | Inr items \<Rightarrow> (case remote_folders items of Inl e \<Rightarrow> throw e | Inr fs \<Rightarrow> ret fs)))"

section \<open>The adapter\<close>

record ImapConnectionParams =
  icp_server :: ImapServerConfig
  icp_username :: string
  icp_password :: string
  icp_folders :: "FolderConfig list"

text \<open>The two tasks of an account: the folder the IDLE task owns, and the folders polled.\<close>

record AccountHandle =
  ah_params :: ImapConnectionParams
  ah_idle :: "FolderConfig option"
  ah_poll :: "FolderConfig list"

definition partition_folders :: "FolderConfig list \<Rightarrow> FolderConfig option \<times> FolderConfig list" where
  "partition_folders folders =
    (let idle = filter fc_idle_enabled folders; rest = filter (\<lambda>f. \<not> fc_idle_enabled f) folders
     in case idle of [] \<Rightarrow> (None, rest) | f # surplus \<Rightarrow> (Some f, rest @ surplus))"

definition account_handle :: "ImapConnectionParams \<Rightarrow> AccountHandle" where
  "account_handle p =
    (case partition_folders (icp_folders p) of (idle, poll) \<Rightarrow> \<lparr>ah_params = p, ah_idle = idle, ah_poll = poll\<rparr>)"

record port_world = app_world +
  pw_tracked :: "(AccountId \<times> AccountHandle) list"
  pw_live :: "nat \<Rightarrow> AccountId \<Rightarrow> SyncStatus"
  pw_reads :: nat

type_synonym ('z, 'a) pm = "('z port_world_scheme, Error, 'a) action"

definition adapter_stop :: "AccountId \<Rightarrow> ('z, unit) pm" where
  "adapter_stop i = modifyE (\<lambda>s. s\<lparr>pw_tracked := AList.delete i (pw_tracked s)\<rparr>)"

definition adapter_start :: "AccountId \<Rightarrow> ImapConnectionParams \<Rightarrow> ('z, unit) pm" where
  "adapter_start i params =
    bindE (best_effort (adapter_stop i)) (\<lambda>_.
    modifyE (\<lambda>s. s\<lparr>pw_tracked := AList.update i (account_handle params) (pw_tracked s)\<rparr>))"

definition adapter_status :: "AccountId \<Rightarrow> ('z, SyncStatus) pm" where
  "adapter_status i s =
    (case map_of (pw_tracked s) i of
       None \<Rightarrow> (Inr not_running_status, s)
     | Some _ \<Rightarrow> (Inr (pw_live s (pw_reads s) i), s\<lparr>pw_reads := Suc (pw_reads s)\<rparr>))"

definition adapter_tracked :: "('z, AccountId list) pm" where
  "adapter_tracked = getsE (\<lambda>s. map fst (pw_tracked s))"

text \<open>The port: what the service knows of the adapter.\<close>

record 's imap_port =
  port_start :: "AccountId \<Rightarrow> ImapConnectionParams \<Rightarrow> ('s, Error, unit) action"
  port_stop :: "AccountId \<Rightarrow> ('s, Error, unit) action"
  port_status :: "AccountId \<Rightarrow> ('s, Error, SyncStatus) action"
  port_tracked :: "('s, Error, AccountId list) action"

definition imap_adapter :: "'z port_world_scheme imap_port" where
  "imap_adapter = \<lparr>port_start = adapter_start, port_stop = adapter_stop, port_status = adapter_status,
     port_tracked = adapter_tracked\<rparr>"

section \<open>The service\<close>

definition load_enabled_account :: "AccountId \<Rightarrow> ('z, Account) dbm" where
  "load_enabled_account i =
    bindE list_enabled_accounts (\<lambda>accounts.
      case find_row (\<lambda>a. acc_id a = i) accounts of
        None \<Rightarrow> throw (Validation (''account '' @ show_nat (unat i) @ '' is not enabled or does not exist''))
      | Some a \<Rightarrow> ret a)"

definition folder_config :: "Folder \<Rightarrow> FolderConfig" where
  "folder_config f = \<lparr>fc_id = fld_id f, fc_path = fld_path f, fc_idle_enabled = fld_idle_enabled f,
     fc_uidvalidity = fld_uidvalidity f, fc_last_uid = fld_last_uid f\<rparr>"

definition start_one :: "account_env \<Rightarrow> 'z app_world_scheme imap_port \<Rightarrow> Account \<Rightarrow> ('z, unit) am" where
  "start_one env port account =
    bindE (list_enabled_folders (acc_id account)) (\<lambda>folders.
      case decrypt (ae_crypto env) (ae_key env) (acc_id account) (acc_credentials account) of
        Inl e \<Rightarrow> throw e
      | Inr plaintext \<Rightarrow>
          (case ae_from_json env plaintext of
             Inl e \<Rightarrow> throw (CredentialsDeserialize e)
           | Inr password \<Rightarrow>
               handleE (port_start port (acc_id account)
                   \<lparr>icp_server = acc_server account, icp_username = acc_username account, icp_password = password,
                    icp_folders = map folder_config folders\<rparr>)
                 (\<lambda>_. set_account_status (acc_id account) Syncing None)
                 (\<lambda>e. bindE (best_effort (set_account_status (acc_id account) ErrorStatus (Some (error_text e))))
                   (\<lambda>_. throw e))))"

definition start_account :: "account_env \<Rightarrow> 'z app_world_scheme imap_port \<Rightarrow> AccountId \<Rightarrow> ('z, unit) am" where
  "start_account env port i = bindE (load_enabled_account i) (start_one env port)"

definition stop_account :: "'z app_world_scheme imap_port \<Rightarrow> AccountId \<Rightarrow> ('z, unit) am" where
  "stop_account port i = port_stop port i"

definition account_sync_status :: "'z app_world_scheme imap_port \<Rightarrow> AccountId \<Rightarrow> ('z, SyncStatus) am" where
  "account_sync_status port i = port_status port i"

definition start_all_enabled :: "account_env \<Rightarrow> 'z app_world_scheme imap_port \<Rightarrow> ('z, unit) am" where
  "start_all_enabled env port =
    bindE list_enabled_accounts (for_each (\<lambda>a. best_effort (start_one env port a)))"

text \<open>At shutdown: what is enabled and what is tracked, even when the database is gone.\<close>

definition stop_all :: "'z app_world_scheme imap_port \<Rightarrow> ('z, unit) am" where
  "stop_all port =
    bindE (handleE list_enabled_accounts (\<lambda>accounts. ret (map acc_id accounts)) (\<lambda>_. ret [])) (\<lambda>enabled.
    bindE (port_tracked port) (\<lambda>tracked.
    for_each (\<lambda>i. best_effort (port_stop port i)) (remdups (enabled @ tracked))))"

fun desired_status :: "SyncState \<Rightarrow> AccountStatus option" where
  "desired_status SyncError = Some ErrorStatus"
| "desired_status SyncIdle = Some IdleStatus"
| "desired_status SyncSyncing = Some Syncing"
| "desired_status Connecting = Some Syncing"
| "desired_status NotRunning = None"

definition reconcile_one :: "'z app_world_scheme imap_port \<Rightarrow> Account \<Rightarrow> ('z, unit) am" where
  "reconcile_one port account =
    handleE (port_status port (acc_id account))
      (\<lambda>live. case desired_status (ss_state live) of
         None \<Rightarrow> ret ()
       | Some desired \<Rightarrow>
           if acc_status account \<noteq> desired
           then best_effort (set_account_status (acc_id account) desired (ss_last_error live))
           else ret ())
      (\<lambda>_. ret ())"

definition reconcile_statuses :: "'z app_world_scheme imap_port \<Rightarrow> ('z, unit) am" where
  "reconcile_statuses port =
    bindE list_enabled_accounts (\<lambda>enabled.
    bindE (for_each (reconcile_one port) enabled) (\<lambda>_.
    bindE (port_tracked port) (\<lambda>tracked.
    for_each (\<lambda>i. if i \<in> acc_id ` set enabled then ret () else best_effort (port_stop port i)) tracked)))"

text \<open>The subsystem, from its start over n ticks to the shutdown.\<close>

fun reconcile_ticks :: "nat \<Rightarrow> 'z app_world_scheme imap_port \<Rightarrow> ('z, unit) am" where
  "reconcile_ticks 0 port = ret ()"
| "reconcile_ticks (Suc n) port = bindE (best_effort (reconcile_statuses port)) (\<lambda>_. reconcile_ticks n port)"

definition imap_subsystem :: "nat \<Rightarrow> account_env \<Rightarrow> 'z app_world_scheme imap_port \<Rightarrow> ('z, unit) am" where
  "imap_subsystem n env port =
    bindE (best_effort (start_all_enabled env port)) (\<lambda>_.
    bindE (reconcile_ticks n port) (\<lambda>_.
    bindE (best_effort (stop_all port)) (\<lambda>_. ret ())))"

end
