(* ===== verification/ImapAccountProps.thy ===== *)
theory ImapAccountProps
  imports ImapAccounts "HOL-Library.Multiset"
begin

text \<open>
  Properties of the account life cycle: the contract of the IMAP port (\<open>imap_port_contract\<close>),
  what the service derives from it alone, and its interpretation on the adapter; then what a
  reconciliation makes of the tracked set and of the accounts table.
\<close>

section \<open>What the service's own calls leave alone\<close>

lemma frame_more_db:
  fixes m :: "('z, 'a) am"
  assumes "db_only m"
  shows "frame app_world.more m"
  unfolding frame_def
proof
  fix s :: "'z app_world_scheme"
  from assms have "\<forall>s. tx.more (snd (m s)) = tx.more s" unfolding db_only_def frame_def .
  then have "tx.more (snd (m s)) = tx.more s" by blast
  then show "app_world.more (snd (m s)) = app_world.more s"
    by (cases s, cases "snd (m s)", simp)
qed

lemma db_only_accounts [db_only_intros]:
  "db_only list_enabled_accounts" "db_only (account_set_status i st err)" "db_only (list_enabled_folders i)"
  unfolding list_enabled_accounts_def account_list_enabled_def account_set_status_def account_write_def
    list_enabled_folders_def folder_list_enabled_for_account_def
  by (intro db_only_intros)+

lemma frame_more_service [frame_intros]:
  "frame app_world.more list_enabled_accounts" "frame app_world.more (list_enabled_folders i)"
  "frame app_world.more (set_account_status i st err)"
proof -
  show "frame app_world.more list_enabled_accounts" "frame app_world.more (list_enabled_folders i)"
    by (rule frame_more_db, intro db_only_intros)+
  have "frame app_world.more (transaction (account_set_status i st err))"
    by (rule frame_more_db, intro db_only_intros)
  moreover have "frame app_world.more notify_accounts_changed"
    unfolding notify_accounts_changed_def by (rule frame_modifyE) simp
  ultimately show "frame app_world.more (set_account_status i st err)"
    unfolding set_account_status_def by (intro frame_intros)
qed

lemma frame_best_effort [frame_intros]: "frame g m \<Longrightarrow> frame g (best_effort m)"
  unfolding best_effort_def by (intro frame_intros)

lemma best_effort_Inr: "best_effort m s = (r, t) \<Longrightarrow> r = Inr () \<and> t = snd (m s)"
  by (auto simp: best_effort_def handleE_def act_eval split: prod.splits sum.splits)

section \<open>The contract of the port\<close>

locale imap_port_contract =
  fixes port :: "'z app_world_scheme imap_port" and live :: "'z app_world_scheme \<Rightarrow> AccountId set"
  assumes live_more: "app_world.more t = app_world.more s \<Longrightarrow> live t = live s"
    and start: "port_start port i p s = (r, t) \<Longrightarrow> r = Inr () \<and> tx_db t = tx_db s \<and> live t = insert i (live s)"
    and stop: "port_stop port i s = (r, t) \<Longrightarrow> r = Inr () \<and> tx_db t = tx_db s \<and> live t = live s - {i}"
    and status: "port_status port i s = (q, t) \<Longrightarrow> tx_db t = tx_db s \<and> live t = live s"
    and listing: "port_tracked port s = (x, t) \<Longrightarrow> t = s \<and> (\<exists>ids. x = Inr ids \<and> set ids = live s)"
begin

lemma framed_live: "frame app_world.more m \<Longrightarrow> m s = (r, t) \<Longrightarrow> live t = live s"
  by (rule live_more) (auto dest: frameD)

lemma stop_best: "best_effort (port_stop port i) s = (r, t) \<Longrightarrow> r = Inr () \<and> tx_db t = tx_db s \<and> live t = live s - {i}"
proof -
  assume run: "best_effort (port_stop port i) s = (r, t)"
  obtain q u where st: "port_stop port i s = (q, u)" by (cases "port_stop port i s")
  with run stop [OF st] show ?thesis by (simp add: best_effort_def handleE_def act_eval)
qed

lemma stop_each:
  "for_each (\<lambda>i. if p i then ret () else best_effort (port_stop port i)) ids s = (r, t) \<Longrightarrow>
     r = Inr () \<and> tx_db t = tx_db s \<and> live t = live s - {i \<in> set ids. \<not> p i}"
proof (induction ids arbitrary: s r t)
  case Nil
  then show ?case by (simp add: act_eval)
next
  case (Cons i ids)
  obtain q s1 where first: "(if p i then ret () else best_effort (port_stop port i)) s = (q, s1)"
    by (cases "(if p i then ret () else best_effort (port_stop port i)) s")
  have "q = Inr () \<and> tx_db s1 = tx_db s \<and> live s1 = live s - (if p i then {} else {i})"
  proof (cases "p i")
    case True
    with first show ?thesis by (auto simp: act_eval)
  next
    case False
    with first have "best_effort (port_stop port i) s = (q, s1)" by simp
    from stop_best [OF this] False show ?thesis by simp
  qed
  then have q: "q = Inr ()" "tx_db s1 = tx_db s" "live s1 = live s - (if p i then {} else {i})" by blast+
  from Cons.prems first q(1) have "for_each (\<lambda>i. if p i then ret () else best_effort (port_stop port i)) ids s1 = (r, t)"
    by (simp add: bindE_def)
  from Cons.IH [OF this] q show ?case by auto
qed

text \<open>After \<open>stop_all\<close> nothing runs, whether or not the accounts could be read.\<close>

lemma stop_all_stops: "stop_all port s = (r, t) \<Longrightarrow> r = Inr () \<and> live t = {}"
proof -
  assume run: "stop_all port s = (r, t)"
  let ?ids = "handleE list_enabled_accounts (\<lambda>accounts. ret (map acc_id accounts)) (\<lambda>_. ret []) :: ('z, AccountId list) am"
  obtain q s1 where ids: "?ids s = (q, s1)" by (cases "?ids s")
  have "frame app_world.more ?ids" by (intro frame_intros)
  from framed_live [OF this ids] have l1: "live s1 = live s" .
  obtain enabled where q: "q = Inr enabled"
    using ids by (auto simp: handleE_def act_eval split: prod.splits sum.splits)
  obtain tr s2 where lst: "port_tracked port s1 = (tr, s2)" by (cases "port_tracked port s1")
  from listing [OF lst] obtain known where "tr = Inr known" "set known = live s1" "s2 = s1" by auto
  with run ids q lst have "for_each (\<lambda>i. best_effort (port_stop port i)) (remdups (enabled @ known)) s1 = (r, t)"
    by (simp add: stop_all_def bindE_def)
  with stop_each [of "\<lambda>_. False" _ s1 r t] \<open>set known = live s1\<close> show ?thesis by auto
qed

lemma reconcile_one_live: "reconcile_one port a s = (r, t) \<Longrightarrow> r = Inr () \<and> live t = live s"
proof -
  assume run: "reconcile_one port a s = (r, t)"
  obtain q s1 where st: "port_status port (acc_id a) s = (q, s1)" by (cases "port_status port (acc_id a) s")
  have l1: "live s1 = live s" using status [OF st] by simp
  have "live (snd (best_effort (set_account_status i d err) s1)) = live s1" for i d err
    using framed_live [OF frame_best_effort [OF frame_more_service(3)]] by (metis prod.collapse)
  moreover have "fst (best_effort (set_account_status i d err) s1) = Inr ()" for i d err
    using best_effort_Inr by (metis prod.collapse)
  ultimately show ?thesis
    using run st l1 unfolding reconcile_one_def handleE_def
    by (auto simp: act_eval split: sum.splits option.splits if_splits prod.splits) (metis fst_conv snd_conv)+
qed

lemma reconcile_each_live: "for_each (reconcile_one port) as s = (r, t) \<Longrightarrow> r = Inr () \<and> live t = live s"
proof (induction as arbitrary: s r t)
  case Nil
  then show ?case by (simp add: act_eval)
next
  case (Cons a as)
  obtain q s1 where first: "reconcile_one port a s = (q, s1)" by (cases "reconcile_one port a s")
  with reconcile_one_live [OF first] Cons show ?case by (auto simp: bindE_def)
qed

text \<open>A reconciliation stops what is no longer enabled, and nothing else.\<close>

lemma reconcile_tears_down:
  assumes run: "reconcile_statuses port s = (r, t)"
  shows "case r of Inl e \<Rightarrow> list_enabled_accounts s = (Inl e, t) \<and> live t = live s | Inr _ \<Rightarrow>
    \<exists>enabled s1. list_enabled_accounts s = (Inr enabled, s1) \<and> live t = live s \<inter> acc_id ` set enabled"
proof -
  obtain q s1 where lst: "(list_enabled_accounts :: ('z, Account list) am) s = (q, s1)" by fastforce
  have l1: "live s1 = live s" by (rule framed_live [OF frame_more_service(1) lst])
  show ?thesis
  proof (cases q)
    case (Inl e)
    with run lst l1 show ?thesis by (auto simp: reconcile_statuses_def bindE_def)
  next
    case (Inr enabled)
    obtain q2 s2 where each: "for_each (reconcile_one port) enabled s1 = (q2, s2)"
      by (cases "for_each (reconcile_one port) enabled s1")
    note l2 = reconcile_each_live [OF each]
    obtain x s3 where tr: "port_tracked port s2 = (x, s3)" by (cases "port_tracked port s2")
    from listing [OF tr] obtain ids where ids: "x = Inr ids" "set ids = live s2" "s3 = s2" by auto
    have "for_each (\<lambda>i. if i \<in> acc_id ` set enabled then ret () else best_effort (port_stop port i)) ids s2 = (r, t)"
      using run lst Inr each l2 tr ids(1,3) by (simp add: reconcile_statuses_def bindE_def)
    from stop_each [OF this] have "r = Inr ()" "live t = live s \<inter> acc_id ` set enabled"
      using l1 l2 ids(2) by auto
    with lst Inr show ?thesis by auto
  qed
qed

text \<open>From start to shutdown: the subsystem ends, and leaves nothing running.\<close>

lemma subsystem_stops: "imap_subsystem n env port s = (r, t) \<Longrightarrow> r = Inr () \<and> live t = {}"
proof -
  assume run: "imap_subsystem n env port s = (r, t)"
  have ticks: "fst (reconcile_ticks n port s) = Inr ()" for n s
    by (induction n arbitrary: s) (auto simp: act_eval bindE_def dest: best_effort_Inr split: prod.splits sum.splits)
  obtain q1 s1 where 1: "best_effort (start_all_enabled env port) s = (q1, s1)" by fastforce
  obtain q2 s2 where 2: "reconcile_ticks n port s1 = (q2, s2)" by fastforce
  obtain q3 s3 where 3: "stop_all port s2 = (q3, s3)" by fastforce
  have "q1 = Inr ()" using best_effort_Inr [OF 1] by simp
  moreover have "q2 = Inr ()" using ticks [of n s1] 2 by simp
  moreover note stop_all_stops [OF 3]
  ultimately show ?thesis
    using run 1 2 3 by (simp add: imap_subsystem_def bindE_def best_effort_def [of "stop_all port"] handleE_def act_eval)
qed

end

section \<open>The adapter provides it\<close>

definition running :: "'z port_world_scheme \<Rightarrow> AccountId set" where
  "running s = fst ` set (pw_tracked s)"

interpretation adapter: imap_port_contract imap_adapter running
proof (unfold_locales, goal_cases)
  case (1 t s)
  then show ?case by (cases s, cases t) (simp add: running_def)
next
  case (2 i p s r t)
  then show ?case
    by (auto simp: imap_adapter_def adapter_start_def adapter_stop_def best_effort_def handleE_def bindE_def
        running_def act_eval dom_map_of_conv_image_fst [symmetric] update_conv' delete_conv' split: if_splits)
next
  case (3 i s r t)
  then show ?case
    by (auto simp: imap_adapter_def adapter_stop_def running_def dom_map_of_conv_image_fst [symmetric] delete_conv'
        split: if_splits)
next
  case (4 i s q t)
  then show ?case by (auto simp: imap_adapter_def adapter_status_def running_def split: option.splits)
next
  case (5 s x t)
  then show ?case by (auto simp: imap_adapter_def adapter_tracked_def running_def)
qed

section \<open>What a reconciliation writes\<close>

definition status_moved :: "Account \<Rightarrow> Account \<Rightarrow> bool" where
  "status_moved a b \<longleftrightarrow> b = a \<or> (acc_enabled a \<and> acc_status b \<in> {ErrorStatus, IdleStatus, Syncing} \<and>
     acc_version a < acc_version b \<and>
     b = a\<lparr>acc_status := acc_status b, acc_last_error := acc_last_error b, acc_version := acc_version b,
       acc_updated_at := acc_updated_at b\<rparr>)"

text \<open>Only the status columns of enabled accounts have moved.\<close>

definition only_statuses :: "db \<Rightarrow> db \<Rightarrow> bool" where
  "only_statuses d d' \<longleftrightarrow> d' = d\<lparr>tbl_accounts := tbl_accounts d'\<rparr> \<and>
     list_all2 status_moved (tbl_accounts d) (tbl_accounts d')"

definition enabled_ids :: "db \<Rightarrow> AccountId set" where
  "enabled_ids d = {acc_id a | a. a \<in> set (tbl_accounts d) \<and> acc_enabled a}"

lemma only_statuses_refl: "only_statuses d d"
  by (simp add: only_statuses_def status_moved_def list_all2_refl)

lemma status_moved_saved:
  assumes "status_moved a b" and "acc_enabled a" and "st \<in> {ErrorStatus, IdleStatus, Syncing}" and "acc_version b \<le> v"
  shows "status_moved a (saved_account now (v + 1) (\<lambda>a. a\<lparr>acc_status := st, acc_last_error := err\<rparr>) b)"
  using assms by (cases a, cases b) (auto simp: status_moved_def saved_account_def)

lemma only_statuses_update:
  assumes rel: "only_statuses d0 d" and enabled: "\<forall>a \<in> set (tbl_accounts d0). acc_id a = i \<longrightarrow> acc_enabled a"
    and st: "st \<in> {ErrorStatus, IdleStatus, Syncing}" and dist: "distinct (map acc_id (tbl_accounts d))"
    and x: "find_account i d = Some x"
    and up: "update_account_row i (saved_account now (acc_version x + 1) (\<lambda>a. a\<lparr>acc_status := st, acc_last_error := err\<rparr>)) d
      = Inr (y, d')"
  shows "only_statuses d0 d'"
proof -
  let ?f = "saved_account now (acc_version x + 1) (\<lambda>a. a\<lparr>acc_status := st, acc_last_error := err\<rparr>)"
  have d': "d' = d\<lparr>tbl_accounts := update_where (\<lambda>x. acc_id x = i) ?f (tbl_accounts d)\<rparr>"
    using up x by (simp add: update_account_row_def)
  have "b = x" if "b \<in> set (tbl_accounts d)" "acc_id b = i" for b
    using that x dist find_row_key_eq [of acc_id "tbl_accounts d" b i] by (simp add: find_account_def)
  then have step: "status_moved a (if acc_id b = i then ?f b else b)"
    if "a \<in> set (tbl_accounts d0)" "b \<in> set (tbl_accounts d)" "status_moved a b" for a b
  proof (cases "acc_id b = i")
    case True
    have "acc_id a = i" using that(3) True by (cases a, cases b) (auto simp: status_moved_def)
    with enabled that(1) have "acc_enabled a" by blast
    from status_moved_saved [OF that(3) this st] True that(2) \<open>\<And>b. _ \<Longrightarrow> _ \<Longrightarrow> b = x\<close> show ?thesis by simp
  next
    case False
    with that(3) show ?thesis by simp
  qed
  have "list_all2 status_moved (tbl_accounts d0) (map (\<lambda>b. if acc_id b = i then ?f b else b) (tbl_accounts d))"
    using rel step unfolding only_statuses_def list_all2_conv_all_nth by simp
  with rel show ?thesis unfolding only_statuses_def d' update_where_def by (cases d, cases d0) simp
qed

lemma account_write_outcome:
  assumes run: "account_write i g s = (r, t)"
  shows "tx_db t = tx_db s \<or> (\<exists>x now y. find_account i (tx_db s) = Some x \<and>
    update_account_row i (saved_account now (acc_version x + 1) g) (tx_db s) = Inr (y, tx_db t))"
proof (cases "i = 0")
  case True
  with run show ?thesis by (simp add: account_write_def act_eval)
next
  case False
  obtain q s1 where que: "query (find_account i) s = (q, s1)" by (cases "query (find_account i) s")
  show ?thesis
  proof (cases q)
    case (Inl e)
    with run que False query_Inl [of "find_account i" s e s1] show ?thesis by (simp add: account_write_def bindE_def)
  next
    case (Inr o1)
    with que query_Inr [of "find_account i" s o1 s1] have o1: "o1 = find_account i (tx_db s)" "tx_db s1 = tx_db s" by auto
    show ?thesis
    proof (cases o1)
      case None
      with run que Inr False o1(2) show ?thesis by (simp add: account_write_def bindE_def act_eval)
    next
      case (Some x)
      let ?f = "update_account_row i (saved_account (tx_now s1) (acc_version x + 1) g)"
      obtain z s2 where ex: "execute ?f s1 = (z, s2)" by (cases "execute ?f s1")
      have t: "t = s2" using run que Inr False Some ex
        by (cases z) (simp_all add: account_write_def bindE_def utc_now_def act_eval)
      show ?thesis
      proof (cases z)
        case (Inl e)
        with ex execute_Inl o1(2) t show ?thesis by metis
      next
        case (Inr y)
        with ex execute_Inr [of ?f s1 y s2] o1 Some t show ?thesis by auto
      qed
    qed
  qed
qed

lemma only_statuses_ids: "only_statuses d d' \<Longrightarrow> map acc_id (tbl_accounts d') = map acc_id (tbl_accounts d)"
proof -
  have "status_moved a b \<Longrightarrow> acc_id b = acc_id a" for a b by (cases a, cases b) (auto simp: status_moved_def)
  then show "only_statuses d d' \<Longrightarrow> map acc_id (tbl_accounts d') = map acc_id (tbl_accounts d)"
    unfolding only_statuses_def list_all2_conv_all_nth by (auto intro: nth_equalityI)
qed

lemma keeps_only_statuses:
  assumes dist: "distinct (map acc_id (tbl_accounts d0))"
    and enabled: "\<forall>a \<in> set (tbl_accounts d0). acc_id a = i \<longrightarrow> acc_enabled a" and st: "st \<in> {ErrorStatus, IdleStatus, Syncing}"
  shows "keeps (only_statuses d0) (set_account_status i st err :: ('z, unit) am)"
proof -
  have "keeps (only_statuses d0) (account_set_status i st err :: ('z app_world_ext world_ext, unit) dbm)"
  proof (rule keepsI)
    fix s :: "'z app_world_scheme"
    assume rel: "only_statuses d0 (tx_db s)"
    obtain r t where run: "account_set_status i st err s = (r, t)" by fastforce
    consider (same) "tx_db t = tx_db s" | (written) x now y where "find_account i (tx_db s) = Some x"
        "update_account_row i (saved_account now (acc_version x + 1) (\<lambda>a. a\<lparr>acc_status := st, acc_last_error := err\<rparr>)) (tx_db s)
          = Inr (y, tx_db t)"
      using account_write_outcome [OF run [unfolded account_set_status_def]] by blast
    then show "only_statuses d0 (tx_db (snd (account_set_status i st err s)))"
    proof cases
      case same
      with rel run show ?thesis by simp
    next
      case written
      from only_statuses_update [OF rel enabled st _ written] dist only_statuses_ids [OF rel] run show ?thesis by simp
    qed
  qed
  moreover have "keeps (only_statuses d0) notify_accounts_changed" by (rule keeps_off_db) (intro off_db_intros)
  ultimately show ?thesis unfolding set_account_status_def by (intro keeps_intros)
qed

lemma list_enabled_run:
  fixes s :: "'z tx_scheme"
  assumes run: "list_enabled_accounts s = (r, t)"
  shows "tx_db t = tx_db s" and "r = Inr as \<Longrightarrow> as = filter acc_enabled (tbl_accounts (tx_db s))"
proof -
  show "tx_db t = tx_db s" using run read_only_db unfolding list_enabled_accounts_def by (metis snd_conv)
  assume "r = Inr as"
  with run obtain s0 s1 :: "'z tx_scheme" where "tx_db s0 = tx_db s" "tx_now s0 = tx_now s" "account_list_enabled s0 = (Inr as, s1)"
    unfolding list_enabled_accounts_def by (auto elim: read_only_Inr)
  with query_Inr show "as = filter acc_enabled (tbl_accounts (tx_db s))"
    unfolding account_list_enabled_def by metis
qed

lemma keeps_for_each: "(\<And>x. x \<in> set xs \<Longrightarrow> keeps P (f x)) \<Longrightarrow> keeps P (for_each f xs)"
  by (induction xs) (auto intro!: keeps_intros)

lemma keeps_best_effort [keeps_intros]: "keeps P m \<Longrightarrow> keeps P (best_effort m)"
  unfolding best_effort_def by (intro keeps_intros)

lemma off_db_adapter [off_db_intros]:
  "off_db (adapter_status i)" "off_db (adapter_stop i)" "off_db adapter_tracked"
proof -
  show "off_db (adapter_status i)"
    by (auto simp: off_db_def frame_def adapter_status_def tx.truncate_def split: option.splits)
  show "off_db (adapter_stop i)" unfolding adapter_stop_def by (rule off_db_modifyE) (simp add: tx.truncate_def)
  show "off_db adapter_tracked" unfolding adapter_tracked_def by (intro off_db_intros)
qed

lemma keeps_reconcile_one:
  fixes d0 :: db
  assumes "distinct (map acc_id (tbl_accounts d0))" and "a \<in> set (tbl_accounts d0)" and "acc_enabled a"
  shows "keeps (only_statuses d0) (reconcile_one imap_adapter a :: ('z port_world_ext, unit) am)"
proof -
  have "\<forall>b \<in> set (tbl_accounts d0). acc_id b = acc_id a \<longrightarrow> acc_enabled b"
    using assms by (auto simp: distinct_map inj_on_def)
  note store = keeps_only_statuses [OF assms(1) this]
  have read: "keeps (only_statuses d0) (adapter_status i)" for i by (rule keeps_off_db) (intro off_db_intros)
  have arm: "keeps (only_statuses d0) ((case desired_status x of None \<Rightarrow> ret ()
      | Some desired \<Rightarrow> if acc_status a \<noteq> desired then best_effort (set_account_status (acc_id a) desired err) else ret ())
      :: ('z port_world_ext, unit) am)" for x err
    by (cases x) (auto intro!: keeps_intros store)
  show ?thesis
    unfolding reconcile_one_def imap_adapter_def imap_port.simps by (rule keeps_handleE [OF read arm keeps_ret])
qed

text \<open>
  A reconciliation tears down what is no longer enabled: when it ends, exactly those
  accounts still run that ran before and that the accounts table has enabled, and all it has
  written, whatever database calls failed, are the status columns of enabled accounts. When
  the accounts cannot be read it does nothing.
\<close>

theorem reconcile_stops_disabled:
  fixes s :: "'z port_world_scheme"
  assumes "distinct (map acc_id (tbl_accounts (tx_db s)))"
  shows "case reconcile_statuses imap_adapter s of
      (Inl _, t) \<Rightarrow> tx_db t = tx_db s \<and> running t = running s
    | (Inr _, t) \<Rightarrow> running t = running s \<inter> enabled_ids (tx_db s) \<and> only_statuses (tx_db s) (tx_db t)"
proof (cases "reconcile_statuses imap_adapter s")
  case (Pair r t)
  obtain q s1 where lst: "(list_enabled_accounts :: ('z port_world_ext, Account list) am) s = (q, s1)" by fastforce
  note l = list_enabled_run [OF lst]
  show ?thesis
  proof (cases q)
    case (Inl e)
    with Pair lst l(1) adapter.reconcile_tears_down [OF Pair] show ?thesis
      by (auto simp: reconcile_statuses_def bindE_def)
  next
    case (Inr enabled)
    have mem: "a \<in> set enabled \<Longrightarrow> a \<in> set (tbl_accounts (tx_db s)) \<and> acc_enabled a" for a using l(2) [OF Inr] by auto
    have "keeps (only_statuses (tx_db s)) (for_each (reconcile_one imap_adapter) enabled :: ('z port_world_ext, unit) am)"
      by (rule keeps_for_each) (rule keeps_reconcile_one, use assms mem in auto)
    moreover have "keeps (only_statuses (tx_db s)) (bindE (port_tracked imap_adapter) (\<lambda>tracked.
        for_each (\<lambda>i. if i \<in> acc_id ` set enabled then ret () else best_effort (port_stop imap_adapter i)) tracked)
        :: ('z port_world_ext, unit) am)"
    proof -
      have "keeps (only_statuses (tx_db s)) (adapter_stop i)" "keeps (only_statuses (tx_db s)) adapter_tracked" for i
        by (rule keeps_off_db, intro off_db_intros)+
      then show ?thesis unfolding imap_adapter_def by (auto intro!: keeps_intros keeps_for_each)
    qed
    ultimately have "keeps (only_statuses (tx_db s)) (bindE (for_each (reconcile_one imap_adapter) enabled) (\<lambda>_.
        bindE (port_tracked imap_adapter) (\<lambda>tracked.
        for_each (\<lambda>i. if i \<in> acc_id ` set enabled then ret () else best_effort (port_stop imap_adapter i)) tracked))
        :: ('z port_world_ext, unit) am)"
      by (rule keeps_bindE)
    from keepsD [OF this, of s1] only_statuses_refl [of "tx_db s"] l(1)
    have db: "only_statuses (tx_db s) (tx_db t)" using Pair lst Inr by (simp add: reconcile_statuses_def bindE_def)
    have "acc_id ` set enabled = enabled_ids (tx_db s)" using l(2) [OF Inr] by (auto simp: enabled_ids_def)
    with adapter.reconcile_tears_down [OF Pair] lst Inr Pair db show ?thesis by (cases r) auto
  qed
qed

text \<open>
  C26. Nothing outlives the shutdown: from any state, whatever database calls fail at start-up,
  in any number of reconciliations or during the shutdown itself, the subsystem returns
  without an error and no account is running any more.
\<close>

theorem subsystem_leaves_nothing_running:
  "case imap_subsystem n env imap_adapter s of (r, t) \<Rightarrow> r = Inr () \<and> pw_tracked t = []"
proof (cases "imap_subsystem n env imap_adapter s")
  case (Pair r t)
  from adapter.subsystem_stops [OF Pair] Pair show ?thesis by (simp add: running_def)
qed

section \<open>Starting an account\<close>

text \<open>The folders the two tasks of a handle own.\<close>

definition handle_folders :: "AccountHandle \<Rightarrow> FolderConfig list" where
  "handle_folders h = (case ah_idle h of None \<Rightarrow> [] | Some f \<Rightarrow> [f]) @ ah_poll h"

lemma partition_all:
  assumes "partition_folders fs = (idle, poll)"
  shows "mset ((case idle of None \<Rightarrow> [] | Some f \<Rightarrow> [f]) @ poll) = mset fs"
proof -
  have split: "mset fs = mset (filter fc_idle_enabled fs) + mset (filter (\<lambda>f. \<not> fc_idle_enabled f) fs)"
    using multiset_partition [of "mset fs" fc_idle_enabled] by simp
  show ?thesis
  proof (cases "filter fc_idle_enabled fs")
    case Nil
    with assms split show ?thesis by (auto simp: partition_folders_def Let_def)
  next
    case (Cons f surplus)
    with assms split show ?thesis by (auto simp: partition_folders_def Let_def simp del: mset_filter)
  qed
qed

lemma partition_idle: "partition_folders fs = (Some f, poll) \<Longrightarrow> fc_idle_enabled f"
  by (auto simp: partition_folders_def Let_def filter_eq_Cons_iff split: list.splits)

lemma handle_owns_all: "mset (handle_folders (account_handle p)) = mset (icp_folders p)"
  by (cases "partition_folders (icp_folders p)")
    (auto simp: account_handle_def handle_folders_def dest: partition_all split: option.splits)

lemma adapter_start_run:
  "port_start imap_adapter i p s = (Inr (), s\<lparr>pw_tracked := AList.update i (account_handle p) (AList.delete i (pw_tracked s))\<rparr>)"
  by (simp add: imap_adapter_def adapter_start_def adapter_stop_def best_effort_def handleE_def bindE_def act_eval)

lemma load_enabled_run:
  fixes s :: "'z tx_scheme"
  assumes run: "load_enabled_account i s = (r, t)"
  shows "tx_db t = tx_db s" and "r = Inr a \<Longrightarrow> a \<in> set (tbl_accounts (tx_db s)) \<and> acc_enabled a \<and> acc_id a = i"
proof -
  obtain q s1 where lst: "(list_enabled_accounts :: ('z, Account list) dbm) s = (q, s1)" by fastforce
  note l = list_enabled_run [OF lst]
  show "tx_db t = tx_db s"
    using run lst l(1) by (auto simp: load_enabled_account_def bindE_def act_eval split: sum.splits option.splits)
  assume "r = Inr a"
  with run lst obtain accs where "q = Inr accs" "find_row (\<lambda>a. acc_id a = i) accs = Some a"
    by (auto simp: load_enabled_account_def bindE_def act_eval split: sum.splits option.splits)
  with l(2) find_row_Some [of "\<lambda>a. acc_id a = i" accs a]
  show "a \<in> set (tbl_accounts (tx_db s)) \<and> acc_enabled a \<and> acc_id a = i" by auto
qed

lemma list_enabled_folders_run:
  fixes s :: "'z tx_scheme"
  assumes run: "list_enabled_folders i s = (r, t)"
  shows "tx_db t = tx_db s"
    and "r = Inr fs \<Longrightarrow> fs = filter (\<lambda>f. fld_account_id f = i \<and> fld_enabled f) (tbl_folders (tx_db s))"
proof -
  show "tx_db t = tx_db s" using run read_only_db unfolding list_enabled_folders_def by (metis snd_conv)
  assume "r = Inr fs"
  with run obtain s0 s1 :: "'z tx_scheme" where "tx_db s0 = tx_db s" "tx_now s0 = tx_now s"
      "folder_list_enabled_for_account i s0 = (Inr fs, s1)"
    unfolding list_enabled_folders_def by (auto elim: read_only_Inr)
  then show "fs = filter (\<lambda>f. fld_account_id f = i \<and> fld_enabled f) (tbl_folders (tx_db s))"
    by (auto simp: folder_list_enabled_for_account_def bindE_Inr_iff requireE_apply dest!: query_Inr split: if_splits)
qed

lemma framed_tracked: "frame app_world.more m \<Longrightarrow> m s = (r, t) \<Longrightarrow> pw_tracked t = pw_tracked s"
proof -
  assume "frame app_world.more m" "m s = (r, t)"
  then have "app_world.more t = app_world.more s" by (auto dest: frameD)
  then show "pw_tracked t = pw_tracked s" by (cases s, cases t) simp
qed

text \<open>
  Starting an account: only an enabled account is started (otherwise nothing changes),
  and a start that succeeds leaves the account running with every enabled folder of its own
  owned by exactly one of its two tasks, at the cursor the table holds, and at most the IDLE
  folder is one marked for IDLE first.
\<close>

theorem start_account_runs_enabled:
  fixes s :: "'z port_world_scheme"
  shows "case start_account env imap_adapter i s of (r, t) \<Rightarrow>
    (i \<in> enabled_ids (tx_db s) \<or> ((\<exists>e. r = Inl e) \<and> tx_db t = tx_db s \<and> running t = running s)) \<and>
    ((\<exists>e. r = Inl e) \<or> (\<exists>h. map_of (pw_tracked t) i = Some h \<and>
       mset (handle_folders h) = mset (map folder_config
         (filter (\<lambda>f. fld_account_id f = i \<and> fld_enabled f) (tbl_folders (tx_db s)))) \<and>
       (case ah_idle h of None \<Rightarrow> True | Some f \<Rightarrow> fc_idle_enabled f)))"
proof -
  obtain r t where run: "start_account env imap_adapter i s = (r, t)" by fastforce
  obtain q s1 where ld: "(load_enabled_account i :: ('z port_world_ext, Account) am) s = (q, s1)" by fastforce
  note l = load_enabled_run [OF ld]
  have "db_only (load_enabled_account i :: ('z port_world_ext app_world_ext world_ext, Account) dbm)"
    unfolding load_enabled_account_def by (intro db_only_intros)
  from framed_tracked [OF frame_more_db [OF this] ld] have live1: "running s1 = running s" by (simp add: running_def)
  show ?thesis
  proof (cases q)
    case (Inl e)
    with run ld have "r = Inl e" "t = s1" by (simp_all add: start_account_def bindE_def)
    with l(1) live1 run show ?thesis by simp
  next
    case (Inr a)
    have en: "i \<in> enabled_ids (tx_db s)" using l(2) [OF Inr] by (auto simp: enabled_ids_def)
    have one: "start_one env imap_adapter a s1 = (r, t)" using run ld Inr by (simp add: start_account_def bindE_def)
    show ?thesis
    proof (cases r)
      case (Inl e)
      with en run show ?thesis by simp
    next
      case (Inr u)
      obtain q2 s2 where f: "(list_enabled_folders (acc_id a) :: ('z port_world_ext, Folder list) am) s1 = (q2, s2)" by fastforce
      from one f Inr obtain fs where q2: "q2 = Inr fs" by (cases q2) (auto simp: start_one_def bindE_def)
      from one f q2 Inr obtain plaintext password where
        "decrypt (ae_crypto env) (ae_key env) (acc_id a) (acc_credentials a) = Inr plaintext" "ae_from_json env plaintext = Inr password"
        by (auto simp: start_one_def bindE_def act_eval split: sum.splits)
      note opened = this
      define p where "p = \<lparr>icp_server = acc_server a, icp_username = acc_username a, icp_password = password,
        icp_folders = map folder_config fs\<rparr>"
      then have p: "icp_folders p = map folder_config fs" by simp
      have st: "set_account_status (acc_id a) Syncing None
          (s2\<lparr>pw_tracked := AList.update (acc_id a) (account_handle p) (AList.delete (acc_id a) (pw_tracked s2))\<rparr>) = (r, t)"
        using one f q2 opened by (simp add: start_one_def bindE_def handleE_def adapter_start_run p_def)
      from framed_tracked [OF frame_more_service(3) st] l(2) [OF \<open>q = Inr a\<close>]
      have "map_of (pw_tracked t) i = Some (account_handle p)" by (simp add: update_conv')
      moreover have "mset (handle_folders (account_handle p)) = mset (map folder_config
          (filter (\<lambda>f. fld_account_id f = i \<and> fld_enabled f) (tbl_folders (tx_db s))))"
        using list_enabled_folders_run(2) [OF f q2] l(1) l(2) [OF \<open>q = Inr a\<close>] handle_owns_all [of p] p by simp
      moreover have "fc_idle_enabled x" if "ah_idle (account_handle p) = Some x" for x
        using that partition_idle [of "icp_folders p"] by (auto simp: account_handle_def split: prod.splits)
      ultimately show ?thesis using en run by (auto split: option.splits)
    qed
  qed
qed

section \<open>A witness\<close>

text \<open>The sample account is enabled and runs; account 9 runs though it is not in the table.\<close>

definition sample_port :: port_world where
  "sample_port = app_world.extend sample_app
     \<lparr>pw_tracked = [(9, account_handle \<lparr>icp_server = acc_server sample_account, icp_username = [], icp_password = [], icp_folders = []\<rparr>),
        (7, account_handle \<lparr>icp_server = acc_server sample_account, icp_username = [], icp_password = [], icp_folders = []\<rparr>)],
      pw_live = (\<lambda>_ _. not_running_status\<lparr>ss_state := SyncError\<rparr>), pw_reads = 0\<rparr>"

lemma sample_port_parts: "tx_db sample_port = tx_db sample_app" "tx_faults sample_port = []" "running sample_port = {9, 7}"
  by (auto simp: sample_port_def sample_app_def sample_pipeline_def sample_world_def sample_tx_def app_world.extend_def
      world.extend_def tx.extend_def running_def)

theorem reconcile_stops_disabled_witness:
  "\<exists>t. reconcile_statuses imap_adapter sample_port = (Inr (), t) \<and> running t = {7}"
proof -
  obtain r t where run: "reconcile_statuses imap_adapter sample_port = (r, t)" by fastforce
  have "distinct (map acc_id (tbl_accounts (tx_db sample_port)))" by (simp add: sample_port_parts sample_app_db)
  note facts = reconcile_stops_disabled [OF this, unfolded run]
  have "\<exists>accs u. (list_enabled_accounts :: (unit port_world_ext, Account list) am) sample_port = (Inr accs, u)"
    by (simp add: list_enabled_accounts_def read_only_transaction_def account_list_enabled_def bindE_def stmt_simps sample_port_parts)
  with adapter.reconcile_tears_down [OF run] obtain x where "r = Inr x" by (cases r) auto
  moreover have "enabled_ids (tx_db sample_port) = {7}"
    by (auto simp: enabled_ids_def sample_port_parts sample_app_db sample_account_def)
  ultimately show ?thesis using facts run by (auto simp: sample_port_parts)
qed

end
