(* ===== verification/SearchIndexer.thy ===== *)
theory SearchIndexer
  imports SearchIndex MessageService BlobStore Parser
begin

text \<open>
  The search indexer (\<open>crates/search/src/indexer.rs\<close>, \<open>crates/search/src/schema.rs\<close>,
  the version file of \<open>crates/search/src/index.rs\<close>): the rebuild at startup and the drain
  of the messages that are not indexed. The MIME parser is the one of the parser crate.
\<close>

section \<open>Documents\<close>

definition from_text :: "Message \<Rightarrow> string" where
  "from_text m = join_with '' '' (msg_from_address m # (case msg_from_name m of None \<Rightarrow> [] | Some n \<Rightarrow> [n]))"

definition named_address_parts :: "NamedAddress \<Rightarrow> string list" where
  "named_address_parts a = na_address a # (case na_name a of None \<Rightarrow> [] | Some n \<Rightarrow> [n])"

definition to_text :: "Message \<Rightarrow> string" where
  "to_text m = join_with '' '' (concat (map named_address_parts (msg_to_addresses m @ msg_cc_addresses m)))"

text \<open>The date is kept in whole seconds.\<close>

definition to_document :: "Message \<Rightarrow> string \<Rightarrow> SearchDoc" where
  "to_document m body =
    \<lparr>sd_message_id = msg_id m, sd_account_id = msg_account_id m, sd_has_attachments = msg_has_attachments m,
     sd_subject = (case msg_subject m of None \<Rightarrow> [] | Some x \<Rightarrow> x), sd_body = body, sd_snippet = msg_snippet m,
     sd_from = from_text m, sd_to = to_text m, sd_sent_date = map_option (\<lambda>t. t div seconds 1) (msg_sent_date m)\<rparr>"

section \<open>The searchable body\<close>

definition after_gt :: "string \<Rightarrow> string option" where
  "after_gt tag = (case dropWhile (\<lambda>c. c \<noteq> CHR ''>'') tag of [] \<Rightarrow> None | _ # rest \<Rightarrow> Some rest)"

text \<open>What follows a tag, or a whole script or style element; \<open>None\<close> when it does not end.\<close>

definition after_tag :: "string \<Rightarrow> string option" where
  "after_tag tag =
    (let lower = to_ascii_lowercase tag;
         end_tag = (if starts_with ''<script'' lower then Some ''</script''
           else if starts_with ''<style'' lower then Some ''</style'' else None)
     in case end_tag of
          Some close \<Rightarrow> (case find_str close lower of None \<Rightarrow> None | Some e \<Rightarrow> after_gt (drop e tag))
        | None \<Rightarrow> after_gt tag)"

lemma after_gt_shorter: "after_gt tag = Some rest \<Longrightarrow> length rest < length tag"
  unfolding after_gt_def
  by (auto split: list.splits) (metis length_dropWhile_le less_eq_Suc_le length_Cons)

lemma after_tag_shorter:
  assumes "after_tag tag = Some rest"
  shows "length rest < length tag"
proof -
  from assms obtain e where "after_gt (drop e tag) = Some rest"
    by (auto simp: after_tag_def Let_def split: if_splits option.splits) (metis drop0)
  from after_gt_shorter [OF this] show ?thesis by simp
qed

function html_body_text :: "string \<Rightarrow> string" where
  "html_body_text rest =
    (case dropWhile (\<lambda>c. c \<noteq> CHR ''<'') rest of
       [] \<Rightarrow> rest
     | c # cs \<Rightarrow>
         takeWhile (\<lambda>c. c \<noteq> CHR ''<'') rest @
           (case after_tag (c # cs) of None \<Rightarrow> [] | Some next_rest \<Rightarrow> html_body_text next_rest))"
  by pat_completeness auto
termination
proof (relation "measure length")
  fix rest c cs r
  assume "dropWhile (\<lambda>c. c \<noteq> CHR ''<'') rest = c # cs" "after_tag (c # cs) = Some r"
  then show "(r, rest) \<in> measure length"
    using after_tag_shorter [of "c # cs" r] length_dropWhile_le [of "\<lambda>c. c \<noteq> CHR ''<''" rest] by simp
qed simp

declare html_body_text.simps [simp del]

definition extract_body :: "mail_env \<Rightarrow> bytes \<Rightarrow> string option" where
  "extract_body env raw =
    map_option (\<lambda>m. case ml_body_text m of
        Some t \<Rightarrow> t
      | None \<Rightarrow> (case ml_body_html m of Some h \<Rightarrow> html_body_text h | None \<Rightarrow> []))
      (me_parse env raw)"

section \<open>The version file\<close>

definition SCHEMA_VERSION :: u32 where
  "SCHEMA_VERSION = 1"

definition index_error :: "string \<Rightarrow> string" where
  "index_error e = ''search index: '' @ e"

definition needs_rebuild :: "('z, bool) am" where
  "needs_rebuild = getsE (\<lambda>s. ix_version s \<noteq> Some SCHEMA_VERSION)"

definition write_version :: "('z, unit) am" where
  "write_version = bindE (ix_call index_error) (\<lambda>_. modifyE (\<lambda>s. s\<lparr>ix_version := Some SCHEMA_VERSION\<rparr>))"

section \<open>Rebuilding and draining\<close>

definition clear_index :: "('z, unit) am" where
  "clear_index =
    bindE lock_writer (\<lambda>_.
    bindE (ix_call tantivy_error) (\<lambda>_.
    bindE (queue_op DeleteAllDocs) (\<lambda>_. commit_writer)))"

definition reconcile_on_startup :: "('z, unit) am" where
  "reconcile_on_startup =
    bindE needs_rebuild (\<lambda>stale.
      if \<not> stale then ret ()
      else
        bindE clear_index (\<lambda>_.
        bindE (transaction reset_all_indexed) (\<lambda>_.
        write_version)))"

definition BATCH :: u32 where
  "BATCH = 128"

text \<open>
  The document of one message; \<open>None\<close> for a message that can never be indexed. Any
  other storage error ends the batch.
\<close>

definition fetch_one :: "mail_env \<Rightarrow> storage \<Rightarrow> Message \<Rightarrow> ('z, (MessageId \<times> SearchDoc) option) wm" where
  "fetch_one env st m =
    handleE (blob_get st (msg_account_id m) (msg_content_hash m))
      (\<lambda>raw. ret (map_option (\<lambda>body. (msg_id m, to_document m body)) (extract_body env raw)))
      (\<lambda>e. case e of BlobNotFound _ _ \<Rightarrow> ret None | _ \<Rightarrow> throw e)"

definition write_doc :: "MessageId \<times> SearchDoc \<Rightarrow> ('z, unit) am" where
  "write_doc x =
    bindE (queue_op (DeleteMessageDocs (fst x))) (\<lambda>_.
    bindE (ix_call tantivy_error) (\<lambda>_. queue_op (AddDoc (snd x))))"

definition write_batch :: "(MessageId \<times> SearchDoc) list \<Rightarrow> ('z, unit) am" where
  "write_batch docs =
    bindE lock_writer (\<lambda>_.
    bindE (for_each write_doc docs) (\<lambda>_. commit_writer))"

definition drain_once :: "mail_env \<Rightarrow> storage \<Rightarrow> ('z, nat) am" where
  "drain_once env st =
    bindE (read_only_transaction (list_unindexed BATCH)) (\<lambda>messages.
      if messages = [] then ret 0
      else
        bindE (mapE (fetch_one env st) messages) (\<lambda>found.
        bindE (write_batch (List.map_filter id found)) (\<lambda>_.
        bindE (transaction (mark_indexed (map msg_id messages))) (\<lambda>_.
        ret (length messages)))))"

text \<open>The loops around it: \<open>None\<close> would be a loop that never ends.\<close>

partial_function (option) drain_loop ::
  "mail_env \<Rightarrow> storage \<Rightarrow> 'z app_world_scheme \<Rightarrow> ((Error + unit) \<times> 'z app_world_scheme) option"
where
  "drain_loop env st s =
    (let r = drain_once env st s in
     if isl (fst r) then Some (Inl (projl (fst r)), snd r)
     else if projr (fst r) = 0 then Some (Inr (), snd r)
     else drain_loop env st (snd r))"

text \<open>The background drain gives up on an error until the next tick.\<close>

definition drain_to_empty :: "mail_env \<Rightarrow> storage \<Rightarrow> 'z app_world_scheme \<Rightarrow> 'z app_world_scheme option" where
  "drain_to_empty env st s = map_option snd (drain_loop env st s)"

definition reindex_to_idle ::
  "mail_env \<Rightarrow> storage \<Rightarrow> 'z app_world_scheme \<Rightarrow> ((Error + unit) \<times> 'z app_world_scheme) option"
where
  "reindex_to_idle env st s =
    (case reconcile_on_startup s of
       (Inl e, t) \<Rightarrow> Some (Inl e, t)
     | (Inr _, t) \<Rightarrow> drain_loop env st t)"

fun drain_ticks :: "nat \<Rightarrow> mail_env \<Rightarrow> storage \<Rightarrow> 'z app_world_scheme \<Rightarrow> 'z app_world_scheme option" where
  "drain_ticks 0 env st s = Some s"
| "drain_ticks (Suc n) env st s = Option.bind (drain_to_empty env st s) (drain_ticks n env st)"

definition search_subsystem :: "nat \<Rightarrow> mail_env \<Rightarrow> storage \<Rightarrow> 'z app_world_scheme \<Rightarrow> 'z app_world_scheme option" where
  "search_subsystem n env st s = drain_ticks n env st (snd (reconcile_on_startup s))"

end
