(* ===== verification/SearchQuery.thy ===== *)
theory SearchQuery
  imports Texts
begin

text \<open>
  The search query language (\<open>crates/core/src/search/query.rs\<close>): a tokenizer with double
  quotes and a parser of field hints that never fails; what is malformed degrades to a
  full-text term. Dates are read by the calendar library, so the reader is a parameter; a date
  is its day number.
\<close>

section \<open>The syntax tree\<close>

datatype TextField = SubjectField | FromField | ToField

datatype DateBound = BeforeDate | AfterDate | OnDate

datatype query_term =
    Bare string
  | TextTerm TextField string
  | DateTerm DateBound int
  | Attachments bool
  | AccountTerm string
  | FolderTerm string

record Clause =
  cl_negated :: bool
  cl_term :: query_term

section \<open>The tokenizer\<close>

definition quote_char :: string where
  "quote_char = [CHR 0x22]"

text \<open>The loop over the characters, with its flags and the token being built.\<close>

fun tokenize_loop :: "string list \<Rightarrow> bool \<Rightarrow> bool \<Rightarrow> string \<Rightarrow> string list" where
  "tokenize_loop [] in_quotes started current = (if started then [current] else [])"
| "tokenize_loop (ch # cs) in_quotes started current =
    (if in_quotes then
       (if ch = quote_char then tokenize_loop cs False started current
        else tokenize_loop cs True started (current @ ch))
     else if ch = quote_char then tokenize_loop cs True True current
     else if is_whitespace ch then
       (if started then current # tokenize_loop cs False False [] else tokenize_loop cs False started current)
     else tokenize_loop cs False True (current @ ch))"

definition tokenize :: "string \<Rightarrow> string list" where
  "tokenize input = tokenize_loop (chars input) False False []"

section \<open>The parser\<close>

definition split_once_colon :: "string \<Rightarrow> (string \<times> string) option" where
  "split_once_colon s =
    (case dropWhile (\<lambda>c. c \<noteq> CHR '':'') s of
       [] \<Rightarrow> None
     | _ # rest \<Rightarrow> Some (takeWhile (\<lambda>c. c \<noteq> CHR '':'') s, rest))"

definition parse_field :: "(string \<Rightarrow> int option) \<Rightarrow> string \<Rightarrow> string \<Rightarrow> query_term option" where
  "parse_field parse_date field v =
    (if v = [] then None
     else if field = ''subject'' then Some (TextTerm SubjectField v)
     else if field = ''from'' then Some (TextTerm FromField v)
     else if field = ''to'' then Some (TextTerm ToField v)
     else if field = ''account'' then Some (AccountTerm v)
     else if field = ''folder'' then Some (FolderTerm v)
     else if field = ''before'' then map_option (DateTerm BeforeDate) (parse_date v)
     else if field = ''after'' then map_option (DateTerm AfterDate) (parse_date v)
     else if field = ''date'' then map_option (DateTerm OnDate) (parse_date v)
     else if field = ''attachments'' \<and> eq_ignore_ascii_case v ''none'' then Some (Attachments False)
     else if field = ''attachments'' \<and> eq_ignore_ascii_case v ''some'' then Some (Attachments True)
     else if field = ''has'' \<and> eq_ignore_ascii_case v ''attachment'' then Some (Attachments True)
     else None)"

definition parse_term :: "(string \<Rightarrow> int option) \<Rightarrow> string \<Rightarrow> query_term" where
  "parse_term parse_date rest =
    (case split_once_colon rest of
       None \<Rightarrow> Bare rest
     | Some (field, v) \<Rightarrow> (case parse_field parse_date field v of None \<Rightarrow> Bare rest | Some t \<Rightarrow> t))"

definition parse_token :: "(string \<Rightarrow> int option) \<Rightarrow> string \<Rightarrow> Clause option" where
  "parse_token parse_date token =
    (let (negated, rest) = (if starts_with ''!'' token then (True, drop 1 token) else (False, token))
     in if rest = [] then None else Some \<lparr>cl_negated = negated, cl_term = parse_term parse_date rest\<rparr>)"

definition parse_query :: "(string \<Rightarrow> int option) \<Rightarrow> string \<Rightarrow> Clause list" where
  "parse_query parse_date input = List.map_filter (parse_token parse_date) (tokenize input)"

section \<open>A reference tokenizer\<close>

text \<open>
  The documented grammar: a token is a maximal run of pieces, a piece a character that is
  neither white space nor a quote, or the content of a quoted run (which ends with the input
  when it is not closed).
\<close>

definition after_quote :: "string list \<Rightarrow> string list" where
  "after_quote cs = drop 1 (dropWhile (\<lambda>c. c \<noteq> quote_char) cs)"

lemma after_quote_shorter: "length (after_quote cs) \<le> length cs"
  unfolding after_quote_def by (metis diff_le_self le_trans length_drop length_dropWhile_le)

function one_token :: "string list \<Rightarrow> string \<times> string list" where
  "one_token [] = ([], [])"
| "one_token (c # cs) =
    (if c = quote_char then
       (case one_token (after_quote cs) of
          (t, rest) \<Rightarrow> (concat (takeWhile (\<lambda>c. c \<noteq> quote_char) cs) @ t, rest))
     else if is_whitespace c then ([], c # cs)
     else (case one_token cs of (t, rest) \<Rightarrow> (c @ t, rest)))"
  by pat_completeness auto
termination
  by (relation "measure length") (auto simp: less_Suc_eq_le after_quote_shorter)

lemma one_token_shorter: "length (snd (one_token cs)) \<le> length cs"
proof (induction cs rule: one_token.induct)
  case 1
  then show ?case by simp
next
  case (2 c cs)
  with after_quote_shorter [of cs] show ?case by (auto split: prod.splits)
qed

function grammar_tokens :: "string list \<Rightarrow> string list" where
  "grammar_tokens [] = []"
| "grammar_tokens (c # cs) =
    (if is_whitespace c then grammar_tokens cs
     else fst (one_token (c # cs)) # grammar_tokens (drop 1 (snd (one_token (c # cs)))))"
  by pat_completeness auto
termination
proof (relation "measure length")
  fix c :: string and cs
  have "length (snd (one_token (c # cs))) \<le> Suc (length cs)" using one_token_shorter [of "c # cs"] by simp
  then show "(drop 1 (snd (one_token (c # cs))), c # cs) \<in> measure length" by simp
qed simp_all

section \<open>The tokenizer meets its grammar\<close>

lemma tokenize_loop_spec:
  "tokenize_loop cs False True current = (current @ fst (one_token cs)) # grammar_tokens (drop 1 (snd (one_token cs)))"
  "tokenize_loop cs True True current =
    (current @ concat (takeWhile (\<lambda>c. c \<noteq> quote_char) cs) @ fst (one_token (after_quote cs)))
      # grammar_tokens (drop 1 (snd (one_token (after_quote cs))))"
  "tokenize_loop cs False False [] = grammar_tokens cs"
proof (induction cs arbitrary: current)
  case (Cons c cs)
  {
    case 1
    from Cons show ?case by (auto split: prod.splits simp: Cons)
  next
    case 2
    from Cons show ?case by (auto simp: after_quote_def)
  next
    case 3
    have ws: "\<not> is_whitespace quote_char" by code_simp
    from Cons ws show ?case by (auto split: prod.splits)
  }
qed (simp_all add: after_quote_def)

text \<open>
  C38. The tokenizer's loop with its two flags and its buffer computes exactly the documented
  grammar: a token is a maximal run of pieces, a piece a character that is neither white space
  nor a double quote, or the content of a quoted run.
\<close>

theorem tokenize_meets_grammar: "tokenize input = grammar_tokens (chars input)"
  unfolding tokenize_def by (rule tokenize_loop_spec(3))

section \<open>The documented language\<close>

text \<open>
  Which texts are hints, said field by field: the name, a colon and a value that is not empty, and
  is a date or one of the words where the field wants one.
\<close>

inductive field_hint :: "(string \<Rightarrow> int option) \<Rightarrow> string \<Rightarrow> query_term \<Rightarrow> bool" for pd where
  hint_subject: "v \<noteq> [] \<Longrightarrow> field_hint pd (''subject:'' @ v) (TextTerm SubjectField v)"
| hint_from: "v \<noteq> [] \<Longrightarrow> field_hint pd (''from:'' @ v) (TextTerm FromField v)"
| hint_to: "v \<noteq> [] \<Longrightarrow> field_hint pd (''to:'' @ v) (TextTerm ToField v)"
| hint_account: "v \<noteq> [] \<Longrightarrow> field_hint pd (''account:'' @ v) (AccountTerm v)"
| hint_folder: "v \<noteq> [] \<Longrightarrow> field_hint pd (''folder:'' @ v) (FolderTerm v)"
| hint_before: "v \<noteq> [] \<Longrightarrow> pd v = Some d \<Longrightarrow> field_hint pd (''before:'' @ v) (DateTerm BeforeDate d)"
| hint_after: "v \<noteq> [] \<Longrightarrow> pd v = Some d \<Longrightarrow> field_hint pd (''after:'' @ v) (DateTerm AfterDate d)"
| hint_date: "v \<noteq> [] \<Longrightarrow> pd v = Some d \<Longrightarrow> field_hint pd (''date:'' @ v) (DateTerm OnDate d)"
| hint_none: "eq_ignore_ascii_case v ''none'' \<Longrightarrow> field_hint pd (''attachments:'' @ v) (Attachments False)"
| hint_some: "eq_ignore_ascii_case v ''some'' \<Longrightarrow> field_hint pd (''attachments:'' @ v) (Attachments True)"
| hint_has: "eq_ignore_ascii_case v ''attachment'' \<Longrightarrow> field_hint pd (''has:'' @ v) (Attachments True)"

text \<open>
  What is not a hint is a full-text term, whole. An exclamation mark before either negates it.
\<close>

inductive term_reads :: "(string \<Rightarrow> int option) \<Rightarrow> string \<Rightarrow> query_term \<Rightarrow> bool" for pd where
  hinted: "field_hint pd body t \<Longrightarrow> term_reads pd body t"
| full_text: "\<nexists>t. field_hint pd body t \<Longrightarrow> term_reads pd body (Bare body)"

inductive clause_reads :: "(string \<Rightarrow> int option) \<Rightarrow> string \<Rightarrow> Clause \<Rightarrow> bool" for pd where
  positive: "c \<noteq> CHR ''!'' \<Longrightarrow> term_reads pd (c # body) t \<Longrightarrow>
    clause_reads pd (c # body) \<lparr>cl_negated = False, cl_term = t\<rparr>"
| negative: "body \<noteq> [] \<Longrightarrow> term_reads pd body t \<Longrightarrow>
    clause_reads pd (CHR ''!'' # body) \<lparr>cl_negated = True, cl_term = t\<rparr>"

inductive_simps term_reads_simps: "term_reads pd body t"

inductive_simps clause_reads_simps: "clause_reads pd tok c"

section \<open>The parser reads the language\<close>

lemma split_colon_join [simp]: "CHR '':'' \<notin> set f \<Longrightarrow> split_once_colon (f @ CHR '':'' # v) = Some (f, v)"
proof -
  assume f: "CHR '':'' \<notin> set f"
  then have "dropWhile (\<lambda>c. c \<noteq> CHR '':'') f = []" by auto
  with f show ?thesis by (simp add: split_once_colon_def takeWhile_tail dropWhile_append2 takeWhile_append2)
qed

lemma split_colon_SomeD:
  assumes "split_once_colon s = Some (f, v)"
  shows "s = f @ CHR '':'' # v"
proof -
  from assms obtain c where d: "dropWhile (\<lambda>c. c \<noteq> CHR '':'') s = c # v" and f: "f = takeWhile (\<lambda>c. c \<noteq> CHR '':'') s"
    unfolding split_once_colon_def by (auto split: list.splits)
  from d hd_dropWhile [of "\<lambda>c. c \<noteq> CHR '':''" s] have "c = CHR '':''" by simp
  with d f takeWhile_dropWhile_id [of "\<lambda>c. c \<noteq> CHR '':''" s] show ?thesis by simp
qed

text \<open>A hint cut at its colon, and its value.\<close>

lemma hint_fields:
  assumes "field_hint pd body t"
  shows "\<exists>f v. split_once_colon body = Some (f, v) \<and> parse_field pd f v = Some t"
proof -
  have cut: "split_once_colon (''subject:'' @ v) = Some (''subject'', v)" "split_once_colon (''from:'' @ v) = Some (''from'', v)"
    "split_once_colon (''to:'' @ v) = Some (''to'', v)" "split_once_colon (''account:'' @ v) = Some (''account'', v)"
    "split_once_colon (''folder:'' @ v) = Some (''folder'', v)" "split_once_colon (''before:'' @ v) = Some (''before'', v)"
    "split_once_colon (''after:'' @ v) = Some (''after'', v)" "split_once_colon (''date:'' @ v) = Some (''date'', v)"
    "split_once_colon (''attachments:'' @ v) = Some (''attachments'', v)" "split_once_colon (''has:'' @ v) = Some (''has'', v)" for v
    by (simp_all add: split_once_colon_def)
  have words: "to_ascii_lowercase ''some'' \<noteq> to_ascii_lowercase ''none''" by code_simp
  have empty: "\<not> eq_ignore_ascii_case [] (c # w)" for c w
    by (simp add: eq_ignore_ascii_case_def to_ascii_lowercase_def)
  show ?thesis
    using assms
  proof cases
    case (hint_none v)
    then show ?thesis using cut empty by (cases v) (auto simp: parse_field_def)
  next
    case (hint_some v)
    then have "\<not> eq_ignore_ascii_case v ''none''" using words by (auto simp: eq_ignore_ascii_case_def)
    with hint_some show ?thesis using cut empty by (cases v) (auto simp: parse_field_def)
  next
    case (hint_has v)
    then show ?thesis using cut empty by (cases v) (auto simp: parse_field_def)
  qed (use cut in \<open>auto simp: parse_field_def\<close>)
qed

lemma fields_hint:
  assumes "parse_field pd f v = Some t"
  shows "field_hint pd (f @ CHR '':'' # v) t"
proof -
  consider "f = ''subject''" "t = TextTerm SubjectField v" "v \<noteq> []" | "f = ''from''" "t = TextTerm FromField v" "v \<noteq> []"
    | "f = ''to''" "t = TextTerm ToField v" "v \<noteq> []" | "f = ''account''" "t = AccountTerm v" "v \<noteq> []"
    | "f = ''folder''" "t = FolderTerm v" "v \<noteq> []"
    | d where "f = ''before''" "pd v = Some d" "t = DateTerm BeforeDate d" "v \<noteq> []"
    | d where "f = ''after''" "pd v = Some d" "t = DateTerm AfterDate d" "v \<noteq> []"
    | d where "f = ''date''" "pd v = Some d" "t = DateTerm OnDate d" "v \<noteq> []"
    | "f = ''attachments''" "eq_ignore_ascii_case v ''none''" "t = Attachments False"
    | "f = ''attachments''" "eq_ignore_ascii_case v ''some''" "t = Attachments True"
    | "f = ''has''" "eq_ignore_ascii_case v ''attachment''" "t = Attachments True"
    using assms unfolding parse_field_def by (simp split: if_split_asm) blast+
  then show ?thesis
    using field_hint.intros [of v pd] by cases auto
qed

lemma hint_iff: "field_hint pd body t \<longleftrightarrow> (\<exists>f v. split_once_colon body = Some (f, v) \<and> parse_field pd f v = Some t)"
  using hint_fields fields_hint split_colon_SomeD by metis

lemma term_reads_iff: "term_reads pd body t \<longleftrightarrow> parse_term pd body = t"
  by (auto simp: term_reads_simps hint_iff parse_term_def split: option.splits)

lemma clause_reads_iff: "clause_reads pd tok c \<longleftrightarrow> parse_token pd tok = Some c"
  by (cases tok; cases c) (auto simp: clause_reads_simps term_reads_iff parse_token_def Let_def starts_with_def)

lemma no_clause_iff: "parse_token pd tok = None \<longleftrightarrow> tok = [] \<or> tok = ''!''"
  by (cases tok) (auto simp: parse_token_def Let_def starts_with_def)

lemma filtered_all2:
  assumes "\<And>x y. R x y \<longleftrightarrow> f x = Some y" and "\<And>x. P x \<longleftrightarrow> f x \<noteq> None"
  shows "list_all2 R (filter P xs) ys \<longleftrightarrow> List.map_filter f xs = ys"
  by (induction xs arbitrary: ys) (auto simp: assms list_all2_Cons1 split: option.splits)

text \<open>
  C27. Parsing is total and reads exactly the documented language: the clauses of a text are those
  that its tokens stand for, in order and one for each token but the empty one and the lone
  exclamation mark. A token is negated by a leading exclamation mark; what follows is a field's
  hint, where its value is not empty and readable, and otherwise one full-text term, colon and all.
\<close>

theorem parse_query_reads:
  "parse_query pd s = cs \<longleftrightarrow>
    list_all2 (clause_reads pd) [tok \<leftarrow> grammar_tokens (chars s). tok \<noteq> [] \<and> tok \<noteq> ''!''] cs"
proof -
  have "list_all2 (clause_reads pd) [tok \<leftarrow> tokenize s. tok \<noteq> [] \<and> tok \<noteq> ''!''] cs \<longleftrightarrow>
      List.map_filter (parse_token pd) (tokenize s) = cs"
    using no_clause_iff by (intro filtered_all2 clause_reads_iff) auto
  then show ?thesis by (simp add: parse_query_def tokenize_def tokenize_loop_spec(3))
qed

section \<open>Concrete inputs\<close>

definition sample_date :: "string \<Rightarrow> int option" where
  "sample_date v = (if v = ''2024-03-01'' then Some 19783 else if v = ''2024-03-02'' then Some 19784 else None)"

definition sample_query :: string where
  "sample_query = ''!from:bob before:2024-03-02 date:soon to: ! tax  '' @ quote_char @ ''annual report'' @ quote_char"

text \<open>A negated hint, a date, a date that cannot be read, an empty value, a lone mark, and a quoted phrase.\<close>

lemma sample_query_parsed:
  "parse_query sample_date sample_query =
    [\<lparr>cl_negated = True, cl_term = TextTerm FromField ''bob''\<rparr>,
     \<lparr>cl_negated = False, cl_term = DateTerm BeforeDate 19784\<rparr>,
     \<lparr>cl_negated = False, cl_term = Bare ''date:soon''\<rparr>,
     \<lparr>cl_negated = False, cl_term = Bare ''to:''\<rparr>,
     \<lparr>cl_negated = False, cl_term = Bare ''tax''\<rparr>,
     \<lparr>cl_negated = False, cl_term = Bare ''annual report''\<rparr>]"
  by code_simp

end
