(* ===== verification/SearchService.thy ===== *)
theory SearchService
  imports SearchIndexer SearchQuery Accounts
begin

text \<open>
  The search service (\<open>crates/search/src/service.rs\<close>): the clauses of a query are split,
  account and folder names resolved among the user's own, and the rest compiled to a query of
  the search engine under a mandatory account scope; queries of folder names only are answered
  from the database.

  The engine, the stemming analyzer and the calendar are external: \<open>search_env\<close> holds them,
  and \<open>engine_ok\<close> is what the engine documents. Unicode lower-casing (the tables of the
  standard library) is a parameter too. A set that the code iterates in no fixed order is a list
  here.
\<close>

section \<open>Queries of the engine\<close>

datatype ix_field = SubjectText | BodyText | FromText | ToText

datatype ix_bound = Unbounded | Included int | Excluded int

datatype occur = Must | Should | MustNot

datatype ix_query =
    EmptyQuery
  | TermQuery ix_field string
  | PhraseQuery ix_field "string list"
  | AccountQuery AccountId
  | AttachmentsQuery bool
  | SentDateRange ix_bound ix_bound
  | BooleanQuery "(occur \<times> ix_query) list"

record search_env =
  se_tokens :: "string \<Rightarrow> string list"
  se_lower :: "string \<Rightarrow> string"
  se_parse_date :: "string \<Rightarrow> int option"
  se_last_day :: int
  se_text :: "ix_field \<Rightarrow> string list \<Rightarrow> SearchDoc \<Rightarrow> bool"
  se_engine :: "SearchDoc list \<Rightarrow> ix_query \<Rightarrow> nat \<Rightarrow> nat \<times> SearchDoc list"

definition text_field_query :: "search_env \<Rightarrow> ix_field \<Rightarrow> string \<Rightarrow> ix_query" where
  "text_field_query env f v =
    (case se_tokens env v of [] \<Rightarrow> EmptyQuery | [one] \<Rightarrow> TermQuery f one | many \<Rightarrow> PhraseQuery f many)"

definition bare_query :: "search_env \<Rightarrow> string \<Rightarrow> ix_query" where
  "bare_query env v =
    BooleanQuery [(Should, text_field_query env SubjectText v), (Should, text_field_query env BodyText v)]"

definition day_start :: "int \<Rightarrow> int" where
  "day_start date = date * 86400"

text \<open>\<open>succ_opt\<close> has no day after the calendar's last one.\<close>

fun date_range_query :: "search_env \<Rightarrow> DateBound \<Rightarrow> int \<Rightarrow> ix_query" where
  "date_range_query env b date =
    (let start = day_start date; after = (if date = se_last_day env then start else day_start (date + 1)) in
     case b of
       OnDate \<Rightarrow> SentDateRange (Included start) (Excluded after)
     | BeforeDate \<Rightarrow> SentDateRange Unbounded (Excluded start)
     | AfterDate \<Rightarrow> SentDateRange (Included after) Unbounded)"

fun text_field :: "TextField \<Rightarrow> ix_field" where
  "text_field SubjectField = SubjectText"
| "text_field FromField = FromText"
| "text_field ToField = ToText"

definition clause_query :: "search_env \<Rightarrow> Clause \<Rightarrow> occur \<times> ix_query" where
  "clause_query env c =
    (if cl_negated c then MustNot else Must,
     case cl_term c of
       Bare v \<Rightarrow> bare_query env v
     | TextTerm f v \<Rightarrow> text_field_query env (text_field f) v
     | DateTerm b d \<Rightarrow> date_range_query env b d
     | Attachments has \<Rightarrow> AttachmentsQuery has
     | AccountTerm _ \<Rightarrow> EmptyQuery
     | FolderTerm _ \<Rightarrow> EmptyQuery)"

definition build_query :: "search_env \<Rightarrow> AccountId list \<Rightarrow> Clause list \<Rightarrow> ix_query" where
  "build_query env scope residual =
    BooleanQuery ((Must, BooleanQuery (map (\<lambda>i. (Should, AccountQuery i)) scope)) # map (clause_query env) residual)"

section \<open>What the engine documents\<close>

fun in_bounds :: "ix_bound \<Rightarrow> ix_bound \<Rightarrow> int \<Rightarrow> bool" where
  "in_bounds lo hi t \<longleftrightarrow>
    (case lo of Unbounded \<Rightarrow> True | Included a \<Rightarrow> a \<le> t | Excluded a \<Rightarrow> a < t) \<and>
    (case hi of Unbounded \<Rightarrow> True | Included b \<Rightarrow> t \<le> b | Excluded b \<Rightarrow> t < b)"

text \<open>
  A document matches a boolean query when it matches every \<open>Must\<close>, no \<open>MustNot\<close>,
  and, when there is no \<open>Must\<close>, at least one \<open>Should\<close>.
\<close>

fun ix_matches :: "search_env \<Rightarrow> SearchDoc \<Rightarrow> ix_query \<Rightarrow> bool" where
  "ix_matches env d EmptyQuery = False"
| "ix_matches env d (TermQuery f w) = se_text env f [w] d"
| "ix_matches env d (PhraseQuery f ws) = se_text env f ws d"
| "ix_matches env d (AccountQuery i) = (sd_account_id d = i)"
| "ix_matches env d (AttachmentsQuery b) = (sd_has_attachments d = b)"
| "ix_matches env d (SentDateRange lo hi) = (case sd_sent_date d of None \<Rightarrow> False | Some t \<Rightarrow> in_bounds lo hi t)"
| "ix_matches env d (BooleanQuery qs) =
    (list_all (\<lambda>oq. case oq of (Must, q) \<Rightarrow> ix_matches env d q | (MustNot, q) \<Rightarrow> \<not> ix_matches env d q | (Should, q) \<Rightarrow> True) qs \<and>
     (list_ex (\<lambda>oq. fst oq = Must) qs \<or>
      list_ex (\<lambda>oq. case oq of (Should, q) \<Rightarrow> ix_matches env d q | _ \<Rightarrow> False) qs))"

text \<open>Newest first; a document without a date comes last.\<close>

definition recency :: "SearchDoc \<Rightarrow> nat \<times> int" where
  "recency d = (case sd_sent_date d of None \<Rightarrow> (1, 0) | Some t \<Rightarrow> (0, - t))"

definition engine_ok :: "search_env \<Rightarrow> bool" where
  "engine_ok env \<longleftrightarrow> (\<forall>docs q n. case se_engine env docs q n of (count, found) \<Rightarrow>
     count = length (filter (\<lambda>d. ix_matches env d q) docs) \<and> length found = min n count \<and>
     set found \<subseteq> {d \<in> set docs. ix_matches env d q} \<and> sorted (map recency found))"

section \<open>Names\<close>

text \<open>Account hints, folder hints (negated, name) and the other clauses.\<close>

fun split_clauses :: "Clause list \<Rightarrow> (bool \<times> string) list \<times> (bool \<times> string) list \<times> Clause list" where
  "split_clauses [] = ([], [], [])"
| "split_clauses (c # cs) =
    (case split_clauses cs of (accounts, folders, residual) \<Rightarrow>
      (case cl_term c of
         AccountTerm n \<Rightarrow> ((cl_negated c, n) # accounts, folders, residual)
       | FolderTerm n \<Rightarrow> (accounts, (cl_negated c, n) # folders, residual)
       | _ \<Rightarrow> (accounts, folders, c # residual)))"

text \<open>The last account of a name wins.\<close>

definition account_names :: "search_env \<Rightarrow> Account list \<Rightarrow> string \<Rightarrow> AccountId option" where
  "account_names env accounts = foldl (\<lambda>m a. m(se_lower env (acc_display_name a) \<mapsto> acc_id a)) (\<lambda>_. None) accounts"

definition scope_step :: "AccountId option \<Rightarrow> bool \<Rightarrow> AccountId list \<Rightarrow> AccountId list" where
  "scope_step found negated scope =
    (if negated then (case found of Some i \<Rightarrow> removeAll i scope | None \<Rightarrow> scope)
     else (case found of Some i \<Rightarrow> if i \<in> set scope then [i] else [] | None \<Rightarrow> []))"

definition resolve_scope :: "search_env \<Rightarrow> Account list \<Rightarrow> (bool \<times> string) list \<Rightarrow> AccountId list" where
  "resolve_scope env accounts hints =
    foldl (\<lambda>scope (negated, name). scope_step (account_names env accounts (se_lower env name)) negated scope)
      (remdups (map acc_id accounts)) hints"

definition folder_named :: "search_env \<Rightarrow> string \<Rightarrow> Folder \<Rightarrow> bool" where
  "folder_named env needle f \<longleftrightarrow> contains needle (se_lower env (fld_path f)) \<or>
     (case fld_display_name f of None \<Rightarrow> False | Some d \<Rightarrow> contains needle (se_lower env d))"

definition folder_constraint :: "search_env \<Rightarrow> Folder list \<Rightarrow> bool \<times> string \<Rightarrow> bool \<times> FolderId list" where
  "folder_constraint env folders hint =
    (fst hint, map fld_id (filter (folder_named env (se_lower env (snd hint))) folders))"

section \<open>The search\<close>

record SearchHit =
  sh_message_id :: MessageId
  sh_account_id :: AccountId
  sh_snippet :: string

record SearchResults =
  sr_total :: nat
  sr_hits :: "SearchHit list"

definition no_results :: SearchResults where
  "no_results = \<lparr>sr_total = 0, sr_hits = []\<rparr>"

definition FOLDER_OVERFETCH :: nat where
  "FOLDER_OVERFETCH = 10"

definition MAX_FETCH :: nat where
  "MAX_FETCH = 10000"

definition fetch_limit :: "u32 \<Rightarrow> u32 \<Rightarrow> bool \<Rightarrow> nat" where
  "fetch_limit limit offset constrained =
    (let want = unat offset + unat limit in max 1 (min MAX_FETCH (if constrained then want * FOLDER_OVERFETCH else want)))"

definition search_names ::
  "search_env \<Rightarrow> UserId \<Rightarrow> (bool \<times> string) list \<Rightarrow> (bool \<times> string) list \<Rightarrow>
    ('z, AccountId list \<times> (bool \<times> FolderId list) list) dbm"
where
  "search_names env u account_hints folder_hints =
    read_only_transaction (bindE (account_list_for_user u) (\<lambda>accounts.
      let scope = resolve_scope env accounts account_hints in
      if scope = [] then ret ([], [])
      else bindE (mapE folder_list_for_account scope) (\<lambda>folders.
        ret (scope, map (folder_constraint env (concat folders)) folder_hints))))"

text \<open>
  The groups of a query of folder names only; \<open>None\<close> when a required name has no folder.
\<close>

fun folder_groups :: "(bool \<times> FolderId list) list \<Rightarrow> (FolderId list list \<times> FolderId list) option" where
  "folder_groups [] = Some ([], [])"
| "folder_groups ((negated, ids) # cs) =
    (if negated then map_option (\<lambda>(include, exclude). (include, ids @ exclude)) (folder_groups cs)
     else if ids = [] then None
     else map_option (\<lambda>(include, exclude). (ids # include, exclude)) (folder_groups cs))"

definition message_hit :: "Message \<Rightarrow> SearchHit" where
  "message_hit m = \<lparr>sh_message_id = msg_id m, sh_account_id = msg_account_id m, sh_snippet = msg_snippet m\<rparr>"

definition list_folders_of_user ::
  "UserId \<Rightarrow> (bool \<times> FolderId list) list \<Rightarrow> u32 \<Rightarrow> u32 \<Rightarrow> ('z, SearchResults) dbm"
where
  "list_folders_of_user u constraints limit offset =
    (case folder_groups constraints of
       None \<Rightarrow> ret no_results
     | Some (include_groups, exclude) \<Rightarrow>
         bindE (read_only_transaction (list_and_count_by_folders_for_user u include_groups exclude limit offset)) (\<lambda>(count, messages).
         ret \<lparr>sr_total = count, sr_hits = map message_hit messages\<rparr>))"

definition doc_hit :: "SearchDoc \<Rightarrow> ('z, SearchHit) am" where
  "doc_hit d =
    bindE (ix_call tantivy_error) (\<lambda>_.
    bindE (ix_call tantivy_error) (\<lambda>_.
    ret \<lparr>sh_message_id = sd_message_id d, sh_account_id = sd_account_id d, sh_snippet = sd_snippet d\<rparr>))"

fun folder_filter :: "MessageId list \<Rightarrow> (bool \<times> FolderId list) list \<Rightarrow> MessageId list \<Rightarrow> ('z, MessageId list) dbm" where
  "folder_filter ranked [] keep = ret keep"
| "folder_filter ranked ((negated, ids) # cs) keep =
    (if ids = [] then (if negated then folder_filter ranked cs keep else ret [])
     else bindE (filter_message_ids_in_folders ranked ids) (\<lambda>matched.
       folder_filter ranked cs (filter (\<lambda>i. (i \<in> set matched) \<noteq> negated) keep)))"

text \<open>The documents found, in rank order, to the page of hits: the folder names filter first.\<close>

definition hits_page ::
  "(bool \<times> FolderId list) list \<Rightarrow> u32 \<Rightarrow> u32 \<Rightarrow> nat \<times> SearchDoc list \<Rightarrow> ('z, SearchResults) am"
where
  "hits_page constraints limit offset found =
    bindE (mapE doc_hit (snd found)) (\<lambda>hits.
    bindE (if constraints = [] then ret hits
      else bindE (read_only_transaction (folder_filter (map sh_message_id hits) constraints (map sh_message_id hits)))
        (\<lambda>keep. ret (filter (\<lambda>h. sh_message_id h \<in> set keep) hits))) (\<lambda>kept.
    ret \<lparr>sr_total = fst found, sr_hits = page limit offset kept\<rparr>))"

definition search_index ::
  "search_env \<Rightarrow> AccountId list \<Rightarrow> (bool \<times> FolderId list) list \<Rightarrow> Clause list \<Rightarrow> u32 \<Rightarrow> u32 \<Rightarrow> ('z, SearchResults) am"
where
  "search_index env scope constraints residual limit offset =
    bindE (ix_call index_error) (\<lambda>_.
    bindE (ix_call tantivy_error) (\<lambda>_.
    bindE (getsE (\<lambda>s. se_engine env (ix_docs s) (build_query env scope residual)
      (fetch_limit limit offset (constraints \<noteq> [])))) (hits_page constraints limit offset)))"

definition search :: "search_env \<Rightarrow> UserId \<Rightarrow> string \<Rightarrow> u32 \<Rightarrow> u32 \<Rightarrow> ('z, SearchResults) am" where
  "search env u query_text limit offset =
    (case split_clauses (parse_query (se_parse_date env) query_text) of (account_hints, folder_hints, residual) \<Rightarrow>
      bindE (search_names env u account_hints folder_hints) (\<lambda>(scope, constraints).
        if scope = [] then ret no_results
        else if residual = [] \<and> constraints \<noteq> [] then list_folders_of_user u constraints limit offset
        else search_index env scope constraints residual limit offset))"

end
