(* ===== verification/SearchIndexerProps.thy ===== *)
theory SearchIndexerProps
  imports SearchIndexer AccountProps
begin

text \<open>
  Properties of the indexer: draining ends, whatever fails; the index has one document per
  message; and once the version file is current a message flagged as indexed has its document, so
  that a start that ends well leaves every readable message searchable. A rebuild that fails
  half-way can hide mail until the next start.
\<close>

section \<open>What a batch does to the index\<close>

text \<open>What the index will hold once the queued operations are committed.\<close>

definition pending_docs :: "'z app_world_scheme \<Rightarrow> SearchDoc list" where
  "pending_docs s = foldl apply_op (ix_docs s) (ix_ops s)"

definition base :: "'z app_world_scheme \<Rightarrow> db \<times> (path \<Rightarrow> bytes option) \<times> u32 option" where
  "base s = (tx_db s, w_files s, ix_version s)"

lemma base_eqD: "base t = base s \<Longrightarrow> tx_db t = tx_db s \<and> w_files t = w_files s \<and> ix_version t = ix_version s"
  by (simp add: base_def)

lemma ix_call_run:
  assumes "ix_call f s = (r, t)"
  shows "base t = base s" and "ix_docs t = ix_docs s" and "ix_ops t = ix_ops s"
  using assms by (auto simp: ix_call_def base_def split: list.splits option.splits)

lemma write_doc_run:
  assumes "write_doc x s = (r, t)"
  shows "base t = base s" and "ix_docs t = ix_docs s"
    and "pending_docs t = delete_where (\<lambda>d. sd_message_id d = fst x) (pending_docs s) @ (if isl r then [] else [snd x])"
proof -
  obtain r1 s1 where c: "ix_call tantivy_error (s\<lparr>ix_ops := ix_ops s @ [DeleteMessageDocs (fst x)]\<rparr>) = (r1, s1)"
    by fastforce
  note run = ix_call_run [OF c]
  from assms c have "r = r1 \<and> t = (if isl r1 then s1 else s1\<lparr>ix_ops := ix_ops s1 @ [AddDoc (snd x)]\<rparr>)"
    by (auto simp: write_doc_def queue_op_def bindE_def split: sum.splits)
  with run show "base t = base s" "ix_docs t = ix_docs s"
    "pending_docs t = delete_where (\<lambda>d. sd_message_id d = fst x) (pending_docs s) @ (if isl r then [] else [snd x])"
    by (auto simp: base_def pending_docs_def)
qed

definition one_each :: "SearchDoc list \<Rightarrow> bool" where
  "one_each docs \<longleftrightarrow> distinct (map sd_message_id docs)"

definition keyed :: "(MessageId \<times> SearchDoc) list \<Rightarrow> bool" where
  "keyed xs \<longleftrightarrow> distinct (map fst xs) \<and> (\<forall>x \<in> set xs. sd_message_id (snd x) = fst x)"

lemma write_docs_run:
  assumes "for_each write_doc xs s = (r, t)" and "keyed xs" and "one_each (pending_docs s)"
    and "D \<subseteq> set (pending_docs s)" and "\<forall>d \<in> D. sd_message_id d \<notin> fst ` set xs"
  shows "base t = base s \<and> ix_docs t = ix_docs s \<and> one_each (pending_docs t) \<and> D \<subseteq> set (pending_docs t) \<and>
    (r = Inr () \<longrightarrow> snd ` set xs \<subseteq> set (pending_docs t))"
  using assms
proof (induction xs arbitrary: s D)
  case Nil
  then show ?case by (simp add: act_eval)
next
  case (Cons x xs)
  obtain r1 s1 where w: "write_doc x s = (r1, s1)" by fastforce
  note run = write_doc_run [OF w]
  from Cons.prems(2) have x: "sd_message_id (snd x) = fst x" and xs: "keyed xs" "fst x \<notin> fst ` set xs"
    by (simp_all add: keyed_def)
  have "one_each (delete_where (\<lambda>d. sd_message_id d = fst x) (pending_docs s))"
    using Cons.prems(3) by (simp add: one_each_def delete_where_def distinct_map_filter)
  then have one: "one_each (pending_docs s1)"
    unfolding run(3) by (auto simp: one_each_def x)
  from Cons.prems(4,5) have keep: "D \<subseteq> set (pending_docs s1)" unfolding run(3) by fastforce
  show ?case
  proof (cases r1)
    case (Inl e)
    with w Cons.prems(1) have "t = s1" "r = Inl e" by (simp_all add: bindE_def)
    with run one keep show ?thesis by simp
  next
    case (Inr u)
    with w Cons.prems(1) have rest: "for_each write_doc xs s1 = (r, t)" by (simp add: bindE_def)
    have "insert (snd x) D \<subseteq> set (pending_docs s1)" using keep Inr run(3) by simp
    moreover have "\<forall>d \<in> insert (snd x) D. sd_message_id d \<notin> fst ` set xs"
      using Cons.prems(5) xs(2) x by simp
    ultimately have "base t = base s1 \<and> ix_docs t = ix_docs s1 \<and> one_each (pending_docs t) \<and>
        insert (snd x) D \<subseteq> set (pending_docs t) \<and> (r = Inr () \<longrightarrow> snd ` set xs \<subseteq> set (pending_docs t))"
      by (rule Cons.IH [OF rest xs(1) one])
    with run(1,2) show ?thesis by simp
  qed
qed

definition index_ok :: "'z app_world_scheme \<Rightarrow> bool" where
  "index_ok s \<longleftrightarrow> one_each (ix_docs s) \<and> one_each (pending_docs s)"

definition indexed_docs :: "SearchDoc set \<Rightarrow> 'z app_world_scheme \<Rightarrow> bool" where
  "indexed_docs D s \<longleftrightarrow> D \<subseteq> set (ix_docs s) \<and> D \<subseteq> set (pending_docs s)"

lemma indexed_docs_mono: "D \<subseteq> E \<Longrightarrow> indexed_docs E s \<Longrightarrow> indexed_docs D s"
  by (auto simp: indexed_docs_def)

lemma commit_run:
  assumes "commit_writer s = (r, t)"
  shows "base t = base s" and "isl r \<Longrightarrow> ix_docs t = ix_docs s \<and> pending_docs t = pending_docs s"
    and "\<not> isl r \<Longrightarrow> ix_docs t = pending_docs s \<and> pending_docs t = pending_docs s"
  using assms by (auto simp: commit_writer_def bindE_def pending_docs_def ix_call_def base_def split: list.splits option.splits)

lemma write_batch_run:
  assumes run: "write_batch xs s = (r, t)" and "keyed xs" and ok: "index_ok s"
    and D: "indexed_docs D s" and "\<forall>d \<in> D. sd_message_id d \<notin> fst ` set xs"
  shows "base t = base s \<and> index_ok t \<and> indexed_docs D t \<and> (r = Inr () \<longrightarrow> indexed_docs (snd ` set xs) t)"
proof -
  obtain r1 s1 where l: "lock_writer s = (r1, s1)" by fastforce
  note lock = ix_call_run [OF l [unfolded lock_writer_def]]
  have p1: "pending_docs s1 = pending_docs s" by (simp add: pending_docs_def lock)
  obtain r2 s2 where f: "for_each write_doc xs s1 = (r2, s2)" by fastforce
  have docs: "base s2 = base s1 \<and> ix_docs s2 = ix_docs s1 \<and> one_each (pending_docs s2) \<and> D \<subseteq> set (pending_docs s2) \<and>
      (r2 = Inr () \<longrightarrow> snd ` set xs \<subseteq> set (pending_docs s2))"
    by (rule write_docs_run [OF f assms(2)]) (use ok D assms(5) in \<open>simp_all add: p1 index_ok_def indexed_docs_def\<close>)
  obtain r3 s3 where c: "commit_writer s2 = (r3, s3)" by fastforce
  note commit = commit_run [OF c]
  show ?thesis
  proof (cases "isl r1 \<or> isl r2")
    case True
    have "isl r \<and> (t = s1 \<or> t = s2)"
      using run l f True by (cases r1; cases r2) (auto simp: write_batch_def bindE_def)
    then show ?thesis using docs lock p1 ok D by (auto simp: index_ok_def indexed_docs_def)
  next
    case False
    then have "r = r3 \<and> t = s3 \<and> r2 = Inr ()" using run l f c by (cases r1; cases r2) (auto simp: write_batch_def bindE_def)
    then show ?thesis using docs lock ok D commit by (cases "isl r3") (auto simp: index_ok_def indexed_docs_def)
  qed
qed

lemma frame_for_each [frame_intros]: "(\<And>x. frame g (f x)) \<Longrightarrow> frame g (for_each f xs)"
  by (induction xs) (auto intro!: frame_intros)

lemma frame_index_ops [frame_intros]:
  "frame base (ix_call f)" "frame base (queue_op x)" "frame base commit_writer" "frame base lock_writer"
proof -
  have call: "frame base (ix_call f)" for f unfolding frame_def by (metis ix_call_run(1) prod.collapse)
  show "frame base (ix_call f)" "frame base lock_writer" unfolding lock_writer_def by (rule call)+
  show "frame base (queue_op x)" unfolding queue_op_def by (rule frame_modifyE) (simp add: base_def)
  show "frame base commit_writer" unfolding frame_def by (metis commit_run(1) prod.collapse)
qed

lemma frame_write_batch: "frame base (write_batch xs)"
  unfolding write_batch_def write_doc_def by (intro frame_intros)

section \<open>A batch\<close>

text \<open>The document a message has, given what the store holds.\<close>

definition doc_of :: "mail_env \<Rightarrow> storage \<Rightarrow> 'z world_scheme \<Rightarrow> Message \<Rightarrow> (MessageId \<times> SearchDoc) option" where
  "doc_of env st s m =
    Option.bind (stored st s (msg_account_id m) (msg_content_hash m)) (\<lambda>raw.
      map_option (\<lambda>body. (msg_id m, to_document m body)) (extract_body env raw))"

lemma doc_of_key: "doc_of env st s m = Some x \<Longrightarrow> fst x = msg_id m \<and> sd_message_id (snd x) = msg_id m"
  by (auto simp: doc_of_def bind_eq_Some_conv to_document_def)

lemma doc_of_indexed [simp]: "doc_of env st s (m\<lparr>msg_indexed := b\<rparr>) = doc_of env st s m"
  by (simp add: doc_of_def to_document_def from_text_def to_text_def)

lemma doc_of_files: "w_files t = w_files s \<Longrightarrow> doc_of env st t m = doc_of env st s m"
  by (simp add: doc_of_def stored_def)

lemma frame_blob_get: "frame (\<lambda>s. (base s, ix_docs s, ix_ops s)) (blob_get st a h)"
  unfolding frame_def
  by (auto simp: blob_get_def bindE_def base_def io_defs pop_io_def act_eval split: option.splits sum.splits list.splits)

lemma frame_fetch: "frame (\<lambda>s. (base s, ix_docs s, ix_ops s)) (fetch_one env st m)"
proof -
  have "frame (\<lambda>s. (base s, ix_docs s, ix_ops s))
      ((case e of BlobNotFound _ _ \<Rightarrow> ret None | _ \<Rightarrow> throw e) :: ('b app_world_scheme, Error, (MessageId \<times> SearchDoc) option) action)" for e
    by (cases e) (simp_all add: frame_intros)
  then show ?thesis unfolding fetch_one_def by (intro frame_intros frame_blob_get)
qed

lemma fetch_one_Inr:
  assumes "fetch_one env st m s = (Inr x, t)"
  shows "x = doc_of env st s m"
proof -
  obtain r s1 where g: "blob_get st (msg_account_id m) (msg_content_hash m) s = (r, s1)" by fastforce
  show ?thesis
  proof (cases r)
    case (Inr raw)
    with assms g have "x = map_option (\<lambda>body. (msg_id m, to_document m body)) (extract_body env raw)"
      by (simp add: fetch_one_def handleE_def act_eval)
    with blob_get_result(3) [OF g Inr] show ?thesis by (simp add: doc_of_def)
  next
    case (Inl e)
    with assms g obtain a h where e: "e = BlobNotFound a h" and x: "x = None"
      by (auto simp: fetch_one_def handleE_def act_eval split: Error.splits)
    with g Inl have "stored st s (msg_account_id m) (msg_content_hash m) = None"
      by (auto simp: blob_get_def bindE_def io_defs stored_def act_eval decrypt_def
          split: option.splits sum.splits list.splits if_splits)
    with x show ?thesis by (simp add: doc_of_def)
  qed
qed

lemma fetch_all_Inr:
  fixes s :: "'z app_world_scheme"
  shows "mapE (fetch_one env st) ms s = (Inr xs, t) \<Longrightarrow> xs = map (doc_of env st s) ms"
proof (induction ms arbitrary: s xs)
  case (Cons m ms)
  from Cons.prems obtain x ys and s1 :: "'z app_world_scheme" where f: "fetch_one env st m s = (Inr x, s1)"
    and g: "mapE (fetch_one env st) ms s1 = (Inr ys, t)" "xs = x # ys"
    by (auto simp: bindE_Inr_iff act_eval)
  from frameD [OF frame_fetch f] have "w_files s1 = w_files s" by (simp add: base_def)
  then have "doc_of env st s1 m = doc_of env st s m" for m by (rule doc_of_files)
  with Cons.IH [OF g(1)] fetch_one_Inr [OF f] g(2) show ?case by simp
qed (simp add: act_eval)

text \<open>The rows a batch takes, and what is left when they are flagged.\<close>

definition unindexed :: "db \<Rightarrow> Message list" where
  "unindexed d = filter (\<lambda>m. \<not> msg_indexed m) (tbl_messages d)"

definition batch :: "db \<Rightarrow> Message list" where
  "batch d = take (unat BATCH) (sort_key (\<lambda>m. sint (msg_id m)) (unindexed d))"

definition mark_rows :: "Message list \<Rightarrow> db \<Rightarrow> db" where
  "mark_rows ms d = d\<lparr>tbl_messages := update_where (\<lambda>m. msg_id m \<in> set (map msg_id ms))
     (\<lambda>m. m\<lparr>msg_indexed := True\<rparr>) (tbl_messages d)\<rparr>"

lemma batch_set: "set (batch d) \<subseteq> set (unindexed d)"
  unfolding batch_def by (metis set_sort set_take_subset)

lemma batch_empty: "batch d = [] \<longleftrightarrow> unindexed d = []"
proof -
  have "unat BATCH = 128" by (simp add: BATCH_def)
  then show ?thesis unfolding batch_def by (metis length_greater_0_conv length_sort take_eq_Nil zero_neq_numeral)
qed

lemma mark_rows_fewer:
  assumes "m \<in> set ms" and "m \<in> set (unindexed d)"
  shows "length (unindexed (mark_rows ms d)) < length (unindexed d)"
proof -
  have eq: "length (filter (\<lambda>m. \<not> msg_indexed m) (update_where (\<lambda>x. msg_id x \<in> I) (\<lambda>m. m\<lparr>msg_indexed := True\<rparr>) xs))
      = length (filter (\<lambda>m. \<not> msg_indexed m \<and> msg_id m \<notin> I) xs)" for I and xs :: "Message list"
    by (induction xs) (auto simp: update_where_def)
  have less: "length (filter (\<lambda>m. \<not> msg_indexed m \<and> msg_id m \<notin> I) xs) < length (filter (\<lambda>m. \<not> msg_indexed m) xs)"
    if "m \<in> set xs" "\<not> msg_indexed m" "msg_id m \<in> I" for I and xs :: "Message list"
  proof -
    have "filter (\<lambda>m. \<not> msg_indexed m \<and> msg_id m \<notin> I) xs = filter (\<lambda>m. msg_id m \<notin> I) (filter (\<lambda>m. \<not> msg_indexed m) xs)"
      by (simp add: conj_commute)
    also have "length \<dots> < length (filter (\<lambda>m. \<not> msg_indexed m) xs)"
      by (rule length_filter_less [of m]) (use that in simp_all)
    finally show ?thesis .
  qed
  from assms less [of "tbl_messages d" "set (map msg_id ms)"] show ?thesis
    unfolding unindexed_def mark_rows_def by (simp add: eq del: set_map) (simp add: eq)
qed

section \<open>One turn of the drain\<close>

lemma list_unindexed_run:
  fixes s :: "'z tx_scheme"
  assumes "read_only_transaction (list_unindexed BATCH) s = (Inr ms, t)"
  shows "ms = batch (tx_db s)"
proof -
  from assms obtain s0 s1 :: "'z tx_scheme" where *: "tx_db s0 = tx_db s" "tx_now s0 = tx_now s" "list_unindexed BATCH s0 = (Inr ms, s1)"
    by (rule read_only_Inr)
  from query_Inr [OF *(3) [unfolded list_unindexed_def]] *(1) show ?thesis by (simp add: batch_def unindexed_def)
qed

lemma mark_indexed_run:
  fixes s :: "'z tx_scheme"
  assumes "transaction (mark_indexed (map msg_id ms)) s = (r, t)"
  shows "tx_db t = (if isl r then tx_db s else mark_rows ms (tx_db s))"
proof (cases r)
  case (Inl e)
  with assms show ?thesis by (simp add: transaction_Inl_db)
next
  case (Inr u)
  with assms have "transaction (mark_indexed (map msg_id ms)) s = (Inr u, t)" by simp
  then obtain s0 s1 :: "'z tx_scheme" where *: "tx_db s0 = tx_db s" "tx_now s0 = tx_now s"
      "mark_indexed (map msg_id ms) s0 = (Inr u, s1)" "tx_db t = tx_db s1"
    by (rule transaction_Inr)
  show ?thesis
  proof (cases "ms = []")
    case True
    with * Inr show ?thesis by (simp add: mark_indexed_def act_eval mark_rows_def update_where_def)
  next
    case False
    with *(3) obtain n where "execute (set_indexed (\<lambda>m. msg_id m \<in> set (map msg_id ms)) True) s0 = (Inr n, s1)"
      by (auto simp: mark_indexed_def bindE_Inr_iff act_eval)
    from execute_Inr [OF this] * Inr show ?thesis by (simp add: set_indexed_def mark_rows_def)
  qed
qed

text \<open>The database statements leave the index and the files alone.\<close>

lemma db_only_index:
  fixes s :: "'z app_world_scheme"
  assumes "db_only m" and "m s = (r, t)"
  shows "w_files t = w_files s" "ix_version t = ix_version s" "ix_docs t = ix_docs s" "ix_ops t = ix_ops s"
proof -
  from db_only_world(6) [OF assms] have "world.more t = world.more s" .
  then show "ix_version t = ix_version s" "ix_docs t = ix_docs s" "ix_ops t = ix_ops s"
    by (cases s; cases t; simp)+
  from db_only_world(2) [OF assms] show "w_files t = w_files s" .
qed

lemma db_only_indexer [db_only_intros]:
  "db_only (read_only_transaction (list_unindexed n))" "db_only (transaction (mark_indexed ids))"
  "db_only (transaction reset_all_indexed)"
  unfolding list_unindexed_def mark_indexed_def reset_all_indexed_def by (intro db_only_intros)+

definition quiet :: "'z app_world_scheme \<Rightarrow> 'z app_world_scheme \<Rightarrow> bool" where
  "quiet s t \<longleftrightarrow> base t = base s \<and> ix_docs t = ix_docs s \<and> ix_ops t = ix_ops s"

definition batch_docs :: "mail_env \<Rightarrow> storage \<Rightarrow> 'z app_world_scheme \<Rightarrow> (MessageId \<times> SearchDoc) list" where
  "batch_docs env st s = List.map_filter (doc_of env st s) (batch (tx_db s))"

lemma drain_once_run:
  fixes s :: "'z app_world_scheme"
  assumes run: "drain_once env st s = (r, t)"
  obtains (quiet) "quiet s t" "\<And>n. r = Inr n \<Longrightarrow> n = 0 \<and> batch (tx_db s) = []"
  | (unwritten) e and s2 :: "'z app_world_scheme" where "r = Inl e" "quiet s s2"
      "write_batch (batch_docs env st s) s2 = (Inl e, t)" "batch (tx_db s) \<noteq> []"
  | (written) q and s2 s3 :: "'z app_world_scheme" where "quiet s s2"
      "write_batch (batch_docs env st s) s2 = (Inr (), s3)"
      "transaction (mark_indexed (map msg_id (batch (tx_db s)))) s3 = (q, t)"
      "r = (case q of Inl e \<Rightarrow> Inl e | Inr _ \<Rightarrow> Inr (length (batch (tx_db s))))" "batch (tx_db s) \<noteq> []"
proof -
  obtain r1 s1 where rd: "read_only_transaction (list_unindexed BATCH) s = (r1, s1)" by fastforce
  have db: "tx_db s1 = tx_db s" using read_only_db [of "list_unindexed BATCH" s] rd by simp
  have q1: "quiet s s1"
    using db db_only_index [OF db_only_indexer(1) rd] by (simp add: quiet_def base_def)
  show thesis
  proof (cases r1)
    case (Inl e)
    with run rd have "r = Inl e" "t = s1" by (simp_all add: drain_once_def bindE_def)
    with q1 show thesis by (intro quiet) simp_all
  next
    case (Inr ms)
    with rd have ms: "ms = batch (tx_db s)" by (auto dest: list_unindexed_run)
    show thesis
    proof (cases "ms = []")
      case True
      with run rd Inr have "r = Inr 0" "t = s1" by (simp_all add: drain_once_def bindE_def act_eval)
      with q1 True ms show thesis by (intro quiet) simp_all
    next
      case False
      obtain r2 s2 where f: "mapE (fetch_one env st) ms s1 = (r2, s2)" by fastforce
      have "quiet s1 s2" using frameD [OF frame_mapE [OF frame_fetch] f] by (simp add: quiet_def)
      with q1 have q2: "quiet s s2" by (simp add: quiet_def)
      show thesis
      proof (cases r2)
        case (Inl e)
        with run rd Inr False f have "r = Inl e" "t = s2" by (simp_all add: drain_once_def bindE_def)
        with q2 show thesis by (intro quiet) simp_all
      next
        case found: (Inr xs)
        have "doc_of env st s1 m = doc_of env st s m" for m
          by (rule doc_of_files) (use q1 in \<open>simp add: quiet_def base_def\<close>)
        with f found fetch_all_Inr have "xs = map (doc_of env st s) ms" by fastforce
        then have docs: "List.map_filter id xs = batch_docs env st s"
          by (simp add: batch_docs_def ms List.map_filter_def filter_map o_def)
        obtain r3 s3 where w: "write_batch (batch_docs env st s) s2 = (r3, s3)" by fastforce
        show thesis
        proof (cases r3)
          case (Inl e)
          with run rd Inr False f found docs w have "r = Inl e" "t = s3" by (simp_all add: drain_once_def bindE_def)
          with q2 w Inl False ms show thesis by (intro unwritten) simp_all
        next
          case wrote: (Inr u)
          obtain q s4 where m: "transaction (mark_indexed (map msg_id ms)) s3 = (q, s4)" by fastforce
          from run rd Inr False f found docs w wrote m
          have "r = (case q of Inl e \<Rightarrow> Inl e | Inr _ \<Rightarrow> Inr (length ms))" "t = s4"
            by (auto simp: drain_once_def bindE_def act_eval split: sum.splits)
          with q2 w wrote m False show thesis unfolding ms by (intro written) simp_all
        qed
      qed
    qed
  qed
qed

text \<open>A turn that handled messages leaves fewer to handle.\<close>

lemma drain_once_progress:
  fixes s :: "'z app_world_scheme"
  assumes run: "drain_once env st s = (Inr n, t)"
  shows "if n = 0 then unindexed (tx_db t) = [] else length (unindexed (tx_db t)) < length (unindexed (tx_db s))"
  using run
proof (cases rule: drain_once_run)
  case quiet
  then have "n = 0" "batch (tx_db s) = []" "tx_db t = tx_db s" by (simp_all add: quiet_def base_def)
  with batch_empty show ?thesis by simp
next
  case (written q s2 s3)
  then obtain u where q: "q = Inr u" "n = length (batch (tx_db s))" by (cases q) simp_all
  from written(1) frameD [OF frame_write_batch written(2)] have "tx_db s3 = tx_db s" by (simp add: quiet_def base_def)
  with mark_indexed_run [OF written(3)] q have "tx_db t = mark_rows (batch (tx_db s)) (tx_db s)" by simp
  moreover obtain m where "m \<in> set (batch (tx_db s))" using written(5) by (cases "batch (tx_db s)") auto
  moreover from this have "m \<in> set (unindexed (tx_db s))" using batch_set by blast
  ultimately show ?thesis using q written(5) mark_rows_fewer by simp
qed simp

section \<open>Draining ends\<close>

lemma drain_loop_turn:
  "drain_once env st s = (Inl e, t) \<Longrightarrow> drain_loop env st s = Some (Inl e, t)"
  "drain_once env st s = (Inr 0, t) \<Longrightarrow> drain_loop env st s = Some (Inr (), t)"
  "drain_once env st s = (Inr (Suc n), t) \<Longrightarrow> drain_loop env st s = drain_loop env st t"
  by (simp_all add: drain_loop.simps [of env st s] Let_def)

text \<open>
  What every turn keeps holds at the end of the loop, and the loop ends: each turn that goes on
  has flagged a message.
\<close>

lemma drain_loop_induct:
  fixes s :: "'z app_world_scheme"
  assumes "P s" and step: "\<And>s r t. P s \<Longrightarrow> drain_once env st s = (r, t) \<Longrightarrow> P t"
  shows "\<exists>r t. drain_loop env st s = Some (r, t) \<and> P t \<and> (r = Inr () \<longrightarrow> unindexed (tx_db t) = [])"
  using assms(1)
proof (induction "length (unindexed (tx_db s))" arbitrary: s rule: less_induct)
  case less
  obtain r t where run: "drain_once env st s = (r, t)" by fastforce
  note Pt = step [OF less.prems run]
  show ?case
  proof (cases r)
    case (Inl e)
    with run Pt show ?thesis by (simp add: drain_loop_turn)
  next
    case (Inr n)
    note progress = drain_once_progress [OF run [unfolded Inr]]
    show ?thesis
    proof (cases n)
      case 0
      with run Inr Pt progress show ?thesis by (simp add: drain_loop_turn)
    next
      case (Suc k)
      with progress less.hyps [OF _ Pt] show ?thesis using run Inr by (simp add: drain_loop_turn)
    qed
  qed
qed

text \<open>
  C12. The drain of the indexer ends from every state and under every schedule of failures of
  the database, the store, the index and the commit; and when it ends well, no message is left
  to index.
\<close>

theorem drain_terminates:
  fixes s :: "'z app_world_scheme"
  shows "case drain_loop env st s of
      None \<Rightarrow> False
    | Some (Inl _, _) \<Rightarrow> True
    | Some (Inr _, t) \<Rightarrow> unindexed (tx_db t) = []"
  using drain_loop_induct [of "\<lambda>_. True" s env st] by (auto split: sum.splits)

section \<open>What is flagged has its document\<close>

text \<open>
  The invariant, for an index of the current version: the document of every readable message
  that is flagged is committed, and no queued operation removes it. During a rebuild, before
  the version is written, nothing is promised.
\<close>

definition flagged_docs :: "mail_env \<Rightarrow> storage \<Rightarrow> 'z app_world_scheme \<Rightarrow> SearchDoc set" where
  "flagged_docs env st s =
    (if ix_version s = Some SCHEMA_VERSION
     then {d. \<exists>m \<in> set (tbl_messages (tx_db s)). msg_indexed m \<and> map_option snd (doc_of env st s m) = Some d}
     else {})"

definition search_ok :: "mail_env \<Rightarrow> storage \<Rightarrow> 'z app_world_scheme \<Rightarrow> bool" where
  "search_ok env st s \<longleftrightarrow> distinct (map msg_id (tbl_messages (tx_db s))) \<and> index_ok s \<and>
     indexed_docs (flagged_docs env st s) s"

lemma quiet_keeps:
  assumes "quiet s t"
  shows "index_ok t = index_ok s" "indexed_docs D t = indexed_docs D s" "flagged_docs env st t = flagged_docs env st s"
proof -
  from assms have eq: "tx_db t = tx_db s" "w_files t = w_files s" "ix_version t = ix_version s" "ix_docs t = ix_docs s"
    "pending_docs t = pending_docs s"
    by (auto simp: quiet_def pending_docs_def dest: base_eqD)
  have "doc_of env st t m = doc_of env st s m" for m by (rule doc_of_files) (rule eq)
  with eq show "index_ok t = index_ok s" "indexed_docs D t = indexed_docs D s" "flagged_docs env st t = flagged_docs env st s"
    by (simp_all add: index_ok_def indexed_docs_def flagged_docs_def)
qed

lemma batch_distinct: "distinct (map msg_id (tbl_messages d)) \<Longrightarrow> distinct (map msg_id (batch d))"
  unfolding batch_def unindexed_def
  by (metis (no_types, lifting) distinct_map distinct_map_filter distinct_sort distinct_take set_sort take_map)

lemma batch_docs_keyed:
  assumes "distinct (map msg_id (tbl_messages (tx_db s)))"
  shows "keyed (batch_docs env st s)" and "fst ` set (batch_docs env st s) \<subseteq> msg_id ` set (batch (tx_db s))"
proof -
  have "fst ` set (List.map_filter (doc_of env st s) ms) \<subseteq> msg_id ` set ms" for ms
    using doc_of_key by (force simp: List.map_filter_def)
  then show sub: "fst ` set (batch_docs env st s) \<subseteq> msg_id ` set (batch (tx_db s))" by (simp add: batch_docs_def)
  have "keyed (List.map_filter (doc_of env st s) ms)" if "distinct (map msg_id ms)" for ms
    using that
  proof (induction ms)
    case (Cons m ms)
    let ?M = "List.map_filter (doc_of env st s) ms"
    have sub: "fst ` set ?M \<subseteq> msg_id ` set ms" using doc_of_key by (force simp: List.map_filter_def)
    from Cons have IH: "keyed ?M" and m: "msg_id m \<notin> msg_id ` set ms" by simp_all
    show ?case
    proof (cases "doc_of env st s m")
      case None
      with IH show ?thesis by (simp add: List.map_filter_simps)
    next
      case (Some x)
      with doc_of_key [OF Some] IH m sub have "keyed (x # ?M)" by (auto simp: keyed_def)
      with Some show ?thesis by (simp add: List.map_filter_simps)
    qed
  qed (simp add: keyed_def List.map_filter_def)
  with batch_distinct [OF assms] show "keyed (batch_docs env st s)" by (simp add: batch_docs_def)
qed

text \<open>No document of a flagged message is replaced by a batch.\<close>

lemma flagged_apart:
  assumes "distinct (map msg_id (tbl_messages (tx_db s)))"
  shows "\<forall>d \<in> flagged_docs env st s. sd_message_id d \<notin> fst ` set (batch_docs env st s)"
proof
  fix d
  assume "d \<in> flagged_docs env st s"
  then obtain m x where m: "m \<in> set (tbl_messages (tx_db s))" "msg_indexed m" and x: "doc_of env st s m = Some x" "d = snd x"
    by (auto simp: flagged_docs_def split: if_splits)
  show "sd_message_id d \<notin> fst ` set (batch_docs env st s)"
  proof
    assume "sd_message_id d \<in> fst ` set (batch_docs env st s)"
    with batch_docs_keyed(2) [OF assms] batch_set have "msg_id m \<in> msg_id ` set (unindexed (tx_db s))"
      using doc_of_key [OF x(1)] x(2) by fastforce
    then obtain k where "k \<in> set (tbl_messages (tx_db s))" "\<not> msg_indexed k" "msg_id k = msg_id m"
      by (auto simp: unindexed_def)
    with assms m show False by (auto simp: distinct_map dest: inj_onD)
  qed
qed

text \<open>After the rows of a batch are flagged, every flagged document was flagged before or just written.\<close>

lemma flagged_after:
  fixes s t :: "'z app_world_scheme"
  assumes dist: "distinct (map msg_id (tbl_messages (tx_db s)))"
    and t: "tx_db t = mark_rows (batch (tx_db s)) (tx_db s)" "w_files t = w_files s" "ix_version t = ix_version s"
  shows "flagged_docs env st t \<subseteq> flagged_docs env st s \<union> snd ` set (batch_docs env st s)"
proof
  fix d
  assume "d \<in> flagged_docs env st t"
  then obtain m x where v: "ix_version s = Some SCHEMA_VERSION" and m: "m \<in> set (tbl_messages (tx_db t))" "msg_indexed m"
    and x: "doc_of env st t m = Some x" "d = snd x"
    by (auto simp: flagged_docs_def t(3) split: if_splits)
  have same: "doc_of env st t k = doc_of env st s k" for k by (rule doc_of_files) (rule t(2))
  from m(1) [unfolded t(1) mark_rows_def] have "m \<in> set (update_where (\<lambda>m. msg_id m \<in> set (map msg_id (batch (tx_db s))))
      (\<lambda>m. m\<lparr>msg_indexed := True\<rparr>) (tbl_messages (tx_db s)))" by simp
  then show "d \<in> flagged_docs env st s \<union> snd ` set (batch_docs env st s)"
  proof (cases rule: in_update_whereE)
    case same_row: same
    from x same have "map_option snd (doc_of env st s m) = Some d" by simp
    with same_row(1) m(2) v show ?thesis by (auto simp: flagged_docs_def)
  next
    case (changed k)
    then obtain b where b: "b \<in> set (batch (tx_db s))" "msg_id b = msg_id k" by auto
    with batch_set have "b \<in> set (tbl_messages (tx_db s))" by (auto simp: unindexed_def)
    with b dist changed(1) have "k = b" by (auto simp: distinct_map dest: inj_onD)
    with x changed(3) same have "doc_of env st s b = Some x" by simp
    with b(1) have "x \<in> set (batch_docs env st s)" by (force simp: batch_docs_def List.map_filter_def)
    with x(2) show ?thesis by blast
  qed
qed

lemma mark_rows_ids: "map msg_id (tbl_messages (mark_rows ms d)) = map msg_id (tbl_messages d)"
  unfolding mark_rows_def by (simp add: map_update_where)

lemma drain_once_keeps:
  fixes s :: "'z app_world_scheme"
  assumes ok: "search_ok env st s" and run: "drain_once env st s = (r, t)"
  shows "search_ok env st t"
proof -
  from ok have dist: "distinct (map msg_id (tbl_messages (tx_db s)))" and ix: "index_ok s"
    and fl: "indexed_docs (flagged_docs env st s) s" by (simp_all add: search_ok_def)
  note wrote = write_batch_run [OF _ batch_docs_keyed(1) [OF dist] _ _ flagged_apart [OF dist]]
  from run show ?thesis
  proof (cases rule: drain_once_run)
    case quiet
    then have "tx_db t = tx_db s" by (simp add: quiet_def base_def)
    with ok quiet_keeps [OF quiet(1)] show ?thesis by (simp add: search_ok_def)
  next
    case (unwritten e s2)
    have "base t = base s2 \<and> index_ok t \<and> indexed_docs (flagged_docs env st s) t"
      using wrote [OF unwritten(3)] ix fl quiet_keeps [OF unwritten(2)] by simp
    moreover from this unwritten(2) have "base t = base s" by (simp add: quiet_def)
    moreover from this have "flagged_docs env st t = flagged_docs env st s"
      using doc_of_files [of t s env st] by (simp add: flagged_docs_def base_def)
    ultimately show ?thesis using dist by (simp add: search_ok_def base_def)
  next
    case (written q s2 s3)
    have w: "base s3 = base s" "index_ok s3" "indexed_docs (flagged_docs env st s) s3"
      "indexed_docs (snd ` set (batch_docs env st s)) s3"
      using wrote [OF written(2)] ix fl quiet_keeps [OF written(1)] written(1) by (simp_all add: quiet_def)
    note index = db_only_index [OF db_only_indexer(2) written(3)]
    have t: "w_files t = w_files s" "ix_version t = ix_version s" using index w(1) by (simp_all add: base_def)
    have kept: "index_ok t = index_ok s3" "indexed_docs D t = indexed_docs D s3" for D
      using index by (simp_all add: index_ok_def indexed_docs_def pending_docs_def)
    have db: "tx_db t = (if isl q then tx_db s else mark_rows (batch (tx_db s)) (tx_db s))"
      using mark_indexed_run [OF written(3)] w(1) by (simp add: base_def)
    have "flagged_docs env st t \<subseteq> flagged_docs env st s \<union> snd ` set (batch_docs env st s)"
    proof (cases "isl q")
      case True
      with db t doc_of_files [of t s env st] show ?thesis by (simp add: flagged_docs_def)
    next
      case False
      with db flagged_after [OF dist _ t] show ?thesis by simp
    qed
    moreover have "indexed_docs (flagged_docs env st s \<union> snd ` set (batch_docs env st s)) s3"
      using w(3,4) by (simp add: indexed_docs_def)
    ultimately have "indexed_docs (flagged_docs env st t) s3" by (rule indexed_docs_mono)
    then have "indexed_docs (flagged_docs env st t) t" by (simp only: kept(2))
    moreover have "distinct (map msg_id (tbl_messages (tx_db t)))" using dist db by (simp add: mark_rows_ids)
    ultimately show ?thesis using w(2) kept(1) by (simp add: search_ok_def)
  qed
qed

definition unflagged :: "db \<Rightarrow> db" where
  "unflagged d = d\<lparr>tbl_messages := update_where (\<lambda>_. True) (\<lambda>m. m\<lparr>msg_indexed := False\<rparr>) (tbl_messages d)\<rparr>"

lemma reset_run:
  fixes s :: "'z tx_scheme"
  assumes "transaction reset_all_indexed s = (r, t)"
  shows "tx_db t = (if isl r then tx_db s else unflagged (tx_db s))"
proof (cases r)
  case (Inl e)
  with assms show ?thesis by (simp add: transaction_Inl_db)
next
  case (Inr n)
  with assms have "transaction reset_all_indexed s = (Inr n, t)" by simp
  then obtain s0 s1 :: "'z tx_scheme" where *: "tx_db s0 = tx_db s" "tx_now s0 = tx_now s"
      "reset_all_indexed s0 = (Inr n, s1)" "tx_db t = tx_db s1"
    by (rule transaction_Inr)
  from execute_Inr [OF *(3) [unfolded reset_all_indexed_def]] * Inr show ?thesis
    by (simp add: set_indexed_def unflagged_def)
qed

lemma reconcile_keeps:
  fixes s :: "'z app_world_scheme"
  assumes ok: "search_ok env st s" and run: "reconcile_on_startup s = (r, t)"
  shows "search_ok env st t"
proof (cases "ix_version s = Some SCHEMA_VERSION")
  case True
  with run ok show ?thesis by (simp add: reconcile_on_startup_def needs_rebuild_def act_eval)
next
  case stale: False
  obtain r1 s1 where c: "clear_index s = (r1, s1)" by fastforce
  have cleared: "base s1 = base s \<and> index_ok s1"
  proof -
    obtain r2 s2 where l: "lock_writer s = (r2, s2)" by fastforce
    note lock = ix_call_run [OF l [unfolded lock_writer_def]]
    obtain r3 s3 where d: "ix_call tantivy_error s2 = (r3, s3)" by fastforce
    note del = ix_call_run [OF d]
    let ?s4 = "s3\<lparr>ix_ops := ix_ops s3 @ [DeleteAllDocs]\<rparr>"
    obtain r5 s5 where k: "commit_writer ?s4 = (r5, s5)" by fastforce
    note commit = commit_run [OF k]
    have p4: "pending_docs ?s4 = []" by (simp add: pending_docs_def)
    have one: "one_each (ix_docs s)" "one_each (pending_docs s)" using ok by (simp_all add: search_ok_def index_ok_def)
    have same: "base s2 = base s" "ix_docs s2 = ix_docs s" "pending_docs s2 = pending_docs s"
      "base s3 = base s" "ix_docs s3 = ix_docs s" "pending_docs s3 = pending_docs s"
      using lock del by (simp_all add: pending_docs_def)
    have "s1 = s2 \<or> s1 = s3 \<or> s1 = s5"
      using c l d k by (auto simp: clear_index_def bindE_def queue_op_def split: sum.splits)
    moreover have "base s5 = base s \<and> index_ok s5"
    proof (cases "isl r5")
      case True
      with commit p4 same one show ?thesis by (simp add: index_ok_def base_def one_each_def)
    next
      case False
      with commit p4 same show ?thesis by (simp add: index_ok_def base_def one_each_def)
    qed
    ultimately show ?thesis using same one by (auto simp: index_ok_def)
  qed
  show ?thesis
  proof (cases r1)
    case (Inl e)
    with run c stale have "t = s1" by (simp add: reconcile_on_startup_def needs_rebuild_def bindE_def)
    with cleared ok stale show ?thesis by (simp add: search_ok_def flagged_docs_def indexed_docs_def base_def)
  next
    case (Inr u)
    obtain r2 s2 where m: "transaction reset_all_indexed s1 = (r2, s2)" by fastforce
    note index = db_only_index [OF db_only_indexer(3) m]
    have ok2: "index_ok s2" using index cleared by (simp add: index_ok_def pending_docs_def)
    have db: "tx_db s2 = (if isl r2 then tx_db s else unflagged (tx_db s))"
      using reset_run [OF m] cleared by (simp add: base_def)
    have v2: "ix_version s2 = ix_version s" using index cleared by (simp add: base_def)
    have dist: "distinct (map msg_id (tbl_messages (tx_db s2)))"
      using ok db by (simp add: search_ok_def unflagged_def map_update_where)
    obtain r3 s3 where w: "write_version s2 = (r3, s3)" by fastforce
    have s3: "tx_db s3 = tx_db s2 \<and> ix_docs s3 = ix_docs s2 \<and> ix_ops s3 = ix_ops s2 \<and> (isl r3 \<longrightarrow> ix_version s3 = ix_version s2)"
      using w ix_call_run by (fastforce simp: write_version_def bindE_def base_def split: prod.splits sum.splits)
    show ?thesis
    proof (cases "isl r2")
      case True
      with run c stale Inr m have "t = s2" by (auto simp: reconcile_on_startup_def needs_rebuild_def bindE_def split: sum.splits)
      with dist ok2 v2 stale show ?thesis by (simp add: search_ok_def flagged_docs_def indexed_docs_def)
    next
      case False
      with run c stale Inr m w have "t = s3" by (auto simp: reconcile_on_startup_def needs_rebuild_def bindE_def split: sum.splits)
      moreover have "flagged_docs env st s3 = {}"
        using False s3 db by (auto simp: flagged_docs_def unflagged_def set_update_where)
      ultimately show ?thesis
        using dist ok2 s3 by (simp add: search_ok_def indexed_docs_def index_ok_def pending_docs_def)
    qed
  qed
qed

lemma drain_once_version:
  fixes s :: "'z app_world_scheme"
  assumes "drain_once env st s = (r, t)"
  shows "ix_version t = ix_version s"
  using assms
proof (cases rule: drain_once_run)
  case (unwritten e s2)
  with frameD [OF frame_write_batch unwritten(3)] show ?thesis by (simp add: quiet_def base_def)
next
  case (written q s2 s3)
  with frameD [OF frame_write_batch written(2)] db_only_index(2) [OF db_only_indexer(2) written(3)] show ?thesis
    by (simp add: quiet_def base_def)
qed (simp add: quiet_def base_def)

lemma reconcile_version:
  fixes s :: "'z app_world_scheme"
  assumes "reconcile_on_startup s = (r, t)"
  shows "ix_version t \<in> {ix_version s, Some SCHEMA_VERSION}" and "r = Inr () \<Longrightarrow> ix_version t = Some SCHEMA_VERSION"
proof -
  have clear: "frame base (clear_index :: ('z, unit) am)" unfolding clear_index_def by (intro frame_intros)
  have "ix_version t \<in> {ix_version s, Some SCHEMA_VERSION} \<and> (r = Inr () \<longrightarrow> ix_version t = Some SCHEMA_VERSION)"
  proof (cases "ix_version s = Some SCHEMA_VERSION")
    case True
    with assms show ?thesis by (simp add: reconcile_on_startup_def needs_rebuild_def act_eval)
  next
    case False
    obtain r1 s1 where c: "clear_index s = (r1, s1)" by fastforce
    from frameD [OF clear c] have v1: "ix_version s1 = ix_version s" by (simp add: base_def)
    obtain r2 s2 where m: "transaction reset_all_indexed s1 = (r2, s2)" by fastforce
    from db_only_index(2) [OF db_only_indexer(3) m] v1 have v2: "ix_version s2 = ix_version s" by simp
    obtain r3 s3 where w: "ix_call index_error s2 = (r3, s3)" by fastforce
    from ix_call_run(1) [OF w] v2 have v3: "ix_version s3 = ix_version s" by (simp add: base_def)
    show ?thesis
      using assms False c m w v1 v2 v3
      by (cases r1; cases r2; cases r3) (auto simp: reconcile_on_startup_def needs_rebuild_def write_version_def bindE_def)
  qed
  then show "ix_version t \<in> {ix_version s, Some SCHEMA_VERSION}" "r = Inr () \<Longrightarrow> ix_version t = Some SCHEMA_VERSION"
    by blast+
qed

text \<open>
  C7. The watermark is honest. A start of the indexer (the rebuild an outdated version file asks
  for, then the drain) ends, and keeps the invariant \<open>search_ok\<close>, whatever fails: also between the commit of
  a batch and the flagging of its rows, and with operations left queued by a failed commit. In
  every such state the index has at most one document per message, and, once the version file is
  current, every message flagged as indexed whose blob is readable and parses has its document
  committed. When the start ends well the version file is current, no message is left to index and every
  readable message of the archive has its document; so a start that ends well makes good what
  earlier failures left, a rebuild that stopped half-way included. While the version file is
  outdated, after such a failure, a flagged message may lack its document
  (\<open>failed_rebuild_hides_mail\<close>).
\<close>

theorem drain_keeps_search_ok:
  fixes s :: "'z app_world_scheme"
  assumes "search_ok env st s"
  shows "case reindex_to_idle env st s of
      None \<Rightarrow> False
    | Some (r, t) \<Rightarrow> search_ok env st t \<and> distinct (map sd_message_id (ix_docs t)) \<and>
        ix_version t \<in> {ix_version s, Some SCHEMA_VERSION} \<and>
        (ix_version t = Some SCHEMA_VERSION \<longrightarrow> (\<forall>m \<in> set (tbl_messages (tx_db t)). \<forall>i d.
           msg_indexed m \<and> doc_of env st t m = Some (i, d) \<longrightarrow> d \<in> set (ix_docs t))) \<and>
        (r = Inr () \<longrightarrow> ix_version t = Some SCHEMA_VERSION \<and> (\<forall>m \<in> set (tbl_messages (tx_db t)). msg_indexed m \<and>
           (\<forall>i d. doc_of env st t m = Some (i, d) \<longrightarrow> d \<in> set (ix_docs t))))"
proof -
  obtain r t where rec: "reconcile_on_startup s = (r, t)" by fastforce
  note ok = reconcile_keeps [OF assms rec] and version = reconcile_version [OF rec]
  let ?P = "\<lambda>u. search_ok env st u \<and> ix_version u = ix_version t"
  have "\<exists>q u. drain_loop env st t = Some (q, u) \<and> ?P u \<and> (q = Inr () \<longrightarrow> unindexed (tx_db u) = [])"
  proof (rule drain_loop_induct [where P = ?P])
    show "?P t" using ok by simp
  next
    fix s q u assume "?P s" and run: "drain_once env st s = (q, u)"
    with drain_once_keeps [of env st s q u] drain_once_version [OF run] show "?P u" by simp
  qed
  then obtain q u where run: "drain_loop env st t = Some (q, u)" "search_ok env st u" "ix_version u = ix_version t"
    "q = Inr () \<Longrightarrow> unindexed (tx_db u) = []" by blast
  have flagged: "d \<in> set (ix_docs w)"
    if "search_ok env st w" "ix_version w = Some SCHEMA_VERSION" "m \<in> set (tbl_messages (tx_db w))" "msg_indexed m"
      "doc_of env st w m = Some (i, d)" for w :: "'z app_world_scheme" and m i d
  proof -
    from that(2-5) have "d \<in> flagged_docs env st w" by (force simp: flagged_docs_def)
    with that(1) show ?thesis by (auto simp: search_ok_def indexed_docs_def)
  qed
  have one: "search_ok env st w \<Longrightarrow> distinct (map sd_message_id (ix_docs w))" for w :: "'z app_world_scheme"
    by (simp add: search_ok_def index_ok_def one_each_def)
  show ?thesis
  proof (cases r)
    case (Inl e)
    with rec ok version(1) one [OF ok] flagged [OF ok] show ?thesis by (auto simp: reindex_to_idle_def)
  next
    case (Inr x)
    with version(2) have "ix_version t = Some SCHEMA_VERSION" by simp
    moreover have "\<forall>m \<in> set (tbl_messages (tx_db u)). msg_indexed m" if "q = Inr ()"
      using run(4) [OF that] by (auto simp: unindexed_def filter_empty_conv)
    ultimately show ?thesis
      using rec Inr run one [OF run(2)] flagged [OF run(2)] by (auto simp: reindex_to_idle_def)
  qed
qed

text \<open>
  A rebuild that cleared the index and then failed to reset the flags: the subsystem goes on, but
  what is flagged is never taken up again, so an archive that was fully indexed is not searchable
  at all until the program is started anew.
\<close>

lemma idle_turn:
  fixes s :: "'z app_world_scheme"
  assumes "drain_once env st s = (r, t)" and "ix_docs s = [] \<and> unindexed (tx_db s) = []"
  shows "ix_docs t = [] \<and> unindexed (tx_db t) = []"
proof -
  have none: "batch (tx_db s) = []" using assms(2) by (simp add: batch_empty)
  from assms(1) show ?thesis
    by (cases rule: drain_once_run) (use assms(2) none in \<open>simp_all add: quiet_def base_def\<close>)
qed

theorem failed_rebuild_hides_mail:
  fixes s :: "'z app_world_scheme"
  assumes "ix_version s \<noteq> Some SCHEMA_VERSION" and "clear_index s = (Inr (), s1)"
    and "transaction reset_all_indexed s1 = (Inl e, s2)" and "\<forall>m \<in> set (tbl_messages (tx_db s)). msg_indexed m"
  shows "\<exists>t. search_subsystem n env st s = Some t \<and> ix_docs t = []"
proof -
  have clear: "frame base (clear_index :: ('z, unit) am)" unfolding clear_index_def by (intro frame_intros)
  from frameD [OF clear assms(2)] have db1: "tx_db s1 = tx_db s" by (simp add: base_def)
  have docs1: "ix_docs s1 = []"
    using assms(2) by (auto simp: clear_index_def commit_writer_def queue_op_def bindE_Inr_iff dest!: ix_call_run(3))
  have start: "snd (reconcile_on_startup s) = s2"
    using assms(1-3) by (simp add: reconcile_on_startup_def needs_rebuild_def bindE_def)
  have "ix_docs s2 = []" using db_only_index(3) [OF db_only_indexer(3) assms(3)] docs1 by simp
  moreover have "unindexed (tx_db s2) = []"
    using assms(4) transaction_Inl_db [OF assms(3)] db1 by (simp add: unindexed_def filter_empty_conv)
  ultimately have "\<exists>t. drain_ticks n env st s2 = Some t \<and> ix_docs t = []"
  proof (induction n arbitrary: s2)
    case (Suc n)
    from drain_loop_induct [where P = "\<lambda>s. ix_docs s = [] \<and> unindexed (tx_db s) = []" and s = s2 and env = env and st = st]
      idle_turn Suc.prems obtain q u where "drain_loop env st s2 = Some (q, u)" "ix_docs u = []" "unindexed (tx_db u) = []"
      by blast
    with Suc.IH show ?case by (simp add: drain_to_empty_def)
  qed simp
  with start show ?thesis by (simp add: search_subsystem_def)
qed

section \<open>A blob that never opens\<close>

lemma blob_get_quiet: "w_io s = [] \<Longrightarrow> blob_get st a h s = (fst (blob_get st a h s), s)"
  by (auto simp: blob_get_def bindE_def io_call_def io_step_def act_eval split: option.splits sum.splits)

lemma fetch_one_quiet:
  assumes "w_io s = []"
  shows "fetch_one env st m s = (fst (fetch_one env st m s), s)"
proof -
  obtain r where "blob_get st (msg_account_id m) (msg_content_hash m) s = (r, s)" using blob_get_quiet [OF assms] by metis
  then show ?thesis by (cases r) (auto simp: fetch_one_def handleE_def act_eval split: Error.splits)
qed

definition unopenable :: "storage \<Rightarrow> 'z world_scheme \<Rightarrow> Message \<Rightarrow> bool" where
  "unopenable st s m \<longleftrightarrow> (\<exists>c. w_files s (blob_path (st_root st) (msg_account_id m) (msg_content_hash m)) = Some c \<and>
     decrypt (st_crypto st) (st_key st) (msg_account_id m) c = Inl DecryptionFailed)"

lemma fetch_stuck:
  "w_io s = [] \<Longrightarrow> m \<in> set ms \<Longrightarrow> unopenable st s m \<Longrightarrow> \<exists>e. mapE (fetch_one env st) ms s = (Inl e, s)"
proof (induction ms)
  case (Cons k ms)
  obtain r where r: "fetch_one env st k s = (r, s)" using fetch_one_quiet [OF Cons.prems(1)] by metis
  show ?case
  proof (cases r)
    case (Inl e)
    with r show ?thesis by (simp add: bindE_def)
  next
    case (Inr x)
    have "k \<noteq> m"
      using Cons.prems(1,3) r Inr
      by (auto simp: fetch_one_def handleE_def blob_get_def bindE_def io_call_def io_step_def act_eval unopenable_def)
    with Cons r Inr show ?thesis by (auto simp: bindE_def)
  qed
qed simp

text \<open>
  A stored blob that fails to authenticate is treated as a passing fault: with every call
  succeeding, each turn whose batch contains it ends with an error and indexes nothing, and as
  the batch is the lowest ids, nothing after it is ever reached.
\<close>

theorem unopenable_blob_stops_drain:
  fixes s :: "'z app_world_scheme"
  assumes "tx_faults s = []" and "w_io s = []" and "m \<in> set (batch (tx_db s))" and "unopenable st s m"
  shows "\<exists>e. drain_once env st s = (Inl e, s)"
proof -
  have "read_only_transaction (list_unindexed BATCH) s = (Inr (batch (tx_db s)), s)"
    using assms(1) by (simp add: list_unindexed_def stmt_simps batch_def unindexed_def)
  moreover obtain e where "mapE (fetch_one env st) (batch (tx_db s)) s = (Inl e, s)" using fetch_stuck [OF assms(2-4)] by blast
  ultimately show ?thesis using assms(3) by (auto simp: drain_once_def bindE_def)
qed

section \<open>A message that becomes searchable\<close>

definition sample_blob :: bytes where
  "sample_blob = from_parts (replicate 12 0) (aead_seal toy_crypto [] (replicate 12 0) (be_bytes 7) [1, 2])"

definition sample_search :: app_world where
  "sample_search = sample_app\<lparr>tx_db := (tx_db sample_app)\<lparr>tbl_messages := [sample_winner]\<rparr>, w_files := (\<lambda>_. Some sample_blob)\<rparr>"

lemma sample_search_parts:
  "tx_faults sample_search = []" "w_io sample_search = []" "ix_faults sample_search = []" "ix_docs sample_search = []"
  "ix_ops sample_search = []" "ix_version sample_search = Some SCHEMA_VERSION"
  "tbl_messages (tx_db sample_search) = [sample_winner]" "w_files sample_search p = Some sample_blob"
  by (simp_all add: sample_search_def sample_app_parts SCHEMA_VERSION_def)
    (simp_all add: sample_app_def world.extend_def)

lemma sample_winner_parts:
  "msg_id sample_winner = 42" "msg_account_id sample_winner = 7" "\<not> msg_indexed sample_winner"
  by (simp_all add: sample_winner_def new_message_def message_row_def)

lemma sample_search_ok: "search_ok sample_mail_env sample_raw sample_search"
  by (simp add: search_ok_def sample_search_parts index_ok_def one_each_def pending_docs_def indexed_docs_def
      flagged_docs_def sample_winner_parts)

lemma sample_blob_opens: "decrypt toy_crypto [] 7 sample_blob = Inr [1, 2]"
  unfolding sample_blob_def by (rule decrypt_from_parts [OF toy_crypto_ok]) simp

lemma ix_call_clear: "ix_faults s = [] \<Longrightarrow> ix_call f s = (Inr (), s)"
  by (simp add: ix_call_def)

lemma write_doc_clear:
  "ix_faults s = [] \<Longrightarrow>
    write_doc x s = (Inr (), s\<lparr>ix_ops := ix_ops s @ [DeleteMessageDocs (fst x), AddDoc (snd x)]\<rparr>)"
  by (simp add: write_doc_def queue_op_def bindE_def ix_call_clear)

lemma write_batch_clear:
  "ix_faults s = [] \<Longrightarrow> write_batch [x] s = (Inr (), s\<lparr>ix_docs := foldl apply_op (ix_docs s)
     (ix_ops s @ [DeleteMessageDocs (fst x), AddDoc (snd x)]), ix_ops := []\<rparr>)"
  by (simp add: write_batch_def lock_writer_def commit_writer_def bindE_def ix_call_clear write_doc_clear act_eval)

lemma sample_drain:
  obtains t where "drain_once sample_mail_env sample_raw sample_search = (Inr 1, t)"
    "map sd_body (ix_docs t) = [''Hello'']" "tx_faults t = []" "unindexed (tx_db t) = []"
proof -
  have get: "blob_get sample_raw 7 h sample_search = (Inr [1, 2], sample_search)" for h
    by (rule blob_get_clear) (simp_all add: sample_search_parts stored_def sample_raw_def raw_store_def sample_blob_opens)
  have "unat BATCH = 128" by (simp add: BATCH_def)
  then have read: "read_only_transaction (list_unindexed BATCH) sample_search = (Inr [sample_winner], sample_search)"
    by (simp add: list_unindexed_def stmt_simps sample_search_parts sample_winner_parts)
  let ?d = "to_document sample_winner ''Hello''"
  have body: "extract_body sample_mail_env [1, 2] = Some ''Hello''" by (simp add: extract_body_def sample_mail_env_def)
  have found: "mapE (fetch_one sample_mail_env sample_raw) [sample_winner] sample_search = (Inr [Some (42, ?d)], sample_search)"
    by (simp add: bindE_def fetch_one_def handleE_def get act_eval body sample_winner_parts)
  let ?s = "sample_search\<lparr>ix_docs := [?d], ix_ops := []\<rparr>"
  have wrote: "write_batch [(42, ?d)] sample_search = (Inr (), ?s)"
    by (simp add: write_batch_clear sample_search_parts delete_where_def)
  let ?t = "?s\<lparr>tx_db := mark_rows [sample_winner] (tx_db sample_search)\<rparr>"
  have "tx_db ?s = tx_db sample_search" "tx_faults ?s = []" by (simp_all add: sample_search_parts)
  then have marked: "transaction (mark_indexed [42]) ?s = (Inr (), ?t)"
    by (simp add: transaction_def bindE_def mark_indexed_def stmt_simps set_indexed_def act_eval mark_rows_def sample_winner_parts)
  from read found wrote marked have "drain_once sample_mail_env sample_raw sample_search = (Inr 1, ?t)"
    by (simp add: drain_once_def bindE_def act_eval sample_winner_parts)
  moreover have "map sd_body (ix_docs ?t) = [''Hello'']" "tx_faults ?t = []" "unindexed (tx_db ?t) = []"
    by (simp_all add: to_document_def sample_search_parts unindexed_def mark_rows_def update_where_def)
  ultimately show thesis by (rule that)
qed

theorem drain_keeps_search_ok_witness:
  "\<exists>t. reindex_to_idle sample_mail_env sample_raw sample_search = Some (Inr (), t) \<and>
     map sd_body (ix_docs t) = [''Hello''] \<and> search_ok sample_mail_env sample_raw t"
proof -
  obtain t where t: "drain_once sample_mail_env sample_raw sample_search = (Inr 1, t)"
    "map sd_body (ix_docs t) = [''Hello'']" "tx_faults t = []" "unindexed (tx_db t) = []" by (rule sample_drain)
  have "drain_once sample_mail_env sample_raw t = (Inr 0, t)"
    using t(3,4) by (simp add: drain_once_def bindE_def list_unindexed_def stmt_simps act_eval unindexed_def [symmetric])
  with t(1) have "drain_loop sample_mail_env sample_raw sample_search = Some (Inr (), t)"
    by (simp add: drain_loop_turn(2,3) One_nat_def)
  then have "reindex_to_idle sample_mail_env sample_raw sample_search = Some (Inr (), t)"
    by (simp add: reindex_to_idle_def reconcile_on_startup_def needs_rebuild_def sample_search_parts act_eval)
  with drain_keeps_search_ok [OF sample_search_ok] t(2) show ?thesis by auto
qed

text \<open>One flagged message, an outdated version file and a database that is busy once.\<close>

theorem failed_rebuild_hides_mail_witness:
  "\<exists>t. search_subsystem 3 sample_mail_env sample_raw (sample_search\<lparr>ix_version := None, tx_faults := [Some record_not_updated],
     tx_db := (tx_db sample_search)\<lparr>tbl_messages := [sample_winner\<lparr>msg_indexed := True\<rparr>]\<rparr>\<rparr>) = Some t \<and> ix_docs t = []"
proof -
  let ?s = "sample_search\<lparr>ix_version := None, tx_faults := [Some record_not_updated],
     tx_db := (tx_db sample_search)\<lparr>tbl_messages := [sample_winner\<lparr>msg_indexed := True\<rparr>]\<rparr>\<rparr>"
  obtain q s1 where c: "clear_index ?s = (q, s1)" by fastforce
  then have "q = Inr ()" "tx_faults s1 = [Some record_not_updated]"
    by (auto simp: clear_index_def lock_writer_def commit_writer_def queue_op_def bindE_def ix_call_clear act_eval
        sample_search_def sample_app_def world.extend_def)
  moreover from this(2) have "\<exists>e s2. transaction reset_all_indexed s1 = (Inl e, s2)"
    by (simp add: transaction_def bindE_def db_call_def)
  ultimately show ?thesis
    using failed_rebuild_hides_mail [of ?s s1] c by (auto simp: SCHEMA_VERSION_def)
qed

end
