(* ===== verification/SearchServiceProps.thy ===== *)
theory SearchServiceProps
  imports SearchService SearchIndexerProps
begin

text \<open>
  Properties of the search service: a search reads only accounts of the user, obeys the account
  names of the query wherever the index answers it, and returns at most a page; date bounds
  split the days; and the one path where account names are not obeyed.
\<close>

section \<open>The scope\<close>

text \<open>The accounts a query asks for: the user's own, narrowed by the account names.\<close>

definition asked_scope :: "search_env \<Rightarrow> UserId \<Rightarrow> (bool \<times> string) list \<Rightarrow> db \<Rightarrow> AccountId list" where
  "asked_scope env u hints d = resolve_scope env (filter (\<lambda>a. acc_user_id a = u) (tbl_accounts d)) hints"

lemma scope_step_sub: "set (scope_step found negated scope) \<subseteq> set scope"
  by (auto simp: scope_step_def split: option.splits if_splits)

lemma resolve_scope_sub: "set (resolve_scope env accounts hints) \<subseteq> acc_id ` set accounts"
proof -
  have "set (foldl (\<lambda>scope (negated, name). scope_step (account_names env accounts (se_lower env name)) negated scope) scope hints)
      \<subseteq> set scope" for scope
    using scope_step_sub by (induction hints arbitrary: scope) (auto, blast)
  from this [of "remdups (map acc_id accounts)"] show ?thesis by (simp add: resolve_scope_def)
qed

lemma asked_scope_owned: "i \<in> set (asked_scope env u hints d) \<Longrightarrow> user_owns u i d"
  using resolve_scope_sub [of env "filter (\<lambda>a. acc_user_id a = u) (tbl_accounts d)" hints]
  by (auto simp: asked_scope_def user_owns_def)

lemma search_names_Inr:
  fixes s :: "'z app_world_scheme"
  assumes "search_names env u account_hints folder_hints s = (Inr (scope, constraints), t)"
  shows "scope = asked_scope env u account_hints (tx_db s)"
    and "scope \<noteq> [] \<Longrightarrow> constraints = [] \<longleftrightarrow> folder_hints = []"
proof -
  from assms [unfolded search_names_def] obtain s0 s1 :: "'z app_world_scheme" where *: "tx_db s0 = tx_db s" "tx_now s0 = tx_now s"
    "bindE (account_list_for_user u) (\<lambda>accounts.
      let scope = resolve_scope env accounts account_hints in
      if scope = [] then ret ([], [])
      else bindE (mapE folder_list_for_account scope) (\<lambda>folders.
        ret (scope, map (folder_constraint env (concat folders)) folder_hints))) s0 = (Inr (scope, constraints), s1)"
    by (rule read_only_Inr)
  then obtain accounts and s2 :: "'z app_world_scheme" where a: "account_list_for_user u s0 = (Inr accounts, s2)"
    and r: "(let scope = resolve_scope env accounts account_hints in
      if scope = [] then ret ([], [])
      else bindE (mapE folder_list_for_account scope) (\<lambda>folders.
        ret (scope, map (folder_constraint env (concat folders)) folder_hints))) s2 = (Inr (scope, constraints), s1)"
    by (auto simp: bindE_Inr_iff [of "account_list_for_user u"])
  from query_Inr [OF a [unfolded account_list_for_user_def]] *(1)
  have accounts: "resolve_scope env accounts account_hints = asked_scope env u account_hints (tx_db s)"
    by (simp add: asked_scope_def)
  have "scope = resolve_scope env accounts account_hints \<and> (scope \<noteq> [] \<longrightarrow> constraints = [] \<longleftrightarrow> folder_hints = [])"
    using r by (auto simp: Let_def bindE_Inr_iff act_eval split: if_splits)
  with accounts show "scope = asked_scope env u account_hints (tx_db s)"
    "scope \<noteq> [] \<Longrightarrow> constraints = [] \<longleftrightarrow> folder_hints = []" by auto
qed

section \<open>Answers of the index\<close>

lemma build_query_scope:
  "ix_matches env d (build_query env scope residual) \<Longrightarrow> sd_account_id d \<in> set scope"
  by (auto simp: build_query_def list_ex_iff)

lemma doc_hit_Inr: "doc_hit d s = (Inr h, t) \<Longrightarrow> sh_account_id h = sd_account_id d"
  by (auto simp: doc_hit_def bindE_Inr_iff act_eval)

lemma doc_hits_Inr:
  "mapE doc_hit ds s = (Inr hs, t) \<Longrightarrow> sh_account_id ` set hs \<subseteq> sd_account_id ` set ds"
proof (induction ds arbitrary: s hs)
  case (Cons d ds)
  from Cons.prems obtain h hs' s1 where "doc_hit d s = (Inr h, s1)" "mapE doc_hit ds s1 = (Inr hs', t)" "hs = h # hs'"
    by (auto simp: bindE_Inr_iff act_eval)
  with Cons.IH doc_hit_Inr show ?case by fastforce
qed (simp add: act_eval)

lemma page_sub: "set (page limit offset xs) \<subseteq> set xs" "length (page limit offset xs) \<le> unat limit"
  unfolding page_def by (meson order_trans set_drop_subset set_take_subset) simp

lemma hits_page_Inr:
  fixes s :: "'z app_world_scheme"
  assumes "hits_page constraints limit offset found s = (Inr res, t)"
  shows "length (sr_hits res) \<le> unat limit" and "sh_account_id ` set (sr_hits res) \<subseteq> sd_account_id ` set (snd found)"
proof -
  from assms obtain hits kept and s1 s2 :: "'z app_world_scheme" where h: "mapE doc_hit (snd found) s = (Inr hits, s1)"
    and k: "(if constraints = [] then ret hits
      else bindE (read_only_transaction (folder_filter (map sh_message_id hits) constraints (map sh_message_id hits)))
        (\<lambda>keep. ret (filter (\<lambda>h. sh_message_id h \<in> set keep) hits))) s1 = (Inr kept, s2)"
    and res: "res = \<lparr>sr_total = fst found, sr_hits = page limit offset kept\<rparr>"
    unfolding hits_page_def by (auto simp: bindE_Inr_iff [of "mapE _ _"] bindE_Inr_iff [of "if _ then _ else _"] act_eval)
  have "set kept \<subseteq> set hits" using k by (auto simp: bindE_Inr_iff act_eval split: if_splits)
  with doc_hits_Inr [OF h] page_sub [of limit offset kept]
  show "length (sr_hits res) \<le> unat limit" "sh_account_id ` set (sr_hits res) \<subseteq> sd_account_id ` set (snd found)"
    by (auto simp: res) blast
qed

lemma engine_found:
  assumes "engine_ok env"
  shows "set (snd (se_engine env docs q n)) \<subseteq> {d. ix_matches env d q}"
  using assms [unfolded engine_ok_def, THEN spec, of docs, THEN spec, of q, THEN spec, of n] by (auto split: prod.splits)

lemma search_index_Inr:
  fixes s :: "'z app_world_scheme"
  assumes ok: "engine_ok env" and run: "search_index env scope constraints residual limit offset s = (Inr res, t)"
  shows "length (sr_hits res) \<le> unat limit \<and> (\<forall>h \<in> set (sr_hits res). sh_account_id h \<in> set scope)"
proof -
  let ?engine = "\<lambda>s. se_engine env (ix_docs s) (build_query env scope residual) (fetch_limit limit offset (constraints \<noteq> []))"
  from run obtain s2 :: "'z app_world_scheme" where p: "hits_page constraints limit offset (?engine s2) s2 = (Inr res, t)"
    unfolding search_index_def bindE_Inr_iff [of "ix_call _"] by auto
  from engine_found [OF ok, of _ "build_query env scope residual"] have "sd_account_id ` set (snd (?engine s2)) \<subseteq> set scope" using build_query_scope by blast
  with hits_page_Inr [OF p] show ?thesis by blast
qed

lemma list_and_count_Inr:
  assumes "list_and_count_by_folders_for_user u groups exclude limit offset s = (Inr (n, rows), t)"
  shows "n = count_where (in_folders u groups exclude (tx_db s)) (tbl_messages (tx_db s))"
    and "rows = page limit offset
      (sort_key newest_key (filter (in_folders u groups exclude (tx_db s)) (tbl_messages (tx_db s))))"
  using assms
  by (auto simp: list_and_count_by_folders_for_user_def bindE_Inr_iff act_eval dest!: requireE_Inr query_Inr)

lemma list_folders_Inr:
  fixes s :: "'z tx_scheme"
  assumes "list_folders_of_user u constraints limit offset s = (Inr res, t)"
  shows "length (sr_hits res) \<le> unat limit \<and> (\<forall>h \<in> set (sr_hits res). user_owns u (sh_account_id h) (tx_db s))"
proof (cases "folder_groups constraints")
  case None
  with assms show ?thesis by (auto simp: list_folders_of_user_def no_results_def act_eval)
next
  case (Some g)
  obtain groups exclude where g: "g = (groups, exclude)" by fastforce
  with Some assms obtain count ms where
    r: "read_only_transaction (list_and_count_by_folders_for_user u groups exclude limit offset) s = (Inr (count, ms), t)"
    and res: "res = \<lparr>sr_total = count, sr_hits = map message_hit ms\<rparr>"
    by (auto simp: list_folders_of_user_def bindE_Inr_iff act_eval)
  from r obtain s0 s1 :: "'z tx_scheme" where *: "tx_db s0 = tx_db s" "tx_now s0 = tx_now s"
      "list_and_count_by_folders_for_user u groups exclude limit offset s0 = (Inr (count, ms), s1)"
    by (rule read_only_Inr)
  let ?rows = "filter (in_folders u groups exclude (tx_db s)) (tbl_messages (tx_db s))"
  from list_and_count_Inr(2) [OF *(3)] *(1) have "ms = page limit offset (sort_key newest_key ?rows)" by simp
  then have "length ms \<le> unat limit" "set ms \<subseteq> set ?rows"
    using page_sub [of limit offset "sort_key newest_key ?rows"] by simp_all
  then show ?thesis by (auto simp: res message_hit_def in_folders_def)
qed

section \<open>Security\<close>

lemma off_db_search:
  "off_db (ix_call f)" "off_db (doc_hit d)"
  by (auto simp: doc_hit_def intro!: off_db_intros)

lemma search_tables: "tx_db (snd (search env u q limit offset s)) = tx_db s"
proof -
  have side: "keeps P (ix_call f)" "keeps P (doc_hit d)" for P f d by (rule keeps_off_db, rule off_db_search)+
  have "keeps P (hits_page c limit offset found)" for P c found
    unfolding hits_page_def by (intro keeps_intros side)
  then have index: "keeps P (search_index env sc c res limit offset)" for P sc c res
    unfolding search_index_def by (intro keeps_intros side)
  have "keeps P (list_folders_of_user u c limit offset)" for P c
    unfolding list_folders_of_user_def by (cases "folder_groups c") (auto intro!: keeps_intros split: prod.splits)
  with index have "keeps P (search env u q limit offset)" for P
    unfolding search_def search_names_def by (auto intro!: keeps_intros split: prod.splits)
  from keepsD [OF this, of "\<lambda>d. d = tx_db s" s] show ?thesis by simp
qed

text \<open>
  C6. A search reads only the accounts of the user who asks, whatever is typed and whatever
  fails: every hit lies in an account the user owns; and wherever the index answers (any query
  that is not of folder names only), in an account the query's account names leave in scope,
  so an unknown or foreign name finds nothing. A page has at most the hits asked for, and no
  table changes.
\<close>

theorem search_scoped_to_owner:
  fixes s :: "'z app_world_scheme"
  assumes "engine_ok env" and "split_clauses (parse_query (se_parse_date env) q) = (account_hints, folder_hints, residual)"
  shows "tx_db (snd (search env u q limit offset s)) = tx_db s \<and>
    (case fst (search env u q limit offset s) of
       Inl _ \<Rightarrow> True
     | Inr res \<Rightarrow> length (sr_hits res) \<le> unat limit \<and>
         (\<forall>h \<in> set (sr_hits res). user_owns u (sh_account_id h) (tx_db s) \<and>
           (residual = [] \<and> folder_hints \<noteq> [] \<or> sh_account_id h \<in> set (asked_scope env u account_hints (tx_db s)))))"
proof -
  obtain r t where run: "search env u q limit offset s = (r, t)" by fastforce
  show ?thesis
  proof (cases r)
    case (Inl e)
    with run search_tables [of env u q limit offset s] show ?thesis by simp
  next
    case (Inr res)
    from run Inr assms(2) obtain scope constraints and s1 :: "'z app_world_scheme" where
      n: "search_names env u account_hints folder_hints s = (Inr (scope, constraints), s1)" and
      b: "(if scope = [] then ret no_results
        else if residual = [] \<and> constraints \<noteq> [] then list_folders_of_user u constraints limit offset
        else search_index env scope constraints residual limit offset) s1 = (Inr res, t)"
      by (auto simp: search_def bindE_Inr_iff)
    note names = search_names_Inr [OF n]
    have db: "tx_db s1 = tx_db s"
      using arg_cong [OF n [unfolded search_names_def], of "\<lambda>x. tx_db (snd x)"] by simp
    have "length (sr_hits res) \<le> unat limit \<and>
        (\<forall>h \<in> set (sr_hits res). user_owns u (sh_account_id h) (tx_db s) \<and>
           (residual = [] \<and> folder_hints \<noteq> [] \<or> sh_account_id h \<in> set (asked_scope env u account_hints (tx_db s))))"
    proof -
      consider "scope = []" | "scope \<noteq> []" "residual = [] \<and> constraints \<noteq> []" | "scope \<noteq> []" "\<not> (residual = [] \<and> constraints \<noteq> [])"
        by blast
      then show ?thesis
      proof cases
        case 1
        with b show ?thesis by (auto simp: no_results_def act_eval)
      next
        case 2
        with b have "list_folders_of_user u constraints limit offset s1 = (Inr res, t)" by simp
        from list_folders_Inr [OF this] db 2 names(2) show ?thesis by simp
      next
        case 3
        with b have "search_index env scope constraints residual limit offset s1 = (Inr res, t)" by (simp del: de_Morgan_conj)
        from search_index_Inr [OF assms(1) this] asked_scope_owned [of _ env u account_hints "tx_db s"]
        show ?thesis unfolding names(1) by blast
      qed
    qed
    with run Inr search_tables [of env u q limit offset s] show ?thesis by simp
  qed
qed

section \<open>Dates\<close>

lemma day_le: "D * 86400 \<le> t \<longleftrightarrow> D \<le> t div 86400" for D t :: int
proof
  assume "D * 86400 \<le> t"
  from zdiv_mono1 [OF this, of 86400] show "D \<le> t div 86400" by simp
next
  assume "D \<le> t div 86400"
  then have "D * 86400 \<le> t div 86400 * 86400" by simp
  also have "\<dots> \<le> t" using pos_mod_sign [of 86400 t] div_mult_mod_eq [of t 86400] by linarith
  finally show "D * 86400 \<le> t" .
qed

text \<open>
  The three date bounds split the days without overlap, at day granularity: a dated
  document matches \<open>before:D\<close>, \<open>date:D\<close> or \<open>after:D\<close> exactly as its day is
  before, on or after D, and an undated one matches none. (The day after the calendar's last
  one does not exist; there D itself counts as after.)
\<close>

theorem date_bounds_split_days:
  "case sd_sent_date d of
     None \<Rightarrow> \<not> ix_matches env d (date_range_query env b D)
   | Some t \<Rightarrow> ix_matches env d (date_range_query env b D) =
       (case b of
          BeforeDate \<Rightarrow> t div 86400 < D
        | OnDate \<Rightarrow> t div 86400 = D \<and> D \<noteq> se_last_day env
        | AfterDate \<Rightarrow> if D = se_last_day env then D \<le> t div 86400 else D < t div 86400)"
proof (cases "sd_sent_date d")
  case None
  then show ?thesis by (cases b) (simp_all add: Let_def)
next
  case (Some t)
  note day = day_le [of D t] day_le [of "D + 1" t]
  have "t < D * 86400 \<longleftrightarrow> t div 86400 < D" "t < (D + 1) * 86400 \<longleftrightarrow> t div 86400 \<le> D"
    using day by linarith+
  with day show ?thesis using Some by (cases b) (auto simp: Let_def day_start_def)
qed

section \<open>Folder names alone\<close>

lemma folder_lists_clear:
  assumes "tx_faults s = []"
  shows "0 \<notin> set scope \<Longrightarrow> mapE folder_list_for_account scope s =
    (Inr (map (\<lambda>a. filter (\<lambda>f. fld_account_id f = a) (tbl_folders (tx_db s))) scope), s)"
  using assms by (induction scope) (auto simp: bindE_def act_eval folder_list_for_account_def requireE_apply stmt_simps)

lemma search_names_clear:
  fixes s :: "'z tx_scheme"
  assumes clear: "tx_faults s = []"
    and scope: "asked_scope env u hints (tx_db s) \<noteq> []" "0 \<notin> set (asked_scope env u hints (tx_db s))"
  shows "\<exists>cs. search_names env u hints folders s = (Inr (asked_scope env u hints (tx_db s), cs), s) \<and>
    map fst cs = map fst folders"
  using scope
  by (simp add: search_names_def stmt_simps clear bindE_def account_list_for_user_def folder_lists_clear [OF clear]
      asked_scope_def [symmetric] act_eval Let_def folder_constraint_def o_def)

lemma negated_groups:
  "\<forall>x \<in> set cs. fst x \<Longrightarrow> folder_groups cs = Some ([], concat (map snd cs))"
  by (induction cs rule: folder_groups.induct) auto

text \<open>
  A query of excluded folders only lists all mail of the user outside them: an account name
  beside them is resolved, and then nothing but the folder ids is passed on.
\<close>

theorem negated_folders_ignore_account:
  fixes s :: "'z app_world_scheme"
  assumes clear: "tx_faults s = []" and u: "u \<noteq> 0" and scope: "asked_scope env u hints (tx_db s) \<noteq> []"
    "0 \<notin> set (asked_scope env u hints (tx_db s))"
    and q: "split_clauses (parse_query (se_parse_date env) q) = (hints, folders, [])" "folders \<noteq> []" "\<forall>x \<in> set folders. fst x"
  shows "\<exists>exclude res. search env u q limit offset s = (Inr res, s) \<and>
    sr_hits res = map message_hit (page limit offset (sort_key newest_key
      (filter (in_folders u [] exclude (tx_db s)) (tbl_messages (tx_db s)))))"
proof -
  have "\<exists>cs. search_names env u hints folders s = (Inr (asked_scope env u hints (tx_db s), cs), s) \<and>
      map fst cs = map fst folders" by (rule search_names_clear [OF clear scope])
  then obtain cs where names: "search_names env u hints folders s = (Inr (asked_scope env u hints (tx_db s), cs), s)"
    and cs: "map fst cs = map fst folders" by blast
  from cs q(3) have "fst ` set cs \<subseteq> {True}" by (metis (full_types) image_subsetI insertI1 set_map)
  then have groups: "folder_groups cs = Some ([], concat (map snd cs))" by (intro negated_groups) auto
  have "cs \<noteq> []" using cs q(2) by auto
  then have "search env u q limit offset s = list_folders_of_user u cs limit offset s"
    using q(1) names scope(1) by (simp add: search_def bindE_def)
  moreover have "\<exists>res. list_folders_of_user u cs limit offset s = (Inr res, s) \<and>
    sr_hits res = map message_hit (page limit offset (sort_key newest_key
      (filter (in_folders u [] (concat (map snd cs)) (tx_db s)) (tbl_messages (tx_db s)))))"
    using u by (simp add: list_folders_of_user_def groups list_and_count_by_folders_for_user_def bindE_def requireE_apply
        stmt_simps clear act_eval)
  ultimately show ?thesis by metis
qed

section \<open>A concrete engine\<close>

definition sample_words :: search_env where
  "sample_words = \<lparr>se_tokens = (\<lambda>v. [v]), se_lower = (\<lambda>v. v), se_parse_date = sample_date, se_last_day = 95026236,
     se_text = (\<lambda>f ws d. f = BodyText \<and> [sd_body d] = ws), se_engine = (\<lambda>_ _ _. (0, []))\<rparr>"

definition sample_engine :: search_env where
  "sample_engine = sample_words\<lparr>se_engine := (\<lambda>docs q n.
     (length (filter (\<lambda>d. ix_matches sample_words d q) docs),
      take n (sort_key recency (filter (\<lambda>d. ix_matches sample_words d q) docs))))\<rparr>"

lemma matches_env: "ix_matches (env\<lparr>se_engine := f\<rparr>) d q = ix_matches env d q"
proof (induction q)
  case (BooleanQuery qs)
  then have "list_all (\<lambda>oq. case oq of (Must, q) \<Rightarrow> ix_matches (env\<lparr>se_engine := f\<rparr>) d q
        | (MustNot, q) \<Rightarrow> \<not> ix_matches (env\<lparr>se_engine := f\<rparr>) d q | (Should, q) \<Rightarrow> True) qs
      = list_all (\<lambda>oq. case oq of (Must, q) \<Rightarrow> ix_matches env d q | (MustNot, q) \<Rightarrow> \<not> ix_matches env d q | (Should, q) \<Rightarrow> True) qs"
    and "list_ex (\<lambda>oq. case oq of (Should, q) \<Rightarrow> ix_matches (env\<lparr>se_engine := f\<rparr>) d q | _ \<Rightarrow> False) qs
      = list_ex (\<lambda>oq. case oq of (Should, q) \<Rightarrow> ix_matches env d q | _ \<Rightarrow> False) qs"
    by (auto simp: list_all_iff list_ex_iff split: occur.splits prod.splits; fastforce)+
  then show ?case by simp
qed simp_all

lemma sample_engine_ok: "engine_ok sample_engine"
  by (simp add: engine_ok_def sample_engine_def matches_env min_def sorted_sort_key take_map [symmetric] sorted_wrt_take)
    (auto dest!: in_set_takeD)

definition sample_found :: app_world where
  "sample_found = sample_search\<lparr>ix_docs := [to_document sample_winner ''Hello'']\<rparr>"

definition sample_search_text :: string where
  "sample_search_text = ''account:Work Hello''"

lemma sample_search_clauses:
  "split_clauses (parse_query (se_parse_date sample_engine) sample_search_text) =
    ([(False, ''Work'')], [], [\<lparr>cl_negated = False, cl_term = Bare ''Hello''\<rparr>])"
  by code_simp

theorem search_scoped_to_owner_witness:
  "\<exists>res. search sample_engine 1 sample_search_text 10 0 sample_found = (Inr res, sample_found) \<and>
     map sh_account_id (sr_hits res) = [7] \<and> user_owns 1 7 (tx_db sample_found)"
proof -
  have clear: "tx_faults sample_found = []" "ix_faults sample_found = []"
    by (simp_all add: sample_found_def sample_search_parts)
  have scope: "asked_scope sample_engine 1 [(False, ''Work'')] (tx_db sample_found) = [7]"
    by (simp add: asked_scope_def sample_found_def sample_search_def sample_app_db sample_account_def resolve_scope_def
        account_names_def scope_step_def sample_engine_def sample_words_def)
  have names: "search_names sample_engine 1 [(False, ''Work'')] [] sample_found = (Inr ([7], []), sample_found)"
    using search_names_clear [OF clear(1), of sample_engine 1 "[(False, ''Work'')]" "[]"] by (simp add: scope)
  let ?d = "to_document sample_winner ''Hello''"
    and ?q = "build_query sample_engine [7] [\<lparr>cl_negated = False, cl_term = Bare ''Hello''\<rparr>]"
  have "ix_matches sample_words ?d ?q"
    by (simp add: build_query_def clause_query_def bare_query_def text_field_query_def sample_engine_def sample_words_def
        to_document_def sample_winner_parts)
  then have engine: "se_engine sample_engine [?d] ?q (fetch_limit 10 0 False) = (1, [?d])"
    by (simp add: sample_engine_def fetch_limit_def MAX_FETCH_def)
  have docs: "ix_docs sample_found = [?d]" by (simp add: sample_found_def)
  have key: "sd_account_id ?d = 7" by (simp add: to_document_def sample_winner_parts)
  have "search_index sample_engine [7] [] [\<lparr>cl_negated = False, cl_term = Bare ''Hello''\<rparr>] 10 0 sample_found =
      (Inr \<lparr>sr_total = 1, sr_hits = [\<lparr>sh_message_id = sd_message_id ?d, sh_account_id = 7, sh_snippet = sd_snippet ?d\<rparr>]\<rparr>,
       sample_found)"
    by (simp add: search_index_def bindE_def ix_call_clear clear docs engine hits_page_def doc_hit_def act_eval page_def key)
  then have "\<exists>res. search sample_engine 1 sample_search_text 10 0 sample_found = (Inr res, sample_found) \<and>
      map sh_account_id (sr_hits res) = [7]"
    using names by (simp add: search_def sample_search_clauses bindE_def)
  with search_scoped_to_owner [OF sample_engine_ok sample_search_clauses, of 1 10 0 sample_found]
  show ?thesis by fastforce
qed

end
