(* ===== verification/Users.thy ===== *)
theory Users
  imports Accounts
begin

text \<open>
  Users: the domain type with its password and capability checks
  (\<open>crates/core/src/user/model/user.rs\<close>, \<open>crates/core/src/types\<close>), the repository
  adapter with the version hook, the unique columns and the cascades of a deleted user
  (\<open>crates/database/src/adapters/user.rs\<close>), the user service, and the settings a user
  keeps (\<open>adapters/user_settings.rs\<close>, \<open>user/service/user_settings.rs\<close>).

  The password hash is the hashing library's and a parameter. A user is looked up by name without
  case: SQLite's \<open>LOWER\<close> turns the ASCII capitals of the column only, while the name asked for is
  lower-cased by \<open>str::to_lowercase\<close>, which knows all of Unicode and is the parameter \<open>lc\<close>.
\<close>

section \<open>Capabilities\<close>

fun capability_display_name :: "Capability \<Rightarrow> string" where
  "capability_display_name Admin = ''Admin''"
| "capability_display_name SuperAdmin = ''Super Admin''"

definition has_capability :: "User \<Rightarrow> Capability \<Rightarrow> bool" where
  "has_capability u c \<longleftrightarrow> c \<in> usr_capabilities u \<or> SuperAdmin \<in> usr_capabilities u \<or>
     (c \<noteq> SuperAdmin \<and> Admin \<in> usr_capabilities u)"

section \<open>Passwords\<close>

text \<open>
  The hashing library: a hash in its text form for a salt and a password (or its error's text),
  whether a text is such a form, and whether it verifies a password.
\<close>

record hasher =
  ph_hash :: "u64 \<Rightarrow> string \<Rightarrow> string + string"
  ph_parses :: "string \<Rightarrow> bool"
  ph_verifies :: "string \<Rightarrow> string \<Rightarrow> bool"

text \<open>The salt is drawn from the random source of the state.\<close>

definition encrypt_user_password :: "hasher \<Rightarrow> string \<Rightarrow> ('z, string) dbm" where
  "encrypt_user_password h password =
    bindE generate_token (\<lambda>salt.
      case ph_hash h salt password of Inl e \<Rightarrow> throw (CryptoError e) | Inr hash \<Rightarrow> ret hash)"

definition check_password :: "hasher \<Rightarrow> User \<Rightarrow> string \<Rightarrow> bool" where
  "check_password h u password =
    (if ph_parses h (usr_password_hash u) then ph_verifies h (usr_password_hash u) password else False)"

text \<open>What the library documents: a fresh hash is well formed and verifies its password.\<close>

definition hasher_ok :: "hasher \<Rightarrow> bool" where
  "hasher_ok h \<longleftrightarrow> (\<forall>salt pw x. ph_hash h salt pw = Inr x \<longrightarrow> ph_parses h x \<and> ph_verifies h x pw)"

section \<open>New users and partial updates\<close>

record NewUser =
  nus_username :: string
  nus_full_name :: string
  nus_password_hash :: string
  nus_email_address :: string
  nus_capabilities :: "Capability set"
  nus_change_password_on_login :: bool

definition liftE :: "'e + 'a \<Rightarrow> ('s, 'e, 'a) action" where
  "liftE r = (case r of Inl e \<Rightarrow> throw e | Inr x \<Rightarrow> ret x)"

definition new_user ::
  "hasher \<Rightarrow> string \<Rightarrow> string \<Rightarrow> string \<Rightarrow> Capability set \<Rightarrow> string \<Rightarrow> bool \<Rightarrow> ('z, NewUser) dbm"
where
  "new_user h username password email caps full_name change =
    bindE (requireE (trim full_name \<noteq> []) (Validation ''Full name is required'')) (\<lambda>_.
    bindE (encrypt_user_password h password) (\<lambda>hash.
    bindE (liftE (email_address_new email)) (\<lambda>address.
    ret \<lparr>nus_username = username, nus_full_name = full_name, nus_password_hash = hash, nus_email_address = address,
         nus_capabilities = caps, nus_change_password_on_login = change\<rparr>)))"

record PartialUserUpdate =
  puu_password_hash :: "string option"
  puu_email_address :: "string option"
  puu_capabilities :: "Capability set option"
  puu_full_name :: "string option"
  puu_change_password_on_login :: "bool option"

definition partial_user_update ::
  "string option \<Rightarrow> string option \<Rightarrow> Capability set option \<Rightarrow> Error + PartialUserUpdate"
where
  "partial_user_update hash email caps =
    (case (case email of None \<Rightarrow> Inr None | Some e \<Rightarrow> map_sum id Some (email_address_new e)) of
       Inl e \<Rightarrow> Inl e
     | Inr address \<Rightarrow> Inr \<lparr>puu_password_hash = hash, puu_email_address = address, puu_capabilities = caps,
         puu_full_name = None, puu_change_password_on_login = None\<rparr>)"

definition apply_to_user :: "PartialUserUpdate \<Rightarrow> User \<Rightarrow> User" where
  "apply_to_user p u =
    set_opt (\<lambda>v u. u\<lparr>usr_change_password_on_login := v\<rparr>) (puu_change_password_on_login p)
      (set_opt (\<lambda>v u. u\<lparr>usr_full_name := v\<rparr>) (puu_full_name p)
        (set_opt (\<lambda>v u. u\<lparr>usr_capabilities := v\<rparr>) (puu_capabilities p)
          (set_opt (\<lambda>v u. u\<lparr>usr_email_address := v\<rparr>) (puu_email_address p)
            (set_opt (\<lambda>v u. u\<lparr>usr_password_hash := v\<rparr>) (puu_password_hash p) u))))"

definition partial_update_is_empty :: "PartialUserUpdate \<Rightarrow> bool" where
  "partial_update_is_empty p \<longleftrightarrow> puu_password_hash p = None \<and> puu_email_address p = None \<and>
     puu_capabilities p = None \<and> puu_full_name p = None \<and> puu_change_password_on_login p = None"

section \<open>The repository\<close>

definition new_user_row :: "UserId \<Rightarrow> time \<Rightarrow> NewUser \<Rightarrow> User" where
  "new_user_row i now n =
    \<lparr>usr_id = i, usr_version = 1, usr_username = nus_username n, usr_full_name = nus_full_name n,
     usr_password_hash = nus_password_hash n, usr_email_address = nus_email_address n,
     usr_capabilities = nus_capabilities n, usr_change_password_on_login = nus_change_password_on_login n,
     usr_created_at = now, usr_updated_at = now\<rparr>"

definition insert_user_row :: "User \<Rightarrow> db \<Rightarrow> DbErr + User \<times> db" where
  "insert_user_row u d =
    (if \<exists>x \<in> set (tbl_users d). usr_id x = usr_id u then Inl (unique_violation ''users.id'')
     else if \<exists>x \<in> set (tbl_users d). usr_username x = usr_username u then Inl (unique_violation ''users.username'')
     else if \<exists>x \<in> set (tbl_users d). usr_email_address x = usr_email_address u
       then Inl (unique_violation ''users.email_address'')
     else Inr (u, d\<lparr>tbl_users := tbl_users d @ [u]\<rparr>))"

definition user_add :: "NewUser \<Rightarrow> ('z, User) dbm" where
  "user_add n = bindE generate_token (\<lambda>token. bindE utc_now (\<lambda>now.
     execute (insert_user_row (new_user_row token now n))))"

definition find_user :: "UserId \<Rightarrow> db \<Rightarrow> User option" where
  "find_user i d = find_row (\<lambda>u. usr_id u = i) (tbl_users d)"

text \<open>The columns \<open>update_user\<close> writes when they differ, and the hook of a changed row.\<close>

definition set_user_columns :: "User \<Rightarrow> User \<Rightarrow> User" where
  "set_user_columns u x =
    x\<lparr>usr_username := usr_username u, usr_full_name := usr_full_name u, usr_password_hash := usr_password_hash u,
      usr_email_address := usr_email_address u, usr_capabilities := usr_capabilities u,
      usr_change_password_on_login := usr_change_password_on_login u\<rparr>"

definition saved_user :: "time \<Rightarrow> User \<Rightarrow> User" where
  "saved_user now u = u\<lparr>usr_version := usr_version u + 1, usr_updated_at := now\<rparr>"

definition update_user_row :: "User \<Rightarrow> db \<Rightarrow> DbErr + User \<times> db" where
  "update_user_row u d =
    (if \<not> user_exists (usr_id u) d then Inl record_not_updated
     else if \<exists>x \<in> set (tbl_users d). usr_id x \<noteq> usr_id u \<and> usr_username x = usr_username u
       then Inl (unique_violation ''users.username'')
     else if \<exists>x \<in> set (tbl_users d). usr_id x \<noteq> usr_id u \<and> usr_email_address x = usr_email_address u
       then Inl (unique_violation ''users.email_address'')
     else Inr (u, d\<lparr>tbl_users := update_where (\<lambda>x. usr_id x = usr_id u) (\<lambda>_. u) (tbl_users d)\<rparr>))"

definition user_update :: "User \<Rightarrow> ('z, User) dbm" where
  "user_update u =
    bindE (requireE (usr_id u \<noteq> 0) (InvalidId (usr_id u))) (\<lambda>_.
    bindE (query (find_user (usr_id u))) (\<lambda>found.
      case found of
        None \<Rightarrow> throw (RepoError NotFound)
      | Some x \<Rightarrow>
          bindE (requireE (usr_version x = usr_version u) (RepoError Conflict)) (\<lambda>_.
          if set_user_columns u x = x then bindE db_call (\<lambda>_. ret x)
          else bindE utc_now (\<lambda>now. execute (update_user_row (saved_user now (set_user_columns u x)))))))"

text \<open>
  Deleting a user cascades to the settings and the accounts, and from the accounts as the
  deletion of an account does.
\<close>

definition delete_user_row :: "UserId \<Rightarrow> db \<Rightarrow> DbErr + unit \<times> db" where
  "delete_user_row i d =
    (let gone_account = (\<lambda>k. \<exists>a \<in> set (tbl_accounts d). acc_id a = k \<and> acc_user_id a = i);
         gone_folder = (\<lambda>k. \<exists>f \<in> set (tbl_folders d). fld_id f = k \<and> gone_account (fld_account_id f));
         gone_message = (\<lambda>k. \<exists>m \<in> set (tbl_messages d). msg_id m = k \<and> gone_account (msg_account_id m))
     in Inr ((), d\<lparr>tbl_users := delete_where (\<lambda>u. usr_id u = i) (tbl_users d),
       tbl_settings := delete_where (\<lambda>x. set_user_id x = i) (tbl_settings d),
       tbl_accounts := delete_where (\<lambda>a. acc_user_id a = i) (tbl_accounts d),
       tbl_folders := delete_where (\<lambda>f. gone_account (fld_account_id f)) (tbl_folders d),
       tbl_messages := delete_where (\<lambda>m. gone_account (msg_account_id m)) (tbl_messages d),
       tbl_locations := delete_where (\<lambda>l. gone_message (loc_message_id l) \<or> gone_folder (loc_folder_id l)) (tbl_locations d),
       tbl_attachments := delete_where (\<lambda>a. gone_message (att_message_id a) \<or> gone_account (att_account_id a))
         (tbl_attachments d)\<rparr>))"

definition user_delete :: "User \<Rightarrow> ('z, User) dbm" where
  "user_delete u =
    bindE (requireE (usr_id u \<noteq> 0) (InvalidId (usr_id u))) (\<lambda>_.
    bindE (query (find_user (usr_id u))) (\<lambda>found.
      case found of
        None \<Rightarrow> throw (RepoError NotFound)
      | Some x \<Rightarrow>
          bindE (requireE (usr_version x = usr_version u) (RepoError Conflict)) (\<lambda>_.
          bindE (execute (delete_user_row (usr_id x))) (\<lambda>_. ret x))))"

definition bad_page :: "u64 option \<Rightarrow> bool" where
  "bad_page page_size = (case page_size of None \<Rightarrow> False | Some p \<Rightarrow> p < 1)"

definition page_of_users :: "UserId option \<Rightarrow> u64 option \<Rightarrow> db \<Rightarrow> User list" where
  "page_of_users start page_size d =
    (let rows = sort_key (\<lambda>u. sint (usr_id u)) (tbl_users d);
         rows = (case start of None \<Rightarrow> rows | Some k \<Rightarrow> filter (\<lambda>u. sint k \<le> sint (usr_id u)) rows)
     in case page_size of None \<Rightarrow> rows | Some p \<Rightarrow> take (unat p) rows)"

definition user_list :: "UserId option \<Rightarrow> u64 option \<Rightarrow> ('z, User list) dbm" where
  "user_list start page_size =
    bindE (requireE (\<not> bad_page page_size) (InvalidPageSize (the page_size))) (\<lambda>_. query (page_of_users start page_size))"

definition user_find_by_id :: "UserId \<Rightarrow> ('z, User option) dbm" where
  "user_find_by_id i = bindE (requireE (i \<noteq> 0) (InvalidId i)) (\<lambda>_. query (find_user i))"

definition lower_name_eq :: "(string \<Rightarrow> string) \<Rightarrow> string \<Rightarrow> string \<Rightarrow> bool" where
  "lower_name_eq lc column name \<longleftrightarrow> to_ascii_lowercase column = lc name"

definition user_find_by_username :: "(string \<Rightarrow> string) \<Rightarrow> string \<Rightarrow> ('z, User option) dbm" where
  "user_find_by_username lc name =
    query (\<lambda>d. find_row (\<lambda>u. lower_name_eq lc (usr_username u) name) (tbl_users d))"

definition user_find_by_email :: "string \<Rightarrow> ('z, User option) dbm" where
  "user_find_by_email email = query (\<lambda>d. find_row (\<lambda>u. usr_email_address u = email) (tbl_users d))"

section \<open>The user service\<close>

definition add_user :: "NewUser \<Rightarrow> ('z, User) dbm" where
  "add_user n = transaction (user_add n)"

definition update_user :: "User \<Rightarrow> ('z, User) dbm" where
  "update_user u = transaction (user_update u)"

definition list_users :: "UserId option \<Rightarrow> u64 option \<Rightarrow> ('z, User list) dbm" where
  "list_users start page_size = read_only_transaction (user_list start page_size)"

definition delete_user :: "UserId \<Rightarrow> ('z, User) dbm" where
  "delete_user i = transaction (bindE (user_find_by_id i) (\<lambda>found.
     case found of None \<Rightarrow> throw (RepoError NotFound) | Some u \<Rightarrow> user_delete u))"

definition find_user_by_id :: "UserId \<Rightarrow> ('z, User option) dbm" where
  "find_user_by_id i = read_only_transaction (user_find_by_id i)"

text \<open>A token is the text of its id.\<close>

definition find_user_by_token :: "UserId \<Rightarrow> ('z, User option) dbm" where
  "find_user_by_token token = read_only_transaction (user_find_by_id token)"

definition find_user_by_username :: "(string \<Rightarrow> string) \<Rightarrow> string \<Rightarrow> ('z, User option) dbm" where
  "find_user_by_username lc name = read_only_transaction (user_find_by_username lc name)"

section \<open>Settings\<close>

record UserSetting =
  us_user_id :: UserId
  us_key :: string
  us_value :: string

definition setting_of_row :: "UserSettingRow \<Rightarrow> UserSetting" where
  "setting_of_row r = \<lparr>us_user_id = set_user_id r, us_key = set_key r, us_value = set_value r\<rparr>"

definition setting_at :: "UserId \<Rightarrow> string \<Rightarrow> UserSettingRow \<Rightarrow> bool" where
  "setting_at u k r \<longleftrightarrow> set_user_id r = u \<and> set_key r = k"

definition setting_get :: "UserId \<Rightarrow> string \<Rightarrow> ('z, UserSetting option) dbm" where
  "setting_get u k = query (\<lambda>d. map_option setting_of_row (find_row (setting_at u k) (tbl_settings d)))"

text \<open>The upsert on the primary key; a new row needs its user.\<close>

definition upsert_setting_row :: "time \<Rightarrow> UserSetting \<Rightarrow> db \<Rightarrow> DbErr + unit \<times> db" where
  "upsert_setting_row now x d =
    (if \<exists>r \<in> set (tbl_settings d). setting_at (us_user_id x) (us_key x) r
     then Inr ((), d\<lparr>tbl_settings := update_where (setting_at (us_user_id x) (us_key x))
       (\<lambda>r. r\<lparr>set_value := us_value x, set_updated_at := now\<rparr>) (tbl_settings d)\<rparr>)
     else if \<not> user_exists (us_user_id x) d then Inl (foreign_key_violation ''fk_user_settings_user_id'')
     else Inr ((), d\<lparr>tbl_settings := tbl_settings d @
       [\<lparr>set_user_id = us_user_id x, set_key = us_key x, set_value = us_value x, set_created_at = now, set_updated_at = now\<rparr>]\<rparr>))"

definition setting_set :: "UserSetting \<Rightarrow> ('z, UserSetting) dbm" where
  "setting_set x =
    bindE utc_now (\<lambda>now.
    bindE (execute (upsert_setting_row now x)) (\<lambda>_.
    bindE (setting_get (us_user_id x) (us_key x)) (\<lambda>found.
      case found of None \<Rightarrow> throw (RepoError NotFound) | Some y \<Rightarrow> ret y)))"

definition setting_delete :: "UserId \<Rightarrow> string \<Rightarrow> ('z, unit) dbm" where
  "setting_delete u k = execute (\<lambda>d. Inr ((), d\<lparr>tbl_settings := delete_where (setting_at u k) (tbl_settings d)\<rparr>))"

definition setting_list_by_user :: "UserId \<Rightarrow> ('z, UserSetting list) dbm" where
  "setting_list_by_user u = query (\<lambda>d. map setting_of_row (filter (\<lambda>r. set_user_id r = u) (tbl_settings d)))"

definition get_setting :: "UserId \<Rightarrow> string \<Rightarrow> ('z, UserSetting option) dbm" where
  "get_setting u k = read_only_transaction (setting_get u k)"

definition set_setting :: "UserId \<Rightarrow> string \<Rightarrow> string \<Rightarrow> ('z, UserSetting) dbm" where
  "set_setting u k v = transaction (setting_set \<lparr>us_user_id = u, us_key = k, us_value = v\<rparr>)"

definition delete_setting :: "UserId \<Rightarrow> string \<Rightarrow> ('z, unit) dbm" where
  "delete_setting u k = transaction (setting_delete u k)"

definition list_settings :: "UserId \<Rightarrow> ('z, UserSetting list) dbm" where
  "list_settings u = read_only_transaction (setting_list_by_user u)"

end
