(* ===== verification/Sessions.thy ===== *)
theory Sessions
  imports Users
begin

text \<open>
  Sessions and logins: the repository adapter of the sessions table
  (\<open>crates/database/src/adapters/session.rs\<close>), the authentication service
  (\<open>crates/core/src/auth/service.rs\<close>), the pool the web session layer stores its
  sessions through (\<open>crates/frontend/src/server/session_pool.rs\<close>) and the
  authenticated user it loads for a request (\<open>auth_user.rs\<close>).
\<close>

section \<open>The repository\<close>

record NewSession =
  nse_id :: string
  nse_session :: string
  nse_expires_at :: time

definition session_count :: "('z, int) dbm" where
  "session_count = query (\<lambda>d. int (length (tbl_sessions d)))"

text \<open>The upsert: an existing row keeps the time it was created at.\<close>

definition upsert_session_row :: "time \<Rightarrow> NewSession \<Rightarrow> db \<Rightarrow> DbErr + unit \<times> db" where
  "upsert_session_row now n d =
    (if \<exists>x \<in> set (tbl_sessions d). ses_id x = nse_id n
     then Inr ((), d\<lparr>tbl_sessions := update_where (\<lambda>x. ses_id x = nse_id n)
       (\<lambda>x. x\<lparr>ses_session := nse_session n, ses_expires_at := nse_expires_at n\<rparr>) (tbl_sessions d)\<rparr>)
     else Inr ((), d\<lparr>tbl_sessions := tbl_sessions d @
       [\<lparr>ses_id = nse_id n, ses_session = nse_session n, ses_expires_at = nse_expires_at n, ses_created_at = now\<rparr>]\<rparr>))"

definition find_session :: "string \<Rightarrow> db \<Rightarrow> Session option" where
  "find_session i d = find_row (\<lambda>x. ses_id x = i) (tbl_sessions d)"

definition session_store :: "NewSession \<Rightarrow> ('z, Session) dbm" where
  "session_store n =
    bindE utc_now (\<lambda>now.
    bindE (execute (upsert_session_row now n)) (\<lambda>_.
    bindE (query (find_session (nse_id n))) (\<lambda>found.
      case found of None \<Rightarrow> throw (RepoError NotFound) | Some x \<Rightarrow> ret x)))"

definition session_load :: "string \<Rightarrow> ('z, Session option) dbm" where
  "session_load i = query (find_session i)"

definition session_delete_by_id :: "string \<Rightarrow> ('z, unit) dbm" where
  "session_delete_by_id i =
    bindE (query (find_session i)) (\<lambda>found.
      case found of
        None \<Rightarrow> ret ()
      | Some x \<Rightarrow> execute (\<lambda>d. Inr ((), d\<lparr>tbl_sessions := delete_where (\<lambda>y. ses_id y = ses_id x) (tbl_sessions d)\<rparr>)))"

definition session_exists :: "string \<Rightarrow> ('z, bool) dbm" where
  "session_exists i = query (\<lambda>d. count_where (\<lambda>x. ses_id x = i) (tbl_sessions d) > 0)"

text \<open>
  Expired, or anonymous (no data in it; \<open>LIKE\<close> compares letters without case) and older than two
  days.
\<close>

definition stale_session :: "time \<Rightarrow> Session \<Rightarrow> bool" where
  "stale_session now x \<longleftrightarrow> ses_expires_at x < now \<or>
     (contains ''\"data\":{}'' (to_ascii_lowercase (ses_session x)) \<and> ses_created_at x < now - seconds (48 * 3600))"

definition session_delete_by_expiry :: "('z, string list) dbm" where
  "session_delete_by_expiry =
    bindE utc_now (\<lambda>now.
    bindE (query (\<lambda>d. map ses_id (filter (stale_session now) (tbl_sessions d)))) (\<lambda>ids.
    bindE (execute (\<lambda>d. Inr ((), d\<lparr>tbl_sessions := delete_where (stale_session now) (tbl_sessions d)\<rparr>))) (\<lambda>_.
    ret ids)))"

definition session_delete_all :: "('z, unit) dbm" where
  "session_delete_all = execute (\<lambda>d. Inr ((), d\<lparr>tbl_sessions := []\<rparr>))"

definition session_get_ids :: "('z, string list) dbm" where
  "session_get_ids = query (\<lambda>d. map ses_id (tbl_sessions d))"

section \<open>The authentication service\<close>

definition auth_count :: "('z, int) dbm" where
  "auth_count = transaction session_count"

definition auth_store :: "NewSession \<Rightarrow> ('z, Session) dbm" where
  "auth_store n = transaction (session_store n)"

definition auth_load :: "string \<Rightarrow> ('z, Session option) dbm" where
  "auth_load i = transaction (session_load i)"

definition auth_delete_by_id :: "string \<Rightarrow> ('z, unit) dbm" where
  "auth_delete_by_id i = transaction (session_delete_by_id i)"

definition auth_exists :: "string \<Rightarrow> ('z, bool) dbm" where
  "auth_exists i = transaction (session_exists i)"

definition auth_delete_by_expiry :: "('z, string list) dbm" where
  "auth_delete_by_expiry = transaction session_delete_by_expiry"

definition auth_delete_all :: "('z, unit) dbm" where
  "auth_delete_all = transaction session_delete_all"

definition auth_get_ids :: "('z, string list) dbm" where
  "auth_get_ids = transaction session_get_ids"

definition is_valid_email :: "string \<Rightarrow> ('z, User option) dbm" where
  "is_valid_email email = read_only_transaction (user_find_by_email email)"

text \<open>The pause after an unknown name takes time only.\<close>

definition is_valid_login :: "(string \<Rightarrow> string) \<Rightarrow> hasher \<Rightarrow> string \<Rightarrow> string \<Rightarrow> ('z, User option) dbm" where
  "is_valid_login lc h username password =
    bindE (read_only_transaction (user_find_by_username lc username)) (\<lambda>found.
      case found of
        Some u \<Rightarrow> if check_password h u password then ret (Some u) else ret None
      | None \<Rightarrow> ret None)"

section \<open>The pool of the session layer\<close>

datatype PoolError =
    GenericSelectError string
  | GenericInsertError string
  | GenericDeleteError string

definition map_errE :: "('e \<Rightarrow> 'f) \<Rightarrow> ('s, 'e, 'a) action \<Rightarrow> ('s, 'f, 'a) action" where
  "map_errE f m = handleE m ret (\<lambda>e. throw (f e))"

definition pool_count :: "('z tx_scheme, PoolError, int) action" where
  "pool_count = map_errE (\<lambda>e. GenericSelectError (error_text e)) auth_count"

text \<open>\<open>from_timestamp\<close> is the calendar library's: the instant of a count of seconds, if it has one.\<close>

definition pool_store ::
  "(int \<Rightarrow> time option) \<Rightarrow> string \<Rightarrow> string \<Rightarrow> int \<Rightarrow> ('z tx_scheme, PoolError, unit) action"
where
  "pool_store from_timestamp i session expires =
    (case from_timestamp expires of
       None \<Rightarrow> throw (GenericInsertError (''invalid timestamp: '' @ show_int expires))
     | Some expires_at \<Rightarrow>
         map_errE (\<lambda>e. GenericInsertError (error_text e))
           (bindE (auth_store \<lparr>nse_id = i, nse_session = session, nse_expires_at = expires_at\<rparr>) (\<lambda>_. ret ())))"

definition pool_load :: "string \<Rightarrow> ('z tx_scheme, PoolError, string option) action" where
  "pool_load i = map_errE (\<lambda>e. GenericSelectError (error_text e))
     (bindE (auth_load i) (\<lambda>x. ret (map_option ses_session x)))"

definition pool_delete_one_by_id :: "string \<Rightarrow> ('z tx_scheme, PoolError, unit) action" where
  "pool_delete_one_by_id i = map_errE (\<lambda>e. GenericDeleteError (error_text e)) (auth_delete_by_id i)"

definition pool_exists :: "string \<Rightarrow> ('z tx_scheme, PoolError, bool) action" where
  "pool_exists i = map_errE (\<lambda>e. GenericSelectError (error_text e)) (auth_exists i)"

definition pool_delete_by_expiry :: "('z tx_scheme, PoolError, string list) action" where
  "pool_delete_by_expiry = map_errE (\<lambda>e. GenericDeleteError (error_text e)) auth_delete_by_expiry"

definition pool_delete_all :: "('z tx_scheme, PoolError, unit) action" where
  "pool_delete_all = map_errE (\<lambda>e. GenericDeleteError (error_text e)) auth_delete_all"

definition pool_get_ids :: "('z tx_scheme, PoolError, string list) action" where
  "pool_get_ids = map_errE (\<lambda>e. GenericSelectError (error_text e)) auth_get_ids"

section \<open>The user of a request\<close>

record AuthUser =
  au_id :: UserId
  au_anonymous :: bool
  au_username :: string
  au_permissions :: "string set"

definition anonymous_user :: AuthUser where
  "anonymous_user = \<lparr>au_id = 0, au_anonymous = True, au_username = [], au_permissions = {}\<rparr>"

definition auth_user_of :: "UserId \<Rightarrow> User \<Rightarrow> AuthUser" where
  "auth_user_of i u =
    \<lparr>au_id = i, au_anonymous = False, au_username = usr_username u,
     au_permissions = capability_as_str ` usr_capabilities u\<rparr>"

definition load_user :: "UserId \<Rightarrow> bool \<Rightarrow> ('z, AuthUser) dbm" where
  "load_user i has_pool =
    (if \<not> has_pool then ret anonymous_user
     else bindE (find_user_by_id i) (\<lambda>found.
       case found of Some u \<Rightarrow> ret (auth_user_of i u) | None \<Rightarrow> ret anonymous_user))"

definition is_authenticated :: "AuthUser \<Rightarrow> bool" where
  "is_authenticated a \<longleftrightarrow> \<not> au_anonymous a"

definition has_permission :: "AuthUser \<Rightarrow> string \<Rightarrow> bool" where
  "has_permission a perm \<longleftrightarrow> capability_as_str SuperAdmin \<in> au_permissions a \<or> perm \<in> au_permissions a \<or>
     (perm \<noteq> capability_as_str SuperAdmin \<and> capability_as_str Admin \<in> au_permissions a)"

end
