(* ===== verification/ServerHelpers.thy ===== *)
theory ServerHelpers
  imports Sessions
begin

text \<open>
  What every server function shares (\<open>crates/frontend/src/routes/server_helpers.rs\<close>): the
  user of the request, if the session layer loaded one, and the text of an error, which is what
  the browser shows.
\<close>

definition authenticated_user :: "AuthUser option \<Rightarrow> ('s, string, AuthUser) action" where
  "authenticated_user cur =
    (case cur of
       Some a \<Rightarrow> if au_username a \<noteq> [] then ret a else throw ''Not authenticated''
     | None \<Rightarrow> throw ''Not authenticated'')"

definition to_server_err :: "('s, Error, 'a) action \<Rightarrow> ('s, string, 'a) action" where
  "to_server_err m = map_errE error_text m"

definition some_or :: "string \<Rightarrow> 'a option \<Rightarrow> ('s, string, 'a) action" where
  "some_or msg v = (case v of None \<Rightarrow> throw msg | Some x \<Rightarrow> ret x)"

section \<open>Their effects\<close>

lemma frame_liftE [frame_intros]: "frame g (liftE r)"
  by (cases r) (simp_all add: liftE_def frame_intros)

lemma frame_map_errE [frame_intros]: "frame g m \<Longrightarrow> frame g (map_errE f m)"
  by (simp add: map_errE_def frame_intros)

lemma liftE_Inr: "liftE r s = (Inr x, t) \<longleftrightarrow> r = Inr x \<and> t = s"
  by (cases r) (auto simp: liftE_def act_eval)

lemma map_errE_Inr: "map_errE f m s = (Inr x, t) \<longleftrightarrow> m s = (Inr x, t)"
  by (auto simp: map_errE_def handleE_def act_eval split: prod.splits sum.splits)

lemma frame_server_helpers [frame_intros]:
  "frame g (authenticated_user cur)" "frame g (some_or msg v)" "frame g m \<Longrightarrow> frame g (to_server_err m)"
  by (simp_all add: authenticated_user_def some_or_def to_server_err_def frame_intros split: option.split)

lemma authenticated_Inr: "authenticated_user cur s = (Inr a, t) \<longleftrightarrow> cur = Some a \<and> au_username a \<noteq> [] \<and> t = s"
  by (auto simp: authenticated_user_def act_eval split: option.splits)

lemma some_or_Inr: "some_or msg v s = (Inr x, t) \<longleftrightarrow> v = Some x \<and> t = s"
  by (auto simp: some_or_def act_eval split: option.splits)

lemma to_server_err_Inr: "to_server_err m s = (Inr x, t) \<longleftrightarrow> m s = (Inr x, t)"
  by (simp add: to_server_err_def map_errE_Inr)

end
