(* ===== verification/WebUsers.thy ===== *)
theory WebUsers
  imports ServerHelpers "HOL-Library.List_Lexorder" "HOL-Library.Char_ord"
begin

text \<open>
  The server functions that manage users (\<open>crates/frontend/src/routes\<close>): first
  registration, login and forced password change (\<open>landing_page\<close>), the administration of
  users (\<open>settings_page/users_section.rs\<close>), one's own profile (\<open>profile_page\<close>), and
  the theme setting (\<open>components/theme.rs\<close>), with the password rules of the forms
  (\<open>password.rs\<close>).

  A server function runs for the user the session layer loaded for the request, if it loaded
  one, which is its first argument; its error is the text the browser shows. \<open>web_login\<close>
  is the user id the session of the request is logged in as.
\<close>

record web = app_world +
  web_login :: "UserId option"

type_synonym ('z, 'a) sf = "('z web_scheme, string, 'a) action"

text \<open>
  The hashing library, the Unicode lower-casing of a name (\<open>str::to_lowercase\<close>) and the text form
  of user tokens (the token library's).
\<close>

record web_env =
  we_hasher :: hasher
  we_lower :: "string \<Rightarrow> string"
  we_token :: "UserId \<Rightarrow> string"
  we_parse_token :: "string \<Rightarrow> string + UserId"

definition login_user :: "UserId \<Rightarrow> ('z, unit) sf" where
  "login_user i = modifyE (\<lambda>s. s\<lparr>web_login := Some i\<rparr>)"

definition logout_user :: "('z, unit) sf" where
  "logout_user = modifyE (\<lambda>s. s\<lparr>web_login := None\<rparr>)"

section \<open>Password rules\<close>

definition SPECIAL_CHARS :: string where
  "SPECIAL_CHARS = ''!@#$%^&*()_+-=[]{}|;:,.<>?''"

definition MIN_PASSWORD_LEN :: nat where
  "MIN_PASSWORD_LEN = 12"

definition byte_between :: "nat \<Rightarrow> nat \<Rightarrow> string \<Rightarrow> bool" where
  "byte_between a b ch = (case ch of [c] \<Rightarrow> a \<le> of_char c \<and> of_char c \<le> b | _ \<Rightarrow> False)"

text \<open>
  \<open>upper\<close> and \<open>lower\<close> are the letters with case beyond ASCII.
\<close>

definition password_requirements :: "(string \<Rightarrow> bool) \<Rightarrow> (string \<Rightarrow> bool) \<Rightarrow> string \<Rightarrow> bool list" where
  "password_requirements upper lower pw =
    [MIN_PASSWORD_LEN \<le> length pw,
     list_ex (\<lambda>ch. byte_between 65 90 ch \<or> (length ch > 1 \<and> upper ch)) (chars pw),
     list_ex (\<lambda>ch. byte_between 97 122 ch \<or> (length ch > 1 \<and> lower ch)) (chars pw),
     list_ex (byte_between 48 57) (chars pw),
     list_ex (\<lambda>ch. ch \<in> set (chars SPECIAL_CHARS)) (chars pw)]"

definition password_is_valid :: "(string \<Rightarrow> bool) \<Rightarrow> (string \<Rightarrow> bool) \<Rightarrow> string \<Rightarrow> bool" where
  "password_is_valid upper lower pw = list_all id (password_requirements upper lower pw)"

text \<open>
  \<open>draw k n\<close> is the \<open>k\<close>-th number drawn, below \<open>n\<close>: one per class, twelve more
  characters, then a Fisher-Yates shuffle from the end.
\<close>

definition UPPER :: string where "UPPER = ''ABCDEFGHIJKLMNOPQRSTUVWXYZ''"

definition LOWER :: string where "LOWER = ''abcdefghijklmnopqrstuvwxyz''"

definition DIGITS :: string where "DIGITS = ''0123456789''"

definition swap :: "nat \<Rightarrow> nat \<Rightarrow> 'a list \<Rightarrow> 'a list" where
  "swap i j xs = xs[i := xs ! j, j := xs ! i]"

fun shuffle_from :: "(nat \<Rightarrow> nat \<Rightarrow> nat) \<Rightarrow> nat \<Rightarrow> nat \<Rightarrow> 'a list \<Rightarrow> 'a list" where
  "shuffle_from draw k 0 xs = xs"
| "shuffle_from draw k (Suc i) xs = shuffle_from draw (Suc k) i (swap (Suc i) (draw k (Suc (Suc i))) xs)"

definition make_password :: "(nat \<Rightarrow> nat \<Rightarrow> nat) \<Rightarrow> string" where
  "make_password draw =
    (let all = UPPER @ LOWER @ DIGITS @ SPECIAL_CHARS;
         pick = (\<lambda>k xs. xs ! draw k (length xs));
         pw = [pick 0 UPPER, pick 1 LOWER, pick 2 DIGITS, pick 3 SPECIAL_CHARS] @ map (\<lambda>k. pick k all) [4..<16]
     in shuffle_from draw 16 (length pw - 1) pw)"

definition generate_password :: "AuthUser option \<Rightarrow> (nat \<Rightarrow> nat \<Rightarrow> nat) \<Rightarrow> ('z, string) sf" where
  "generate_password cur draw = bindE (authenticated_user cur) (\<lambda>_. ret (make_password draw))"

section \<open>Registration and login\<close>

definition has_any_user :: "('z, bool) sf" where
  "has_any_user = bindE (to_server_err (list_users None (Some 1))) (\<lambda>users. ret (users \<noteq> []))"

text \<open>
  The token returned asks the browser for a new password; without one the session is logged in.
\<close>

definition perform_login :: "web_env \<Rightarrow> string \<Rightarrow> string \<Rightarrow> ('z, string option) sf" where
  "perform_login env username password =
    bindE (to_server_err (is_valid_login (we_lower env) (we_hasher env) username password)) (\<lambda>found.
    bindE (some_or ''Invalid username or password'' found) (\<lambda>u.
    if usr_change_password_on_login u then ret (Some (we_token env (usr_id u)))
    else bindE (login_user (usr_id u)) (\<lambda>_. ret None)))"

text \<open>
  \<open>register_admin\<close> is two steps with the database between them: the check that there is
  no user, and the creation.
\<close>

definition register_check :: "('z, unit) sf" where
  "register_check = bindE (to_server_err (list_users None (Some 1))) (\<lambda>existing.
     requireE (existing = []) ''Admin already exists'')"

definition register_create :: "web_env \<Rightarrow> string \<Rightarrow> string \<Rightarrow> string \<Rightarrow> string \<Rightarrow> ('z, unit) sf" where
  "register_create env username full_name password email =
    bindE (to_server_err (new_user (we_hasher env) username password email {SuperAdmin} full_name False)) (\<lambda>n.
    bindE (to_server_err (add_user n)) (\<lambda>u.
    login_user (usr_id u)))"

definition register_admin :: "web_env \<Rightarrow> string \<Rightarrow> string \<Rightarrow> string \<Rightarrow> string \<Rightarrow> ('z, unit) sf" where
  "register_admin env username full_name password email =
    bindE register_check (\<lambda>_. register_create env username full_name password email)"

definition change_initial_password :: "web_env \<Rightarrow> string \<Rightarrow> string \<Rightarrow> ('z, unit) sf" where
  "change_initial_password env token new_password =
    bindE (requireE (trim new_password \<noteq> []) ''Password must not be empty'') (\<lambda>_.
    bindE (liftE (we_parse_token env token)) (\<lambda>user_token.
    bindE (to_server_err (find_user_by_token user_token)) (\<lambda>found.
    bindE (some_or ''User not found'' found) (\<lambda>u.
    bindE (requireE (usr_change_password_on_login u) ''Password change is not pending for this account'') (\<lambda>_.
    bindE (to_server_err (encrypt_user_password (we_hasher env) new_password)) (\<lambda>new_hash.
    bindE (to_server_err (update_user (u\<lparr>usr_password_hash := new_hash, usr_change_password_on_login := False\<rparr>))) (\<lambda>_.
    ret ())))))))"

section \<open>Administration\<close>

definition is_super :: "AuthUser \<Rightarrow> bool" where
  "is_super a \<longleftrightarrow> ''SuperAdmin'' \<in> au_permissions a"

definition manages_users :: "AuthUser \<Rightarrow> bool" where
  "manages_users a \<longleftrightarrow> is_super a \<or> ''Admin'' \<in> au_permissions a"

text \<open>The administrator a function of this section runs for.\<close>

definition managing_actor :: "AuthUser option \<Rightarrow> ('z, AuthUser) sf" where
  "managing_actor cur =
    bindE (authenticated_user cur) (\<lambda>actor.
    bindE (requireE (manages_users actor) ''Insufficient permissions'') (\<lambda>_. ret actor))"

record UserAdminRow =
  uar_token :: string
  uar_username :: string
  uar_full_name :: string
  uar_email :: string
  uar_capabilities :: "string set"

definition role_label :: "UserAdminRow \<Rightarrow> string" where
  "role_label r = (if ''SuperAdmin'' \<in> uar_capabilities r then ''Super Admin''
     else if ''Admin'' \<in> uar_capabilities r then ''Admin'' else ''User'')"

definition role_sort_key_caps :: "Capability set \<Rightarrow> nat" where
  "role_sort_key_caps caps = (if SuperAdmin \<in> caps then 0 else if Admin \<in> caps then 1 else 2)"

definition admin_row :: "web_env \<Rightarrow> User \<Rightarrow> UserAdminRow" where
  "admin_row env u =
    \<lparr>uar_token = we_token env (usr_id u), uar_username = usr_username u, uar_full_name = usr_full_name u,
     uar_email = usr_email_address u, uar_capabilities = capability_as_str ` usr_capabilities u\<rparr>"

definition list_users_admin :: "web_env \<Rightarrow> AuthUser option \<Rightarrow> ('z, UserAdminRow list) sf" where
  "list_users_admin env cur =
    bindE (managing_actor cur) (\<lambda>_.
    bindE (to_server_err (list_users None None)) (\<lambda>users.
    ret (map (admin_row env) (sort_key (\<lambda>u. (role_sort_key_caps (usr_capabilities u), usr_username u)) users))))"

fun parse_capabilities :: "string list \<Rightarrow> string + Capability set" where
  "parse_capabilities [] = Inr {}"
| "parse_capabilities (s # ss) =
    (if s = ''Admin'' then map_sum id (insert Admin) (parse_capabilities ss)
     else if s = ''SuperAdmin'' then map_sum id (insert SuperAdmin) (parse_capabilities ss)
     else Inl (''Unknown capability: '' @ s))"

definition in_use_error :: "Error \<Rightarrow> string" where
  "in_use_error e =
    (let msg = error_text e
     in if contains ''Constraint'' msg \<or> contains ''unique'' msg \<or> contains ''duplicate'' msg
        then ''Username or email address is already in use'' else msg)"

definition admin_create_user ::
  "web_env \<Rightarrow> AuthUser option \<Rightarrow> string \<Rightarrow> string \<Rightarrow> string \<Rightarrow> string \<Rightarrow> string list \<Rightarrow> ('z, string) sf"
where
  "admin_create_user env cur username full_name email password capabilities =
    bindE (managing_actor cur) (\<lambda>actor.
    bindE (liftE (parse_capabilities capabilities)) (\<lambda>caps.
    bindE (requireE (SuperAdmin \<notin> caps) ''Cannot assign Super Admin role'') (\<lambda>_.
    bindE (requireE (Admin \<notin> caps \<or> is_super actor) ''Only Super Admin can create Admin users'') (\<lambda>_.
    bindE (map_errE in_use_error (new_user (we_hasher env) username password email caps full_name True)) (\<lambda>n.
    bindE (map_errE in_use_error (add_user n)) (\<lambda>u.
    ret (we_token env (usr_id u))))))))"

text \<open>The user a token names.\<close>

definition user_of_token :: "web_env \<Rightarrow> string \<Rightarrow> ('z, User) sf" where
  "user_of_token env token =
    bindE (map_errE (\<lambda>_. ''Invalid user token'') (liftE (we_parse_token env token))) (\<lambda>user_token.
    bindE (to_server_err (find_user_by_token user_token)) (some_or ''User not found''))"

text \<open>The new password of an edit: an absent or empty one keeps the old.\<close>

definition edited_password ::
  "web_env \<Rightarrow> AuthUser \<Rightarrow> string \<Rightarrow> string option \<Rightarrow> User \<Rightarrow> ('z, User) sf"
where
  "edited_password env actor token password u =
    (case password of
       None \<Rightarrow> ret u
     | Some pw \<Rightarrow>
         if pw = [] then ret u
         else bindE (to_server_err (encrypt_user_password (we_hasher env) pw)) (\<lambda>hash.
           ret (u\<lparr>usr_password_hash := hash,
                  usr_change_password_on_login :=
                    (if we_token env (au_id actor) \<noteq> token then True else usr_change_password_on_login u)\<rparr>)))"

definition admin_update_user ::
  "web_env \<Rightarrow> AuthUser option \<Rightarrow> string \<Rightarrow> string \<Rightarrow> string \<Rightarrow> string option \<Rightarrow> string list \<Rightarrow> ('z, unit) sf"
where
  "admin_update_user env cur token full_name email password capabilities =
    bindE (managing_actor cur) (\<lambda>actor.
    bindE (user_of_token env token) (\<lambda>u.
    bindE (requireE (SuperAdmin \<notin> usr_capabilities u \<or> is_super actor)
      ''Only Super Admin can edit a Super Admin user'') (\<lambda>_.
    bindE (liftE (parse_capabilities capabilities)) (\<lambda>new_caps.
    bindE (requireE (SuperAdmin \<notin> new_caps \<or> SuperAdmin \<in> usr_capabilities u) ''Cannot assign Super Admin role'') (\<lambda>_.
    bindE (requireE (SuperAdmin \<notin> usr_capabilities u \<or> SuperAdmin \<in> new_caps) ''Cannot remove Super Admin role'') (\<lambda>_.
    bindE (requireE (Admin \<notin> new_caps \<or> is_super actor) ''Only Super Admin can assign Admin role'') (\<lambda>_.
    bindE (requireE (trim full_name \<noteq> []) ''Full name is required'') (\<lambda>_.
    bindE (to_server_err (liftE (email_address_new email))) (\<lambda>address.
    bindE (edited_password env actor token password
      (u\<lparr>usr_full_name := trim full_name, usr_email_address := address, usr_capabilities := new_caps\<rparr>)) (\<lambda>edited.
    bindE (to_server_err (update_user edited)) (\<lambda>_. ret ())))))))))))"

definition admin_delete_user :: "web_env \<Rightarrow> AuthUser option \<Rightarrow> string \<Rightarrow> ('z, unit) sf" where
  "admin_delete_user env cur token =
    bindE (managing_actor cur) (\<lambda>actor.
    bindE (requireE (we_token env (au_id actor) \<noteq> token) ''You cannot delete your own account'') (\<lambda>_.
    bindE (user_of_token env token) (\<lambda>u.
    bindE (requireE (SuperAdmin \<notin> usr_capabilities u) ''Cannot delete the Super Admin user'') (\<lambda>_.
    bindE (to_server_err (delete_user (usr_id u))) (\<lambda>_. ret ())))))"

section \<open>One's own profile\<close>

text \<open>The row of the user who is logged in.\<close>

definition own_user :: "AuthUser option \<Rightarrow> ('z, User) sf" where
  "own_user cur =
    bindE (authenticated_user cur) (\<lambda>a.
    bindE (to_server_err (find_user_by_id (au_id a))) (some_or ''User not found''))"

definition get_profile_info :: "AuthUser option \<Rightarrow> ('z, string \<times> string) sf" where
  "get_profile_info cur = bindE (own_user cur) (\<lambda>u. ret (usr_full_name u, usr_email_address u))"

definition update_profile :: "AuthUser option \<Rightarrow> string \<Rightarrow> string \<Rightarrow> ('z, unit) sf" where
  "update_profile cur full_name email =
    bindE (requireE (trim full_name \<noteq> []) ''Full name must not be empty'') (\<lambda>_.
    bindE (to_server_err (liftE (email_address_new email))) (\<lambda>address.
    bindE (own_user cur) (\<lambda>u.
    bindE (to_server_err (update_user (u\<lparr>usr_full_name := trim full_name, usr_email_address := address\<rparr>))) (\<lambda>_.
    ret ()))))"

definition change_password :: "web_env \<Rightarrow> AuthUser option \<Rightarrow> string \<Rightarrow> string \<Rightarrow> ('z, unit) sf" where
  "change_password env cur current new_password =
    bindE (requireE (trim new_password \<noteq> []) ''New password must not be empty'') (\<lambda>_.
    bindE (own_user cur) (\<lambda>u.
    bindE (requireE (check_password (we_hasher env) u current) ''Current password is incorrect'') (\<lambda>_.
    bindE (to_server_err (encrypt_user_password (we_hasher env) new_password)) (\<lambda>new_hash.
    bindE (to_server_err (update_user (u\<lparr>usr_password_hash := new_hash\<rparr>))) (\<lambda>_. ret ())))))"

section \<open>Small server functions\<close>

definition check_auth :: "AuthUser option \<Rightarrow> ('z, bool) sf" where
  "check_auth cur = ret (case cur of None \<Rightarrow> False | Some a \<Rightarrow> au_username a \<noteq> [])"

definition get_is_admin :: "AuthUser option \<Rightarrow> ('z, bool) sf" where
  "get_is_admin cur =
    ret (case cur of None \<Rightarrow> False | Some a \<Rightarrow> au_username a \<noteq> [] \<and> (is_super a \<or> ''Admin'' \<in> au_permissions a))"

definition logout :: "('z, unit) sf" where
  "logout = logout_user"

record SettingsContext =
  sc_is_admin :: bool
  sc_is_super_admin :: bool
  sc_current_user_token :: string

definition get_settings_context :: "web_env \<Rightarrow> AuthUser option \<Rightarrow> ('z, SettingsContext) sf" where
  "get_settings_context env cur =
    bindE (authenticated_user cur) (\<lambda>a.
    ret \<lparr>sc_is_admin = is_super a \<or> ''Admin'' \<in> au_permissions a, sc_is_super_admin = is_super a,
         sc_current_user_token = we_token env (au_id a)\<rparr>)"

datatype ThemeMode = SystemTheme | Light | Dark

fun theme_cycle :: "ThemeMode \<Rightarrow> ThemeMode" where
  "theme_cycle SystemTheme = Light"
| "theme_cycle Light = Dark"
| "theme_cycle Dark = SystemTheme"

fun theme_as_str :: "ThemeMode \<Rightarrow> string" where
  "theme_as_str SystemTheme = ''system''"
| "theme_as_str Light = ''light''"
| "theme_as_str Dark = ''dark''"

definition theme_from_str :: "string \<Rightarrow> ThemeMode" where
  "theme_from_str s = (if s = ''light'' then Light else if s = ''dark'' then Dark else SystemTheme)"

definition get_theme_preference :: "AuthUser option \<Rightarrow> ('z, ThemeMode option) sf" where
  "get_theme_preference cur =
    bindE (authenticated_user cur) (\<lambda>a.
    bindE (to_server_err (get_setting (au_id a) ''ui_theme'')) (\<lambda>x.
    ret (map_option (\<lambda>y. theme_from_str (us_value y)) x)))"

definition set_theme_preference :: "AuthUser option \<Rightarrow> ThemeMode \<Rightarrow> ('z, unit) sf" where
  "set_theme_preference cur mode =
    bindE (authenticated_user cur) (\<lambda>a.
    bindE (to_server_err (set_setting (au_id a) ''ui_theme'' (theme_as_str mode))) (\<lambda>_. ret ()))"

end
