(* ===== verification/UserProps.thy ===== *)
theory UserProps
  imports ServerHelpers AccountProps
begin

text \<open>
  Users, settings and sessions: what each operation does to the tables, the invariant they all
  keep, the exact reach of a deleted user, the round trip of a session through its pool, and
  what a login checks.
\<close>

section \<open>Runs that end in one write\<close>

text \<open>
  \<open>changes_to D E m\<close>: a run of \<open>m\<close> from the tables \<open>D\<close> leaves them as they are or makes
  them satisfy \<open>E\<close>.
\<close>

definition changes_to :: "db \<Rightarrow> (db \<Rightarrow> bool) \<Rightarrow> ('z tx_scheme, 'e, 'a) action \<Rightarrow> bool" where
  "changes_to D E m \<longleftrightarrow> (\<forall>s. tx_db s = D \<longrightarrow> tx_db (snd (m s)) = D \<or> E (tx_db (snd (m s))))"

lemma changes_toI: "(\<And>s r t. tx_db s = D \<Longrightarrow> m s = (r, t) \<Longrightarrow> tx_db t = D \<or> E (tx_db t)) \<Longrightarrow> changes_to D E m"
  unfolding changes_to_def by (metis prod.collapse)

lemma changes_toD: "changes_to D E m \<Longrightarrow> tx_db s = D \<Longrightarrow> m s = (r, t) \<Longrightarrow> tx_db t = D \<or> E (tx_db t)"
  unfolding changes_to_def by (metis snd_conv)

lemma changes_to_mono: "changes_to D E m \<Longrightarrow> (\<And>d. E d \<Longrightarrow> F d) \<Longrightarrow> changes_to D F m"
  unfolding changes_to_def by blast

lemma changes_to_frame: "frame tx_db m \<Longrightarrow> changes_to D E m"
  unfolding changes_to_def frame_def by simp

lemma changes_to_bindE:
  fixes m :: "('z tx_scheme, 'e, 'a) action"
  assumes "frame tx_db m" and "\<And>x s s1. tx_db s = D \<Longrightarrow> m s = (Inr x, s1) \<Longrightarrow> changes_to D E (f x)"
  shows "changes_to D E (bindE m f)"
proof (rule changes_toI)
  fix s t :: "'z tx_scheme" and r
  assume s: "tx_db s = D" and run: "bindE m f s = (r, t)"
  obtain q s1 where q: "m s = (q, s1)" by fastforce
  with assms(1) s have s1: "tx_db s1 = D" by (auto dest: frameD)
  show "tx_db t = D \<or> E (tx_db t)"
  proof (cases q)
    case (Inl e)
    with q run s1 show ?thesis by (simp add: bindE_def)
  next
    case (Inr x)
    with q run have "f x s1 = (r, t)" by (simp add: bindE_def)
    with assms(2) [OF s] q Inr s1 show ?thesis by (blast dest: changes_toD)
  qed
qed

lemma changes_to_then_ret: "changes_to D E m \<Longrightarrow> changes_to D E (bindE m (\<lambda>x. ret (f x)))"
  unfolding changes_to_def bindE_def by (fastforce simp: act_eval split: prod.splits sum.splits)

lemma changes_to_map_errE: "changes_to D E m \<Longrightarrow> changes_to D E (map_errE g m)"
  unfolding changes_to_def map_errE_def handleE_def by (fastforce simp: act_eval split: prod.splits sum.splits)

lemma changes_to_ret [simp]: "changes_to D E (ret x)" "changes_to D E (throw e)"
  by (simp_all add: changes_to_def act_eval)

lemma changes_to_option:
  "(v = None \<Longrightarrow> changes_to D E m) \<Longrightarrow> (\<And>x. v = Some x \<Longrightarrow> changes_to D E (f x)) \<Longrightarrow>
   changes_to D E (case v of None \<Rightarrow> m | Some x \<Rightarrow> f x)"
  by (cases v) simp_all

lemma changes_to_if:
  "(b \<Longrightarrow> changes_to D E m) \<Longrightarrow> (\<not> b \<Longrightarrow> changes_to D E n) \<Longrightarrow> changes_to D E (if b then m else n)"
  by simp

lemma changes_to_requireE:
  "(b \<Longrightarrow> changes_to D E (f ())) \<Longrightarrow> changes_to D E (bindE (requireE b e) f)"
  by (cases b) simp_all

lemma frame_tx_db [frame_intros]:
  "frame tx_db db_call" "frame tx_db (query f)" "frame tx_db utc_now" "frame tx_db generate_token"
  "frame tx_db (read_only_transaction body)"
  by (auto simp: frame_def query_def bindE_def utc_now_def generate_token_def dest: db_call_eqD
      split: prod.splits sum.splits)

lemma changes_to_execute:
  assumes "\<And>x d. f D = Inr (x, d) \<Longrightarrow> E d"
  shows "changes_to D E (execute f)"
proof (rule changes_toI)
  fix s t :: "'z tx_scheme" and r
  assume "tx_db s = D" "execute f s = (r, t)"
  with assms show "tx_db t = D \<or> E (tx_db t)" by (cases r) (auto dest: execute_Inl execute_Inr)
qed

lemma changes_to_transaction:
  fixes body :: "('z, 'a) dbm"
  assumes "changes_to D E body"
  shows "changes_to D E (transaction body)"
proof (rule changes_toI)
  fix s t :: "'z tx_scheme" and r
  assume s: "tx_db s = D" and run: "transaction body s = (r, t)"
  show "tx_db t = D \<or> E (tx_db t)"
  proof (cases r)
    case (Inl e)
    with run s show ?thesis by (auto dest: transaction_Inl_db)
  next
    case (Inr x)
    with run obtain s0 s1 where "tx_db s0 = tx_db s" "body s0 = (Inr x, s1)" "tx_db t = tx_db s1"
      by (auto elim: transaction_Inr)
    with assms s show ?thesis by (auto dest: changes_toD)
  qed
qed

lemma query_value: "query f s = (Inr x, t) \<Longrightarrow> tx_db s = D \<Longrightarrow> x = f D"
  by (auto dest: query_Inr)

lemma changes_to_query:
  "changes_to D E (f (q D)) \<Longrightarrow> changes_to D E (bindE (query q) f)"
  by (rule changes_to_bindE) (auto intro: frame_intros dest: query_value)

section \<open>What the operations write\<close>

definition user_row_of :: "NewUser \<Rightarrow> User \<Rightarrow> bool" where
  "user_row_of n u \<longleftrightarrow> (\<exists>i now. u = new_user_row i now n)"

definition user_inserted :: "NewUser \<Rightarrow> db \<Rightarrow> db \<Rightarrow> bool" where
  "user_inserted n D d \<longleftrightarrow> (\<exists>u. user_row_of n u \<and> insert_user_row u D = Inr (u, d))"

lemma insert_user_value: "insert_user_row u d = Inr (x, d') \<Longrightarrow> x = u"
  by (auto simp: insert_user_row_def split: if_splits)

lemma add_user_changes: "changes_to D (user_inserted n D) (add_user n)"
proof -
  have "changes_to D (user_inserted n D) (execute (insert_user_row (new_user_row i now n)))" for i now
    by (rule changes_to_execute) (metis insert_user_value user_inserted_def user_row_of_def)
  then show ?thesis
    unfolding add_user_def user_add_def by (intro changes_to_transaction changes_to_bindE frame_intros)
qed

definition user_written :: "User \<Rightarrow> db \<Rightarrow> db \<Rightarrow> bool" where
  "user_written u D d \<longleftrightarrow> (\<exists>x now y. find_user (usr_id u) D = Some x \<and> usr_version x = usr_version u \<and>
     y = saved_user now (set_user_columns u x) \<and> update_user_row y D = Inr (y, d))"

lemma update_user_value: "update_user_row u d = Inr (x, d') \<Longrightarrow> x = u"
  by (auto simp: update_user_row_def split: if_splits)

lemma update_user_changes: "changes_to D (user_written u D) (update_user u)"
proof -
  have ex: "changes_to D (user_written u D) (execute (update_user_row (saved_user now (set_user_columns u x))))"
    if "find_user (usr_id u) D = Some x" "usr_version x = usr_version u" for x now
    using that by (intro changes_to_execute) (metis update_user_value user_written_def)
  show ?thesis
    unfolding update_user_def user_update_def
    by (intro changes_to_transaction changes_to_requireE changes_to_query changes_to_option changes_to_if
        changes_to_bindE frame_intros changes_to_ret ex)
qed

definition user_deleted :: "UserId \<Rightarrow> db \<Rightarrow> db \<Rightarrow> bool" where
  "user_deleted i D d \<longleftrightarrow> find_user i D \<noteq> None \<and> delete_user_row i D = Inr ((), d)"

lemma find_user_in: "find_user i d = Some u \<Longrightarrow> u \<in> set (tbl_users d) \<and> usr_id u = i"
  by (auto simp: find_user_def dest: find_row_Some)

lemma delete_user_changes: "changes_to D (user_deleted i D) (delete_user i)"
proof -
  have ex: "changes_to D (user_deleted i D) (execute (delete_user_row (usr_id x)))" if "find_user (usr_id u) D = Some x"
    and "find_user i D = Some u" for x u
    using that by (intro changes_to_execute) (auto simp: user_deleted_def dest!: find_user_in)
  show ?thesis
    unfolding delete_user_def user_find_by_id_def user_delete_def bindE_assoc
    by (intro changes_to_transaction changes_to_requireE changes_to_query changes_to_option changes_to_ret
        changes_to_then_ret ex)
qed

lemma changes_to_then_frame:
  fixes m :: "('z tx_scheme, 'e, 'a) action"
  assumes "changes_to D E m" and "\<And>x. frame tx_db (f x)"
  shows "changes_to D E (bindE m f)"
proof (rule changes_toI)
  fix s t :: "'z tx_scheme" and r
  assume s: "tx_db s = D" and run: "bindE m f s = (r, t)"
  obtain q s1 where q: "m s = (q, s1)" by fastforce
  with assms(1) s have "tx_db s1 = D \<or> E (tx_db s1)" by (blast dest: changes_toD)
  moreover from run q have "tx_db t = tx_db s1"
    by (cases q) (auto simp: bindE_def dest: frameD [OF assms(2)])
  ultimately show "tx_db t = D \<or> E (tx_db t)" by simp
qed

definition writes :: "(db \<Rightarrow> DbErr + 'a \<times> db) \<Rightarrow> db \<Rightarrow> db \<Rightarrow> bool" where
  "writes f D d \<longleftrightarrow> (\<exists>x. f D = Inr (x, d))"

lemma execute_changes: "changes_to D (writes f D) (execute f)"
  by (rule changes_to_execute) (auto simp: writes_def)

lemma set_setting_changes:
  "changes_to D (\<lambda>d. \<exists>now. writes (upsert_setting_row now \<lparr>us_user_id = u, us_key = k, us_value = v\<rparr>) D d) (set_setting u k v)"
proof -
  have "changes_to D (\<lambda>d. \<exists>now. writes (upsert_setting_row now x) D d) (setting_set x)" for x
    unfolding setting_set_def setting_get_def
    by (intro changes_to_bindE [of utc_now] changes_to_then_frame frame_intros changes_to_mono [OF execute_changes])
      blast
  then show ?thesis unfolding set_setting_def by (rule changes_to_transaction)
qed

lemma delete_setting_changes:
  "changes_to D (\<lambda>d. d = D\<lparr>tbl_settings := delete_where (setting_at u k) (tbl_settings D)\<rparr>) (delete_setting u k)"
  unfolding delete_setting_def setting_delete_def by (intro changes_to_transaction changes_to_execute) simp

lemma auth_store_changes:
  "changes_to D (\<lambda>d. \<exists>now. writes (upsert_session_row now n) D d) (auth_store n)"
  unfolding auth_store_def session_store_def
  by (intro changes_to_transaction changes_to_bindE [of utc_now] changes_to_then_frame frame_intros
      changes_to_mono [OF execute_changes]) blast

lemma auth_delete_changes:
  "changes_to D (\<lambda>d. d = D\<lparr>tbl_sessions := delete_where (\<lambda>x. ses_id x = i) (tbl_sessions D)\<rparr>) (auth_delete_by_id i)"
proof -
  have ex: "changes_to D (\<lambda>d. d = D\<lparr>tbl_sessions := delete_where (\<lambda>x. ses_id x = i) (tbl_sessions D)\<rparr>)
      (execute (\<lambda>d. Inr ((), d\<lparr>tbl_sessions := delete_where (\<lambda>y. ses_id y = ses_id x) (tbl_sessions d)\<rparr>)))"
    if "find_session i D = Some x" for x
    using that by (intro changes_to_execute) (auto simp: find_session_def dest!: find_row_Some)
  show ?thesis
    unfolding auth_delete_by_id_def session_delete_by_id_def
    by (intro changes_to_transaction changes_to_query changes_to_option changes_to_ret ex)
qed

lemma auth_expiry_changes:
  "changes_to D (\<lambda>d. \<exists>now. d = D\<lparr>tbl_sessions := delete_where (stale_session now) (tbl_sessions D)\<rparr>) auth_delete_by_expiry"
  unfolding auth_delete_by_expiry_def session_delete_by_expiry_def
  by (intro changes_to_transaction changes_to_bindE [of utc_now] changes_to_bindE [of "query _"] changes_to_then_ret
      changes_to_execute frame_intros) auto

lemma auth_delete_all_changes: "changes_to D (\<lambda>d. d = D\<lparr>tbl_sessions := []\<rparr>) auth_delete_all"
  unfolding auth_delete_all_def session_delete_all_def by (intro changes_to_transaction changes_to_execute) simp

section \<open>The invariant\<close>

definition users_ok :: "db \<Rightarrow> bool" where
  "users_ok d \<longleftrightarrow> distinct (map usr_id (tbl_users d)) \<and> distinct (map usr_username (tbl_users d)) \<and>
     distinct (map usr_email_address (tbl_users d))"

definition settings_ok :: "db \<Rightarrow> bool" where
  "settings_ok d \<longleftrightarrow> distinct (map (\<lambda>r. (set_user_id r, set_key r)) (tbl_settings d)) \<and>
     (\<forall>r \<in> set (tbl_settings d). user_exists (set_user_id r) d)"

definition sessions_ok :: "db \<Rightarrow> bool" where
  "sessions_ok d \<longleftrightarrow> distinct (map ses_id (tbl_sessions d))"

definition tables_ok :: "db \<Rightarrow> bool" where
  "tables_ok d \<longleftrightarrow> users_ok d \<and> settings_ok d \<and> sessions_ok d \<and> archive_ok d"

lemmas user_tables_defs = tables_ok_def users_ok_def settings_ok_def sessions_ok_def

lemma user_exists_map: "user_exists i d \<longleftrightarrow> i \<in> set (map usr_id (tbl_users d))"
  by (auto simp: user_exists_def)

text \<open>The archive's part looks at the users only through which ids exist.\<close>

lemma archive_ok_users:
  assumes "archive_ok d" and "\<And>i. user_exists i d \<Longrightarrow> user_exists i (d\<lparr>tbl_users := us\<rparr>)"
  shows "archive_ok (d\<lparr>tbl_users := us\<rparr>)"
  using assms
  by (simp add: archive_ok_def accounts_ok_def mailbox_ok_def folders_ok_def mail_ok_defs account_exists_def
      message_exists_def folder_exists_def)

lemma archive_ok_other:
  "archive_ok (d\<lparr>tbl_settings := x\<rparr>) = archive_ok d" "archive_ok (d\<lparr>tbl_sessions := y\<rparr>) = archive_ok d"
  by (simp_all add: archive_ok_defs)

lemma map_updated_key:
  assumes "\<And>r. r \<in> set rows \<Longrightarrow> p r \<Longrightarrow> k (f r) = k r"
  shows "map k (update_where p f rows) = map k rows"
  using assms by (induction rows) (auto simp: update_where_def)

text \<open>Replacing the row at a key by one whose value at \<open>g\<close> no other row has.\<close>

lemma distinct_replaced:
  assumes "distinct (map g rows)" and "distinct (map k rows)" and "\<forall>x \<in> set rows. k x \<noteq> i \<longrightarrow> g x \<noteq> g u"
  shows "distinct (map g (update_where (\<lambda>x. k x = i) (\<lambda>_. u) rows))"
  using assms
proof (induction rows)
  case Nil
  then show ?case by simp
next
  case (Cons x xs)
  then have "i \<notin> k ` set xs" if "k x = i" using that by auto
  with Cons show ?case
    by (cases "k x = i") (auto simp: update_where_def image_iff)
qed

lemma insert_user_ok: "tables_ok d \<Longrightarrow> insert_user_row u d = Inr (x, d') \<Longrightarrow> tables_ok d'"
  by (auto simp: user_tables_defs insert_user_row_def user_exists_def image_iff intro!: archive_ok_users split: if_splits)
    metis+

lemma write_user_ok:
  assumes ok: "tables_ok d" and up: "update_user_row u d = Inr (x, d')"
  shows "tables_ok d'"
proof -
  let ?rows = "update_where (\<lambda>x. usr_id x = usr_id u) (\<lambda>_. u) (tbl_users d)"
  have d': "d' = d\<lparr>tbl_users := ?rows\<rparr>"
    and free: "\<forall>x \<in> set (tbl_users d). usr_id x \<noteq> usr_id u \<longrightarrow> usr_username x \<noteq> usr_username u"
      "\<forall>x \<in> set (tbl_users d). usr_id x \<noteq> usr_id u \<longrightarrow> usr_email_address x \<noteq> usr_email_address u"
    using up by (auto simp: update_user_row_def split: if_splits)
  have ids: "map usr_id ?rows = map usr_id (tbl_users d)" by (rule map_updated_key) simp
  then have ex: "user_exists i d' = user_exists i d" for i
    unfolding user_exists_map d' using ids by simp
  have "users_ok d'"
    using ok free distinct_replaced [of usr_username "tbl_users d" usr_id "usr_id u" u]
      distinct_replaced [of usr_email_address "tbl_users d" usr_id "usr_id u" u] ids
    by (simp add: user_tables_defs d')
  moreover have "archive_ok d'" unfolding d'
    by (rule archive_ok_users) (use ok ex in \<open>simp_all add: tables_ok_def d'\<close>)
  ultimately show ?thesis using ok ex by (simp add: user_tables_defs d')
qed

section \<open>The reach of a deleted user\<close>

lemma key_complement:
  assumes "distinct (map k rows)" and "\<exists>r \<in> set rows. k r = i"
  shows "(\<exists>r \<in> set rows. k r = i \<and> p r) \<longleftrightarrow> \<not> (\<exists>r \<in> set rows. k r = i \<and> \<not> p r)"
  using assms by (auto simp: distinct_map inj_on_def)

text \<open>
  What is left after the user \<open>i\<close>: the rows of the other users and accounts, and the rows
  below them.
\<close>

definition rest_of_users :: "UserId \<Rightarrow> db \<Rightarrow> db \<Rightarrow> bool" where
  "rest_of_users i d d' \<longleftrightarrow>
     tbl_users d' = filter (\<lambda>u. usr_id u \<noteq> i) (tbl_users d) \<and>
     tbl_settings d' = filter (\<lambda>x. set_user_id x \<noteq> i) (tbl_settings d) \<and>
     tbl_accounts d' = filter (\<lambda>a. acc_user_id a \<noteq> i) (tbl_accounts d) \<and>
     tbl_folders d' = filter (\<lambda>f. account_exists (fld_account_id f) d') (tbl_folders d) \<and>
     tbl_messages d' = filter (\<lambda>m. account_exists (msg_account_id m) d') (tbl_messages d) \<and>
     tbl_locations d' = filter (\<lambda>l. message_exists (loc_message_id l) d' \<and> folder_exists (loc_folder_id l) d') (tbl_locations d) \<and>
     tbl_attachments d' = filter (\<lambda>a. message_exists (att_message_id a) d' \<and> account_exists (att_account_id a) d')
       (tbl_attachments d) \<and>
     tbl_sessions d' = tbl_sessions d \<and> tbl_jobs d' = tbl_jobs d"

lemma delete_user_rest:
  assumes ok: "tables_ok d" and del: "delete_user_row i d = Inr (x, d')"
  shows "rest_of_users i d d'"
proof -
  let ?ga = "\<lambda>k. \<exists>a \<in> set (tbl_accounts d). acc_id a = k \<and> acc_user_id a = i"
  let ?gf = "\<lambda>k. \<exists>f \<in> set (tbl_folders d). fld_id f = k \<and> ?ga (fld_account_id f)"
  let ?gm = "\<lambda>k. \<exists>m \<in> set (tbl_messages d). msg_id m = k \<and> ?ga (msg_account_id m)"
  have d': "d' = d\<lparr>tbl_users := delete_where (\<lambda>u. usr_id u = i) (tbl_users d),
       tbl_settings := delete_where (\<lambda>x. set_user_id x = i) (tbl_settings d),
       tbl_accounts := delete_where (\<lambda>a. acc_user_id a = i) (tbl_accounts d),
       tbl_folders := delete_where (\<lambda>f. ?ga (fld_account_id f)) (tbl_folders d),
       tbl_messages := delete_where (\<lambda>m. ?ga (msg_account_id m)) (tbl_messages d),
       tbl_locations := delete_where (\<lambda>l. ?gm (loc_message_id l) \<or> ?gf (loc_folder_id l)) (tbl_locations d),
       tbl_attachments := delete_where (\<lambda>a. ?gm (att_message_id a) \<or> ?ga (att_account_id a)) (tbl_attachments d)\<rparr>"
    using del by (simp add: delete_user_row_def Let_def)
  have accs: "tbl_accounts d' = filter (\<lambda>a. acc_user_id a \<noteq> i) (tbl_accounts d)" by (simp add: d' delete_where_def)
  have ae: "account_exists k d' \<longleftrightarrow> \<not> ?ga k" if "account_exists k d" for k
    unfolding account_exists_def accs
    using key_complement [of acc_id "tbl_accounts d" k "\<lambda>a. acc_user_id a \<noteq> i"] ok that
    by (auto simp: tables_ok_def archive_ok_def accounts_ok_def account_exists_def)
  have parents: "\<forall>f \<in> set (tbl_folders d). account_exists (fld_account_id f) d"
      "\<forall>m \<in> set (tbl_messages d). account_exists (msg_account_id m) d"
      "\<forall>l \<in> set (tbl_locations d). message_exists (loc_message_id l) d \<and> folder_exists (loc_folder_id l) d"
      "\<forall>a \<in> set (tbl_attachments d). message_exists (att_message_id a) d \<and> account_exists (att_account_id a) d"
    using ok by (auto simp: tables_ok_def archive_ok_def mailbox_ok_def folders_ok_def mail_ok_defs)
  have flds: "tbl_folders d' = filter (\<lambda>f. account_exists (fld_account_id f) d') (tbl_folders d)"
    and msgs: "tbl_messages d' = filter (\<lambda>m. account_exists (msg_account_id m) d') (tbl_messages d)"
    using ae parents(1,2) by (auto simp: d' delete_where_def intro!: filter_cong)
  have fe: "folder_exists k d' \<longleftrightarrow> \<not> ?gf k" if "folder_exists k d" for k
    unfolding folder_exists_def flds
    using key_complement [of fld_id "tbl_folders d" k "\<lambda>f. account_exists (fld_account_id f) d'"] ok that ae parents(1)
    by (auto simp: tables_ok_def archive_ok_def mailbox_ok_def folders_ok_def folder_exists_def)
  have me: "message_exists k d' \<longleftrightarrow> \<not> ?gm k" if "message_exists k d" for k
    unfolding message_exists_def msgs
    using key_complement [of msg_id "tbl_messages d" k "\<lambda>m. account_exists (msg_account_id m) d'"] ok that ae parents(2)
    by (auto simp: tables_ok_def archive_ok_def mailbox_ok_def mail_ok_defs message_exists_def)
  have tl: "tbl_locations d' = delete_where (\<lambda>l. ?gm (loc_message_id l) \<or> ?gf (loc_folder_id l)) (tbl_locations d)"
    and ta: "tbl_attachments d' = delete_where (\<lambda>a. ?gm (att_message_id a) \<or> ?ga (att_account_id a)) (tbl_attachments d)"
    by (simp_all add: d')
  have "tbl_locations d' = filter (\<lambda>l. message_exists (loc_message_id l) d' \<and> folder_exists (loc_folder_id l) d') (tbl_locations d)"
    unfolding tl delete_where_def using me fe parents(3) by (intro filter_cong refl) blast
  moreover have "tbl_attachments d' = filter (\<lambda>a. message_exists (att_message_id a) d' \<and> account_exists (att_account_id a) d') (tbl_attachments d)"
    unfolding ta delete_where_def using me ae parents(4) by (intro filter_cong refl) blast
  moreover have "tbl_users d' = filter (\<lambda>u. usr_id u \<noteq> i) (tbl_users d)"
    "tbl_settings d' = filter (\<lambda>x. set_user_id x \<noteq> i) (tbl_settings d)" "tbl_sessions d' = tbl_sessions d" "tbl_jobs d' = tbl_jobs d"
    by (simp_all add: d' delete_where_def)
  ultimately show ?thesis using accs flds msgs unfolding rest_of_users_def by blast
qed

lemma rest_of_users_ok:
  assumes ok: "tables_ok d" and rest: "rest_of_users i d d'"
  shows "tables_ok d'"
proof -
  note r = rest [unfolded rest_of_users_def]
  have ue: "user_exists k d' \<longleftrightarrow> user_exists k d \<and> k \<noteq> i" for k using r by (auto simp: user_exists_def)
  have "users_ok d'" "sessions_ok d'" using ok r by (auto simp: user_tables_defs distinct_map_filter)
  moreover have "settings_ok d'" using ok r ue by (auto simp: user_tables_defs intro: distinct_map_filter)
  moreover have "accounts_ok d'"
    using ok r ue by (auto simp: tables_ok_def archive_ok_def accounts_ok_def distinct_map_filter)
  moreover have "folders_ok d'"
  proof -
    have "folders_ok d" using ok by (simp add: tables_ok_def archive_ok_def mailbox_ok_def)
    moreover have "set (tbl_folders d') \<subseteq> set (tbl_folders d)" "\<forall>f \<in> set (tbl_folders d'). account_exists (fld_account_id f) d'"
      using r by auto
    moreover have "distinct (map fld_id (tbl_folders d'))"
      "distinct (map (\<lambda>f. (fld_account_id f, fld_path f)) (tbl_folders d'))"
      using r \<open>folders_ok d\<close> by (auto simp: folders_ok_def intro: distinct_map_filter)
    ultimately show ?thesis by (simp add: folders_ok_def)
  qed
  moreover have "mail_ok d'"
  proof -
    have m: "messages_ok d" "locations_ok d" "attachments_ok d"
      using ok by (simp_all add: tables_ok_def archive_ok_def mailbox_ok_def mail_ok_def)
    have "messages_ok d'" "locations_ok d'" "attachments_ok d'"
      using m r by (auto simp: messages_ok_def locations_ok_def attachments_ok_def intro: distinct_map_filter)
    then show ?thesis by (simp add: mail_ok_def)
  qed
  ultimately show ?thesis by (simp add: tables_ok_def archive_ok_def mailbox_ok_def)
qed

section \<open>Every operation keeps the tables\<close>

lemma keeps_changes: "(\<And>D. P D \<Longrightarrow> changes_to D P m) \<Longrightarrow> keeps P (m :: ('z, 'a) dbm)"
proof (rule keepsI)
  fix s :: "'z tx_scheme"
  assume "\<And>D. P D \<Longrightarrow> changes_to D P m" and "P (tx_db s)"
  then show "P (tx_db (snd (m s)))" unfolding changes_to_def by fastforce
qed

lemma upsert_setting_ok: "tables_ok d \<Longrightarrow> upsert_setting_row now x d = Inr (y, d') \<Longrightarrow> tables_ok d'"
proof -
  assume ok: "tables_ok d" and up: "upsert_setting_row now x d = Inr (y, d')"
  let ?key = "\<lambda>r. (set_user_id r, set_key r)"
  have s: "distinct (map ?key (tbl_settings d))" "\<forall>r \<in> set (tbl_settings d). user_exists (set_user_id r) d"
    using ok by (auto simp: user_tables_defs)
  show "tables_ok d'"
  proof (cases "\<exists>r \<in> set (tbl_settings d). setting_at (us_user_id x) (us_key x) r")
    case True
    let ?rows = "update_where (setting_at (us_user_id x) (us_key x)) (\<lambda>r. r\<lparr>set_value := us_value x, set_updated_at := now\<rparr>)
      (tbl_settings d)"
    have d': "d' = d\<lparr>tbl_settings := ?rows\<rparr>" using up True by (simp add: upsert_setting_row_def)
    have keys: "map ?key ?rows = map ?key (tbl_settings d)" by (rule map_updated_key) simp
    moreover have "\<forall>r \<in> set ?rows. user_exists (set_user_id r) d"
      using s(2) by (auto simp: set_update_where)
    ultimately show ?thesis
      using ok s by (simp add: user_tables_defs d' user_exists_def archive_ok_other)
  next
    case False
    then have "\<forall>r \<in> set (tbl_settings d). ?key r \<noteq> (us_user_id x, us_key x)" by (auto simp: setting_at_def)
    moreover have "user_exists (us_user_id x) d" "d' = d\<lparr>tbl_settings := tbl_settings d @
       [\<lparr>set_user_id = us_user_id x, set_key = us_key x, set_value = us_value x, set_created_at = now, set_updated_at = now\<rparr>]\<rparr>"
      using up False by (auto simp: upsert_setting_row_def split: if_splits)
    ultimately show ?thesis
      using ok s by (auto simp: user_tables_defs user_exists_def archive_ok_other)
  qed
qed

lemma upsert_session_ok: "tables_ok d \<Longrightarrow> upsert_session_row now n d = Inr (y, d') \<Longrightarrow> tables_ok d'"
  by (auto simp: user_tables_defs upsert_session_row_def user_exists_def archive_ok_other map_updated_key split: if_splits)
    metis

lemma fewer_rows_ok:
  assumes "tables_ok d"
  shows "tables_ok (d\<lparr>tbl_settings := delete_where p (tbl_settings d)\<rparr>)"
    and "tables_ok (d\<lparr>tbl_sessions := delete_where q (tbl_sessions d)\<rparr>)" and "tables_ok (d\<lparr>tbl_sessions := []\<rparr>)"
  using assms by (simp_all add: user_tables_defs user_exists_def archive_ok_other distinct_map_delete_where)

text \<open>
  C31. Every operation of the user, settings and session services keeps the tables sound, whatever
  fails on the way: users, accounts, folders, messages, locations, attachments, settings and
  sessions have unique keys (users also unique names and addresses), and every reference from one
  table to another has its row.
\<close>

theorem user_services_keep_tables:
  "keeps tables_ok (add_user n) \<and> keeps tables_ok (update_user u) \<and> keeps tables_ok (delete_user i) \<and>
   keeps tables_ok (set_setting i k v) \<and> keeps tables_ok (delete_setting i k) \<and>
   keeps tables_ok (auth_store ns) \<and> keeps tables_ok (auth_delete_by_id j) \<and> keeps tables_ok auth_delete_by_expiry \<and>
   keeps tables_ok auth_delete_all"
proof (intro conjI)
  show "keeps tables_ok (add_user n)"
    by (intro keeps_changes changes_to_mono [OF add_user_changes]) (auto simp: user_inserted_def intro: insert_user_ok)
  show "keeps tables_ok (update_user u)"
    by (intro keeps_changes changes_to_mono [OF update_user_changes]) (auto simp: user_written_def intro: write_user_ok)
  show "keeps tables_ok (delete_user i)"
    by (intro keeps_changes changes_to_mono [OF delete_user_changes])
      (auto simp: user_deleted_def intro: rest_of_users_ok delete_user_rest)
  show "keeps tables_ok (set_setting i k v)"
    by (intro keeps_changes changes_to_mono [OF set_setting_changes]) (auto simp: writes_def intro: upsert_setting_ok)
  show "keeps tables_ok (delete_setting i k)"
    by (intro keeps_changes changes_to_mono [OF delete_setting_changes]) (simp add: fewer_rows_ok)
  show "keeps tables_ok (auth_store ns)"
    by (intro keeps_changes changes_to_mono [OF auth_store_changes]) (auto simp: writes_def intro: upsert_session_ok)
  show "keeps tables_ok (auth_delete_by_id j)"
    by (intro keeps_changes changes_to_mono [OF auth_delete_changes]) (simp add: fewer_rows_ok)
  show "keeps tables_ok auth_delete_by_expiry"
    by (intro keeps_changes changes_to_mono [OF auth_expiry_changes]) (auto simp: fewer_rows_ok)
  show "keeps tables_ok auth_delete_all"
    by (intro keeps_changes changes_to_mono [OF auth_delete_all_changes]) (simp add: fewer_rows_ok)
qed

lemma user_delete_run:
  assumes "user_delete u s = (Inr x, t)"
  shows "find_user (usr_id u) (tx_db s) = Some x" and "delete_user_row (usr_id x) (tx_db s) = Inr ((), tx_db t)"
proof -
  from assms obtain s1 where q: "query (find_user (usr_id u)) s = (Inr (Some x), s1)"
      and ex: "execute (delete_user_row (usr_id x)) s1 = (Inr (), t)"
    by (auto simp: user_delete_def bindE_Inr_iff requireE_apply act_eval split: if_splits option.splits)
  show "find_user (usr_id u) (tx_db s) = Some x" using query_Inr [OF q] by simp
  show "delete_user_row (usr_id x) (tx_db s) = Inr ((), tx_db t)"
    using query_Inr [OF q] execute_Inr [OF ex] by simp
qed

text \<open>
  C19. Deleting a user that exists leaves exactly the rows that hang off other users: their user
  rows, settings, accounts and everything below those accounts, with sessions and jobs untouched,
  and nothing of the deleted user. What the deletion does not touch is the disk and the search
  index: the blobs and the documents of the user's accounts stay. A failed deletion changes nothing.
\<close>

theorem delete_user_reach:
  fixes s :: "'z app_world_scheme"
  assumes "tables_ok (tx_db s)"
  shows "case delete_user i s of
      (Inl _, t) \<Rightarrow> tx_db t = tx_db s \<and> w_files t = w_files s \<and> ix_docs t = ix_docs s
    | (Inr u, t) \<Rightarrow> find_user i (tx_db s) = Some u \<and> rest_of_users i (tx_db s) (tx_db t) \<and> tables_ok (tx_db t) \<and>
        \<not> user_exists i (tx_db t) \<and> w_files t = w_files s \<and> ix_docs t = ix_docs s"
proof (cases "delete_user i s")
  case (Pair r t)
  have only: "db_only (delete_user i :: ('z app_world_ext world_ext, User) dbm)"
    unfolding delete_user_def user_find_by_id_def user_delete_def by (intro db_only_intros)
  have "tx.more t = tx.more s" by (rule db_onlyD [OF only Pair])
  then have outside: "w_files t = w_files s" "ix_docs t = ix_docs s"
    by (cases s, cases t, simp)+
  show ?thesis
  proof (cases r)
    case (Inl e)
    with Pair have "tx_db t = tx_db s" unfolding delete_user_def by (auto dest: transaction_Inl_db)
    with Pair Inl outside show ?thesis by simp
  next
    case (Inr u)
    with Pair obtain s0 s1 :: "'z app_world_scheme" where run: "tx_db s0 = tx_db s"
        "bindE (user_find_by_id i) (\<lambda>found. case found of None \<Rightarrow> throw (RepoError NotFound) | Some u \<Rightarrow> user_delete u) s0 = (Inr u, s1)"
        "tx_db t = tx_db s1"
      unfolding delete_user_def by (auto elim: transaction_Inr)
    then obtain y and s2 :: "'z app_world_scheme" where y: "user_find_by_id i s0 = (Inr (Some y), s2)" "user_delete y s2 = (Inr u, s1)"
      by (auto simp: bindE_Inr_iff [of "user_find_by_id i"] act_eval split: option.splits)
    have s2: "tx_db s2 = tx_db s" "find_user i (tx_db s) = Some y"
      using y(1) run(1) by (auto simp: user_find_by_id_def bindE_Inr_iff requireE_apply dest!: query_Inr split: if_splits)
    have x: "find_user i (tx_db s) = Some u" and del: "delete_user_row i (tx_db s) = Inr ((), tx_db t)"
      using user_delete_run [OF y(2)] s2 run(3) find_user_in [OF s2(2)] find_user_in [of i "tx_db s" u] by simp_all
    have "rest_of_users i (tx_db s) (tx_db t)" by (rule delete_user_rest [OF assms del])
    moreover from this have "tables_ok (tx_db t)" "\<not> user_exists i (tx_db t)"
      using rest_of_users_ok [OF assms] by (auto simp: rest_of_users_def user_exists_def)
    ultimately show ?thesis using Pair Inr x outside by simp
  qed
qed

section \<open>Witness\<close>

lemma sample_app_rest: "tbl_settings (tx_db sample_app) = []" "tbl_sessions (tx_db sample_app) = []"
  by (simp_all add: sample_app_parts sample_pipeline_def sample_jobs_db_def empty_db_def)

lemma sample_app_tables: "tables_ok (tx_db sample_app)"
  using sample_archive_ok by (simp add: user_tables_defs sample_app_rest sample_app_db)

lemma sample_delete_user_run: "\<exists>u t. delete_user 1 sample_app = (Inr u, t)"
  by (simp add: delete_user_def user_find_by_id_def user_delete_def transaction_def bindE_def requireE_apply stmt_simps
      act_eval sample_app_parts(2) sample_app_db find_user_def find_row_def sample_user_def delete_user_row_def Let_def)

theorem delete_user_reach_witness:
  "\<exists>u t. delete_user 1 sample_app = (Inr u, t) \<and> tbl_accounts (tx_db t) = [] \<and> tbl_folders (tx_db t) = []"
proof -
  obtain u t where run: "delete_user 1 sample_app = (Inr u, t)" using sample_delete_user_run by blast
  with delete_user_reach [OF sample_app_tables, of 1]
  have "rest_of_users 1 (tx_db sample_app) (tx_db t)" by simp
  with run show ?thesis
    by (auto simp: rest_of_users_def sample_app_db account_exists_def sample_account_def)
qed

end
