(* ===== verification/SessionProps.thy ===== *)
theory SessionProps
  imports UserProps
begin

text \<open>
  Keyed storage: the contract the session layer and the settings page rely on (a value put under
  a key is the one read back, and other keys are not disturbed), stated as an interface and
  proved of the two tables that implement it; the round trip of a session through the pool, the
  exact effect of the clean-up, what a login checks, and that the permission check of the web
  layer is the capability check of the domain.
\<close>

section \<open>The interface\<close>

locale keyed_table =
  fixes get :: "'k \<Rightarrow> db \<Rightarrow> 'v option" and put :: "'k \<Rightarrow> 'v \<Rightarrow> db \<Rightarrow> db" and del :: "'k \<Rightarrow> db \<Rightarrow> db"
  assumes get_put: "get j (put i v d) = (if j = i then Some v else get j d)"
    and get_del: "get j (del i d) = (if j = i then None else get j d)"
begin

lemma put_twice: "get j (put i w (put i v d)) = get j (put i w d)"
  by (simp add: get_put)

lemma put_other: "i \<noteq> k \<Longrightarrow> get j (put i v (put k w d)) = get j (put k w (put i v d))"
  by (simp add: get_put)

lemma del_put: "get j (del i (put i v d)) = get j (del i d)"
  by (simp add: get_put get_del)

lemma put_all: "distinct (map fst kvs) \<Longrightarrow>
    get j (fold (\<lambda>(k, v). put k v) kvs d) = (case map_of kvs j of Some v \<Rightarrow> Some v | None \<Rightarrow> get j d)"
proof (induction kvs arbitrary: d)
  case Nil
  then show ?case by simp
next
  case (Cons kv kvs)
  obtain k v where kv: "kv = (k, v)" by fastforce
  with Cons have "map_of kvs k = None" by (auto simp: map_of_eq_None_iff)
  with Cons kv show ?case by (auto simp: get_put split: option.splits)
qed

end

text \<open>The upsert of a table with a key: update the row of the key, or add one.\<close>

lemma find_row_upsert:
  assumes "\<And>r. k (f r) = k r" and "k n = i"
  shows "find_row (\<lambda>r. k r = j)
      (if \<exists>r \<in> set rows. k r = i then update_where (\<lambda>r. k r = i) f rows else rows @ [n])
    = (if j = i then Some (case find_row (\<lambda>r. k r = i) rows of None \<Rightarrow> n | Some r \<Rightarrow> f r)
       else find_row (\<lambda>r. k r = j) rows)"
proof (cases "\<exists>r \<in> set rows. k r = i")
  case True
  then obtain x where x: "find_row (\<lambda>r. k r = i) rows = Some x" 
    using find_row_None [of "\<lambda>r. k r = i" rows] by (cases "find_row (\<lambda>r. k r = i) rows") auto
  note up = find_row_update_where [of k f j "\<lambda>r. k r = i" rows, OF assms(1)]
  show ?thesis
  proof (cases "j = i")
    case True
    with up x \<open>\<exists>r \<in> set rows. k r = i\<close> show ?thesis using find_row_Some [OF x] by simp
  next
    case False
    then have "map_option (\<lambda>r. if k r = i then f r else r) (find_row (\<lambda>r. k r = j) rows) = find_row (\<lambda>r. k r = j) rows"
      by (cases "find_row (\<lambda>r. k r = j) rows") (auto dest: find_row_Some)
    with up False \<open>\<exists>r \<in> set rows. k r = i\<close> show ?thesis by simp
  qed
next
  case False
  then have "find_row (\<lambda>r. k r = i) rows = None" by (simp add: find_row_None)
  moreover have "find_row (\<lambda>r. k r = j) (rows @ [n]) = (case find_row (\<lambda>r. k r = j) rows of
      Some x \<Rightarrow> Some x | None \<Rightarrow> if k n = j then Some n else None)"
    by (induction rows) (auto simp: find_row_def)
  ultimately show ?thesis using False assms(2) by (auto split: option.splits)
qed

lemma find_row_delete:
  "find_row (\<lambda>r. k r = j) (delete_where (\<lambda>r. k r = i) rows) = (if j = i then None else find_row (\<lambda>r. k r = j) rows)"
  by (induction rows) (auto simp: find_row_def delete_where_def)

section \<open>Sessions\<close>

text \<open>The value of a session: its data and when it expires.\<close>

definition stored_session :: "string \<Rightarrow> db \<Rightarrow> (string \<times> time) option" where
  "stored_session i d = map_option (\<lambda>x. (ses_session x, ses_expires_at x)) (find_session i d)"

definition put_session :: "time \<Rightarrow> string \<Rightarrow> string \<times> time \<Rightarrow> db \<Rightarrow> db" where
  "put_session now i v d =
    (case upsert_session_row now \<lparr>nse_id = i, nse_session = fst v, nse_expires_at = snd v\<rparr> d of Inr (_, d') \<Rightarrow> d' | Inl _ \<Rightarrow> d)"

definition drop_session :: "string \<Rightarrow> db \<Rightarrow> db" where
  "drop_session i d = d\<lparr>tbl_sessions := delete_where (\<lambda>x. ses_id x = i) (tbl_sessions d)\<rparr>"

interpretation sessions: keyed_table stored_session "put_session now" drop_session for now
proof
  fix i j :: string and v :: "string \<times> time" and d
  let ?f = "\<lambda>x :: Session. x\<lparr>ses_session := fst v, ses_expires_at := snd v\<rparr>"
  let ?n = "\<lparr>ses_id = i, ses_session = fst v, ses_expires_at = snd v, ses_created_at = now\<rparr> :: Session"
  have "tbl_sessions (put_session now i v d) =
      (if \<exists>x \<in> set (tbl_sessions d). ses_id x = i then update_where (\<lambda>x. ses_id x = i) ?f (tbl_sessions d)
       else tbl_sessions d @ [?n])"
    by (simp add: put_session_def upsert_session_row_def)
  then have "find_session j (put_session now i v d) =
      (if j = i then Some (case find_session i d of None \<Rightarrow> ?n | Some r \<Rightarrow> ?f r) else find_session j d)"
    using find_row_upsert [of ses_id ?f ?n i j "tbl_sessions d"] by (simp add: find_session_def)
  then show "stored_session j (put_session now i v d) = (if j = i then Some v else stored_session j d)"
    by (simp add: stored_session_def split: option.splits)
  show "stored_session j (drop_session i d) = (if j = i then None else stored_session j d)"
    by (simp add: stored_session_def drop_session_def find_session_def find_row_delete)
qed

section \<open>Settings\<close>

definition stored_setting :: "UserId \<times> string \<Rightarrow> db \<Rightarrow> string option" where
  "stored_setting p d = map_option set_value (find_row (\<lambda>r. (set_user_id r, set_key r) = p) (tbl_settings d))"

text \<open>The write of a setting of a user that exists.\<close>

definition put_setting :: "time \<Rightarrow> UserId \<times> string \<Rightarrow> string \<Rightarrow> db \<Rightarrow> db" where
  "put_setting now p v d =
    d\<lparr>tbl_settings := (if \<exists>r \<in> set (tbl_settings d). (set_user_id r, set_key r) = p
      then update_where (\<lambda>r. (set_user_id r, set_key r) = p) (\<lambda>r. r\<lparr>set_value := v, set_updated_at := now\<rparr>) (tbl_settings d)
      else tbl_settings d @
        [\<lparr>set_user_id = fst p, set_key = snd p, set_value = v, set_created_at = now, set_updated_at = now\<rparr>])\<rparr>"

definition drop_setting :: "UserId \<times> string \<Rightarrow> db \<Rightarrow> db" where
  "drop_setting p d = d\<lparr>tbl_settings := delete_where (\<lambda>r. (set_user_id r, set_key r) = p) (tbl_settings d)\<rparr>"

lemma setting_at_key: "setting_at u k = (\<lambda>r. (set_user_id r, set_key r) = (u, k))"
  by (simp add: setting_at_def fun_eq_iff)

lemma upsert_setting_puts:
  "upsert_setting_row now x d = Inr (y, d') \<Longrightarrow> d' = put_setting now (us_user_id x, us_key x) (us_value x) d"
  by (auto simp: upsert_setting_row_def put_setting_def setting_at_key split: if_splits)

interpretation settings: keyed_table stored_setting "put_setting now" drop_setting for now
proof
  fix i j :: "UserId \<times> string" and v :: string and d
  let ?k = "\<lambda>r :: UserSettingRow. (set_user_id r, set_key r)"
  let ?f = "\<lambda>r :: UserSettingRow. r\<lparr>set_value := v, set_updated_at := now\<rparr>"
  let ?n = "\<lparr>set_user_id = fst i, set_key = snd i, set_value = v, set_created_at = now, set_updated_at = now\<rparr> :: UserSettingRow"
  have "find_row (\<lambda>r. ?k r = j) (tbl_settings (put_setting now i v d)) =
      (if j = i then Some (case find_row (\<lambda>r. ?k r = i) (tbl_settings d) of None \<Rightarrow> ?n | Some r \<Rightarrow> ?f r)
       else find_row (\<lambda>r. ?k r = j) (tbl_settings d))"
    using find_row_upsert [of ?k ?f ?n i j "tbl_settings d"] by (simp add: put_setting_def)
  then show "stored_setting j (put_setting now i v d) = (if j = i then Some v else stored_setting j d)"
    by (simp add: stored_setting_def split: option.splits)
  show "stored_setting j (drop_setting i d) = (if j = i then None else stored_setting j d)"
    unfolding stored_setting_def drop_setting_def using find_row_delete [of ?k j i "tbl_settings d"] by simp
qed

section \<open>The round trip through the pool\<close>

lemma auth_store_puts:
  fixes s t :: "'z tx_scheme"
  assumes "auth_store n s = (Inr x, t)"
  shows "\<exists>now. tx_db t = put_session now (nse_id n) (nse_session n, nse_expires_at n) (tx_db s)"
proof -
  from assms obtain s0 s1 :: "'z tx_scheme" where s0: "tx_db s0 = tx_db s" and st: "session_store n s0 = (Inr x, s1)" and t: "tx_db t = tx_db s1"
    unfolding auth_store_def by (auto elim: transaction_Inr)
  from st obtain s2 where ex: "execute (upsert_session_row (tx_now s0) n) s0 = (Inr (), s2)"
      and q: "query (find_session (nse_id n)) s2 = (Inr (Some x), s1)"
    by (auto simp: session_store_def utc_now_def bindE_Inr_iff [of "execute _"] bindE_Inr_iff [of "query _"] act_eval
        split: option.splits)
  have "upsert_session_row (tx_now s0) n (tx_db s) = Inr ((), tx_db t)"
    using execute_Inr [OF ex] query_Inr [OF q] s0 t by simp
  then have "put_session (tx_now s0) (nse_id n) (nse_session n, nse_expires_at n) (tx_db s) = tx_db t"
    by (cases n) (simp add: put_session_def)
  then show ?thesis by metis
qed

lemma pool_store_puts:
  assumes "pool_store from_timestamp i data expires s = (Inr (), t)"
  shows "\<exists>now e. from_timestamp expires = Some e \<and> tx_db t = put_session now i (data, e) (tx_db s)"
proof -
  from assms obtain e x where "from_timestamp expires = Some e"
      and "auth_store \<lparr>nse_id = i, nse_session = data, nse_expires_at = e\<rparr> s = (Inr x, t)"
    by (auto simp: pool_store_def map_errE_Inr bindE_Inr_iff act_eval split: option.splits)
  with auth_store_puts [OF this(2)] show ?thesis by auto
qed

lemma pool_load_value:
  fixes s t :: "'z tx_scheme"
  assumes "pool_load i s = (Inr v, t)"
  shows "v = map_option fst (stored_session i (tx_db s))"
proof -
  from assms obtain x s1 where "auth_load i s = (Inr x, s1)" and v: "v = map_option ses_session x"
    by (auto simp: pool_load_def map_errE_Inr bindE_Inr_iff act_eval)
  then obtain s0 s2 :: "'z tx_scheme" where "tx_db s0 = tx_db s" "query (find_session i) s0 = (Inr x, s2)"
    unfolding auth_load_def session_load_def by (auto elim: transaction_Inr)
  with v query_Inr [OF this(2)] show ?thesis by (simp add: stored_session_def option.map_comp comp_def)
qed

text \<open>
  A session the pool stored is the session it loads: after a store that succeeded, a later
  load of the same id that gets an answer gets the data stored last, the expiry is the instant the
  calendar gives the timestamp, and a load of any other id answers as before the store.
\<close>

theorem session_pool_round_trip:
  assumes "pool_store from_timestamp i data expires s = (Inr (), t)"
    and "tx_db u = tx_db t" and "pool_load j u = (Inr v, u')"
  shows "v = (if j = i then Some data else map_option fst (stored_session j (tx_db s))) \<and>
    (\<exists>e. from_timestamp expires = Some e \<and> stored_session i (tx_db t) = Some (data, e))"
proof
  from pool_store_puts [OF assms(1)] obtain now e where
    e: "from_timestamp expires = Some e" and t: "tx_db t = put_session now i (data, e) (tx_db s)" by blast
  show "v = (if j = i then Some data else map_option fst (stored_session j (tx_db s)))"
    using pool_load_value [OF assms(3)] assms(2) t by (simp add: sessions.get_put)
  show "\<exists>e. from_timestamp expires = Some e \<and> stored_session i (tx_db t) = Some (data, e)"
    using e t by (simp add: sessions.get_put)
qed

lemma find_row_filter:
  assumes "distinct (map k rows)"
  shows "find_row (\<lambda>r. k r = i) (filter p rows) =
    (case find_row (\<lambda>r. k r = i) rows of Some r \<Rightarrow> if p r then Some r else None | None \<Rightarrow> None)"
  using assms
proof (induction rows)
  case Nil
  then show ?case by (simp add: find_row_def)
next
  case (Cons x xs)
  have "find_row (\<lambda>r. k r = i) xs = None" if "k x = i"
    using Cons.prems that by (auto simp: find_row_None image_iff)
  with Cons show ?case by (auto simp: find_row_def)
qed

text \<open>
  The clean-up of sessions reports and removes the same sessions, exactly the stale ones:
  those that expired, and the anonymous ones two days old; every other session can be loaded as
  before.
\<close>

theorem session_cleanup_exact:
  fixes s t :: "'z tx_scheme"
  assumes "sessions_ok (tx_db s)" and "auth_delete_by_expiry s = (Inr ids, t)"
  shows "ids = map ses_id (filter (stale_session (tx_now s)) (tbl_sessions (tx_db s))) \<and>
    tbl_sessions (tx_db t) = filter (\<lambda>x. \<not> stale_session (tx_now s) x) (tbl_sessions (tx_db s)) \<and>
    stored_session i (tx_db t) = (if i \<in> set ids then None else stored_session i (tx_db s))"
proof (intro conjI)
  from assms(2) obtain s0 s1 :: "'z tx_scheme" where s0: "tx_db s0 = tx_db s" "tx_now s0 = tx_now s"
      and run: "session_delete_by_expiry s0 = (Inr ids, s1)" and t: "tx_db t = tx_db s1"
    unfolding auth_delete_by_expiry_def by (auto elim: transaction_Inr)
  from run obtain s2 where
      q: "query (\<lambda>d. map ses_id (filter (stale_session (tx_now s0)) (tbl_sessions d))) s0 = (Inr ids, s2)"
      and ex: "execute (\<lambda>d. Inr ((), d\<lparr>tbl_sessions := delete_where (stale_session (tx_now s0)) (tbl_sessions d)\<rparr>)) s2 = (Inr (), s1)"
    by (auto simp: session_delete_by_expiry_def utc_now_def bindE_Inr_iff [of "execute _"] bindE_Inr_iff [of "query _"] act_eval)
  show ids: "ids = map ses_id (filter (stale_session (tx_now s)) (tbl_sessions (tx_db s)))"
    using query_Inr [OF q] s0 by simp
  show rows: "tbl_sessions (tx_db t) = filter (\<lambda>x. \<not> stale_session (tx_now s) x) (tbl_sessions (tx_db s))"
    using execute_Inr [OF ex] query_Inr [OF q] s0 t by (auto simp: delete_where_def dest!: arg_cong [of _ _ tbl_sessions])
  have d: "distinct (map ses_id (tbl_sessions (tx_db s)))" using assms(1) by (simp add: sessions_ok_def)
  have "i \<in> set ids \<longleftrightarrow> (\<exists>x. find_session i (tx_db s) = Some x \<and> stale_session (tx_now s) x)"
    unfolding ids find_session_def using find_row_key_eq [OF d] by (auto dest: find_row_Some)
  then show "stored_session i (tx_db t) = (if i \<in> set ids then None else stored_session i (tx_db s))"
    unfolding stored_session_def find_session_def rows find_row_filter [OF d] by (auto split: option.splits)
qed

section \<open>Logins\<close>

lemma find_row_first_key:
  assumes "distinct (map g rows)" and "u \<in> set rows" and "g u = x"
  shows "find_row (\<lambda>r. g r = x) rows = Some u"
  using find_row_key_eq [OF assms] .

lemma is_valid_login_clear:
  assumes "tx_faults s = []"
  shows "is_valid_login lc h name pw s =
    (Inr (case find_row (\<lambda>u. lower_name_eq lc (usr_username u) name) (tbl_users (tx_db s)) of
       Some u \<Rightarrow> if check_password h u pw then Some u else None | None \<Rightarrow> None), s)"
  using assms
  by (auto simp: is_valid_login_def user_find_by_username_def read_only_clear query_clear bindE_def act_eval split: option.splits)

text \<open>
  C33. While no two user names differ in the case of ASCII letters only, a login gives a user exactly
  when the Unicode lower-casing of the name given is that user's name with its ASCII capitals (and no
  others) lower-cased, and the password verifies against that user's own hash; a login never changes
  the tables.
\<close>

theorem login_iff_password:
  assumes "distinct (map (\<lambda>u. to_ascii_lowercase (usr_username u)) (tbl_users (tx_db s)))" and "tx_faults s = []"
  shows "(fst (is_valid_login lc h name pw s) = Inr (Some u) \<longleftrightarrow>
      u \<in> set (tbl_users (tx_db s)) \<and> lc name = to_ascii_lowercase (usr_username u) \<and> check_password h u pw) \<and>
    tx_db (snd (is_valid_login lc h name pw s)) = tx_db s"
proof -
  let ?found = "find_row (\<lambda>u. lower_name_eq lc (usr_username u) name) (tbl_users (tx_db s))"
  have "?found = Some u \<longleftrightarrow> u \<in> set (tbl_users (tx_db s)) \<and> lc name = to_ascii_lowercase (usr_username u)"
    using find_row_first_key [OF assms(1), of u "lc name"]
    by (auto simp: lower_name_eq_def dest: find_row_Some)
  then show ?thesis by (auto simp: is_valid_login_clear [OF assms(2)] split: option.splits)
qed

text \<open>
  The two lower-casings differ beyond ASCII: where the lower-casing of a user's own name turns a letter
  that SQLite's keeps, no password logs that user in by this name.
\<close>

lemma own_name_refused:
  fixes s :: "'z tx_scheme"
  assumes "lc (usr_username u) \<noteq> to_ascii_lowercase (usr_username u)"
  shows "fst (is_valid_login lc h (usr_username u) pw s) \<noteq> Inr (Some u)"
proof
  assume "fst (is_valid_login lc h (usr_username u) pw s) = Inr (Some u)"
  then obtain t where run: "is_valid_login lc h (usr_username u) pw s = (Inr (Some u), t)"
    by (cases "is_valid_login lc h (usr_username u) pw s") simp
  then obtain found s1 where found: "read_only_transaction (user_find_by_username lc (usr_username u)) s = (Inr found, s1)"
      and user: "found = Some u"
    unfolding is_valid_login_def bindE_Inr_iff by (auto simp: act_eval split: option.splits if_splits)
  from found obtain s0 s2 :: "'z tx_scheme" where "user_find_by_username lc (usr_username u) s0 = (Inr (Some u), s2)"
    unfolding user by (rule read_only_Inr)
  then have "find_row (\<lambda>x. lower_name_eq lc (usr_username x) (usr_username u)) (tbl_users (tx_db s0)) = Some u"
    by (auto simp: user_find_by_username_def dest: query_Inr)
  from find_row_Some [OF this] assms show False by (simp add: lower_name_eq_def)
qed

text \<open>
  The name Elise with an acute accent on its first letter, in UTF-8: the letter as a capital, and in
  lower case.
\<close>

definition elise_capital :: string where
  "elise_capital = char_of (195 :: nat) # char_of (137 :: nat) # ''lise''"

definition elise_small :: string where
  "elise_small = char_of (195 :: nat) # char_of (169 :: nat) # ''lise''"

theorem accented_capital_cannot_log_in:
  assumes "lc elise_capital = elise_small" and "usr_username u = elise_capital"
  shows "fst (is_valid_login lc h elise_capital pw s) \<noteq> Inr (Some u)"
proof -
  have "to_ascii_lowercase elise_capital \<noteq> elise_small" by code_simp
  with own_name_refused [of lc u h pw s] assms show ?thesis by auto
qed

text \<open>The permission check of the web layer, on the user it loaded, is the capability check.\<close>

lemma permission_is_capability: "has_permission (auth_user_of i u) (capability_as_str c) \<longleftrightarrow> has_capability u c"
proof -
  have "inj capability_as_str"
  proof (rule injI)
    fix a b show "capability_as_str a = capability_as_str b \<Longrightarrow> a = b" by (cases a; cases b) simp_all
  qed
  then show ?thesis
    by (auto simp: has_permission_def has_capability_def auth_user_of_def inj_image_mem_iff dest: injD
        simp del: capability_as_str.simps)
qed

section \<open>Concrete inputs\<close>

definition toy_hasher :: hasher where
  "toy_hasher = \<lparr>ph_hash = (\<lambda>salt pw. Inr pw), ph_parses = (\<lambda>x. True), ph_verifies = (\<lambda>x pw. x = pw)\<rparr>"

definition sample_users_db :: db where
  "sample_users_db = empty_db\<lparr>tbl_users := [sample_user], tbl_sessions :=
     [\<lparr>ses_id = ''a'', ses_session = ''{}'', ses_expires_at = seconds 50, ses_created_at = 0\<rparr>,
      \<lparr>ses_id = ''b'', ses_session = ''{}'', ses_expires_at = seconds 500, ses_created_at = 0\<rparr>]\<rparr>"

definition sample_users_tx :: tx where
  "sample_users_tx = \<lparr>tx_db = sample_users_db, tx_faults = [], tx_now = seconds 100, tx_rng = (\<lambda>n. of_nat (n + 2)), tx_rng_pos = 0\<rparr>"

lemma sample_users_tables: "tables_ok sample_users_db"
  by (simp add: user_tables_defs archive_ok_defs sample_users_db_def empty_db_def sample_user_def)

theorem login_iff_password_witness:
  "fst (is_valid_login to_ascii_lowercase toy_hasher ''ALICE'' ''h'' sample_users_tx) = Inr (Some sample_user)"
proof -
  have "distinct (map (\<lambda>u. to_ascii_lowercase (usr_username u)) (tbl_users (tx_db sample_users_tx)))"
    by (simp add: sample_users_tx_def sample_users_db_def)
  moreover have "tx_faults sample_users_tx = []" by (simp add: sample_users_tx_def)
  moreover have "to_ascii_lowercase ''ALICE'' = to_ascii_lowercase (usr_username sample_user)" by code_simp
  moreover have "check_password toy_hasher sample_user ''h''" by (simp add: check_password_def toy_hasher_def sample_user_def)
  moreover have "sample_user \<in> set (tbl_users (tx_db sample_users_tx))" by (simp add: sample_users_tx_def sample_users_db_def)
  ultimately show ?thesis
    using login_iff_password [of sample_users_tx to_ascii_lowercase toy_hasher "''ALICE''" "''h''" sample_user] by simp
qed

lemmas session_eval = pool_store_def pool_load_def auth_store_def auth_load_def session_store_def session_load_def
  upsert_session_row_def find_session_def find_row_def map_errE_def handleE_def bindE_def transaction_def utc_now_def
  update_where_def

definition sample_stored :: tx where
  "sample_stored = snd (pool_store (\<lambda>n. Some (seconds n)) ''a'' ''data'' 300 sample_users_tx)"

theorem session_pool_round_trip_witness:
  "pool_load ''a'' sample_stored = (Inr (Some ''data''), sample_stored) \<and>
   stored_session ''a'' (tx_db sample_stored) = Some (''data'', seconds 300)"
proof -
  have run: "pool_store (\<lambda>n. Some (seconds n)) ''a'' ''data'' 300 sample_users_tx = (Inr (), sample_stored)"
    by (simp add: sample_stored_def session_eval sample_users_tx_def sample_users_db_def stmt_simps act_eval)
  have load: "\<exists>v. pool_load ''a'' sample_stored = (Inr v, sample_stored)"
    by (simp add: sample_stored_def session_eval sample_users_tx_def sample_users_db_def stmt_simps act_eval)
  then obtain v where load: "pool_load ''a'' sample_stored = (Inr v, sample_stored)" by blast
  from session_pool_round_trip [OF run refl load] load show ?thesis by simp
qed

lemma data_free: "\<not> contains ''\"data\":{}'' ''{}''"
  by code_simp

theorem session_cleanup_exact_witness:
  "\<exists>t. auth_delete_by_expiry sample_users_tx = (Inr [''a''], t) \<and> stored_session ''a'' (tx_db t) = None"
proof -
  have ok: "sessions_ok (tx_db sample_users_tx)"
    using sample_users_tables by (simp add: sample_users_tx_def tables_ok_def)
  have "\<exists>ids t. auth_delete_by_expiry sample_users_tx = (Inr ids, t)"
    by (simp add: auth_delete_by_expiry_def session_delete_by_expiry_def transaction_def bindE_def utc_now_def
        sample_users_tx_def stmt_simps act_eval)
  then obtain ids t where run: "auth_delete_by_expiry sample_users_tx = (Inr ids, t)" by blast
  have "ids = [''a'']"
    using session_cleanup_exact [OF ok run]
    by (simp add: sample_users_tx_def sample_users_db_def stale_session_def seconds_def data_free)
  with session_cleanup_exact [OF ok run, of "''a''"] run show ?thesis by simp
qed

text \<open>
  Names are unique as they are spelled but looked up without case: after \<open>Bob\<close>, a user
  \<open>bob\<close> can be registered, who can then not log in with his own password.
\<close>

definition twin :: "string \<Rightarrow> string \<Rightarrow> string \<Rightarrow> NewUser" where
  "twin name pw email = \<lparr>nus_username = name, nus_full_name = name, nus_password_hash = pw, nus_email_address = email,
     nus_capabilities = {}, nus_change_password_on_login = False\<rparr>"

lemma char_98: "char_of (98 :: nat) = CHR ''b''"
  by code_simp

theorem case_twin_cannot_log_in:
  "\<exists>u v s1 s2. add_user (twin ''Bob'' ''one'' ''b@x'') sample_users_tx = (Inr u, s1) \<and>
     add_user (twin ''bob'' ''two'' ''c@x'') s1 = (Inr v, s2) \<and> tables_ok (tx_db s2) \<and> check_password toy_hasher v ''two'' \<and>
     fst (is_valid_login to_ascii_lowercase toy_hasher ''bob'' ''two'' s2) = Inr None"
  by (simp add: add_user_def user_add_def twin_def transaction_def bindE_def generate_token_def utc_now_def stmt_simps act_eval
      sample_users_tx_def sample_users_db_def insert_user_row_def new_user_row_def sample_user_def empty_db_def
      user_tables_defs archive_ok_defs check_password_def toy_hasher_def is_valid_login_clear find_row_def lower_name_eq_def
      to_ascii_lowercase_def ascii_lower_def char_98)

end
