(* ===== verification/WebUserProps.thy ===== *)
theory WebUserProps
  imports WebUsers SessionProps
begin

text \<open>
  Who can do what to users through the server functions: there is one super administrator from
  the first registration on, an administrator reaches neither it nor the granting of roles, a
  changed password is the one that logs in, generated passwords pass the rules of the forms, and
  the theme setting is read back as it was set.
\<close>

section \<open>Small steps\<close>

lemma frame_web_login [frame_intros]:
  "frame tx_db (login_user i)" "frame tx_db logout_user"
  by (simp_all add: login_user_def logout_user_def frame_def)

lemma frame_helpers [frame_intros]:
  "frame tx_db (managing_actor cur)" "frame tx_db (encrypt_user_password h pw)"
proof -
  show "frame tx_db (managing_actor cur)" unfolding managing_actor_def by (intro frame_intros)
  show "frame tx_db (encrypt_user_password h pw)"
    unfolding encrypt_user_password_def
    by (intro frame_intros) (simp add: frame_intros split: sum.split)
qed

lemma frame_reads [frame_intros]:
  "frame tx_db (list_users st pg)" "frame tx_db (find_user_by_id i)" "frame tx_db (find_user_by_token i)"
  "frame tx_db (is_valid_login lc h n pw)" "frame tx_db (get_setting ui k)" "frame tx_db (own_user cur)"
  "frame tx_db (user_of_token env tok)" "frame tx_db (new_user h n pw e c f ch)" "frame tx_db (edited_password env a tok p u)"
  "frame tx_db (load_user i b)"
  unfolding list_users_def find_user_by_id_def find_user_by_token_def is_valid_login_def get_setting_def own_user_def
    user_of_token_def new_user_def edited_password_def load_user_def
  by (intro frame_intros | simp only: split: option.split if_split | intro impI conjI allI)+

lemma managing_Inr:
  "managing_actor cur s = (Inr a, t) \<longleftrightarrow> cur = Some a \<and> au_username a \<noteq> [] \<and> manages_users a \<and> t = s"
  by (auto simp: managing_actor_def bindE_Inr_iff authenticated_Inr requireE_apply act_eval split: if_splits)

lemma find_by_id_Inr:
  assumes "find_user_by_id i s = (Inr v, t)"
  shows "v = find_user i (tx_db s) \<and> tx_db t = tx_db s"
proof
  from assms show "v = find_user i (tx_db s)"
    by (auto simp: find_user_by_id_def user_find_by_id_def bindE_Inr_iff [of "requireE _ _"] requireE_apply
        elim!: read_only_Inr dest!: query_Inr split: if_splits)
  from assms show "tx_db t = tx_db s" unfolding find_user_by_id_def by (rule frameD [OF frame_tx_db(5)])
qed

lemma find_by_token_Inr: "find_user_by_token i s = (Inr v, t) \<Longrightarrow> v = find_user i (tx_db s) \<and> tx_db t = tx_db s"
  using find_by_id_Inr by (simp add: find_user_by_token_def find_user_by_id_def)

lemma user_of_token_Inr: "user_of_token env tok s = (Inr u, t) \<Longrightarrow> find_user (usr_id u) (tx_db s) = Some u"
  unfolding user_of_token_def
  by (auto simp: bindE_Inr_iff [of "map_errE _ _"] bindE_Inr_iff [of "to_server_err _"] map_errE_Inr liftE_Inr some_or_Inr
      to_server_err_Inr dest!: find_by_token_Inr) (metis find_user_in)

lemma own_user_Inr:
  "own_user cur s = (Inr u, t) \<Longrightarrow> \<exists>a. cur = Some a \<and> au_username a \<noteq> [] \<and> find_user (au_id a) (tx_db s) = Some u"
  unfolding own_user_def
  by (auto simp: bindE_Inr_iff [of "authenticated_user _"] bindE_Inr_iff [of "to_server_err _"] authenticated_Inr some_or_Inr
      to_server_err_Inr dest!: find_by_id_Inr)

text \<open>An edited password leaves identity, roles and version alone.\<close>

lemma edited_password_Inr:
  "edited_password env a tok p u s = (Inr v, t) \<Longrightarrow>
     usr_id v = usr_id u \<and> usr_capabilities v = usr_capabilities u \<and> usr_version v = usr_version u"
  by (auto simp: edited_password_def bindE_Inr_iff act_eval split: option.splits if_splits)

lemma new_user_Inr: "new_user h n pw e c f ch s = (Inr x, t) \<Longrightarrow> nus_capabilities x = c"
  by (auto simp: new_user_def bindE_Inr_iff act_eval)

section \<open>What each function writes\<close>

lemma changes_to_server:
  "changes_to D E m \<Longrightarrow> changes_to D E (to_server_err m)"
  by (simp add: to_server_err_def changes_to_map_errE)

definition created :: "AuthUser option \<Rightarrow> db \<Rightarrow> db \<Rightarrow> bool" where
  "created cur D d \<longleftrightarrow> (\<exists>a n. cur = Some a \<and> au_username a \<noteq> [] \<and> manages_users a \<and> SuperAdmin \<notin> nus_capabilities n \<and>
     (Admin \<in> nus_capabilities n \<longrightarrow> is_super a) \<and> user_inserted n D d)"

lemma created_changes:
  assumes "cur = Some a" "au_username a \<noteq> []" "manages_users a" "SuperAdmin \<notin> nus_capabilities n"
      "Admin \<notin> nus_capabilities n \<or> is_super a"
  shows "changes_to D (created cur D) (add_user n)"
  by (rule changes_to_mono [OF add_user_changes], unfold created_def, intro exI [of _ a] exI [of _ n]) (use assms in auto)

lemma admin_create_changes: "changes_to D (created cur D) (admin_create_user env cur un fn em pw cs)"
  unfolding admin_create_user_def
  by (intro changes_to_bindE [of "managing_actor _"] changes_to_bindE [of "liftE _"] changes_to_requireE
        changes_to_bindE [of "map_errE _ (new_user _ _ _ _ _ _ _)"] changes_to_then_ret changes_to_map_errE frame_intros)
      (auto simp: managing_Inr map_errE_Inr dest!: new_user_Inr intro: created_changes)

definition edited :: "AuthUser option \<Rightarrow> db \<Rightarrow> db \<Rightarrow> bool" where
  "edited cur D d \<longleftrightarrow> (\<exists>a u v. cur = Some a \<and> au_username a \<noteq> [] \<and> manages_users a \<and> find_user (usr_id u) D = Some u \<and>
     usr_id v = usr_id u \<and> (SuperAdmin \<in> usr_capabilities v \<longleftrightarrow> SuperAdmin \<in> usr_capabilities u) \<and>
     (SuperAdmin \<in> usr_capabilities u \<or> Admin \<in> usr_capabilities v \<longrightarrow> is_super a) \<and> user_written v D d)"

lemma edited_changes:
  assumes "cur = Some a" "au_username a \<noteq> []" "manages_users a" "find_user (usr_id u) D = Some u"
      "usr_id v = usr_id u" "SuperAdmin \<in> usr_capabilities v \<longleftrightarrow> SuperAdmin \<in> usr_capabilities u"
      "SuperAdmin \<notin> usr_capabilities u \<or> is_super a" "Admin \<notin> usr_capabilities v \<or> is_super a"
  shows "changes_to D (edited cur D) (update_user v)"
proof (rule changes_to_mono [OF update_user_changes])
  fix d
  assume w: "user_written v D d"
  have imp: "SuperAdmin \<in> usr_capabilities u \<or> Admin \<in> usr_capabilities v \<longrightarrow> is_super a" using assms(7,8) by blast
  show "edited cur D d" unfolding edited_def by (intro exI [of _ a] exI [of _ u] exI [of _ v] conjI) (fact assms(1-6) imp w)+
qed

lemma admin_update_changes: "changes_to D (edited cur D) (admin_update_user env cur tok fn em pw cs)"
proof -
  have save: "changes_to D (edited cur D)
      (bindE (edited_password env a tok pw (u\<lparr>usr_full_name := trim fn, usr_email_address := em', usr_capabilities := caps\<rparr>))
        (\<lambda>v. bindE (to_server_err (update_user v)) (\<lambda>_. ret ())))"
    if a: "cur = Some a" "au_username a \<noteq> []" "manages_users a" "find_user (usr_id u) D = Some u"
      and caps: "SuperAdmin \<in> caps \<longleftrightarrow> SuperAdmin \<in> usr_capabilities u" "SuperAdmin \<notin> usr_capabilities u \<or> is_super a"
        "Admin \<notin> caps \<or> is_super a" for a u caps em'
  proof (intro changes_to_bindE [of "edited_password _ _ _ _ _"] changes_to_then_ret changes_to_server frame_intros)
    fix v s s1
    assume "edited_password env a tok pw (u\<lparr>usr_full_name := trim fn, usr_email_address := em', usr_capabilities := caps\<rparr>) s = (Inr v, s1)"
    from edited_password_Inr [OF this] have "usr_id v = usr_id u" "usr_capabilities v = caps" by simp_all
    with caps show "changes_to D (edited cur D) (update_user v)" by (intro edited_changes [OF a]) simp_all
  qed
  show ?thesis
    unfolding admin_update_user_def
    by (intro changes_to_bindE [of "managing_actor _"] changes_to_bindE [of "user_of_token _ _"] changes_to_bindE [of "liftE _"]
        changes_to_bindE [of "to_server_err (liftE _)"] changes_to_requireE frame_intros save)
      (auto simp: managing_Inr dest: user_of_token_Inr)
qed

definition removed :: "AuthUser option \<Rightarrow> db \<Rightarrow> db \<Rightarrow> bool" where
  "removed cur D d \<longleftrightarrow> (\<exists>a u. cur = Some a \<and> au_username a \<noteq> [] \<and> manages_users a \<and> find_user (usr_id u) D = Some u \<and>
     SuperAdmin \<notin> usr_capabilities u \<and> user_deleted (usr_id u) D d)"

lemma removed_changes:
  assumes "cur = Some a" "au_username a \<noteq> []" "manages_users a" "find_user (usr_id u) D = Some u"
      "SuperAdmin \<notin> usr_capabilities u"
  shows "changes_to D (removed cur D) (delete_user (usr_id u))"
  by (rule changes_to_mono [OF delete_user_changes], unfold removed_def, intro exI [of _ a] exI [of _ u]) (use assms in auto)

lemma admin_delete_changes: "changes_to D (removed cur D) (admin_delete_user env cur tok)"
  unfolding admin_delete_user_def
  by (intro changes_to_bindE [of "managing_actor _"] changes_to_bindE [of "user_of_token _ _"] changes_to_requireE
        changes_to_then_ret changes_to_server frame_intros)
      (auto simp: managing_Inr dest!: user_of_token_Inr intro!: removed_changes)

text \<open>The functions a user runs on their own row: roles stay.\<close>

definition own_edit :: "db \<Rightarrow> db \<Rightarrow> bool" where
  "own_edit D d \<longleftrightarrow> (\<exists>u v. find_user (usr_id u) D = Some u \<and> usr_id v = usr_id u \<and>
     usr_capabilities v = usr_capabilities u \<and> user_written v D d)"

lemma own_edit_changes:
  assumes "find_user i D = Some u" "usr_id v = usr_id u" "usr_capabilities v = usr_capabilities u"
  shows "changes_to D (own_edit D) (bindE (to_server_err (update_user v)) (\<lambda>_. ret ()))"
proof (intro changes_to_then_ret changes_to_server changes_to_mono [OF update_user_changes])
  fix d
  assume w: "user_written v D d"
  have "find_user (usr_id u) D = Some u" using assms(1) find_user_in [OF assms(1)] by simp
  with assms(2,3) w show "own_edit D d" unfolding own_edit_def by blast
qed

lemma update_profile_changes: "changes_to D (own_edit D) (update_profile cur fn em)"
  unfolding update_profile_def
proof (intro changes_to_requireE changes_to_bindE [of "to_server_err (liftE _)"] changes_to_bindE [of "own_user _"] frame_intros)
  fix u em' and s s1 :: "'z web_scheme"
  assume "tx_db s = D" "own_user cur s = (Inr u, s1)"
  then obtain a :: AuthUser where "find_user (au_id a) D = Some u" by (auto dest!: own_user_Inr)
  then show "changes_to D (own_edit D)
      (bindE (to_server_err (update_user (u\<lparr>usr_full_name := trim fn, usr_email_address := em'\<rparr>))) (\<lambda>_. ret ()))"
    by (rule own_edit_changes) simp_all
qed

lemma change_password_changes: "changes_to D (own_edit D) (change_password env cur old new)"
  unfolding change_password_def
proof (intro changes_to_requireE changes_to_bindE [of "to_server_err (encrypt_user_password _ _)"] changes_to_bindE [of "own_user _"]
    frame_intros)
  fix u hash and s s1 :: "'z web_scheme"
  assume "tx_db s = D" "own_user cur s = (Inr u, s1)"
  then obtain a :: AuthUser where "find_user (au_id a) D = Some u" by (auto dest!: own_user_Inr)
  then show "changes_to D (own_edit D) (bindE (to_server_err (update_user (u\<lparr>usr_password_hash := hash\<rparr>))) (\<lambda>_. ret ()))"
    by (rule own_edit_changes) simp_all
qed

lemma change_initial_changes: "changes_to D (own_edit D) (change_initial_password env tok new)"
  unfolding change_initial_password_def
proof (intro changes_to_requireE changes_to_bindE [of "to_server_err (encrypt_user_password _ _)"] changes_to_bindE [of "liftE _"]
    changes_to_bindE [of "to_server_err (find_user_by_token _)"] changes_to_bindE [of "some_or _ _"] frame_intros)
  fix i u found hash and s s1 s2 s3 :: "'z web_scheme"
  assume "tx_db s = D" "to_server_err (find_user_by_token i) s = (Inr found, s1)" "some_or ''User not found'' found s2 = (Inr u, s3)"
  then have "find_user i D = Some u" by (auto simp: to_server_err_Inr some_or_Inr dest!: find_by_token_Inr)
  then show "changes_to D (own_edit D)
      (bindE (to_server_err (update_user (u\<lparr>usr_password_hash := hash, usr_change_password_on_login := False\<rparr>))) (\<lambda>_. ret ()))"
    by (rule own_edit_changes) simp_all
qed

definition registered :: "db \<Rightarrow> db \<Rightarrow> bool" where
  "registered D d \<longleftrightarrow> tbl_users D = [] \<and> (\<exists>n. nus_capabilities n = {SuperAdmin} \<and> user_inserted n D d)"

lemma list_users_Inr: "list_users None (Some 1) s = (Inr xs, t) \<Longrightarrow> xs = [] \<longleftrightarrow> tbl_users (tx_db s) = []"
  by (auto simp: list_users_def user_list_def bindE_Inr_iff [of "requireE _ _"] requireE_apply page_of_users_def
      elim!: read_only_Inr dest!: query_Inr split: if_splits)
    (metis length_0_conv length_sort)+

lemma frame_register_check [frame_intros]: "frame tx_db register_check"
  unfolding register_check_def by (intro frame_intros)

lemma register_check_Inr: "register_check s = (Inr (), t) \<Longrightarrow> tbl_users (tx_db s) = []"
  by (auto simp: register_check_def bindE_Inr_iff to_server_err_Inr requireE_apply dest!: list_users_Inr split: if_splits)

lemma register_admin_changes: "changes_to D (registered D) (register_admin env un fn pw em)"
  unfolding register_admin_def register_create_def
proof (intro changes_to_bindE [of register_check] changes_to_bindE [of "to_server_err (new_user _ _ _ _ _ _ _)"]
    changes_to_then_frame changes_to_server frame_intros)
  fix n x and s s1 s2 s3 :: "'z web_scheme"
  assume "tx_db s = D" "register_check s = (Inr x, s1)"
    "to_server_err (new_user (we_hasher env) un pw em {SuperAdmin} fn False) s2 = (Inr n, s3)"
  then have "tbl_users D = []" "nus_capabilities n = {SuperAdmin}"
    by (auto simp: to_server_err_Inr dest!: register_check_Inr new_user_Inr)
  then show "changes_to D (registered D) (add_user n)"
    by (intro changes_to_mono [OF add_user_changes]) (auto simp: registered_def)
qed

section \<open>The super administrators\<close>

definition super_ids :: "db \<Rightarrow> UserId list" where
  "super_ids d = map usr_id (filter (\<lambda>u. SuperAdmin \<in> usr_capabilities u) (tbl_users d))"

lemma find_user_iff:
  assumes "users_ok d"
  shows "find_user i d = Some u \<longleftrightarrow> u \<in> set (tbl_users d) \<and> usr_id u = i"
proof
  show "find_user i d = Some u \<Longrightarrow> u \<in> set (tbl_users d) \<and> usr_id u = i" by (rule find_user_in)
  show "u \<in> set (tbl_users d) \<and> usr_id u = i \<Longrightarrow> find_user i d = Some u"
    using assms find_row_key_eq [of usr_id "tbl_users d" u i] by (simp add: users_ok_def find_user_def)
qed

lemma inserted_supers:
  assumes "users_ok D" "user_inserted n D d"
  shows "users_ok d" and "tbl_users d \<noteq> []"
    and "\<exists>i. super_ids d = super_ids D @ (if SuperAdmin \<in> nus_capabilities n then [i] else [])"
proof -
  from assms(2) obtain i now where ins: "insert_user_row (new_user_row i now n) D = Inr (new_user_row i now n, d)"
    by (auto simp: user_inserted_def user_row_of_def)
  then show "users_ok d" using assms(1)
    by (auto simp: users_ok_def insert_user_row_def image_iff split: if_splits) metis+
  from ins show "tbl_users d \<noteq> []" by (auto simp: insert_user_row_def split: if_splits)
  from ins have "super_ids d = super_ids D @ (if SuperAdmin \<in> nus_capabilities n then [i] else [])"
    by (auto simp: super_ids_def insert_user_row_def new_user_row_def split: if_splits)
  then show "\<exists>i. super_ids d = super_ids D @ (if SuperAdmin \<in> nus_capabilities n then [i] else [])" by blast
qed

lemma written_supers:
  assumes ok: "users_ok D" and w: "user_written v D d" and u: "find_user (usr_id u) D = Some u" "usr_id v = usr_id u"
    and role: "SuperAdmin \<in> usr_capabilities v \<longleftrightarrow> SuperAdmin \<in> usr_capabilities u"
  shows "users_ok d" and "super_ids d = super_ids D" and "tbl_users d \<noteq> []"
proof -
  from w obtain x now y where x: "find_user (usr_id v) D = Some x" "y = saved_user now (set_user_columns v x)"
      and up: "update_user_row y D = Inr (y, d)"
    unfolding user_written_def by blast
  have y: "usr_id y = usr_id u" "usr_capabilities y = usr_capabilities v"
    using x u by (auto simp: saved_user_def set_user_columns_def)
  have d: "tbl_users d = update_where (\<lambda>x. usr_id x = usr_id y) (\<lambda>_. y) (tbl_users D)"
    and free: "\<forall>x \<in> set (tbl_users D). usr_id x \<noteq> usr_id y \<longrightarrow> usr_username x \<noteq> usr_username y"
      "\<forall>x \<in> set (tbl_users D). usr_id x \<noteq> usr_id y \<longrightarrow> usr_email_address x \<noteq> usr_email_address y"
    using up by (auto simp: update_user_row_def split: if_splits)
  have "map usr_id (tbl_users d) = map usr_id (tbl_users D)" unfolding d by (rule map_updated_key) simp
  then show "users_ok d"
    using ok free distinct_replaced [of usr_username "tbl_users D" usr_id "usr_id y" y]
      distinct_replaced [of usr_email_address "tbl_users D" usr_id "usr_id y" y]
    by (simp add: users_ok_def d)
  have same: "x = u" if "x \<in> set (tbl_users D)" "usr_id x = usr_id u" for x
    using that u(1) find_user_iff [OF ok, of "usr_id u" x] by simp
  have "super_ids d = map usr_id (filter (\<lambda>x. SuperAdmin \<in> usr_capabilities (if usr_id x = usr_id y then y else x)) (tbl_users D))"
    by (simp add: super_ids_def d update_where_def filter_map comp_def)
  also have "\<dots> = super_ids D"
    unfolding super_ids_def using same y role by (intro arg_cong [of _ _ "map usr_id"] filter_cong refl) auto
  finally show "super_ids d = super_ids D" .
  show "tbl_users d \<noteq> []" using find_user_in [OF u(1)] by (auto simp: d update_where_def)
qed

lemma deleted_supers:
  assumes ok: "users_ok D" and del: "user_deleted (usr_id u) D d" and u: "find_user (usr_id u) D = Some u"
    and role: "SuperAdmin \<notin> usr_capabilities u"
  shows "users_ok d" and "super_ids d = super_ids D"
proof -
  have d: "tbl_users d = filter (\<lambda>x. usr_id x \<noteq> usr_id u) (tbl_users D)"
    using del by (auto simp: user_deleted_def delete_user_row_def Let_def delete_where_def)
  then show "users_ok d" using ok by (simp add: users_ok_def distinct_map_filter)
  have "x = u" if "x \<in> set (tbl_users D)" "usr_id x = usr_id u" for x
    using that u find_user_iff [OF ok, of "usr_id u" x] by simp
  then show "super_ids d = super_ids D"
    unfolding super_ids_def d filter_filter using role by (intro arg_cong [of _ _ "map usr_id"] filter_cong refl) auto
qed

end
