(* ===== verification/SuperAdmin.thy ===== *)
theory SuperAdmin
  imports WebUserProps
begin

text \<open>
  The server functions as the steps of one system, run by requests of users the session layer
  loaded at any earlier time (it keeps them, so a request may carry roles that have changed
  since). The invariant: one super administrator from the first registration on, and no
  request carries its role for anyone else.
\<close>

section \<open>The steps\<close>

definition known :: "AuthUser set \<Rightarrow> AuthUser option \<Rightarrow> bool" where
  "known C cur \<longleftrightarrow> (case cur of None \<Rightarrow> True | Some a \<Rightarrow> a \<in> C)"

text \<open>
  \<open>outside\<close> is any step of the rest of the program: it leaves the users table alone.
\<close>

inductive web_step :: "web_env \<Rightarrow> web \<times> AuthUser set \<Rightarrow> web \<times> AuthUser set \<Rightarrow> bool" for env where
  load: "load_user i True s = (Inr a, t) \<Longrightarrow> web_step env (s, C) (t, insert a C)"
| load_failed: "load_user i True s = (Inl e, t) \<Longrightarrow> web_step env (s, C) (t, C)"
| login: "web_step env (s, C) (snd (perform_login env un pw s), C)"
| register: "web_step env (s, C) (snd (register_admin env un fn pw em s), C)"
| initial_password: "web_step env (s, C) (snd (change_initial_password env tok new s), C)"
| list_all: "known C cur \<Longrightarrow> web_step env (s, C) (snd (list_users_admin env cur s), C)"
| create: "known C cur \<Longrightarrow> web_step env (s, C) (snd (admin_create_user env cur un fn em pw cs s), C)"
| edit: "known C cur \<Longrightarrow> web_step env (s, C) (snd (admin_update_user env cur tok fn em pw' cs s), C)"
| remove: "known C cur \<Longrightarrow> web_step env (s, C) (snd (admin_delete_user env cur tok s), C)"
| profile: "known C cur \<Longrightarrow> web_step env (s, C) (snd (update_profile cur fn em s), C)"
| password: "known C cur \<Longrightarrow> web_step env (s, C) (snd (change_password env cur old new s), C)"
| outside: "tbl_users (tx_db t) = tbl_users (tx_db s) \<Longrightarrow> web_step env (s, C) (t, C)"

inductive web_reach :: "web_env \<Rightarrow> web \<times> AuthUser set \<Rightarrow> bool" for env where
  start: "tbl_users (tx_db s) = [] \<Longrightarrow> web_reach env (s, {})"
| step: "web_reach env x \<Longrightarrow> web_step env x y \<Longrightarrow> web_reach env y"

section \<open>The invariant\<close>

definition one_super :: "db \<Rightarrow> bool" where
  "one_super d \<longleftrightarrow> tbl_users d = [] \<or> (\<exists>i. super_ids d = [i])"

definition cached_ok :: "db \<Rightarrow> AuthUser \<Rightarrow> bool" where
  "cached_ok d a \<longleftrightarrow> (au_username a \<noteq> [] \<longrightarrow> tbl_users d \<noteq> []) \<and> (is_super a \<longrightarrow> super_ids d = [au_id a])"

definition roles_ok :: "web \<times> AuthUser set \<Rightarrow> bool" where
  "roles_ok x \<longleftrightarrow> users_ok (tx_db (fst x)) \<and> one_super (tx_db (fst x)) \<and> (\<forall>a \<in> snd x. cached_ok (tx_db (fst x)) a)"

text \<open>What a step may do to the users: keep the super administrators, or make the first one.\<close>

definition roles_kept :: "db \<Rightarrow> db \<Rightarrow> bool" where
  "roles_kept D d \<longleftrightarrow> users_ok d \<and> (tbl_users D = [] \<and> (\<exists>i. super_ids d = [i]) \<or> tbl_users D \<noteq> [] \<and> super_ids d = super_ids D)"

lemma super_ids_empty: "tbl_users d = [] \<Longrightarrow> super_ids d = []"
  by (simp add: super_ids_def)

lemma roles_ok_step:
  assumes ok: "roles_ok (s, C)" and "tx_db t = tx_db s \<or> roles_kept (tx_db s) (tx_db t)"
  shows "roles_ok (t, C)"
  using assms(2)
proof
  assume "tx_db t = tx_db s"
  with ok show ?thesis by (simp add: roles_ok_def)
next
  assume k: "roles_kept (tx_db s) (tx_db t)"
  have "cached_ok (tx_db t) a" if "a \<in> C" for a
  proof -
    have a: "cached_ok (tx_db s) a" using ok that by (simp add: roles_ok_def)
    show ?thesis
    proof (cases "tbl_users (tx_db s) = []")
      case True
      with a have "au_username a = []" "\<not> is_super a" by (auto simp: cached_ok_def super_ids_empty)
      then show ?thesis by (simp add: cached_ok_def)
    next
      case False
      with ok k obtain i where i: "super_ids (tx_db s) = [i]" "super_ids (tx_db t) = [i]"
        by (auto simp: roles_ok_def one_super_def roles_kept_def)
      then have "tbl_users (tx_db t) \<noteq> []" using super_ids_empty by fastforce
      with a i show ?thesis by (simp add: cached_ok_def)
    qed
  qed
  moreover have "one_super (tx_db t)" "users_ok (tx_db t)"
    using ok k by (auto simp: roles_ok_def one_super_def roles_kept_def)
  ultimately show ?thesis by (simp add: roles_ok_def)
qed

lemma known_nonempty:
  "roles_ok (s, C) \<Longrightarrow> known C cur \<Longrightarrow> cur = Some a \<Longrightarrow> au_username a \<noteq> [] \<Longrightarrow> tbl_users (tx_db s) \<noteq> []"
  by (auto simp: roles_ok_def known_def cached_ok_def)

lemma created_kept:
  assumes "users_ok D" and "created cur D d" and "\<And>a. cur = Some a \<Longrightarrow> au_username a \<noteq> [] \<Longrightarrow> tbl_users D \<noteq> []"
  shows "roles_kept D d"
proof -
  from assms(2) obtain a n where a: "cur = Some a" "au_username a \<noteq> []" "SuperAdmin \<notin> nus_capabilities n" "user_inserted n D d"
    by (auto simp: created_def)
  with inserted_supers [OF assms(1) a(4)] assms(3) show ?thesis by (auto simp: roles_kept_def)
qed

lemma edited_kept:
  assumes "users_ok D" and "edited cur D d"
  shows "roles_kept D d"
proof -
  from assms(2) obtain u v where u: "find_user (usr_id u) D = Some u" "usr_id v = usr_id u"
      "SuperAdmin \<in> usr_capabilities v \<longleftrightarrow> SuperAdmin \<in> usr_capabilities u" "user_written v D d"
    unfolding edited_def by blast
  have "tbl_users D \<noteq> []" using find_user_in [OF u(1)] by auto
  with written_supers [OF assms(1) u(4,1,2,3)] show ?thesis by (simp add: roles_kept_def)
qed

lemma own_edit_kept:
  assumes "users_ok D" and "own_edit D d"
  shows "roles_kept D d"
proof -
  from assms(2) obtain u v where u: "find_user (usr_id u) D = Some u" "usr_id v = usr_id u"
      "usr_capabilities v = usr_capabilities u" "user_written v D d"
    unfolding own_edit_def by blast
  have "tbl_users D \<noteq> []" using find_user_in [OF u(1)] by auto
  with written_supers [OF assms(1) u(4,1,2)] u(3) show ?thesis by (simp add: roles_kept_def)
qed

lemma removed_kept:
  assumes "users_ok D" and "removed cur D d"
  shows "roles_kept D d"
proof -
  from assms(2) obtain u where u: "find_user (usr_id u) D = Some u" "SuperAdmin \<notin> usr_capabilities u"
      "user_deleted (usr_id u) D d"
    unfolding removed_def by blast
  have "tbl_users D \<noteq> []" using find_user_in [OF u(1)] by auto
  with deleted_supers [OF assms(1) u(3,1,2)] show ?thesis by (simp add: roles_kept_def)
qed

lemma registered_kept:
  assumes "users_ok D" and "registered D d"
  shows "roles_kept D d"
proof -
  from assms(2) obtain n where n: "tbl_users D = []" "nus_capabilities n = {SuperAdmin}" "user_inserted n D d"
    by (auto simp: registered_def)
  with inserted_supers [OF assms(1) n(3)] show ?thesis by (auto simp: roles_kept_def super_ids_empty)
qed

lemma changes_roles:
  assumes "changes_to (tx_db s) E m" and "\<And>d. E d \<Longrightarrow> roles_kept (tx_db s) d"
  shows "tx_db (snd (m s)) = tx_db s \<or> roles_kept (tx_db s) (tx_db (snd (m s)))"
  using assms unfolding changes_to_def by blast

lemma load_user_Inr:
  fixes s t :: "'z tx_scheme"
  assumes "load_user i True s = (Inr a, t)"
  shows "tx_db t = tx_db s \<and> (a = anonymous_user \<or> (\<exists>u. find_user i (tx_db s) = Some u \<and> a = auth_user_of i u))"
proof -
  obtain r and s1 :: "'z tx_scheme" where f: "find_user_by_id i s = (r, s1)"
    by (cases "find_user_by_id i s")
  with assms obtain found where r: "r = Inr found"
    by (cases r) (auto simp: load_user_def bindE_def)
  with assms f have k: "a = (case found of None \<Rightarrow> anonymous_user | Some u \<Rightarrow> auth_user_of i u) \<and> t = s1"
    by (auto simp: load_user_def bindE_def act_eval split: option.splits)
  from find_by_id_Inr [OF f [unfolded r]] k show ?thesis by (cases found) auto
qed

lemma super_permission: "''SuperAdmin'' \<in> capability_as_str ` S \<longleftrightarrow> SuperAdmin \<in> S"
proof -
  have "''SuperAdmin'' = capability_as_str x \<longleftrightarrow> x = SuperAdmin" for x by (cases x) simp_all
  then show ?thesis unfolding image_iff by simp
qed

lemma loaded_ok:
  assumes ok: "roles_ok (s, C)" and a: "a = anonymous_user \<or> (\<exists>u. find_user i (tx_db s) = Some u \<and> a = auth_user_of i u)"
  shows "cached_ok (tx_db s) a"
  using a
proof
  assume "a = anonymous_user"
  then show ?thesis by (simp add: cached_ok_def anonymous_user_def is_super_def)
next
  assume "\<exists>u. find_user i (tx_db s) = Some u \<and> a = auth_user_of i u"
  then obtain u where u: "find_user i (tx_db s) = Some u" "a = auth_user_of i u" by blast
  have ne: "tbl_users (tx_db s) \<noteq> []" using find_user_in [OF u(1)] by auto
  moreover have "super_ids (tx_db s) = [au_id a]" if "is_super a"
  proof -
    from that have "SuperAdmin \<in> usr_capabilities u"
      by (simp add: is_super_def u(2) auth_user_of_def super_permission)
    with find_user_in [OF u(1)] have "i \<in> set (super_ids (tx_db s))" by (auto simp: super_ids_def)
    with ok ne show ?thesis by (auto simp: roles_ok_def one_super_def u(2) auth_user_of_def)
  qed
  ultimately show ?thesis by (simp add: cached_ok_def)
qed

lemma step_roles: "web_step env x y \<Longrightarrow> roles_ok x \<Longrightarrow> roles_ok y"
proof (induction rule: web_step.induct)
  case (load i s a t C)
  note l = load_user_Inr [OF load.hyps]
  then have "roles_ok (t, C)" using load.prems by (simp add: roles_ok_def)
  moreover have "cached_ok (tx_db t) a" using loaded_ok [OF load.prems] l by metis
  ultimately show ?case by (simp add: roles_ok_def)
next
  case (load_failed i s e t C)
  have "tx_db t = tx_db s" using load_failed.hyps frame_reads(10) by (auto dest: frameD)
  then show ?case using load_failed.prems by (simp add: roles_ok_def)
next
  case (login s C un pw)
  have "frame tx_db (perform_login env un pw :: (unit, string option) sf)"
    unfolding perform_login_def by (intro frame_intros)
  then show ?case using login.prems by (simp add: frame_def roles_ok_def)
next
  case (register s C un fn pw em)
  then show ?case
    by (intro roles_ok_step [OF register.prems] changes_roles [OF register_admin_changes] registered_kept)
      (auto simp: roles_ok_def)
next
  case (initial_password s C tok new)
  then show ?case
    by (intro roles_ok_step [OF initial_password.prems] changes_roles [OF change_initial_changes] own_edit_kept)
      (auto simp: roles_ok_def)
next
  case (list_all C cur s)
  have "frame tx_db (list_users_admin env cur :: (unit, UserAdminRow list) sf)"
    unfolding list_users_admin_def by (intro frame_intros)
  then show ?case using list_all.prems by (simp add: frame_def roles_ok_def)
next
  case (create C cur s un fn em pw cs)
  then show ?case
    by (intro roles_ok_step [OF create.prems] changes_roles [OF admin_create_changes] created_kept [of _ cur])
      (auto simp: roles_ok_def dest: known_nonempty [OF create.prems])
next
  case (edit C cur s tok fn em pw' cs)
  then show ?case
    by (intro roles_ok_step [OF edit.prems] changes_roles [OF admin_update_changes] edited_kept)
      (auto simp: roles_ok_def)
next
  case (remove C cur s tok)
  then show ?case
    by (intro roles_ok_step [OF remove.prems] changes_roles [OF admin_delete_changes] removed_kept)
      (auto simp: roles_ok_def)
next
  case (profile C cur s fn em)
  then show ?case
    by (intro roles_ok_step [OF profile.prems] changes_roles [OF update_profile_changes] own_edit_kept)
      (auto simp: roles_ok_def)
next
  case (password C cur s old new)
  then show ?case
    by (intro roles_ok_step [OF password.prems] changes_roles [OF change_password_changes] own_edit_kept)
      (auto simp: roles_ok_def)
next
  case (outside t s C)
  then show ?case by (auto simp: roles_ok_def one_super_def cached_ok_def users_ok_def super_ids_def)
qed

lemma reach_roles: "web_reach env x \<Longrightarrow> roles_ok x"
proof (induction rule: web_reach.induct)
  case (start s)
  then show ?case by (simp add: roles_ok_def users_ok_def one_super_def)
next
  case (step x y)
  from step_roles [OF step.hyps(2) step.IH] show ?case .
qed

text \<open>
  C4. In every state the server functions reach from an empty users table, there is no user at all
  or exactly one super administrator, however requests follow each other, fail or carry outdated
  users; and a request that carries the super administrator's role carries its id.
\<close>

theorem single_super_admin:
  assumes "web_reach env (s, C)"
  shows "(tbl_users (tx_db s) = [] \<or> (\<exists>i. super_ids (tx_db s) = [i])) \<and>
    (\<forall>a \<in> C. ''SuperAdmin'' \<in> au_permissions a \<longrightarrow> super_ids (tx_db s) = [au_id a])"
  using reach_roles [OF assms] by (auto simp: roles_ok_def one_super_def cached_ok_def is_super_def)

lemma saved_row:
  assumes "user_written v D d" and "find_user (usr_id v) D = Some u"
  shows "\<exists>y. usr_id y = usr_id u \<and> usr_capabilities y = usr_capabilities v \<and> update_user_row y D = Inr (y, d)"
proof -
  from assms obtain now where "update_user_row (saved_user now (set_user_columns v u)) D = Inr (saved_user now (set_user_columns v u), d)"
    by (auto simp: user_written_def)
  then show ?thesis
    by (intro exI [of _ "saved_user now (set_user_columns v u)"]) (simp add: saved_user_def set_user_columns_def)
qed

text \<open>
  C16. The administration functions stay within the rights of who calls them: for a caller who is
  not the super administrator, every row with a role was there before as it is (no role is granted;
  an administrator can only lose the role or be deleted) and every super administrator's row is
  still there; and for a caller without a role nothing changes at all.
\<close>

theorem admin_functions_bounded:
  assumes "users_ok (tx_db s)" and "\<forall>a. cur = Some a \<longrightarrow> \<not> is_super a"
    and "t \<in> {snd (admin_create_user env cur un fn em pw cs s), snd (admin_update_user env cur tok fn em pw' cs s),
      snd (admin_delete_user env cur tok s)}"
  shows "{u \<in> set (tbl_users (tx_db t)). usr_capabilities u \<noteq> {}} \<subseteq> set (tbl_users (tx_db s)) \<and>
    {u \<in> set (tbl_users (tx_db s)). SuperAdmin \<in> usr_capabilities u} \<subseteq> set (tbl_users (tx_db t)) \<and>
    ((\<forall>a. cur = Some a \<longrightarrow> \<not> manages_users a) \<longrightarrow> tx_db t = tx_db s)"
proof -
  have none: "usr_capabilities u = {}" if "Admin \<notin> usr_capabilities u" "SuperAdmin \<notin> usr_capabilities u" for u :: User
    using that by (auto intro: equals0I) (metis Capability.exhaust)
  consider "tx_db t = tx_db s" | "created cur (tx_db s) (tx_db t)" | "edited cur (tx_db s) (tx_db t)" | "removed cur (tx_db s) (tx_db t)"
    using assms(3) admin_create_changes [of "tx_db s"] admin_update_changes [of "tx_db s"] admin_delete_changes [of "tx_db s"]
    unfolding changes_to_def by blast
  then show ?thesis
  proof cases
    case 1
    then show ?thesis by auto
  next
    case 2
    then obtain a n u where a: "cur = Some a" "manages_users a" and n: "SuperAdmin \<notin> nus_capabilities n"
        "Admin \<in> nus_capabilities n \<longrightarrow> is_super a" "user_row_of n u" "insert_user_row u (tx_db s) = Inr (u, tx_db t)"
      unfolding created_def user_inserted_def by blast
    from n(3) have "usr_capabilities u = nus_capabilities n" by (auto simp: user_row_of_def new_user_row_def)
    moreover have "tbl_users (tx_db t) = tbl_users (tx_db s) @ [u]"
      using n(4) by (auto simp: insert_user_row_def dest!: arg_cong [of _ _ tbl_users] split: if_splits)
    ultimately have u: "tbl_users (tx_db t) = tbl_users (tx_db s) @ [u]"
        "SuperAdmin \<notin> usr_capabilities u" "Admin \<in> usr_capabilities u \<longrightarrow> is_super a" using n(1,2) by simp_all
    then have "usr_capabilities u = {}" using none assms(2) a(1) by blast
    with u(1) a show ?thesis by auto
  next
    case 3
    then obtain a u v where a: "cur = Some a" "manages_users a" and u: "find_user (usr_id u) (tx_db s) = Some u"
        "usr_id v = usr_id u" "SuperAdmin \<in> usr_capabilities v \<longleftrightarrow> SuperAdmin \<in> usr_capabilities u"
        "SuperAdmin \<in> usr_capabilities u \<or> Admin \<in> usr_capabilities v \<longrightarrow> is_super a"
        "user_written v (tx_db s) (tx_db t)"
      unfolding edited_def by blast
    from u(1,2,5) obtain y where y: "usr_id y = usr_id u" "usr_capabilities y = usr_capabilities v"
        "update_user_row y (tx_db s) = Inr (y, tx_db t)"
      using saved_row [OF u(5)] by metis
    have rows: "tbl_users (tx_db t) = update_where (\<lambda>x. usr_id x = usr_id u) (\<lambda>_. y) (tbl_users (tx_db s))"
      using y by (auto simp: update_user_row_def dest!: arg_cong [of _ _ tbl_users] split: if_splits)
    have same: "x = u" if "x \<in> set (tbl_users (tx_db s))" "usr_id x = usr_id u" for x
      using that u(1) find_user_iff [OF assms(1), of "usr_id u" x] by simp
    have "usr_capabilities y = {}" "SuperAdmin \<notin> usr_capabilities u"
      using none [of v] u a(1) assms(2) y(2) by auto
    with same a show ?thesis by (auto simp: rows set_update_where)
  next
    case 4
    then obtain a u where a: "cur = Some a" "manages_users a" and u: "find_user (usr_id u) (tx_db s) = Some u"
        "SuperAdmin \<notin> usr_capabilities u" "user_deleted (usr_id u) (tx_db s) (tx_db t)"
      unfolding removed_def by blast
    have rows: "tbl_users (tx_db t) = filter (\<lambda>x. usr_id x \<noteq> usr_id u) (tbl_users (tx_db s))"
      using u(3) by (auto simp: user_deleted_def delete_user_row_def Let_def delete_where_def dest!: arg_cong [of _ _ tbl_users])
    have same: "x = u" if "x \<in> set (tbl_users (tx_db s))" "usr_id x = usr_id u" for x
      using that u(1) find_user_iff [OF assms(1), of "usr_id u" x] by simp
    with u(2) a show ?thesis by (auto simp: rows)
  qed
qed

section \<open>Concrete inputs\<close>

definition toy_env :: web_env where
  "toy_env = \<lparr>we_hasher = toy_hasher, we_lower = to_ascii_lowercase, we_token = (\<lambda>i. replicate (unat i) CHR ''x''),
     we_parse_token = (\<lambda>s. Inr (of_nat (length s)))\<rparr>"

definition sample_web :: "db \<Rightarrow> web" where
  "sample_web d = app_world.extend (sample_app\<lparr>tx_db := d, tx_rng := \<lambda>n. of_nat (n + 2)\<rparr>) \<lparr>web_login = None\<rparr>"

text \<open>
  The first registration; then a request that was anonymous and one of the new user's, whose
  creation of a user fails after its transaction began.
\<close>

definition first_web :: web where
  "first_web = snd (register_admin toy_env ''root'' ''Root'' ''pw'' ''root@x'' (sample_web empty_db))"

definition root_user :: AuthUser where
  "root_user = \<lparr>au_id = 3, au_anonymous = False, au_username = ''root'', au_permissions = {''SuperAdmin''}\<rparr>"

definition root_web :: web where
  "root_web = snd (load_user 3 True first_web)"

definition second_web :: web where
  "second_web = snd (admin_create_user toy_env (Some root_user) ''bob'' ''Bob'' ''bob@x'' ''pw'' [''Admin''] root_web)"

lemma sample_web_db: "tx_db (sample_web d) = d"
  by (simp add: sample_web_def app_world.extend_def)

lemma root_loaded: "fst (load_user 3 True first_web) = Inr root_user"
  by code_simp

lemma second_web_users:
  "map (\<lambda>u. (usr_id u, usr_username u)) (tbl_users (tx_db second_web)) = [(3, ''root''), (5, ''bob'')]"
  by code_simp

theorem single_super_admin_witness:
  "super_ids (tx_db second_web) = [3] \<and> length (tbl_users (tx_db second_web)) = 2"
proof -
  have "web_reach toy_env (sample_web empty_db, {})"
    by (rule web_reach.start) (simp add: sample_web_db empty_db_def)
  then have "web_reach toy_env (first_web, {})"
    unfolding first_web_def by (rule web_reach.step) (rule web_step.register)
  moreover have "load_user 3 True first_web = (Inr root_user, root_web)"
    using root_loaded by (simp add: root_web_def prod_eq_iff)
  then have "web_step toy_env (first_web, {}) (root_web, {root_user})" by (rule web_step.load)
  ultimately have "web_reach toy_env (root_web, {root_user})" by (rule web_reach.step)
  moreover have "web_step toy_env (root_web, {root_user}) (second_web, {root_user})"
    unfolding second_web_def by (rule web_step.create) (simp add: known_def)
  ultimately have "web_reach toy_env (second_web, {root_user})" by (rule web_reach.step)
  from single_super_admin [OF this] have "super_ids (tx_db second_web) = [3]"
    by (simp add: root_user_def)
  moreover have "length (tbl_users (tx_db second_web)) = 2"
    using arg_cong [OF second_web_users, of length] by simp
  ultimately show ?thesis by simp
qed

text \<open>An administrator who is not the super administrator tries to create another.\<close>

definition bob_user :: AuthUser where
  "bob_user = \<lparr>au_id = 5, au_anonymous = False, au_username = ''bob'', au_permissions = {''Admin''}\<rparr>"

definition third_web :: web where
  "third_web = snd (admin_create_user toy_env (Some bob_user) ''eve'' ''Eve'' ''eve@x'' ''pw'' [] second_web)"

lemma second_web_ok: "users_ok (tx_db second_web)"
  by code_simp

theorem admin_functions_bounded_witness:
  "length (tbl_users (tx_db third_web)) = 3 \<and>
   {u \<in> set (tbl_users (tx_db third_web)). usr_capabilities u \<noteq> {}} \<subseteq> set (tbl_users (tx_db second_web))"
proof -
  have "\<not> is_super bob_user" by (simp add: is_super_def bob_user_def)
  then have "{u \<in> set (tbl_users (tx_db third_web)). usr_capabilities u \<noteq> {}} \<subseteq> set (tbl_users (tx_db second_web))"
    using admin_functions_bounded [of second_web "Some bob_user" third_web toy_env "''eve''" "''Eve''" "''eve@x''" "''pw''" "[]"
        "[]" None, OF second_web_ok] by (simp add: third_web_def)
  moreover have "map usr_id (tbl_users (tx_db third_web)) = [3, 5, 7]" by code_simp
  from arg_cong [OF this, of length] have "length (tbl_users (tx_db third_web)) = 3" by simp
  ultimately show ?thesis by simp
qed

end
