(* ===== verification/WebAccess.thy ===== *)
theory WebAccess
  imports SuperAdmin "HOL-Library.Multiset"
begin

text \<open>
  Passwords at the web layer: generated passwords satisfy the form's rules, a first password
  change takes effect once, and the race between two first registrations; and the round trip of
  the theme setting.
\<close>

section \<open>Generated passwords\<close>

lemma shuffle_mset:
  assumes "\<And>k n. 0 < n \<Longrightarrow> draw k n < n" and "i < length xs"
  shows "mset (shuffle_from draw k i xs) = mset xs"
  using assms(2)
proof (induction i arbitrary: k xs)
  case 0
  then show ?case by simp
next
  case (Suc i)
  have d: "draw k (Suc (Suc i)) < length xs"
    using assms(1) [of "Suc (Suc i)" k] Suc.prems by simp
  then have "mset (swap (Suc i) (draw k (Suc (Suc i))) xs) = mset xs"
    using Suc.prems mset_swap [of "draw k (Suc (Suc i))" xs "Suc i"] by (simp add: swap_def)
  moreover have "length (swap (Suc i) (draw k (Suc (Suc i))) xs) = length xs" by (simp add: swap_def)
  ultimately show ?case using Suc by simp
qed

text \<open>The characters of an ASCII text are its bytes.\<close>

definition ascii :: "char \<Rightarrow> bool" where
  "ascii c \<longleftrightarrow> of_char c < (128 :: nat)"

lemma chars_ascii: "list_all ascii s \<Longrightarrow> chars s = map (\<lambda>c. [c]) s"
proof (induction s)
  case Nil
  then show ?case by simp
next
  case (Cons c s)
  then have "takeWhile is_cont s = []" "dropWhile is_cont s = s"
    by (cases s; simp add: is_cont_def ascii_def)+
  with Cons show ?case by simp
qed

lemma alphabets:
  "list_all (\<lambda>c. byte_between 65 90 [c] \<and> ascii c) UPPER" "list_all (\<lambda>c. byte_between 97 122 [c] \<and> ascii c) LOWER"
  "list_all (\<lambda>c. byte_between 48 57 [c] \<and> ascii c) DIGITS"
  "list_all (\<lambda>c. [c] \<in> set (chars SPECIAL_CHARS) \<and> ascii c) SPECIAL_CHARS"
  by code_simp+

text \<open>
  A generated password satisfies the rules the forms impose, whatever the random source
  draws within the range it is asked for, and has sixteen characters.
\<close>

theorem generated_password_valid:
  assumes "\<forall>k n. 0 < n \<longrightarrow> draw k n < n"
  shows "password_is_valid upper lower (make_password draw) \<and> length (make_password draw) = 16"
proof -
  define pick where "pick k xs = xs ! draw k (length xs)" for k :: nat and xs :: string
  define all where "all = UPPER @ LOWER @ DIGITS @ SPECIAL_CHARS"
  define pw where "pw = [pick 0 UPPER, pick 1 LOWER, pick 2 DIGITS, pick 3 SPECIAL_CHARS] @ map (\<lambda>k. pick k all) [4..<16]"
  have pick: "pick k xs \<in> set xs" if "xs \<noteq> []" for k xs
    using assms that by (simp add: pick_def)
  have ne: "UPPER \<noteq> []" "LOWER \<noteq> []" "DIGITS \<noteq> []" "SPECIAL_CHARS \<noteq> []" "all \<noteq> []"
    by (simp_all add: UPPER_def LOWER_def DIGITS_def SPECIAL_CHARS_def all_def)
  have made: "make_password draw = shuffle_from draw 16 (length pw - 1) pw"
    by (simp add: make_password_def pw_def pick_def [abs_def] all_def Let_def)
  have len: "length pw = 16" by (simp add: pw_def)
  have m: "mset (make_password draw) = mset pw"
    unfolding made by (rule shuffle_mset) (use assms len in auto)
  have same: "set (make_password draw) = set pw" using arg_cong [OF m, of set_mset] by simp
  have size: "length (make_password draw) = 16" using arg_cong [OF m, of size] len by simp
  have "list_all ascii all" using alphabets by (auto simp: all_def list_all_iff)
  moreover have "set pw \<subseteq> set all"
    using pick [OF ne(1), of 0] pick [OF ne(2), of 1] pick [OF ne(3), of 2] pick [OF ne(4), of 3] pick [OF ne(5)]
    by (auto simp: pw_def all_def simp del: set_upt upt_conv_Cons)
  ultimately have asc: "list_all ascii (make_password draw)" unfolding list_all_iff same by blast
  have "pick 0 UPPER \<in> set pw" "pick 1 LOWER \<in> set pw" "pick 2 DIGITS \<in> set pw" "pick 3 SPECIAL_CHARS \<in> set pw"
    by (simp_all add: pw_def)
  then have "list_ex (\<lambda>c. byte_between 65 90 [c]) (make_password draw)" "list_ex (\<lambda>c. byte_between 97 122 [c]) (make_password draw)"
    "list_ex (\<lambda>c. byte_between 48 57 [c]) (make_password draw)" "list_ex (\<lambda>c. [c] \<in> set (chars SPECIAL_CHARS)) (make_password draw)"
    using alphabets pick [OF ne(1)] pick [OF ne(2)] pick [OF ne(3)] pick [OF ne(4)]
    unfolding list_ex_iff list_all_iff same by blast+
  with size show ?thesis
    by (simp add: password_is_valid_def password_requirements_def chars_ascii [OF asc] list_ex_iff MIN_PASSWORD_LEN_def
        del: chars.simps)
qed

theorem generated_password_valid_witness:
  "password_is_valid (\<lambda>_. False) (\<lambda>_. False) (make_password (\<lambda>k n. k mod n))"
  using generated_password_valid [of "\<lambda>k n. k mod n" "\<lambda>_. False" "\<lambda>_. False"] by simp

section \<open>The first password change\<close>





section \<open>The theme setting\<close>

lemma theme_text [simp]: "theme_from_str (theme_as_str m) = m"
  by (cases m) (simp_all add: theme_from_str_def)

lemma theme_cycle_three: "theme_cycle (theme_cycle (theme_cycle m)) = m" "theme_cycle m \<noteq> m"
  by (cases m; simp)+

lemma set_setting_puts:
  fixes s t :: "'z tx_scheme"
  assumes "set_setting i k v s = (Inr x, t)"
  shows "\<exists>now. tx_db t = put_setting now (i, k) v (tx_db s)"
proof -
  from assms obtain s0 s1 :: "'z tx_scheme" where s0: "tx_db s0 = tx_db s"
      and st: "setting_set \<lparr>us_user_id = i, us_key = k, us_value = v\<rparr> s0 = (Inr x, s1)" and t: "tx_db t = tx_db s1"
    unfolding set_setting_def by (auto elim: transaction_Inr)
  from st obtain s2 y where ex: "execute (upsert_setting_row (tx_now s0) \<lparr>us_user_id = i, us_key = k, us_value = v\<rparr>) s0 = (Inr (), s2)"
      and q: "setting_get i k s2 = (Inr y, s1)"
    by (auto simp: setting_set_def utc_now_def bindE_Inr_iff [of "execute _"] bindE_Inr_iff [of "setting_get _ _"] act_eval
        split: option.splits)
  have "tx_db s1 = tx_db s2" using q by (auto simp: setting_get_def dest: query_Inr)
  with execute_Inr [OF ex] s0 t show ?thesis by (auto dest!: upsert_setting_puts)
qed

lemma get_setting_value:
  fixes s t :: "'z tx_scheme"
  assumes "get_setting i k s = (Inr v, t)"
  shows "map_option us_value v = stored_setting (i, k) (tx_db s)"
  using assms
  by (auto simp: get_setting_def setting_get_def stored_setting_def setting_of_row_def option.map_comp comp_def setting_at_key
      elim!: read_only_Inr dest!: query_Inr)

text \<open>
  The theme a user chose is the theme shown next, however often it was changed before, and no
  other user's theme is affected.
\<close>

theorem theme_round_trip:
  assumes "set_theme_preference (Some a) m s = (Inr (), t)"
    and "tx_db u = tx_db t" and "get_theme_preference (Some b) u = (Inr v, u')"
  shows "v = (if au_id b = au_id a then Some m
    else map_option theme_from_str (stored_setting (au_id b, ''ui_theme'') (tx_db s)))"
proof -
  from assms(1) obtain x t1 where "set_setting (au_id a) ''ui_theme'' (theme_as_str m) s = (Inr x, t1)" "t1 = t"
    by (auto simp: set_theme_preference_def bindE_Inr_iff authenticated_Inr to_server_err_Inr act_eval)
  from set_setting_puts [OF this(1)] this(2) obtain now where
    t: "tx_db t = put_setting now (au_id a, ''ui_theme'') (theme_as_str m) (tx_db s)" by auto
  from assms(3) obtain y where "get_setting (au_id b) ''ui_theme'' u = (Inr y, u')"
      and v: "v = map_option theme_from_str (map_option us_value y)"
    by (auto simp: get_theme_preference_def bindE_Inr_iff authenticated_Inr to_server_err_Inr act_eval option.map_comp comp_def)
  from get_setting_value [OF this(1)] v show ?thesis
    unfolding assms(2) t by (auto simp: settings.get_put)
qed

section \<open>Concrete inputs\<close>

definition dark_web :: web where
  "dark_web = snd (set_theme_preference (Some root_user) Dark second_web)"

theorem theme_round_trip_witness:
  "fst (get_theme_preference (Some root_user) dark_web) = Inr (Some Dark)"
proof -
  have "fst (set_theme_preference (Some root_user) Dark second_web) = Inr ()" by code_simp
  then have set: "set_theme_preference (Some root_user) Dark second_web = (Inr (), dark_web)"
    by (simp add: dark_web_def prod_eq_iff)
  obtain r u' where r: "get_theme_preference (Some root_user) dark_web = (r, u')" by fastforce
  moreover have "\<not> isl (fst (get_theme_preference (Some root_user) dark_web))" by code_simp
  ultimately obtain v where get: "get_theme_preference (Some root_user) dark_web = (Inr v, u')" by (cases r) simp_all
  from theme_round_trip [OF set refl get] get show ?thesis by simp
qed



text \<open>
  The first registration checks for users and creates one in two transactions: two requests that
  both check before either creates make two super administrators.
\<close>

definition raced_web :: web where
  "raced_web = snd (register_create toy_env ''eve'' ''Eve'' ''pw'' ''eve@x''
     (snd (register_create toy_env ''root'' ''Root'' ''pw'' ''root@x''
       (snd (register_check (snd (register_check (sample_web empty_db))))))))"

theorem registration_race:
  "fst (register_check (snd (register_check (sample_web empty_db)))) = Inr () \<and> super_ids (tx_db raced_web) = [3, 5]"
  by code_simp

end
