(* ===== verification/Oidc.thy ===== *)
theory Oidc
  imports ServerHelpers
begin

text \<open>
  Single sign-on (\<open>crates/frontend/src/server/oidc.rs\<close>): the lazily built client with its
  retry cooldown, the store of states in flight, and the start and callback handlers of the
  authorization code flow. The identity provider and the protocol library are parameters
  (\<open>idp\<close>); a handler's failure carries the text that is logged, and every failure is the
  same redirect.
\<close>

section \<open>Configuration\<close>

record OidcConfig =
  oc_discovery_url :: "string option"
  oc_client_id :: "string option"
  oc_client_secret :: "string option"
  oc_button_label :: "string option"

definition config_is_set :: "OidcConfig \<Rightarrow> bool" where
  "config_is_set c \<longleftrightarrow> oc_discovery_url c \<noteq> None \<or> oc_client_id c \<noteq> None \<or> oc_client_secret c \<noteq> None"

definition button_label :: "OidcConfig \<Rightarrow> string" where
  "button_label c = (case oc_button_label c of Some l \<Rightarrow> l | None \<Rightarrow> ''Sign in with SSO'')"

definition none_or_empty :: "string option \<Rightarrow> bool" where
  "none_or_empty v = (case v of None \<Rightarrow> True | Some s \<Rightarrow> s = [])"

definition is_sso_available :: "OidcConfig \<Rightarrow> bool" where
  "is_sso_available c =
    (if \<not> config_is_set c then False
     else
       let missing = (if none_or_empty (oc_discovery_url c) then [''MAILKEEP__OIDC__DISCOVERY_URL''] else []) @
         (if none_or_empty (oc_client_id c) then [''MAILKEEP__OIDC__CLIENT_ID''] else []) @
         (if none_or_empty (oc_client_secret c) then [''MAILKEEP__OIDC__CLIENT_SECRET''] else [])
       in missing = [])"

section \<open>Errors\<close>

text \<open>An error of the protocol library: its own text and the texts of its sources, outermost first.\<close>

type_synonym chained = "string \<times> string list"

definition error_chain :: "chained \<Rightarrow> string" where
  "error_chain e = foldl (\<lambda>msg s. msg @ '': '' @ s) (fst e) (snd e)"

datatype OidcInitError =
    InvalidDiscoveryUrl string
  | InvalidRedirectUrl string
  | DiscoveryFailed string
  | HttpClientFailed string

section \<open>The protocol library\<close>

text \<open>
  \<open>'m\<close> the metadata of a provider, \<open>'p\<close> a configured client, \<open>'r\<close> a token response,
  \<open>'i\<close> an identity token. Discovery answers after some nanoseconds; the claims of an
  identity token are checked against a nonce at a time and yield the email claim.
\<close>

record ('m, 'p, 'r, 'i) idp =
  idp_issuer_url :: "string \<Rightarrow> string + string"
  idp_redirect_url :: "string \<Rightarrow> string + string"
  idp_http_client :: "string + unit"
  idp_discover :: "time \<Rightarrow> string \<Rightarrow> nat \<times> (chained + 'm)"
  idp_core_client :: "'m \<Rightarrow> string \<Rightarrow> string \<Rightarrow> string \<Rightarrow> 'p"
  idp_authorize_url :: "'p \<Rightarrow> string \<Rightarrow> string \<Rightarrow> string list \<Rightarrow> string \<Rightarrow> string"
  idp_exchange :: "'p \<Rightarrow> string \<Rightarrow> string + (string \<Rightarrow> time \<Rightarrow> chained + 'r)"
  idp_id_token :: "'r \<Rightarrow> 'i option"
  idp_claims :: "'p \<Rightarrow> 'i \<Rightarrow> string \<Rightarrow> time \<Rightarrow> chained + string option"

section \<open>State\<close>

record StateEntry =
  ent_nonce :: string
  ent_pkce_verifier :: string
  ent_created_at :: time

record 'p OidcClient =
  oid_client :: 'p
  oid_state_store :: "string \<Rightarrow> StateEntry option"

record 'p CellState =
  cell_client :: "'p OidcClient option"
  cell_failed_since :: "time option"

text \<open>The tables, the monotonic clock and the cell that every request shares.\<close>

record 'p sso_world = tx +
  sw_clock :: time
  sw_cell :: "'p CellState"

type_synonym ('p, 'z, 'e, 'a) sso = "(('p, 'z) sso_world_scheme, 'e, 'a) action"

definition STATE_ENTRY_TTL :: time where
  "STATE_ENTRY_TTL = seconds 300"

definition RETRY_COOLDOWN :: time where
  "RETRY_COOLDOWN = seconds 30"

text \<open>Instants do not go back; \<open>duration_since\<close> of a later instant is zero.\<close>

definition duration_since :: "time \<Rightarrow> time \<Rightarrow> time" where
  "duration_since now earlier = max 0 (now - earlier)"

definition instant_now :: "('p, 'z, 'e, time) sso" where
  "instant_now = getsE sw_clock"

section \<open>Building the client\<close>

definition required_field :: "string option \<Rightarrow> string \<Rightarrow> OidcInitError + string" where
  "required_field v name = (case v of Some s \<Rightarrow> Inr s | None \<Rightarrow> Inl (InvalidDiscoveryUrl (''missing '' @ name)))"

definition strip_suffix_or :: "string \<Rightarrow> string \<Rightarrow> string" where
  "strip_suffix_or suffix s = (if ends_with suffix s then take (length s - length suffix) s else s)"

definition map_left :: "('a \<Rightarrow> 'b) \<Rightarrow> 'a + 'c \<Rightarrow> 'b + 'c" where
  "map_left f r = (case r of Inl e \<Rightarrow> Inl (f e) | Inr x \<Rightarrow> Inr x)"

definition discover_async :: "('m, 'p, 'r, 'i) idp \<Rightarrow> string \<Rightarrow> ('p, 'z, OidcInitError, 'm) sso" where
  "discover_async env issuer s =
    (case idp_discover env (sw_clock s) issuer of
       (d, r) \<Rightarrow> (map_left (\<lambda>e. DiscoveryFailed (error_chain e)) r, s\<lparr>sw_clock := sw_clock s + int d\<rparr>))"

definition oidc_client_new ::
  "('m, 'p, 'r, 'i) idp \<Rightarrow> OidcConfig \<Rightarrow> string \<Rightarrow> ('p, 'z, OidcInitError, 'p OidcClient) sso"
where
  "oidc_client_new env config base_url =
    bindE (liftE (required_field (oc_discovery_url config) ''discovery_url'')) (\<lambda>discovery_url.
    bindE (liftE (required_field (oc_client_id config) ''client_id'')) (\<lambda>client_id.
    bindE (liftE (required_field (oc_client_secret config) ''client_secret'')) (\<lambda>client_secret.
    let issuer_str = strip_suffix_or ''/.well-known/openid-configuration'' discovery_url in
    bindE (liftE (map_left InvalidDiscoveryUrl (idp_issuer_url env issuer_str))) (\<lambda>issuer.
    bindE (liftE (map_left InvalidRedirectUrl
      (idp_redirect_url env (trim_end_matches (CHR ''/'') base_url @ ''/auth/oidc/callback'')))) (\<lambda>redirect.
    bindE (liftE (map_left HttpClientFailed (idp_http_client env))) (\<lambda>_.
    bindE (discover_async env issuer) (\<lambda>provider_metadata.
    ret \<lparr>oid_client = idp_core_client env provider_metadata client_id client_secret redirect,
         oid_state_store = Map.empty\<rparr>)))))))"

section \<open>The shared cell\<close>

definition should_attempt :: "time option \<Rightarrow> time \<Rightarrow> bool" where
  "should_attempt failed_since now =
    (case failed_since of None \<Rightarrow> True | Some since \<Rightarrow> RETRY_COOLDOWN \<le> duration_since now since)"

definition ensure_client ::
  "('m, 'p, 'r, 'i) idp \<Rightarrow> OidcConfig \<Rightarrow> string \<Rightarrow> ('p, 'z, 'e, 'p option) sso"
where
  "ensure_client env config base_url =
    bindE (getsE sw_cell) (\<lambda>cell.
    case cell_client cell of
      Some client \<Rightarrow> ret (Some (oid_client client))
    | None \<Rightarrow>
        bindE instant_now (\<lambda>now.
        if \<not> should_attempt (cell_failed_since cell) now then ret None
        else
          handleE (oidc_client_new env config base_url)
            (\<lambda>client.
              bindE (modifyE (\<lambda>s. s\<lparr>sw_cell := \<lparr>cell_client = Some client, cell_failed_since = None\<rparr>\<rparr>)) (\<lambda>_.
              ret (Some (oid_client client))))
            (\<lambda>e.
              bindE instant_now (\<lambda>later.
              bindE (modifyE (\<lambda>s. s\<lparr>sw_cell := sw_cell s\<lparr>cell_failed_since := Some later\<rparr>\<rparr>)) (\<lambda>_. ret None)))))"

definition get_sso_config ::
  "('m, 'p, 'r, 'i) idp \<Rightarrow> OidcConfig option \<Rightarrow> string \<Rightarrow> ('p, 'z, string, string option) sso"
where
  "get_sso_config env oidc_cell base_url =
    (case oidc_cell of
       None \<Rightarrow> ret None
     | Some config \<Rightarrow> bindE (ensure_client env config base_url) (\<lambda>client.
         if client \<noteq> None then ret (Some (button_label config)) else ret None))"

section \<open>The states in flight\<close>

definition on_store :: "((string \<Rightarrow> StateEntry option) \<Rightarrow> string \<Rightarrow> StateEntry option) \<Rightarrow>
  ('p, 'z) sso_world_scheme \<Rightarrow> ('p, 'z) sso_world_scheme"
where
  "on_store f s = s\<lparr>sw_cell := sw_cell s\<lparr>cell_client := map_option (\<lambda>c. c\<lparr>oid_state_store := f (oid_state_store c)\<rparr>)
     (cell_client (sw_cell s))\<rparr>\<rparr>"

definition states :: "('p, 'z) sso_world_scheme \<Rightarrow> string \<Rightarrow> StateEntry option" where
  "states s = (case cell_client (sw_cell s) of None \<Rightarrow> Map.empty | Some c \<Rightarrow> oid_state_store c)"

definition retain_fresh :: "time \<Rightarrow> (string \<Rightarrow> StateEntry option) \<Rightarrow> string \<Rightarrow> StateEntry option" where
  "retain_fresh now m k =
    (case m k of
       Some e \<Rightarrow> if duration_since now (ent_created_at e) < STATE_ENTRY_TTL then Some e else None
     | None \<Rightarrow> None)"

definition store_state :: "string \<Rightarrow> string \<Rightarrow> string \<Rightarrow> ('p, 'z, 'e, unit) sso" where
  "store_state st nonce pkce_verifier =
    bindE instant_now (\<lambda>now.
    modifyE (on_store (\<lambda>m. (retain_fresh now m)(st \<mapsto>
      \<lparr>ent_nonce = nonce, ent_pkce_verifier = pkce_verifier, ent_created_at = now\<rparr>))))"

definition take_state :: "string \<Rightarrow> ('p, 'z, 'e, StateEntry option) sso" where
  "take_state st =
    bindE instant_now (\<lambda>now.
    bindE (getsE (\<lambda>s. states s st)) (\<lambda>found.
    bindE (modifyE (on_store (\<lambda>m. m(st := None)))) (\<lambda>_.
    case found of
      None \<Rightarrow> ret None
    | Some entry \<Rightarrow>
        if STATE_ENTRY_TTL < duration_since now (ent_created_at entry) then ret None else ret (Some entry))))"

section \<open>The handlers\<close>

datatype Response = RedirectTo string

definition failure_redirect :: Response where
  "failure_redirect = RedirectTo ''/?login_failed=1''"

text \<open>The random draws of a start: the challenge goes with the verifier.\<close>

record draws =
  dr_csrf :: string
  dr_nonce :: string
  dr_challenge :: string
  dr_verifier :: string

definition start_flow ::
  "('m, 'p, 'r, 'i) idp \<Rightarrow> OidcConfig \<Rightarrow> string \<Rightarrow> draws \<Rightarrow> ('p, 'z, string, string) sso"
where
  "start_flow env config base_url d =
    bindE (ensure_client env config base_url) (\<lambda>found.
    bindE (some_or ''client unavailable'' found) (\<lambda>client.
    let auth_url = idp_authorize_url env client (dr_csrf d) (dr_nonce d) [''openid'', ''email''] (dr_challenge d) in
    bindE (store_state (dr_csrf d) (dr_nonce d) (dr_verifier d)) (\<lambda>_.
    ret auth_url)))"

definition start_handler ::
  "('m, 'p, 'r, 'i) idp \<Rightarrow> OidcConfig \<Rightarrow> string \<Rightarrow> draws \<Rightarrow> ('p, 'z, string, Response) sso"
where
  "start_handler env config base_url d =
    handleE (start_flow env config base_url d) (\<lambda>url. ret (RedirectTo url)) (\<lambda>_. ret failure_redirect)"

record CallbackQuery =
  cq_code :: "string option"
  cq_state :: "string option"
  cq_error :: "string option"
  cq_error_description :: "string option"

text \<open>The first part of a callback: it ends with the entry taken from the store.\<close>

definition callback_admit ::
  "('m, 'p, 'r, 'i) idp \<Rightarrow> OidcConfig \<Rightarrow> string \<Rightarrow> CallbackQuery \<Rightarrow> ('p, 'z, string, 'p \<times> string \<times> StateEntry) sso"
where
  "callback_admit env config base_url q =
    bindE (ensure_client env config base_url) (\<lambda>found.
    bindE (some_or ''client unavailable'' found) (\<lambda>client.
    bindE (some_or ''missing state parameter'' (cq_state q)) (\<lambda>st.
    bindE (take_state st) (\<lambda>taken.
    bindE (some_or ''state not found in store (expired, replayed, or CSRF attempt)'' taken) (\<lambda>entry.
    ret (client, st, entry))))))"

text \<open>The rest: it never touches the store. The value is the user who is logged in.\<close>

definition callback_login ::
  "('m, 'p, 'r, 'i) idp \<Rightarrow> CallbackQuery \<Rightarrow> 'p \<Rightarrow> StateEntry \<Rightarrow> ('p, 'z, string, UserId) sso"
where
  "callback_login env q client entry =
    bindE (requireE (cq_error q = None) ''IdP returned error'') (\<lambda>_.
    bindE (some_or ''missing code parameter'' (cq_code q)) (\<lambda>code.
    bindE (liftE (idp_http_client env)) (\<lambda>_.
    bindE (liftE (idp_exchange env client code)) (\<lambda>token_request.
    bindE (getsE tx_now) (\<lambda>now.
    bindE (liftE (map_left error_chain (token_request (ent_pkce_verifier entry) now))) (\<lambda>token_response.
    bindE (some_or ''ID token missing from token response'' (idp_id_token env token_response)) (\<lambda>id_token.
    bindE (liftE (map_left error_chain (idp_claims env client id_token (ent_nonce entry) now))) (\<lambda>claimed.
    bindE (some_or ''ID token has no email claim'' claimed) (\<lambda>email_claim.
    bindE (liftE (map_left error_text (email_address_new email_claim))) (\<lambda>email.
    bindE (map_errE error_text (is_valid_email email)) (\<lambda>found.
    bindE (some_or ''no MailKeep user with this email'' found) (\<lambda>user.
    ret (usr_id user)))))))))))))"

text \<open>The handler; with the response comes the user \<open>login_user\<close> is called for, if it is.\<close>

definition callback_handler ::
  "('m, 'p, 'r, 'i) idp \<Rightarrow> OidcConfig \<Rightarrow> string \<Rightarrow> CallbackQuery \<Rightarrow> ('p, 'z, string, Response \<times> UserId option) sso"
where
  "callback_handler env config base_url q =
    handleE
      (bindE (callback_admit env config base_url q) (\<lambda>(client, st, entry). callback_login env q client entry))
      (\<lambda>u. ret (RedirectTo ''/'', Some u))
      (\<lambda>_. ret (failure_redirect, None))"

end
