(* ===== verification/OidcProps.thy ===== *)
theory OidcProps
  imports Oidc SessionProps
begin

text \<open>
  Single sign-on is safe under every interleaving of starts and callbacks: a state admits at
  most one callback per start that drew it, within its time to live, and a login is for the user
  whose address the provider's verified token names.
\<close>

section \<open>What the parts do to the store of states\<close>

lemma frame_sso [frame_intros]:
  "frame sw_cell (instant_now :: ('p, 'z, 'e, time) sso)" "frame tx_db (instant_now :: ('p, 'z, 'e, time) sso)"
  by (simp_all add: instant_now_def frame_intros)

lemma instant_now_apply [act_eval]: "instant_now s = (Inr (sw_clock s), s)"
  by (simp add: instant_now_def)

lemma states_on_store: "cell_client (sw_cell s) \<noteq> None \<Longrightarrow> states (on_store f s) = f (states s)"
  by (auto simp: states_def on_store_def)

lemma on_store_fields [simp]: "tx_db (on_store f s) = tx_db s" "sw_clock (on_store f s) = sw_clock s"
  "tx_faults (on_store f s) = tx_faults s" "cell_client (sw_cell (on_store f s)) = None \<longleftrightarrow> cell_client (sw_cell s) = None"
  by (auto simp: on_store_def)

lemma frame_discover: "frame sw_cell (discover_async env i)" "frame tx_db (discover_async env i)"
  by (auto simp: frame_def discover_async_def split: prod.splits)

lemma frame_client_new: "frame sw_cell (oidc_client_new env config base)" "frame tx_db (oidc_client_new env config base)"
  unfolding oidc_client_new_def Let_def by (intro frame_intros frame_discover)+

lemma client_new_Inr: "oidc_client_new env config base s = (Inr c, t) \<Longrightarrow> oid_state_store c = Map.empty"
  by (auto simp: oidc_client_new_def Let_def bindE_Inr_iff act_eval)

text \<open>Looking for a client keeps the states in flight: once there is a client it is never replaced.\<close>

lemma ensure_client_run:
  fixes s :: "('p, 'z) sso_world_scheme"
  assumes "ensure_client env config base s = (r, t)"
  shows "\<exists>x. r = Inr x \<and> (x = None \<longleftrightarrow> cell_client (sw_cell t) = None)" and "states t = states s" and "tx_db t = tx_db s"
    and "cell_client (sw_cell s) \<noteq> None \<Longrightarrow> t = s"
proof -
  have "(\<exists>x. r = Inr x \<and> (x = None \<longleftrightarrow> cell_client (sw_cell t) = None)) \<and> states t = states s \<and> tx_db t = tx_db s \<and>
    (cell_client (sw_cell s) \<noteq> None \<longrightarrow> t = s)"
  proof (cases "cell_client (sw_cell s) \<noteq> None \<or> \<not> should_attempt (cell_failed_since (sw_cell s)) (sw_clock s)")
    case True
    with assms show ?thesis by (auto simp: ensure_client_def act_eval bindE_def split: option.splits)
  next
    case False
    obtain q u where new: "(oidc_client_new env config base :: ('p, 'z, OidcInitError, 'p OidcClient) sso) s = (q, u)" by fastforce
    have "sw_cell u = sw_cell s" "tx_db u = tx_db s"
      using frame_client_new(1) [of env config base, unfolded frame_def, THEN spec, of s]
        frame_client_new(2) [of env config base, unfolded frame_def, THEN spec, of s] new by auto
    moreover have "q = Inr c \<Longrightarrow> oid_state_store c = Map.empty" for c using client_new_Inr [of env config base s c u] new by simp
    moreover have "(r, t) = (case q of
        Inr c \<Rightarrow> (Inr (Some (oid_client c)), u\<lparr>sw_cell := \<lparr>cell_client = Some c, cell_failed_since = None\<rparr>\<rparr>)
      | Inl e \<Rightarrow> (Inr None, u\<lparr>sw_cell := sw_cell u\<lparr>cell_failed_since := Some (sw_clock u)\<rparr>\<rparr>))"
      using False unfolding assms [symmetric] by (simp add: ensure_client_def act_eval bindE_def handleE_def new split: sum.split)
    ultimately show ?thesis using False by (cases q) (auto simp: states_def)
  qed
  then show "\<exists>x. r = Inr x \<and> (x = None \<longleftrightarrow> cell_client (sw_cell t) = None)" and "states t = states s" and "tx_db t = tx_db s"
    and "cell_client (sw_cell s) \<noteq> None \<Longrightarrow> t = s" by auto
qed

lemma ensured:
  fixes s :: "('p, 'z) sso_world_scheme" and msg :: string
  assumes "bindE (ensure_client env config base) (\<lambda>found. bindE (some_or msg found) f) s = (r, t)"
  obtains u where "states u = states s" "tx_db u = tx_db s" "r = Inl msg" "t = u"
  | u client where "states u = states s" "tx_db u = tx_db s" "cell_client (sw_cell u) \<noteq> None" "f client u = (r, t)"
proof -
  obtain q u where ens: "(ensure_client env config base :: ('p, 'z, string, 'p option) sso) s = (q, u)" by (metis surj_pair)
  note run = ensure_client_run [OF ens]
  obtain x where x: "q = Inr x" "(x = None) = (cell_client (sw_cell u) = None)" using run(1) by (elim exE conjE)
  show thesis
  proof (cases x)
    case None
    then have "(r, t) = (Inl msg, u)" unfolding assms [symmetric] by (simp add: bindE_def some_or_def act_eval ens x(1))
    with run(2,3) show thesis by (intro that(1) [of u]) simp_all
  next
    case (Some client)
    then have "f client u = (r, t)" unfolding assms [symmetric] by (simp add: bindE_def some_or_def act_eval ens x(1))
    moreover have "cell_client (sw_cell u) \<noteq> None" using x(2) Some by simp
    ultimately show thesis using run(2,3) by (intro that(2) [of u client])
  qed
qed

lemma store_state_apply:
  assumes "cell_client (sw_cell s) \<noteq> None"
  shows "\<exists>t. store_state k n v s = (Inr (), t) \<and> tx_db t = tx_db s \<and> sw_clock t = sw_clock s \<and>
    states t = (retain_fresh (sw_clock s) (states s))(k \<mapsto> \<lparr>ent_nonce = n, ent_pkce_verifier = v, ent_created_at = sw_clock s\<rparr>)"
  by (simp add: store_state_def bindE_def act_eval states_on_store [OF assms] fun_upd_def)

lemma start_flow_run:
  fixes s :: "('p, 'z) sso_world_scheme"
  assumes "start_flow env config base d s = (r, t)"
  shows "tx_db t = tx_db s"
    and "r = Inr url \<Longrightarrow> states t = (retain_fresh (sw_clock t) (states s))(dr_csrf d \<mapsto>
      \<lparr>ent_nonce = dr_nonce d, ent_pkce_verifier = dr_verifier d, ent_created_at = sw_clock t\<rparr>)"
    and "r = Inl e \<Longrightarrow> states t = states s"
proof -
  from assms [unfolded start_flow_def Let_def] have "tx_db t = tx_db s \<and> (r = Inr url \<longrightarrow>
      states t = (retain_fresh (sw_clock t) (states s))(dr_csrf d \<mapsto>
        \<lparr>ent_nonce = dr_nonce d, ent_pkce_verifier = dr_verifier d, ent_created_at = sw_clock t\<rparr>)) \<and>
      (r = Inl e \<longrightarrow> states t = states s)"
  proof (cases rule: ensured)
    case (2 u client)
    obtain v where "(store_state (dr_csrf d) (dr_nonce d) (dr_verifier d) :: ('p, 'z, string, unit) sso) u = (Inr (), v)"
      "tx_db v = tx_db u" "sw_clock v = sw_clock u" "states v = (retain_fresh (sw_clock u) (states u))(dr_csrf d \<mapsto>
        \<lparr>ent_nonce = dr_nonce d, ent_pkce_verifier = dr_verifier d, ent_created_at = sw_clock u\<rparr>)"
      using store_state_apply [OF 2(3)] by blast
    with 2 show ?thesis by (auto simp: bindE_def ret_apply)
  qed simp
  then show "tx_db t = tx_db s"
    and "r = Inr url \<Longrightarrow> states t = (retain_fresh (sw_clock t) (states s))(dr_csrf d \<mapsto>
      \<lparr>ent_nonce = dr_nonce d, ent_pkce_verifier = dr_verifier d, ent_created_at = sw_clock t\<rparr>)"
    and "r = Inl e \<Longrightarrow> states t = states s" by simp_all
qed

lemma take_state_run:
  assumes "take_state k s = (r, t)" and "cell_client (sw_cell s) \<noteq> None"
  shows "states t = (states s)(k := None)" and "tx_db t = tx_db s" and "sw_clock t = sw_clock s"
    and "r = Inr (if \<exists>e. states s k = Some e \<and> duration_since (sw_clock s) (ent_created_at e) \<le> STATE_ENTRY_TTL
      then states s k else None)"
  using assms by (auto simp: take_state_def bindE_def act_eval states_on_store split: option.splits if_splits)

lemma callback_admit_run:
  fixes s :: "('p, 'z) sso_world_scheme"
  assumes "callback_admit env config base q s = (r, t)"
  shows "tx_db t = tx_db s"
    and "r = Inr (c, k, e) \<Longrightarrow> states s k = Some e \<and> states t = (states s)(k := None) \<and> sw_clock t \<le> ent_created_at e + STATE_ENTRY_TTL"
    and "r = Inl msg \<Longrightarrow> states t = states s \<or> (\<exists>k. states t = (states s)(k := None))"
proof -
  have "tx_db t = tx_db s \<and>
    (r = Inr (c, k, e) \<longrightarrow> states s k = Some e \<and> states t = (states s)(k := None) \<and> sw_clock t \<le> ent_created_at e + STATE_ENTRY_TTL) \<and>
    (r = Inl msg \<longrightarrow> states t = states s \<or> (\<exists>k. states t = (states s)(k := None)))"
    using assms [unfolded callback_admit_def]
  proof (cases rule: ensured)
    case (2 u client)
    show ?thesis
    proof (cases "cq_state q")
      case None
      with 2 show ?thesis by (auto simp: some_or_def act_eval)
    next
      case (Some k')
      obtain q2 v where tk: "(take_state k' :: ('p, 'z, string, StateEntry option) sso) u = (q2, v)" by fastforce
      note tr = take_state_run [OF tk 2(3)]
      from 2(4) Some tk tr(4) have "t = v" "r = (case (if \<exists>e. states u k' = Some e \<and>
          duration_since (sw_clock u) (ent_created_at e) \<le> STATE_ENTRY_TTL then states u k' else None) of
          None \<Rightarrow> Inl ''state not found in store (expired, replayed, or CSRF attempt)'' | Some e \<Rightarrow> Inr (client, k', e))"
        by (auto simp: bindE_def some_or_def act_eval split: option.splits)
      then show ?thesis using tr(1-3) 2(1,2) by (auto simp: duration_since_def split: option.splits if_splits)
    qed
  qed simp
  then show "tx_db t = tx_db s"
    and "r = Inr (c, k, e) \<Longrightarrow> states s k = Some e \<and> states t = (states s)(k := None) \<and> sw_clock t \<le> ent_created_at e + STATE_ENTRY_TTL"
    and "r = Inl msg \<Longrightarrow> states t = states s \<or> (\<exists>k. states t = (states s)(k := None))" by auto
qed

section \<open>Starts and callbacks, interleaved\<close>

text \<open>
  The history, newest event first, records the starts and the logins. A callback that has taken
  its entry is pending until the rest of it runs; in between, and between any two steps, the
  rest of the program may change the tables and time may pass. A pending callback that fails,
  or whose browser goes away, drops out.
\<close>

datatype SsoEvent =
    Started string StateEntry
  | LoggedIn string StateEntry time UserId

type_synonym 'p pending = "'p \<times> string \<times> StateEntry \<times> time \<times> CallbackQuery"

inductive sso_run ::
  "('m, 'p, 'r, 'i) idp \<Rightarrow> OidcConfig \<Rightarrow> string \<Rightarrow> ('p, 'z) sso_world_scheme \<Rightarrow> 'p pending list \<Rightarrow> SsoEvent list \<Rightarrow> bool"
for env config base
where
  init: "cell_client (sw_cell s) = None \<Longrightarrow> sso_run env config base s [] []"
| page: "sso_run env config base s P tr \<Longrightarrow>
    sso_run env config base (snd (get_sso_config env (Some config) base s)) P tr"
| start: "sso_run env config base s P tr \<Longrightarrow> start_flow env config base d s = (Inr url, t) \<Longrightarrow>
    sso_run env config base t P
      (Started (dr_csrf d) \<lparr>ent_nonce = dr_nonce d, ent_pkce_verifier = dr_verifier d, ent_created_at = sw_clock t\<rparr> # tr)"
| start_failed: "sso_run env config base s P tr \<Longrightarrow> start_flow env config base d s = (Inl e, t) \<Longrightarrow>
    sso_run env config base t P tr"
| admit: "sso_run env config base s P tr \<Longrightarrow> callback_admit env config base q s = (Inr (c, k, e), t) \<Longrightarrow>
    sso_run env config base t ((c, k, e, sw_clock t, q) # P) tr"
| refuse: "sso_run env config base s P tr \<Longrightarrow> callback_admit env config base q s = (Inl msg, t) \<Longrightarrow>
    sso_run env config base t P tr"
| login: "sso_run env config base s (P1 @ (c, k, e, at, q) # P2) tr \<Longrightarrow> callback_login env q c e s = (Inr u, t) \<Longrightarrow>
    sso_run env config base t (P1 @ P2) (LoggedIn k e at u # tr)"
| no_login: "sso_run env config base s (P1 @ (c, k, e, at, q) # P2) tr \<Longrightarrow> callback_login env q c e s = (Inl msg, t) \<Longrightarrow>
    sso_run env config base t (P1 @ P2) tr"
| gone: "sso_run env config base s (P1 @ p # P2) tr \<Longrightarrow> sso_run env config base s (P1 @ P2) tr"
| others: "sso_run env config base s P tr \<Longrightarrow> sw_cell t = sw_cell s \<Longrightarrow> sw_clock s \<le> sw_clock t \<Longrightarrow>
    sso_run env config base t P tr"

fun starts :: "string \<Rightarrow> SsoEvent list \<Rightarrow> nat" where
  "starts k [] = 0"
| "starts k (Started j e # tr) = (if j = k then 1 else 0) + starts k tr"
| "starts k (LoggedIn j e at u # tr) = starts k tr"

fun logins :: "string \<Rightarrow> SsoEvent list \<Rightarrow> nat" where
  "logins k [] = 0"
| "logins k (Started j e # tr) = logins k tr"
| "logins k (LoggedIn j e at u # tr) = (if j = k then 1 else 0) + logins k tr"

text \<open>
  A login is justified by what came before: a start drew its state, with the nonce and the
  verifier the login was checked with, at most the time to live before the callback came in,
  and more starts drew that state than logins used it.
\<close>

fun justified :: "SsoEvent list \<Rightarrow> bool" where
  "justified [] = True"
| "justified (Started k e # tr) = justified tr"
| "justified (LoggedIn k e at u # tr) =
    (Started k e \<in> set tr \<and> at \<le> ent_created_at e + STATE_ENTRY_TTL \<and> logins k tr < starts k tr \<and> justified tr)"

section \<open>The invariant\<close>

definition waiting :: "string \<Rightarrow> 'p pending list \<Rightarrow> nat" where
  "waiting k P = length (filter (\<lambda>p. fst (snd p) = k) P)"

definition in_store :: "string \<Rightarrow> (string \<Rightarrow> StateEntry option) \<Rightarrow> nat" where
  "in_store k m = (if m k = None then 0 else 1)"

definition issued :: "(string \<Rightarrow> StateEntry option) \<Rightarrow> 'p pending list \<Rightarrow> SsoEvent list \<Rightarrow> bool" where
  "issued m P tr \<longleftrightarrow> justified tr \<and> (\<forall>k e. m k = Some e \<longrightarrow> Started k e \<in> set tr) \<and>
     (\<forall>(c, k, e, at, q) \<in> set P. Started k e \<in> set tr \<and> at \<le> ent_created_at e + STATE_ENTRY_TTL) \<and>
     (\<forall>k. logins k tr + waiting k P + in_store k m \<le> starts k tr)"

lemma waiting_simps [simp]:
  "waiting k [] = 0" "waiting k ((c, j, e, at, q) # P) = (if j = k then 1 else 0) + waiting k P"
  "waiting k (P @ Q) = waiting k P + waiting k Q"
  by (simp_all add: waiting_def)

lemma issued_fewer:
  assumes "issued m P tr" and "\<And>k e. m' k = Some e \<Longrightarrow> m k = Some e"
  shows "issued m' P tr"
proof -
  have "in_store k m' \<le> in_store k m" for k using assms(2) [of k] by (auto simp: in_store_def)
  then have "logins k tr + waiting k P + in_store k m' \<le> starts k tr" for k
    using assms(1) unfolding issued_def by (meson add_left_mono order_trans)
  with assms show ?thesis by (auto simp: issued_def)
qed

lemma issued_start:
  assumes "issued m P tr"
  shows "issued (m(k \<mapsto> e)) P (Started k e # tr)"
proof -
  have "logins j tr + waiting j P + in_store j (m(k \<mapsto> e)) \<le> (if k = j then 1 else 0) + starts j tr" for j
    using assms [unfolded issued_def, THEN conjunct2, THEN conjunct2, THEN conjunct2, THEN spec, of j]
    by (auto simp: in_store_def split: if_splits)
  with assms show ?thesis by (auto simp: issued_def)
qed

lemma issued_admit:
  assumes "issued m P tr" and "m k = Some e" and "at \<le> ent_created_at e + STATE_ENTRY_TTL"
  shows "issued (m(k := None)) ((c, k, e, at, q) # P) tr"
proof -
  have "logins j tr + waiting j ((c, k, e, at, q) # P) + in_store j (m(k := None)) \<le> starts j tr" for j
    using assms(1) [unfolded issued_def, THEN conjunct2, THEN conjunct2, THEN conjunct2, THEN spec, of j] assms(2)
    by (auto simp: in_store_def split: if_splits)
  with assms show ?thesis by (auto simp: issued_def)
qed

lemma issued_drop:
  assumes "issued m (P1 @ p # P2) tr"
  shows "issued m (P1 @ P2) tr"
proof -
  have "waiting j (P1 @ P2) \<le> waiting j (P1 @ p # P2)" for j by (simp add: waiting_def)
  then have "logins j tr + waiting j (P1 @ P2) + in_store j m \<le> starts j tr" for j
    using assms unfolding issued_def by (meson add_le_mono le_refl order_trans)
  with assms show ?thesis by (auto simp: issued_def)
qed

lemma issued_login:
  assumes "issued m (P1 @ (c, k, e, at, q) # P2) tr"
  shows "issued m (P1 @ P2) (LoggedIn k e at u # tr)"
proof -
  note b = assms [unfolded issued_def, THEN conjunct2, THEN conjunct2, THEN conjunct2, THEN spec]
  have "(if k = j then 1 else 0) + logins j tr + waiting j (P1 @ P2) + in_store j m \<le> starts j tr" for j
    using b [of j] by (auto split: if_splits)
  moreover have "logins k tr < starts k tr" using b [of k] by simp
  ultimately show ?thesis using assms by (auto simp: issued_def)
qed

lemma callback_login_cell: "callback_login env q c e s = (r, t) \<Longrightarrow> sw_cell t = sw_cell s"
proof -
  have "db_only (is_valid_email email)" for email
    unfolding is_valid_email_def user_find_by_email_def by (intro db_only_intros)
  then have "frame tx.more (is_valid_email email)" for email by (simp add: db_only_def)
  then have "frame tx.more (callback_login env q c e)" unfolding callback_login_def by (intro frame_intros)
  then show "callback_login env q c e s = (r, t) \<Longrightarrow> sw_cell t = sw_cell s"
    by (cases s, cases t) (auto dest!: frameD)
qed

lemma sso_run_issued:
  fixes s :: "('p, 'z) sso_world_scheme"
  shows "sso_run env config base s P tr \<Longrightarrow> issued (states s) P tr"
proof (induction rule: sso_run.induct)
  case (init s) then show ?case by (simp add: issued_def states_def in_store_def)
next
  case (page s P tr)
  obtain q u where "(ensure_client env config base :: ('p, 'z, string, 'p option) sso) s = (q, u)" by (metis surj_pair)
  with ensure_client_run [OF this] page.IH show ?case
    by (auto simp: get_sso_config_def bindE_def act_eval split: option.splits)
next
  case (start s P tr d url t)
  note st = start_flow_run(2) [OF start(2) refl]
  have "retain_fresh now m k = Some e \<Longrightarrow> m k = Some e" for now m k e
    by (auto simp: retain_fresh_def split: option.splits if_splits)
  then show ?case unfolding st by (intro issued_start issued_fewer [OF start.IH])
next
  case (start_failed s P tr d e t)
  with start_flow_run(3) [OF start_failed(2) refl] show ?case by simp
next
  case (admit s P tr q c k e t)
  note a = callback_admit_run(2) [OF admit(2) refl]
  then have "issued ((states s)(k := None)) ((c, k, e, sw_clock t, q) # P) tr" by (intro issued_admit [OF admit.IH]) simp_all
  with a show ?case by (simp only:)
next
  case (refuse s P tr q msg t)
  with callback_admit_run(3) [OF refuse(2) refl] show ?case by (auto intro: issued_fewer split: if_splits)
next
  case (login s P1 c k e at q P2 tr u t)
  then show ?case using callback_login_cell [OF login(2)] by (auto simp: states_def intro: issued_login)
next
  case (no_login s P1 c k e at q P2 tr msg t)
  then show ?case using callback_login_cell [OF no_login(2)] by (auto simp: states_def intro: issued_drop)
next
  case (gone s P1 p P2 tr) show ?case by (rule issued_drop [OF gone.IH])
next
  case (others s P tr t) then show ?case by (simp add: states_def)
qed

text \<open>
  C17. However starts and callbacks interleave, whatever queries browsers send and whatever the
  provider answers: every login used a state a start had drawn, with that start's nonce and
  verifier and within the time to live, and no state admits more logins than starts drew it.
\<close>

theorem sso_logins_justified: "sso_run env config base s P tr \<Longrightarrow> justified tr"
  by (drule sso_run_issued) (simp add: issued_def)

section \<open>Who is logged in\<close>

lemma liftE_eval: "liftE r s = (r, s)"
  by (cases r) (simp_all add: liftE_def act_eval)

lemma is_valid_email_clear:
  "tx_faults s = [] \<Longrightarrow> is_valid_email email s = (Inr (find_row (\<lambda>u. usr_email_address u = email) (tbl_users (tx_db s))), s)"
  by (simp add: is_valid_email_def user_find_by_email_def read_only_clear query_clear)

text \<open>
  C18. With a database that answers, a callback that got past the store logs a user in exactly when the
  provider sent no error but a code, the code and the verifier of the start bought tokens, the
  identity token verified against the nonce of the start, and the address it names is that
  user's; a login never changes the tables.
\<close>

theorem sso_login_verified:
  assumes "users_ok (tx_db s)" and "tx_faults s = []"
  shows "snd (callback_login env q client entry s) = s \<and>
    (fst (callback_login env q client entry s) = Inr u \<longleftrightarrow>
      cq_error q = None \<and> idp_http_client env = Inr () \<and>
      (\<exists>code request response tok email user. cq_code q = Some code \<and> idp_exchange env client code = Inr request \<and>
        request (ent_pkce_verifier entry) (tx_now s) = Inr response \<and> idp_id_token env response = Some tok \<and>
        idp_claims env client tok (ent_nonce entry) (tx_now s) = Inr (Some email) \<and> CHR ''@'' \<in> set email \<and>
        user \<in> set (tbl_users (tx_db s)) \<and> usr_email_address user = email \<and> usr_id user = u))"
proof -
  have "distinct (map usr_email_address (tbl_users (tx_db s)))" using assms(1) by (simp add: users_ok_def)
  then have found: "find_row (\<lambda>x. usr_email_address x = email) (tbl_users (tx_db s)) = Some user \<longleftrightarrow>
      user \<in> set (tbl_users (tx_db s)) \<and> usr_email_address user = email" for email user
    by (auto dest: find_row_Some intro: find_row_first_key)
  have "snd (callback_login env q client entry s) = s \<and>
    (fst (callback_login env q client entry s) = Inr u \<longleftrightarrow>
      cq_error q = None \<and> idp_http_client env = Inr () \<and>
      (\<exists>code request response tok email user. cq_code q = Some code \<and> idp_exchange env client code = Inr request \<and>
        request (ent_pkce_verifier entry) (tx_now s) = Inr response \<and> idp_id_token env response = Some tok \<and>
        idp_claims env client tok (ent_nonce entry) (tx_now s) = Inr (Some email) \<and> CHR ''@'' \<in> set email \<and>
        find_row (\<lambda>x. usr_email_address x = email) (tbl_users (tx_db s)) = Some user \<and> usr_id user = u))"
    using assms(2)
    by (auto simp: callback_login_def bindE_def liftE_eval some_or_def act_eval requireE_apply map_left_def email_address_new_def
        map_errE_def handleE_def is_valid_email_clear split: option.splits sum.splits)
  then show ?thesis unfolding found by simp
qed

section \<open>Concrete inputs\<close>

text \<open>A provider whose code is the verifier, whose token is the nonce and whose user is always Alice.\<close>

definition toy_idp :: "(unit, unit, string, string) idp" where
  "toy_idp = \<lparr>idp_issuer_url = Inr, idp_redirect_url = Inr, idp_http_client = Inr (), idp_discover = (\<lambda>_ _. (5, Inr ())),
     idp_core_client = (\<lambda>_ _ _ _. ()), idp_authorize_url = (\<lambda>_ st _ _ _. ''/authorize?state='' @ st),
     idp_exchange = (\<lambda>_ code. Inr (\<lambda>verifier _. if code = verifier then Inr ''nonce'' else Inl (''denied'', []))),
     idp_id_token = Some, idp_claims = (\<lambda>_ tok nonce _. if tok = nonce then Inr (Some ''alice@example.com'') else Inl (''bad nonce'', []))\<rparr>"

definition toy_config :: OidcConfig where
  "toy_config = \<lparr>oc_discovery_url = Some ''https://idp/.well-known/openid-configuration'', oc_client_id = Some ''mk'',
     oc_client_secret = Some ''s'', oc_button_label = None\<rparr>"

definition toy_draws :: draws where
  "toy_draws = \<lparr>dr_csrf = ''csrf'', dr_nonce = ''nonce'', dr_challenge = ''c'', dr_verifier = ''v''\<rparr>"

definition toy_query :: CallbackQuery where
  "toy_query = \<lparr>cq_code = Some ''v'', cq_state = Some ''csrf'', cq_error = None, cq_error_description = None\<rparr>"

definition sso_start :: "unit sso_world" where
  "sso_start = tx.extend sample_users_tx \<lparr>sw_clock = 0, sw_cell = \<lparr>cell_client = None, cell_failed_since = None\<rparr>\<rparr>"

definition sso_started :: "unit sso_world" where
  "sso_started = snd (start_flow toy_idp toy_config ''http://mk/'' toy_draws sso_start)"

definition sso_admitted :: "unit sso_world" where
  "sso_admitted = snd (callback_admit toy_idp toy_config ''http://mk/'' toy_query sso_started)"

definition toy_entry :: StateEntry where
  "toy_entry = \<lparr>ent_nonce = ''nonce'', ent_pkce_verifier = ''v'', ent_created_at = 5\<rparr>"

lemma sample_sso_runs:
  "fst (start_flow toy_idp toy_config ''http://mk/'' toy_draws sso_start) = Inr ''/authorize?state=csrf''"
  "fst (callback_admit toy_idp toy_config ''http://mk/'' toy_query sso_started) = Inr ((), ''csrf'', toy_entry)"
  "fst (callback_admit toy_idp toy_config ''http://mk/'' toy_query sso_admitted) =
    Inl ''state not found in store (expired, replayed, or CSRF attempt)''"
  "fst (callback_login toy_idp toy_query () toy_entry sso_admitted) = Inr 1"
  by code_simp+

lemma sample_sso_parts: "sw_clock sso_started = 5" "sw_clock sso_admitted = 5" "tx_db sso_admitted = sample_users_db"
  "tx_faults sso_admitted = []"
  by code_simp+

lemma sample_sso_history:
  "\<exists>s :: unit sso_world. sso_run toy_idp toy_config ''http://mk/'' s [] [LoggedIn ''csrf'' toy_entry 5 1, Started ''csrf'' toy_entry]"
proof -
  let ?run = "sso_run toy_idp toy_config ''http://mk/''"
  have "?run sso_start [] []" by (rule sso_run.init) code_simp
  moreover have "start_flow toy_idp toy_config ''http://mk/'' toy_draws sso_start = (Inr ''/authorize?state=csrf'', sso_started)"
    using sample_sso_runs(1) by (simp add: sso_started_def prod_eq_iff)
  ultimately have "?run sso_started [] [Started ''csrf'' toy_entry]"
    using sso_run.start by (fastforce simp: toy_draws_def toy_entry_def sample_sso_parts)
  moreover have "callback_admit toy_idp toy_config ''http://mk/'' toy_query sso_started = (Inr ((), ''csrf'', toy_entry), sso_admitted)"
    using sample_sso_runs(2) by (simp add: sso_admitted_def prod_eq_iff)
  ultimately have "?run sso_admitted ([] @ ((), ''csrf'', toy_entry, 5, toy_query) # []) [Started ''csrf'' toy_entry]"
    using sso_run.admit by (fastforce simp: sample_sso_parts)
  moreover obtain t where "callback_login toy_idp toy_query () toy_entry sso_admitted = (Inr 1, t)"
    using sample_sso_runs(4) by (metis prod.collapse)
  ultimately have "?run t ([] @ []) [LoggedIn ''csrf'' toy_entry 5 1, Started ''csrf'' toy_entry]" by (rule sso_run.login)
  then show ?thesis by auto
qed

theorem sso_logins_justified_witness:
  "(\<exists>s :: unit sso_world. sso_run toy_idp toy_config ''http://mk/'' s [] [LoggedIn ''csrf'' toy_entry 5 1, Started ''csrf'' toy_entry]) \<and>
    justified [LoggedIn ''csrf'' toy_entry 5 1, Started ''csrf'' toy_entry]"
  using sample_sso_history sso_logins_justified by blast

theorem sso_login_verified_witness:
  "\<exists>user \<in> set (tbl_users (tx_db sso_admitted)). usr_email_address user = ''alice@example.com'' \<and> usr_id user = 1"
proof -
  have "users_ok (tx_db sso_admitted)" using sample_users_tables by (simp add: sample_sso_parts tables_ok_def)
  from sso_login_verified [OF this sample_sso_parts(4), of toy_idp toy_query "()" toy_entry 1] sample_sso_runs(4)
  show ?thesis by (auto simp: toy_idp_def split: if_splits)
qed

end
