(* ===== verification/Display.thy ===== *)
theory Display
  imports ServerHelpers
begin

text \<open>
  The display helpers of the account list
  (\<open>crates/frontend/src/routes/home_page/format.rs\<close>) and the relative time of
  \<open>account_add_page/dtos.rs\<close>. \<open>format_bytes\<close> computes in floating point and is not
  modelled.
\<close>

section \<open>Labels\<close>

definition status_label :: "string \<Rightarrow> string" where
  "status_label status =
    (if status = ''PendingFirstSync'' then ''Pending first sync''
     else if status = ''Syncing'' then ''Syncing''
     else if status = ''Idle'' then ''Idle''
     else if status = ''Error'' then ''Error''
     else if status = ''Disabled'' then ''Disabled''
     else ''Unknown'')"

definition status_icon_color :: "string \<Rightarrow> string" where
  "status_icon_color status =
    (if status = ''Syncing'' then ''text-blue-500''
     else if status = ''Idle'' then ''text-green-500''
     else if status = ''Error'' then ''text-red-500''
     else if status = ''PendingFirstSync'' then ''text-amber-500''
     else ''text-gray-400'')"

text \<open>The separator is a middle dot, U+00B7, between blanks.\<close>

definition status_tooltip :: "string \<Rightarrow> string option \<Rightarrow> string option \<Rightarrow> string" where
  "status_tooltip status last_synced last_error =
    (let base = (if status = ''Error''
       then (case last_error of Some e \<Rightarrow> if e \<noteq> [] then ''Error: '' @ e else ''Error'' | None \<Rightarrow> ''Error'')
       else status_label status)
     in case last_synced of
          Some t \<Rightarrow> if t \<noteq> [] then base @ [CHR '' '', CHR 0xC2, CHR 0xB7, CHR '' ''] @ ''last synced '' @ t else base
        | None \<Rightarrow> base)"

definition special_use_rank :: "string option \<Rightarrow> nat" where
  "special_use_rank s =
    (if s = Some ''inbox'' then 0 else if s = Some ''sent'' then 1 else if s = Some ''drafts'' then 2
     else if s = Some ''archive'' then 3 else if s = Some ''trash'' then 4 else if s = Some ''junk'' then 5
     else if s = Some ''all'' then 6 else 7)"

section \<open>Numbers\<close>

text \<open>The digits of a number with a comma before each group of three.\<close>

fun thousands_loop :: "nat \<Rightarrow> nat \<Rightarrow> string \<Rightarrow> string" where
  "thousands_loop first i [] = []"
| "thousands_loop first i (b # bs) =
    (if i \<noteq> 0 \<and> first \<le> i \<and> 3 dvd (i - first) then CHR '','' # b # thousands_loop first (Suc i) bs
     else b # thousands_loop first (Suc i) bs)"

definition thousands :: "u64 \<Rightarrow> string" where
  "thousands n = (let s = show_nat (unat n) in thousands_loop (length s mod 3) 0 s)"

section \<open>Relative times\<close>

text \<open>\<open>num_seconds\<close> of a duration truncates towards zero.\<close>

definition num_seconds :: "time \<Rightarrow> int" where
  "num_seconds d = (if d < 0 then - ((- d) div seconds 1) else d div seconds 1)"

definition relative_time :: "time \<Rightarrow> time \<Rightarrow> string" where
  "relative_time from_time now =
    (let secs = num_seconds (now - from_time); mins = secs div 60; hours = mins div 60
     in if secs < 60 then ''just now''
        else if mins < 60 then show_int mins @ ''m ago''
        else if hours < 24 then show_int hours @ ''h ago''
        else show_int (hours div 24) @ ''d ago'')"

section \<open>What they show\<close>

lemma thousands_loop_digits:
  "CHR '','' \<notin> set s \<Longrightarrow> filter (\<lambda>c. c \<noteq> CHR '','') (thousands_loop first i s) = s"
  by (induction first i s rule: thousands_loop.induct) auto

end
