(* ===== verification/WebAccounts.thy ===== *)
theory WebAccounts
  imports Display ImapAccounts "HOL-Library.List_Lexorder" "HOL-Library.Char_ord"
begin

text \<open>
  The server functions about accounts and their folders: adding an account
  (\<open>crates/frontend/src/routes/account_add_page\<close>), the account list, and enabling, deleting and
  choosing the folders of an account (\<open>home_page/account_actions.rs\<close>). Each starts with the
  user of the request and goes to the services of the core with that user's id.
\<close>

type_synonym ('z, 'a) af = "('z app_world_scheme, string, 'a) action"

text \<open>The text forms of the tokens (the token library's): one per kind, with its parser.\<close>

record token_texts =
  tt_account :: "AccountId \<Rightarrow> string"
  tt_parse_account :: "string \<Rightarrow> string + AccountId"
  tt_folder :: "FolderId \<Rightarrow> string"
  tt_parse_folder :: "string \<Rightarrow> string + FolderId"

section \<open>What crosses the wire\<close>

record ServerConfigDto =
  scd_host :: string
  scd_port :: u16
  scd_tls :: string

record RemoteFolderDto =
  rfd_path :: string
  rfd_special_use :: "string option"
  rfd_has_children :: bool
  rfd_no_select :: bool
  rfd_delimiter :: "string option"

record NewFolderDto =
  nfd_path :: string
  nfd_special_use :: "string option"
  nfd_no_select :: bool

record NewAccountDto =
  nad_display_name :: string
  nad_email :: string
  nad_server :: ServerConfigDto
  nad_password :: string
  nad_folders :: "NewFolderDto list"

record AccountSummaryDto =
  asd_token :: string
  asd_display_name :: string
  asd_email :: string
  asd_status :: string
  asd_last_synced :: "string option"
  asd_last_error :: "string option"

record AccountFolderDto =
  afd_token :: string
  afd_path :: string
  afd_special_use :: "string option"
  afd_enabled :: bool

record FolderEnabledDto =
  fed_token :: string
  fed_enabled :: bool

definition tls_from_string :: "string \<Rightarrow> TlsMode" where
  "tls_from_string s = (if s = ''StartTls'' then StartTls else Tls)"

definition special_use_to_string :: "SpecialUse option \<Rightarrow> string option" where
  "special_use_to_string s = map_option special_use_as_str s"

definition special_use_from_string :: "string option \<Rightarrow> SpecialUse option" where
  "special_use_from_string s = Option.bind s special_use_from_str"

definition server_config_from_dto :: "ServerConfigDto \<Rightarrow> ImapServerConfig" where
  "server_config_from_dto d = \<lparr>srv_host = scd_host d, srv_port = scd_port d, srv_tls = tls_from_string (scd_tls d)\<rparr>"

definition remote_folder_to_dto :: "RemoteFolder \<Rightarrow> RemoteFolderDto" where
  "remote_folder_to_dto f =
    \<lparr>rfd_path = rf_path f, rfd_special_use = special_use_to_string (rf_special_use f),
     rfd_has_children = rf_has_children f, rfd_no_select = rf_no_select f, rfd_delimiter = rf_delimiter f\<rparr>"

definition folder_to_account_folder :: "token_texts \<Rightarrow> Folder \<Rightarrow> AccountFolderDto" where
  "folder_to_account_folder tt f =
    \<lparr>afd_token = tt_folder tt (fld_id f), afd_path = fld_path f,
     afd_special_use = special_use_to_string (fld_special_use f), afd_enabled = fld_enabled f\<rparr>"

definition account_to_summary :: "token_texts \<Rightarrow> time \<Rightarrow> Account \<Rightarrow> time option \<Rightarrow> AccountSummaryDto" where
  "account_to_summary tt now a last_synced_at =
    \<lparr>asd_token = tt_account tt (acc_id a), asd_display_name = acc_display_name a, asd_email = acc_email_address a,
     asd_status = account_status_as_str (acc_status a),
     asd_last_synced = map_option (\<lambda>t. relative_time t now) last_synced_at,
     asd_last_error = (if acc_status a = ErrorStatus then acc_last_error a else None)\<rparr>"

section \<open>Adding an account\<close>

text \<open>The two probes run before there is an account; what the server answers is the environment's.\<close>

definition probe_test_connection ::
  "imap_env \<Rightarrow> AuthUser option \<Rightarrow> ServerConfigDto \<Rightarrow> ('z sync_world_scheme, string, unit) action"
where
  "probe_test_connection env cur server =
    bindE (authenticated_user cur) (\<lambda>_. to_server_err (test_connection env (server_config_from_dto server)))"

definition probe_list_folders ::
  "imap_env \<Rightarrow> (nat \<Rightarrow> string + (string + list_name) list) \<Rightarrow> AuthUser option \<Rightarrow> ServerConfigDto \<Rightarrow>
   ('z sync_world_scheme, string, RemoteFolderDto list) action"
where
  "probe_list_folders env list_answer cur server =
    bindE (authenticated_user cur) (\<lambda>_.
    bindE (to_server_err (list_remote_folders env list_answer (server_config_from_dto server))) (\<lambda>folders.
    ret (map remote_folder_to_dto folders)))"

text \<open>Only folders that can be selected become sync requests.\<close>

definition folder_requests :: "NewFolderDto list \<Rightarrow> NewFolderRequest list" where
  "folder_requests folders =
    map (\<lambda>f. \<lparr>nfr_path = nfd_path f, nfr_display_name = None,
      nfr_special_use = special_use_from_string (nfd_special_use f), nfr_uidvalidity = None\<rparr>)
    (filter (\<lambda>f. \<not> nfd_no_select f) folders)"

definition create_account_and_start ::
  "token_texts \<Rightarrow> account_env \<Rightarrow> 'z app_world_scheme imap_port \<Rightarrow> AuthUser option \<Rightarrow> NewAccountDto \<Rightarrow>
   ('z, AccountSummaryDto) af"
where
  "create_account_and_start tt env port cur payload =
    bindE (authenticated_user cur) (\<lambda>user.
    bindE (to_server_err (liftE (email_address_new (nad_email payload)))) (\<lambda>email.
    bindE (to_server_err (create_account env
      \<lparr>cap_user_id = au_id user, cap_display_name = nad_display_name payload, cap_email_address = email,
       cap_server = server_config_from_dto (nad_server payload), cap_username = nad_email payload,
       cap_password = nad_password payload\<rparr>)) (\<lambda>account.
    bindE (to_server_err (create_folders_for_account (acc_id account) (folder_requests (nad_folders payload)))) (\<lambda>_.
    bindE (to_server_err (start_account env port (acc_id account))) (\<lambda>_.
    ret (account_to_summary tt 0 account None))))))"

text \<open>\<open>lower\<close> is the lower-casing of Unicode.\<close>

definition web_list_accounts ::
  "token_texts \<Rightarrow> (string \<Rightarrow> string) \<Rightarrow> AuthUser option \<Rightarrow> ('z, AccountSummaryDto list) af"
where
  "web_list_accounts tt lower cur =
    bindE (authenticated_user cur) (\<lambda>user.
    bindE (to_server_err (list_accounts (au_id user))) (\<lambda>found.
    let accounts = sort_key (\<lambda>a. lower (acc_display_name a)) found in
    bindE (to_server_err (last_synced_by_account (map acc_id accounts))) (\<lambda>last_synced.
    bindE (to_server_err utc_now) (\<lambda>now.
    ret (map (\<lambda>a. account_to_summary tt now a (last_synced (acc_id a))) accounts)))))"

section \<open>Actions on an account\<close>

definition set_account_enabled ::
  "token_texts \<Rightarrow> account_env \<Rightarrow> 'z app_world_scheme imap_port \<Rightarrow> AuthUser option \<Rightarrow> string \<Rightarrow> bool \<Rightarrow> ('z, unit) af"
where
  "set_account_enabled tt env port cur account_token enabled =
    bindE (authenticated_user cur) (\<lambda>user.
    bindE (liftE (tt_parse_account tt account_token)) (\<lambda>i.
    if enabled then
      bindE (to_server_err (enable_account (au_id user) i)) (\<lambda>_. to_server_err (start_account env port i))
    else
      bindE (to_server_err (disable_account (au_id user) i)) (\<lambda>_. to_server_err (stop_account port i))))"

definition web_delete_account ::
  "token_texts \<Rightarrow> storage \<Rightarrow> storage \<Rightarrow> 'z app_world_scheme imap_port \<Rightarrow> AuthUser option \<Rightarrow> string \<Rightarrow> ('z, unit) af"
where
  "web_delete_account tt raw att port cur account_token =
    bindE (authenticated_user cur) (\<lambda>user.
    bindE (liftE (tt_parse_account tt account_token)) (\<lambda>i.
    bindE (to_server_err (get_account (au_id user) i)) (\<lambda>_.
    bindE (to_server_err (best_effort (stop_account port i))) (\<lambda>_.
    to_server_err (delete_account raw att (au_id user) i)))))"

definition get_account_folders ::
  "token_texts \<Rightarrow> AuthUser option \<Rightarrow> string \<Rightarrow> ('z, AccountFolderDto list) af"
where
  "get_account_folders tt cur account_token =
    bindE (authenticated_user cur) (\<lambda>user.
    bindE (liftE (tt_parse_account tt account_token)) (\<lambda>i.
    bindE (to_server_err (get_account (au_id user) i)) (\<lambda>_.
    bindE (to_server_err (list_folders i)) (\<lambda>folders.
    ret (sort_key (\<lambda>f. (special_use_rank (afd_special_use f), afd_path f)) (map (folder_to_account_folder tt) folders))))))"

text \<open>The loop over the flags sent: whether any folder changed so far is carried along.\<close>

fun apply_folder_flags ::
  "token_texts \<Rightarrow> (FolderId \<Rightarrow> bool option) \<Rightarrow> FolderEnabledDto list \<Rightarrow> bool \<Rightarrow> ('z, bool) af"
where
  "apply_folder_flags tt by_id [] changed = ret changed"
| "apply_folder_flags tt by_id (fe # fes) changed =
    bindE (liftE (tt_parse_folder tt (fed_token fe))) (\<lambda>fid.
    case by_id fid of
      None \<Rightarrow> apply_folder_flags tt by_id fes changed
    | Some flag \<Rightarrow>
        if flag \<noteq> fed_enabled fe
        then bindE (to_server_err (folder_set_enabled fid (fed_enabled fe))) (\<lambda>_. apply_folder_flags tt by_id fes True)
        else apply_folder_flags tt by_id fes changed)"

definition set_account_folders_enabled ::
  "token_texts \<Rightarrow> account_env \<Rightarrow> 'z app_world_scheme imap_port \<Rightarrow> AuthUser option \<Rightarrow> string \<Rightarrow>
   FolderEnabledDto list \<Rightarrow> ('z, unit) af"
where
  "set_account_folders_enabled tt env port cur account_token folders =
    bindE (authenticated_user cur) (\<lambda>user.
    bindE (liftE (tt_parse_account tt account_token)) (\<lambda>i.
    bindE (to_server_err (get_account (au_id user) i)) (\<lambda>account.
    bindE (requireE (list_ex fed_enabled folders) ''At least one folder must be enabled.'') (\<lambda>_.
    bindE (to_server_err (list_folders i)) (\<lambda>current.
    bindE (apply_folder_flags tt (map_of (rev (map (\<lambda>f. (fld_id f, fld_enabled f)) current))) folders False) (\<lambda>changed.
    if changed \<and> acc_enabled account then
      bindE (to_server_err (stop_account port i)) (\<lambda>_. to_server_err (start_account env port i))
    else ret ()))))))"

end
