(* ===== verification/Stats.thy ===== *)
theory Stats
  imports ServerHelpers Folders
begin

text \<open>
  Archive statistics (\<open>crates/core/src/stats\<close>, \<open>crates/database/src/adapters/stats.rs\<close>):
  the four aggregate statements over the accounts of one user, in one read-only transaction.
  Sums that leave the range of an SQL integer are not modelled.
\<close>

record ArchiveStats =
  as_message_count :: u64
  as_attachment_count :: u64
  as_storage_bytes :: u64
  as_account_count :: u64
  as_last_synced_at :: "time option"

definition message_totals :: "UserId \<Rightarrow> db \<Rightarrow> nat \<times> int \<times> int" where
  "message_totals u d =
    (let mine = filter (\<lambda>m. user_owns u (msg_account_id m) d) (tbl_messages d)
     in (length mine, sum_list (map msg_size_bytes mine), sum_list (map msg_attachment_count mine)))"

text \<open>One row per account, content and size: shared attachments are stored once.\<close>

definition attachment_bytes :: "UserId \<Rightarrow> db \<Rightarrow> int" where
  "attachment_bytes u d =
    sum_list (map (\<lambda>(a, h, size). size)
      (remdups (map (\<lambda>a. (att_account_id a, att_content_hash a, att_size_bytes a))
        (filter (\<lambda>a. user_owns u (att_account_id a) d) (tbl_attachments d)))))"

definition account_total :: "UserId \<Rightarrow> db \<Rightarrow> nat" where
  "account_total u d = length (filter (\<lambda>a. acc_user_id a = u) (tbl_accounts d))"

definition newest_sync :: "UserId \<Rightarrow> db \<Rightarrow> time option" where
  "newest_sync u d =
    (case List.map_filter fld_last_synced_at (filter (\<lambda>f. user_owns u (fld_account_id f) d) (tbl_folders d)) of
       [] \<Rightarrow> None
     | t # ts \<Rightarrow> Some (foldl max t ts))"

definition stats_archive :: "UserId \<Rightarrow> ('z, ArchiveStats) dbm" where
  "stats_archive u =
    bindE (query (message_totals u)) (\<lambda>(message_count, message_bytes, attachment_count).
    bindE (query (attachment_bytes u)) (\<lambda>att_bytes.
    bindE (query (account_total u)) (\<lambda>account_count.
    bindE (query (newest_sync u)) (\<lambda>last_synced_at.
    ret \<lparr>as_message_count = of_nat message_count, as_attachment_count = of_int attachment_count,
         as_storage_bytes = of_int (message_bytes + att_bytes), as_account_count = of_nat account_count,
         as_last_synced_at = last_synced_at\<rparr>))))"

definition archive_stats :: "UserId \<Rightarrow> ('z, ArchiveStats) dbm" where
  "archive_stats u = read_only_transaction (stats_archive u)"

end
