(* ===== verification/WebMail.thy ===== *)
theory WebMail
  imports WebAccounts Stats SearchService
begin

text \<open>
  The pages that read the archive (\<open>crates/frontend/src/routes/home_page\<close>,
  \<open>components/message_row.rs\<close>): the message list, search results, the viewer with the
  document it renders, and the statistics panel. \<open>None\<close> as the value of the viewer stands
  for the panic of the renderer.
\<close>

section \<open>Rows\<close>

text \<open>Tokens of messages and attachments, beside those of accounts and folders.\<close>

record mail_tokens =
  mt_message :: "MessageId \<Rightarrow> string"
  mt_parse_message :: "string \<Rightarrow> string + MessageId"
  mt_attachment :: "u64 \<Rightarrow> string"

record MessageRowDto =
  mrd_token :: string
  mrd_from_name :: "string option"
  mrd_from_address :: string
  mrd_subject :: "string option"
  mrd_snippet :: string
  mrd_sent_at_display :: "string option"
  mrd_has_attachments :: bool
  mrd_attachment_count :: int

definition message_to_row :: "mail_tokens \<Rightarrow> time \<Rightarrow> Message \<Rightarrow> MessageRowDto" where
  "message_to_row mt now m =
    \<lparr>mrd_token = mt_message mt (msg_id m), mrd_from_name = msg_from_name m, mrd_from_address = msg_from_address m,
     mrd_subject = msg_subject m, mrd_snippet = msg_snippet m,
     mrd_sent_at_display = map_option (\<lambda>t. relative_time t now) (msg_sent_date m),
     mrd_has_attachments = msg_has_attachments m, mrd_attachment_count = msg_attachment_count m\<rparr>"

definition PAGE_SIZE :: u32 where
  "PAGE_SIZE = 50"

definition SEARCH_PAGE_SIZE :: u32 where
  "SEARCH_PAGE_SIZE = 25"

definition list_messages ::
  "token_texts \<Rightarrow> mail_tokens \<Rightarrow> AuthUser option \<Rightarrow> string \<Rightarrow> u32 \<Rightarrow> u32 \<Rightarrow> ('z tx_scheme, string, MessageRowDto list) action"
where
  "list_messages tt mt cur account_token limit offset =
    bindE (authenticated_user cur) (\<lambda>user.
    bindE (liftE (tt_parse_account tt account_token)) (\<lambda>i.
    bindE (to_server_err (get_account (au_id user) i)) (\<lambda>_.
    bindE (to_server_err (list_messages_for_account i limit offset)) (\<lambda>messages.
    bindE (to_server_err utc_now) (\<lambda>now.
    ret (map (message_to_row mt now) messages))))))"

section \<open>Search results\<close>

definition order_rows_by_hits :: "mail_tokens \<Rightarrow> time \<Rightarrow> SearchHit list \<Rightarrow> Message list \<Rightarrow> MessageRowDto list" where
  "order_rows_by_hits mt now hits messages =
    (let by_id = map_of (rev (map (\<lambda>m. (msg_id m, m)) messages))
     in map (message_to_row mt now) (List.map_filter (\<lambda>h. by_id (sh_message_id h)) hits))"

definition search_messages ::
  "search_env \<Rightarrow> mail_tokens \<Rightarrow> AuthUser option \<Rightarrow> string \<Rightarrow> u32 \<Rightarrow> u32 \<Rightarrow> ('z, MessageRowDto list \<times> u32) af"
where
  "search_messages env mt cur query_text limit offset =
    bindE (authenticated_user cur) (\<lambda>user.
    bindE (to_server_err (search env (au_id user) query_text limit offset)) (\<lambda>results.
    let hit_count = of_nat (length (sr_hits results)); ids = map sh_message_id (sr_hits results) in
    bindE (to_server_err (get_messages_by_ids (au_id user) ids)) (\<lambda>msgs.
    bindE (to_server_err utc_now) (\<lambda>now.
    ret (order_rows_by_hits mt now (sr_hits results) msgs, hit_count)))))"

section \<open>The viewer\<close>

record AttachmentDto =
  atd_token :: string
  atd_filename :: "string option"
  atd_content_type :: string
  atd_size_bytes :: int

record MessageViewDto =
  mvd_token :: string
  mvd_subject :: "string option"
  mvd_from :: string
  mvd_to :: "string list"
  mvd_cc :: "string list"
  mvd_date_display :: "string option"
  mvd_body_html :: "string option"
  mvd_body_text :: "string option"
  mvd_has_remote_content :: bool
  mvd_attachments :: "AttachmentDto list"

definition display_addr :: "NamedAddress \<Rightarrow> string" where
  "display_addr a = (case na_name a of Some n \<Rightarrow> n | None \<Rightarrow> na_address a)"

definition attachment_to_dto :: "mail_tokens \<Rightarrow> MessageAttachment \<Rightarrow> AttachmentDto" where
  "attachment_to_dto mt a =
    \<lparr>atd_token = mt_attachment mt (att_id a), atd_filename = att_filename a, atd_content_type = att_content_type a,
     atd_size_bytes = att_size_bytes a\<rparr>"

definition build_dto ::
  "mail_tokens \<Rightarrow> time \<Rightarrow> Message \<Rightarrow> MessageAttachment list \<Rightarrow> RenderedBody option \<Rightarrow> MessageViewDto"
where
  "build_dto mt now message attachments rendered =
    (let (body_html, body_text, has_remote_content) =
       (case rendered of Some r \<Rightarrow> (rb_html r, rb_text r, rb_has_remote_content r) | None \<Rightarrow> (None, None, False))
     in \<lparr>mvd_token = mt_message mt (msg_id message), mvd_subject = msg_subject message,
         mvd_from = (case msg_from_name message of Some n \<Rightarrow> n | None \<Rightarrow> msg_from_address message),
         mvd_to = map display_addr (msg_to_addresses message), mvd_cc = map display_addr (msg_cc_addresses message),
         mvd_date_display = map_option (\<lambda>t. relative_time t now) (msg_sent_date message),
         mvd_body_html = body_html, mvd_body_text = body_text, mvd_has_remote_content = has_remote_content,
         mvd_attachments = map (attachment_to_dto mt) attachments\<rparr>)"

text \<open>Decryption on demand: a missing blob is a view without a body, any other failure an error.\<close>

definition rendered_body ::
  "mail_env \<Rightarrow> storage \<Rightarrow> Message \<Rightarrow> bool \<Rightarrow> ('z world_scheme, string, RenderedBody option option) action"
where
  "rendered_body env raw message load_remote =
    handleE (blob_get raw (msg_account_id message) (msg_content_hash message))
      (\<lambda>bytes.
        case render_message_for_display env bytes load_remote of
          None \<Rightarrow> ret None
        | Some (Inl e) \<Rightarrow> throw (error_text e)
        | Some (Inr body) \<Rightarrow> ret (Some (Some body)))
      (\<lambda>e. case e of BlobNotFound _ _ \<Rightarrow> ret (Some None) | _ \<Rightarrow> throw (error_text e))"

definition view_message ::
  "mail_env \<Rightarrow> storage \<Rightarrow> mail_tokens \<Rightarrow> AuthUser option \<Rightarrow> string \<Rightarrow> bool \<Rightarrow>
   ('z world_scheme, string, MessageViewDto option) action"
where
  "view_message env raw mt cur token load_remote =
    bindE (authenticated_user cur) (\<lambda>user.
    bindE (liftE (mt_parse_message mt token)) (\<lambda>msg_token.
    bindE (to_server_err (get_message_with_attachments (au_id user) msg_token)) (\<lambda>found.
    bindE (some_or ''message not found'' found) (\<lambda>(message, attachments).
    bindE (rendered_body env raw message load_remote) (\<lambda>rendered.
    case rendered of
      None \<Rightarrow> ret None
    | Some body \<Rightarrow> bindE (to_server_err utc_now) (\<lambda>now. ret (Some (build_dto mt now message attachments body))))))))"

text \<open>The document of the frame; double quotes are characters of it.\<close>

definition img_src :: "bool \<Rightarrow> string" where
  "img_src load_remote =
    (if load_remote then ''img-src 'self' data: https: http:'' else ''img-src 'self' data:'')"

definition attr :: "string \<Rightarrow> string \<Rightarrow> string" where
  "attr name v = name @ [CHR ''='', CHR 0x22] @ v @ [CHR 0x22]"

definition build_srcdoc :: "string \<Rightarrow> bool \<Rightarrow> string" where
  "build_srcdoc body_html load_remote =
    ''<!doctype html><html><head><meta '' @ attr ''charset'' ''utf-8'' @ ''><meta '' @
    attr ''http-equiv'' ''Content-Security-Policy'' @ '' '' @
    attr ''content'' (''default-src 'none'; base-uri 'none'; '' @ img_src load_remote @ ''; font-src 'self'' @ [CHR 0x27]) @ ''><base '' @
    attr ''target'' ''_blank'' @ ''><meta '' @ attr ''name'' ''color-scheme'' @ '' '' @ attr ''content'' ''light'' @
    ''></head><body '' @ attr ''bgcolor'' ''#ffffff'' @ '' '' @ attr ''text'' ''#111827'' @ ''>'' @ body_html @ ''</body></html>''"

section \<open>Statistics\<close>

record ArchiveStatsDto =
  asd_message_count :: u64
  asd_attachment_count :: u64
  asd_storage_bytes :: u64
  asd_account_count :: u64
  asd_stats_last_synced :: "string option"

definition web_archive_stats :: "AuthUser option \<Rightarrow> ('z tx_scheme, string, ArchiveStatsDto) action" where
  "web_archive_stats cur =
    bindE (authenticated_user cur) (\<lambda>user.
    bindE (to_server_err (archive_stats (au_id user))) (\<lambda>stats.
    bindE (to_server_err utc_now) (\<lambda>now.
    ret \<lparr>asd_message_count = as_message_count stats, asd_attachment_count = as_attachment_count stats,
         asd_storage_bytes = as_storage_bytes stats, asd_account_count = as_account_count stats,
         asd_stats_last_synced = map_option (\<lambda>t. relative_time t now) (as_last_synced_at stats)\<rparr>)))"

text \<open>\<open>format_bytes\<close> is a parameter.\<close>

definition stat_cards :: "(u64 \<Rightarrow> string) \<Rightarrow> ArchiveStatsDto \<Rightarrow> (string \<times> string) list" where
  "stat_cards format_bytes dto =
    [(''Messages'', thousands (asd_message_count dto)), (''Storage'', format_bytes (asd_storage_bytes dto)),
     (''Accounts'', thousands (asd_account_count dto)), (''Attachments'', thousands (asd_attachment_count dto))]"

end
