(* ===== verification/Paging.thy ===== *)
theory Paging
  imports WebMail
begin

text \<open>
  The lists of the right panel as the browser keeps them
  (\<open>crates/frontend/src/routes/home_page/message_list.rs\<close>, \<open>search_results.rs\<close>): the
  rows, the busy flag, the error banner and whether the end was reached. A request is answered
  later, by a page or by an error; what was asked for is returned by the handler that asks.
\<close>

section \<open>The message list\<close>

record message_list =
  ml_rows :: "MessageRowDto list"
  ml_error :: "string option"
  ml_loading :: bool
  ml_reached_end :: bool

text \<open>On mount the first page is asked for.\<close>

definition mount_list :: message_list where
  "mount_list = \<lparr>ml_rows = [], ml_error = None, ml_loading = True, ml_reached_end = False\<rparr>"

text \<open>The first page, on mount or after a refresh, replaces the rows.\<close>

definition on_first_page :: "string + MessageRowDto list \<Rightarrow> message_list \<Rightarrow> message_list" where
  "on_first_page answer s =
    (case answer of
       Inr rows \<Rightarrow> s\<lparr>ml_reached_end := (of_nat (length rows) < PAGE_SIZE), ml_rows := rows, ml_loading := False\<rparr>
     | Inl e \<Rightarrow> s\<lparr>ml_error := Some e, ml_loading := False\<rparr>)"

definition on_next_page :: "string + MessageRowDto list \<Rightarrow> message_list \<Rightarrow> message_list" where
  "on_next_page answer s =
    (case answer of
       Inr rows \<Rightarrow> s\<lparr>ml_reached_end := (of_nat (length rows) < PAGE_SIZE), ml_rows := ml_rows s @ rows, ml_loading := False\<rparr>
     | Inl e \<Rightarrow> s\<lparr>ml_error := Some e, ml_loading := False\<rparr>)"

text \<open>The offset asked for, unless a request is under way.\<close>

definition load_more :: "message_list \<Rightarrow> (u32 \<times> message_list) option" where
  "load_more s =
    (if ml_loading s then None
     else Some (of_nat (length (ml_rows s)), s\<lparr>ml_loading := True, ml_error := None\<rparr>))"

definition refresh_list :: "message_list \<Rightarrow> (u32 \<times> message_list) option" where
  "refresh_list s =
    (if ml_loading s then None else Some (0, s\<lparr>ml_loading := True, ml_error := None\<rparr>))"

section \<open>Search results\<close>

record search_list =
  sl_rows :: "MessageRowDto list"
  sl_error :: "string option"
  sl_loading :: bool
  sl_reached_end :: bool
  sl_hit_offset :: u32

definition mount_results :: search_list where
  "mount_results = \<lparr>sl_rows = [], sl_error = None, sl_loading = True, sl_reached_end = False, sl_hit_offset = 0\<rparr>"

definition on_first_hits :: "string + MessageRowDto list \<times> u32 \<Rightarrow> search_list \<Rightarrow> search_list" where
  "on_first_hits answer s =
    (case answer of
       Inr (rows, hit_count) \<Rightarrow>
         s\<lparr>sl_reached_end := (hit_count < SEARCH_PAGE_SIZE), sl_hit_offset := hit_count, sl_rows := rows, sl_loading := False\<rparr>
     | Inl e \<Rightarrow> s\<lparr>sl_error := Some e, sl_loading := False\<rparr>)"

definition on_next_hits :: "string + MessageRowDto list \<times> u32 \<Rightarrow> search_list \<Rightarrow> search_list" where
  "on_next_hits answer s =
    (case answer of
       Inr (rows, hit_count) \<Rightarrow>
         s\<lparr>sl_reached_end := (hit_count < SEARCH_PAGE_SIZE), sl_hit_offset := sl_hit_offset s + hit_count,
           sl_rows := sl_rows s @ rows, sl_loading := False\<rparr>
     | Inl e \<Rightarrow> s\<lparr>sl_error := Some e, sl_loading := False\<rparr>)"

definition load_more_hits :: "search_list \<Rightarrow> (u32 \<times> search_list) option" where
  "load_more_hits s =
    (if sl_loading s then None else Some (sl_hit_offset s, s\<lparr>sl_loading := True, sl_error := None\<rparr>))"

section \<open>The lists among the answers of the server\<close>

text \<open>
  What the browser waits for: nothing, the first page, or the next page from an offset. The tables
  hold \<open>d\<close> throughout; the clock, the failures and everything else of the server differ from
  call to call.
\<close>

datatype awaited = Nothing | FirstPage | NextPage u32

inductive list_session ::
  "token_texts \<Rightarrow> mail_tokens \<Rightarrow> AuthUser option \<Rightarrow> string \<Rightarrow> db \<Rightarrow> nat \<Rightarrow> awaited \<times> message_list \<Rightarrow> bool"
for tt mt cur account_token d where
  mounted: "list_session tt mt cur account_token d 0 (FirstPage, mount_list)"
| first_page: "list_session tt mt cur account_token d k (FirstPage, s) \<Longrightarrow> tx_db (w :: tx) = d \<Longrightarrow>
    fst (list_messages tt mt cur account_token PAGE_SIZE 0 w) = Inr rows \<Longrightarrow>
    list_session tt mt cur account_token d 1 (Nothing, on_first_page (Inr rows) s)"
| next_page: "list_session tt mt cur account_token d k (NextPage offset, s) \<Longrightarrow> tx_db (w :: tx) = d \<Longrightarrow>
    fst (list_messages tt mt cur account_token PAGE_SIZE offset w) = Inr rows \<Longrightarrow>
    list_session tt mt cur account_token d (Suc k) (Nothing, on_next_page (Inr rows) s)"
| first_failed: "list_session tt mt cur account_token d k (FirstPage, s) \<Longrightarrow>
    list_session tt mt cur account_token d k (Nothing, on_first_page (Inl e) s)"
| next_failed: "list_session tt mt cur account_token d k (NextPage offset, s) \<Longrightarrow>
    list_session tt mt cur account_token d k (Nothing, on_next_page (Inl e) s)"
| more: "list_session tt mt cur account_token d k (Nothing, s) \<Longrightarrow> load_more s = Some (offset, s') \<Longrightarrow>
    list_session tt mt cur account_token d k (NextPage offset, s')"
| refreshed: "list_session tt mt cur account_token d k (Nothing, s) \<Longrightarrow> refresh_list s = Some (offset, s') \<Longrightarrow>
    list_session tt mt cur account_token d k (FirstPage, s')"

text \<open>The same for search results, whose ranking is \<open>hits\<close> throughout.\<close>

inductive search_session ::
  "search_env \<Rightarrow> mail_tokens \<Rightarrow> AuthUser \<Rightarrow> string \<Rightarrow> db \<Rightarrow> SearchHit list \<Rightarrow> nat \<Rightarrow> awaited \<times> search_list \<Rightarrow> bool"
for env mt a q d hits where
  mounted: "search_session env mt a q d hits 0 (FirstPage, mount_results)"
| first_page: "search_session env mt a q d hits k (FirstPage, s) \<Longrightarrow> tx_db (w :: app_world) = d \<Longrightarrow>
    map_sum id sr_hits (fst (search env (au_id a) q SEARCH_PAGE_SIZE 0 w)) = Inr (page SEARCH_PAGE_SIZE 0 hits) \<Longrightarrow>
    fst (search_messages env mt (Some a) q SEARCH_PAGE_SIZE 0 w) = Inr r \<Longrightarrow>
    search_session env mt a q d hits 1 (Nothing, on_first_hits (Inr r) s)"
| next_page: "search_session env mt a q d hits k (NextPage offset, s) \<Longrightarrow> tx_db (w :: app_world) = d \<Longrightarrow>
    map_sum id sr_hits (fst (search env (au_id a) q SEARCH_PAGE_SIZE offset w)) = Inr (page SEARCH_PAGE_SIZE offset hits) \<Longrightarrow>
    fst (search_messages env mt (Some a) q SEARCH_PAGE_SIZE offset w) = Inr r \<Longrightarrow>
    search_session env mt a q d hits (Suc k) (Nothing, on_next_hits (Inr r) s)"
| first_failed: "search_session env mt a q d hits k (FirstPage, s) \<Longrightarrow>
    search_session env mt a q d hits k (Nothing, on_first_hits (Inl e) s)"
| next_failed: "search_session env mt a q d hits k (NextPage offset, s) \<Longrightarrow>
    search_session env mt a q d hits k (Nothing, on_next_hits (Inl e) s)"
| more: "search_session env mt a q d hits k (Nothing, s) \<Longrightarrow> load_more_hits s = Some (offset, s') \<Longrightarrow>
    search_session env mt a q d hits k (NextPage offset, s')"

end
