(* ===== verification/WebAccountProps.thy ===== *)
theory WebAccountProps
  imports WebAccounts UserProps ImapAccountProps
begin

text \<open>
  The server functions about accounts act within the user of the request: whatever fails and
  whatever the browser sends, the mail of every other user is left as it is.
\<close>

section \<open>The part of the tables that is not a user's\<close>

definition mine_message :: "UserId \<Rightarrow> MessageId \<Rightarrow> db \<Rightarrow> bool" where
  "mine_message u k d \<longleftrightarrow> (\<exists>m \<in> set (tbl_messages d). msg_id m = k \<and> user_owns u (msg_account_id m) d)"

definition mine_folder :: "UserId \<Rightarrow> FolderId \<Rightarrow> db \<Rightarrow> bool" where
  "mine_folder u k d \<longleftrightarrow> (\<exists>f \<in> set (tbl_folders d). fld_id f = k \<and> user_owns u (fld_account_id f) d)"

definition foreign :: "UserId \<Rightarrow> db \<Rightarrow> db" where
  "foreign u d = d\<lparr>
     tbl_accounts := filter (\<lambda>a. acc_user_id a \<noteq> u) (tbl_accounts d),
     tbl_folders := filter (\<lambda>f. \<not> user_owns u (fld_account_id f) d) (tbl_folders d),
     tbl_messages := filter (\<lambda>m. \<not> user_owns u (msg_account_id m) d) (tbl_messages d),
     tbl_locations := filter (\<lambda>l. \<not> mine_message u (loc_message_id l) d \<and> \<not> mine_folder u (loc_folder_id l) d) (tbl_locations d),
     tbl_attachments := filter (\<lambda>a. \<not> mine_message u (att_message_id a) d \<and> \<not> user_owns u (att_account_id a) d)
       (tbl_attachments d)\<rparr>"

text \<open>
  The account \<open>i\<close>, if there is one, is the user's; the folders of \<open>G\<close> are folders of \<open>i\<close>; the
  tables are consistent and the rest is \<open>F\<close>.
\<close>

definition kept :: "UserId \<Rightarrow> db \<Rightarrow> db \<Rightarrow> bool" where
  "kept u F d \<longleftrightarrow> archive_ok d \<and> foreign u d = F"

definition scoped :: "UserId \<Rightarrow> AccountId \<Rightarrow> FolderId set \<Rightarrow> db \<Rightarrow> db \<Rightarrow> bool" where
  "scoped u i G F d \<longleftrightarrow> kept u F d \<and> (\<forall>a \<in> set (tbl_accounts d). acc_id a = i \<longrightarrow> acc_user_id a = u) \<and>
     (\<forall>f \<in> set (tbl_folders d). fld_id f \<in> G \<longrightarrow> fld_account_id f = i)"

lemma user_owns_iff: "user_owns u i d \<longleftrightarrow> (i, u) \<in> set (map (\<lambda>a. (acc_id a, acc_user_id a)) (tbl_accounts d))"
  by (auto simp: user_owns_def)

lemma filter_update_where:
  "(\<And>x. x \<in> set xs \<Longrightarrow> p x \<Longrightarrow> \<not> q x \<and> \<not> q (f x)) \<Longrightarrow> filter q (update_where p f xs) = filter q xs"
  by (induction xs) (auto simp: update_where_def)

definition mail_cleared :: "db \<Rightarrow> db" where
  "mail_cleared d = d\<lparr>tbl_accounts := [], tbl_folders := [], tbl_messages := [], tbl_locations := [], tbl_attachments := []\<rparr>"

lemma foreign_eqI:
  assumes "filter (\<lambda>a. acc_user_id a \<noteq> u) (tbl_accounts d') = filter (\<lambda>a. acc_user_id a \<noteq> u) (tbl_accounts d)"
    and "filter (\<lambda>f. \<not> user_owns u (fld_account_id f) d') (tbl_folders d') = filter (\<lambda>f. \<not> user_owns u (fld_account_id f) d) (tbl_folders d)"
    and "filter (\<lambda>m. \<not> user_owns u (msg_account_id m) d') (tbl_messages d') = filter (\<lambda>m. \<not> user_owns u (msg_account_id m) d) (tbl_messages d)"
    and "filter (\<lambda>l. \<not> mine_message u (loc_message_id l) d' \<and> \<not> mine_folder u (loc_folder_id l) d') (tbl_locations d') =
      filter (\<lambda>l. \<not> mine_message u (loc_message_id l) d \<and> \<not> mine_folder u (loc_folder_id l) d) (tbl_locations d)"
    and "filter (\<lambda>a. \<not> mine_message u (att_message_id a) d' \<and> \<not> user_owns u (att_account_id a) d') (tbl_attachments d') =
      filter (\<lambda>a. \<not> mine_message u (att_message_id a) d \<and> \<not> user_owns u (att_account_id a) d) (tbl_attachments d)"
    and "mail_cleared d' = mail_cleared d"
  shows "foreign u d' = foreign u d"
  using assms(6) unfolding foreign_def assms(1-5) mail_cleared_def by (cases d, cases d') simp

lemma foreign_cong:
  assumes "\<And>i. user_owns u i d' = user_owns u i d"
    and "filter (\<lambda>a. acc_user_id a \<noteq> u) (tbl_accounts d') = filter (\<lambda>a. acc_user_id a \<noteq> u) (tbl_accounts d)"
    and "filter (\<lambda>f. \<not> user_owns u (fld_account_id f) d) (tbl_folders d') = filter (\<lambda>f. \<not> user_owns u (fld_account_id f) d) (tbl_folders d)"
    and "\<And>l. l \<in> set (tbl_locations d) \<Longrightarrow> mine_folder u (loc_folder_id l) d' = mine_folder u (loc_folder_id l) d"
    and "d'\<lparr>tbl_accounts := [], tbl_folders := []\<rparr> = d\<lparr>tbl_accounts := [], tbl_folders := []\<rparr>"
  shows "foreign u d' = foreign u d"
proof -
  have same: "tbl_messages d' = tbl_messages d" "tbl_locations d' = tbl_locations d" "tbl_attachments d' = tbl_attachments d"
    using arg_cong [OF assms(5), of tbl_messages] arg_cong [OF assms(5), of tbl_locations]
      arg_cong [OF assms(5), of tbl_attachments] by simp_all
  have mm: "mine_message u k d' = mine_message u k d" for k
    by (simp add: mine_message_def same assms(1))
  have loc: "filter (\<lambda>l. \<not> mine_message u (loc_message_id l) d \<and> \<not> mine_folder u (loc_folder_id l) d') (tbl_locations d)
      = filter (\<lambda>l. \<not> mine_message u (loc_message_id l) d \<and> \<not> mine_folder u (loc_folder_id l) d) (tbl_locations d)"
    by (rule filter_cong) (auto simp: assms(4))
  show ?thesis
  proof (rule foreign_eqI)
    show "mail_cleared d' = mail_cleared d"
      using arg_cong [OF assms(5), of mail_cleared] by (simp add: mail_cleared_def)
  qed (use assms(2,3) loc in \<open>simp_all add: mm same assms(1)\<close>)
qed

lemma update_account_scoped:
  assumes sc: "scoped u i G F d" and g: "same_account g" and up: "update_account_row i g d = Inr (x, d')"
  shows "scoped u i G F d'"
proof -
  have d': "d' = d\<lparr>tbl_accounts := update_where (\<lambda>x. acc_id x = i) g (tbl_accounts d)\<rparr>"
    using up by (auto simp: update_account_row_def split: option.splits)
  have owner: "acc_user_id a = u" if "a \<in> set (tbl_accounts d)" "acc_id a = i" for a
    using sc that by (simp add: scoped_def)
  have ids: "map (\<lambda>a. (acc_id a, acc_user_id a)) (tbl_accounts d') = map (\<lambda>a. (acc_id a, acc_user_id a)) (tbl_accounts d)"
    unfolding d' using g by (simp add: map_update_where same_account_def)
  have "foreign u d' = foreign u d"
  proof (rule foreign_cong)
    show "user_owns u k d' = user_owns u k d" for k unfolding user_owns_iff ids ..
    then show "mine_folder u k d' = mine_folder u k d" for k by (simp add: mine_folder_def d')
    show "filter (\<lambda>a. acc_user_id a \<noteq> u) (tbl_accounts d') = filter (\<lambda>a. acc_user_id a \<noteq> u) (tbl_accounts d)"
      unfolding d' using owner g by (simp add: filter_update_where same_account_def)
  qed (simp_all add: d')
  moreover have "acc_user_id a = u" if "a \<in> set (tbl_accounts d')" "acc_id a = i" for a
    using that owner g by (auto simp: d' set_update_where same_account_def)
  ultimately show ?thesis
    using sc update_account_ok [OF _ g up] by (simp add: scoped_def kept_def d')
qed

lemma insert_account_scoped:
  assumes sc: "kept u F d" and a: "acc_user_id a = u" and ins: "insert_account_row a d = Inr (x, d')"
  shows "scoped u (acc_id a) {} F d'"
proof -
  have d': "d' = d\<lparr>tbl_accounts := tbl_accounts d @ [a]\<rparr>" and fresh: "\<not> account_exists (acc_id a) d"
    using ins by (auto simp: insert_account_row_def split: if_splits)
  have ok: "archive_ok d" using sc by (simp add: kept_def)
  have owns: "user_owns u k d' \<longleftrightarrow> user_owns u k d \<or> k = acc_id a" for k by (auto simp: user_owns_def d' a)
  have no: "fld_account_id f \<noteq> acc_id a" if "f \<in> set (tbl_folders d)" for f
    using ok fresh that by (auto simp: archive_ok_def mailbox_ok_def folders_ok_def)
  have nom: "msg_account_id m \<noteq> acc_id a" if "m \<in> set (tbl_messages d)" for m
    using ok fresh that by (auto simp: archive_ok_def mailbox_ok_def mail_ok_def messages_ok_def)
  have noa: "att_account_id m \<noteq> acc_id a" if "m \<in> set (tbl_attachments d)" for m
    using ok fresh that by (auto simp: archive_ok_def mailbox_ok_def mail_ok_def attachments_ok_def)
  have mm: "mine_message u k d' = mine_message u k d" and mf: "mine_folder u k d' = mine_folder u k d" for k
    using no nom by (auto simp: mine_message_def mine_folder_def d' owns [unfolded d'])
  have "foreign u d' = foreign u d"
  proof (rule foreign_eqI)
    show "filter (\<lambda>f. \<not> user_owns u (fld_account_id f) d') (tbl_folders d') = filter (\<lambda>f. \<not> user_owns u (fld_account_id f) d) (tbl_folders d)"
      unfolding owns using no by (auto simp: d' intro: filter_cong)
    show "filter (\<lambda>m. \<not> user_owns u (msg_account_id m) d') (tbl_messages d') = filter (\<lambda>m. \<not> user_owns u (msg_account_id m) d) (tbl_messages d)"
      unfolding owns using nom by (auto simp: d' intro: filter_cong)
    show "filter (\<lambda>a. \<not> mine_message u (att_message_id a) d' \<and> \<not> user_owns u (att_account_id a) d') (tbl_attachments d') =
        filter (\<lambda>a. \<not> mine_message u (att_message_id a) d \<and> \<not> user_owns u (att_account_id a) d) (tbl_attachments d)"
      unfolding owns mm using noa by (auto simp: d' intro: filter_cong)
  qed (simp_all add: mm mf, simp_all add: d' a mail_cleared_def)
  moreover have "acc_user_id b = u" if "b \<in> set (tbl_accounts d')" "acc_id b = acc_id a" for b
    using that fresh a by (auto simp: d' account_exists_def)
  ultimately show ?thesis
    using sc insert_account_ok [OF ok ins] by (simp add: scoped_def kept_def)
qed

lemma insert_folder_scoped:
  assumes sc: "scoped u i {} F d" and f: "fld_account_id f = i" and ins: "insert_folder f d = Inr (x, d')"
  shows "scoped u i {} F d'"
proof -
  have d': "d' = d\<lparr>tbl_folders := tbl_folders d @ [f]\<rparr>" and fresh: "\<not> folder_exists (fld_id f) d" and ex: "account_exists i d"
    using ins f by (auto simp: insert_folder_def folder_exists_def split: if_splits)
  have ok: "archive_ok d" using sc by (simp add: scoped_def kept_def)
  have mine: "user_owns u i d" using ex sc by (auto simp: account_exists_def scoped_def user_owns_def)
  have owns: "user_owns u k d' = user_owns u k d" for k by (simp add: user_owns_def d')
  have "foreign u d' = foreign u d"
  proof (rule foreign_cong)
    fix l assume "l \<in> set (tbl_locations d)"
    then have "loc_folder_id l \<noteq> fld_id f"
      using ok fresh by (auto simp: archive_ok_def mailbox_ok_def mail_ok_def locations_ok_def)
    then show "mine_folder u (loc_folder_id l) d' = mine_folder u (loc_folder_id l) d"
      by (auto simp: mine_folder_def d' owns [unfolded d'])
  qed (simp_all add: d' owns [unfolded d'] mine f)
  moreover have "archive_ok d'"
    using ok insert_folder_ok [OF _ ins] by (auto simp: archive_ok_def accounts_ok_def user_exists_def d')
  ultimately show ?thesis using sc by (simp add: scoped_def kept_def d')
qed

lemma update_folder_scoped:
  assumes sc: "scoped u i G F d" and k: "k \<in> G" and g: "same_folder g" and up: "update_folder k g d = Inr (x, d')"
  shows "scoped u i G F d'"
proof -
  have d': "d' = d\<lparr>tbl_folders := update_where (\<lambda>x. fld_id x = k) g (tbl_folders d)\<rparr>"
    using up by (auto simp: update_folder_def split: option.splits)
  have ok: "archive_ok d" using sc by (simp add: scoped_def kept_def)
  have mine: "user_owns u (fld_account_id f) d" if "f \<in> set (tbl_folders d)" "fld_id f = k" for f
    using that ok sc k by (fastforce simp: scoped_def archive_ok_def mailbox_ok_def folders_ok_def account_exists_def user_owns_def)
  have owns: "user_owns u j d' = user_owns u j d" for j by (simp add: user_owns_def d')
  have maps: "map (\<lambda>f. (fld_id f, fld_account_id f)) (tbl_folders d') = map (\<lambda>f. (fld_id f, fld_account_id f)) (tbl_folders d)"
    unfolding d' using g by (simp add: map_update_where same_folder_def)
  have mf: "mine_folder u j e \<longleftrightarrow> (\<exists>p \<in> set (map (\<lambda>f. (fld_id f, fld_account_id f)) (tbl_folders e)). fst p = j \<and> user_owns u (snd p) e)" for j e
    by (auto simp: mine_folder_def)
  have "foreign u d' = foreign u d"
  proof (rule foreign_cong)
    show "mine_folder u j d' = mine_folder u j d" for j unfolding mf maps owns ..
    show "filter (\<lambda>f. \<not> user_owns u (fld_account_id f) d) (tbl_folders d') = filter (\<lambda>f. \<not> user_owns u (fld_account_id f) d) (tbl_folders d)"
      unfolding d' using mine g by (simp add: filter_update_where same_folder_def)
  qed (simp_all add: d' owns [unfolded d'])
  moreover have "archive_ok d'"
    using ok update_folder_ok [OF _ g up] by (auto simp: archive_ok_def accounts_ok_def user_exists_def d')
  moreover have "fld_account_id f = i" if "f \<in> set (tbl_folders d')" "fld_id f \<in> G" for f
    using that sc g by (auto simp: d' set_update_where same_folder_def scoped_def)
  ultimately show ?thesis using sc by (simp add: scoped_def kept_def d')
qed

lemma delete_account_scoped:
  assumes sc: "scoped u i G F d" and del: "delete_account_row i d = Inr (x, d')"
  shows "scoped u i {} F d'"
proof -
  have ok: "archive_ok d" using sc by (simp add: scoped_def kept_def)
  have owner: "acc_user_id a = u" if "a \<in> set (tbl_accounts d)" "acc_id a = i" for a
    using sc that by (simp add: scoped_def)
  have acc: "tbl_accounts d' = delete_where (\<lambda>a. acc_id a = i) (tbl_accounts d)"
    and fld: "tbl_folders d' = delete_where (\<lambda>f. fld_account_id f = i) (tbl_folders d)"
    and msg: "tbl_messages d' = delete_where (\<lambda>m. msg_account_id m = i) (tbl_messages d)"
    using del by (auto simp: delete_account_row_def Let_def)
  have owns: "user_owns u k d' \<longleftrightarrow> user_owns u k d \<and> k \<noteq> i" for k by (auto simp: user_owns_def acc)
  have fi: "user_owns u i d" if "f \<in> set (tbl_folders d)" "fld_account_id f = i" for f
    using that ok owner by (fastforce simp: archive_ok_def mailbox_ok_def folders_ok_def account_exists_def user_owns_def)
  have mi: "user_owns u i d" if "m \<in> set (tbl_messages d)" "msg_account_id m = i" for m
    using that ok owner by (fastforce simp: archive_ok_def mailbox_ok_def mail_ok_def messages_ok_def account_exists_def user_owns_def)
  have ai: "user_owns u i d" if "m \<in> set (tbl_attachments d)" "att_account_id m = i" for m
    using that ok owner by (fastforce simp: archive_ok_def mailbox_ok_def mail_ok_def attachments_ok_def account_exists_def user_owns_def)
  have ids: "f = f'" if "f \<in> set (tbl_folders d)" "f' \<in> set (tbl_folders d)" "fld_id f = fld_id f'" for f f'
    using ok that by (auto simp: archive_ok_def mailbox_ok_def folders_ok_def distinct_map inj_on_def)
  have mids: "m = m'" if "m \<in> set (tbl_messages d)" "m' \<in> set (tbl_messages d)" "msg_id m = msg_id m'" for m m'
    using ok that by (auto simp: archive_ok_def mailbox_ok_def mail_ok_def messages_ok_def distinct_map inj_on_def)
  have "foreign u d' = foreign u d"
  proof (rule foreign_eqI)
    show "filter (\<lambda>a. acc_user_id a \<noteq> u) (tbl_accounts d') = filter (\<lambda>a. acc_user_id a \<noteq> u) (tbl_accounts d)"
      unfolding acc delete_where_def filter_filter using owner by (intro filter_cong) auto
    show "filter (\<lambda>f. \<not> user_owns u (fld_account_id f) d') (tbl_folders d') = filter (\<lambda>f. \<not> user_owns u (fld_account_id f) d) (tbl_folders d)"
      unfolding fld delete_where_def filter_filter owns using fi by (intro filter_cong) auto
    show "filter (\<lambda>m. \<not> user_owns u (msg_account_id m) d') (tbl_messages d') = filter (\<lambda>m. \<not> user_owns u (msg_account_id m) d) (tbl_messages d)"
      unfolding msg delete_where_def filter_filter owns using mi by (intro filter_cong) auto
    let ?gm = "\<lambda>k. \<exists>m \<in> set (tbl_messages d). msg_id m = k \<and> msg_account_id m = i"
    let ?gf = "\<lambda>k. \<exists>f \<in> set (tbl_folders d). fld_id f = k \<and> fld_account_id f = i"
    have mm: "mine_message u k d' \<longleftrightarrow> mine_message u k d \<and> \<not> ?gm k" and gm: "?gm k \<Longrightarrow> mine_message u k d" for k
      using mids mi unfolding mine_message_def owns msg by (auto simp: delete_where_def)
    have mf: "mine_folder u k d' \<longleftrightarrow> mine_folder u k d \<and> \<not> ?gf k" and gf: "?gf k \<Longrightarrow> mine_folder u k d" for k
      using ids fi unfolding mine_folder_def owns fld by (auto simp: delete_where_def)
    have loc: "tbl_locations d' = delete_where (\<lambda>l. ?gm (loc_message_id l) \<or> ?gf (loc_folder_id l)) (tbl_locations d)"
      and att: "tbl_attachments d' = delete_where (\<lambda>a. ?gm (att_message_id a) \<or> att_account_id a = i) (tbl_attachments d)"
      using del by (auto simp: delete_account_row_def Let_def)
    show "filter (\<lambda>l. \<not> mine_message u (loc_message_id l) d' \<and> \<not> mine_folder u (loc_folder_id l) d') (tbl_locations d') =
        filter (\<lambda>l. \<not> mine_message u (loc_message_id l) d \<and> \<not> mine_folder u (loc_folder_id l) d) (tbl_locations d)"
      unfolding loc delete_where_def filter_filter mm mf using gm gf by (intro filter_cong refl) blast
    show "filter (\<lambda>a. \<not> mine_message u (att_message_id a) d' \<and> \<not> user_owns u (att_account_id a) d') (tbl_attachments d') =
        filter (\<lambda>a. \<not> mine_message u (att_message_id a) d \<and> \<not> user_owns u (att_account_id a) d) (tbl_attachments d)"
      unfolding att delete_where_def filter_filter mm owns using gm ai by (intro filter_cong refl) blast
    show "mail_cleared d' = mail_cleared d" using del by (auto simp: mail_cleared_def delete_account_row_def Let_def)
  qed
  then show ?thesis
    using sc delete_account_row_ok [OF ok del] by (auto simp: scoped_def kept_def acc)
qed

section \<open>The operations\<close>

lemma scoped_kept: "scoped u i G F d \<Longrightarrow> kept u F d"
  by (simp add: scoped_def)

lemma scoped_fewer: "scoped u i G F d \<Longrightarrow> scoped u i {} F d"
  by (simp add: scoped_def)

lemma keeps_account_write_scoped [keeps_intros]:
  "same_account g \<Longrightarrow> keeps (scoped u i G F) (account_write i g)"
proof -
  assume "same_account g"
  then have "keeps (scoped u i G F) (execute (update_account_row i (saved_account now v g)))" for now v
    by (intro keeps_execute) (rule update_account_scoped, auto)
  then show ?thesis unfolding account_write_def by (intro keeps_intros)
qed

lemma keeps_scoped_accounts [keeps_intros]:
  "keeps (scoped u i G F) (account_set_status i st err)" "keeps (scoped u i G F) (account_set_enabled i b)"
  unfolding account_set_status_def account_set_enabled_def by (intro keeps_intros; simp)+

lemma keeps_scoped_status [keeps_intros]: "keeps (scoped u i G F) (set_account_status i st err)"
proof -
  have "keeps (scoped u i G F) notify_accounts_changed" by (rule keeps_off_db, intro off_db_intros)
  then show ?thesis unfolding set_account_status_def by (intro keeps_intros)
qed

text \<open>A run whose value decides what holds from then on.\<close>

lemma preserves_gate:
  assumes "preserves I m" and "\<And>s x t. I s \<Longrightarrow> m s = (Inr x, t) \<Longrightarrow> J x t"
    and "\<And>x. preserves (J x) (f x)" and "\<And>x s. J x s \<Longrightarrow> I s"
  shows "preserves I (bindE m f)"
proof (rule preservesI)
  fix s assume I: "I s"
  obtain r t where run: "m s = (r, t)" by fastforce
  show "I (snd (bindE m f s))"
  proof (cases r)
    case (Inl e)
    with run assms(1) I show ?thesis by (auto simp: bindE_def preserves_def dest: spec [of _ s])
  next
    case (Inr x)
    with run assms(2) [OF I] have "J x t" by blast
    with assms(3) have "J x (snd (f x t))" unfolding preserves_def by blast
    with run Inr assms(4) show ?thesis by (simp add: bindE_def)
  qed
qed

lemma preserves_to_server [preserves_intros]: "preserves I m \<Longrightarrow> preserves I (to_server_err m)"
  unfolding to_server_err_def map_errE_def by (intro preserves_intros)

lemma preserves_liftE [preserves_intros]: "preserves I (liftE r)"
  by (cases r) (simp_all add: liftE_def preserves_intros)

lemma preserves_authenticated:
  "(\<And>a. cur = Some a \<Longrightarrow> preserves I (f a)) \<Longrightarrow> preserves I (bindE (authenticated_user cur) f)"
  by (cases cur) (simp_all add: authenticated_user_def preserves_intros)

lemma preserves_liftE_then: "(\<And>x. r = Inr x \<Longrightarrow> preserves I (f x)) \<Longrightarrow> preserves I (bindE (liftE r) f)"
  by (cases r) (simp_all add: liftE_def preserves_intros)

lemma preserves_keeps: "keeps P m \<Longrightarrow> preserves (\<lambda>s. P (tx_db s)) m"
  by (simp add: keeps_def)

lemma keeps_require_then: "(b \<Longrightarrow> keeps P m) \<Longrightarrow> keeps P (bindE (requireE b e) (\<lambda>_. m))"
  by (cases b) (simp_all add: keeps_intros)

lemma owned_scoped:
  fixes s t :: "'z tx_scheme"
  assumes "kept u F (tx_db s)" and "owned_account u i s = (Inr a, t)"
  shows "scoped u i {} F (tx_db t)" and "acc_id a = i"
proof -
  note o = owned_account_Inr [OF assms(2)]
  have "inj_on acc_id (set (tbl_accounts (tx_db s)))"
    using assms(1) by (simp add: kept_def archive_ok_def accounts_ok_def distinct_map)
  then have "b = a" if "b \<in> set (tbl_accounts (tx_db s))" "acc_id b = i" for b
    using that o(2,3) unfolding inj_on_def by auto
  then have "\<forall>b \<in> set (tbl_accounts (tx_db s)). acc_id b = i \<longrightarrow> acc_user_id b = u" using o(4) by blast
  with assms(1) show "scoped u i {} F (tx_db t)" unfolding scoped_def o(1) by simp
  show "acc_id a = i" by (rule o(3))
qed

lemma owned_transaction:
  fixes s t :: "'z tx_scheme" and f :: "Account \<Rightarrow> ('z, 'a) dbm"
  assumes kept: "kept u F (tx_db s)" and run: "transaction (bindE (owned_account u i) f) s = (r, t)"
    and f: "\<And>a. acc_id a = i \<Longrightarrow> keeps (scoped u i {} F) (f a)"
  shows "kept u F (tx_db t)" and "r = Inr x \<Longrightarrow> scoped u i {} F (tx_db t)"
proof -
  have sc: "scoped u i {} F (tx_db t)" if "r = Inr x" for x
  proof -
    from run that obtain s0 s1 :: "'z tx_scheme" where s0: "tx_db s0 = tx_db s" and body: "bindE (owned_account u i) f s0 = (Inr x, s1)"
        and t: "tx_db t = tx_db s1" by (auto elim: transaction_Inr)
    from body obtain a s2 where own: "owned_account u i s0 = (Inr a, s2)" and tail: "f a s2 = (Inr x, s1)"
      by (auto simp: bindE_Inr_iff)
    from owned_scoped [OF _ own] kept s0 have "scoped u i {} F (tx_db s2)" "acc_id a = i" by auto
    from keeps_eqD [OF f [OF this(2)] this(1) tail] t show ?thesis by simp
  qed
  show "r = Inr x \<Longrightarrow> scoped u i {} F (tx_db t)" by (rule sc)
  show "kept u F (tx_db t)"
    using run kept sc by (cases r) (auto dest: transaction_Inl_db scoped_kept)
qed

lemma enabling_scoped:
  fixes s t :: "'z app_world_scheme"
  assumes kept: "kept u F (tx_db s)"
    and run: "(if b then enable_account u i else disable_account u i) s = (r, t)"
  shows "kept u F (tx_db t)" and "r = Inr x \<Longrightarrow> scoped u i {} F (tx_db t)"
proof -
  define st where "st = (if b then PendingFirstSync else Disabled)"
  let ?body = "bindE (owned_account u i) (\<lambda>_. bindE (account_set_enabled i b) (\<lambda>_. account_set_status i st None))
    :: ('z app_world_ext world_ext, unit) dbm"
  have run: "bindE (transaction ?body) (\<lambda>_. notify_accounts_changed) s = (r, t)"
    using run by (cases b) (simp_all add: enable_account_def disable_account_def st_def)
  obtain q s1 where tr: "transaction ?body s = (q, s1)" by fastforce
  have tail: "keeps (scoped u i {} F) (bindE (account_set_enabled i b) (\<lambda>_. account_set_status i st None))"
    by (intro keeps_intros)
  note g = owned_transaction [OF kept tr tail]
  have t: "tx_db t = tx_db s1" and r: "r = Inr x \<Longrightarrow> q = Inr x" for x
    using run tr by (cases q; auto simp: bindE_def notify_accounts_changed_def act_eval)+
  from g(1) t show "kept u F (tx_db t)" by simp
  from g(2) t r show "r = Inr x \<Longrightarrow> scoped u i {} F (tx_db t)" by auto
qed

lemma preserves_enabling:
  "preserves (\<lambda>s. kept u F (tx_db s)) ((if b then enable_account u i else disable_account u i) :: ('z, unit) am)"
proof (rule preservesI)
  fix s :: "'z app_world_scheme"
  assume k: "kept u F (tx_db s)"
  obtain r t where run: "(if b then enable_account u i else disable_account u i) s = (r, t)" by fastforce
  from enabling_scoped(1) [OF k run] run show "kept u F (tx_db (snd ((if b then enable_account u i else disable_account u i) s)))"
    by simp
qed

lemma keeps_reads [keeps_intros]:
  "keeps P list_enabled_accounts" "keeps P (list_enabled_folders i)" "keeps P (list_folders i)" "keeps P (get_account u i)"
proof -
  have ro: "keeps P (read_only_transaction body)" for body :: "('y, 'v) dbm" by (rule keepsI) simp
  show "keeps P list_enabled_accounts" unfolding list_enabled_accounts_def by (rule ro)
  show "keeps P (list_enabled_folders i)" unfolding list_enabled_folders_def by (rule ro)
  show "keeps P (list_folders i)" unfolding list_folders_def by (rule ro)
  show "keeps P (get_account u i)" unfolding get_account_def by (rule ro)
qed

lemma keeps_port [keeps_intros]:
  "keeps P (port_start imap_adapter i p)" "keeps P (port_stop imap_adapter i)"
proof -
  show "keeps P (port_start imap_adapter i p)" by (rule keepsI) (simp add: adapter_start_run)
  show "keeps P (port_stop imap_adapter i)"
    by (rule keeps_off_db) (simp add: imap_adapter_def off_db_intros)
qed

lemma keeps_start_one:
  fixes env :: account_env
  assumes "acc_id a = i"
  shows "keeps (scoped u i G F) (start_one env imap_adapter a :: ('z port_world_ext, unit) am)"
proof -
  have arm: "keeps (scoped u i G F) (case x of Inl e \<Rightarrow> throw e | Inr y \<Rightarrow> g y)"
    if "\<And>y. keeps (scoped u i G F) (g y)" for x :: "Error + 'b" and g :: "'b \<Rightarrow> ('z port_world_ext, unit) am"
    using that by (cases x) (simp_all add: keeps_intros)
  have arm': "keeps (scoped u i G F) (case x of Inl e \<Rightarrow> throw (CredentialsDeserialize e) | Inr y \<Rightarrow> g y)"
    if "\<And>y. keeps (scoped u i G F) (g y)" for x :: "string + 'b" and g :: "'b \<Rightarrow> ('z port_world_ext, unit) am"
    using that by (cases x) (simp_all add: keeps_intros)
  show ?thesis unfolding start_one_def assms by (intro keeps_intros arm arm')
qed

lemma keeps_start_account:
  "keeps (scoped u i G F) (start_account env imap_adapter i :: ('z port_world_ext, unit) am)"
  unfolding keeps_def start_account_def
proof (rule preserves_gate [where J = "\<lambda>a s. acc_id a = i \<and> scoped u i G F (tx_db s)"])
  show "preserves (\<lambda>s. scoped u i G F (tx_db s)) (load_enabled_account i)"
    unfolding load_enabled_account_def keeps_def [symmetric] by (intro keeps_intros)
  fix s t :: "'z port_world_ext app_world_scheme" and a
  assume "scoped u i G F (tx_db s)" "load_enabled_account i s = (Inr a, t)"
  then show "acc_id a = i \<and> scoped u i G F (tx_db t)" using load_enabled_run [of i s "Inr a" t] by simp
next
  fix a
  show "preserves (\<lambda>s. acc_id a = i \<and> scoped u i G F (tx_db s)) (start_one env imap_adapter a)"
    using keeps_start_one [of a i u G F env] by (cases "acc_id a = i") (auto simp: preserves_def keeps_def)
qed simp

text \<open>The server function: enabling or disabling.\<close>

lemma set_account_enabled_kept:
  "preserves (\<lambda>s. kept (au_id a) F (tx_db s))
    (set_account_enabled tt env imap_adapter (Some a) tok b :: ('z port_world_ext, unit) af)"
proof -
  have tail: "preserves (\<lambda>s. kept u F (tx_db s)) (bindE (to_server_err (if b then enable_account u i else disable_account u i))
      (\<lambda>_. to_server_err (if b then start_account env imap_adapter i else stop_account imap_adapter i)) :: ('z port_world_ext, unit) af)"
    for u i
  proof (rule preserves_gate [where J = "\<lambda>_ s. scoped u i {} F (tx_db s)"])
    show "preserves (\<lambda>s. kept u F (tx_db s)) (to_server_err (if b then enable_account u i else disable_account u i))"
      by (intro preserves_to_server preserves_enabling)
    show "preserves (\<lambda>s. scoped u i {} F (tx_db s)) (to_server_err (if b then start_account env imap_adapter i else stop_account imap_adapter i))"
      by (intro preserves_intros preserves_keeps keeps_start_account)
        (simp add: stop_account_def keeps_intros)
  qed (auto simp: to_server_err_Inr scoped_kept intro: enabling_scoped(2))
  show ?thesis
    unfolding set_account_enabled_def using tail [of "au_id a"]
    by (cases b) (auto intro!: preserves_authenticated preserves_liftE_then)
qed

text \<open>Deleting.\<close>

lemma keeps_account_delete_scoped:
  assumes "acc_id a = i"
  shows "keeps (scoped u i {} F) (account_delete a)"
proof -
  have "keeps (scoped u i {} F) (execute (delete_account_row i))"
    by (rule keeps_execute) (rule delete_account_scoped)
  then show ?thesis unfolding account_delete_def assms by (intro keeps_intros)
qed

lemma keeps_delete_account_kept: "keeps (kept u F) (delete_account raw att u i :: ('z, unit) am)"
proof -
  have side: "keeps (kept u F) notify_accounts_changed" "keeps (kept u F) (best_effort (delete_account_blobs st a))"
    "keeps (kept u F) (best_effort (search_delete_account a))"
    for a st by (rule keeps_off_db, intro off_db_intros)+
  have tr: "keeps (kept u F) (transaction (bindE (owned_account u i) account_delete))"
    unfolding keeps_def by (rule preservesI)
      (rule owned_transaction(1) [OF _ surjective_pairing keeps_account_delete_scoped])
  show ?thesis unfolding delete_account_def by (intro keeps_bindE tr side)
qed

lemma web_delete_account_kept:
  "preserves (\<lambda>s. kept (au_id a) F (tx_db s))
    (web_delete_account tt raw att imap_adapter (Some a) tok :: ('z port_world_ext, unit) af)"
  unfolding web_delete_account_def stop_account_def
  by (intro preserves_authenticated preserves_liftE_then preserves_to_server preserves_bindE)
    (auto intro!: preserves_keeps keeps_intros keeps_delete_account_kept)

text \<open>Creating.\<close>

lemma create_account_scoped:
  fixes s t :: "'z app_world_scheme"
  assumes kept: "kept u F (tx_db s)" and run: "create_account env p s = (r, t)" and p: "cap_user_id p = u"
  shows "kept u F (tx_db t)" and "r = Inr x \<Longrightarrow> scoped u (acc_id x) {} F (tx_db t)"
proof -
  define row where "row token credentials = \<lparr>nac_token = token, nac_user_id = cap_user_id p, nac_display_name = cap_display_name p,
       nac_email_address = cap_email_address p, nac_server = cap_server p, nac_username = cap_username p,
       nac_credentials = credentials\<rparr>" for token credentials
  have side: "keeps (kept u F) (encrypt_password env a pw)" "keeps (kept u F) notify_accounts_changed" for a pw
    by (rule keeps_off_db, intro off_db_intros)+
  have "keeps (kept u F) (execute (insert_account_row (new_account now (row token credentials))))" for now token credentials
    by (rule keeps_execute) (auto simp: row_def new_account_def p dest!: insert_account_scoped [rotated 2] scoped_kept)
  then have "keeps (kept u F) (create_account env p :: ('z, Account) am)"
    unfolding create_account_def account_insert_def row_def [symmetric] by (intro keeps_intros side)
  from keeps_eqD [OF this kept run] show "kept u F (tx_db t)" .
  assume "r = Inr x"
  with run obtain token c and s1 s2 s3 :: "'z app_world_scheme" where g: "generate_token s = (Inr token, s1)"
      and e: "encrypt_password env token (cap_password p) s1 = (Inr c, s2)"
      and tr: "transaction (account_insert (row token c)) s2 = (Inr x, s3)" and t: "tx_db t = tx_db s3"
    by (auto simp: create_account_def row_def bindE_Inr_iff checkE_def notify_accounts_changed_def act_eval split: option.splits)
  have "kept u F (tx_db s2)"
    using keeps_eqD [OF side(1) _ e] keeps_eqD [where P = "kept u F", OF keeps_generate_token kept g] by blast
  moreover from tr obtain s4 s5 :: "'z app_world_scheme" where s4: "tx_db s4 = tx_db s2"
      and ins: "account_insert (row token c) s4 = (Inr x, s5)" and s5: "tx_db s3 = tx_db s5" by (auto elim: transaction_Inr)
  from ins obtain now where "execute (insert_account_row (new_account now (row token c))) s4 = (Inr x, s5)"
    by (auto simp: account_insert_def utc_now_def bindE_Inr_iff act_eval)
  from execute_Inr [OF this] have row: "insert_account_row (new_account now (row token c)) (tx_db s4) = Inr (x, tx_db s5)" by simp
  then have "x = new_account now (row token c)" by (auto simp: insert_account_row_def split: if_splits)
  moreover have "acc_user_id (new_account now (row token c)) = u" by (simp add: new_account_def row_def p)
  ultimately show "scoped u (acc_id x) {} F (tx_db t)"
    using insert_account_scoped [OF _ _ row] s4 s5 t by simp
qed

lemma keeps_create_folders_scoped: "keeps (scoped u i {} F) (create_folders_for_account i reqs)"
proof -
  have ins: "keeps (scoped u i {} F) (bindE (requireE (nf_account_id row = i) e) (\<lambda>_. execute (insert_folder (new_folder now row))))"
    for row e now
    by (intro keeps_require_then keeps_execute) (rule insert_folder_scoped, auto simp: new_folder_def)
  show ?thesis unfolding create_folders_for_account_def folder_create_many_def
    by (intro keeps_bindE keeps_mapE keeps_generate_token keeps_ret keeps_transaction keeps_requireE keeps_utc_now ins)
qed

lemma create_account_and_start_kept:
  "preserves (\<lambda>s. kept (au_id a) F (tx_db s))
    (create_account_and_start tt env imap_adapter (Some a) payload :: ('z port_world_ext, AccountSummaryDto) af)"
proof -
  have tail: "preserves (\<lambda>s. kept u F (tx_db s)) (bindE (to_server_err (create_account env p)) (\<lambda>account.
      bindE (to_server_err (create_folders_for_account (acc_id account) reqs)) (\<lambda>_.
      bindE (to_server_err (start_account env imap_adapter (acc_id account))) (\<lambda>_. ret (f account)))) :: ('z port_world_ext, AccountSummaryDto) af)"
    if p: "cap_user_id p = u" for p u reqs f
  proof (rule preserves_gate [where J = "\<lambda>x s. scoped u (acc_id x) {} F (tx_db s)"])
    show "preserves (\<lambda>s. kept u F (tx_db s)) (to_server_err (create_account env p))"
      by (intro preserves_to_server preservesI) (rule create_account_scoped(1) [OF _ surjective_pairing p])
    show "preserves (\<lambda>s. scoped u (acc_id x) {} F (tx_db s)) (bindE (to_server_err (create_folders_for_account (acc_id x) reqs)) (\<lambda>_.
      bindE (to_server_err (start_account env imap_adapter (acc_id x))) (\<lambda>_. ret (f x))))" for x
      by (intro preserves_bindE preserves_to_server preserves_ret preserves_keeps keeps_create_folders_scoped keeps_start_account)
  qed (auto simp: to_server_err_Inr scoped_kept intro: create_account_scoped(2) [OF _ _ p])
  show ?thesis unfolding create_account_and_start_def
    by (intro preserves_authenticated preserves_bindE [of _ "to_server_err (liftE _)"] preserves_to_server preserves_liftE tail) simp
qed

text \<open>Choosing the folders.\<close>

lemma keeps_set_folder_scoped:
  assumes "k \<in> G"
  shows "keeps (scoped u i G F) (folder_set_enabled k b)"
proof -
  have "keeps (scoped u i G F) (execute (update_folder k (saved_folder now v (\<lambda>f. f\<lparr>fld_enabled := b\<rparr>))))" for now v
    by (rule keeps_execute) (rule update_folder_scoped, use assms in auto)
  then show ?thesis unfolding folder_set_enabled_def update_enabled_def folder_update_def by (intro keeps_intros)
qed

lemma apply_folder_flags_scoped:
  assumes "\<And>k flag. by_id k = Some flag \<Longrightarrow> k \<in> G"
  shows "preserves (\<lambda>s. scoped u i G F (tx_db s)) (apply_folder_flags tt by_id fes changed :: ('z, bool) af)"
proof (induction fes arbitrary: changed)
  case Nil
  then show ?case by (simp add: preserves_intros)
next
  case (Cons fe fes)
  have "preserves (\<lambda>s. scoped u i G F (tx_db s)) ((case by_id k of
      None \<Rightarrow> apply_folder_flags tt by_id fes changed
    | Some flag \<Rightarrow>
        if flag \<noteq> fed_enabled fe
        then bindE (to_server_err (folder_set_enabled k (fed_enabled fe))) (\<lambda>_. apply_folder_flags tt by_id fes True)
        else apply_folder_flags tt by_id fes changed) :: ('z, bool) af)" for k
  proof (cases "by_id k")
    case None
    with Cons show ?thesis by simp
  next
    case (Some flag)
    note k = assms [OF Some]
    have "preserves (\<lambda>s. scoped u i G F (tx_db s)) (to_server_err (folder_set_enabled k b) :: ('z, unit) af)" for b
      by (intro preserves_to_server preserves_keeps keeps_set_folder_scoped k)
    with Some Cons show ?thesis by (auto intro: preserves_bindE)
  qed
  then show ?case by (simp add: preserves_liftE_then)
qed

lemma list_folders_granted:
  fixes s t :: "'z tx_scheme"
  assumes "list_folders i s = (Inr fs, t)"
  shows "tx_db t = tx_db s" and "fs = filter (\<lambda>f. fld_account_id f = i) (tbl_folders (tx_db s))"
proof -
  from assms show "tx_db t = tx_db s" using read_only_db unfolding list_folders_def by (metis snd_conv)
  from assms show "fs = filter (\<lambda>f. fld_account_id f = i) (tbl_folders (tx_db s))"
    by (auto simp: list_folders_def folder_list_for_account_def bindE_Inr_iff [of "requireE _ _"] requireE_apply
        elim!: read_only_Inr dest!: query_Inr split: if_splits)
qed

lemma get_account_scoped:
  fixes s t :: "'z tx_scheme"
  assumes "kept u F (tx_db s)" and "get_account u i s = (Inr a, t)"
  shows "scoped u i {} F (tx_db t)"
proof -
  from assms(2) obtain s0 s1 :: "'z tx_scheme" where s0: "tx_db s0 = tx_db s" and own: "owned_account u i s0 = (Inr a, s1)"
    unfolding get_account_def by (auto elim: read_only_Inr)
  have "tx_db t = tx_db s" using assms(2) read_only_db unfolding get_account_def by (metis snd_conv)
  with owned_scoped(1) [OF _ own] owned_account_Inr(1) [OF own] s0 assms(1) show ?thesis by simp
qed

lemma set_account_folders_kept:
  "preserves (\<lambda>s. kept (au_id a) F (tx_db s))
    (set_account_folders_enabled tt env imap_adapter (Some a) tok fes :: ('z port_world_ext, unit) af)"
proof -
  let ?i = "\<lambda>G s. scoped (au_id a) i G F (tx_db (s :: 'z port_world_ext app_world_scheme))"
  have rest: "preserves (\<lambda>s. scoped u i {} F (tx_db s)) (bindE (to_server_err (list_folders i)) (\<lambda>current.
      bindE (apply_folder_flags tt (map_of (rev (map (\<lambda>f. (fld_id f, fld_enabled f)) current))) fes False) (\<lambda>changed.
      if changed \<and> acc_enabled account then
        bindE (to_server_err (stop_account imap_adapter i)) (\<lambda>_. to_server_err (start_account env imap_adapter i))
      else ret ())) :: ('z port_world_ext, unit) af)" for u i account
  proof (rule preserves_gate [where J = "\<lambda>current s. scoped u i (fld_id ` set current) F (tx_db s)"])
    show "preserves (\<lambda>s. scoped u i {} F (tx_db s)) (to_server_err (list_folders i))"
      by (intro preserves_to_server preserves_keeps keeps_intros)
    fix s t :: "'z port_world_ext app_world_scheme" and current
    assume sc: "scoped u i {} F (tx_db s)" and "to_server_err (list_folders i) s = (Inr current, t)"
    then have run: "list_folders i s = (Inr current, t)" by (simp add: to_server_err_Inr)
    note l = list_folders_granted [OF run]
    have "inj_on fld_id (set (tbl_folders (tx_db s)))"
      using sc by (simp add: scoped_def kept_def archive_ok_def mailbox_ok_def folders_ok_def distinct_map)
    then have "fld_account_id f = i" if "f \<in> set (tbl_folders (tx_db s))" "fld_id f \<in> fld_id ` set current" for f
      using that unfolding l(2) inj_on_def by auto
    with sc show "scoped u i (fld_id ` set current) F (tx_db t)" unfolding l(1) by (auto simp: scoped_def)
  next
    fix current
    have "k \<in> fld_id ` set current" if "map_of (rev (map (\<lambda>f. (fld_id f, fld_enabled f)) current)) k = Some flag" for k flag
      using map_of_SomeD [OF that] by auto
    then show "preserves (\<lambda>s. scoped u i (fld_id ` set current) F (tx_db s))
      (bindE (apply_folder_flags tt (map_of (rev (map (\<lambda>f. (fld_id f, fld_enabled f)) current))) fes False) (\<lambda>changed.
      if changed \<and> acc_enabled account then
        bindE (to_server_err (stop_account imap_adapter i)) (\<lambda>_. to_server_err (start_account env imap_adapter i))
      else ret ()) :: ('z port_world_ext, unit) af)"
      unfolding stop_account_def
      by (intro preserves_bindE apply_folder_flags_scoped preserves_if preserves_ret preserves_to_server preserves_keeps
          keeps_start_account keeps_port)
  qed (rule scoped_fewer)
  have "preserves (\<lambda>s. kept u F (tx_db s)) (bindE (to_server_err (get_account u i)) (\<lambda>account.
      bindE (requireE (list_ex fed_enabled fes) ''At least one folder must be enabled.'') (\<lambda>_.
      bindE (to_server_err (list_folders i)) (\<lambda>current.
      bindE (apply_folder_flags tt (map_of (rev (map (\<lambda>f. (fld_id f, fld_enabled f)) current))) fes False) (\<lambda>changed.
      if changed \<and> acc_enabled account then
        bindE (to_server_err (stop_account imap_adapter i)) (\<lambda>_. to_server_err (start_account env imap_adapter i))
      else ret ())))) :: ('z port_world_ext, unit) af)" for u i
  proof (rule preserves_gate [where J = "\<lambda>_ s. scoped u i {} F (tx_db s)"])
    show "preserves (\<lambda>s. kept u F (tx_db s)) (to_server_err (get_account u i))"
      by (intro preserves_to_server preserves_keeps keeps_intros)
  qed (auto simp: to_server_err_Inr intro: get_account_scoped scoped_kept intro!: preserves_bindE [OF _ rest] preserves_requireE)
  then show ?thesis unfolding set_account_folders_enabled_def by (intro preserves_authenticated preserves_liftE_then) simp
qed

text \<open>
  C15. The server functions about accounts act within the user of the request: whatever the browser
  sends and whatever fails, one that runs for a user leaves the accounts, folders, messages,
  locations and attachments of every other user, and the users, settings, sessions and jobs, as
  they are; one without a user leaves everything; and the tables stay consistent.
\<close>

theorem account_functions_scoped:
  fixes s t :: "'z port_world_scheme"
  assumes "archive_ok (tx_db s)"
    and "t \<in> {snd (create_account_and_start tt env imap_adapter cur payload s),
      snd (set_account_enabled tt env imap_adapter cur tok b s),
      snd (web_delete_account tt raw att imap_adapter cur tok s),
      snd (set_account_folders_enabled tt env imap_adapter cur tok fes s)}"
  shows "archive_ok (tx_db t) \<and>
    (case cur of None \<Rightarrow> tx_db t = tx_db s | Some a \<Rightarrow> foreign (au_id a) (tx_db t) = foreign (au_id a) (tx_db s))"
proof (cases cur)
  case None
  with assms show ?thesis
    by (auto simp: create_account_and_start_def set_account_enabled_def web_delete_account_def set_account_folders_enabled_def
        authenticated_user_def throw_apply)
next
  case (Some a)
  have "kept (au_id a) (foreign (au_id a) (tx_db s)) (tx_db s)" using assms(1) by (simp add: kept_def)
  then have step: "kept (au_id a) (foreign (au_id a) (tx_db s)) (tx_db (snd (m s)))"
    if "\<And>F. preserves (\<lambda>s. kept (au_id a) F (tx_db s)) m" for m :: "('z port_world_ext, 'v) af"
    using that unfolding preserves_def by blast
  have "kept (au_id a) (foreign (au_id a) (tx_db s)) (tx_db t)"
    using assms(2) step [OF create_account_and_start_kept] step [OF set_account_enabled_kept] step [OF web_delete_account_kept]
      step [OF set_account_folders_kept] unfolding Some by auto
  with Some show ?thesis by (simp add: kept_def)
qed

section \<open>A witness\<close>

text \<open>User 2 asks for the deletion of account 7, which is user 1's, with the token of that account.\<close>

definition unary_tokens :: token_texts where
  "unary_tokens = \<lparr>tt_account = (\<lambda>i. replicate (unat i) CHR ''x''), tt_parse_account = (\<lambda>s. Inr (of_nat (length s))),
     tt_folder = (\<lambda>i. replicate (unat i) CHR ''x''), tt_parse_folder = (\<lambda>s. Inr (of_nat (length s)))\<rparr>"

definition other_user :: AuthUser where
  "other_user = \<lparr>au_id = 2, au_anonymous = False, au_username = ''bob'', au_permissions = {}\<rparr>"

definition foreign_delete :: "(string + unit) \<times> port_world" where
  "foreign_delete = web_delete_account unary_tokens sample_raw sample_att imap_adapter (Some other_user) ''xxxxxxx'' sample_port"

theorem account_functions_scoped_witness:
  "sample_account \<in> set (tbl_accounts (tx_db (snd foreign_delete))) \<and> archive_ok (tx_db (snd foreign_delete))"
proof -
  have ok: "archive_ok (tx_db sample_port)" using sample_archive_ok by (simp add: sample_port_parts)
  note facts = account_functions_scoped [OF ok, where cur = "Some other_user" and t = "snd foreign_delete" and tt = unary_tokens
      and raw = sample_raw and att = sample_att and tok = "''xxxxxxx''"]
  have "foreign 2 (tx_db (snd foreign_delete)) = foreign 2 (tx_db sample_port)"
    using facts by (simp add: foreign_delete_def other_user_def)
  then have "filter (\<lambda>a. acc_user_id a \<noteq> 2) (tbl_accounts (tx_db (snd foreign_delete))) =
      filter (\<lambda>a. acc_user_id a \<noteq> 2) (tbl_accounts (tx_db sample_port))"
    by (auto simp: foreign_def dest!: arg_cong [of _ _ tbl_accounts])
  also have "\<dots> = [sample_account]" by (simp add: sample_port_parts sample_app_db sample_account_def)
  finally have "sample_account \<in> set (filter (\<lambda>a. acc_user_id a \<noteq> 2) (tbl_accounts (tx_db (snd foreign_delete))))" by simp
  with facts show ?thesis by (simp add: foreign_delete_def)
qed

end
