(* ===== verification/WebMailProps.thy ===== *)
theory WebMailProps
  imports WebMail WebAccountProps SearchServiceProps
begin

text \<open>
  What the reading pages show: nothing but the user's own rows (a request gives the same answer
  whatever other users archive), search results in the order of their rank, and the body of
  every message whose blob is stored.
\<close>

section \<open>Two states that differ in other users' rows\<close>

text \<open>
  \<open>agree P m R\<close>: from two states related by \<open>P\<close>, \<open>m\<close> gives the same result and ends in
  states related by \<open>R\<close> of that result.
\<close>

definition agree ::
  "('s \<Rightarrow> 's \<Rightarrow> bool) \<Rightarrow> ('s, 'e, 'a) action \<Rightarrow> ('e + 'a \<Rightarrow> 's \<Rightarrow> 's \<Rightarrow> bool) \<Rightarrow> bool"
where
  "agree P m R \<longleftrightarrow> (\<forall>s1 s2. P s1 s2 \<longrightarrow> fst (m s1) = fst (m s2) \<and> R (fst (m s1)) (snd (m s1)) (snd (m s2)))"

named_theorems agree_intros \<open>compositional rules of agreement\<close>

lemma agreeI:
  "(\<And>s1 s2. P s1 s2 \<Longrightarrow> fst (m s1) = fst (m s2) \<and> R (fst (m s1)) (snd (m s1)) (snd (m s2))) \<Longrightarrow> agree P m R"
  unfolding agree_def by blast

lemma agreeD: "agree P m R \<Longrightarrow> P s1 s2 \<Longrightarrow> fst (m s1) = fst (m s2) \<and> R (fst (m s1)) (snd (m s1)) (snd (m s2))"
  unfolding agree_def by blast

lemma agree_cases:
  assumes "agree P m R" and "P s1 s2"
  obtains r t1 t2 where "m s1 = (r, t1)" "m s2 = (r, t2)" "R r t1 t2"
  using agreeD [OF assms] by (metis prod.collapse)

lemma agree_bind:
  assumes "agree P m Q" and "\<And>x. agree (Q (Inr x)) (f x) R" and "\<And>e s1 s2. Q (Inl e) s1 s2 \<Longrightarrow> R (Inl e) s1 s2"
  shows "agree P (bindE m f) R"
proof (rule agreeI)
  fix s1 s2
  assume "P s1 s2"
  from assms(1) this obtain r t1 t2 where m: "m s1 = (r, t1)" "m s2 = (r, t2)" "Q r t1 t2" by (rule agree_cases)
  show "fst (bindE m f s1) = fst (bindE m f s2) \<and> R (fst (bindE m f s1)) (snd (bindE m f s1)) (snd (bindE m f s2))"
  proof (cases r)
    case (Inl e)
    with m assms(3) show ?thesis by (simp add: bindE_def)
  next
    case (Inr x)
    with m have q: "Q (Inr x) t1 t2" and b: "bindE m f s1 = f x t1" "bindE m f s2 = f x t2" by (simp_all add: bindE_def)
    show ?thesis unfolding b by (rule agreeD [OF assms(2) q])
  qed
qed

text \<open>Tables related by \<open>D\<close>, and everything else of the state equal.\<close>

definition rel :: "(db \<Rightarrow> db \<Rightarrow> bool) \<Rightarrow> 'z tx_scheme \<Rightarrow> 'z tx_scheme \<Rightarrow> bool" where
  "rel D s1 s2 \<longleftrightarrow> D (tx_db s1) (tx_db s2) \<and> tx_faults s1 = tx_faults s2 \<and> tx_now s1 = tx_now s2 \<and> tx.more s1 = tx.more s2"

lemma agree_ret [agree_intros]: "agree (rel D) (ret x) (\<lambda>_. rel D)"
  by (rule agreeI) (simp add: act_eval)

lemma agree_throw [agree_intros]: "agree (rel D) (throw e) (\<lambda>_. rel D)"
  by (rule agreeI) (simp add: act_eval)

lemma agree_requireE [agree_intros]: "agree (rel D) (requireE b e) (\<lambda>_. rel D)"
  by (rule agreeI) (simp add: requireE_apply)

lemma agree_liftE [agree_intros]: "agree (rel D) (liftE r) (\<lambda>_. rel D)"
  by (cases r) (simp_all add: liftE_def agree_intros)

lemma agree_some_or [agree_intros]: "agree (rel D) (some_or e v) (\<lambda>_. rel D)"
  by (simp add: some_or_def agree_intros split: option.split)

lemma agree_authenticated [agree_intros]: "agree (rel D) (authenticated_user cur) (\<lambda>_. rel D)"
  by (simp add: authenticated_user_def agree_intros split: option.split)

lemma agree_now [agree_intros]: "agree (rel D) utc_now (\<lambda>_. rel D)"
  by (rule agreeI) (simp add: utc_now_def rel_def)

lemma agree_step:
  "agree (rel D) m (\<lambda>_. rel D) \<Longrightarrow> (\<And>x. agree (rel D) (f x) (\<lambda>_. rel D)) \<Longrightarrow> agree (rel D) (bindE m f) (\<lambda>_. rel D)"
  by (rule agree_bind)

lemma agree_db_call: "agree (rel D) db_call (\<lambda>_. rel D)"
  by (rule agreeI) (auto simp: db_call_def rel_def split: list.splits option.splits)

lemma agree_query:
  assumes "\<And>d1 d2. D d1 d2 \<Longrightarrow> f d1 = f d2"
  shows "agree (rel D) (query f) (\<lambda>_. rel D)"
proof -
  have "agree (rel D) (getsE (\<lambda>s. f (tx_db s)) :: ('z, 'a) dbm) (\<lambda>_. rel D)"
    using assms by (intro agreeI) (simp add: rel_def)
  then show ?thesis unfolding query_def by (intro agree_step agree_db_call)
qed

lemma agree_read_only:
  assumes "agree (rel D) m (\<lambda>_. rel (\<lambda>_ _. True))"
  shows "agree (rel D) (read_only_transaction m) (\<lambda>_. rel D)"
proof -
  have "agree (rel D) (\<lambda>s0. case m s0 of (r, s1) \<Rightarrow> (r, s1\<lparr>tx_db := tx_db s0\<rparr>)) (\<lambda>_. rel D)"
  proof (rule agreeI)
    fix s1 s2 :: "'a tx_scheme"
    assume r: "rel D s1 s2"
    from assms r obtain x t1 t2 where "m s1 = (x, t1)" "m s2 = (x, t2)" "rel (\<lambda>_ _. True) t1 t2" by (rule agree_cases)
    with r show "fst (case m s1 of (r, t) \<Rightarrow> (r, t\<lparr>tx_db := tx_db s1\<rparr>)) = fst (case m s2 of (r, t) \<Rightarrow> (r, t\<lparr>tx_db := tx_db s2\<rparr>)) \<and>
        rel D (snd (case m s1 of (r, t) \<Rightarrow> (r, t\<lparr>tx_db := tx_db s1\<rparr>))) (snd (case m s2 of (r, t) \<Rightarrow> (r, t\<lparr>tx_db := tx_db s2\<rparr>)))"
      by (simp add: rel_def)
  qed
  then show ?thesis unfolding read_only_transaction_def by (intro agree_step agree_db_call)
qed

lemma agree_weaken: "agree P m Q \<Longrightarrow> (\<And>r s1 s2. Q r s1 s2 \<Longrightarrow> R r s1 s2) \<Longrightarrow> agree P m R"
  unfolding agree_def by blast

lemma agree_read_only_step:
  "agree (rel D) m (\<lambda>_. rel D) \<Longrightarrow> agree (rel D) (read_only_transaction m) (\<lambda>_. rel D)"
  by (rule agree_read_only) (auto elim: agree_weaken simp: rel_def)

lemma agree_to_server:
  assumes "agree P m (\<lambda>r. case r of Inl _ \<Rightarrow> Q | Inr x \<Rightarrow> R x)"
  shows "agree P (to_server_err m) (\<lambda>r. case r of Inl _ \<Rightarrow> Q | Inr x \<Rightarrow> R x)"
proof (rule agreeI)
  fix s1 s2
  assume "P s1 s2"
  from assms this obtain r t1 t2 where "m s1 = (r, t1)" "m s2 = (r, t2)" "case r of Inl _ \<Rightarrow> Q t1 t2 | Inr x \<Rightarrow> R x t1 t2"
    by (rule agree_cases) (auto split: sum.splits)
  then show "fst (to_server_err m s1) = fst (to_server_err m s2) \<and>
      (case fst (to_server_err m s1) of Inl _ \<Rightarrow> Q | Inr x \<Rightarrow> R x) (snd (to_server_err m s1)) (snd (to_server_err m s2))"
    by (cases r) (simp_all add: to_server_err_def map_errE_def handleE_def act_eval)
qed

lemma agree_to_server_step [agree_intros]:
  "agree (rel D) m (\<lambda>_. rel D) \<Longrightarrow> agree (rel D) (to_server_err m) (\<lambda>_. rel D)"
  using agree_to_server [of "rel D" m "rel D" "\<lambda>_. rel D"] by (auto elim!: agree_weaken split: sum.splits)

section \<open>A user's own rows\<close>

definition own ::
  "UserId \<Rightarrow> db \<Rightarrow> Account list \<times> Folder list \<times> Message list \<times> MessageAttachment list"
where
  "own u d =
    (filter (\<lambda>a. acc_user_id a = u) (tbl_accounts d),
     filter (\<lambda>f. user_owns u (fld_account_id f) d) (tbl_folders d),
     filter (\<lambda>m. user_owns u (msg_account_id m) d) (tbl_messages d),
     filter (\<lambda>a. mine_message u (att_message_id a) d \<or> user_owns u (att_account_id a) d) (tbl_attachments d))"

definition alike :: "UserId \<Rightarrow> db \<Rightarrow> db \<Rightarrow> bool" where
  "alike u d1 d2 \<longleftrightarrow> own u d1 = own u d2"

lemma alike_owns: "alike u d1 d2 \<Longrightarrow> user_owns u i d1 = user_owns u i d2"
proof -
  assume "alike u d1 d2"
  then have "set (filter (\<lambda>a. acc_user_id a = u) (tbl_accounts d1)) = set (filter (\<lambda>a. acc_user_id a = u) (tbl_accounts d2))"
    by (simp add: alike_def own_def)
  then show ?thesis unfolding user_owns_def by auto
qed

lemma alike_parts:
  assumes "alike u d1 d2"
  shows "filter (\<lambda>a. acc_user_id a = u) (tbl_accounts d1) = filter (\<lambda>a. acc_user_id a = u) (tbl_accounts d2)"
    and "filter (\<lambda>f. user_owns u (fld_account_id f) d1) (tbl_folders d1) = filter (\<lambda>f. user_owns u (fld_account_id f) d2) (tbl_folders d2)"
    and "filter (\<lambda>m. user_owns u (msg_account_id m) d1) (tbl_messages d1) = filter (\<lambda>m. user_owns u (msg_account_id m) d2) (tbl_messages d2)"
    and "filter (\<lambda>a. mine_message u (att_message_id a) d1 \<or> user_owns u (att_account_id a) d1) (tbl_attachments d1) =
      filter (\<lambda>a. mine_message u (att_message_id a) d2 \<or> user_owns u (att_account_id a) d2) (tbl_attachments d2)"
  using assms unfolding alike_def own_def prod.inject by blast+

lemma filter_via:
  assumes "filter P xs = filter P' ys" and "\<And>x. p x \<Longrightarrow> P x" and "\<And>x. p x \<Longrightarrow> P' x"
  shows "filter p xs = filter p ys"
proof -
  have "filter p xs = filter p (filter P xs)" using assms(2) unfolding filter_filter by (intro filter_cong) auto
  also have "\<dots> = filter p ys" unfolding assms(1) filter_filter using assms(3) by (intro filter_cong) auto
  finally show ?thesis .
qed

lemma alike_folders: "alike u d1 d2 \<Longrightarrow> (\<And>f. p f \<Longrightarrow> user_owns u (fld_account_id f) d1) \<Longrightarrow>
    filter p (tbl_folders d1) = filter p (tbl_folders d2)"
  by (rule filter_via [OF alike_parts(2)], assumption, simp, metis alike_owns)

lemma alike_messages: "alike u d1 d2 \<Longrightarrow> (\<And>m. p m \<Longrightarrow> user_owns u (msg_account_id m) d1) \<Longrightarrow>
    filter p (tbl_messages d1) = filter p (tbl_messages d2)"
  by (rule filter_via [OF alike_parts(3)], assumption, simp, metis alike_owns)

lemma alike_accounts: "alike u d1 d2 \<Longrightarrow> (\<And>a. p a \<Longrightarrow> acc_user_id a = u) \<Longrightarrow>
    filter p (tbl_accounts d1) = filter p (tbl_accounts d2)"
  by (rule filter_via [OF alike_parts(1)])

lemma alike_mine_message: "alike u d1 d2 \<Longrightarrow> mine_message u k d1 = mine_message u k d2"
proof -
  assume a: "alike u d1 d2"
  have "set (filter (\<lambda>m. user_owns u (msg_account_id m) d1) (tbl_messages d1)) =
      set (filter (\<lambda>m. user_owns u (msg_account_id m) d2) (tbl_messages d2))"
    using alike_parts(3) [OF a] by (rule arg_cong)
  then show ?thesis unfolding mine_message_def by auto
qed

lemma alike_attachments:
  "alike u d1 d2 \<Longrightarrow> (\<And>a. p a \<Longrightarrow> mine_message u (att_message_id a) d1 \<or> user_owns u (att_account_id a) d1) \<Longrightarrow>
    filter p (tbl_attachments d1) = filter p (tbl_attachments d2)"
  by (rule filter_via [OF alike_parts(4)], assumption, simp, metis alike_owns alike_mine_message)

lemma find_row_filter_eq: "find_row p rows = (case filter p rows of [] \<Rightarrow> None | x # _ \<Rightarrow> Some x)"
  by (induction rows) (simp_all add: find_row_def)

section \<open>The reads of the services\<close>

lemma agree_own_query:
  "(\<And>d1 d2. alike u d1 d2 \<Longrightarrow> P d1 \<Longrightarrow> f d1 = f d2) \<Longrightarrow>
    agree (rel (\<lambda>d1 d2. alike u d1 d2 \<and> P d1)) (query f) (\<lambda>_. rel (\<lambda>d1 d2. alike u d1 d2 \<and> P d1))"
  by (rule agree_query) blast

text \<open>A query whose value is known to satisfy something of the tables it was read from.\<close>

lemma agree_query_post:
  assumes "\<And>d1 d2. D d1 d2 \<Longrightarrow> f d1 = f d2" and "\<And>d1 d2. D d1 d2 \<Longrightarrow> E (f d1) d1 d2"
  shows "agree (rel D) (query f) (\<lambda>r. case r of Inl _ \<Rightarrow> rel D | Inr x \<Rightarrow> rel (E x))"
proof -
  have "agree (rel D) (getsE (\<lambda>s. f (tx_db s)) :: ('z, 'a) dbm) (\<lambda>r. case r of Inl _ \<Rightarrow> rel D | Inr x \<Rightarrow> rel (E x))"
    using assms by (intro agreeI) (auto simp: rel_def)
  then show ?thesis unfolding query_def by (rule agree_bind [OF agree_db_call]) simp
qed

definition gated :: "UserId \<Rightarrow> AccountId \<Rightarrow> db \<Rightarrow> db \<Rightarrow> bool" where
  "gated u i d1 d2 \<longleftrightarrow> alike u d1 d2 \<and> user_owns u i d1"

lemma agree_get_account:
  "agree (rel (alike u)) (to_server_err (get_account u i) :: ('z tx_scheme, string, Account) action)
    (\<lambda>r. case r of Inl _ \<Rightarrow> rel (alike u) | Inr _ \<Rightarrow> rel (gated u i))"
proof (rule agree_to_server)
  have same: "find_row (\<lambda>a. acc_id a = i \<and> acc_user_id a = u) (tbl_accounts d1) =
      find_row (\<lambda>a. acc_id a = i \<and> acc_user_id a = u) (tbl_accounts d2)" if "alike u d1 d2" for d1 d2
    unfolding find_row_filter_eq using alike_accounts [OF that, of "\<lambda>a. acc_id a = i \<and> acc_user_id a = u"] by simp
  have "agree (rel (alike u)) (owned_account u i) (\<lambda>_. rel (alike u))"
    unfolding owned_account_def account_find_by_id_for_user_def
    by (intro agree_step agree_requireE agree_query same) (auto intro: agree_intros split: option.split)
  then have run: "agree (rel (alike u)) (get_account u i :: ('z, Account) dbm) (\<lambda>_. rel (alike u))"
    unfolding get_account_def by (rule agree_read_only_step)
  have owns: "user_owns u i (tx_db t)" if run: "get_account u i s = (Inr a, t)" for a and s t :: "'z tx_scheme"
  proof -
    from run obtain s0 s1 :: "'z tx_scheme" where s0: "tx_db s0 = tx_db s" "owned_account u i s0 = (Inr a, s1)"
      unfolding get_account_def by (auto elim: read_only_Inr)
    moreover have "tx_db t = tx_db s" using run read_only_db unfolding get_account_def by (metis snd_conv)
    ultimately show ?thesis using owned_account_Inr(2-4) [OF s0(2)] by (auto simp: user_owns_def)
  qed
  show "agree (rel (alike u)) (get_account u i :: ('z, Account) dbm) (\<lambda>r. case r of Inl _ \<Rightarrow> rel (alike u) | Inr _ \<Rightarrow> rel (gated u i))"
  proof (rule agreeI)
    fix s1 s2 :: "'z tx_scheme"
    assume "rel (alike u) s1 s2"
    from agreeD [OF run this] have "fst (get_account u i s1) = fst (get_account u i s2)"
      "rel (alike u) (snd (get_account u i s1)) (snd (get_account u i s2))" by simp_all
    moreover have "user_owns u i (tx_db (snd (get_account u i s1)))" if "fst (get_account u i s1) = Inr a" for a
      using owns [of s1 a "snd (get_account u i s1)"] that by (simp add: prod_eq_iff)
    ultimately show "fst (get_account u i s1) = fst (get_account u i s2) \<and> (case fst (get_account u i s1) of
        Inl _ \<Rightarrow> rel (alike u) | Inr _ \<Rightarrow> rel (gated u i)) (snd (get_account u i s1)) (snd (get_account u i s2))"
      by (auto simp: rel_def gated_def split: sum.split)
  qed
qed

section \<open>The pages\<close>

lemma agree_authenticated_step:
  assumes "\<And>a. cur = Some a \<Longrightarrow> agree (rel D) (f a) (\<lambda>_. rel D)"
  shows "agree (rel D) (bindE (authenticated_user cur) f) (\<lambda>_. rel D)"
  using assms by (cases cur) (simp_all add: authenticated_user_def agree_intros)

definition signed_in_as :: "UserId \<Rightarrow> AuthUser option \<Rightarrow> bool" where
  "signed_in_as u cur \<longleftrightarrow> (\<forall>a. cur = Some a \<longrightarrow> au_id a = u)"

text \<open>The prefix of the functions about one account: the user, the token, the ownership gate.\<close>

lemma agree_gated:
  assumes "signed_in_as u cur" and "\<And>a i x. agree (rel (gated u i)) (g a i x) (\<lambda>_. rel (gated u i))"
  shows "agree (rel (alike u)) (bindE (authenticated_user cur) (\<lambda>user. bindE (liftE p) (\<lambda>i.
    bindE (to_server_err (get_account (au_id user) i)) (\<lambda>x. g user i x)))) (\<lambda>_. rel (alike u))"
proof (rule agree_authenticated_step, rule agree_step, rule agree_liftE)
  fix a i
  assume "cur = Some a"
  with assms(1) have a: "au_id a = u" by (simp add: signed_in_as_def)
  show "agree (rel (alike u)) (bindE (to_server_err (get_account (au_id a) i)) (\<lambda>x. g a i x)) (\<lambda>_. rel (alike u))"
    unfolding a
  proof (rule agree_bind [OF agree_get_account])
    show "agree (case Inr x of Inl _ \<Rightarrow> rel (alike u) | Inr _ \<Rightarrow> rel (gated u i)) (g a i x) (\<lambda>_. rel (alike u))" for x
      using assms(2) [of i a x] by (simp, elim agree_weaken) (simp add: rel_def gated_def)
  qed simp
qed

lemma agree_list_messages:
  assumes "signed_in_as u cur"
  shows "agree (rel (alike u)) (list_messages tt mt cur tok limit offset) (\<lambda>_. rel (alike u))"
proof -
  have "filter (\<lambda>m. msg_account_id m = i) (tbl_messages d1) = filter (\<lambda>m. msg_account_id m = i) (tbl_messages d2)"
    if "gated u i d1 d2" for i d1 d2
    using that alike_messages [of u d1 d2 "\<lambda>m. msg_account_id m = i"] by (auto simp: gated_def)
  then have "agree (rel (gated u i)) (list_messages_for_account i limit offset) (\<lambda>_. rel (gated u i))" for i
    unfolding list_messages_for_account_def list_for_account_def
    by (intro agree_read_only_step agree_step agree_requireE agree_query) simp
  then show ?thesis
    unfolding list_messages_def by (intro agree_gated [OF assms] agree_step agree_to_server_step agree_now agree_ret)
qed

lemma agree_get_account_folders:
  assumes "signed_in_as u cur"
  shows "agree (rel (alike u)) (get_account_folders tt cur tok) (\<lambda>_. rel (alike u))"
proof -
  have "filter (\<lambda>f. fld_account_id f = i) (tbl_folders d1) = filter (\<lambda>f. fld_account_id f = i) (tbl_folders d2)"
    if "gated u i d1 d2" for i d1 d2
    using that alike_folders [of u d1 d2 "\<lambda>f. fld_account_id f = i"] by (auto simp: gated_def)
  then have "agree (rel (gated u i)) (list_folders i) (\<lambda>_. rel (gated u i))" for i
    unfolding list_folders_def folder_list_for_account_def
    by (intro agree_read_only_step agree_step agree_requireE agree_query) simp
  then show ?thesis
    unfolding get_account_folders_def by (intro agree_gated [OF assms] agree_step agree_to_server_step agree_ret)
qed

lemma agree_archive_stats:
  assumes "signed_in_as u cur"
  shows "agree (rel (alike u)) (web_archive_stats cur) (\<lambda>_. rel (alike u))"
proof -
  have "message_totals u d1 = message_totals u d2" "attachment_bytes u d1 = attachment_bytes u d2"
    "account_total u d1 = account_total u d2" "newest_sync u d1 = newest_sync u d2" if a: "alike u d1 d2" for d1 d2
  proof -
    note ow = alike_owns [OF a, symmetric]
    show "message_totals u d1 = message_totals u d2"
      using alike_messages [OF a, of "\<lambda>m. user_owns u (msg_account_id m) d1"] by (simp add: message_totals_def ow)
    show "attachment_bytes u d1 = attachment_bytes u d2"
      using alike_attachments [OF a, of "\<lambda>x. user_owns u (att_account_id x) d1"] by (simp add: attachment_bytes_def ow)
    show "account_total u d1 = account_total u d2"
      using alike_accounts [OF a, of "\<lambda>x. acc_user_id x = u"] by (simp add: account_total_def)
    show "newest_sync u d1 = newest_sync u d2"
      using alike_folders [OF a, of "\<lambda>f. user_owns u (fld_account_id f) d1"] by (simp add: newest_sync_def ow)
  qed
  then have "agree (rel (alike u)) (archive_stats u) (\<lambda>_. rel (alike u))"
    unfolding archive_stats_def stats_archive_def
    by (intro agree_read_only_step agree_step agree_query) (auto intro!: agree_step agree_query agree_ret)
  with assms show ?thesis
    unfolding web_archive_stats_def signed_in_as_def
    by (intro agree_authenticated_step agree_step agree_to_server_step agree_now agree_ret) simp
qed

lemma agree_read_only_query:
  assumes same: "\<And>d1 d2. D d1 d2 \<Longrightarrow> f d1 = f d2" and E: "\<And>d1 d2. D d1 d2 \<Longrightarrow> E (f d1) d1 d2"
  shows "agree (rel D) (read_only_transaction (query f) :: ('z, 'a) dbm) (\<lambda>r. case r of Inl _ \<Rightarrow> rel D | Inr x \<Rightarrow> rel (E x))"
proof (rule agreeI)
  fix s1 s2 :: "'z tx_scheme"
  assume r: "rel D s1 s2"
  let ?m = "read_only_transaction (query f) :: ('z, 'a) dbm"
  have "agree (rel D) ?m (\<lambda>_. rel D)" by (intro agree_read_only_step agree_query same)
  from agreeD [OF this r] have eq: "fst (?m s1) = fst (?m s2)" and end_rel: "rel D (snd (?m s1)) (snd (?m s2))" by simp_all
  have "x = f (tx_db (snd (?m s1)))" if x: "fst (?m s1) = Inr x" for x
  proof -
    from x have "?m s1 = (Inr x, snd (?m s1))" by (simp add: prod_eq_iff)
    then obtain s0 t :: "'z tx_scheme" where "tx_db s0 = tx_db s1" "query f s0 = (Inr x, t)" by (rule read_only_Inr)
    moreover have "tx_db (snd (?m s1)) = tx_db s1" by (rule read_only_db)
    ultimately show ?thesis using query_Inr by fastforce
  qed
  then show "fst (?m s1) = fst (?m s2) \<and>
      (case fst (?m s1) of Inl _ \<Rightarrow> rel D | Inr x \<Rightarrow> rel (E x)) (snd (?m s1)) (snd (?m s2))"
    using eq end_rel E by (auto simp: rel_def split: sum.split)
qed

lemma agree_weaken_step: "agree (rel E) m (\<lambda>_. rel E) \<Longrightarrow> (\<And>d1 d2. E d1 d2 \<Longrightarrow> D d1 d2) \<Longrightarrow> agree (rel E) m (\<lambda>_. rel D)"
  by (elim agree_weaken) (simp add: rel_def)

lemma agree_web_list_accounts:
  assumes "signed_in_as u cur"
  shows "agree (rel (alike u)) (web_list_accounts tt lower cur) (\<lambda>_. rel (alike u))"
proof -
  let ?E = "\<lambda>as d1 d2. alike u d1 d2 \<and> (\<forall>a \<in> set as. user_owns u (acc_id a) d1)"
  have found: "agree (rel (alike u)) (to_server_err (list_accounts u)) (\<lambda>r. case r of Inl _ \<Rightarrow> rel (alike u) | Inr as \<Rightarrow> rel (?E as))"
    unfolding list_accounts_def account_list_for_user_def
    by (intro agree_to_server agree_read_only_query) (auto simp: user_owns_def intro: alike_accounts)
  have same: "max_last_synced (map acc_id as) d1 = max_last_synced (map acc_id as) d2" if E: "?E as d1 d2" for as d1 d2
  proof
    fix a
    have "filter (\<lambda>f. fld_account_id f = a) (tbl_folders d1) = filter (\<lambda>f. fld_account_id f = a) (tbl_folders d2)"
      if "a \<in> set (map acc_id as)"
      using that E alike_folders [of u d1 d2 "\<lambda>f. fld_account_id f = a"] by auto
    then show "max_last_synced (map acc_id as) d1 a = max_last_synced (map acc_id as) d2 a" by (simp add: max_last_synced_def)
  qed
  have q: "agree (rel (?E as)) (query (max_last_synced (map acc_id as))) (\<lambda>_. rel (?E as))" for as
    by (rule agree_query [where D = "?E as"], rule same)
  have l: "agree (rel (?E as)) (last_synced_by_account (map acc_id as)) (\<lambda>_. rel (?E as))" for as
    unfolding last_synced_by_account_def folder_max_last_synced_by_account_def
    by (intro agree_read_only_step) (simp add: agree_ret q)
  have last: "agree (rel (?E as)) (last_synced_by_account (map acc_id (sort_key k as))) (\<lambda>_. rel (?E as))" for as and k :: "Account \<Rightarrow> string"
    using l [of "sort_key k as"] by (simp only: set_sort)
  show ?thesis
    unfolding web_list_accounts_def Let_def
  proof (rule agree_authenticated_step)
    fix a
    assume "cur = Some a"
    with assms have a: "au_id a = u" by (simp add: signed_in_as_def)
    let ?f = "\<lambda>found. bindE (to_server_err (last_synced_by_account (map acc_id (sort_key (\<lambda>a. lower (acc_display_name a)) found))))
      (\<lambda>last_synced. bindE (to_server_err utc_now) (\<lambda>now.
        ret (map (\<lambda>a. account_to_summary tt now a (last_synced (acc_id a))) (sort_key (\<lambda>a. lower (acc_display_name a)) found))))"
    have "agree (rel (?E x)) (?f x) (\<lambda>_. rel (?E x))" for x
      by (intro agree_step agree_to_server_step last agree_now agree_ret)
    then have "agree (case Inr x of Inl _ \<Rightarrow> rel (alike u) | Inr as \<Rightarrow> rel (?E as)) (?f x) (\<lambda>_. rel (alike u))" for x
      by (auto intro: agree_weaken_step)
    then show "agree (rel (alike u)) (bindE (to_server_err (list_accounts (au_id a))) ?f) (\<lambda>_. rel (alike u))"
      unfolding a by (rule agree_bind [OF found]) simp
  qed
qed

section \<open>The viewer\<close>

lemma agree_io_call: "agree (rel D) (io_call :: ('z, unit) wm) (\<lambda>_. rel D)"
proof (rule agreeI)
  fix s1 s2 :: "'z world_scheme"
  assume "rel D s1 s2"
  then have "w_io s1 = w_io s2" "tx.more s1 = tx.more s2" "D (tx_db s1) (tx_db s2)" "tx_faults s1 = tx_faults s2" "tx_now s1 = tx_now s2"
    by (auto simp: rel_def dest: more_eq_world(3))
  then show "fst (io_call s1) = fst (io_call s2) \<and> rel D (snd (io_call s1)) (snd (io_call s2))"
    by (cases s1, cases s2) (auto simp: io_call_def io_step_def rel_def split: list.splits option.splits)
qed

lemma agree_handle:
  fixes m :: "('z tx_scheme, 'e, 'a) action"
  assumes "agree (rel D) m (\<lambda>_. rel D)" and "\<And>x. agree (rel D) (f x) (\<lambda>_. rel D)" and "\<And>e. agree (rel D) (h e) (\<lambda>_. rel D)"
  shows "agree (rel D) (handleE m f h) (\<lambda>_. rel D)"
proof (rule agreeI)
  fix s1 s2 :: "'z tx_scheme"
  assume "rel D s1 s2"
  from assms(1) this obtain r t1 t2 where m: "m s1 = (r, t1)" "m s2 = (r, t2)" "rel D t1 t2" by (rule agree_cases)
  show "fst (handleE m f h s1) = fst (handleE m f h s2) \<and> rel D (snd (handleE m f h s1)) (snd (handleE m f h s2))"
  proof (cases r)
    case (Inl e)
    with m have b: "handleE m f h s1 = h e t1" "handleE m f h s2 = h e t2" by (simp_all add: handleE_def)
    show ?thesis unfolding b by (rule agreeD [OF assms(3) m(3)])
  next
    case (Inr x)
    with m have b: "handleE m f h s1 = f x t1" "handleE m f h s2 = f x t2" by (simp_all add: handleE_def)
    show ?thesis unfolding b by (rule agreeD [OF assms(2) m(3)])
  qed
qed

lemma agree_rendered_body: "agree (rel D) (rendered_body env raw m b :: ('z world_scheme, string, RenderedBody option option) action) (\<lambda>_. rel D)"
proof -
  have contents: "agree (rel D) (getsE (\<lambda>s :: 'z world_scheme. w_files s p) :: ('z, bytes option) wm) (\<lambda>_. rel D)" for p
    by (rule agreeI) (auto simp: rel_def dest: more_eq_world(2))
  have "agree (rel D) (blob_get raw a h :: ('z, bytes) wm) (\<lambda>_. rel D)" for a h
    unfolding blob_get_def
    by (intro agree_step agree_io_call contents) (auto intro: agree_intros split: option.split sum.split)
  then show ?thesis
    unfolding rendered_body_def
    by (intro agree_handle) (auto intro: agree_intros split: option.split sum.split Error.split)
qed

lemma agree_get_message:
  "agree (rel (alike u)) (get_message_with_attachments u i) (\<lambda>_. rel (alike u))"
proof -
  let ?E = "\<lambda>found d1 d2. alike u d1 d2 \<and> (\<forall>m. found = Some m \<longrightarrow> mine_message u (msg_id m) d1)"
  have same: "find_row (\<lambda>m. msg_id m = i \<and> user_owns u (msg_account_id m) d1) (tbl_messages d1) =
      find_row (\<lambda>m. msg_id m = i \<and> user_owns u (msg_account_id m) d2) (tbl_messages d2)" if "alike u d1 d2" for d1 d2
    unfolding find_row_filter_eq alike_owns [OF that, symmetric]
    using alike_messages [OF that, of "\<lambda>m. msg_id m = i \<and> user_owns u (msg_account_id m) d1"] by simp
  have "agree (rel (alike u)) (query (\<lambda>d. find_row (\<lambda>m. msg_id m = i \<and> user_owns u (msg_account_id m) d) (tbl_messages d)))
      (\<lambda>r. case r of Inl _ \<Rightarrow> rel (alike u) | Inr found \<Rightarrow> rel (?E found))"
    by (rule agree_query_post [OF same]) (auto simp: mine_message_def dest: find_row_Some)
  then have found: "agree (rel (alike u)) (find_by_id_for_user u i) (\<lambda>r. case r of Inl _ \<Rightarrow> rel (alike u) | Inr found \<Rightarrow> rel (?E found))"
    unfolding find_by_id_for_user_def by (intro agree_bind [OF agree_requireE]) simp_all
  have "agree (rel (?E (Some m))) (list_for_message (msg_id m)) (\<lambda>_. rel (?E (Some m)))" for m
    unfolding list_for_message_def
    by (intro agree_step agree_requireE agree_query alike_attachments) auto
  then have "agree (rel (?E found)) (case found of None \<Rightarrow> ret None | Some m \<Rightarrow>
      bindE (list_for_message (msg_id m)) (\<lambda>atts. ret (Some (m, atts)))) (\<lambda>_. rel (?E found))" for found
    by (cases found) (auto intro!: agree_step agree_ret)
  then have "agree (rel (alike u)) (bindE (find_by_id_for_user u i) (\<lambda>found. case found of None \<Rightarrow> ret None | Some m \<Rightarrow>
      bindE (list_for_message (msg_id m)) (\<lambda>atts. ret (Some (m, atts))))) (\<lambda>_. rel (alike u))"
    by (intro agree_bind [OF found]) (auto intro: agree_weaken_step)
  then show ?thesis unfolding get_message_with_attachments_def by (rule agree_read_only_step)
qed

lemma agree_view_message:
  assumes "signed_in_as u cur"
  shows "agree (rel (alike u)) (view_message env raw mt cur tok b) (\<lambda>_. rel (alike u))"
  using assms agree_get_message unfolding view_message_def signed_in_as_def
  by (intro agree_authenticated_step agree_step agree_to_server_step)
    (auto intro!: agree_step agree_liftE agree_some_or agree_rendered_body agree_to_server_step agree_now agree_ret
      split: option.split prod.split)

text \<open>
  C5. What a user reads does not depend on what other users archive: two systems that agree on
  the user's own accounts, folders, messages and attachments, and in everything but the tables,
  give the same message list, folder list, account list, message view and statistics, whatever
  tokens the request names and whatever fails.
\<close>

theorem reads_show_own_rows:
  fixes s :: "'z app_world_scheme" and cur :: "AuthUser option"
  assumes "own u d = own u (tx_db s)" and "cur = None \<or> au_id (the cur) = u"
  shows "fst (list_messages tt mt cur tok limit offset (s\<lparr>tx_db := d\<rparr>)) = fst (list_messages tt mt cur tok limit offset s) \<and>
    fst (get_account_folders tt cur tok (s\<lparr>tx_db := d\<rparr>)) = fst (get_account_folders tt cur tok s) \<and>
    fst (web_list_accounts tt lower cur (s\<lparr>tx_db := d\<rparr>)) = fst (web_list_accounts tt lower cur s) \<and>
    fst (view_message env raw mt cur tok b (s\<lparr>tx_db := d\<rparr>)) = fst (view_message env raw mt cur tok b s) \<and>
    fst (web_archive_stats cur (s\<lparr>tx_db := d\<rparr>)) = fst (web_archive_stats cur s)"
proof -
  have signed: "signed_in_as u cur" using assms(2) by (auto simp: signed_in_as_def)
  have r: "rel (alike u) (s\<lparr>tx_db := d\<rparr>) s" using assms(1) by (simp add: rel_def alike_def)
  show ?thesis
    using agreeD [OF agree_list_messages [OF signed] r] agreeD [OF agree_get_account_folders [OF signed] r]
      agreeD [OF agree_web_list_accounts [OF signed] r] agreeD [OF agree_view_message [OF signed] r]
      agreeD [OF agree_archive_stats [OF signed] r] by blast
qed

section \<open>The body of a message\<close>

lemma get_message_clear:
  assumes "tx_faults s = []" and "u \<noteq> 0" and "i \<noteq> 0" and "distinct (map msg_id (tbl_messages (tx_db s)))"
    and "m \<in> set (tbl_messages (tx_db s))" and "msg_id m = i" and "user_owns u (msg_account_id m) (tx_db s)"
  shows "get_message_with_attachments u i s = (Inr (Some (m, filter (\<lambda>a. att_message_id a = i) (tbl_attachments (tx_db s)))), s)"
proof -
  have "find_row (\<lambda>x. msg_id x = i) (tbl_messages (tx_db s)) = Some m" by (rule find_row_key_eq [OF assms(4-6)])
  then have "find_row (\<lambda>x. msg_id x = i \<and> user_owns u (msg_account_id x) (tx_db s)) (tbl_messages (tx_db s)) = Some m"
    using assms(7) by (auto simp: find_row_def find_Some_iff)
  then show ?thesis
    using assms(1-3,6) by (simp add: get_message_with_attachments_def find_by_id_for_user_def list_for_message_def bindE_def
        read_only_clear stmt_simps act_eval)
qed

lemma blob_get_absent:
  "w_io s = [] \<Longrightarrow> w_files s (blob_path (st_root raw) a h) = None \<Longrightarrow> blob_get raw a h s = (Inl (BlobNotFound a (as_hex h)), s)"
  by (simp add: blob_get_def bindE_def io_call_def io_step_def act_eval)

text \<open>
  C21. A message of the user whose blob is stored is shown with its headers, its attachments and
  the rendering of the stored bytes; when the blob is gone, with everything but a body.
\<close>

theorem view_shows_stored_body:
  assumes "cur = Some a" and "au_username a \<noteq> []" and "au_id a \<noteq> 0" and "mt_parse_message mt tok = Inr i" and "i \<noteq> 0"
    and "mail_ok (tx_db s)" and "tx_faults s = []" and "w_io s = []"
    and "m \<in> set (tbl_messages (tx_db s))" and "msg_id m = i" and "user_owns (au_id a) (msg_account_id m) (tx_db s)"
  shows "(\<forall>bytes body. stored raw s (msg_account_id m) (msg_content_hash m) = Some bytes \<and>
      render_message_for_display env bytes b = Some (Inr body) \<longrightarrow>
      fst (view_message env raw mt cur tok b s) = Inr (Some (build_dto mt (tx_now s) m
        (filter (\<lambda>x. att_message_id x = i) (tbl_attachments (tx_db s))) (Some body)))) \<and>
    (w_files s (blob_path (st_root raw) (msg_account_id m) (msg_content_hash m)) = None \<longrightarrow>
      fst (view_message env raw mt cur tok b s) = Inr (Some (build_dto mt (tx_now s) m
        (filter (\<lambda>x. att_message_id x = i) (tbl_attachments (tx_db s))) None)))"
proof -
  have d: "distinct (map msg_id (tbl_messages (tx_db s)))" using assms(6) by (simp add: mail_ok_def messages_ok_def)
  note found = get_message_clear [OF assms(7,3,5) d assms(9-11)]
  have view: "fst (view_message env raw mt cur tok b s) = (case rendered_body env raw m b s of (r, t) \<Rightarrow>
      map_sum id (map_option (build_dto mt (tx_now t) m (filter (\<lambda>x. att_message_id x = i) (tbl_attachments (tx_db s))))) r)"
    using assms(1,2,4) found
    by (auto simp: view_message_def authenticated_user_def liftE_def bindE_def to_server_err_def map_errE_def handleE_def act_eval
        some_or_def utc_now_def split: sum.split option.split prod.split)
  have clean: "tx_now (snd (blob_get raw x h s)) = tx_now s" for x h
    using assms(8) by (simp add: blob_get_def bindE_def io_call_def io_step_def act_eval split: option.split sum.split)
  have "fst (view_message env raw mt cur tok b s) = Inr (Some (build_dto mt (tx_now s) m
        (filter (\<lambda>x. att_message_id x = i) (tbl_attachments (tx_db s))) (Some body)))"
    if "stored raw s (msg_account_id m) (msg_content_hash m) = Some bytes" "render_message_for_display env bytes b = Some (Inr body)"
    for bytes body
    using blob_get_clear [OF assms(8) that(1)] that(2) clean [of "msg_account_id m" "msg_content_hash m"] unfolding view
    by (cases "blob_get raw (msg_account_id m) (msg_content_hash m) s") (simp add: rendered_body_def handleE_def act_eval)
  moreover have "fst (view_message env raw mt cur tok b s) = Inr (Some (build_dto mt (tx_now s) m
        (filter (\<lambda>x. att_message_id x = i) (tbl_attachments (tx_db s))) None))"
    if "w_files s (blob_path (st_root raw) (msg_account_id m) (msg_content_hash m)) = None"
    using blob_get_absent [OF assms(8) that] unfolding view by (simp add: rendered_body_def handleE_def act_eval)
  ultimately show ?thesis by blast
qed

section \<open>Search results\<close>

text \<open>The message of the user with an id.\<close>

definition own_message :: "UserId \<Rightarrow> db \<Rightarrow> MessageId \<Rightarrow> Message option" where
  "own_message u d i = find_row (\<lambda>m. msg_id m = i \<and> user_owns u (msg_account_id m) d) (tbl_messages d)"

lemma get_messages_Inr:
  assumes "get_messages_by_ids u ids s = (Inr msgs, t)"
  shows "msgs = filter (\<lambda>m. msg_id m \<in> set ids \<and> user_owns u (msg_account_id m) (tx_db s)) (tbl_messages (tx_db s))"
proof -
  from assms obtain s0 s1 :: "'a tx_scheme" where "tx_db s0 = tx_db s" "list_by_ids_for_user u ids s0 = (Inr msgs, s1)"
    unfolding get_messages_by_ids_def by (auto elim: read_only_Inr)
  then show ?thesis
    by (cases "ids = []") (auto simp: list_by_ids_for_user_def bindE_Inr_iff requireE_apply act_eval dest!: query_Inr split: if_splits)
qed

lemma map_of_ids:
  assumes "distinct (map msg_id ms)"
  shows "map_of (rev (map (\<lambda>m. (msg_id m, m)) ms)) i = find_row (\<lambda>m. msg_id m = i) ms"
proof -
  let ?l = "rev (map (\<lambda>m. (msg_id m, m)) ms)"
  have d: "distinct (map fst ?l)" using assms by (simp add: rev_map [symmetric] o_def)
  show ?thesis
  proof (cases "find_row (\<lambda>m. msg_id m = i) ms")
    case None
    then have "map_of ?l i = None" by (auto simp: find_row_None map_of_eq_None_iff)
    with None show ?thesis by simp
  next
    case (Some m)
    then have "(i, m) \<in> set ?l" using find_row_Some [OF Some] by auto
    with Some map_of_is_SomeI [OF d] show ?thesis by simp
  qed
qed

text \<open>The rows of a page are those of its hits, looked up one by one.\<close>

lemma search_messages_rows:
  assumes "mail_ok (tx_db s)" and "search_messages env mt cur q limit offset s = (Inr (rows, n), t)"
  shows "\<exists>a res now. cur = Some a \<and> fst (search env (au_id a) q limit offset s) = Inr res \<and> tx_db t = tx_db s \<and>
    n = of_nat (length (sr_hits res)) \<and>
    rows = map (message_to_row mt now) (List.map_filter (\<lambda>h. own_message (au_id a) (tx_db s) (sh_message_id h)) (sr_hits res))"
proof -
  from assms(2) obtain a res s1 msgs s2 now where a: "cur = Some a"
    and se: "search env (au_id a) q limit offset s = (Inr res, s1)"
    and ms: "get_messages_by_ids (au_id a) (map sh_message_id (sr_hits res)) s1 = (Inr msgs, s2)"
    and t: "tx_db t = tx_db s2" and rows: "n = of_nat (length (sr_hits res))" "rows = order_rows_by_hits mt now (sr_hits res) msgs"
    by (auto simp: search_messages_def Let_def bindE_Inr_iff authenticated_Inr to_server_err_Inr utc_now_def act_eval)
  have db1: "tx_db s1 = tx_db s" using search_tables [of env "au_id a" q limit offset s] se by simp
  have "tx_db s2 = tx_db s1" using ms read_only_db unfolding get_messages_by_ids_def by (metis snd_conv)
  note msgs = get_messages_Inr [OF ms, unfolded db1]
  have "distinct (map msg_id (tbl_messages (tx_db s)))" using assms(1) by (simp add: mail_ok_def messages_ok_def)
  then have d: "distinct (map msg_id msgs)" unfolding msgs by (rule distinct_map_filter)
  have one: "map_of (rev (map (\<lambda>m. (msg_id m, m)) msgs)) (sh_message_id h) = own_message (au_id a) (tx_db s) (sh_message_id h)"
    if "h \<in> set (sr_hits res)" for h
  proof -
    have "filter (\<lambda>m. msg_id m = sh_message_id h) msgs =
        filter (\<lambda>m. msg_id m = sh_message_id h \<and> user_owns (au_id a) (msg_account_id m) (tx_db s)) (tbl_messages (tx_db s))"
      using that unfolding msgs filter_filter by (intro filter_cong) auto
    then show ?thesis unfolding map_of_ids [OF d] own_message_def find_row_filter_eq by simp
  qed
  then have "List.map_filter (\<lambda>h. map_of (rev (map (\<lambda>m. (msg_id m, m)) msgs)) (sh_message_id h)) (sr_hits res) =
      List.map_filter (\<lambda>h. own_message (au_id a) (tx_db s) (sh_message_id h)) (sr_hits res)"
    unfolding List.map_filter_def by (auto intro!: map_cong filter_cong)
  with a se rows \<open>tx_db s2 = tx_db s1\<close> db1 t show ?thesis by (auto simp: order_rows_by_hits_def Let_def)
qed

text \<open>
  A page of search results is the hits of the search service in the order of their rank,
  each as the row of the user's message with its id; a hit whose message is gone, or is not the
  user's, leaves no row, but it is counted, so that the next page starts after it.
\<close>

theorem search_rows_ranked:
  assumes "mail_ok (tx_db s)" and "search_messages env mt cur q limit offset s = (Inr (rows, n), t)"
  shows "\<exists>a res now. cur = Some a \<and> fst (search env (au_id a) q limit offset s) = Inr res \<and> tx_db t = tx_db s \<and>
    n = of_nat (length (sr_hits res)) \<and>
    rows = map (message_to_row mt now) (List.map_filter (\<lambda>h. own_message (au_id a) (tx_db s) (sh_message_id h)) (sr_hits res))"
  by (rule search_messages_rows [OF assms])

section \<open>Concrete inputs\<close>

definition alice :: AuthUser where
  "alice = \<lparr>au_id = 1, au_anonymous = False, au_username = ''Alice'', au_permissions = {}\<rparr>"

definition unary_mail_tokens :: mail_tokens where
  "unary_mail_tokens = \<lparr>mt_message = (\<lambda>i. replicate (unat i) CHR ''m''), mt_parse_message = (\<lambda>s. Inr (of_nat (length s))),
     mt_attachment = (\<lambda>i. replicate (unat i) CHR ''a'')\<rparr>"

text \<open>The sample archive, and the same with an account of user 2.\<close>

definition with_neighbour :: db where
  "with_neighbour = (tx_db sample_app)\<lparr>tbl_accounts := [sample_account, sample_account\<lparr>acc_id := 8, acc_user_id := 2\<rparr>]\<rparr>"

lemma neighbour_own: "own 1 with_neighbour = own 1 (tx_db sample_app)"
  by (simp add: own_def with_neighbour_def sample_app_db user_owns_def mine_message_def sample_account_def)

theorem reads_show_own_rows_witness:
  "map_sum id asd_account_count (fst (web_archive_stats (Some alice) (sample_app\<lparr>tx_db := with_neighbour\<rparr>))) = Inr 1"
proof -
  have "map_sum id asd_account_count (fst (web_archive_stats (Some alice) sample_app)) = Inr 1" by code_simp
  with reads_show_own_rows [OF neighbour_own, of "Some alice"] show ?thesis by (simp add: alice_def)
qed

lemma sample_search_mail: "mail_ok (tx_db sample_search)"
  by (simp add: mail_ok_defs sample_search_def exists_defs sample_winner_parts sample_account_def sample_app_parts(1)
      sample_tables sample_app_db [unfolded sample_app_parts(1)])

theorem view_shows_stored_body_witness:
  "\<exists>dto. fst (view_message sample_mail_env sample_raw unary_mail_tokens (Some alice) (replicate 42 CHR ''m'') False sample_search) =
     Inr (Some dto) \<and> mvd_body_text dto = Some ''Hello''"
proof -
  have "stored sample_raw sample_search 7 (msg_content_hash sample_winner) = Some [1, 2]"
    by (simp add: stored_def sample_search_parts sample_raw_def raw_store_def sample_blob_opens)
  moreover have "render_message_for_display sample_mail_env [1, 2] False =
      Some (Inr \<lparr>rb_html = None, rb_text = Some ''Hello'', rb_has_remote_content = False\<rparr>)"
    by (simp add: render_message_for_display_def sample_mail_env_def text_only_def)
  moreover have "tbl_accounts (tx_db sample_search) = [sample_account]" by (simp add: sample_search_def sample_app_db)
  ultimately show ?thesis
    using view_shows_stored_body [of "Some alice" alice unary_mail_tokens "replicate 42 CHR ''m''" 42 sample_search sample_winner
        sample_raw sample_mail_env False, OF _ _ _ _ _ sample_search_mail]
    by (simp add: alice_def unary_mail_tokens_def sample_search_parts sample_winner_parts user_owns_def sample_account_def build_dto_def)
qed

definition sample_results :: "(string + MessageRowDto list \<times> u32) \<times> app_world" where
  "sample_results = search_messages sample_engine unary_mail_tokens (Some alice) sample_search_text 10 0 sample_found"

theorem search_rows_ranked_witness:
  "\<exists>res. map_sum id (map mrd_token \<circ> fst) (fst sample_results) = Inr [replicate 42 CHR ''m''] \<and>
    fst (search sample_engine 1 sample_search_text 10 0 sample_found) = Inr res \<and> length (sr_hits res) = 1"
proof -
  have ev: "map_sum id (\<lambda>(rows, n). (map mrd_token rows, n)) (fst sample_results) = Inr ([replicate 42 CHR ''m''], 1)" by code_simp
  obtain r t where sr: "sample_results = (r, t)" by fastforce
  obtain rows where r: "r = Inr (rows, 1)" and rows: "map mrd_token rows = [replicate 42 CHR ''m'']"
    using ev unfolding sr fst_conv by (cases r) auto
  note run = sr [unfolded r]
  have "mail_ok (tx_db sample_found)" using sample_search_mail by (simp add: sample_found_def)
  from search_rows_ranked [OF this run [unfolded sample_results_def]] obtain res where
    "fst (search sample_engine 1 sample_search_text 10 0 sample_found) = Inr res" "(1 :: u32) = of_nat (length (sr_hits res))"
    by (auto simp: alice_def)
  moreover have "map_sum id (\<lambda>res. length (sr_hits res))
      (fst (search sample_engine 1 sample_search_text 10 0 sample_found)) = Inr 1" by code_simp
  ultimately show ?thesis unfolding run fst_conv using rows by auto
qed

end
