(* ===== verification/PagingProps.thy ===== *)
theory PagingProps
  imports Paging WebMailProps
begin

text \<open>
  Paging leaves no gap and repeats nothing: what the browser has after any number of pages, with
  failed requests and refreshes in between, is that many pages of the list the server holds.
\<close>

section \<open>Pages of a list\<close>

text \<open>The next page after as many pages as there were, in the word arithmetic of the offsets.\<close>

lemma page_at:
  assumes "length xs < 2 ^ 32" and "offset = of_nat (min (unat sz * k) (length xs))"
  shows "page sz offset xs = take (unat sz) (drop (unat sz * k) xs)"
proof -
  have "unat offset = min (unat sz * k) (length xs)" using assms by (simp add: unat_of_nat)
  then show ?thesis by (simp add: page_def min_def)
qed

lemma take_pages: "take (n * Suc k) xs = take (n * k) xs @ take n (drop (n * k) xs)"
  by (simp only: mult_Suc_right add.commute [of n] take_add)

text \<open>A page is short exactly when the list ends in it.\<close>

lemma short_page:
  "of_nat (length (take (unat sz) (drop (unat sz * k) xs))) < sz \<longleftrightarrow> length xs < unat sz * Suc k" for sz :: u32
proof -
  have "length (take (unat sz) (drop (unat sz * k) xs)) \<le> unat sz" by simp
  then have "length (take (unat sz) (drop (unat sz * k) xs)) < 2 ^ 32"
    by (rule le_less_trans) (use unsigned_less [of sz] in simp)
  then show ?thesis by (cases "unat sz = 0") (auto simp: word_less_nat_alt unat_of_nat)
qed

section \<open>The message list\<close>

definition mailbox :: "AccountId \<Rightarrow> db \<Rightarrow> Message list" where
  "mailbox i d = sort_key newest_key (filter (\<lambda>m. msg_account_id m = i) (tbl_messages d))"

lemma list_messages_rows:
  assumes "fst (list_messages tt mt cur tok limit offset w) = Inr rows" and "tt_parse_account tt tok = Inr i"
  shows "map mrd_token rows = map (mt_message mt \<circ> msg_id) (page limit offset (mailbox i (tx_db w)))"
proof -
  obtain w' where "list_messages tt mt cur tok limit offset w = (Inr rows, w')" using assms(1) by (metis prod.collapse)
  then obtain u s1 x s2 msgs s3 now where
    auth: "authenticated_user cur w = (Inr u, s1)" and acc: "to_server_err (get_account (au_id u) i) s1 = (Inr x, s2)"
    and ms: "to_server_err (list_messages_for_account i limit offset) s2 = (Inr msgs, s3)"
    and rows: "rows = map (message_to_row mt now) msgs"
    using assms(2) by (fastforce simp: list_messages_def bindE_Inr_iff liftE_Inr act_eval)
  have "s1 = w" using auth by (simp add: authenticated_Inr)
  moreover have "tx_db s2 = tx_db s1"
    using acc read_only_db unfolding to_server_err_Inr get_account_def by (metis snd_conv)
  moreover have "msgs = page limit offset (mailbox i (tx_db s2))"
    using ms unfolding to_server_err_Inr list_messages_for_account_def list_for_account_def mailbox_def
    by (auto simp: bindE_Inr_iff [of "requireE _ _"] requireE_apply elim!: read_only_Inr dest!: query_Inr split: if_splits)
  ultimately show ?thesis using rows by (simp add: message_to_row_def comp_def)
qed

text \<open>
  After \<open>k\<close> pages the list holds that many pages of the mailbox, the end is known when the last
  page was short, and what is awaited is the page after the rows.
\<close>

definition list_in_step :: "(MessageId \<Rightarrow> string) \<Rightarrow> Message list \<Rightarrow> nat \<Rightarrow> awaited \<times> message_list \<Rightarrow> bool" where
  "list_in_step tok ms k x \<longleftrightarrow> (case x of (w, s) \<Rightarrow>
    map mrd_token (ml_rows s) = map (tok \<circ> msg_id) (take (50 * k) ms) \<and>
    (ml_reached_end s \<longleftrightarrow> 0 < k \<and> length ms < 50 * k) \<and>
    (\<forall>offset. w = NextPage offset \<longrightarrow> offset = of_nat (min (50 * k) (length ms))))"

lemma unat_PAGE_SIZE: "unat PAGE_SIZE = 50"
  by (simp add: PAGE_SIZE_def)

lemma tokens_length: "map f xs = map g ys \<Longrightarrow> length xs = length ys"
  by (metis length_map)

lemma list_session_in_step:
  assumes "list_session tt mt cur account_token d k x" and i: "tt_parse_account tt account_token = Inr i"
    and small: "length (mailbox i d) < 2 ^ 32"
  shows "list_in_step (mt_message mt) (mailbox i d) k x"
  using assms(1)
proof induction
  case mounted
  show ?case by (simp add: list_in_step_def mount_list_def)
next
  case (first_page k s w rows)
  have "map mrd_token rows = map (mt_message mt \<circ> msg_id) (page PAGE_SIZE 0 (mailbox i d))"
    using list_messages_rows [OF first_page.hyps(3) i] first_page.hyps(2) by simp
  then have rows: "map mrd_token rows = map (mt_message mt \<circ> msg_id) (take 50 (mailbox i d))"
    by (simp add: page_def unat_PAGE_SIZE)
  show ?case
    using rows tokens_length [OF rows] short_page [of PAGE_SIZE 0 "mailbox i d"]
    by (simp add: list_in_step_def on_first_page_def unat_PAGE_SIZE)
next
  case (next_page k offset s w rows)
  then have offset: "offset = of_nat (min (unat PAGE_SIZE * k) (length (mailbox i d)))"
    and old: "map mrd_token (ml_rows s) = map (mt_message mt \<circ> msg_id) (take (50 * k) (mailbox i d))"
    by (simp_all add: list_in_step_def unat_PAGE_SIZE)
  have rows: "map mrd_token rows = map (mt_message mt \<circ> msg_id) (take 50 (drop (50 * k) (mailbox i d)))"
    using list_messages_rows [OF next_page.hyps(3) i] next_page.hyps(2) page_at [OF small offset]
    by (simp add: unat_PAGE_SIZE)
  show ?case
    using rows old tokens_length [OF rows] short_page [of PAGE_SIZE k "mailbox i d"] take_pages [of 50 k "mailbox i d"]
    by (simp add: list_in_step_def on_next_page_def unat_PAGE_SIZE)
next
  case (more k s offset s')
  then have "map mrd_token (ml_rows s) = map (mt_message mt \<circ> msg_id) (take (50 * k) (mailbox i d))"
    by (simp add: list_in_step_def)
  from tokens_length [OF this] have "length (ml_rows s) = min (50 * k) (length (mailbox i d))"
    by (simp add: min.commute)
  with more show ?case by (auto simp: list_in_step_def load_more_def split: if_splits)
next
  case (refreshed k s offset s')
  then show ?case by (auto simp: list_in_step_def refresh_list_def split: if_splits)
qed (auto simp: list_in_step_def on_first_page_def on_next_page_def)

section \<open>Search results\<close>

definition hits_in_step :: "(SearchHit \<Rightarrow> string option) \<Rightarrow> SearchHit list \<Rightarrow> nat \<Rightarrow> awaited \<times> search_list \<Rightarrow> bool" where
  "hits_in_step f hits k x \<longleftrightarrow> (case x of (w, s) \<Rightarrow>
    map mrd_token (sl_rows s) = List.map_filter f (take (25 * k) hits) \<and>
    sl_hit_offset s = of_nat (min (25 * k) (length hits)) \<and>
    (sl_reached_end s \<longleftrightarrow> 0 < k \<and> length hits < 25 * k) \<and>
    (\<forall>offset. w = NextPage offset \<longrightarrow> offset = sl_hit_offset s))"

lemma unat_SEARCH_PAGE_SIZE: "unat SEARCH_PAGE_SIZE = 25"
  by (simp add: SEARCH_PAGE_SIZE_def)

definition hit_row :: "mail_tokens \<Rightarrow> UserId \<Rightarrow> db \<Rightarrow> SearchHit \<Rightarrow> string option" where
  "hit_row mt u d h = map_option (mt_message mt \<circ> msg_id) (own_message u d (sh_message_id h))"

lemma map_filter_append: "List.map_filter f (xs @ ys) = List.map_filter f xs @ List.map_filter f ys"
  by (simp add: List.map_filter_def)

lemma map_map_filter: "map g (List.map_filter f xs) = List.map_filter (\<lambda>x. map_option g (f x)) xs"
  by (induction xs) (auto simp: List.map_filter_simps split: option.split)

lemma search_page_rows:
  assumes "mail_ok (tx_db w)" and "fst (search_messages env mt (Some a) q limit offset w) = Inr r"
    and "map_sum id sr_hits (fst (search env (au_id a) q limit offset w)) = Inr hs"
  shows "map mrd_token (fst r) = List.map_filter (hit_row mt (au_id a) (tx_db w)) hs \<and> snd r = of_nat (length hs)"
proof -
  obtain rows n w' where r: "r = (rows, n)" "search_messages env mt (Some a) q limit offset w = (Inr (rows, n), w')"
    using assms(2) by (metis prod.collapse)
  from search_messages_rows [OF assms(1) r(2)] obtain res now where
    res: "fst (search env (au_id a) q limit offset w) = Inr res" "n = of_nat (length (sr_hits res))"
    "rows = map (message_to_row mt now) (List.map_filter (\<lambda>h. own_message (au_id a) (tx_db w) (sh_message_id h)) (sr_hits res))"
    by auto
  with assms(3) r(1) show ?thesis
    by (simp add: message_to_row_def comp_def map_map_filter option.map_comp hit_row_def [abs_def])
qed

lemma hit_count_at:
  assumes "length (hits :: 'h list) < 2 ^ 32"
  shows "of_nat (min (25 * k) (length hits)) + of_nat (length (take 25 (drop (25 * k) hits)))
    = (of_nat (min (25 * Suc k) (length hits)) :: u32)"
proof -
  have "min (25 * k) (length hits) + length (take 25 (drop (25 * k) hits)) = min (25 * Suc k) (length hits)"
    by auto
  then show ?thesis by (metis of_nat_add)
qed

lemma search_session_in_step:
  assumes "search_session env mt a q d hits k x" and ok: "mail_ok d" and small: "length hits < 2 ^ 32"
  shows "hits_in_step (hit_row mt (au_id a) d) hits k x"
  using assms(1)
proof induction
  case mounted
  show ?case by (simp add: hits_in_step_def mount_results_def List.map_filter_simps)
next
  case (first_page k s w r)
  have "map mrd_token (fst r) = List.map_filter (hit_row mt (au_id a) d) (page SEARCH_PAGE_SIZE 0 hits) \<and>
      snd r = of_nat (length (page SEARCH_PAGE_SIZE 0 hits))"
    using search_page_rows [of w] first_page.hyps ok by metis
  then show ?case
    using short_page [of SEARCH_PAGE_SIZE 0 hits]
    by (cases r) (simp add: hits_in_step_def on_first_hits_def page_def unat_SEARCH_PAGE_SIZE min.commute)
next
  case (next_page k offset s w r)
  then have offset: "offset = of_nat (min (unat SEARCH_PAGE_SIZE * k) (length hits))" "sl_hit_offset s = offset"
    and old: "map mrd_token (sl_rows s) = List.map_filter (hit_row mt (au_id a) d) (take (25 * k) hits)"
    by (simp_all add: hits_in_step_def unat_SEARCH_PAGE_SIZE)
  have "map mrd_token (fst r) = List.map_filter (hit_row mt (au_id a) d) (page SEARCH_PAGE_SIZE offset hits) \<and>
      snd r = of_nat (length (page SEARCH_PAGE_SIZE offset hits))"
    using search_page_rows [of w] next_page.hyps ok by metis
  then have new: "map mrd_token (fst r) = List.map_filter (hit_row mt (au_id a) d) (take 25 (drop (25 * k) hits))"
    "snd r = of_nat (length (take 25 (drop (25 * k) hits)))"
    by (simp_all add: page_at [OF small offset(1)] unat_SEARCH_PAGE_SIZE)
  have "sl_hit_offset s + snd r = of_nat (min (25 * Suc k) (length hits))"
    using hit_count_at [OF small, of k] offset new(2) by (simp add: unat_SEARCH_PAGE_SIZE)
  then show ?case
    using short_page [of SEARCH_PAGE_SIZE k hits] new old
    by (cases r) (simp add: hits_in_step_def on_next_hits_def unat_SEARCH_PAGE_SIZE take_pages [of 25 k] map_filter_append
        del: mult_Suc_right)
next
  case (more k s offset s')
  then show ?case by (auto simp: hits_in_step_def load_more_hits_def split: if_splits)
qed (auto simp: hits_in_step_def on_first_hits_def on_next_hits_def)

section \<open>The properties\<close>

text \<open>
  C9. Loading more of the message list leaves no gap and repeats nothing: after any sequence of
  first pages, further pages, refreshes and failed requests over unchanged tables, the rows are the
  account's newest messages in order, fifty for each page since the last refresh, and the list
  claims to be complete exactly when the last page was short.
\<close>

theorem message_pages_gapless:
  assumes "list_session tt mt cur account_token d k (w, s)" and "tt_parse_account tt account_token = Inr i"
    and "length (filter (\<lambda>m. msg_account_id m = i) (tbl_messages d)) < 2 ^ 32"
  shows "map mrd_token (ml_rows s) = map (mt_message mt \<circ> msg_id)
      (take (50 * k) (sort_key newest_key (filter (\<lambda>m. msg_account_id m = i) (tbl_messages d)))) \<and>
    (ml_reached_end s \<longleftrightarrow> 0 < k \<and> length (filter (\<lambda>m. msg_account_id m = i) (tbl_messages d)) < 50 * k)"
  using list_session_in_step [OF assms(1,2)] assms(3) by (simp add: list_in_step_def mailbox_def)

text \<open>
  C22. Paging through search results follows the hits and not the rows: after any sequence of pages
  and failed requests the rows are the user's messages of the first hits in rank order, twenty-five
  hits for each page whether or not they still have a message, and the results claim to be complete
  exactly when the last page was short of hits.
\<close>

theorem search_pages_follow_hits:
  assumes "search_session env mt a q d hits k (w, s)" and "mail_ok d" and "length hits < 2 ^ 32"
  shows "map mrd_token (sl_rows s) =
      List.map_filter (\<lambda>h. map_option (mt_message mt \<circ> msg_id) (own_message (au_id a) d (sh_message_id h))) (take (25 * k) hits) \<and>
    (sl_reached_end s \<longleftrightarrow> 0 < k \<and> length hits < 25 * k)"
  using search_session_in_step [OF assms] by (simp add: hits_in_step_def hit_row_def [abs_def])

text \<open>
  The tables have to stay as they are: when a message has arrived since the first page, the next
  page starts with the row the browser shows last.
\<close>

lemma arrival_repeats_row:
  assumes "50 \<le> length ms"
  shows "hd (page PAGE_SIZE 50 (m # ms)) = last (page PAGE_SIZE 0 ms)"
proof -
  from assms have "take 50 ms \<noteq> []" and "length (take 50 ms) = 50" by auto
  then have "last (take 50 ms) = ms ! 49" by (simp add: last_conv_nth)
  moreover have "take 50 (drop 50 (m # ms)) \<noteq> []" using assms by simp
  then have "hd (take 50 (drop 50 (m # ms))) = (m # ms) ! 50" using assms by (simp add: hd_conv_nth)
  ultimately show ?thesis by (simp add: page_def unat_PAGE_SIZE)
qed

section \<open>Witnesses\<close>

lemma map_sum_InrD: "map_sum f g x = Inr y \<Longrightarrow> \<exists>z. x = Inr z \<and> g z = y"
  by (cases x) auto

definition sample_reader :: tx where
  "sample_reader = tx.truncate sample_found"

definition first_rows :: "string + MessageRowDto list" where
  "first_rows = fst (list_messages unary_tokens unary_mail_tokens (Some alice) ''xxxxxxx'' PAGE_SIZE 0 sample_reader)"

theorem message_pages_gapless_witness:
  "\<exists>s. list_session unary_tokens unary_mail_tokens (Some alice) ''xxxxxxx'' (tx_db sample_reader) 1 (Nothing, s) \<and>
     map mrd_token (ml_rows s) = [replicate 42 CHR ''m''] \<and> ml_reached_end s"
proof -
  have "map_sum id (map mrd_token) first_rows = Inr [replicate 42 CHR ''m'']" by code_simp
  from map_sum_InrD [OF this] obtain rows where rows: "first_rows = Inr rows" by blast
  let ?s = "on_first_page (Inr rows) mount_list"
  have session: "list_session unary_tokens unary_mail_tokens (Some alice) ''xxxxxxx'' (tx_db sample_reader) 1 (Nothing, ?s)"
    by (rule list_session.first_page [OF list_session.mounted refl rows [unfolded first_rows_def]])
  have parse: "tt_parse_account unary_tokens ''xxxxxxx'' = Inr 7" by (simp add: unary_tokens_def)
  have box: "filter (\<lambda>m. msg_account_id m = 7) (tbl_messages (tx_db sample_reader)) = [sample_winner]"
    by (simp add: sample_reader_def tx.defs sample_found_def sample_search_def sample_winner_parts)
  have "map mrd_token (ml_rows ?s) = [replicate 42 CHR ''m''] \<and> ml_reached_end ?s"
    using message_pages_gapless [OF session parse] by (simp add: box unary_mail_tokens_def sample_winner_parts)
  then show ?thesis by (intro exI [of _ ?s] conjI [OF session])
qed

definition sample_hits :: "SearchHit list" where
  "sample_hits = (case fst (search sample_engine 1 sample_search_text SEARCH_PAGE_SIZE 0 sample_found) of
     Inl _ \<Rightarrow> [] | Inr res \<Rightarrow> sr_hits res)"

definition first_hits :: "string + MessageRowDto list \<times> u32" where
  "first_hits = fst (search_messages sample_engine unary_mail_tokens (Some alice) sample_search_text SEARCH_PAGE_SIZE 0 sample_found)"

theorem search_pages_follow_hits_witness:
  "\<exists>s. search_session sample_engine unary_mail_tokens alice sample_search_text (tx_db sample_found) sample_hits 1 (Nothing, s) \<and>
     map mrd_token (sl_rows s) = [replicate 42 CHR ''m''] \<and> sl_reached_end s"
proof -
  have "map_sum id (map mrd_token \<circ> fst) first_hits = Inr [replicate 42 CHR ''m'']" by code_simp
  from map_sum_InrD [OF this] obtain r where r: "first_hits = Inr r" and rows: "map mrd_token (fst r) = [replicate 42 CHR ''m'']"
    by auto
  have hits: "map_sum id (length \<circ> sr_hits) (fst (search sample_engine 1 sample_search_text SEARCH_PAGE_SIZE 0 sample_found)) = Inr 1"
    by code_simp
  from map_sum_InrD [OF this] obtain res where
    res: "fst (search sample_engine 1 sample_search_text SEARCH_PAGE_SIZE 0 sample_found) = Inr res" "length (sr_hits res) = 1"
    by auto
  then have sample: "sample_hits = sr_hits res" by (simp add: sample_hits_def)
  let ?s = "on_first_hits (Inr r) mount_results"
  have session: "search_session sample_engine unary_mail_tokens alice sample_search_text (tx_db sample_found) sample_hits 1 (Nothing, ?s)"
    by (rule search_session.first_page [OF search_session.mounted refl _ r [unfolded first_hits_def]])
      (simp add: alice_def res sample page_def unat_SEARCH_PAGE_SIZE)
  have ok: "mail_ok (tx_db sample_found)" using sample_search_mail by (simp add: sample_found_def)
  have "sl_reached_end ?s"
    using search_pages_follow_hits [OF session ok] by (simp add: sample res(2))
  moreover have "map mrd_token (sl_rows ?s) = [replicate 42 CHR ''m'']"
    using rows by (cases r) (simp add: on_first_hits_def)
  ultimately have "map mrd_token (sl_rows ?s) = [replicate 42 CHR ''m''] \<and> sl_reached_end ?s" by (intro conjI)
  then show ?thesis by (intro exI [of _ ?s] conjI [OF session])
qed

end
