(* ===== verification/Events.thy ===== *)
theory Events
  imports Sessions
begin

text \<open>
  The stream of account-change nudges (\<open>crates/core/src/event\<close>,
  \<open>crates/frontend/src/server/events.rs\<close>): a broadcast bus to which services publish, and per
  connected browser a stream that waits for a change, swallows what follows for a fixed window
  and then emits one event. The bus as one receiver sees it is a parameter (the broadcast channel
  of \<open>tokio\<close>): \<open>broadcast_ok\<close> states what its documentation promises. The stream is a
  state machine that is polled; publishers, the clock and the end of the program interleave with
  it in any order.
\<close>

section \<open>The bus\<close>

datatype AppEvent = AccountsChanged

datatype RecvError = Lagged u64 | Closed

text \<open>
  One receiver's view of the channel: publishing, the last sender going away, and \<open>recv\<close>,
  which yields nothing (\<open>None\<close>) while it has to wait.
\<close>

record 'c broadcast =
  bc_send :: "AppEvent \<Rightarrow> 'c \<Rightarrow> 'c"
  bc_shut :: "'c \<Rightarrow> 'c"
  bc_recv :: "'c \<Rightarrow> ((RecvError + AppEvent) \<times> 'c) option"

text \<open>
  A receiver gets, in turn, every value sent after it subscribed, or an error that says how many
  it missed; it is told that the channel is closed only when no sender is left and it has seen
  everything; otherwise it waits.
\<close>

definition broadcast_ok :: "'c broadcast \<Rightarrow> ('c \<Rightarrow> bool) \<Rightarrow> ('c \<Rightarrow> bool) \<Rightarrow> bool" where
  "broadcast_ok bc unseen shut \<longleftrightarrow>
    (\<forall>c e. unseen (bc_send bc e c) \<and> shut (bc_send bc e c) = shut c) \<and>
    (\<forall>c. unseen (bc_shut bc c) = unseen c \<and> shut (bc_shut bc c)) \<and>
    (\<forall>c. case bc_recv bc c of
       None \<Rightarrow> \<not> unseen c \<and> \<not> shut c
     | Some (Inl Closed, c') \<Rightarrow> \<not> unseen c \<and> shut c \<and> \<not> unseen c' \<and> shut c'
     | Some (_, c') \<Rightarrow> unseen c \<and> shut c' = shut c)"

section \<open>The stream\<close>

definition DEBOUNCE :: time where
  "DEBOUNCE = 500 * 1000000"

text \<open>Waiting for the first event of a burst, inside the window, or ended.\<close>

datatype phase = Waiting | Draining time | Ended

text \<open>
  The clock, the receiver, and the times at which an event was emitted. The times at which a
  change was published since the subscription are kept for the statements only.
\<close>

record 'c stream =
  es_now :: time
  es_rx :: 'c
  es_phase :: phase
  es_emitted :: "time list"
  es_changes :: "time list"

definition bus_notify :: "'c broadcast \<Rightarrow> 'c stream \<Rightarrow> 'c stream" where
  "bus_notify bc s =
    s\<lparr>es_rx := bc_send bc AccountsChanged (es_rx s), es_changes := es_now s # es_changes s\<rparr>"

definition emit :: "'c stream \<Rightarrow> 'c stream" where
  "emit s = s\<lparr>es_phase := Waiting, es_emitted := es_now s # es_emitted s\<rparr>"

text \<open>
  One poll inside the window: when both branches of the \<open>select!\<close> are ready either may be
  taken, as \<open>deadline_first\<close> says.
\<close>

definition drain_window :: "'c broadcast \<Rightarrow> bool \<Rightarrow> time \<Rightarrow> 'c stream \<Rightarrow> 'c stream" where
  "drain_window bc deadline_first deadline s =
    (case bc_recv bc (es_rx s) of
       None \<Rightarrow> if deadline \<le> es_now s then emit s else s
     | Some (r, rx) \<Rightarrow>
         if deadline \<le> es_now s \<and> deadline_first then emit s
         else (case r of
           Inr _ \<Rightarrow> s\<lparr>es_rx := rx\<rparr>
         | Inl (Lagged _) \<Rightarrow> s\<lparr>es_rx := rx\<rparr>
         | Inl Closed \<Rightarrow> emit (s\<lparr>es_rx := rx\<rparr>)))"

text \<open>One poll of the stream.\<close>

definition account_event_stream :: "'c broadcast \<Rightarrow> bool \<Rightarrow> 'c stream \<Rightarrow> 'c stream" where
  "account_event_stream bc deadline_first s =
    (case es_phase s of
       Waiting \<Rightarrow>
         (case bc_recv bc (es_rx s) of
            None \<Rightarrow> s
          | Some (Inr AccountsChanged, rx) \<Rightarrow> s\<lparr>es_rx := rx, es_phase := Draining (es_now s + DEBOUNCE)\<rparr>
          | Some (Inl (Lagged _), rx) \<Rightarrow> s\<lparr>es_rx := rx, es_phase := Draining (es_now s + DEBOUNCE)\<rparr>
          | Some (Inl Closed, rx) \<Rightarrow> s\<lparr>es_rx := rx, es_phase := Ended\<rparr>)
     | Draining deadline \<Rightarrow> drain_window bc deadline_first deadline s
     | Ended \<Rightarrow> s)"

text \<open>The endpoint: a stream over a fresh subscription for a signed-in user, or status 401.\<close>

definition events_handler :: "AuthUser option \<Rightarrow> time \<Rightarrow> 'c \<Rightarrow> nat + 'c stream" where
  "events_handler current_user now rx =
    (if (case current_user of None \<Rightarrow> False | Some u \<Rightarrow> is_authenticated u)
     then Inr \<lparr>es_now = now, es_rx = rx, es_phase = Waiting, es_emitted = [], es_changes = []\<rparr>
     else Inl 401)"

section \<open>The stream among publishers and the clock\<close>

text \<open>
  A prompt executor lets no time pass while a poll has something to do: nothing while a message
  waits for an idle stream, and no more than the rest of the window inside one.
\<close>

definition not_due :: "'c broadcast \<Rightarrow> 'c stream \<Rightarrow> time \<Rightarrow> bool" where
  "not_due bc s t \<longleftrightarrow>
    (case es_phase s of
       Waiting \<Rightarrow> bc_recv bc (es_rx s) = None
     | Draining deadline \<Rightarrow> t \<le> deadline
     | Ended \<Rightarrow> True)"

inductive events_step ::
  "'c broadcast \<Rightarrow> ('c \<Rightarrow> bool) \<Rightarrow> bool \<Rightarrow> 'c stream \<Rightarrow> 'c stream \<Rightarrow> bool"
for bc shut prompt where
  publish: "\<not> shut (es_rx s) \<Longrightarrow> events_step bc shut prompt s (bus_notify bc s)"
| shutdown: "events_step bc shut prompt s (s\<lparr>es_rx := bc_shut bc (es_rx s)\<rparr>)"
| poll: "events_step bc shut prompt s (account_event_stream bc deadline_first s)"
| tick: "es_now s \<le> t \<Longrightarrow> (prompt \<Longrightarrow> not_due bc s t) \<Longrightarrow> events_step bc shut prompt s (s\<lparr>es_now := t\<rparr>)"

inductive_cases events_stepE: "events_step bc shut prompt s s'"

inductive events_reach ::
  "'c broadcast \<Rightarrow> ('c \<Rightarrow> bool) \<Rightarrow> bool \<Rightarrow> 'c stream \<Rightarrow> bool"
for bc shut prompt where
  opened: "events_handler (Some u) now rx = Inr s \<Longrightarrow> events_reach bc shut prompt s"
| step: "events_reach bc shut prompt s \<Longrightarrow> events_step bc shut prompt s s' \<Longrightarrow> events_reach bc shut prompt s'"

end
