(* ===== verification/EventsProps.thy ===== *)
theory EventsProps
  imports Events
begin

text \<open>
  What the stream of nudges promises a browser (\<open>crates/frontend/src/server/events.rs\<close>): no
  change is lost, a prompt stream announces each within one window, and nudges are a window
  apart. All three rest on one invariant of the reachable states.
\<close>

section \<open>What the bus gives\<close>

lemma bus_send:
  "broadcast_ok bc unseen shut \<Longrightarrow> unseen (bc_send bc e c)"
  "broadcast_ok bc unseen shut \<Longrightarrow> shut (bc_send bc e c) = shut c"
  by (auto simp: broadcast_ok_def)

lemma bus_shut:
  "broadcast_ok bc unseen shut \<Longrightarrow> unseen (bc_shut bc c) = unseen c"
  "broadcast_ok bc unseen shut \<Longrightarrow> shut (bc_shut bc c)"
  by (auto simp: broadcast_ok_def)

lemma bus_recv:
  assumes "broadcast_ok bc unseen shut"
  shows "bc_recv bc c = None \<Longrightarrow> \<not> unseen c \<and> \<not> shut c"
    and "bc_recv bc c = Some (Inl Closed, c') \<Longrightarrow> \<not> unseen c \<and> shut c \<and> \<not> unseen c' \<and> shut c'"
    and "bc_recv bc c = Some (Inr e, c') \<Longrightarrow> unseen c \<and> shut c' = shut c"
    and "bc_recv bc c = Some (Inl (Lagged n), c') \<Longrightarrow> unseen c \<and> shut c' = shut c"
proof -
  from assms have r: "case bc_recv bc c of
       None \<Rightarrow> \<not> unseen c \<and> \<not> shut c
     | Some (Inl Closed, c') \<Rightarrow> \<not> unseen c \<and> shut c \<and> \<not> unseen c' \<and> shut c'
     | Some (_, c') \<Rightarrow> unseen c \<and> shut c' = shut c"
    unfolding broadcast_ok_def by blast
  show "bc_recv bc c = None \<Longrightarrow> \<not> unseen c \<and> \<not> shut c" using r by simp
  show "bc_recv bc c = Some (Inl Closed, c') \<Longrightarrow> \<not> unseen c \<and> shut c \<and> \<not> unseen c' \<and> shut c'"
    using r by simp
  show "bc_recv bc c = Some (Inr e, c') \<Longrightarrow> unseen c \<and> shut c' = shut c" using r by simp
  show "bc_recv bc c = Some (Inl (Lagged n), c') \<Longrightarrow> unseen c \<and> shut c' = shut c" using r by simp
qed

section \<open>One poll\<close>

text \<open>What a poll can do, as four moves: nothing, start a window, swallow, emit, end.\<close>

lemma poll_cases:
  assumes ok: "broadcast_ok bc unseen shut"
  obtains (idle) "account_event_stream bc b s = s"
  | (start) rx where "es_phase s = Waiting" "unseen (es_rx s)" "shut rx = shut (es_rx s)"
      "account_event_stream bc b s = s\<lparr>es_rx := rx, es_phase := Draining (es_now s + DEBOUNCE)\<rparr>"
  | (swallow) d rx where "es_phase s = Draining d" "shut rx = shut (es_rx s)"
      "account_event_stream bc b s = s\<lparr>es_rx := rx\<rparr>"
  | (elapsed) d where "es_phase s = Draining d" "d \<le> es_now s" "account_event_stream bc b s = emit s"
  | (closing) d rx where "es_phase s = Draining d" "shut rx" "\<not> unseen rx"
      "account_event_stream bc b s = emit (s\<lparr>es_rx := rx\<rparr>)"
  | (ended) rx where "es_phase s = Waiting" "\<not> unseen (es_rx s)" "\<not> unseen rx" "shut (es_rx s)" "shut rx"
      "account_event_stream bc b s = s\<lparr>es_rx := rx, es_phase := Ended\<rparr>"
proof (cases "es_phase s")
  case Waiting
  show thesis
  proof (cases "bc_recv bc (es_rx s)")
    case None
    with Waiting idle show ?thesis by (simp add: account_event_stream_def)
  next
    case (Some x)
    obtain r rx where x: "x = (r, rx)" by (cases x)
    show ?thesis
    proof (cases r)
      case (Inr e)
      with Waiting Some x start [of rx] bus_recv(3) [OF ok] show ?thesis
        by (cases e) (simp add: account_event_stream_def)
    next
      case (Inl e)
      with Waiting Some x start [of rx] ended [of rx] bus_recv(2,4) [OF ok] show ?thesis
        by (cases e) (simp_all add: account_event_stream_def)
    qed
  qed
next
  case (Draining d)
  show thesis
  proof (cases "bc_recv bc (es_rx s)")
    case None
    with Draining idle elapsed show ?thesis
      by (cases "d \<le> es_now s") (simp_all add: account_event_stream_def drain_window_def)
  next
    case (Some x)
    obtain r rx where x: "x = (r, rx)" by (cases x)
    show ?thesis
    proof (cases "d \<le> es_now s \<and> b")
      case True
      with Draining Some x elapsed show ?thesis
        by (simp add: account_event_stream_def drain_window_def)
    next
      case late: False
      show ?thesis
      proof (cases r)
        case (Inr e)
        with Draining Some x late swallow [of d rx] bus_recv(3) [OF ok] show ?thesis
          by (auto simp: account_event_stream_def drain_window_def)
      next
        case (Inl e)
        with Draining Some x late swallow [of d rx] closing [of d rx] bus_recv(2,4) [OF ok] show ?thesis
          by (cases e) (auto simp: account_event_stream_def drain_window_def)
      qed
    qed
  qed
next
  case Ended
  with idle show thesis by (simp add: account_event_stream_def)
qed

section \<open>Invariants of a stream\<close>

text \<open>
  A predicate that every move keeps holds in every reachable state: a change published, the bus
  shut, the moves of a poll, and time passing.
\<close>

lemma events_reach_invariant [consumes 2, case_names opened publish shutdown start swallow elapsed closing ended tick]:
  assumes "events_reach bc shut prompt s" and ok: "broadcast_ok bc unseen shut"
    and "\<And>now rx. I \<lparr>es_now = now, es_rx = rx, es_phase = Waiting, es_emitted = [], es_changes = []\<rparr>"
    and "\<And>s. I s \<Longrightarrow> \<not> shut (es_rx s) \<Longrightarrow> I (bus_notify bc s)"
    and "\<And>s. I s \<Longrightarrow> I (s\<lparr>es_rx := bc_shut bc (es_rx s)\<rparr>)"
    and "\<And>s rx. I s \<Longrightarrow> es_phase s = Waiting \<Longrightarrow> unseen (es_rx s) \<Longrightarrow> shut rx = shut (es_rx s) \<Longrightarrow>
           I (s\<lparr>es_rx := rx, es_phase := Draining (es_now s + DEBOUNCE)\<rparr>)"
    and "\<And>s d rx. I s \<Longrightarrow> es_phase s = Draining d \<Longrightarrow> shut rx = shut (es_rx s) \<Longrightarrow> I (s\<lparr>es_rx := rx\<rparr>)"
    and "\<And>s d. I s \<Longrightarrow> es_phase s = Draining d \<Longrightarrow> d \<le> es_now s \<Longrightarrow> I (emit s)"
    and "\<And>s d rx. I s \<Longrightarrow> es_phase s = Draining d \<Longrightarrow> shut rx \<Longrightarrow> \<not> unseen rx \<Longrightarrow> I (emit (s\<lparr>es_rx := rx\<rparr>))"
    and "\<And>s rx. I s \<Longrightarrow> es_phase s = Waiting \<Longrightarrow> \<not> unseen (es_rx s) \<Longrightarrow> \<not> unseen rx \<Longrightarrow> shut (es_rx s) \<Longrightarrow>
           shut rx \<Longrightarrow> I (s\<lparr>es_rx := rx, es_phase := Ended\<rparr>)"
    and "\<And>s t. I s \<Longrightarrow> es_now s \<le> t \<Longrightarrow> (prompt \<Longrightarrow> not_due bc s t) \<Longrightarrow> I (s\<lparr>es_now := t\<rparr>)"
  shows "I s"
  using assms(1)
proof (induction rule: events_reach.induct)
  case (opened u now rx s)
  with assms(3) show ?case by (auto simp: events_handler_def split: if_splits)
next
  case (step s s')
  from step.hyps(2) show ?case
  proof (cases rule: events_step.cases)
    case (poll b)
    from poll_cases [OF ok, of b s] show ?thesis
      by cases (simp_all add: poll assms step.IH)
  qed (use step.IH assms(4,5,11) in auto)
qed

definition announced :: "'c stream \<Rightarrow> time \<Rightarrow> bool" where
  "announced s t \<longleftrightarrow> (\<exists>e \<in> set (es_emitted s). t \<le> e)"

text \<open>A change is on its way while a window is open or the receiver has not seen it.\<close>

definition none_lost :: "('c \<Rightarrow> bool) \<Rightarrow> ('c \<Rightarrow> bool) \<Rightarrow> 'c stream \<Rightarrow> bool" where
  "none_lost unseen shut s \<longleftrightarrow>
    (\<forall>t \<in> set (es_changes s). t \<le> es_now s) \<and> (es_phase s = Ended \<longrightarrow> shut (es_rx s)) \<and>
    ((\<exists>d. es_phase s = Draining d) \<or> (es_phase s = Waiting \<and> unseen (es_rx s))
     \<or> (\<forall>t \<in> set (es_changes s). announced s t))"

lemma reach_none_lost:
  assumes reach: "events_reach bc shut prompt s" and ok: "broadcast_ok bc unseen shut"
  shows "none_lost unseen shut s"
  using reach ok
proof (induction rule: events_reach_invariant)
  case (publish s)
  with bus_send [OF ok] show ?case
    by (cases "es_phase s") (auto simp: none_lost_def bus_notify_def announced_def)
next
  case (shutdown s)
  with bus_shut [OF ok] show ?case by (auto simp: none_lost_def announced_def)
next
  case (tick s t)
  then show ?case by (force simp: none_lost_def announced_def)
qed (auto simp: none_lost_def announced_def emit_def)

text \<open>Under a prompt executor what is on its way arrives before its window closes.\<close>

definition in_time :: "time \<Rightarrow> time \<Rightarrow> bool" where
  "in_time t e \<longleftrightarrow> t \<le> e \<and> e \<le> t + DEBOUNCE"

definition timely :: "('c \<Rightarrow> bool) \<Rightarrow> ('c \<Rightarrow> bool) \<Rightarrow> 'c stream \<Rightarrow> bool" where
  "timely unseen shut s \<longleftrightarrow>
    (es_phase s = Ended \<longrightarrow> shut (es_rx s)) \<and>
    (\<forall>d. es_phase s = Draining d \<longrightarrow> es_now s \<le> d \<and> d \<le> es_now s + DEBOUNCE) \<and>
    (\<forall>t \<in> set (es_changes s).
      (\<exists>e \<in> set (es_emitted s). in_time t e) \<or>
      (\<exists>d. es_phase s = Draining d \<and> t \<le> es_now s \<and> d \<le> t + DEBOUNCE) \<or>
      (es_phase s = Waiting \<and> unseen (es_rx s) \<and> t = es_now s))"

lemma reach_timely:
  assumes reach: "events_reach bc shut True s" and ok: "broadcast_ok bc unseen shut"
  shows "timely unseen shut s"
  using reach ok
proof (induction rule: events_reach_invariant)
  case (publish s)
  with bus_send [OF ok] show ?case
    by (cases "es_phase s") (auto simp: timely_def bus_notify_def)
next
  case (shutdown s)
  with bus_shut [OF ok] show ?case by (auto simp: timely_def)
next
  case (tick s t)
  then have due: "not_due bc s t" by simp
  show ?case
  proof (cases "es_phase s")
    case Waiting
    with due have "\<not> unseen (es_rx s)" using bus_recv(1) [OF ok] by (simp add: not_due_def)
    with tick Waiting show ?thesis by (auto simp: timely_def)
  next
    case (Draining d)
    with due have "t \<le> d" by (simp add: not_due_def)
    with tick Draining show ?thesis by (force simp: timely_def)
  next
    case Ended
    with tick show ?thesis by (auto simp: timely_def)
  qed
next
  case (start s rx)
  then show ?case by (force simp: timely_def DEBOUNCE_def)
next
  case (swallow s d rx)
  then show ?case by (auto simp: timely_def)
next
  case (elapsed s d)
  then show ?case by (auto simp: timely_def emit_def in_time_def)
next
  case (closing s d rx)
  then show ?case by (auto simp: timely_def emit_def in_time_def)
qed (auto simp: timely_def)

text \<open>Nudges, newest first, a window apart.\<close>

fun spaced :: "time list \<Rightarrow> bool" where
  "spaced (a # b # es) \<longleftrightarrow> b + DEBOUNCE \<le> a \<and> spaced (b # es)"
| "spaced _ \<longleftrightarrow> True"

definition rationed :: "('c \<Rightarrow> bool) \<Rightarrow> ('c \<Rightarrow> bool) \<Rightarrow> 'c stream \<Rightarrow> bool" where
  "rationed unseen shut s \<longleftrightarrow>
    (\<forall>e \<in> set (es_emitted s). e \<le> es_now s) \<and>
    (\<forall>d. es_phase s = Draining d \<longrightarrow> (\<forall>e \<in> set (es_emitted s). e + DEBOUNCE \<le> d)) \<and>
    (spaced (es_emitted s) \<or>
     (shut (es_rx s) \<and> \<not> unseen (es_rx s) \<and> (\<forall>d. es_phase s \<noteq> Draining d) \<and> spaced (tl (es_emitted s))))"

lemma spaced_Cons: "spaced (e # es) \<longleftrightarrow> (es = [] \<or> hd es + DEBOUNCE \<le> e) \<and> spaced es"
  by (cases es) auto

lemma reach_rationed:
  assumes reach: "events_reach bc shut prompt s" and ok: "broadcast_ok bc unseen shut"
  shows "rationed unseen shut s"
  using reach ok
proof (induction rule: events_reach_invariant)
  case (publish s)
  then show ?case by (auto simp: rationed_def bus_notify_def)
next
  case (shutdown s)
  with bus_shut [OF ok] show ?case by (auto simp: rationed_def)
next
  case (tick s t)
  then show ?case by (force simp: rationed_def)
next
  case (elapsed s d)
  then have "spaced (es_emitted s)" and "\<forall>e \<in> set (es_emitted s). e + DEBOUNCE \<le> d"
    by (auto simp: rationed_def)
  with elapsed(3) have "spaced (es_now s # es_emitted s)"
    by (cases "es_emitted s") auto
  with elapsed show ?case by (auto simp: rationed_def emit_def)
qed (auto simp: rationed_def emit_def)

section \<open>The properties\<close>

text \<open>
  C23. No change is lost. Whatever the interleaving of publishers, the clock, the end of the
  program and the choices of \<open>select!\<close>, whenever the stream has nothing left to do (it waits
  and the bus has nothing for it, or it has ended) every change published since the subscription
  was followed by a nudge.
\<close>

theorem no_change_unannounced:
  assumes "broadcast_ok bc unseen shut" and "events_reach bc shut prompt s"
    and "es_phase s = Waiting \<and> bc_recv bc (es_rx s) = None \<or> es_phase s = Ended"
    and "t \<in> set (es_changes s)"
  shows "\<exists>e \<in> set (es_emitted s). t \<le> e"
  using reach_none_lost [OF assms(2,1)] bus_recv(1) [OF assms(1)] assms(3,4)
  by (auto simp: none_lost_def announced_def)

text \<open>
  C40. Nudges come in time and are rationed. If the executor polls a stream that has something to
  do before it lets time pass, each change is nudged at most one window (500 ms) after it was
  published, or that window is still open; and two nudges of a stream are a window apart, but for
  the last one when the program ends.
\<close>

theorem nudges_in_time_and_apart:
  assumes "broadcast_ok bc unseen shut" and "events_reach bc shut True s"
  shows "(\<forall>t \<in> set (es_changes s). t + DEBOUNCE < es_now s \<longrightarrow>
      (\<exists>e \<in> set (es_emitted s). t \<le> e \<and> e \<le> t + DEBOUNCE)) \<and>
    (spaced (es_emitted s) \<or> (shut (es_rx s) \<and> spaced (tl (es_emitted s))))"
proof
  note timely = reach_timely [OF assms(2,1)]
  show "\<forall>t \<in> set (es_changes s). t + DEBOUNCE < es_now s \<longrightarrow>
      (\<exists>e \<in> set (es_emitted s). t \<le> e \<and> e \<le> t + DEBOUNCE)"
  proof (intro ballI impI)
    fix t assume t: "t \<in> set (es_changes s)" and late: "t + DEBOUNCE < es_now s"
    from timely t late show "\<exists>e \<in> set (es_emitted s). t \<le> e \<and> e \<le> t + DEBOUNCE"
      by (fastforce simp: timely_def in_time_def DEBOUNCE_def)
  qed
  show "spaced (es_emitted s) \<or> (shut (es_rx s) \<and> spaced (tl (es_emitted s)))"
    using reach_rationed [OF assms(2,1)] by (auto simp: rationed_def)
qed

section \<open>Witnesses\<close>

text \<open>A bounded queue that counts what a slow receiver missed, as the channel does.\<close>

record queue_view =
  qv_held :: nat
  qv_missed :: nat
  qv_shut :: bool

definition queue_bus :: "nat \<Rightarrow> queue_view broadcast" where
  "queue_bus capacity = \<lparr>
    bc_send = (\<lambda>_ q. if qv_held q < capacity then q\<lparr>qv_held := Suc (qv_held q)\<rparr>
                     else q\<lparr>qv_missed := Suc (qv_missed q)\<rparr>),
    bc_shut = (\<lambda>q. q\<lparr>qv_shut := True\<rparr>),
    bc_recv = (\<lambda>q. if 0 < qv_missed q then Some (Inl (Lagged (of_nat (qv_missed q))), q\<lparr>qv_missed := 0\<rparr>)
                   else if 0 < qv_held q then Some (Inr AccountsChanged, q\<lparr>qv_held := qv_held q - 1\<rparr>)
                   else if qv_shut q then Some (Inl Closed, q) else None)\<rparr>"

definition queue_unseen :: "queue_view \<Rightarrow> bool" where
  "queue_unseen q \<longleftrightarrow> 0 < qv_held q \<or> 0 < qv_missed q"

lemma queue_bus_ok: "broadcast_ok (queue_bus capacity) queue_unseen qv_shut"
  by (auto simp: broadcast_ok_def queue_bus_def queue_unseen_def)

definition page_user :: AuthUser where
  "page_user = \<lparr>au_id = 1, au_anonymous = False, au_username = ''bob'', au_permissions = {}\<rparr>"

text \<open>Two changes within one window, one nudge; then the program ends.\<close>

definition opened_stream :: "queue_view stream" where
  "opened_stream = \<lparr>es_now = 0, es_rx = \<lparr>qv_held = 0, qv_missed = 0, qv_shut = False\<rparr>, es_phase = Waiting,
     es_emitted = [], es_changes = []\<rparr>"

definition at_time :: "time \<Rightarrow> 'c stream \<Rightarrow> 'c stream" where
  "at_time t s = s\<lparr>es_now := t\<rparr>"

definition polled :: "queue_view stream \<Rightarrow> queue_view stream" where
  "polled = account_event_stream (queue_bus 1) True"

definition burst_window :: "queue_view stream" where
  "burst_window = polled (bus_notify (queue_bus 1) (at_time 1000 (polled (bus_notify (queue_bus 1) opened_stream))))"

definition burst_nudged :: "queue_view stream" where
  "burst_nudged = polled (at_time 500000000 burst_window)"

definition burst_over :: "queue_view stream" where
  "burst_over = at_time 600000000 burst_nudged"

lemmas burst_defs = burst_over_def burst_nudged_def burst_window_def polled_def at_time_def opened_stream_def
  account_event_stream_def drain_window_def emit_def bus_notify_def queue_bus_def DEBOUNCE_def

lemma burst_reach: "events_reach (queue_bus 1) qv_shut True burst_over"
proof -
  note step = events_reach.step
  have 0: "events_reach (queue_bus 1) qv_shut True opened_stream"
    by (rule events_reach.opened [of page_user 0])
      (simp add: events_handler_def page_user_def is_authenticated_def opened_stream_def)
  have 1: "events_reach (queue_bus 1) qv_shut True (bus_notify (queue_bus 1) opened_stream)"
    by (rule step [OF 0]) (rule publish, simp add: opened_stream_def)
  have 2: "events_reach (queue_bus 1) qv_shut True (polled (bus_notify (queue_bus 1) opened_stream))"
    unfolding polled_def by (rule step [OF 1]) (rule poll)
  have 3: "events_reach (queue_bus 1) qv_shut True (at_time 1000 (polled (bus_notify (queue_bus 1) opened_stream)))"
    unfolding at_time_def by (rule step [OF 2]) (rule tick, simp_all add: burst_defs not_due_def)
  have 4: "events_reach (queue_bus 1) qv_shut True
      (bus_notify (queue_bus 1) (at_time 1000 (polled (bus_notify (queue_bus 1) opened_stream))))"
    by (rule step [OF 3]) (rule publish, simp add: burst_defs)
  have 5: "events_reach (queue_bus 1) qv_shut True burst_window"
    unfolding burst_window_def by (subst polled_def) (rule step [OF 4], rule poll)
  have 6: "events_reach (queue_bus 1) qv_shut True (at_time 500000000 burst_window)"
    unfolding at_time_def by (rule step [OF 5]) (rule tick, simp_all add: burst_defs not_due_def)
  have 7: "events_reach (queue_bus 1) qv_shut True burst_nudged"
    unfolding burst_nudged_def by (subst polled_def) (rule step [OF 6], rule poll)
  show ?thesis
    unfolding burst_over_def at_time_def by (rule step [OF 7]) (rule tick, simp_all add: burst_defs not_due_def)
qed

lemma burst_state:
  "es_phase burst_over = Waiting" "bc_recv (queue_bus 1) (es_rx burst_over) = None"
  "es_changes burst_over = [1000, 0]" "es_emitted burst_over = [500000000]" "es_now burst_over = 600000000"
  by (simp_all add: burst_defs)

theorem no_change_unannounced_witness:
  "es_changes burst_over = [1000, 0] \<and> es_emitted burst_over = [500000000] \<and>
   (\<exists>e \<in> set (es_emitted burst_over). 1000 \<le> e)"
  using no_change_unannounced [OF queue_bus_ok burst_reach, of 1000] by (simp add: burst_state)

theorem nudges_in_time_and_apart_witness:
  "\<exists>e \<in> set (es_emitted burst_over). 1000 \<le> e \<and> e \<le> 1000 + DEBOUNCE"
  using nudges_in_time_and_apart [OF queue_bus_ok burst_reach] by (simp add: burst_state DEBOUNCE_def)

end
