(* ===== verification/Completion.thy ===== *)
theory Completion
  imports Texts
begin

text \<open>
  Ghost-text completion of the search box (\<open>crates/frontend/src/components/search.rs\<close>): the
  suffix that completes the last token to a field name or to a value of a field with fixed
  values, appending it, and cycling through the alternatives. Offsets are byte offsets and a slice
  off a character boundary panics, which is the value \<open>None\<close>. Unicode lower-casing is the
  parameter \<open>lc\<close>.
\<close>

section \<open>The functions\<close>

definition FIELD_NAMES :: "string list" where
  "FIELD_NAMES = [''account'', ''folder'', ''subject'', ''from'', ''to'', ''before'', ''after'', ''date'',
     ''attachments'', ''has'']"

definition fixed_values :: "string \<Rightarrow> string list option" where
  "fixed_values field =
    (if eq_ignore_ascii_case field ''attachments'' then Some [''none'', ''some'']
     else if eq_ignore_ascii_case field ''has'' then Some [''attachment'']
     else None)"

definition ends_in_whitespace :: "string \<Rightarrow> bool" where
  "ends_in_whitespace s \<longleftrightarrow> chars s \<noteq> [] \<and> is_whitespace (last (chars s))"

text \<open>\<open>split_whitespace().last().unwrap_or("")\<close>.\<close>

definition last_token :: "string \<Rightarrow> string" where
  "last_token s = (case split_whitespace s of [] \<Rightarrow> [] | ws \<Rightarrow> last ws)"

text \<open>\<open>strip_prefix('!')\<close>: the exclamation mark, if there is one, and the rest.\<close>

fun split_neg :: "string \<Rightarrow> string \<times> string" where
  "split_neg (c # s) = (if c = CHR ''!'' then (''!'', s) else ([], c # s))"
| "split_neg [] = ([], [])"

definition compute_completion :: "(string \<Rightarrow> string) \<Rightarrow> string \<Rightarrow> nat \<Rightarrow> string" where
  "compute_completion lc input cycle_idx =
    (if input = [] \<or> ends_in_whitespace input then []
     else let bare = snd (split_neg (last_token input)) in
       if bare = [] then []
       else case find_str '':'' bare of
         Some colon_pos \<Rightarrow>
           (case fixed_values (take colon_pos bare) of
              None \<Rightarrow> []
            | Some values \<Rightarrow>
                (let partial_value = drop (Suc colon_pos) bare in
                 if partial_value = [] then []
                 else let lower = lc partial_value; matches = filter (starts_with lower) values in
                   if matches = [] then []
                   else drop (length lower) (matches ! (cycle_idx mod length matches))))
       | None \<Rightarrow>
           (let lower = lc bare; field_matches = filter (starts_with lower) FIELD_NAMES in
            if field_matches = [] then []
            else drop (length lower) (field_matches ! (cycle_idx mod length field_matches)) @ '':''))"

text \<open>\<open>rfind(char::is_whitespace)\<close>, and the offset one byte after it.\<close>

fun rfind_whitespace :: "nat \<Rightarrow> string list \<Rightarrow> nat option" where
  "rfind_whitespace i [] = None"
| "rfind_whitespace i (c # cs) =
    (case rfind_whitespace (i + length c) cs of
       Some j \<Rightarrow> Some j
     | None \<Rightarrow> if is_whitespace c then Some i else None)"

definition last_space :: "string \<Rightarrow> nat" where
  "last_space s = (case rfind_whitespace 0 (chars s) of None \<Rightarrow> 0 | Some i \<Rightarrow> Suc i)"

definition slice_from :: "nat \<Rightarrow> string \<Rightarrow> string option" where
  "slice_from n s = (if is_char_boundary n s then Some (drop n s) else None)"

definition apply_completion :: "string \<Rightarrow> string \<Rightarrow> string option" where
  "apply_completion input suffix =
    (case (slice_to (last_space input) input, slice_from (last_space input) input) of
       (Some head, Some token) \<Rightarrow> Some (head @ token @ suffix)
     | _ \<Rightarrow> None)"

definition next_cycle_input :: "(string \<Rightarrow> string) \<Rightarrow> string \<Rightarrow> string \<Rightarrow> nat \<Rightarrow> string option option" where
  "next_cycle_input lc current_input cycle_prefix cycle_idx =
    (case slice_to (last_space current_input) current_input of
       None \<Rightarrow> None
     | Some head \<Rightarrow> Some (
         let (neg, prefix_bare) = split_neg cycle_prefix; lower = lc prefix_bare in
         case find_str '':'' lower of
           Some colon_pos \<Rightarrow>
             (case fixed_values (take colon_pos lower) of
                None \<Rightarrow> None
              | Some values \<Rightarrow>
                  (let matches = filter (starts_with (drop (Suc colon_pos) lower)) values in
                   if length matches < 2 then None
                   else Some (head @ neg @ take colon_pos lower @ '':'' @ matches ! (cycle_idx mod length matches))))
         | None \<Rightarrow>
             (let field_matches = filter (starts_with lower) FIELD_NAMES in
              if length field_matches < 2 then None
              else Some (head @ neg @ field_matches ! (cycle_idx mod length field_matches) @ '':''))))"

text \<open>The file's own tests.\<close>

lemma completion_tests:
  "compute_completion to_ascii_lowercase ''from '' 0 = ''''"
  "compute_completion to_ascii_lowercase ''!'' 0 = ''''"
  "compute_completion to_ascii_lowercase ''a'' 1 = ''fter:''"
  "compute_completion to_ascii_lowercase ''a'' 3 = ''ccount:''"
  "compute_completion to_ascii_lowercase ''has:att'' 0 = ''achment''"
  "compute_completion to_ascii_lowercase ''from:amazon fol'' 0 = ''der:''"
  "apply_completion ''from:amazon fol'' ''der:'' = Some ''from:amazon folder:''"
  "next_cycle_input to_ascii_lowercase ''!account:'' ''!a'' 1 = Some (Some ''!after:'')"
  "next_cycle_input to_ascii_lowercase ''attachments:some'' ''attachments:'' 2 = Some (Some ''attachments:none'')"
  by code_simp+

section \<open>Where the last token starts\<close>

text \<open>A text as its characters: what precedes the last token, and the token.\<close>

definition token_chars :: "string list \<Rightarrow> string list" where
  "token_chars cs = rev (takeWhile (\<lambda>c. \<not> is_whitespace c) (rev cs))"

definition head_chars :: "string list \<Rightarrow> string list" where
  "head_chars cs = rev (dropWhile (\<lambda>c. \<not> is_whitespace c) (rev cs))"

lemma head_token [simp]: "head_chars cs @ token_chars cs = cs"
  by (simp add: head_chars_def token_chars_def flip: rev_append)

lemma token_no_space: "c \<in> set (token_chars cs) \<Longrightarrow> \<not> is_whitespace c"
  by (auto simp: token_chars_def dest: set_takeWhileD)

lemma head_ends_in_space: "head_chars cs \<noteq> [] \<Longrightarrow> is_whitespace (last (head_chars cs))"
  using hd_dropWhile [of "\<lambda>c. \<not> is_whitespace c" "rev cs"] by (auto simp: head_chars_def last_rev)

lemma rfind_no_space: "\<forall>c \<in> set cs. \<not> is_whitespace c \<Longrightarrow> rfind_whitespace i cs = None"
  by (induction cs arbitrary: i) simp_all

lemma rfind_append:
  "rfind_whitespace i (as @ bs) =
    (case rfind_whitespace (i + length (concat as)) bs of Some j \<Rightarrow> Some j | None \<Rightarrow> rfind_whitespace i as)"
  by (induction as arbitrary: i) (auto simp: ac_simps split: option.splits)

lemma rfind_whitespace_eq:
  "rfind_whitespace 0 cs =
    (if head_chars cs = [] then None else Some (length (concat (butlast (head_chars cs)))))"
proof -
  have "rfind_whitespace 0 cs = rfind_whitespace 0 (head_chars cs)"
    using rfind_append [of 0 "head_chars cs" "token_chars cs"]
    by (simp add: rfind_no_space token_no_space)
  also have "\<dots> = (if head_chars cs = [] then None else Some (length (concat (butlast (head_chars cs)))))"
  proof (cases "head_chars cs = []")
    case False
    then have "head_chars cs = butlast (head_chars cs) @ [last (head_chars cs)]" by simp
    then show ?thesis
      using rfind_append [of 0 "butlast (head_chars cs)" "[last (head_chars cs)]"] head_ends_in_space [OF False] False
      by simp
  qed simp
  finally show ?thesis .
qed

text \<open>The last word of a text that does not end in white space is its token.\<close>

lemma words_of_spaces: "\<forall>c \<in> set cs. is_whitespace c \<Longrightarrow> words_of cs = []"
  by (subst words_of.simps) (simp add: dropWhile_eq_Nil_conv [THEN iffD2])

lemma last_suffix: "cs = as @ bs \<Longrightarrow> bs \<noteq> [] \<Longrightarrow> last cs = last bs"
  by simp

lemma token_chars_append:
  assumes "bs \<noteq> []" and "is_whitespace (hd bs)"
  shows "token_chars (as @ bs) = token_chars bs"
proof -
  from assms have "takeWhile (\<lambda>c. \<not> is_whitespace c) (rev bs @ rev as) = takeWhile (\<lambda>c. \<not> is_whitespace c) (rev bs)"
    by (intro takeWhile_append1 [of "hd bs"]) simp_all
  then show ?thesis by (simp add: token_chars_def)
qed

lemma last_word:
  assumes "cs \<noteq> []" and "\<not> is_whitespace (last cs)"
  shows "words_of cs \<noteq> [] \<and> last (words_of cs) = concat (token_chars cs)"
  using assms
proof (induction cs rule: words_of.induct)
  case (1 cs)
  let ?p = "\<lambda>c. \<not> is_whitespace c"
  from 1(2,3) have "\<exists>c \<in> set cs. ?p c" using last_in_set by blast
  then obtain d ds where cut: "dropWhile is_whitespace cs = d # ds"
    by (metis dropWhile_eq_Nil_conv list.exhaust)
  then have d: "?p d" using hd_dropWhile [of is_whitespace cs] by auto
  obtain pre where cs: "cs = pre @ d # ds" using cut by (metis takeWhile_dropWhile_id)
  have pre: "\<forall>c \<in> set pre. is_whitespace c"
    using cs cut takeWhile_dropWhile_id [of is_whitespace cs]
    by (metis append_same_eq set_takeWhileD)
  let ?rest = "dropWhile ?p ds"
  show ?case
  proof (cases "?rest = []")
    case True
    then have all: "\<forall>c \<in> set (d # ds). ?p c" using d by (auto simp: dropWhile_eq_Nil_conv)
    have "takeWhile ?p (rev cs) = rev (d # ds)"
    proof (cases pre rule: rev_cases)
      case (snoc as a)
      with pre all cs show ?thesis by (simp add: takeWhile_append)
    qed (use all cs in \<open>simp add: takeWhile_append\<close>)
    then have "token_chars cs = d # ds" by (simp add: token_chars_def)
    moreover have "words_of cs = [concat (d # ds)]"
      using all by (subst words_of.simps) (simp add: cut True words_of.simps [of "[]"] takeWhile_eq_all_conv [THEN iffD2])
    ultimately show ?thesis by simp
  next
    case False
    have parts: "cs = (pre @ d # takeWhile ?p ds) @ ?rest" by (simp add: cs)
    from last_suffix [OF parts False] 1(3) have l: "\<not> is_whitespace (last ?rest)" by simp
    from 1(1) [OF cut False l] have IH: "words_of ?rest \<noteq> []" "last (words_of ?rest) = concat (token_chars ?rest)"
      by auto
    have "is_whitespace (hd ?rest)" using hd_dropWhile [OF False] by simp
    then have "token_chars cs = token_chars ?rest"
      using token_chars_append [OF False] parts by metis
    with IH show ?thesis by (subst (1 2) words_of.simps) (simp add: cut)
  qed
qed

lemma last_token_eq:
  assumes "s \<noteq> []" and "\<not> ends_in_whitespace s"
  shows "last_token s = concat (token_chars (chars s))"
proof -
  from assms have "chars s \<noteq> []" by (cases s) simp_all
  with last_word [of "chars s"] assms(2) show ?thesis
    by (auto simp: last_token_def split_whitespace_def ends_in_whitespace_def split: list.splits)
qed

section \<open>When the slices panic\<close>

text \<open>The white-space character before the last token, if there is one.\<close>

definition last_whitespace :: "string \<Rightarrow> string option" where
  "last_whitespace s = (if head_chars (chars s) = [] then None else Some (last (head_chars (chars s))))"

lemma nth_after: "s = p @ b # y # r \<Longrightarrow> s ! Suc (length p) = y \<and> Suc (length p) < length s"
  by (simp add: nth_append)

lemma leads_after: "leads (as @ d # ds) \<Longrightarrow> as \<noteq> [] \<Longrightarrow> \<not> is_cont (hd d)"
  by (cases as) (simp_all add: leads_def)

lemma last_space_boundary:
  "is_char_boundary (last_space s) s \<longleftrightarrow> (\<forall>w. last_whitespace s = Some w \<longrightarrow> length w = 1)"
proof (cases "head_chars (chars s) = []")
  case True
  then show ?thesis
    by (simp add: last_space_def rfind_whitespace_eq last_whitespace_def is_char_boundary_def)
next
  case False
  let ?h = "head_chars (chars s)" and ?t = "token_chars (chars s)"
  let ?k = "length (concat (butlast ?h))"
  have leads: "leads ((butlast ?h @ [last ?h]) @ ?t)" using chars_leads [of s] False by simp
  then have "char_shaped (last ?h)" by (simp add: leads_def)
  then obtain b bs where w: "last ?h = b # bs" and bs: "\<forall>x \<in> set bs. is_cont x"
    by (auto simp: char_shaped_def neq_Nil_conv)
  have "concat ((butlast ?h @ [last ?h]) @ ?t) = s" using False by simp
  then have s: "s = concat (butlast ?h) @ b # bs @ concat ?t" by (simp add: w)
  have at: "last_space s = Suc ?k" using False by (simp add: last_space_def rfind_whitespace_eq)
  show ?thesis
  proof (cases bs)
    case Nil
    have "is_char_boundary (Suc ?k) s"
    proof (cases ?t)
      case (Cons d ds)
      from leads Cons have d: "char_shaped d" by (simp add: leads_def)
      from leads Cons have lead: "\<not> is_cont (hd d)"
        using leads_after [of "butlast ?h @ [last ?h]" d ds] by simp
      from d obtain y ys where y: "d = y # ys" by (auto simp: char_shaped_def neq_Nil_conv)
      have "s = concat (butlast ?h) @ b # y # ys @ concat ds" using s Nil Cons y by simp
      from nth_after [OF this] y have "s ! Suc ?k = hd d" "Suc ?k < length s" by simp_all
      with lead show ?thesis by (simp add: is_char_boundary_def)
    next
      case none: Nil
      from s Nil none have "s = concat (butlast ?h) @ [b]" by simp
      from arg_cong [OF this, of length] show ?thesis by (simp add: is_char_boundary_def)
    qed
    with at w Nil False show ?thesis by (simp add: last_whitespace_def)
  next
    case (Cons x xs)
    from s have "s = concat (butlast ?h) @ b # x # xs @ concat ?t" by (simp add: Cons)
    from nth_after [OF this] bs Cons have "s ! Suc ?k = x" "Suc ?k < length s" "is_cont x" by simp_all
    then have "\<not> is_char_boundary (Suc ?k) s" by (simp add: is_char_boundary_def)
    with at w Cons False show ?thesis by (simp add: last_whitespace_def)
  qed
qed

lemma apply_completion_eq:
  "apply_completion s suffix = (if is_char_boundary (last_space s) s then Some (s @ suffix) else None)"
  by (simp add: apply_completion_def slice_to_def slice_from_def flip: append_assoc)

lemma next_cycle_None_iff: "next_cycle_input lc s p i = None \<longleftrightarrow> \<not> is_char_boundary (last_space s) s"
  by (simp add: next_cycle_input_def slice_to_def)

end
