(* ===== verification/SearchBar.thy ===== *)
theory SearchBar
  imports Completion
begin

text \<open>
  The search box of the navigation bar and the right panel of the home page
  (\<open>crates/frontend/src/components/nav_bar.rs\<close>, \<open>selection.rs\<close>,
  \<open>crates/frontend/src/routes/home_page/mod.rs\<close>): the signals both read and write, every event
  handler of the box and of the rows, and the choice of what the panel shows. A handler that may
  panic yields an option.
\<close>

section \<open>State\<close>

definition PLACEHOLDER_TIPS :: "string list" where
  "PLACEHOLDER_TIPS = [''Try: from:amazon'', ''Try: subject:\"order confirmation\"'', ''Try: folder:orders !filters'',
     ''Try: after:2025-01-01'', ''Try: has:attachment'', ''Try: account:Fastmail coffee'']"

text \<open>
  The global signals (the text in the box, the submitted query, the selected account, the open
  message) and those of the box.
\<close>

record search_bar =
  SEARCH_QUERY :: string
  ACTIVE_SEARCH :: "string option"
  SELECTED_ACCOUNT :: "string option"
  OPEN_MESSAGE :: "string option"
  sb_focused :: bool
  sb_help_open :: bool
  sb_hint_seen :: bool
  sb_tip_index :: nat
  sb_completion :: string
  sb_cycle_prefix :: string
  sb_cycle_idx :: nat

definition initial_bar :: search_bar where
  "initial_bar = \<lparr>SEARCH_QUERY = [], ACTIVE_SEARCH = None, SELECTED_ACCOUNT = None, OPEN_MESSAGE = None,
     sb_focused = False, sb_help_open = False, sb_hint_seen = False, sb_tip_index = 0,
     sb_completion = [], sb_cycle_prefix = [], sb_cycle_idx = 0\<rparr>"

section \<open>The box\<close>

datatype Key = Enter | Tab | Escape | OtherKey

definition on_focus :: "search_bar \<Rightarrow> search_bar" where
  "on_focus s = s\<lparr>sb_focused := True\<rparr>"

definition on_blur :: "search_bar \<Rightarrow> search_bar" where
  "on_blur s = s\<lparr>sb_focused := False, sb_help_open := False, sb_hint_seen := True\<rparr>"

definition on_input :: "(string \<Rightarrow> string) \<Rightarrow> string \<Rightarrow> search_bar \<Rightarrow> search_bar" where
  "on_input lc val s =
    s\<lparr>SEARCH_QUERY := val, sb_help_open := False, sb_hint_seen := True, sb_cycle_prefix := [],
      sb_cycle_idx := 0, sb_completion := compute_completion lc val 0\<rparr>"

text \<open>What every key that ends a completion does.\<close>

definition reset_completion :: "search_bar \<Rightarrow> search_bar" where
  "reset_completion s = s\<lparr>sb_completion := [], sb_cycle_prefix := [], sb_cycle_idx := 0\<rparr>"

definition on_enter :: "search_bar \<Rightarrow> search_bar" where
  "on_enter s =
    reset_completion (s\<lparr>ACTIVE_SEARCH := (let trimmed = trim (SEARCH_QUERY s) in if trimmed = [] then None else Some trimmed),
      OPEN_MESSAGE := None\<rparr>)"

definition on_tab :: "(string \<Rightarrow> string) \<Rightarrow> search_bar \<Rightarrow> search_bar option" where
  "on_tab lc s =
    (if sb_cycle_prefix s \<noteq> [] \<and> sb_completion s \<noteq> [] then
       (case apply_completion (SEARCH_QUERY s) (sb_completion s) of
          None \<Rightarrow> None
        | Some applied \<Rightarrow>
            Some (s\<lparr>SEARCH_QUERY := applied, sb_cycle_idx := sb_cycle_idx s + 1, sb_completion := []\<rparr>))
     else if sb_completion s \<noteq> [] then
       (case apply_completion (SEARCH_QUERY s) (sb_completion s) of
          None \<Rightarrow> None
        | Some applied \<Rightarrow>
            Some (s\<lparr>SEARCH_QUERY := applied, sb_cycle_prefix := last_token (SEARCH_QUERY s),
              sb_cycle_idx := sb_cycle_idx s + 1, sb_completion := []\<rparr>))
     else if sb_cycle_prefix s \<noteq> [] then
       (case next_cycle_input lc (SEARCH_QUERY s) (sb_cycle_prefix s) (sb_cycle_idx s) of
          None \<Rightarrow> None
        | Some None \<Rightarrow> Some (s\<lparr>sb_cycle_idx := sb_cycle_idx s + 1\<rparr>)
        | Some (Some cycled) \<Rightarrow>
            Some (s\<lparr>sb_cycle_idx := sb_cycle_idx s + 1, SEARCH_QUERY := cycled, sb_completion := []\<rparr>))
     else Some s)"

definition on_escape :: "search_bar \<Rightarrow> search_bar" where
  "on_escape s =
    (if sb_completion s \<noteq> [] \<or> sb_cycle_prefix s \<noteq> [] then reset_completion s
     else s\<lparr>SEARCH_QUERY := [], ACTIVE_SEARCH := None\<rparr>)"

definition on_other_key :: "search_bar \<Rightarrow> search_bar" where
  "on_other_key s =
    (if sb_completion s \<noteq> [] \<or> sb_cycle_prefix s \<noteq> [] then reset_completion s else s)"

fun onkeydown :: "(string \<Rightarrow> string) \<Rightarrow> Key \<Rightarrow> search_bar \<Rightarrow> search_bar option" where
  "onkeydown lc Enter s = Some (on_enter s)"
| "onkeydown lc Tab s = on_tab lc s"
| "onkeydown lc Escape s = Some (on_escape s)"
| "onkeydown lc OtherKey s = Some (on_other_key s)"

text \<open>The clear button, the help button, and the timer that rotates the tips.\<close>

definition on_clear :: "search_bar \<Rightarrow> search_bar" where
  "on_clear s = s\<lparr>SEARCH_QUERY := [], ACTIVE_SEARCH := None\<rparr>"

definition on_help :: "search_bar \<Rightarrow> search_bar" where
  "on_help s = s\<lparr>sb_help_open := \<not> sb_help_open s\<rparr>"

definition on_tip_timer :: "search_bar \<Rightarrow> search_bar" where
  "on_tip_timer s =
    (if sb_focused s \<and> SEARCH_QUERY s = []
     then s\<lparr>sb_tip_index := (sb_tip_index s + 1) mod length PLACEHOLDER_TIPS\<rparr> else s)"

definition show_hint :: "search_bar \<Rightarrow> bool" where
  "show_hint s \<longleftrightarrow>
    (sb_focused s \<and> SEARCH_QUERY s = [] \<and> \<not> sb_hint_seen s) \<or> (sb_help_open s \<and> SEARCH_QUERY s = [])"

definition search_placeholder :: "search_bar \<Rightarrow> string" where
  "search_placeholder s =
    (if sb_focused s \<and> SEARCH_QUERY s = [] then PLACEHOLDER_TIPS ! (sb_tip_index s mod length PLACEHOLDER_TIPS)
     else ''Search mail'' @ map char_of [226 :: nat, 128, 166])"

section \<open>The home page\<close>

definition on_home :: "search_bar \<Rightarrow> search_bar" where
  "on_home s = s\<lparr>SELECTED_ACCOUNT := None, ACTIVE_SEARCH := None, SEARCH_QUERY := []\<rparr>"

definition on_account_row :: "string \<Rightarrow> search_bar \<Rightarrow> search_bar" where
  "on_account_row token s =
    s\<lparr>OPEN_MESSAGE := None, ACTIVE_SEARCH := None, SEARCH_QUERY := [],
      SELECTED_ACCOUNT := (if SELECTED_ACCOUNT s = Some token then None else Some token)\<rparr>"

definition on_open :: "string \<Rightarrow> search_bar \<Rightarrow> search_bar" where
  "on_open token s = s\<lparr>OPEN_MESSAGE := Some token\<rparr>"

definition on_close_viewer :: "search_bar \<Rightarrow> search_bar" where
  "on_close_viewer s = s\<lparr>OPEN_MESSAGE := None\<rparr>"

definition on_clear_search :: "search_bar \<Rightarrow> search_bar" where
  "on_clear_search s = s\<lparr>ACTIVE_SEARCH := None, SEARCH_QUERY := []\<rparr>"

text \<open>The effect that drops a selection whose account is no longer listed.\<close>

definition reconcile_selection :: "string list \<Rightarrow> search_bar \<Rightarrow> search_bar" where
  "reconcile_selection tokens s =
    (case SELECTED_ACCOUNT s of
       None \<Rightarrow> s
     | Some token \<Rightarrow>
         if token \<in> set tokens then s else s\<lparr>SELECTED_ACCOUNT := None, OPEN_MESSAGE := None\<rparr>)"

datatype right_panel =
    MessageViewer string
  | SearchResults string
  | MessageList string
  | StatsPanel

definition home_panel :: "search_bar \<Rightarrow> right_panel" where
  "home_panel s =
    (case OPEN_MESSAGE s of
       Some t \<Rightarrow> MessageViewer t
     | None \<Rightarrow> (case ACTIVE_SEARCH s of
         Some q \<Rightarrow> SearchResults q
       | None \<Rightarrow> (case SELECTED_ACCOUNT s of Some token \<Rightarrow> MessageList token | None \<Rightarrow> StatsPanel)))"

end
