(* ===== verification/SearchBarProps.thy ===== *)
theory SearchBarProps
  imports SearchBar
begin

text \<open>
  What the search box promises (\<open>crates/frontend/src/components/nav_bar.rs\<close>): pressing Tab
  walks through the field names the last token begins and comes round; the ghost text belongs to
  what is typed; and when a press of Tab panics.
\<close>

section \<open>Plain text\<close>

text \<open>Printable ASCII without blanks: each byte is a character of its own and no white space.\<close>

definition graphic :: "char \<Rightarrow> bool" where
  "graphic b \<longleftrightarrow> 33 \<le> (of_char b :: nat) \<and> (of_char b :: nat) < 127"

lemma graphic_not_cont: "graphic b \<Longrightarrow> \<not> is_cont b"
  by (simp add: graphic_def is_cont_def)

lemma chars_graphic: "\<forall>b \<in> set r. graphic b \<Longrightarrow> chars r = map (\<lambda>b. [b]) r"
proof (induction r)
  case (Cons b r)
  then have "takeWhile is_cont r = [] \<and> dropWhile is_cont r = r"
    by (cases r) (auto dest: graphic_not_cont)
  with Cons show ?case by simp
qed simp

lemma graphic_not_space: "graphic b \<Longrightarrow> \<not> is_whitespace [b]"
  by (auto simp: graphic_def is_whitespace_def)

lemma chars_append:
  assumes "r = [] \<or> s = [] \<or> \<not> is_cont (hd s)"
  shows "chars (r @ s) = chars r @ chars s"
proof (cases "r = [] \<or> s = []")
  case False
  then obtain c s' where s: "s = c # s'" by (cases s) auto
  have "leads (chars r @ chars s)"
    using chars_leads [of r] chars_leads [of s] assms False by (cases "chars r") (auto simp: leads_def s)
  from chars_concat [OF this] show ?thesis by simp
qed auto

lemma field_names_graphic: "\<forall>f \<in> set FIELD_NAMES. \<forall>b \<in> set f. graphic b"
  by code_simp

lemma field_names_no_colon: "\<forall>f \<in> set FIELD_NAMES. CHR '':'' \<notin> set f"
  by code_simp

lemma find_colon: "find_str '':'' s = None \<longleftrightarrow> CHR '':'' \<notin> set s"
  by (induction s) (auto simp: starts_with_def)

lemma prefix_of_field:
  assumes "f \<in> set (filter (starts_with l) FIELD_NAMES)"
  shows "find_str '':'' l = None"
proof -
  from assms have "f \<in> set FIELD_NAMES" "l = take (length l) f" by (auto simp: starts_with_def)
  with field_names_no_colon show ?thesis using in_set_takeD [of "CHR '':''" "length l" f] by (auto simp: find_colon)
qed

section \<open>The text before the last token\<close>

lemma last_space_le: "last_space s \<le> length s"
proof (cases "head_chars (chars s) = []")
  case False
  have "concat (head_chars (chars s)) @ concat (token_chars (chars s)) = s"
    by (metis concat_append concat_chars head_token)
  then have "length (concat (head_chars (chars s))) \<le> length s" by (metis le_add1 length_append)
  moreover have "concat (head_chars (chars s)) = concat (butlast (head_chars (chars s))) @ last (head_chars (chars s))"
    using False by (metis append_butlast_last_id concat.simps concat_append append_Nil2)
  moreover have "last (head_chars (chars s)) \<noteq> []"
    using False chars_nonempty [of "last (head_chars (chars s))" s]
    by (metis UnCI head_token last_in_set set_append)
  ultimately show ?thesis
    using False by (cases "last (head_chars (chars s))") (simp_all add: last_space_def rfind_whitespace_eq)
qed (simp add: last_space_def rfind_whitespace_eq)

definition ascii_space_before :: "string \<Rightarrow> bool" where
  "ascii_space_before s \<longleftrightarrow> (\<forall>w. last_whitespace s = Some w \<longrightarrow> length w = 1)"

lemma take_last_space:
  assumes "ascii_space_before s"
  shows "take (last_space s) s = concat (head_chars (chars s))"
proof (cases "head_chars (chars s) = []")
  case False
  let ?h = "head_chars (chars s)"
  from assms False have w: "length (last ?h) = 1" by (simp add: ascii_space_before_def last_whitespace_def)
  have h: "concat ?h = concat (butlast ?h) @ last ?h"
    using False by (metis append_butlast_last_id concat.simps concat_append append_Nil2)
  then have "last_space s = length (concat ?h)"
    using False w by (simp add: last_space_def rfind_whitespace_eq)
  moreover have "s = concat ?h @ concat (token_chars (chars s))"
    by (metis concat_append concat_chars head_token)
  ultimately show ?thesis by (metis append_eq_conv_conj)
qed (simp add: last_space_def rfind_whitespace_eq)

lemma head_chars_append:
  assumes "h = [] \<or> is_whitespace (last h)" and "\<forall>c \<in> set t. \<not> is_whitespace c"
  shows "head_chars (h @ t) = h"
proof -
  from assms(2) have "dropWhile (\<lambda>c. \<not> is_whitespace c) (rev t @ rev h) = dropWhile (\<lambda>c. \<not> is_whitespace c) (rev h)"
    by (intro dropWhile_append2) simp
  also have "\<dots> = rev h" using assms(1) by (cases h rule: rev_cases) simp_all
  finally show ?thesis by (simp add: head_chars_def)
qed

text \<open>Replacing the last token keeps what is before it.\<close>

lemma head_kept:
  assumes v: "ascii_space_before v" and r: "\<forall>c \<in> set (chars r). \<not> is_whitespace c"
    and lead: "head_chars (chars v) = [] \<or> r = [] \<or> \<not> is_cont (hd r)"
    and q: "q = concat (head_chars (chars v)) @ r"
  shows "head_chars (chars q) = head_chars (chars v)" and "ascii_space_before q"
    and "take (last_space q) q = concat (head_chars (chars v))"
proof -
  let ?h = "head_chars (chars v)"
  have "leads ?h" using chars_leads [of v] leads_take [of "chars v" "length ?h"] by (metis append_eq_conv_conj head_token)
  then have h: "chars (concat ?h) = ?h" by (rule chars_concat)
  have "concat ?h = [] \<or> r = [] \<or> \<not> is_cont (hd r)" using lead by auto
  then have "chars q = ?h @ chars r" using q h by (simp add: chars_append)
  then show eq: "head_chars (chars q) = ?h"
    using head_chars_append [OF _ r, of ?h] head_ends_in_space [of "chars v"] by auto
  with v show ok: "ascii_space_before q" by (simp add: ascii_space_before_def last_whitespace_def)
  from take_last_space [OF ok] eq show "take (last_space q) q = concat ?h" by simp
qed

section \<open>Pressing Tab\<close>

fun press_tabs :: "(string \<Rightarrow> string) \<Rightarrow> nat \<Rightarrow> search_bar \<Rightarrow> search_bar option" where
  "press_tabs lc 0 s = Some s"
| "press_tabs lc (Suc n) s = (case press_tabs lc n s of None \<Rightarrow> None | Some t \<Rightarrow> onkeydown lc Tab t)"

text \<open>A field name with its colon is plain, whatever of it is left out at the front.\<close>

lemma field_text:
  assumes "f \<in> set FIELD_NAMES"
  shows "\<forall>b \<in> set (drop n f @ '':''). graphic b"
  using field_names_graphic assms by (auto simp: graphic_def dest: in_set_dropD)

lemma split_neg_graphic: "split_neg t = (neg, p) \<Longrightarrow> t = neg @ p \<and> (\<forall>b \<in> set neg. graphic b)"
  by (cases t) (auto simp: graphic_def split: if_splits)

lemma graphic_text:
  assumes "\<forall>b \<in> set r. graphic b"
  shows "\<forall>c \<in> set (chars r). \<not> is_whitespace c" and "r = [] \<or> \<not> is_cont (hd r)"
  using assms by (auto simp: chars_graphic graphic_not_space) (cases r; simp add: graphic_not_cont)

lemma leads_suffix: "leads (as @ bs) \<Longrightarrow> leads bs"
  by (cases as; cases bs) (auto simp: leads_def)

text \<open>The first press completes the token; each further one puts the next field in its place.\<close>

lemma first_tab:
  assumes v: "v \<noteq> []" "\<not> ends_in_whitespace v" and space: "ascii_space_before v"
    and neg: "split_neg (last_token v) = (neg, p)" and p: "p \<noteq> []" "find_str '':'' p = None"
    and ms: "ms = filter (starts_with (lc p)) FIELD_NAMES" "ms \<noteq> []"
  shows "\<exists>t. onkeydown lc Tab (on_input lc v s) = Some t \<and> SEARCH_QUERY t = v @ drop (length (lc p)) (ms ! 0) @ '':'' \<and>
    ascii_space_before (SEARCH_QUERY t) \<and> take (last_space (SEARCH_QUERY t)) (SEARCH_QUERY t) = concat (head_chars (chars v)) \<and>
    head_chars (chars (SEARCH_QUERY t)) = head_chars (chars v) \<and>
    sb_completion t = [] \<and> sb_cycle_prefix t = last_token v \<and> sb_cycle_idx t = 1"
proof -
  define suffix where "suffix = drop (length (lc p)) (ms ! 0) @ '':''"
  have "compute_completion lc v 0 = suffix"
    using v neg p ms by (simp add: compute_completion_def suffix_def Let_def)
  moreover have "suffix \<noteq> []" by (simp add: suffix_def)
  moreover have "is_char_boundary (last_space v) v" using space by (simp add: last_space_boundary ascii_space_before_def)
  ultimately have tab: "onkeydown lc Tab (on_input lc v s) = Some ((on_input lc v s)
      \<lparr>SEARCH_QUERY := v @ suffix, sb_cycle_prefix := last_token v, sb_cycle_idx := 1, sb_completion := []\<rparr>)"
    by (simp add: on_tab_def on_input_def apply_completion_eq)
  have "ms ! 0 \<in> set FIELD_NAMES" using ms by (metis filter_is_subset length_greater_0_conv nth_mem subsetD)
  from graphic_text [OF field_text [OF this, of "length (lc p)"]]
  have plain: "\<forall>c \<in> set (chars suffix). \<not> is_whitespace c" "\<not> is_cont (hd suffix)"
    using \<open>suffix \<noteq> []\<close> by (auto simp: suffix_def)
  let ?t = "last_token v"
  have t: "?t = concat (token_chars (chars v))" by (rule last_token_eq [OF v])
  have leads: "leads (head_chars (chars v) @ token_chars (chars v))" using chars_leads [of v] by simp
  from leads_suffix [OF this] have ct: "chars ?t = token_chars (chars v)" by (simp add: t chars_concat)
  have "\<forall>c \<in> set (chars (?t @ suffix)). \<not> is_whitespace c"
    using plain token_no_space by (auto simp: chars_append ct)
  moreover have "head_chars (chars v) = [] \<or> ?t @ suffix = [] \<or> \<not> is_cont (hd (?t @ suffix))"
  proof (cases "token_chars (chars v)")
    case (Cons d ds)
    then have d: "d \<noteq> []" "?t @ suffix = d @ concat ds @ suffix"
      using leads t by (auto simp: leads_def char_shaped_def)
    with Cons leads leads_after [of "head_chars (chars v)" d ds] show ?thesis by (auto simp: hd_append)
  qed (use t plain in simp)
  moreover have "v @ suffix = concat (head_chars (chars v)) @ ?t @ suffix"
    by (metis append.assoc concat_append concat_chars head_token t)
  ultimately have kept: "head_chars (chars (v @ suffix)) = head_chars (chars v)" "ascii_space_before (v @ suffix)"
    "take (last_space (v @ suffix)) (v @ suffix) = concat (head_chars (chars v))"
    using head_kept [OF space] by metis+
  show ?thesis by (rule exI, intro conjI, rule tab) (simp_all add: kept suffix_def [symmetric] del: take_append)
qed

text \<open>What every further press finds and leaves: the text before the token, and a field after it.\<close>

definition cycling :: "string list \<Rightarrow> string \<Rightarrow> nat \<Rightarrow> search_bar \<Rightarrow> bool" where
  "cycling h prefix n t \<longleftrightarrow>
    ascii_space_before (SEARCH_QUERY t) \<and> head_chars (chars (SEARCH_QUERY t)) = h \<and>
    sb_completion t = [] \<and> sb_cycle_prefix t = prefix \<and> sb_cycle_idx t = n"

lemma next_tab:
  assumes t: "cycling h prefix n t" and "prefix \<noteq> []" and neg: "split_neg prefix = (neg, p)"
    and ms: "ms = filter (starts_with (lc p)) FIELD_NAMES" "2 \<le> length ms"
  shows "\<exists>u. onkeydown lc Tab t = Some u \<and> cycling h prefix (Suc n) u \<and>
    SEARCH_QUERY u = concat h @ neg @ ms ! (n mod length ms) @ '':''"
proof -
  define q where "q = SEARCH_QUERY t"
  have q: "ascii_space_before q" "head_chars (chars q) = h" using t by (auto simp: cycling_def q_def)
  let ?f = "ms ! (n mod length ms)"
  have f: "?f \<in> set ms" using ms(2) by (intro nth_mem mod_less_divisor) linarith
  with ms have colon: "find_str '':'' (lc p) = None" using prefix_of_field by blast
  have "is_char_boundary (last_space q) q" using q by (simp add: last_space_boundary ascii_space_before_def)
  then have step: "next_cycle_input lc q prefix n = Some (Some (concat h @ neg @ ?f @ '':''))"
    using neg colon ms take_last_space [OF q(1)] q(2)
    by (simp add: next_cycle_input_def slice_to_def Let_def)
  have "?f \<in> set FIELD_NAMES" using f ms(1) by auto
  from field_text [OF this, of 0] split_neg_graphic [OF neg]
  have "\<forall>b \<in> set (neg @ ?f @ '':''). graphic b" by auto
  note kept = head_kept [OF q(1) graphic_text(1) [OF this] disjI2 [OF graphic_text(2) [OF this]] refl, unfolded q(2)]
  have "onkeydown lc Tab t = Some (t\<lparr>sb_cycle_idx := n + 1, SEARCH_QUERY := concat h @ neg @ ?f @ '':'', sb_completion := []\<rparr>)"
    using t assms(2) step by (simp add: on_tab_def cycling_def q_def)
  with t kept show ?thesis by (simp add: cycling_def)
qed

lemma next_cycle_Some:
  "next_cycle_input lc s p i = Some x \<Longrightarrow> \<forall>w. last_whitespace s = Some w \<longrightarrow> length w = 1"
  by (metis last_space_boundary next_cycle_None_iff option.distinct(1))

section \<open>The properties\<close>

text \<open>
  C29. Tab walks through the fields. For a typed text whose last token is a prefix of several field
  names, perhaps negated, the first Tab completes it to the first of them and the k-th puts the
  field number k-1, counted round the list, with its colon in the token's place, keeping the
  negation and everything before the token. No press fails if the blank before the token is one
  byte long.
\<close>

theorem tab_cycles_fields:
  assumes v: "v \<noteq> []" "\<not> ends_in_whitespace v" and space: "ascii_space_before v"
    and neg: "split_neg (last_token v) = (neg, p)" and p: "p \<noteq> []" "find_str '':'' p = None"
    and ms: "ms = filter (starts_with (lc p)) FIELD_NAMES" "2 \<le> length ms"
  shows "\<exists>t. press_tabs lc (Suc k) (on_input lc v s) = Some t \<and>
    SEARCH_QUERY t =
      (if k = 0 then v @ drop (length (lc p)) (ms ! 0) @ '':''
       else take (last_space v) v @ neg @ ms ! (k mod length ms) @ '':'')"
proof -
  let ?h = "head_chars (chars v)" and ?prefix = "last_token v"
  have prefix: "?prefix \<noteq> []" using neg p by auto
  have "\<exists>t. press_tabs lc (Suc k) (on_input lc v s) = Some t \<and> cycling ?h ?prefix (Suc k) t \<and>
    SEARCH_QUERY t =
      (if k = 0 then v @ drop (length (lc p)) (ms ! 0) @ '':''
       else concat ?h @ neg @ ms ! (k mod length ms) @ '':'')"
  proof (induction k)
    case 0
    from ms(2) have "ms \<noteq> []" by (cases ms) simp_all
    from first_tab [where lc = lc and s = s, OF v space neg p ms(1) this] show ?case by (auto simp: cycling_def)
  next
    case (Suc k)
    then obtain t where t: "press_tabs lc (Suc k) (on_input lc v s) = Some t" "cycling ?h ?prefix (Suc k) t" by auto
    from next_tab [where lc = lc, OF t(2) prefix neg ms] t(1) show ?case by auto
  qed
  then show ?thesis by (auto simp: take_last_space [OF space])
qed

text \<open>
  C30. A press of Tab panics exactly when there is something to complete or to cycle and the last
  white-space character of the text is longer than one byte, as it is after an ideographic space:
  the code cuts the text one byte after that character's start.
\<close>

theorem tab_panics_iff:
  "(onkeydown lc Tab s = None \<longleftrightarrow>
     \<not> (sb_completion s = [] \<and> sb_cycle_prefix s = []) \<and>
     (\<exists>w. last_whitespace (SEARCH_QUERY s) = Some w \<and> length w \<noteq> 1)) \<and>
   onkeydown to_ascii_lowercase Tab
     (on_input to_ascii_lowercase (map char_of [102, 114, 111, 109, 58, 97, 227, 128, 128, 102, 111, 108 :: nat]) s) = None"
proof
  show "onkeydown lc Tab s = None \<longleftrightarrow>
     \<not> (sb_completion s = [] \<and> sb_cycle_prefix s = []) \<and>
     (\<exists>w. last_whitespace (SEARCH_QUERY s) = Some w \<and> length w \<noteq> 1)"
    by (auto simp: on_tab_def apply_completion_eq next_cycle_None_iff last_space_boundary
        dest: next_cycle_Some split: option.splits)
  let ?v = "map char_of [102, 114, 111, 109, 58, 97, 227, 128, 128, 102, 111, 108 :: nat]"
  have "compute_completion to_ascii_lowercase ?v 0 = ''der:''" by code_simp
  moreover have "apply_completion ?v ''der:'' = None" by code_simp
  ultimately show "onkeydown to_ascii_lowercase Tab (on_input to_ascii_lowercase ?v s) = None"
    by (simp add: on_tab_def on_input_def)
qed

section \<open>Every reachable state of the page\<close>

inductive bar_reach :: "(string \<Rightarrow> string) \<Rightarrow> search_bar \<Rightarrow> bool" for lc where
  mounted: "bar_reach lc initial_bar"
| focused: "bar_reach lc s \<Longrightarrow> bar_reach lc (on_focus s)"
| blurred: "bar_reach lc s \<Longrightarrow> bar_reach lc (on_blur s)"
| typed: "bar_reach lc s \<Longrightarrow> bar_reach lc (on_input lc v s)"
| pressed: "bar_reach lc s \<Longrightarrow> onkeydown lc k s = Some t \<Longrightarrow> bar_reach lc t"
| cleared: "bar_reach lc s \<Longrightarrow> bar_reach lc (on_clear s)"
| asked: "bar_reach lc s \<Longrightarrow> bar_reach lc (on_help s)"
| tip: "bar_reach lc s \<Longrightarrow> bar_reach lc (on_tip_timer s)"
| homed: "bar_reach lc s \<Longrightarrow> bar_reach lc (on_home s)"
| picked: "bar_reach lc s \<Longrightarrow> bar_reach lc (on_account_row a s)"
| opened: "bar_reach lc s \<Longrightarrow> bar_reach lc (on_open m s)"
| closed: "bar_reach lc s \<Longrightarrow> bar_reach lc (on_close_viewer s)"
| search_cleared: "bar_reach lc s \<Longrightarrow> bar_reach lc (on_clear_search s)"
| listed: "bar_reach lc s \<Longrightarrow> bar_reach lc (reconcile_selection as s)"

text \<open>
  The ghost text is the completion of the text in the box unless the box is empty; there is none
  while alternatives are cycled; a submitted query is never blank; the tip is one of the six.
\<close>

definition bar_ok :: "(string \<Rightarrow> string) \<Rightarrow> search_bar \<Rightarrow> bool" where
  "bar_ok lc s \<longleftrightarrow>
    (sb_completion s = [] \<or> SEARCH_QUERY s = [] \<or> sb_completion s = compute_completion lc (SEARCH_QUERY s) 0) \<and>
    (sb_cycle_prefix s \<noteq> [] \<longrightarrow> sb_completion s = []) \<and>
    ACTIVE_SEARCH s \<noteq> Some [] \<and>
    sb_tip_index s < length PLACEHOLDER_TIPS"

lemma bar_ok_tab:
  assumes "bar_ok lc s" and "on_tab lc s = Some t"
  shows "bar_ok lc t"
  using assms by (auto simp: bar_ok_def on_tab_def split: if_splits option.splits)

lemma bar_ok_key:
  assumes "bar_ok lc s" and "onkeydown lc k s = Some t"
  shows "bar_ok lc t"
proof (cases k)
  case Enter
  with assms show ?thesis by (auto simp: bar_ok_def on_enter_def reset_completion_def Let_def split: if_splits)
next
  case Tab
  with assms bar_ok_tab show ?thesis by simp
next
  case Escape
  with assms show ?thesis
    by (cases "sb_completion s \<noteq> [] \<or> sb_cycle_prefix s \<noteq> []")
      (auto simp: bar_ok_def on_escape_def reset_completion_def)
next
  case OtherKey
  with assms show ?thesis
    by (cases "sb_completion s \<noteq> [] \<or> sb_cycle_prefix s \<noteq> []")
      (auto simp: bar_ok_def on_other_key_def reset_completion_def)
qed

theorem ghost_belongs_to_text:
  assumes "bar_reach lc s"
  shows "bar_ok lc s"
  using assms
proof induction
  case (pressed s k t)
  then show ?case using bar_ok_key by blast
next
  case (tip s)
  then show ?case by (auto simp: bar_ok_def on_tip_timer_def PLACEHOLDER_TIPS_def)
next
  case (listed s as)
  then show ?case by (auto simp: bar_ok_def reconcile_selection_def split: option.splits)
qed (auto simp: bar_ok_def initial_bar_def on_focus_def on_blur_def on_input_def on_clear_def on_help_def on_home_def
    on_account_row_def on_open_def on_close_viewer_def on_clear_search_def PLACEHOLDER_TIPS_def)

text \<open>
  The exception is real: clearing the box leaves the ghost text of what was typed, and the next
  Tab types it into the empty box.
\<close>

lemma clear_leaves_ghost:
  "map_option SEARCH_QUERY
     (onkeydown to_ascii_lowercase Tab (on_clear (on_input to_ascii_lowercase ''fol'' initial_bar))) = Some ''der:''"
  by code_simp

text \<open>The Home button shows the statistics only if no message is open.\<close>

lemma home_keeps_viewer:
  "home_panel (on_home s) = (case OPEN_MESSAGE s of Some t \<Rightarrow> MessageViewer t | None \<Rightarrow> StatsPanel)"
  by (simp add: home_panel_def on_home_def split: option.splits)

text \<open>After the account list was read, the panel lists messages of a listed account only.\<close>

lemma panel_of_listed_account:
  assumes "home_panel (reconcile_selection as s) = MessageList a"
  shows "a \<in> set as"
  using assms by (auto simp: home_panel_def reconcile_selection_def split: option.splits if_splits)

section \<open>Witnesses\<close>

theorem tab_cycles_fields_witness:
  "\<exists>t. press_tabs to_ascii_lowercase 3 (on_input to_ascii_lowercase ''from:amazon !A'' initial_bar) = Some t \<and>
     SEARCH_QUERY t = ''from:amazon !attachments:''"
proof -
  have v: "(''from:amazon !A'' :: string) \<noteq> []" "\<not> ends_in_whitespace ''from:amazon !A''"
    "split_neg (last_token ''from:amazon !A'') = (''!'', ''A'')" "find_str '':'' ''A'' = None"
    "filter (starts_with (to_ascii_lowercase ''A'')) FIELD_NAMES = [''account'', ''after'', ''attachments'']"
    "take (last_space ''from:amazon !A'') ''from:amazon !A'' = ''from:amazon ''"
    by code_simp+
  have "last_whitespace ''from:amazon !A'' = Some '' ''" by code_simp
  then have space: "ascii_space_before ''from:amazon !A''" by (simp add: ascii_space_before_def)
  have "[''account'', ''after'', ''attachments''] ! (2 mod length [''account'', ''after'', ''attachments''])
      = ''attachments''" by simp
  moreover have "Suc 2 = (3 :: nat)" and "(2 :: nat) \<noteq> 0" by simp_all
  ultimately show ?thesis
    using tab_cycles_fields [where lc = to_ascii_lowercase and k = 2 and s = initial_bar,
        OF v(1,2) space v(3) list.simps(3) v(4) v(5) [symmetric]]
    by (simp only: v(6) if_False append.simps simp_thms) (simp del: press_tabs.simps)
qed

theorem ghost_belongs_to_text_witness:
  "bar_ok to_ascii_lowercase (on_clear (on_input to_ascii_lowercase ''fol'' initial_bar)) \<and>
   sb_completion (on_clear (on_input to_ascii_lowercase ''fol'' initial_bar)) = ''der:''"
proof
  show "bar_ok to_ascii_lowercase (on_clear (on_input to_ascii_lowercase ''fol'' initial_bar))"
    by (rule ghost_belongs_to_text, rule bar_reach.cleared, rule bar_reach.typed, rule bar_reach.mounted)
  have "compute_completion to_ascii_lowercase ''fol'' 0 = ''der:''" by code_simp
  then show "sb_completion (on_clear (on_input to_ascii_lowercase ''fol'' initial_bar)) = ''der:''"
    by (simp add: on_clear_def on_input_def)
qed

end
