(* ===== verification/Decimals.thy ===== *)
theory Decimals
  imports Texts
begin

text \<open>
  Rust's \<open>from_str\<close> of the unsigned integers: an optional plus, at least one decimal digit,
  and a value below the bound of the type.
\<close>

definition is_digit :: "char \<Rightarrow> bool" where
  "is_digit c \<longleftrightarrow> 48 \<le> (of_char c :: nat) \<and> (of_char c :: nat) \<le> 57"

definition digits_value :: "string \<Rightarrow> int" where
  "digits_value ds = foldl (\<lambda>n c. 10 * n + (of_char c - 48)) 0 ds"

definition parse_unsigned :: "int \<Rightarrow> string \<Rightarrow> int option" where
  "parse_unsigned bound s =
    (let digits = (case s of c # r \<Rightarrow> if c = CHR ''+'' then r else s | [] \<Rightarrow> []) in
     if digits \<noteq> [] \<and> list_all is_digit digits \<and> digits_value digits < bound
     then Some (digits_value digits) else None)"

text \<open>What \<open>to_string\<close> prints is read back.\<close>

lemma digits_value_snoc: "digits_value (ds @ [c]) = 10 * digits_value ds + (of_char c - 48)"
  by (simp add: digits_value_def)

lemma show_nat_digits: "list_all is_digit (show_nat n) \<and> digits_value (show_nat n) = int n"
proof (induction n rule: show_nat.induct)
  case (1 n)
  have last: "(of_char (char_of (48 + n mod 10) :: char) :: nat) = 48 + n mod 10" by simp
  from arg_cong [OF last, of int]
  have last_int: "(of_char (char_of (48 + n mod 10) :: char) :: int) = 48 + int (n mod 10)"
    by (simp only: of_nat_of_char of_nat_add of_nat_numeral)
  have "n mod 10 \<le> 9" using mod_less_divisor [of 10 n] by linarith
  then have digit: "is_digit (char_of (48 + n mod 10))" unfolding is_digit_def last by simp
  show ?case
  proof (cases "n < 10")
    case True
    then have small: "n mod 10 = n" by simp
    have "show_nat n = [char_of (48 + n mod 10)]" by (subst show_nat.simps) (simp add: True)
    with small digit last_int show ?thesis by (simp add: digits_value_def)
  next
    case False
    with 1 have IH: "list_all is_digit (show_nat (n div 10))" "digits_value (show_nat (n div 10)) = int (n div 10)" by auto
    from False have "show_nat n = show_nat (n div 10) @ [char_of (48 + n mod 10)]" by (subst show_nat.simps) simp
    moreover have "int n = 10 * int (n div 10) + int (n mod 10)" by (simp add: zdiv_int zmod_int)
    ultimately show ?thesis using IH digit last_int by (simp add: digits_value_snoc)
  qed
qed

lemma show_nat_hd: "hd (show_nat n) \<noteq> CHR ''+''"
proof -
  have "is_digit (hd (show_nat n))"
    using show_nat_digits [of n] show_nat_nonempty [of n] by (cases "show_nat n") auto
  then show ?thesis by (auto simp: is_digit_def)
qed

lemma parse_show: "int n < bound \<Longrightarrow> parse_unsigned bound (show_nat n) = Some (int n)"
  using show_nat_digits [of n] show_nat_hd [of n] show_nat_nonempty [of n]
  by (auto simp: parse_unsigned_def Let_def split: list.splits)

end
