(* ===== verification/IndexDir.thy ===== *)
theory IndexDir
  imports SearchIndexer Decimals "HOL-Library.AList"
begin

text \<open>
  The directory of the search index (\<open>crates/search/src/index.rs\<close>): opening or creating the
  index in it, discarding one whose schema the program no longer has, and the version file that
  \<open>SearchIndexer\<close> reads as \<open>ix_version\<close>. The search engine's own files are opaque:
  opening and creating an index are parameters, with \<open>engine_dir_ok\<close> for what they are
  relied on to do. Each file-system call may fail, as a schedule says.
\<close>

section \<open>The directory\<close>

datatype dir_entry = File string | SubDir

type_synonym dir_entries = "(string \<times> dir_entry) list"

text \<open>The entries in the order a listing gives them; \<open>None\<close> when there is no directory.\<close>

record index_dir =
  id_entries :: "dir_entries option"
  id_io :: "string option list"

datatype SearchIndexError =
    CreateDir string
  | ResetDir string
  | OpenDir string
  | OpenIndex string
  | Writer string
  | Reader string
  | WriteVersion string

type_synonym 'a idm = "(index_dir, SearchIndexError, 'a) action"

definition dir_call :: "(string \<Rightarrow> SearchIndexError) \<Rightarrow> unit idm" where
  "dir_call err s =
    (case id_io s of
       [] \<Rightarrow> (Inr (), s)
     | None # fs \<Rightarrow> (Inr (), s\<lparr>id_io := fs\<rparr>)
     | Some e # fs \<Rightarrow> (Inl (err e), s\<lparr>id_io := fs\<rparr>))"

definition VERSION_FILE :: string where
  "VERSION_FILE = ''schema_version''"

text \<open>
  The engine: the schema of the index a directory holds, if one opens, and the directory after an
  index with a schema was opened or created in it.
\<close>

record 'm index_engine =
  ie_open :: "dir_entries \<Rightarrow> 'm option"
  ie_open_or_create :: "'m \<Rightarrow> dir_entries \<Rightarrow> string + dir_entries"

definition engine_dir_ok :: "'m index_engine \<Rightarrow> bool" where
  "engine_dir_ok ie \<longleftrightarrow>
    (\<forall>m es es'. ie_open_or_create ie m es = Inr es' \<longrightarrow>
       ie_open ie es' = Some m \<and> map_of es' VERSION_FILE = map_of es VERSION_FILE \<and>
       (\<forall>m'. ie_open ie es = Some m' \<longrightarrow> m' = m))"

section \<open>Opening the index\<close>

definition create_dir_all :: "unit idm" where
  "create_dir_all =
    bindE (dir_call CreateDir) (\<lambda>_.
    modifyE (\<lambda>s. s\<lparr>id_entries := Some (case id_entries s of None \<Rightarrow> [] | Some es \<Rightarrow> es)\<rparr>))"

text \<open>Each entry is removed, whatever it is; the first failure leaves the rest.\<close>

fun remove_entries :: "dir_entries \<Rightarrow> unit idm" where
  "remove_entries [] = ret ()"
| "remove_entries (e # es) =
    bindE (dir_call ResetDir) (\<lambda>_.
    bindE (modifyE (\<lambda>s. s\<lparr>id_entries := Some es\<rparr>)) (\<lambda>_. remove_entries es))"

definition clear_dir_contents :: "unit idm" where
  "clear_dir_contents =
    bindE (getsE id_entries) (\<lambda>entries.
      case entries of
        None \<Rightarrow> ret ()
      | Some es \<Rightarrow> bindE (dir_call ResetDir) (\<lambda>_. remove_entries es))"

text \<open>Whether the directory holds an index of another schema; a failure counts as no.\<close>

definition schema_incompatible :: "'m index_engine \<Rightarrow> 'm \<Rightarrow> bool idm" where
  "schema_incompatible ie schema =
    handleE (dir_call OpenDir)
      (\<lambda>_. getsE (\<lambda>s. case Option.bind (id_entries s) (ie_open ie) of None \<Rightarrow> False | Some existing \<Rightarrow> existing \<noteq> schema))
      (\<lambda>_. ret False)"

definition open_index :: "'m index_engine \<Rightarrow> 'm \<Rightarrow> unit idm" where
  "open_index ie schema =
    bindE (getsE id_entries) (\<lambda>entries.
      case entries of
        None \<Rightarrow> throw (OpenDir ''no such directory'')
      | Some es \<Rightarrow>
          (case ie_open_or_create ie schema es of
             Inl e \<Rightarrow> throw (OpenIndex e)
           | Inr es' \<Rightarrow> modifyE (\<lambda>s. s\<lparr>id_entries := Some es'\<rparr>)))"

definition open_or_create :: "'m index_engine \<Rightarrow> 'm \<Rightarrow> unit idm" where
  "open_or_create ie schema =
    bindE create_dir_all (\<lambda>_.
    bindE (schema_incompatible ie schema) (\<lambda>stale.
    bindE (if stale then clear_dir_contents else ret ()) (\<lambda>_.
    bindE (dir_call OpenDir) (\<lambda>_.
    bindE (open_index ie schema) (\<lambda>_.
    dir_call Writer)))))"

section \<open>The version file\<close>

definition parse_u32 :: "string \<Rightarrow> u32 option" where
  "parse_u32 s = map_option of_int (parse_unsigned (2 ^ 32) s)"

text \<open>
  Any failure reads as no version. A file that is not UTF-8 does not parse either way: trimming
  removes whole characters only.
\<close>

definition read_version :: "index_dir \<Rightarrow> u32 option \<times> index_dir" where
  "read_version s =
    (case dir_call Reader s of
       (Inl _, s') \<Rightarrow> (None, s')
     | (Inr _, s') \<Rightarrow>
         ((case Option.bind (id_entries s) (\<lambda>es. map_of es VERSION_FILE) of
             Some (File txt) \<Rightarrow> parse_u32 (trim txt)
           | _ \<Rightarrow> None), s'))"

definition dir_needs_rebuild :: "index_dir \<Rightarrow> bool \<times> index_dir" where
  "dir_needs_rebuild s = (case read_version s of (v, s') \<Rightarrow> (v \<noteq> Some SCHEMA_VERSION, s'))"

definition write_version_file :: "unit idm" where
  "write_version_file =
    bindE (dir_call WriteVersion) (\<lambda>_.
    bindE (getsE id_entries) (\<lambda>entries.
      case entries of
        None \<Rightarrow> throw (WriteVersion ''no such directory'')
      | Some es \<Rightarrow> modifyE (\<lambda>s. s\<lparr>id_entries := Some (AList.update VERSION_FILE (File (show_nat (unat SCHEMA_VERSION))) es)\<rparr>)))"

section \<open>Properties\<close>

lemma dir_call_Inr: "dir_call err s = (Inr x, t) \<Longrightarrow> id_entries t = id_entries s"
  by (auto simp: dir_call_def split: list.splits option.splits)

lemma remove_entries_Inr:
  "remove_entries es s = (Inr x, t) \<Longrightarrow> id_entries s = Some es \<Longrightarrow> id_entries t = Some []"
  by (induction es arbitrary: s) (auto simp: bindE_Inr_iff act_eval dest: dir_call_Inr)

lemma clear_dir_Inr:
  "clear_dir_contents s = (Inr x, t) \<Longrightarrow> id_entries s = Some es \<Longrightarrow> id_entries t = Some []"
  by (auto simp: clear_dir_contents_def bindE_Inr_iff act_eval) (metis dir_call_Inr remove_entries_Inr)

text \<open>
  An index of another schema is never taken for the current one: if opening succeeds, the
  directory holds an index of the program's schema, and where it had to replace one, the version
  file is gone with it, so that the next start of the indexer rebuilds; where not, the version
  file is the one that was there.
\<close>

lemma open_replaces_stale_index:
  assumes ok: "engine_dir_ok ie" and run: "open_or_create ie schema s = (Inr (), t)"
    and es: "es = (case id_entries s of None \<Rightarrow> [] | Some es \<Rightarrow> es)"
  shows "\<exists>es'. id_entries t = Some es' \<and> ie_open ie es' = Some schema \<and>
    (map_of es' VERSION_FILE = map_of es VERSION_FILE \<or>
     (\<exists>m. ie_open ie es = Some m \<and> m \<noteq> schema \<and> fst (dir_needs_rebuild t)))"
proof -
  from run obtain s1 stale s2 s3 s4 s5 where
    s1: "create_dir_all s = (Inr (), s1)" and stale: "schema_incompatible ie schema s1 = (Inr stale, s2)"
    and s3: "(if stale then clear_dir_contents else ret ()) s2 = (Inr (), s3)"
    and s4: "dir_call OpenDir s3 = (Inr (), s4)" and s5: "open_index ie schema s4 = (Inr (), s5)"
    and t: "dir_call Writer s5 = (Inr (), t)"
    unfolding open_or_create_def bindE_Inr_iff by auto
  have e1: "id_entries s1 = Some es"
    using s1 es by (auto simp: create_dir_all_def bindE_Inr_iff dest: dir_call_Inr)
  then have e2: "id_entries s2 = Some es" and "stale \<Longrightarrow> \<exists>m. ie_open ie es = Some m \<and> m \<noteq> schema"
    using stale by (auto simp: schema_incompatible_def handleE_def dir_call_def act_eval split: list.splits option.splits)
  moreover from s5 obtain old es' where "id_entries s4 = Some old" "ie_open_or_create ie schema old = Inr es'"
    "id_entries s5 = Some es'"
    by (auto simp: open_index_def bindE_Inr_iff act_eval split: option.splits sum.splits)
  moreover from this ok have "ie_open ie es' = Some schema" "map_of es' VERSION_FILE = map_of old VERSION_FILE"
    by (auto simp: engine_dir_ok_def)
  moreover have "old = (if stale then [] else es)"
    using s3 e2 dir_call_Inr [OF s4] \<open>id_entries s4 = Some old\<close> clear_dir_Inr [of s2 "()" s3 es]
    by (auto simp: act_eval split: if_splits)
  moreover have "id_entries t = id_entries s5" by (rule dir_call_Inr [OF t])
  moreover have "fst (dir_needs_rebuild t)" if "id_entries t = Some es'" "map_of es' VERSION_FILE = None"
    using that by (auto simp: dir_needs_rebuild_def read_version_def split: prod.splits sum.splits)
  ultimately show ?thesis by (auto split: if_splits)
qed

text \<open>A version that was written is read back, and asks for no rebuild.\<close>

lemma version_round_trip:
  assumes "write_version_file s = (Inr (), t)" and "id_io t = []"
  shows "dir_needs_rebuild t = (False, t)"
proof -
  from assms(1) obtain es where t: "id_entries t = Some (AList.update VERSION_FILE (File (show_nat (unat SCHEMA_VERSION))) es)"
    by (auto simp: write_version_file_def bindE_Inr_iff act_eval split: option.splits)
  have "show_nat 1 = ''1''" and "trim ''1'' = ''1''" by code_simp+
  then have parse: "parse_u32 (trim (show_nat (unat SCHEMA_VERSION))) = Some SCHEMA_VERSION"
    using parse_show [of 1 "2 ^ 32"] by (simp add: SCHEMA_VERSION_def parse_u32_def)
  have entry: "map_of (AList.update VERSION_FILE (File v) es) VERSION_FILE = Some (File v)" for v
    by (simp add: update_conv)
  have "read_version t = (Some SCHEMA_VERSION, t)"
    unfolding read_version_def dir_call_def assms(2) t by (simp add: entry parse)
  then show ?thesis by (simp add: dir_needs_rebuild_def)
qed

end
