(* ===== verification/FolderTree.thy ===== *)
theory FolderTree
  imports WebAccounts
begin

text \<open>
  The folder picker of the add-account page
  (\<open>crates/frontend/src/routes/account_add_page/folder_tree.rs\<close>): the folders the server
  listed as a forest of indices into one vector, the selection with its cascade, and the
  payload. \<open>None\<close> stands for a call that does not return: an index out of range panics, and
  the recursion over children would not end on a cycle.
\<close>

section \<open>Data\<close>

record FolderNode =
  fn_path :: string
  fn_name :: string
  fn_special_use :: "string option"
  fn_no_select :: bool
  fn_depth :: nat
  fn_parent :: "nat option"
  fn_children :: "nat list"
  fn_selected :: bool

record FolderTree =
  ft_nodes :: "FolderNode list"

section \<open>Building the tree\<close>

lemma find_str_bound: "find_str p s = Some i \<Longrightarrow> i + length p \<le> length s"
proof (induction s arbitrary: i)
  case (Cons c s)
  then show ?case
  proof (cases "starts_with p (c # s)")
    case True
    then have "length p = length (take (length p) (c # s))" by (simp add: starts_with_def)
    then have "length p \<le> length (c # s)" by simp
    with Cons True show ?thesis by simp
  next
    case False
    with Cons show ?thesis by fastforce
  qed
qed (auto split: if_splits)

function split_path :: "string \<Rightarrow> string \<Rightarrow> string list" where
  "split_path path delim =
    (if delim = [] then [path]
     else case find_str delim path of
       None \<Rightarrow> [path]
     | Some i \<Rightarrow> take i path # split_path (drop (i + length delim) path) delim)"
  by pat_completeness auto
termination
proof (relation "measure (\<lambda>(path, delim). length path)")
  fix path delim :: string and i
  assume "delim \<noteq> []" "find_str delim path = Some i"
  with find_str_bound [of delim path i] have "0 < length delim" "i + length delim \<le> length path" by simp_all
  then have "length (drop (i + length delim) path) < length path" unfolding length_drop by linarith
  then show "((drop (i + length delim) path, delim), (path, delim)) \<in> measure (\<lambda>(path, delim). length path)" by simp
qed simp

declare split_path.simps [simp del]

definition delimiter_of :: "RemoteFolderDto \<Rightarrow> string" where
  "delimiter_of f = (case rfd_delimiter f of Some d \<Rightarrow> d | None \<Rightarrow> ''/'')"

definition segments :: "RemoteFolderDto \<Rightarrow> string list" where
  "segments f = split_path (rfd_path f) (delimiter_of f)"

definition parent_of :: "RemoteFolderDto \<Rightarrow> (string \<Rightarrow> nat option) \<Rightarrow> nat option" where
  "parent_of f path_to_idx =
    (if 1 < length (segments f) then path_to_idx (join_with (delimiter_of f) (butlast (segments f))) else None)"

definition add_child :: "nat option \<Rightarrow> nat \<Rightarrow> FolderNode list \<Rightarrow> FolderNode list" where
  "add_child parent idx nodes =
    (case parent of
       Some p \<Rightarrow> nodes[p := (nodes ! p)\<lparr>fn_children := fn_children (nodes ! p) @ [idx]\<rparr>]
     | None \<Rightarrow> nodes)"

definition push_folder ::
  "FolderNode list \<times> (string \<Rightarrow> nat option) \<Rightarrow> RemoteFolderDto \<Rightarrow> FolderNode list \<times> (string \<Rightarrow> nat option)"
where
  "push_folder st f =
    (case st of (nodes, path_to_idx) \<Rightarrow>
      let segs = segments f;
          name = (if segs = [] then rfd_path f else last segs);
          parent = parent_of f path_to_idx;
          idx = length nodes
      in (add_child parent idx nodes @
           [\<lparr>fn_path = rfd_path f, fn_name = name, fn_special_use = rfd_special_use f, fn_no_select = rfd_no_select f,
             fn_depth = length segs - 1, fn_parent = parent, fn_children = [], fn_selected = False\<rparr>],
          path_to_idx(rfd_path f \<mapsto> idx)))"

definition build_tree :: "RemoteFolderDto list \<Rightarrow> FolderTree" where
  "build_tree folders =
    (let indexed = sort_key (\<lambda>(i, f). (length (segments f), i)) (enumerate 0 folders)
     in \<lparr>ft_nodes = fst (foldl push_folder ([], Map.empty) (map snd indexed))\<rparr>)"

section \<open>The selection\<close>

partial_function (option) descend :: "FolderNode list \<Rightarrow> nat list \<Rightarrow> nat list \<Rightarrow> nat list option" where
  "descend nodes cs acc =
    (case cs of
       [] \<Rightarrow> Some acc
     | c # rest \<Rightarrow>
         if c < length nodes
         then Option.bind (descend nodes (fn_children (nodes ! c)) (acc @ [c])) (\<lambda>acc'. descend nodes rest acc')
         else None)"

definition descendants :: "FolderTree \<Rightarrow> nat \<Rightarrow> nat list option" where
  "descendants t idx =
    (if idx < length (ft_nodes t) then descend (ft_nodes t) (fn_children (ft_nodes t ! idx)) [] else None)"

definition select_node :: "bool \<Rightarrow> FolderNode list \<Rightarrow> nat \<Rightarrow> FolderNode list" where
  "select_node v nodes d = nodes[d := (nodes ! d)\<lparr>fn_selected := v\<rparr>]"

definition set_subtree :: "FolderTree \<Rightarrow> nat \<Rightarrow> bool \<Rightarrow> FolderTree option" where
  "set_subtree t idx v =
    (if idx < length (ft_nodes t)
     then let t1 = t\<lparr>ft_nodes := select_node v (ft_nodes t) idx\<rparr> in
       Option.bind (descendants t1 idx) (\<lambda>ds.
         if \<forall>d \<in> set ds. d < length (ft_nodes t1)
         then Some (t1\<lparr>ft_nodes := foldl (select_node v) (ft_nodes t1) ds\<rparr>) else None)
     else None)"

definition is_indeterminate :: "FolderTree \<Rightarrow> nat \<Rightarrow> bool option" where
  "is_indeterminate t idx =
    map_option (\<lambda>ds.
      let selectable = filter (\<lambda>d. \<not> fn_no_select (ft_nodes t ! d)) ds in
      if selectable = [] then False
      else
        let sel = length (filter (\<lambda>d. fn_selected (ft_nodes t ! d)) selectable) in 0 < sel \<and> sel < length selectable)
    (descendants t idx)"

definition select_all :: "bool \<Rightarrow> FolderTree \<Rightarrow> FolderTree" where
  "select_all v t = t\<lparr>ft_nodes := map (\<lambda>n. n\<lparr>fn_selected := v\<rparr>) (ft_nodes t)\<rparr>"

fun position :: "('a \<Rightarrow> bool) \<Rightarrow> 'a list \<Rightarrow> nat option" where
  "position p [] = None"
| "position p (x # xs) = (if p x then Some 0 else map_option Suc (position p xs))"

definition default_select_inbox :: "FolderTree \<Rightarrow> FolderTree" where
  "default_select_inbox t =
    (case position (\<lambda>n. fn_special_use n = Some ''inbox'') (ft_nodes t) of
       Some i \<Rightarrow> t\<lparr>ft_nodes := select_node True (ft_nodes t) i\<rparr>
     | None \<Rightarrow>
         (case position (\<lambda>n. eq_ignore_ascii_case (fn_name n) ''INBOX'') (ft_nodes t) of
            Some i \<Rightarrow> t\<lparr>ft_nodes := select_node True (ft_nodes t) i\<rparr>
          | None \<Rightarrow> t))"

definition chosen :: "FolderNode \<Rightarrow> bool" where
  "chosen n \<longleftrightarrow> fn_selected n \<and> \<not> fn_no_select n"

definition selected_count :: "FolderTree \<Rightarrow> nat" where
  "selected_count t = length (filter chosen (ft_nodes t))"

definition selected_new_folders :: "FolderTree \<Rightarrow> NewFolderDto list" where
  "selected_new_folders t =
    map (\<lambda>n. \<lparr>nfd_path = fn_path n, nfd_special_use = fn_special_use n, nfd_no_select = False\<rparr>) (filter chosen (ft_nodes t))"

section \<open>The page\<close>

definition loaded_tree :: "RemoteFolderDto list \<Rightarrow> FolderTree" where
  "loaded_tree folders = default_select_inbox (build_tree folders)"

definition on_toggle :: "FolderTree \<Rightarrow> nat \<Rightarrow> FolderTree option" where
  "on_toggle t idx =
    (if idx < length (ft_nodes t) then set_subtree t idx (\<not> fn_selected (ft_nodes t ! idx)) else None)"

definition icon_bytes :: "string option \<Rightarrow> nat list" where
  "icon_bytes su =
    (if su = Some ''inbox'' then [0xF0, 0x9F, 0x93, 0xA5]
     else if su = Some ''sent'' then [0xF0, 0x9F, 0x93, 0xA4]
     else if su = Some ''drafts'' then [0xF0, 0x9F, 0x93, 0x9D]
     else if su = Some ''trash'' then [0xF0, 0x9F, 0x97, 0x91]
     else if su = Some ''archive'' then [0xF0, 0x9F, 0x97, 0x84]
     else if su = Some ''junk'' then [0xE2, 0x9A, 0xA0]
     else if su = Some ''all'' then [0xF0, 0x9F, 0x97, 0x82]
     else [0xF0, 0x9F, 0x93, 0x81])"

definition badge_for :: "string option \<Rightarrow> string option" where
  "badge_for su =
    (if su = Some ''inbox'' then Some ''Inbox''
     else if su = Some ''sent'' then Some ''Sent''
     else if su = Some ''drafts'' then Some ''Drafts''
     else if su = Some ''trash'' then Some ''Trash''
     else if su = Some ''archive'' then Some ''Archive''
     else if su = Some ''junk'' then Some ''Junk''
     else if su = Some ''all'' then Some ''All''
     else None)"

end
