(* ===== verification/AddAccount.thy ===== *)
theory AddAccount
  imports FolderTree Decimals
begin

text \<open>
  The page that adds an account (\<open>crates/frontend/src/routes/account_add_page/mod.rs\<close>,
  \<open>connection_form.rs\<close>): the fields, the probe with its two requests, the folder picker that
  goes stale when a connection field changes, and the submission. An answer to a request is an
  error message or a value; the arguments of a request under way are kept with it. Effects of a
  changed field run before the next event.
\<close>

section \<open>State\<close>

type_synonym probe_args = "ServerConfigDto \<times> string \<times> string"

text \<open>The request under way; the flag tells a listing that follows a test from a retried one.\<close>

datatype probe_task = NoProbe | TestConnection probe_args | ListFolders bool probe_args

record add_account =
  aa_display_name :: string
  aa_host :: string
  aa_port :: string
  aa_tls :: string
  aa_email :: string
  aa_password :: string
  aa_port_touched :: bool
  aa_tree :: FolderTree
  aa_picker_shown :: bool
  aa_picker_stale :: bool
  aa_connected_email :: "string option"
  aa_task :: probe_task
  aa_conn_error :: "string option"
  aa_folder_error :: "string option"
  aa_submit_error :: "string option"
  aa_submitting :: bool

definition opened_page :: add_account where
  "opened_page = \<lparr>aa_display_name = [], aa_host = [], aa_port = ''993'', aa_tls = ''Tls'', aa_email = [], aa_password = [],
     aa_port_touched = False, aa_tree = \<lparr>ft_nodes = []\<rparr>, aa_picker_shown = False, aa_picker_stale = False,
     aa_connected_email = None, aa_task = NoProbe, aa_conn_error = None, aa_folder_error = None,
     aa_submit_error = None, aa_submitting = False\<rparr>"

definition probing :: "add_account \<Rightarrow> bool" where
  "probing s \<longleftrightarrow> aa_task s \<noteq> NoProbe"

section \<open>Fields\<close>

text \<open>The effect on the connection fields: a picker that is shown goes stale.\<close>

definition mark_stale :: "add_account \<Rightarrow> add_account" where
  "mark_stale s = (if aa_picker_shown s then s\<lparr>aa_picker_stale := True\<rparr> else s)"

text \<open>The effect that fills the port in until it was edited.\<close>

definition fill_port :: "add_account \<Rightarrow> add_account" where
  "fill_port s =
    (if aa_port_touched s then s else s\<lparr>aa_port := (if aa_tls s = ''StartTls'' then ''143'' else ''993'')\<rparr>)"

definition edit_display_name :: "string \<Rightarrow> add_account \<Rightarrow> add_account" where
  "edit_display_name v s = s\<lparr>aa_display_name := v\<rparr>"

definition edit_host :: "string \<Rightarrow> add_account \<Rightarrow> add_account" where
  "edit_host v s = mark_stale (s\<lparr>aa_host := v\<rparr>)"

definition edit_port :: "string \<Rightarrow> add_account \<Rightarrow> add_account" where
  "edit_port v s = mark_stale (s\<lparr>aa_port_touched := True, aa_port := v\<rparr>)"

definition edit_tls :: "string \<Rightarrow> add_account \<Rightarrow> add_account" where
  "edit_tls v s = mark_stale (fill_port (s\<lparr>aa_tls := v\<rparr>))"

definition edit_email :: "string \<Rightarrow> add_account \<Rightarrow> add_account" where
  "edit_email v s = mark_stale (s\<lparr>aa_email := v\<rparr>)"

definition edit_password :: "string \<Rightarrow> add_account \<Rightarrow> add_account" where
  "edit_password v s = mark_stale (s\<lparr>aa_password := v\<rparr>)"

section \<open>Probing\<close>

definition server_dto :: "add_account \<Rightarrow> ServerConfigDto" where
  "server_dto s = \<lparr>scd_host = trim (aa_host s),
     scd_port = (case parse_unsigned (2 ^ 16) (trim (aa_port s)) of None \<Rightarrow> 0 | Some n \<Rightarrow> of_int n), scd_tls = aa_tls s\<rparr>"

definition probe_arguments :: "add_account \<Rightarrow> probe_args" where
  "probe_arguments s = (server_dto s, trim (aa_email s), aa_password s)"

definition login_friendly :: string where
  "login_friendly = ''Login failed '' @ map char_of [226 :: nat, 128, 148] @ '' check your email and password.''"

definition on_probe :: "add_account \<Rightarrow> add_account" where
  "on_probe s0 =
    (let s = s0\<lparr>aa_conn_error := None, aa_folder_error := None\<rparr>; refuse = (\<lambda>m. s\<lparr>aa_conn_error := Some m\<rparr>) in
     if trim (aa_display_name s) = [] then refuse ''Display name is required.''
     else if trim (aa_host s) = [] then refuse ''IMAP server is required.''
     else if scd_port (server_dto s) = 0 then refuse ''Enter a valid port.''
     else if CHR ''@'' \<notin> set (aa_email s) then refuse ''Enter a valid email address.''
     else if aa_password s = [] then refuse ''Password is required.''
     else s\<lparr>aa_task := TestConnection (probe_arguments s)\<rparr>)"

text \<open>The answer of the test: on success the listing is asked for next.\<close>

definition on_tested :: "string + unit \<Rightarrow> add_account \<Rightarrow> add_account" where
  "on_tested answer s =
    (case answer of
       Inr _ \<Rightarrow> s\<lparr>aa_connected_email := Some (trim (aa_email s)), aa_task := ListFolders True (probe_arguments s)\<rparr>
     | Inl _ \<Rightarrow> s\<lparr>aa_picker_shown := False, aa_conn_error := Some login_friendly, aa_task := NoProbe\<rparr>)"

text \<open>The answer of the listing: a failed retry leaves the picker as it is.\<close>

definition on_listed :: "bool \<Rightarrow> string + RemoteFolderDto list \<Rightarrow> add_account \<Rightarrow> add_account" where
  "on_listed after_test answer s =
    (case answer of
       Inr folders \<Rightarrow>
         s\<lparr>aa_tree := loaded_tree folders, aa_picker_shown := True, aa_picker_stale := False, aa_task := NoProbe\<rparr>
     | Inl e \<Rightarrow>
         s\<lparr>aa_picker_shown := (aa_picker_shown s \<and> \<not> after_test), aa_folder_error := Some e, aa_task := NoProbe\<rparr>)"

definition do_list_folders :: "add_account \<Rightarrow> add_account" where
  "do_list_folders s = s\<lparr>aa_folder_error := None, aa_task := ListFolders False (probe_arguments s)\<rparr>"

section \<open>Picking and submitting\<close>

definition toggle_row :: "nat \<Rightarrow> add_account \<Rightarrow> add_account option" where
  "toggle_row idx s = map_option (\<lambda>t. s\<lparr>aa_tree := t\<rparr>) (on_toggle (aa_tree s) idx)"

definition all_rows :: "bool \<Rightarrow> add_account \<Rightarrow> add_account" where
  "all_rows v s = s\<lparr>aa_tree := select_all v (aa_tree s)\<rparr>"

text \<open>Whether the button is there and can be pressed.\<close>

definition can_submit :: "add_account \<Rightarrow> bool" where
  "can_submit s \<longleftrightarrow>
    aa_picker_shown s \<and> \<not> (aa_submitting s \<or> aa_picker_stale s \<or> selected_count (aa_tree s) = 0)"

definition on_submit :: "add_account \<Rightarrow> NewAccountDto option \<times> add_account" where
  "on_submit s =
    (let payload = \<lparr>nad_display_name = trim (aa_display_name s), nad_email = trim (aa_email s),
           nad_server = server_dto s, nad_password = aa_password s,
           nad_folders = selected_new_folders (aa_tree s)\<rparr> in
     if nad_folders payload = [] then (None, s\<lparr>aa_submit_error := Some ''Select at least one folder.''\<rparr>)
     else (Some payload, s\<lparr>aa_submit_error := None, aa_submitting := True\<rparr>))"

text \<open>The answer; on success the page is left.\<close>

definition on_created :: "string + unit \<Rightarrow> add_account \<Rightarrow> add_account option" where
  "on_created answer s =
    (case answer of Inr _ \<Rightarrow> None | Inl e \<Rightarrow> Some (s\<lparr>aa_submit_error := Some e, aa_submitting := False\<rparr>))"

section \<open>The page among the answers\<close>

text \<open>
  With the list of the listings that succeeded: what was asked and the folders of the answer.
  Fields and probe buttons are disabled during a probe.
\<close>

inductive add_run :: "(probe_args \<times> RemoteFolderDto list) list \<times> add_account \<Rightarrow> bool" where
  opened: "add_run ([], opened_page)"
| named: "add_run (A, s) \<Longrightarrow> \<not> probing s \<Longrightarrow> add_run (A, edit_display_name v s)"
| hosted: "add_run (A, s) \<Longrightarrow> \<not> probing s \<Longrightarrow> add_run (A, edit_host v s)"
| ported: "add_run (A, s) \<Longrightarrow> \<not> probing s \<Longrightarrow> add_run (A, edit_port v s)"
| secured: "add_run (A, s) \<Longrightarrow> \<not> probing s \<Longrightarrow> add_run (A, edit_tls v s)"
| addressed: "add_run (A, s) \<Longrightarrow> \<not> probing s \<Longrightarrow> add_run (A, edit_email v s)"
| passed: "add_run (A, s) \<Longrightarrow> \<not> probing s \<Longrightarrow> add_run (A, edit_password v s)"
| probed: "add_run (A, s) \<Longrightarrow> \<not> probing s \<Longrightarrow> add_run (A, on_probe s)"
| retried: "add_run (A, s) \<Longrightarrow> \<not> probing s \<Longrightarrow> aa_folder_error s \<noteq> None \<Longrightarrow> add_run (A, do_list_folders s)"
| tested: "add_run (A, s) \<Longrightarrow> aa_task s = TestConnection args \<Longrightarrow> add_run (A, on_tested answer s)"
| listed: "add_run (A, s) \<Longrightarrow> aa_task s = ListFolders b args \<Longrightarrow> add_run ((args, fs) # A, on_listed b (Inr fs) s)"
| unlisted: "add_run (A, s) \<Longrightarrow> aa_task s = ListFolders b args \<Longrightarrow> add_run (A, on_listed b (Inl e) s)"
| toggled: "add_run (A, s) \<Longrightarrow> aa_picker_shown s \<Longrightarrow> toggle_row i s = Some s' \<Longrightarrow> add_run (A, s')"
| everything: "add_run (A, s) \<Longrightarrow> aa_picker_shown s \<Longrightarrow> add_run (A, all_rows v s)"
| submitted: "add_run (A, s) \<Longrightarrow> can_submit s \<Longrightarrow> add_run (A, snd (on_submit s))"
| refused: "add_run (A, s) \<Longrightarrow> aa_submitting s \<Longrightarrow> on_created answer s = Some s' \<Longrightarrow> add_run (A, s')"

end
