(* ===== verification/FolderTreeProps.thy ===== *)
theory FolderTreeProps
  imports FolderTree "HOL-Library.Multiset"
begin

text \<open>
  The folder picker's forest: building it never leaves a cycle or a dangling index, so every
  cascade returns and reaches exactly the subtree; and what the page submits is what the server
  listed, without the folders that cannot be selected.
\<close>

section \<open>Paths\<close>

lemma find_str_split: "find_str p s = Some i \<Longrightarrow> s = take i s @ p @ drop (i + length p) s"
proof (induction s arbitrary: i)
  case (Cons c s)
  show ?case
  proof (cases "starts_with p (c # s)")
    case True
    with Cons.prems have "i = 0" by simp
    moreover have "take (length p) (c # s) = p" using True by (simp add: starts_with_def)
    ultimately show ?thesis by (metis append_take_drop_id take_0 append_Nil add_0)
  next
    case False
    with Cons obtain j where "i = Suc j" "find_str p s = Some j" by auto
    with Cons.IH [of j] show ?thesis by simp
  qed
qed (auto split: if_splits)

lemma split_path_nonempty [simp]: "split_path s d \<noteq> []"
  by (subst split_path.simps) (simp split: option.split)

lemma join_with_Cons: "ws \<noteq> [] \<Longrightarrow> join_with d (w # ws) = w @ d @ join_with d ws"
  by (cases ws) simp_all

lemma join_split_path: "join_with d (split_path s d) = s"
proof (induction s d rule: split_path.induct)
  case (1 s d)
  show ?case
  proof (cases "d = [] \<or> find_str d s = None")
    case True
    then show ?thesis by (subst split_path.simps) auto
  next
    case False
    then obtain i where i: "find_str d s = Some i" "d \<noteq> []" by auto
    with 1 have "join_with d (split_path s d) = take i s @ d @ drop (i + length d) s"
      by (subst split_path.simps) (simp add: join_with_Cons)
    with find_str_split [OF i(1)] show ?thesis by simp
  qed
qed

lemma join_butlast_last: "1 < length ws \<Longrightarrow> join_with d ws = join_with d (butlast ws) @ d @ last ws"
proof (induction ws)
  case (Cons w ws)
  show ?case
  proof (cases "1 < length ws")
    case True
    then have "ws \<noteq> []" "butlast ws \<noteq> []" by (cases ws; force)+
    with True Cons.IH show ?thesis by (simp add: join_with_Cons)
  next
    case False
    with Cons.prems obtain v where "ws = [v]" by (cases ws) auto
    then show ?thesis by simp
  qed
qed simp

section \<open>The forest\<close>

definition forest :: "FolderNode list \<Rightarrow> bool" where
  "forest nodes \<longleftrightarrow> (\<forall>i < length nodes.
     (\<forall>c \<in> set (fn_children (nodes ! i)). i < c \<and> c < length nodes \<and> fn_parent (nodes ! c) = Some i) \<and>
     (\<forall>p. fn_parent (nodes ! i) = Some p \<longrightarrow> p < i \<and> i \<in> set (fn_children (nodes ! p)) \<and>
       (\<exists>delim. fn_path (nodes ! i) = fn_path (nodes ! p) @ delim @ fn_name (nodes ! i))))"

lemma forestD:
  assumes "forest nodes" and "i < length nodes"
  shows "c \<in> set (fn_children (nodes ! i)) \<Longrightarrow> i < c \<and> c < length nodes \<and> fn_parent (nodes ! c) = Some i"
    and "fn_parent (nodes ! i) = Some p \<Longrightarrow> p < i \<and> i \<in> set (fn_children (nodes ! p))"
    and "fn_parent (nodes ! i) = Some p \<Longrightarrow> \<exists>delim. fn_path (nodes ! i) = fn_path (nodes ! p) @ delim @ fn_name (nodes ! i)"
  using assms unfolding forest_def by blast+

text \<open>\<open>beneath nodes i j\<close>: going up from \<open>j\<close> one meets \<open>i\<close>.\<close>

inductive beneath :: "FolderNode list \<Rightarrow> nat \<Rightarrow> nat \<Rightarrow> bool" for nodes where
  self: "i < length nodes \<Longrightarrow> beneath nodes i i"
| up: "j < length nodes \<Longrightarrow> fn_parent (nodes ! j) = Some p \<Longrightarrow> beneath nodes i p \<Longrightarrow> beneath nodes i j"

lemma beneath_length: "beneath nodes i j \<Longrightarrow> i < length nodes \<and> j < length nodes"
  by (induction rule: beneath.induct) auto

lemma beneath_below: "beneath nodes c j \<Longrightarrow> fn_parent (nodes ! c) = Some i \<Longrightarrow> i < length nodes \<Longrightarrow> beneath nodes i j"
  by (induction rule: beneath.induct) (auto intro: beneath.intros)

lemma beneath_children:
  assumes "forest nodes" and "i < length nodes"
  shows "beneath nodes i j \<longleftrightarrow> j = i \<or> (\<exists>c \<in> set (fn_children (nodes ! i)). beneath nodes c j)"
proof
  show "beneath nodes i j \<Longrightarrow> j = i \<or> (\<exists>c \<in> set (fn_children (nodes ! i)). beneath nodes c j)"
  proof (induction rule: beneath.induct)
    case (up j p i)
    then have "j \<in> set (fn_children (nodes ! p))" using forestD(2) [OF assms(1)] by blast
    with up show ?case by (auto intro: beneath.intros)
  qed simp
next
  have "beneath nodes i j" if "c \<in> set (fn_children (nodes ! i))" "beneath nodes c j" for c
    using that forestD(1) [OF assms] assms(2) by (blast intro: beneath_below)
  then show "j = i \<or> (\<exists>c \<in> set (fn_children (nodes ! i)). beneath nodes c j) \<Longrightarrow> beneath nodes i j"
    using assms(2) by (auto intro: beneath.self)
qed

text \<open>The recursion over the children ends: a child's index is larger than its parent's.\<close>

lemma descend_forest:
  assumes "forest nodes"
  shows "(\<forall>c \<in> set cs. c < length nodes \<and> length nodes \<le> c + k) \<Longrightarrow>
    \<exists>ds. descend nodes cs acc = Some (acc @ ds) \<and> set ds = {j. \<exists>c \<in> set cs. beneath nodes c j}"
proof (induction k arbitrary: cs acc)
  case 0
  then have "cs = []" by (cases cs) auto
  then show ?case by (simp add: descend.simps)
next
  case (Suc k)
  then show ?case
  proof (induction cs arbitrary: acc)
    case Nil
    show ?case by (simp add: descend.simps)
  next
    case (Cons c rest)
    let ?ch = "fn_children (nodes ! c)"
    have c: "c < length nodes" using Cons.prems(2) by simp
    have "\<forall>x \<in> set ?ch. x < length nodes \<and> length nodes \<le> x + k"
      using forestD(1) [OF assms c] Cons.prems(2) by fastforce
    from Cons.prems(1) [OF this, of "acc @ [c]"] obtain d1 where
      d1: "descend nodes ?ch (acc @ [c]) = Some (acc @ c # d1)" "set d1 = {j. \<exists>x \<in> set ?ch. beneath nodes x j}" by auto
    from Cons.IH [OF Cons.prems(1), of "acc @ c # d1"] Cons.prems(2) obtain d2 where
      d2: "descend nodes rest (acc @ c # d1) = Some (acc @ c # d1 @ d2)" "set d2 = {j. \<exists>x \<in> set rest. beneath nodes x j}" by auto
    have "descend nodes (c # rest) acc = Some (acc @ c # d1 @ d2)"
      using c d1(1) d2(1) by (subst descend.simps) simp
    moreover have "set (c # d1 @ d2) = {j. \<exists>x \<in> set (c # rest). beneath nodes x j}"
      using beneath_children [OF assms c] d1(2) d2(2) by auto
    ultimately show ?case by blast
  qed
qed

lemma descendants_forest:
  assumes "forest (ft_nodes t)" and "i < length (ft_nodes t)"
  shows "\<exists>ds. descendants t i = Some ds \<and> insert i (set ds) = {j. beneath (ft_nodes t) i j}"
proof -
  have "\<forall>c \<in> set (fn_children (ft_nodes t ! i)). c < length (ft_nodes t) \<and> length (ft_nodes t) \<le> c + length (ft_nodes t)"
    using forestD(1) [OF assms] by auto
  from descend_forest [OF assms(1) this, of "[]"] show ?thesis
    using assms(2) beneath_children [OF assms] by (auto simp: descendants_def)
qed

section \<open>Building\<close>

lemma add_child_nth:
  "i < length nodes \<Longrightarrow> add_child parent n nodes ! i =
    (nodes ! i)\<lparr>fn_children := fn_children (nodes ! i) @ (if parent = Some i then [n] else [])\<rparr>"
  by (auto simp: add_child_def nth_list_update split: option.split)

lemma add_child_length [simp]: "length (add_child parent n nodes) = length nodes"
  by (simp add: add_child_def split: option.split)

lemma forest_push:
  assumes f: "forest nodes" and x: "fn_children x = []" "fn_parent x = parent"
    and p: "\<And>p. parent = Some p \<Longrightarrow> p < length nodes \<and> (\<exists>delim. fn_path x = fn_path (nodes ! p) @ delim @ fn_name x)"
  shows "forest (add_child parent (length nodes) nodes @ [x])" (is "forest ?N")
proof -
  have old: "i < length nodes \<Longrightarrow> ?N ! i =
      (nodes ! i)\<lparr>fn_children := fn_children (nodes ! i) @ (if parent = Some i then [length nodes] else [])\<rparr>" for i
    by (simp add: nth_append add_child_nth)
  have new: "?N ! length nodes = x" by (simp add: nth_append)
  have "(\<forall>c \<in> set (fn_children (?N ! i)). i < c \<and> c < length ?N \<and> fn_parent (?N ! c) = Some i) \<and>
     (\<forall>p. fn_parent (?N ! i) = Some p \<longrightarrow> p < i \<and> i \<in> set (fn_children (?N ! p)) \<and>
       (\<exists>delim. fn_path (?N ! i) = fn_path (?N ! p) @ delim @ fn_name (?N ! i)))" if "i < length ?N" for i
  proof (cases "i = length nodes")
    case True
    from p old show ?thesis unfolding True new by (auto simp: x)
  next
    case False
    with that have i: "i < length nodes" by simp
    have "i < c \<and> c < length ?N \<and> fn_parent (?N ! c) = Some i" if "c \<in> set (fn_children (?N ! i))" for c
    proof (cases "c = length nodes")
      case True
      with that i forestD(1) [OF f i, of c] have "parent = Some i" by (auto simp: old split: if_splits)
      with i show ?thesis unfolding True new by (simp add: x)
    next
      case False
      with that i forestD(1) [OF f i, of c] show ?thesis by (auto simp: old split: if_splits)
    qed
    moreover have "q < i \<and> i \<in> set (fn_children (?N ! q)) \<and>
        (\<exists>delim. fn_path (?N ! i) = fn_path (?N ! q) @ delim @ fn_name (?N ! i))" if "fn_parent (?N ! i) = Some q" for q
    proof -
      from that i have q: "fn_parent (nodes ! i) = Some q" by (simp add: old)
      from forestD(2) [OF f i q] i have "q < i" "q < length nodes" "i \<in> set (fn_children (nodes ! q))" by auto
      with forestD(3) [OF f i q] i show ?thesis by (simp add: old)
    qed
    ultimately show ?thesis by blast
  qed
  then show ?thesis unfolding forest_def by blast
qed

definition linked :: "FolderNode list \<times> (string \<Rightarrow> nat option) \<Rightarrow> bool" where
  "linked st \<longleftrightarrow> forest (fst st) \<and> (\<forall>k i. snd st k = Some i \<longrightarrow> i < length (fst st) \<and> fn_path (fst st ! i) = k)"

lemma linked_push: "linked st \<Longrightarrow> linked (push_folder st f)"
proof -
  assume l: "linked st"
  obtain nodes m where st: "st = (nodes, m)" by (cases st)
  have segs: "segments f \<noteq> []" by (simp add: segments_def)
  have whole: "join_with (delimiter_of f) (segments f) = rfd_path f" by (simp add: segments_def join_split_path)
  have par: "p < length nodes \<and> (\<exists>delim. rfd_path f = fn_path (nodes ! p) @ delim @ last (segments f))"
    if "parent_of f m = Some p" for p
  proof -
    from that have "1 < length (segments f)" "m (join_with (delimiter_of f) (butlast (segments f))) = Some p"
      by (auto simp: parent_of_def split: if_splits)
    with l st join_butlast_last [OF this(1), of "delimiter_of f"] whole show ?thesis by (auto simp: linked_def)
  qed
  let ?x = "\<lparr>fn_path = rfd_path f, fn_name = last (segments f), fn_special_use = rfd_special_use f, fn_no_select = rfd_no_select f,
    fn_depth = length (segments f) - 1, fn_parent = parent_of f m, fn_children = [], fn_selected = False\<rparr>"
  have push: "push_folder st f = (add_child (parent_of f m) (length nodes) nodes @ [?x], m(rfd_path f \<mapsto> length nodes))"
    using segs by (simp add: st push_folder_def Let_def)
  have "forest (add_child (parent_of f m) (length nodes) nodes @ [?x])"
    using l st par by (intro forest_push) (auto simp: linked_def)
  then show ?thesis using l st unfolding push by (auto simp: linked_def nth_append add_child_nth less_Suc_eq)
qed

definition offered :: "FolderNode \<Rightarrow> string \<times> string option \<times> bool" where
  "offered n = (fn_path n, fn_special_use n, fn_no_select n)"

definition listed :: "RemoteFolderDto \<Rightarrow> string \<times> string option \<times> bool" where
  "listed f = (rfd_path f, rfd_special_use f, rfd_no_select f)"

lemma build_loop:
  "linked st \<Longrightarrow> linked (foldl push_folder st fs) \<and>
    map offered (fst (foldl push_folder st fs)) = map offered (fst st) @ map listed fs"
proof (induction fs arbitrary: st)
  case (Cons f fs)
  have "map offered (add_child p i nodes) = map offered nodes" for p i nodes
    by (rule nth_equalityI) (simp_all add: add_child_nth offered_def)
  then have "map offered (fst (push_folder st f)) = map offered (fst st) @ [listed f]"
    by (simp add: push_folder_def Let_def offered_def [of "FolderNode.make _ _ _ _ _ _ _ _"] listed_def split: prod.split)
      (simp add: offered_def)
  with Cons.IH [OF linked_push [OF Cons.prems, of f]] show ?case by simp
qed simp

lemma build_tree_forest:
  "forest (ft_nodes (build_tree fs))" "mset (map offered (ft_nodes (build_tree fs))) = mset (map listed fs)"
proof -
  have "linked ([], Map.empty)" by (simp add: linked_def forest_def)
  note b = build_loop [OF this]
  show "forest (ft_nodes (build_tree fs))" using b by (simp add: build_tree_def Let_def linked_def)
  have perm: "mset (map snd (sort_key k (enumerate 0 fs))) = mset fs" for k :: "nat \<times> RemoteFolderDto \<Rightarrow> nat \<times> nat"
    unfolding mset_map mset_sort by (metis mset_map map_snd_enumerate)
  have "mset (map listed (map snd (sort_key k (enumerate 0 fs)))) = mset (map listed fs)"
    for k :: "nat \<times> RemoteFolderDto \<Rightarrow> nat \<times> nat"
    using perm [of k] by (simp only: mset_map)
  then show "mset (map offered (ft_nodes (build_tree fs))) = mset (map listed fs)"
    using b by (simp add: build_tree_def Let_def del: map_map)
qed

section \<open>Selecting\<close>

text \<open>A change of the selection keeps everything else of the nodes.\<close>

definition shape :: "FolderNode \<Rightarrow> FolderNode" where
  "shape n = n\<lparr>fn_selected := False\<rparr>"

definition same_shape :: "FolderNode list \<Rightarrow> FolderNode list \<Rightarrow> bool" where
  "same_shape N M \<longleftrightarrow> map shape N = map shape M"

lemma same_shapeD:
  assumes "same_shape N M"
  shows "length N = length M"
    and "i < length M \<Longrightarrow> fn_children (N ! i) = fn_children (M ! i) \<and> fn_parent (N ! i) = fn_parent (M ! i) \<and>
      fn_path (N ! i) = fn_path (M ! i) \<and> fn_name (N ! i) = fn_name (M ! i) \<and> offered (N ! i) = offered (M ! i)"
proof -
  from assms have m: "map shape N = map shape M" by (simp add: same_shape_def)
  then show len: "length N = length M" by (rule map_eq_imp_length_eq)
  assume "i < length M"
  with len have "shape (N ! i) = shape (M ! i)" using arg_cong [OF m, of "\<lambda>l. l ! i"] by simp
  then show "fn_children (N ! i) = fn_children (M ! i) \<and> fn_parent (N ! i) = fn_parent (M ! i) \<and>
      fn_path (N ! i) = fn_path (M ! i) \<and> fn_name (N ! i) = fn_name (M ! i) \<and> offered (N ! i) = offered (M ! i)"
    by (cases "N ! i", cases "M ! i") (simp add: shape_def offered_def)
qed

lemma same_shape_sym: "same_shape N M \<Longrightarrow> same_shape M N"
  by (simp add: same_shape_def)

lemma forest_same_shape: "same_shape N M \<Longrightarrow> forest M \<Longrightarrow> forest N"
  unfolding forest_def using same_shapeD by (smt (verit) order.strict_trans)

lemma beneath_same_shape: "beneath N i j \<Longrightarrow> same_shape N M \<Longrightarrow> beneath M i j"
  by (induction rule: beneath.induct) (auto simp: same_shapeD intro: beneath.intros)

lemma offered_same_shape: "same_shape N M \<Longrightarrow> map offered N = map offered M"
  by (rule nth_equalityI) (simp_all add: same_shapeD)

lemma select_node_shape: "same_shape (select_node v nodes d) nodes"
  unfolding same_shape_def
  by (cases "d < length nodes") (auto simp: select_node_def nth_list_update shape_def list_update_beyond intro!: nth_equalityI)

lemma select_node_nth: "i < length nodes \<Longrightarrow> select_node v nodes d ! i =
    (if i = d then (nodes ! i)\<lparr>fn_selected := v\<rparr> else nodes ! i)"
  by (simp add: select_node_def nth_list_update)

lemma select_node_length [simp]: "length (select_node v nodes d) = length nodes"
  by (simp add: select_node_def)

lemma select_nodes_run:
  "same_shape (foldl (select_node v) nodes ds) nodes \<and>
   (\<forall>i < length nodes. foldl (select_node v) nodes ds ! i =
      (if i \<in> set ds then (nodes ! i)\<lparr>fn_selected := v\<rparr> else nodes ! i))"
proof (induction ds arbitrary: nodes)
  case (Cons d ds)
  have "same_shape (foldl (select_node v) (select_node v nodes d) ds) nodes"
    using Cons.IH [of "select_node v nodes d"] select_node_shape [of v nodes d] by (simp add: same_shape_def)
  with Cons.IH [of "select_node v nodes d"] show ?case by (auto simp: select_node_nth)
qed (simp add: same_shape_def)

lemma set_subtree_run:
  assumes f: "forest (ft_nodes t)" and i: "i < length (ft_nodes t)"
  shows "\<exists>t'. set_subtree t i v = Some t' \<and> same_shape (ft_nodes t') (ft_nodes t) \<and>
    (\<forall>j < length (ft_nodes t). ft_nodes t' ! j =
      (if beneath (ft_nodes t) i j then (ft_nodes t ! j)\<lparr>fn_selected := v\<rparr> else ft_nodes t ! j))"
proof -
  let ?N = "ft_nodes t" and ?t1 = "t\<lparr>ft_nodes := select_node v (ft_nodes t) i\<rparr>"
  note sh = select_node_shape [of v ?N i]
  have "forest (ft_nodes ?t1)" using forest_same_shape [OF sh f] by simp
  from descendants_forest [OF this, of i] i obtain ds where
    ds: "descendants ?t1 i = Some ds" "insert i (set ds) = {j. beneath (select_node v ?N i) i j}" by auto
  have un: "beneath (select_node v ?N i) i j \<longleftrightarrow> beneath ?N i j" for j
    using beneath_same_shape sh same_shape_sym by blast
  then have in_ds: "j \<in> insert i (set ds) \<longleftrightarrow> beneath ?N i j" for j unfolding ds(2) by simp
  then have "\<forall>d \<in> set ds. d < length ?N" using beneath_length by blast
  then have run: "set_subtree t i v = Some (?t1\<lparr>ft_nodes := foldl (select_node v) (select_node v ?N i) ds\<rparr>)"
    using i ds(1) by (simp add: set_subtree_def Let_def)
  note many = select_nodes_run [of v "select_node v ?N i" ds]
  have "same_shape (foldl (select_node v) (select_node v ?N i) ds) ?N"
    using many sh by (simp add: same_shape_def)
  moreover have "foldl (select_node v) (select_node v ?N i) ds ! j =
      (if beneath ?N i j then (?N ! j)\<lparr>fn_selected := v\<rparr> else ?N ! j)" if "j < length ?N" for j
    using many that unfolding in_ds [symmetric] by (simp add: select_node_nth)
  ultimately show ?thesis using run by simp
qed

lemma select_all_shape: "same_shape (ft_nodes (select_all v t)) (ft_nodes t)"
  by (simp add: same_shape_def select_all_def shape_def o_def)

lemma default_inbox_shape: "same_shape (ft_nodes (default_select_inbox t)) (ft_nodes t)"
  using select_node_shape by (auto simp: default_select_inbox_def same_shape_def split: option.split)

section \<open>The page\<close>

inductive picker :: "RemoteFolderDto list \<Rightarrow> FolderTree \<Rightarrow> bool" for fs where
  loaded: "picker fs (loaded_tree fs)"
| toggle: "picker fs t \<Longrightarrow> on_toggle t i = Some t' \<Longrightarrow> picker fs t'"
| everything: "picker fs t \<Longrightarrow> picker fs (select_all v t)"

lemma toggle_run:
  assumes "forest (ft_nodes t)" and "on_toggle t i = Some t'"
  shows "same_shape (ft_nodes t') (ft_nodes t)"
proof -
  from assms(2) have i: "i < length (ft_nodes t)" by (simp add: on_toggle_def split: if_splits)
  from set_subtree_run [OF assms(1) i, of "\<not> fn_selected (ft_nodes t ! i)"] assms(2) i show ?thesis
    by (auto simp: on_toggle_def)
qed

lemma picker_ok: "picker fs t \<Longrightarrow> forest (ft_nodes t) \<and> mset (map offered (ft_nodes t)) = mset (map listed fs)"
proof (induction rule: picker.induct)
  case loaded
  from default_inbox_shape [of "build_tree fs"] build_tree_forest [of fs] show ?case
    unfolding loaded_tree_def by (metis forest_same_shape offered_same_shape)
next
  case (toggle t i t')
  with toggle_run [of t i t'] show ?case by (metis forest_same_shape offered_same_shape)
next
  case (everything t v)
  with select_all_shape [of v t] show ?case by (metis forest_same_shape offered_same_shape)
qed

text \<open>
  C28. Whatever folders the server lists and however they are toggled, a toggle of a row returns
  (the recursion over the children ends, no index is out of range), and it gives the row and
  everything below it the opposite of the row's value and leaves every other row as it is.
\<close>

theorem toggle_cascades:
  assumes "picker fs t" and "i < length (ft_nodes t)"
  shows "\<exists>t'. on_toggle t i = Some t' \<and> length (ft_nodes t') = length (ft_nodes t) \<and>
    (\<forall>j < length (ft_nodes t). ft_nodes t' ! j =
      (ft_nodes t ! j)\<lparr>fn_selected := (if beneath (ft_nodes t) i j then \<not> fn_selected (ft_nodes t ! i)
        else fn_selected (ft_nodes t ! j))\<rparr>)"
proof -
  have "forest (ft_nodes t)" using picker_ok [OF assms(1)] by simp
  from set_subtree_run [OF this assms(2), of "\<not> fn_selected (ft_nodes t ! i)"] obtain t' where
    t': "set_subtree t i (\<not> fn_selected (ft_nodes t ! i)) = Some t'" "same_shape (ft_nodes t') (ft_nodes t)"
      "\<forall>j < length (ft_nodes t). ft_nodes t' ! j = (if beneath (ft_nodes t) i j
        then (ft_nodes t ! j)\<lparr>fn_selected := \<not> fn_selected (ft_nodes t ! i)\<rparr> else ft_nodes t ! j)" by blast
  then show ?thesis using assms(2) same_shapeD(1) [OF t'(2)] by (intro exI [of _ t']) (simp add: on_toggle_def)
qed

text \<open>The tri-state of a row: some of the folders below it that can be selected are, and some are not.\<close>

lemma is_indeterminate_iff:
  assumes "picker fs t" and "i < length (ft_nodes t)"
  shows "\<exists>ds. descendants t i = Some ds \<and> is_indeterminate t i = Some
    ((\<exists>d \<in> set ds. \<not> fn_no_select (ft_nodes t ! d) \<and> fn_selected (ft_nodes t ! d)) \<and>
     (\<exists>d \<in> set ds. \<not> fn_no_select (ft_nodes t ! d) \<and> \<not> fn_selected (ft_nodes t ! d)))"
proof -
  have "forest (ft_nodes t)" using picker_ok [OF assms(1)] by simp
  from descendants_forest [OF this assms(2)] obtain ds where ds: "descendants t i = Some ds" by blast
  have count: "(0 < length (filter p xs) \<and> length (filter p xs) < length xs) \<longleftrightarrow> (\<exists>x \<in> set xs. p x) \<and> (\<exists>x \<in> set xs. \<not> p x)"
    for p :: "nat \<Rightarrow> bool" and xs
  proof -
    have "length (filter p xs) < length xs \<longleftrightarrow> (\<exists>x \<in> set xs. \<not> p x)"
      by (metis filter_True length_filter_less less_irrefl)
    then show ?thesis by (auto simp: filter_empty_conv)
  qed
  let ?S = "filter (\<lambda>d. \<not> fn_no_select (ft_nodes t ! d)) ds"
  have "is_indeterminate t i = Some ((\<exists>x \<in> set ?S. fn_selected (ft_nodes t ! x)) \<and> (\<exists>x \<in> set ?S. \<not> fn_selected (ft_nodes t ! x)))"
    unfolding count [symmetric] by (simp add: is_indeterminate_def ds Let_def del: filter_filter)
  then show ?thesis using ds by auto
qed

text \<open>
  The rows of the picker are the folders the server listed, each once, and a folder's parent
  row is the folder whose path its own extends; what is submitted are listed folders that can be
  selected, as many as the button says, and the server drops none of them.
\<close>

theorem picker_payload:
  assumes "picker fs t"
  shows "mset (map offered (ft_nodes t)) = mset (map listed fs) \<and>
    (\<forall>i < length (ft_nodes t). \<forall>p. fn_parent (ft_nodes t ! i) = Some p \<longrightarrow> p < i \<and>
      (\<exists>delim. fn_path (ft_nodes t ! i) = fn_path (ft_nodes t ! p) @ delim @ fn_name (ft_nodes t ! i))) \<and>
    (\<forall>x \<in> set (selected_new_folders t). (nfd_path x, nfd_special_use x, False) \<in> set (map listed fs)) \<and>
    length (folder_requests (selected_new_folders t)) = selected_count t"
proof -
  note ok = picker_ok [OF assms]
  have rows: "set (map offered (ft_nodes t)) = set (map listed fs)" using ok by (metis set_mset_mset)
  have "(nfd_path x, nfd_special_use x, False) \<in> set (map offered (ft_nodes t))" if "x \<in> set (selected_new_folders t)" for x
    using that by (force simp: selected_new_folders_def chosen_def offered_def)
  moreover have "length (folder_requests (selected_new_folders t)) = selected_count t"
    by (simp add: folder_requests_def selected_new_folders_def selected_count_def filter_map o_def)
  ultimately show ?thesis using ok rows forestD(2,3) by blast
qed

section \<open>Concrete inputs\<close>

definition gmail :: "RemoteFolderDto list" where
  "gmail =
    [\<lparr>rfd_path = ''G/All'', rfd_special_use = Some ''all'', rfd_has_children = False, rfd_no_select = False, rfd_delimiter = Some ''/''\<rparr>,
     \<lparr>rfd_path = ''INBOX'', rfd_special_use = None, rfd_has_children = False, rfd_no_select = False, rfd_delimiter = None\<rparr>,
     \<lparr>rfd_path = ''G'', rfd_special_use = None, rfd_has_children = True, rfd_no_select = True, rfd_delimiter = Some ''/''\<rparr>]"

lemma gmail_rows: "length (ft_nodes (loaded_tree gmail)) = 3" "map fn_path (ft_nodes (loaded_tree gmail)) = [''INBOX'', ''G'', ''G/All'']"
  "fn_parent (ft_nodes (loaded_tree gmail) ! 2) = Some 1" "\<not> fn_selected (ft_nodes (loaded_tree gmail) ! 1)"
  by code_simp+

lemma gmail_beneath: "beneath (ft_nodes (loaded_tree gmail)) 1 2"
  by (rule beneath.up [where p = 1]) (simp_all add: gmail_rows beneath.self)

theorem toggle_cascades_witness:
  "\<exists>t'. on_toggle (loaded_tree gmail) 1 = Some t' \<and> fn_selected (ft_nodes t' ! 2)"
  using toggle_cascades [OF picker.loaded, of 1 gmail] gmail_rows gmail_beneath by (auto simp: gmail_rows)

theorem picker_payload_witness:
  "length (folder_requests (selected_new_folders (loaded_tree gmail))) = 1"
proof -
  have "selected_count (loaded_tree gmail) = 1" by code_simp
  with picker_payload [OF picker.loaded, of gmail] show ?thesis by simp
qed

end
