(* ===== verification/AddAccountProps.thy ===== *)
theory AddAccountProps
  imports AddAccount FolderTreeProps WebAccountProps
begin

text \<open>
  What the page that adds an account submits: the connection that was probed last and folders
  that this probe listed, however edits, probes, retries, failures and toggles follow each other.
\<close>

section \<open>The invariant of the page\<close>

text \<open>
  A request under way was asked with the fields as they are; a picker that is shown holds a
  listing that succeeded, and unless it is stale one for the fields as they are.
\<close>

definition page_ok :: "(probe_args \<times> RemoteFolderDto list) list \<Rightarrow> add_account \<Rightarrow> bool" where
  "page_ok A s \<longleftrightarrow>
    (case aa_task s of NoProbe \<Rightarrow> True | TestConnection args \<Rightarrow> args = probe_arguments s
     | ListFolders b args \<Rightarrow> args = probe_arguments s) \<and>
    (aa_picker_shown s \<longrightarrow> (\<exists>x \<in> set A. picker (snd x) (aa_tree s) \<and>
       (aa_picker_stale s \<or> fst x = probe_arguments s)))"

lemmas edit_defs = edit_display_name_def edit_host_def edit_port_def edit_tls_def edit_email_def edit_password_def
  mark_stale_def fill_port_def

lemmas field_defs = probe_arguments_def server_dto_def

lemma edit_keeps:
  assumes "page_ok A s" and "\<not> probing s" and "aa_task s' = aa_task s" and "aa_tree s' = aa_tree s" and "aa_picker_shown s' = aa_picker_shown s"
    and "aa_picker_shown s \<longrightarrow> aa_picker_stale s' \<or> (probe_arguments s' = probe_arguments s \<and> aa_picker_stale s' = aa_picker_stale s)"
  shows "page_ok A s'"
proof -
  have "aa_task s' = NoProbe" using assms(2,3) by (simp add: probing_def)
  moreover have "\<exists>x \<in> set A. picker (snd x) (aa_tree s') \<and> (aa_picker_stale s' \<or> fst x = probe_arguments s')"
    if "aa_picker_shown s'"
    using assms(1,4-6) that unfolding page_ok_def by metis
  ultimately show ?thesis by (simp add: page_ok_def)
qed

lemma edits_keep:
  assumes "page_ok A s" and "\<not> probing s"
  shows "page_ok A (edit_display_name v s)" "page_ok A (edit_host v s)" "page_ok A (edit_port v s)"
    "page_ok A (edit_tls v s)" "page_ok A (edit_email v s)" "page_ok A (edit_password v s)"
  by (rule edit_keeps [OF assms]; simp add: edit_defs field_defs)+

lemma same_fields_keep:
  "page_ok A s \<Longrightarrow> aa_task s' = aa_task s \<Longrightarrow> aa_tree s' = aa_tree s \<Longrightarrow> aa_picker_shown s' = aa_picker_shown s \<Longrightarrow>
   aa_picker_stale s' = aa_picker_stale s \<Longrightarrow> probe_arguments s' = probe_arguments s \<Longrightarrow> page_ok A s'"
  by (cases "aa_task s") (simp_all add: page_ok_def)

lemma new_tree_keeps:
  assumes "page_ok A s" and "\<And>fs. picker fs (aa_tree s) \<Longrightarrow> picker fs t"
  shows "page_ok A (s\<lparr>aa_tree := t\<rparr>)"
proof -
  have "probe_arguments (s\<lparr>aa_tree := t\<rparr>) = probe_arguments s" by (simp add: field_defs)
  with assms show ?thesis unfolding page_ok_def by (cases "aa_task s") (simp_all, blast+)
qed

lemma add_run_ok: "add_run (A, s) \<Longrightarrow> page_ok A s"
proof (induction "(A, s)" arbitrary: A s rule: add_run.induct)
  case opened
  show ?case by (simp add: page_ok_def opened_page_def)
next
  case (probed A s)
  then show ?case by (auto simp: page_ok_def on_probe_def probing_def Let_def field_defs)
next
  case (retried A s)
  then show ?case by (auto simp: page_ok_def do_list_folders_def field_defs)
next
  case (tested A s args answer)
  then show ?case by (auto simp: page_ok_def on_tested_def field_defs split: sum.split)
next
  case (listed A s b args fs)
  then have "args = probe_arguments s" by (simp add: page_ok_def)
  then show ?case using picker.loaded [of fs] by (auto simp: page_ok_def on_listed_def field_defs)
next
  case (unlisted A s b args e)
  then show ?case by (auto simp: page_ok_def on_listed_def field_defs)
next
  case (toggled A s i s')
  then obtain t where t: "on_toggle (aa_tree s) i = Some t" "s' = s\<lparr>aa_tree := t\<rparr>"
    by (auto simp: toggle_row_def)
  from new_tree_keeps [OF toggled(2) picker.toggle [OF _ t(1)]] t(2) show ?case by simp
next
  case (everything A s v)
  from new_tree_keeps [OF everything(2) picker.everything] show ?case by (simp add: all_rows_def)
next
  case (submitted A s)
  then show ?case by (elim same_fields_keep) (simp_all add: on_submit_def Let_def field_defs)
next
  case (refused A s answer s')
  then have "\<exists>e. s' = s\<lparr>aa_submit_error := Some e, aa_submitting := False\<rparr>"
    by (auto simp: on_created_def split: sum.splits)
  with refused(2) show ?case by (auto elim!: same_fields_keep simp: field_defs)
qed (simp_all add: edits_keep)

section \<open>The properties\<close>

text \<open>
  C24. The account that is submitted is the one that was probed. Whenever the button can be pressed
  it submits, and the server, address and password are those of a listing that succeeded; the
  folders are folders of that listing that can be selected, as many as the button says and at
  least one.
\<close>

theorem submits_what_was_probed:
  assumes "add_run (A, s)" and "can_submit s"
  shows "\<exists>payload fs. fst (on_submit s) = Some payload \<and>
    ((nad_server payload, nad_email payload, nad_password payload), fs) \<in> set A \<and>
    nad_folders payload \<noteq> [] \<and> length (nad_folders payload) = selected_count (aa_tree s) \<and>
    (\<forall>x \<in> set (nad_folders payload). (nfd_path x, nfd_special_use x, False) \<in> set (map listed fs))"
proof -
  from add_run_ok [OF assms(1)] assms(2) obtain fs where
    A: "(probe_arguments s, fs) \<in> set A" and picker: "picker fs (aa_tree s)"
    by (auto simp: page_ok_def can_submit_def)
  let ?folders = "selected_new_folders (aa_tree s)"
  have count: "length ?folders = selected_count (aa_tree s)" by (simp add: selected_new_folders_def selected_count_def)
  with assms(2) have "?folders \<noteq> []" by (auto simp: can_submit_def)
  with A picker_payload [OF picker] count show ?thesis
    by (auto simp: on_submit_def Let_def probe_arguments_def)
qed

section \<open>Concrete pages\<close>

definition typed_page :: add_account where
  "typed_page = opened_page\<lparr>aa_display_name := ''Work'', aa_host := ''imap.example.com'', aa_email := ''me@example.com'',
     aa_password := ''pw''\<rparr>"

definition probed_page :: add_account where
  "probed_page = on_listed True (Inr gmail) (on_tested (Inr ()) (on_probe typed_page))"

lemma typed_run: "add_run ([], typed_page)"
proof -
  have "add_run ([], edit_password ''pw'' (edit_email ''me@example.com'' (edit_host ''imap.example.com''
      (edit_display_name ''Work'' opened_page))))"
    by (intro add_run.opened add_run.named add_run.hosted add_run.addressed add_run.passed)
      (simp_all add: edit_defs probing_def opened_page_def)
  then show ?thesis by (simp add: edit_defs opened_page_def typed_page_def)
qed

lemma probed_run: "add_run ([(probe_arguments typed_page, gmail)], probed_page)"
proof -
  let ?s = "on_tested (Inr ()) (on_probe typed_page)"
  have args: "aa_task (on_probe typed_page) = TestConnection (probe_arguments typed_page)" by code_simp
  have "add_run ([], on_probe typed_page)"
    by (rule add_run.probed [OF typed_run]) (simp add: probing_def typed_page_def opened_page_def)
  from add_run.tested [OF this args, of "Inr ()"] have "add_run ([], ?s)" .
  moreover have "aa_task ?s = ListFolders True (probe_arguments typed_page)" by code_simp
  ultimately show ?thesis unfolding probed_page_def by (rule add_run.listed)
qed

text \<open>The banner of an earlier connection stays beside the error of a later one.\<close>

lemma test_keeps_banner:
  "aa_connected_email (on_tested (Inl e) (on_probe (edit_host v s))) = aa_connected_email s"
  by (simp add: on_tested_def on_probe_def edit_defs Let_def)

lemma both_banners:
  "aa_connected_email (on_tested (Inl e) (on_probe (edit_host v probed_page))) = Some ''me@example.com'' \<and>
   aa_conn_error (on_tested (Inl e) (on_probe (edit_host v probed_page))) = Some login_friendly"
proof -
  have "aa_connected_email probed_page = Some ''me@example.com''" by code_simp
  then show ?thesis unfolding test_keeps_banner by (simp add: on_tested_def)
qed

text \<open>
  On the server the account is committed before its folders: when the database fails in between,
  the page shows an error and keeps the form, but the account is there, without folders, and
  another submission adds a second one.
\<close>

definition work_account :: NewAccountDto where
  "work_account = \<lparr>nad_display_name = ''Work'', nad_email = ''me@example.com'',
     nad_server = \<lparr>scd_host = ''imap.example.com'', scd_port = 993, scd_tls = ''Tls''\<rparr>, nad_password = ''pw'',
     nad_folders = [\<lparr>nfd_path = ''INBOX'', nfd_special_use = None, nfd_no_select = False\<rparr>]\<rparr>"

definition half_created :: "(string + AccountSummaryDto) \<times> port_world" where
  "half_created = create_account_and_start unary_tokens sample_account_env imap_adapter
     (Some (other_user\<lparr>au_id := 1\<rparr>)) work_account (sample_port\<lparr>tx_faults := [None, None, None,
       Some \<lparr>dberr_variant = DbConnectionAcquire, dberr_sql_err = None, dberr_text = []\<rparr>]\<rparr>)"

lemma half_created_account:
  "map_sum id (\<lambda>_. ()) (fst half_created) = Inl ''Connection Error: '' \<and>
   map acc_user_id (tbl_accounts (tx_db (snd half_created))) = [1, 1] \<and>
   map acc_display_name (drop 1 (tbl_accounts (tx_db (snd half_created)))) = [''Work''] \<and>
   length (tbl_folders (tx_db (snd half_created))) = length (tbl_folders (tx_db sample_port))"
  by code_simp

theorem submits_what_was_probed_witness:
  "\<exists>payload. fst (on_submit probed_page) = Some payload \<and> nad_email payload = ''me@example.com'' \<and>
     length (nad_folders payload) = 1"
proof -
  have can: "can_submit probed_page" and one: "selected_count (aa_tree probed_page) = 1" by code_simp+
  from submits_what_was_probed [OF probed_run can] one obtain payload where
    p: "fst (on_submit probed_page) = Some payload" "length (nad_folders payload) = 1"
      "(nad_server payload, nad_email payload, nad_password payload) = probe_arguments typed_page"
    by auto
  have "fst (snd (probe_arguments typed_page)) = ''me@example.com''" by code_simp
  then have "nad_email payload = ''me@example.com''" by (simp flip: p(3))
  with p show ?thesis by blast
qed

end
