(* ===== verification/Spec2Isabelle.thy ===== *)
theory Spec2Isabelle
  imports WorkerDrain WriteRace ImapSyncProps ImapAccountProps SearchServiceProps WebAccess OidcProps
    PagingProps EventsProps SearchBarProps IndexDir AddAccountProps
begin

text \<open>
  A verification development of MailKeep: an IMAP archiver that mirrors mailboxes into a database,
  an encrypted blob store and a search index, and shows them to signed-in users on web pages.

  \<^bold>\<open>The program and how its parts interact.\<close> The sync tasks of an account
  (\<open>crates/imap/src/sync.rs\<close>) fetch windows of messages and hand each to the ingest service
  (\<open>crates/core/src/ingest\<close>), which stores the raw bytes in the blob store
  (\<open>crates/storage\<close>, encrypted by \<open>crates/core/src/crypto\<close>) and queues a parse job
  (\<open>crates/core/src/jobs\<close>, \<open>crates/database/src/adapters/jobs.rs\<close>). The job worker
  (\<open>crates/core/src/jobs/worker.rs\<close>) claims the job and runs the parse handler
  (\<open>crates/parser\<close>), which records the message, its location and its attachments
  (\<open>crates/core/src/message\<close>, \<open>crates/database/src/adapters/message*.rs\<close>). The indexer
  (\<open>crates/search/src/indexer.rs\<close>) drains the messages that are not indexed into the search
  index, which the search service (\<open>crates/search/src/service.rs\<close>) queries. Accounts and
  folders (\<open>crates/core/src/account\<close>, \<open>crates/core/src/folder\<close>) say what is mirrored, and
  the IMAP subsystem (\<open>crates/imap/src/subsystem.rs\<close>, \<open>crates/core/src/imap\<close>) starts,
  reconciles and stops the sync tasks. Users, sessions and settings (\<open>crates/core/src/user\<close>,
  \<open>crates/core/src/auth\<close>) stand behind the server functions of the pages
  (\<open>crates/frontend/src/routes\<close>) and single sign-on (\<open>crates/frontend/src/server/oidc.rs\<close>);
  changes of accounts reach the browsers as a stream of nudges
  (\<open>crates/core/src/event\<close>, \<open>crates/frontend/src/server/events.rs\<close>).

  \<^bold>\<open>Theories.\<close>
  \<^item> \<open>Prelude\<close>: actions (state passing with an error result), preservation and frame
    calculi, saturating words, tables as lists of rows. \<open>Texts\<close>, \<open>Decimals\<close>: UTF-8 strings
    and the integers in them.
  \<^item> \<open>Errors\<close>: the error kinds and the mapping of database errors. \<open>Schema\<close>: the entities
    and the database. \<open>Store\<close>: statements and transactions over a schedule of database
    failures. \<open>World\<close>: the tables with the wake-ups, the file system and the nonces.
  \<^item> \<open>JobQueue\<close>, \<open>JobQueueProps\<close>: the job table's adapter; \<open>JobService\<close>: enqueue and
    the handler registry; \<open>Worker\<close>: one pass of the worker loop; \<open>WorkerPool\<close>: several
    workers interleaved with other clients as an inductive step relation, with reachability and
    invariants by rule induction; \<open>WorkerDrain\<close>: the outcome of one pass on every branch, its
    place in the pool, and the drain of the queue.
  \<^item> \<open>Crypto\<close>, \<open>ContentHash\<close>, \<open>BlobStore\<close>, \<open>BlobContract\<close> (the locale
    \<open>blob_store\<close> and its interpretation on the file-system stores), \<open>WriteRace\<close> (two
    writers of one blob, interleaved).
  \<^item> \<open>Messages\<close>, \<open>MessageService\<close>, \<open>MessageProps\<close>: messages, locations, attachments
    and the service that records them. \<open>Parser\<close>: the mail parser and the renderer, and which
    images a message shows.
    \<open>Ingest\<close>, \<open>Archive\<close>: ingest, the parse handler, and the pipeline as a whole.
  \<^item> \<open>Folders\<close>; \<open>Accounts\<close>, \<open>AccountProps\<close>: folders and accounts with their services.
  \<^item> \<open>ImapSync\<close>, \<open>ImapSyncProps\<close>: connecting, one pass over a folder, the poll and IDLE
    tasks. \<open>ImapAccounts\<close>, \<open>ImapAccountProps\<close>: the adapter that runs the tasks, the
    service over it (the locale \<open>imap_port_contract\<close>, interpreted on the adapter) and the
    subsystem.
  \<^item> \<open>SearchQuery\<close>: the query language; \<open>SearchIndex\<close>: the index and its one writer;
    \<open>IndexDir\<close>: its directory; \<open>SearchIndexer\<close>, \<open>SearchIndexerProps\<close>: rebuild and drain;
    \<open>SearchService\<close>, \<open>SearchServiceProps\<close>: scoped search.
  \<^item> \<open>Users\<close>, \<open>UserProps\<close>: users, their settings and capabilities. \<open>Sessions\<close>,
    \<open>SessionProps\<close>: sessions, login and the user of a request (the locale \<open>keyed_table\<close>,
    interpreted on sessions and on settings).
  \<^item> \<open>ServerHelpers\<close>, \<open>WebUsers\<close>, \<open>WebUserProps\<close>: the server functions about users;
    \<open>SuperAdmin\<close>: requests with cached sessions interleaved as an inductive relation;
    \<open>WebAccess\<close>: passwords, page contexts, the theme. \<open>Oidc\<close>, \<open>OidcProps\<close>: single
    sign-on, with its runs as an inductive relation.
  \<^item> \<open>Display\<close>, \<open>WebAccounts\<close>, \<open>WebAccountProps\<close>: the server functions about accounts.
    \<open>FolderTree\<close>, \<open>FolderTreeProps\<close>: the folder picker. \<open>AddAccount\<close>,
    \<open>AddAccountProps\<close>: the page that adds an account.
  \<^item> \<open>Stats\<close>, \<open>WebMail\<close>, \<open>WebMailProps\<close>: statistics, message list, search results and
    viewer, with a calculus of runs that agree. \<open>Paging\<close>, \<open>PagingProps\<close>: the lists in the
    browser. \<open>Completion\<close>, \<open>SearchBar\<close>, \<open>SearchBarProps\<close>: the search box and the panel.
    \<open>Events\<close>, \<open>EventsProps\<close>: the nudges.

  \<^bold>\<open>State and failures.\<close> Each layer extends the state record of the one below: \<open>tx\<close>
  (tables, database schedule, clock, random tokens), \<open>world\<close> (files, nonces, wake-ups),
  \<open>sync_world\<close> (the network and the status of one account's tasks), \<open>app_world\<close> (the search
  index, events) and \<open>port_world\<close> (the tracked accounts). An \<open>async fn\<close> that returns a
  \<open>Result\<close> is a function from the state to \<open>Inl\<close> an error or \<open>Inr\<close> a value, and the
  state it leaves. Every call out (a statement, a commit, a file operation, a network exchange, a
  call into the search engine) takes its outcome from a schedule in the state, so a theorem for
  all states holds for every pattern of failures. A page in the browser is a record of its
  signals, an event handler a function on it, and a request in flight is answered by a later step.
  A panic is the value \<open>None\<close>.

  \<^bold>\<open>What the lemmas show.\<close> The job queue: rows evolve only forward, claims are exclusive
  under interference, a pass changes exactly the row it took and to the outcome of its handler, the
  queue drains. The store: writes
  are all or nothing, what is put is read back, accounts are apart. Mail: one message per content
  and account however often it is ingested, references stay valid, a completed parse job has its
  message archived with its attachments stored; recording changes no row but those of its message;
  a message shown without remote content has no remote image. Sync: the stored cursor never passes a message
  that is not queued. Accounts: optimistic updates, ownership, deletion of one account only, each
  clean-up done unless that step fails; no task outlives its account. Search: the parser reads exactly the documented query
  language; the index never has two documents of a message and, once its version file is
  current, has one for every flagged message that is readable (a rebuild that failed half-way is made
  good by the next start that ends well, and hides mail until then: \<open>failed_rebuild_hides_mail\<close>);
  the drain ends, and hits are the user's own. Users: one super administrator,
  bounded powers of the others, deletion takes what the user owns, sessions load as they were
  stored; logins follow from passwords or from a verified token of a flow that was started. Pages:
  what a user reads depends on the user's own rows only, lists have no gaps, what is submitted was
  probed, no change goes without a nudge. \<open>archive_ok\<close>, \<open>jobs_ok\<close>, \<open>blobs_ok\<close>,
  \<open>pipeline_ok\<close>, \<open>search_ok\<close>, \<open>mail_ok\<close>, \<open>roles_ok\<close>, \<open>bar_ok\<close> and \<open>page_ok\<close> are the
  invariants.

  \<^bold>\<open>Bounds and fuel.\<close> \<open>claim_loop\<close> has the code's own bound \<open>MAX_CLAIM_ATTEMPTS\<close>.
  The poll and IDLE loops and the reconcile ticks end only at shutdown; \<open>poll_turns\<close>,
  \<open>idle_rounds\<close>, \<open>reconcile_ticks\<close> and \<open>drain_ticks\<close> run any given number of turns, and the
  theorems hold for every number. \<open>fetch_windows\<close> ends because the window start grows. The
  drain loop and the recursion over the folder tree are partial functions whose termination is a
  theorem, not an assumption.

  \<^bold>\<open>Parameters.\<close> Code outside the repository is an argument: the cipher and hash
  primitives (\<open>crypto_ok\<close>, \<open>aead_binds\<close> say what is relied on), the MIME parser and the HTML
  sanitizer (\<open>mail_env\<close>), the IMAP server and library (\<open>imap_env\<close>), the serialisation of
  credentials (\<open>account_env\<close>), the calendar (the date reader of \<open>SearchQuery\<close>), the search
  engine with its analyzer and its files (\<open>search_env\<close>, \<open>engine_ok\<close>, \<open>engine_dir_ok\<close>), the
  password hasher, the texts of tokens (\<open>token_texts\<close>, \<open>mail_tokens\<close>), random draws, the
  letters and the lower-casing of Unicode, the identity provider with its protocol library, and
  the broadcast channel (\<open>broadcast_ok\<close>). Foreign keys, unique indexes and cascades are those
  of the migrations.

  \<^bold>\<open>Simplifications.\<close> Accounts are started and stopped one after the other, where the
  program runs up to four at once. A token column repeats its id and is left out. Log lines, and
  best-effort logouts from the IMAP server, are left out. Sets that the code iterates in no
  fixed order are lists; the order of capabilities in their JSON is left out. Counters of messages
  and of key presses are natural numbers, and a sum in SQL does not overflow. A user is
  looked up by name as the adapter does it, with the ASCII lower-casing of SQLite on the column and
  Unicode's, a parameter, on the name given (\<open>accented_capital_cannot_log_in\<close>); \<open>LIKE\<close> with a pattern between
  percent signs is containment. The cached sessions of \<open>SuperAdmin\<close> are a set. The effects of a
  changed signal run before the browser's next event.

  \<^bold>\<open>Not modelled.\<close> Markup, styling and browser scripts; \<open>format_bytes\<close>, which computes in
  floating point; the wiring of services, the router and its middleware; the migrations as such
  (their constraints are in \<open>Schema\<close> and the adapters); the executables and their configuration
  (\<open>crates/mailkeep\<close>); the stand-ins of the connection probe, which panic when called; and the
  stale copy of the user code in \<open>crates/user\<close>, which no build uses. The integration tests are
  not part of the program.
\<close>

end
